(* ===== verification/Prelude.thy ===== *)
theory Prelude
  imports
    Main
    "HOL-Library.Char_ord"
    "HOL-Library.List_Lexorder"
    "HOL-Library.Product_Lexorder"
    "HOL-Library.AList"
    "HOL-Library.Code_Target_Nat"
    "HOL-Library.Sublist"
begin

section \<open>Shared vocabulary of the peipkg development\<close>

text \<open>
  What every other theory uses: Go strings and the functions of the package
  \<open>strings\<close> the code calls, results that carry an error, Go maps keyed by strings,
  and the two interfaces the components share, the three-way comparison and the
  keyed store.

  A Go string is a sequence of bytes, and so is a \<^typ>\<open>string\<close> here: one
  \<^typ>\<open>char\<close> is one byte, \<open>length\<close> is Go's \<open>len\<close>, and the order
  \<open><\<close> is the bytewise lexicographic order of Go's string comparison.
\<close>

named_theorems result_simps \<open>unfolding the error-carrying combinators\<close>
named_theorems map_simps \<open>lookups after updates of a Go map\<close>

subsection \<open>Results\<close>

text \<open>
  A Go function that returns \<open>(T, error)\<close> returns a value of the sum type here:
  \<^const>\<open>Inl\<close> with the error, \<^const>\<open>Inr\<close> with the value.
\<close>

definition rbind :: "'e + 'a \<Rightarrow> ('a \<Rightarrow> 'e + 'b) \<Rightarrow> 'e + 'b" where
  "rbind m f = (case m of Inl e \<Rightarrow> Inl e | Inr x \<Rightarrow> f x)"

definition rmap_err :: "('e \<Rightarrow> 'f) \<Rightarrow> 'e + 'a \<Rightarrow> 'f + 'a" where
  "rmap_err g m = (case m of Inl e \<Rightarrow> Inl (g e) | Inr x \<Rightarrow> Inr x)"

lemma rbind_Inl [simp]: "rbind (Inl e) f = Inl e"
  by (simp add: rbind_def)

lemma rbind_Inr [simp]: "rbind (Inr x) f = f x"
  by (simp add: rbind_def)

lemma rbind_eq_Inr [result_simps]: "rbind m f = Inr y \<longleftrightarrow> (\<exists>x. m = Inr x \<and> f x = Inr y)"
  by (cases m) auto

lemma rmap_err_Inl [simp]: "rmap_err g (Inl e) = Inl (g e)"
  by (simp add: rmap_err_def)

lemma rmap_err_Inr [simp]: "rmap_err g (Inr x) = Inr x"
  by (simp add: rmap_err_def)

lemma rmap_err_eq_Inr [result_simps]: "rmap_err g m = Inr y \<longleftrightarrow> m = Inr y"
  by (cases m) auto

text \<open>A loop over a slice that converts every element and stops at the first error.\<close>

fun traverse :: "('a \<Rightarrow> 'e + 'b) \<Rightarrow> 'a list \<Rightarrow> 'e + 'b list" where
  "traverse f [] = Inr []"
| "traverse f (x # xs) = rbind (f x) (\<lambda>y. rbind (traverse f xs) (\<lambda>ys. Inr (y # ys)))"

lemma traverse_eq_Inr: "traverse f xs = Inr ys \<longleftrightarrow> list_all2 (\<lambda>x y. f x = Inr y) xs ys"
  by (induction xs arbitrary: ys) (auto simp: result_simps list_all2_Cons1)

lemma traverse_length: "traverse f xs = Inr ys \<Longrightarrow> length ys = length xs"
  by (auto simp: traverse_eq_Inr dest: list_all2_lengthD)

lemma traverse_mem:
  assumes "traverse f xs = Inr ys" and "y \<in> set ys"
  obtains x where "x \<in> set xs" and "f x = Inr y"
  using assms unfolding traverse_eq_Inr list_all2_conv_all_nth in_set_conv_nth
  by (metis nth_mem)

text \<open>A loop over a slice that updates a state and stops at the first error.\<close>

fun fold_res :: "('a \<Rightarrow> 's \<Rightarrow> 'e + 's) \<Rightarrow> 'a list \<Rightarrow> 's \<Rightarrow> 'e + 's" where
  "fold_res f [] s = Inr s"
| "fold_res f (x # xs) s = (case f x s of Inl e \<Rightarrow> Inl e | Inr s' \<Rightarrow> fold_res f xs s')"

lemma fold_res_inv:
  assumes "fold_res f xs s = Inr s'" and "P s"
    and "\<And>x s s'. x \<in> set xs \<Longrightarrow> P s \<Longrightarrow> f x s = Inr s' \<Longrightarrow> P s'"
  shows "P s'"
  using assms
proof (induction xs arbitrary: s)
  case (Cons x xs)
  from Cons.prems(1) obtain t where t: "f x s = Inr t" "fold_res f xs t = Inr s'"
    by (auto split: sum.splits)
  with Cons.prems(2,3) have "P t" by auto
  with t(2) Cons.prems(3) show ?case by (auto intro: Cons.IH [of t])
qed simp

text \<open>Every element of the slice has been dealt with, when dealing with one is not undone later.\<close>

lemma fold_res_all:
  assumes "fold_res f xs s = Inr s'" and "P s"
    and "\<And>x s s'. x \<in> set xs \<Longrightarrow> P s \<Longrightarrow> f x s = Inr s' \<Longrightarrow> P s' \<and> Q x s'"
    and "\<And>x y s s'. y \<in> set xs \<Longrightarrow> P s \<Longrightarrow> f y s = Inr s' \<Longrightarrow> Q x s \<Longrightarrow> Q x s'"
  shows "P s' \<and> (\<forall>x\<in>set xs. Q x s')"
  using assms
proof (induction xs arbitrary: s)
  case (Cons x xs)
  from Cons.prems(1) obtain t where t: "f x s = Inr t" "fold_res f xs t = Inr s'"
    by (auto split: sum.splits)
  with Cons.prems(2,3) have pq: "P t" "Q x t" by auto
  have "P s' \<and> (\<forall>x\<in>set xs. Q x s')"
  proof (rule Cons.IH [OF t(2) pq(1)])
    show "P s' \<and> Q y s'" if "y \<in> set xs" "P s" "f y s = Inr s'" for y s s'
      using Cons.prems(3) [of y s s'] that by simp
    show "Q x s'" if "y \<in> set xs" "P s" "f y s = Inr s'" "Q x s" for x y s s'
      using Cons.prems(4) [of y s s' x] that by simp
  qed
  moreover have "P s' \<and> Q x s'"
    using t(2)
  proof (rule fold_res_inv [where P = "\<lambda>s. P s \<and> Q x s"])
    show "P t \<and> Q x t" using pq by simp
    show "P s' \<and> Q x s'" if "y \<in> set xs" "P s \<and> Q x s" "f y s = Inr s'" for y s s'
      using Cons.prems(3) [of y s s'] Cons.prems(4) [of y s s' x] that by simp
  qed
  ultimately show ?case by auto
qed simp

lemma fold_res_Inl:
  assumes "fold_res f xs s = Inl e" and "P s"
    and "\<And>x s s'. x \<in> set xs \<Longrightarrow> P s \<Longrightarrow> f x s = Inr s' \<Longrightarrow> P s'"
  obtains x t where "x \<in> set xs" and "P t" and "f x t = Inl e"
  using assms
proof (induction xs arbitrary: s)
  case (Cons x xs)
  show ?case
  proof (cases "f x s")
    case (Inl e')
    with Cons.prems show ?thesis by auto
  next
    case (Inr t)
    with Cons.prems(2) have loop: "fold_res f xs t = Inl e" by simp
    have "P t" by (rule Cons.prems(4) [OF _ Cons.prems(3) Inr]) simp
    show ?thesis
    proof (rule Cons.IH [OF _ loop \<open>P t\<close>])
      show thesis if "y \<in> set xs" "P t" "f y t = Inl e" for y t
        using Cons.prems(1) [of y t] that by simp
      show "P s'" if "y \<in> set xs" "P s" "f y s = Inr s'" for y s s'
        using Cons.prems(4) [of y s s'] that by simp
    qed
  qed
qed simp

text \<open>A loop that only checks, and stops at the first error.\<close>

fun each_res :: "('a \<Rightarrow> 'e + unit) \<Rightarrow> 'a list \<Rightarrow> 'e + unit" where
  "each_res f [] = Inr ()"
| "each_res f (x # xs) = (case f x of Inl e \<Rightarrow> Inl e | Inr _ \<Rightarrow> each_res f xs)"

lemma each_res_ok [result_simps]: "each_res f xs = Inr () \<longleftrightarrow> (\<forall>x\<in>set xs. f x = Inr ())"
  by (induction xs) (auto split: sum.splits)

text \<open>The same with the index the code puts into its messages.\<close>

fun traverse_idx :: "(nat \<Rightarrow> 'a \<Rightarrow> 'e + 'b) \<Rightarrow> nat \<Rightarrow> 'a list \<Rightarrow> 'e + 'b list" where
  "traverse_idx f i [] = Inr []"
| "traverse_idx f i (x # xs) =
     rbind (f i x) (\<lambda>y. rbind (traverse_idx f (Suc i) xs) (\<lambda>ys. Inr (y # ys)))"

lemma traverse_idx_length: "traverse_idx f i xs = Inr ys \<Longrightarrow> length ys = length xs"
  by (induction xs arbitrary: i ys) (auto simp: result_simps)

lemma traverse_idx_nth:
  "traverse_idx f i xs = Inr ys \<Longrightarrow> k < length xs \<Longrightarrow> f (i + k) (xs ! k) = Inr (ys ! k)"
proof (induction xs arbitrary: i ys k)
  case (Cons x xs)
  then show ?case by (cases k) (fastforce simp: result_simps)+
qed simp

lemma traverse_idx_mem:
  assumes "traverse_idx f i xs = Inr ys" and "y \<in> set ys"
  obtains k x where "x \<in> set xs" and "f k x = Inr y"
proof -
  from assms obtain k where "k < length ys" and "y = ys ! k"
    by (auto simp: in_set_conv_nth)
  moreover have "length ys = length xs" using assms(1) by (rule traverse_idx_length)
  ultimately have "xs ! k \<in> set xs" and "f (i + k) (xs ! k) = Inr y"
    using traverse_idx_nth [OF assms(1), of k] by auto
  then show thesis by (rule that)
qed

subsection \<open>The functions of package strings\<close>

text \<open>\<open>strings.HasPrefix(s, p)\<close> and \<open>strings.HasSuffix(s, p)\<close>.\<close>

definition has_prefix :: "string \<Rightarrow> string \<Rightarrow> bool" where
  "has_prefix s p \<longleftrightarrow> prefix p s"

definition has_suffix :: "string \<Rightarrow> string \<Rightarrow> bool" where
  "has_suffix s p \<longleftrightarrow> suffix p s"

text \<open>\<open>strings.Cut\<close> at one byte: the parts before and after its first occurrence.\<close>

fun cut_byte :: "char \<Rightarrow> string \<Rightarrow> (string \<times> string) option" where
  "cut_byte c [] = None"
| "cut_byte c (x # xs) =
     (if x = c then Some ([], xs) else map_option (\<lambda>(a, b). (x # a, b)) (cut_byte c xs))"

text \<open>The parts before and after \<open>strings.LastIndexByte\<close>.\<close>

fun cut_last_byte :: "char \<Rightarrow> string \<Rightarrow> (string \<times> string) option" where
  "cut_last_byte c [] = None"
| "cut_last_byte c (x # xs) =
     (case cut_last_byte c xs of
        Some (a, b) \<Rightarrow> Some (x # a, b)
      | None \<Rightarrow> if x = c then Some ([], xs) else None)"

text \<open>\<open>strings.Split(s, sep)\<close> for a separator of one byte.\<close>

fun split_byte :: "char \<Rightarrow> string \<Rightarrow> string list" where
  "split_byte c [] = [[]]"
| "split_byte c (x # xs) =
     (if x = c then [] # split_byte c xs
      else (case split_byte c xs of [] \<Rightarrow> [[x]] | p # ps \<Rightarrow> (x # p) # ps))"

text \<open>\<open>strings.Join(parts, sep)\<close>.\<close>

fun join :: "string \<Rightarrow> string list \<Rightarrow> string" where
  "join sep [] = []"
| "join sep [p] = p"
| "join sep (p # q # ps) = p @ sep @ join sep (q # ps)"

lemma cut_byte_None [simp]: "cut_byte c s = None \<longleftrightarrow> c \<notin> set s"
  by (induction s) auto

lemma cut_byte_Some: "cut_byte c s = Some (a, b) \<longleftrightarrow> s = a @ c # b \<and> c \<notin> set a"
proof (induction s arbitrary: a)
  case (Cons x xs)
  then show ?case by (cases a) auto
qed simp

lemma cut_last_byte_None [simp]: "cut_last_byte c s = None \<longleftrightarrow> c \<notin> set s"
  by (induction s) (auto split: option.splits)

lemma cut_last_byte_Some: "cut_last_byte c s = Some (a, b) \<longleftrightarrow> s = a @ c # b \<and> c \<notin> set b"
proof (induction s arbitrary: a b)
  case (Cons x xs)
  show ?case
  proof (cases "cut_last_byte c xs")
    case None
    then have "c \<notin> set xs" by simp
    then show ?thesis by (cases a) (auto simp: None simp del: cut_last_byte_None)
  next
    case (Some p)
    obtain a' b' where p: "p = (a', b')" by force
    with Some Cons [of a' b'] have xs: "xs = a' @ c # b'" "c \<notin> set b'" by auto
    with Some p Cons [of "tl a" b] show ?thesis
      by (cases a) auto
  qed
qed simp

lemma split_byte_nonempty [simp]: "split_byte c s \<noteq> []"
  by (cases s) (auto split: list.splits)

lemma split_byte_no_sep: "c \<notin> set s \<Longrightarrow> split_byte c s = [s]"
  by (induction s) auto

lemma split_byte_append: "c \<notin> set p \<Longrightarrow> split_byte c (p @ c # s) = p # split_byte c s"
  by (induction p) auto

lemma split_byte_parts: "p \<in> set (split_byte c s) \<Longrightarrow> c \<notin> set p"
  by (induction s arbitrary: p) (auto split: if_splits list.splits)

lemma split_byte_join: "join [c] (split_byte c s) = s"
proof (induction s)
  case (Cons x xs)
  show ?case
  proof (cases "split_byte c xs")
    case (Cons p ps)
    with Cons.IH show ?thesis by (cases ps) auto
  qed simp
qed simp

lemma join_split_byte:
  "ps \<noteq> [] \<Longrightarrow> \<forall>p\<in>set ps. c \<notin> set p \<Longrightarrow> split_byte c (join [c] ps) = ps"
  by (induction "[c]" ps rule: join.induct) (auto simp: split_byte_no_sep split_byte_append)

lemma split_byte_chars: "p \<in> set (split_byte c s) \<Longrightarrow> set p \<subseteq> set s"
  by (induction s arbitrary: p) (fastforce split: if_splits list.splits)+

text \<open>
  \<open>strings.TrimSpace\<close> removes the Unicode white space at both ends. On bytes these are
  the UTF-8 encodings of the 25 white-space code points.
\<close>

definition white_space :: "string list" where
  "white_space =
     [[CHR 0x09], [CHR 0x0A], [CHR 0x0B], [CHR 0x0C], [CHR 0x0D], [CHR 0x20],
      [CHR 0xC2, CHR 0x85], [CHR 0xC2, CHR 0xA0], [CHR 0xE1, CHR 0x9A, CHR 0x80]]
     @ map (\<lambda>c. [CHR 0xE2, CHR 0x80, c])
         [CHR 0x80, CHR 0x81, CHR 0x82, CHR 0x83, CHR 0x84, CHR 0x85, CHR 0x86, CHR 0x87,
          CHR 0x88, CHR 0x89, CHR 0x8A, CHR 0xA8, CHR 0xA9, CHR 0xAF]
     @ [[CHR 0xE2, CHR 0x81, CHR 0x9F], [CHR 0xE3, CHR 0x80, CHR 0x80]]"

fun strip_one :: "string list \<Rightarrow> string \<Rightarrow> string option" where
  "strip_one [] s = None"
| "strip_one (w # ws) s =
     (if w \<noteq> [] \<and> prefix w s then Some (drop (length w) s) else strip_one ws s)"

lemma strip_one_shorter: "strip_one ws s = Some t \<Longrightarrow> length t < length s"
  by (induction ws) (auto split: if_splits simp: prefix_def)

function strip_all :: "string list \<Rightarrow> string \<Rightarrow> string" where
  "strip_all ws s = (case strip_one ws s of None \<Rightarrow> s | Some t \<Rightarrow> strip_all ws t)"
  by pat_completeness auto
termination
  by (relation "measure (\<lambda>(ws, s). length s)") (auto dest: strip_one_shorter)

declare strip_all.simps [simp del]

definition trim_space :: "string \<Rightarrow> string" where
  "trim_space s = rev (strip_all (map rev white_space) (rev (strip_all white_space s)))"

lemma strip_one_none: "\<forall>w\<in>set ws. w \<noteq> [] \<longrightarrow> \<not> prefix w s \<Longrightarrow> strip_one ws s = None"
  by (induction ws) auto

lemma strip_all_none: "strip_one ws s = None \<Longrightarrow> strip_all ws s = s"
  by (simp add: strip_all.simps [of ws s])

lemma strip_all_suffix: "suffix (strip_all ws s) s"
proof (induction ws s rule: strip_all.induct)
  case (1 ws s)
  show ?case
  proof (cases "strip_one ws s")
    case None
    then show ?thesis by (simp add: strip_all_none)
  next
    case (Some t)
    have "suffix t s" using Some
      by (induction ws) (auto split: if_splits simp: suffix_drop)
    with 1 [OF Some] Some show ?thesis
      by (simp add: strip_all.simps [of ws s] suffix_order.trans)
  qed
qed

lemma trim_space_chars: "set (trim_space s) \<subseteq> set s"
proof -
  have "set (strip_all ws t) \<subseteq> set t" for ws t
    using strip_all_suffix [of ws t] by (rule set_mono_suffix)
  then show ?thesis
    unfolding trim_space_def by (metis (no_types) set_rev subset_trans)
qed

text \<open>
  A string whose first and last bytes begin and end no white space is left alone. Printable
  ASCII other than the blank is such a byte.
\<close>

definition graphic :: "char \<Rightarrow> bool" where
  "graphic c \<longleftrightarrow> CHR 0x21 \<le> c \<and> c \<le> CHR 0x7E"

lemma graphic_not_white:
  "w \<in> set white_space \<Longrightarrow> w \<noteq> [] \<and> \<not> graphic (hd w) \<and> \<not> graphic (last w)"
  by (auto simp: white_space_def graphic_def less_eq_char_def)

lemma trim_space_graphic:
  assumes "s \<noteq> []" and "graphic (hd s)" and "graphic (last s)"
  shows "trim_space s = s"
proof -
  have "\<not> prefix w s" if "w \<in> set white_space" for w
    using graphic_not_white [OF that] assms(2) by (cases w) (auto simp: prefix_def)
  then have l: "strip_all white_space s = s"
    by (intro strip_all_none strip_one_none) blast
  have "\<not> prefix (rev w) (rev s)" if "w \<in> set white_space" for w
    using graphic_not_white [OF that] assms
    by (cases w rule: rev_cases) (auto simp: prefix_def hd_append dest!: arg_cong [where f = hd] split: if_splits)
  then have "strip_all (map rev white_space) (rev s) = rev s"
    by (intro strip_all_none strip_one_none) auto
  with l show ?thesis by (simp add: trim_space_def)
qed

subsection \<open>Three-way comparison\<close>

text \<open>
  \<open>cmp.Compare\<close> and \<open>strings.Compare\<close>: -1, 0 or 1. The contract of such a
  function, on which sorting, candidate selection and constraint matching rely, is the
  locale below: a total preorder.
\<close>

definition cmp_compare :: "'a::linorder \<Rightarrow> 'a \<Rightarrow> int" where
  "cmp_compare a b = (if a < b then - 1 else if a = b then 0 else 1)"

locale three_way =
  fixes cmp :: "'a \<Rightarrow> 'a \<Rightarrow> int"
  assumes cmp_sign: "cmp a b \<in> {- 1, 0, 1}"
    and cmp_swap: "cmp b a = - cmp a b"
    and cmp_trans: "cmp a b \<le> 0 \<Longrightarrow> cmp b c \<le> 0 \<Longrightarrow> cmp a c \<le> 0"
begin

lemma cmp_refl [simp]: "cmp a a = 0"
  using cmp_swap [of a a] by simp

lemma cmp_eq_sym: "cmp a b = 0 \<Longrightarrow> cmp b a = 0"
  using cmp_swap [of a b] by simp

lemma cmp_ge_trans: "0 \<le> cmp a b \<Longrightarrow> 0 \<le> cmp b c \<Longrightarrow> 0 \<le> cmp a c"
  using cmp_trans [of c b a] cmp_swap [of a b] cmp_swap [of b c] cmp_swap [of a c] by linarith

lemma cmp_less_le_trans: "cmp a b < 0 \<Longrightarrow> cmp b c \<le> 0 \<Longrightarrow> cmp a c < 0"
  using cmp_trans [of a b c] cmp_trans [of b c a] cmp_swap [of a c] cmp_swap [of a b]
  by linarith

lemma cmp_le_less_trans: "cmp a b \<le> 0 \<Longrightarrow> cmp b c < 0 \<Longrightarrow> cmp a c < 0"
  using cmp_trans [of a b c] cmp_trans [of c a b] cmp_swap [of a c] cmp_swap [of b c]
  by linarith

lemma cmp_cong_left: "cmp a b = 0 \<Longrightarrow> cmp a c = cmp b c"
proof -
  assume ab: "cmp a b = 0"
  have "cmp a c \<le> 0 \<longleftrightarrow> cmp b c \<le> 0"
    using cmp_trans [of a b c] cmp_trans [of b a c] ab cmp_eq_sym [OF ab] by auto
  moreover have "0 \<le> cmp a c \<longleftrightarrow> 0 \<le> cmp b c"
    using cmp_ge_trans [of a b c] cmp_ge_trans [of b a c] ab cmp_eq_sym [OF ab] by auto
  ultimately show ?thesis using cmp_sign [of a c] cmp_sign [of b c] by auto
qed

lemma cmp_cong_right: "cmp b c = 0 \<Longrightarrow> cmp a b = cmp a c"
  using cmp_cong_left [of b c a] cmp_swap [of a b] cmp_swap [of a c] by simp

lemma cmp_eq_trans: "cmp a b = 0 \<Longrightarrow> cmp b c = 0 \<Longrightarrow> cmp a c = 0"
  using cmp_cong_left [of a b c] by simp

end

interpretation ord_cmp: three_way "cmp_compare :: 'a::linorder \<Rightarrow> 'a \<Rightarrow> int"
  by unfold_locales (auto simp: cmp_compare_def split: if_splits)

lemma cmp_compare_simps [simp]:
  "cmp_compare a b < 0 \<longleftrightarrow> a < b" "cmp_compare a b \<le> 0 \<longleftrightarrow> a \<le> b"
  "cmp_compare a b = 0 \<longleftrightarrow> a = b" "0 < cmp_compare a b \<longleftrightarrow> b < a"
  by (auto simp: cmp_compare_def)

lemma cmp_compare_eqI:
  fixes x y :: "'a::linorder" and u v :: "'b::linorder"
  assumes "x < y \<Longrightarrow> u < v" and "y < x \<Longrightarrow> v < u" and "x = y \<Longrightarrow> u = v"
  shows "cmp_compare x y = cmp_compare u v"
proof (cases x y rule: linorder_cases)
  case greater
  with assms(2) have "\<not> u < v" and "u \<noteq> v" and "\<not> x < y" by auto
  with greater show ?thesis by (simp add: cmp_compare_def)
qed (simp_all add: cmp_compare_def assms)

text \<open>Two ways to build a comparison: on a key, and lexicographically.\<close>

definition then_cmp :: "('a \<Rightarrow> 'a \<Rightarrow> int) \<Rightarrow> ('a \<Rightarrow> 'a \<Rightarrow> int) \<Rightarrow> 'a \<Rightarrow> 'a \<Rightarrow> int" where
  "then_cmp c d a b = (if c a b \<noteq> 0 then c a b else d a b)"

lemma three_way_key: "three_way c \<Longrightarrow> three_way (\<lambda>a b. c (f a) (f b))"
  unfolding three_way_def by blast

lemma three_way_then:
  assumes "three_way c" and "three_way d"
  shows "three_way (then_cmp c d)"
proof (rule three_way.intro)
  fix x y z
  show "then_cmp c d x y \<in> {- 1, 0, 1}"
    using three_way.cmp_sign [OF assms(1), of x y] three_way.cmp_sign [OF assms(2), of x y]
    by (auto simp: then_cmp_def)
  show "then_cmp c d y x = - then_cmp c d x y"
    using three_way.cmp_swap [OF assms(1), of x y] three_way.cmp_swap [OF assms(2), of x y]
    by (auto simp: then_cmp_def)
  assume xy: "then_cmp c d x y \<le> 0" and yz: "then_cmp c d y z \<le> 0"
  show "then_cmp c d x z \<le> 0"
  proof (cases "c x y = 0 \<and> c y z = 0")
    case True
    with xy yz three_way.cmp_eq_trans [OF assms(1), of x y z]
    show ?thesis by (auto simp: then_cmp_def intro: three_way.cmp_trans [OF assms(2)])
  next
    case False
    with xy yz have "c x y \<le> 0 \<and> c y z < 0 \<or> c x y < 0 \<and> c y z \<le> 0"
      by (auto simp: then_cmp_def split: if_splits)
    then have "c x z < 0"
      using three_way.cmp_less_le_trans [OF assms(1)] three_way.cmp_le_less_trans [OF assms(1)]
      by blast
    then show ?thesis by (simp add: then_cmp_def)
  qed
qed

subsection \<open>Go maps keyed by strings\<close>

text \<open>
  A \<open>map[string]V\<close> is an association list. Go visits a map in no fixed order; the code
  either sorts the keys first (\<open>map_keys\<close> below) or does something for which the order
  does not matter.
\<close>

type_synonym 'v gomap = "(string \<times> 'v) list"

definition map_get :: "'v gomap \<Rightarrow> string \<Rightarrow> 'v option" where
  "map_get m = map_of m"

definition map_put :: "'v gomap \<Rightarrow> string \<Rightarrow> 'v \<Rightarrow> 'v gomap" where
  "map_put m k v = AList.update k v m"

definition map_del :: "'v gomap \<Rightarrow> string \<Rightarrow> 'v gomap" where
  "map_del m k = AList.delete k m"

definition map_keys :: "'v gomap \<Rightarrow> string list" where
  "map_keys m = sort (remdups (map fst m))"

text \<open>
  The interface: what a lookup returns after a store or a delete, and that the key list
  holds each key of the map once, in ascending order.
\<close>

locale keyed_store =
  fixes get :: "'m \<Rightarrow> 'k::linorder \<Rightarrow> 'v option"
    and put :: "'m \<Rightarrow> 'k \<Rightarrow> 'v \<Rightarrow> 'm"
    and del :: "'m \<Rightarrow> 'k \<Rightarrow> 'm"
    and keys :: "'m \<Rightarrow> 'k list"
  assumes get_put: "get (put m k v) = (get m)(k \<mapsto> v)"
    and get_del: "get (del m k) = (get m)(k := None)"
    and set_keys: "set (keys m) = dom (get m)"
    and sorted_keys: "sorted (keys m)"
    and distinct_keys: "distinct (keys m)"
begin

lemma get_del_all: "get (foldl del m ks) = (get m) |` (- set ks)"
  by (induction ks arbitrary: m) (auto simp: get_del restrict_map_def fun_eq_iff)

lemma keys_in: "k \<in> set (keys m) \<longleftrightarrow> (\<exists>v. get m k = Some v)"
  by (auto simp: set_keys)

lemma finite_dom: "finite (dom (get m))"
  by (metis List.finite_set set_keys)

lemma length_keys: "length (keys m) = card (dom (get m))"
  by (metis distinct_card distinct_keys set_keys)

lemma length_keys_del: "get m k = Some v \<Longrightarrow> length (keys (del m k)) < length (keys m)"
proof -
  assume k: "get m k = Some v"
  then have "dom (get (del m k)) \<subset> dom (get m)" by (auto simp: get_del)
  then show ?thesis by (simp add: length_keys psubset_card_mono finite_dom)
qed

lemma keys_unique: "dom (get m) = dom (get m') \<Longrightarrow> keys m = keys m'"
  by (simp add: set_keys sorted_keys distinct_keys sorted_distinct_set_unique)

end

lemma dom_map_get: "dom (map_get m) = set (map fst m)"
  unfolding map_get_def by (simp add: dom_map_of_conv_image_fst)

interpretation gomap: keyed_store map_get map_put map_del map_keys
  by unfold_locales
     (simp_all add: dom_map_get map_keys_def,
      simp_all add: map_get_def map_put_def map_del_def update_conv' delete_conv')

lemmas gomap_simps [map_simps] = gomap.get_put gomap.get_del

lemma map_get_Nil [simp]: "map_get [] k = None"
  by (simp add: map_get_def)

lemma map_keys_Nil [simp]: "map_keys [] = []"
  by (simp add: map_keys_def)

text \<open>The entries of a map, one per key, in the order of the keys.\<close>

definition map_entries :: "'v gomap \<Rightarrow> (string \<times> 'v) list" where
  "map_entries m = map (\<lambda>k. (k, the (map_get m k))) (map_keys m)"

lemma map_entries_mem: "(k, v) \<in> set (map_entries m) \<longleftrightarrow> map_get m k = Some v"
  by (auto simp: map_entries_def gomap.set_keys)

lemma map_entries_keys: "map fst (map_entries m) = map_keys m"
  by (simp add: map_entries_def o_def)

lemma map_entries_Nil [simp]: "map_entries [] = []"
  by (simp add: map_entries_def)

text \<open>Building a map by storing the elements of a slice one after the other.\<close>

definition map_put_all :: "('a \<Rightarrow> string) \<Rightarrow> ('a \<Rightarrow> 'v) \<Rightarrow> 'v gomap \<Rightarrow> 'a list \<Rightarrow> 'v gomap" where
  "map_put_all key val m xs = foldl (\<lambda>m x. map_put m (key x) (val x)) m xs"

lemma map_get_put_all_dom:
  "dom (map_get (map_put_all key val m xs)) = dom (map_get m) \<union> key ` set xs"
  by (induction xs arbitrary: m) (auto simp: map_put_all_def gomap.get_put)

lemma map_get_put_all_Some:
  "map_get (map_put_all key val m xs) k = Some v \<Longrightarrow>
     map_get m k = Some v \<or> (\<exists>x\<in>set xs. key x = k \<and> val x = v)"
proof (induction xs arbitrary: m)
  case (Cons x xs)
  from Cons.IH [of "map_put m (key x) (val x)"] Cons.prems show ?case
    by (auto simp: map_put_all_def gomap.get_put split: if_splits)
qed (simp add: map_put_all_def)

lemma map_get_put_all_keep:
  "k \<notin> key ` set xs \<Longrightarrow> map_get (map_put_all key val m xs) k = map_get m k"
  by (induction xs arbitrary: m) (auto simp: map_put_all_def gomap.get_put)

lemma map_get_put_all_distinct:
  "distinct (map key xs) \<Longrightarrow> x \<in> set xs \<Longrightarrow> map_get (map_put_all key val m xs) (key x) = Some (val x)"
proof (induction xs arbitrary: m)
  case (Cons y ys)
  show ?case
  proof (cases "x \<in> set ys")
    case True
    with Cons show ?thesis by (simp add: map_put_all_def)
  next
    case False
    with Cons.prems have "x = y" and "key y \<notin> key ` set ys" by auto
    then show ?thesis
      using map_get_put_all_keep [of "key y" key ys val "map_put m (key y) (val y)"]
      by (simp add: map_put_all_def gomap.get_put)
  qed
qed simp

end
