(* ===== verification/Version.thy ===== *)
theory Version
  imports Prelude
begin

section \<open>Version strings and their order\<close>

text \<open>
  \<open>internal/version/version.go\<close> and \<open>compare.go\<close>: the version grammar, the
  tokenisation of an upstream version, and the comparison of two versions. A
  \<open>Version\<close> keeps the epoch and the revision as the digit strings they were parsed
  from, so nothing here depends on a word size.
\<close>

subsection \<open>Characters\<close>

definition isDigit :: "char \<Rightarrow> bool" where
  "isDigit c \<longleftrightarrow> CHR ''0'' \<le> c \<and> c \<le> CHR ''9''"

definition isLetter :: "char \<Rightarrow> bool" where
  "isLetter c \<longleftrightarrow> (CHR ''a'' \<le> c \<and> c \<le> CHR ''z'') \<or> (CHR ''A'' \<le> c \<and> c \<le> CHR ''Z'')"

definition isAlphanumeric :: "char \<Rightarrow> bool" where
  "isAlphanumeric c \<longleftrightarrow> isDigit c \<or> isLetter c"

lemma isDigit_not [simp]:
  "\<not> isDigit CHR '':''" "\<not> isDigit CHR ''-''" "\<not> isDigit CHR ''.''" "\<not> isDigit CHR ''+''"
  "\<not> isDigit CHR ''~''" "\<not> isDigit CHR '',''"
  by (simp_all add: isDigit_def less_eq_char_def)

lemma isLetter_not [simp]:
  "\<not> isLetter CHR '':''" "\<not> isLetter CHR ''-''" "\<not> isLetter CHR ''.''" "\<not> isLetter CHR ''+''"
  "\<not> isLetter CHR ''~''" "\<not> isLetter CHR '',''"
  by (simp_all add: isLetter_def less_eq_char_def)

lemma digit_not_letter: "isDigit c \<Longrightarrow> \<not> isLetter c"
  by (auto simp: isDigit_def isLetter_def less_eq_char_def)

subsection \<open>Segments\<close>

datatype segmentKind = numeric | alphabetic

record segment =
  seg_kind :: segmentKind
  seg_text :: string
  seg_preRelease :: bool

text \<open>
  \<open>strings.ToLower\<close> on the only strings it is applied to, runs of ASCII letters.
\<close>

definition lower_char :: "char \<Rightarrow> char" where
  "lower_char c = (if CHR ''A'' \<le> c \<and> c \<le> CHR ''Z'' then char_of (of_char c + (32::nat)) else c)"

definition rankOther :: int where
  "rankOther = 5"

definition preReleaseRank :: "string \<Rightarrow> int" where
  "preReleaseRank s =
     (let l = map lower_char s in
      if l = ''dev'' then 0
      else if l = ''alpha'' \<or> l = ''a'' then 1
      else if l = ''beta'' \<or> l = ''b'' then 2
      else if l = ''pre'' then 3
      else if l = ''rc'' then 4
      else rankOther)"

text \<open>
  The tokeniser's loop over the rest of the string. In its default branch the inner loop
  takes a run of letters; on a byte that is no letter the run is empty and the loop stays
  where it is for ever, which is the value \<^const>\<open>None\<close>. Validation excludes such a
  byte before the tokeniser runs (\<open>tokenize_valid\<close>).
\<close>

partial_function (option) tokenize_loop :: "segment list \<Rightarrow> bool \<Rightarrow> string \<Rightarrow> segment list option" where
  "tokenize_loop segments preRelease rest =
     (case rest of
        [] \<Rightarrow> Some segments
      | c # cs \<Rightarrow>
          if c = CHR ''~'' then tokenize_loop segments True cs
          else if c = CHR ''.'' \<or> c = CHR ''+'' \<or> c = CHR ''-'' then
            tokenize_loop segments preRelease cs
          else if isDigit c then
            tokenize_loop
              (segments @ [\<lparr>seg_kind = numeric, seg_text = takeWhile isDigit rest,
                            seg_preRelease = preRelease\<rparr>])
              preRelease (dropWhile isDigit rest)
          else
            (let txt = takeWhile isLetter rest;
                 pre = preRelease \<or> preReleaseRank txt < rankOther
             in tokenize_loop
                  (segments @ [\<lparr>seg_kind = alphabetic, seg_text = txt, seg_preRelease = pre\<rparr>])
                  pre (dropWhile isLetter rest)))"

declare tokenize_loop.simps [code]

definition tokenize :: "string \<Rightarrow> segment list option" where
  "tokenize upstream = tokenize_loop [] False upstream"

subsection \<open>Parsing\<close>

datatype numberError = EmptyNumber | NotDecimal string | LeadingZero string

datatype upstreamError = EmptyUpstream | BadFirstCharacter | InvalidCharacter char

datatype versionError =
    InvalidEpoch string numberError
  | InvalidRevision string numberError
  | RevisionNotPositive string
  | NoRevision string
  | InvalidUpstream string upstreamError
  | TokenizerLoops string

record version =
  v_raw :: string
  v_epoch :: string
  v_upstream :: string
  v_revision :: string
  v_segments :: "segment list"

definition Epoch :: "version \<Rightarrow> string" where
  "Epoch v = (if v_epoch v = [] then ''0'' else v_epoch v)"

definition parseDecimal :: "string \<Rightarrow> numberError + string" where
  "parseDecimal s =
     (if s = [] then Inl EmptyNumber
      else if \<not> list_all isDigit s then Inl (NotDecimal s)
      else if length s > 1 \<and> s ! 0 = CHR ''0'' then Inl (LeadingZero s)
      else Inr s)"

definition hasNonDigit :: "string \<Rightarrow> bool" where
  "hasNonDigit s \<longleftrightarrow> list_ex (\<lambda>c. \<not> isDigit c) s"

definition upstreamChar :: "char \<Rightarrow> bool" where
  "upstreamChar c \<longleftrightarrow> isAlphanumeric c \<or> c = CHR ''.'' \<or> c = CHR ''+'' \<or> c = CHR ''-'' \<or> c = CHR ''~''"

definition validateUpstream :: "string \<Rightarrow> upstreamError + unit" where
  "validateUpstream s =
     (case s of
        [] \<Rightarrow> Inl EmptyUpstream
      | c # _ \<Rightarrow>
          if \<not> isAlphanumeric c then Inl BadFirstCharacter
          else (case filter (\<lambda>c. \<not> upstreamChar c) s of
                  [] \<Rightarrow> Inr ()
                | b # _ \<Rightarrow> Inl (InvalidCharacter b)))"

definition parse_epoch :: "string \<Rightarrow> versionError + string \<times> string" where
  "parse_epoch s =
     (case cut_byte (CHR '':'') s of
        Some (epochStr, after) \<Rightarrow>
          (case parseDecimal epochStr of
             Inl e \<Rightarrow> Inl (InvalidEpoch s e)
           | Inr epoch \<Rightarrow> Inr (epoch, after))
      | None \<Rightarrow> Inr ([], s))"

definition parse_revision :: "string \<Rightarrow> bool \<Rightarrow> string \<Rightarrow> versionError + string \<times> string" where
  "parse_revision s revisionOptional rest =
     (case cut_last_byte (CHR ''-'') rest of
        Some (before, grp) \<Rightarrow>
          (case parseDecimal grp of
             Inr revision \<Rightarrow>
               if revision \<noteq> ''0'' then Inr (before, revision)
               else if revisionOptional \<and> hasNonDigit grp then Inr (rest, [])
               else Inl (RevisionNotPositive s)
           | Inl e \<Rightarrow>
               if revisionOptional \<and> hasNonDigit grp then Inr (rest, [])
               else Inl (InvalidRevision s e))
      | None \<Rightarrow> if \<not> revisionOptional then Inl (NoRevision s) else Inr (rest, []))"

definition parse :: "string \<Rightarrow> bool \<Rightarrow> versionError + version" where
  "parse s revisionOptional =
     (case parse_epoch s of
        Inl e \<Rightarrow> Inl e
      | Inr (epoch, rest) \<Rightarrow>
          (case parse_revision s revisionOptional rest of
             Inl e \<Rightarrow> Inl e
           | Inr (upstream, revision) \<Rightarrow>
               (case validateUpstream upstream of
                  Inl e \<Rightarrow> Inl (InvalidUpstream s e)
                | Inr _ \<Rightarrow>
                    (case tokenize upstream of
                       None \<Rightarrow> Inl (TokenizerLoops upstream)
                     | Some segments \<Rightarrow>
                         Inr \<lparr>v_raw = s, v_epoch = epoch, v_upstream = upstream,
                              v_revision = revision, v_segments = segments\<rparr>))))"

definition Parse :: "string \<Rightarrow> versionError + version" where
  "Parse s = parse s False"

definition ParseRelaxed :: "string \<Rightarrow> versionError + version" where
  "ParseRelaxed s = parse s True"

subsection \<open>Comparison\<close>

definition compareNumeric :: "string \<Rightarrow> string \<Rightarrow> int" where
  "compareNumeric a b =
     (let a = dropWhile (\<lambda>c. c = CHR ''0'') a;
          b = dropWhile (\<lambda>c. c = CHR ''0'') b
      in if length a \<noteq> length b then cmp_compare (length a) (length b)
         else cmp_compare a b)"

definition compareSegment :: "segment \<Rightarrow> segment \<Rightarrow> int" where
  "compareSegment a b =
     (if seg_preRelease a \<noteq> seg_preRelease b then (if seg_preRelease a then - 1 else 1)
      else
        (case (seg_kind a, seg_kind b) of
           (numeric, numeric) \<Rightarrow> compareNumeric (seg_text a) (seg_text b)
         | (alphabetic, alphabetic) \<Rightarrow>
             (let ra = preReleaseRank (seg_text a); rb = preReleaseRank (seg_text b) in
              if ra \<noteq> rb then cmp_compare ra rb
              else if ra = rankOther then cmp_compare (seg_text a) (seg_text b)
              else 0)
         | (numeric, alphabetic) \<Rightarrow> if seg_preRelease b then 1 else - 1
         | (alphabetic, numeric) \<Rightarrow> if seg_preRelease a then - 1 else 1))"

text \<open>
  The loop over the common prefix; where one sequence goes on, its next segment decides.
\<close>

fun compareSegments :: "segment list \<Rightarrow> segment list \<Rightarrow> int" where
  "compareSegments [] [] = 0"
| "compareSegments [] (next # _) = (if seg_preRelease next then 1 else - 1)"
| "compareSegments (next # _) [] = - (if seg_preRelease next then 1 else - 1)"
| "compareSegments (a # as) (b # bs) =
     (let c = compareSegment a b in if c \<noteq> 0 then c else compareSegments as bs)"

definition compareEpochUpstream :: "version \<Rightarrow> version \<Rightarrow> int" where
  "compareEpochUpstream a b =
     (let c = compareNumeric (v_epoch a) (v_epoch b) in
      if c \<noteq> 0 then c else compareSegments (v_segments a) (v_segments b))"

definition Compare :: "version \<Rightarrow> version \<Rightarrow> int" where
  "Compare a b =
     (let c = compareEpochUpstream a b in
      if c \<noteq> 0 then c else compareNumeric (v_revision a) (v_revision b))"

definition Equal :: "version \<Rightarrow> version \<Rightarrow> bool" where
  "Equal v other \<longleftrightarrow> Compare v other = 0"

definition Less :: "version \<Rightarrow> version \<Rightarrow> bool" where
  "Less v other \<longleftrightarrow> Compare v other < 0"

subsection \<open>The order is a total preorder\<close>

interpretation num_cmp: three_way compareNumeric
proof -
  let ?key = "dropWhile (\<lambda>c. c = CHR ''0'')"
  have "three_way (then_cmp (\<lambda>a b. cmp_compare (length a) (length b)) cmp_compare)"
    by (intro three_way_then three_way_key [where f = length] ord_cmp.three_way_axioms)
  then have "three_way (\<lambda>a b. then_cmp (\<lambda>a b. cmp_compare (length a) (length b)) cmp_compare
      (?key a) (?key b))"
    by (rule three_way_key)
  moreover have "compareNumeric = (\<lambda>a b. then_cmp (\<lambda>a b. cmp_compare (length a) (length b))
      cmp_compare (?key a) (?key b))"
    by (intro ext) (simp only: compareNumeric_def then_cmp_def Let_def cmp_compare_simps if_not_P)
  ultimately show "three_way compareNumeric" by (simp only:)
qed

text \<open>
  A segment compares like a key: its place (pre-release first), within the place its kind,
  within a kind its number or its rank and text.
\<close>

definition seg_class :: "segment \<Rightarrow> nat" where
  "seg_class s =
     (if seg_preRelease s then (if seg_kind s = alphabetic then 0 else 1)
      else (if seg_kind s = numeric then 2 else 3))"

definition alpha_cmp :: "string \<Rightarrow> string \<Rightarrow> int" where
  "alpha_cmp = then_cmp (\<lambda>a b. cmp_compare (preReleaseRank a) (preReleaseRank b))
     (\<lambda>a b. cmp_compare (if preReleaseRank a = rankOther then a else [])
                        (if preReleaseRank b = rankOther then b else []))"

definition seg_key_cmp :: "segment \<Rightarrow> segment \<Rightarrow> int" where
  "seg_key_cmp = then_cmp (\<lambda>a b. cmp_compare (seg_class a) (seg_class b))
     (then_cmp
        (\<lambda>a b. compareNumeric (if seg_kind a = numeric then seg_text a else [])
                              (if seg_kind b = numeric then seg_text b else []))
        (\<lambda>a b. alpha_cmp (if seg_kind a = alphabetic then seg_text a else [])
                         (if seg_kind b = alphabetic then seg_text b else [])))"

lemma three_way_seg_key: "three_way seg_key_cmp"
  unfolding seg_key_cmp_def alpha_cmp_def
  by (intro three_way_then three_way_key [where f = seg_class]
      three_way_key [where f = "\<lambda>a. if seg_kind a = numeric then seg_text a else []"]
      three_way_key [where f = "\<lambda>a. if seg_kind a = alphabetic then seg_text a else []"]
      three_way_key [where f = preReleaseRank]
      three_way_key [where f = "\<lambda>a. if preReleaseRank a = rankOther then a else []"]
      num_cmp.three_way_axioms ord_cmp.three_way_axioms)

lemma compareSegment_key: "compareSegment a b = seg_key_cmp a b"
  by (cases "seg_kind a"; cases "seg_kind b"; cases "seg_preRelease a"; cases "seg_preRelease b")
     (simp_all add: compareSegment_def seg_key_cmp_def then_cmp_def seg_class_def alpha_cmp_def
        cmp_compare_def Let_def)

interpretation seg_cmp: three_way compareSegment
  using three_way_seg_key by (simp add: compareSegment_key [abs_def])

lemma compareSegment_place:
  "compareSegment a b = 0 \<Longrightarrow> seg_preRelease a = seg_preRelease b"
  "compareSegment a b \<le> 0 \<Longrightarrow> seg_preRelease b \<Longrightarrow> seg_preRelease a"
  by (auto simp: compareSegment_def split: if_splits)

lemma compareSegments_swap: "compareSegments b a = - compareSegments a b"
proof (induction a b rule: compareSegments.induct)
  case (4 a as b bs)
  then show ?case using seg_cmp.cmp_swap [of a b] by (auto simp: Let_def)
qed auto

lemma compareSegments_sign: "compareSegments a b \<in> {- 1, 0, 1}"
  using seg_cmp.cmp_sign by (induction a b rule: compareSegments.induct) (auto simp: Let_def)

text \<open>
  Transitivity. The end of a sequence behaves like a segment between the pre-release
  ones and the ordinary ones, which \<open>compareSegment_place\<close> accounts for.
\<close>

lemma compareSegments_Cons:
  "compareSegments (x # xs) (y # ys) \<le> 0 \<longleftrightarrow>
     compareSegment x y < 0 \<or> compareSegment x y = 0 \<and> compareSegments xs ys \<le> 0"
  by (auto simp: Let_def)

lemma compareSegments_trans:
  "compareSegments a b \<le> 0 \<Longrightarrow> compareSegments b c \<le> 0 \<Longrightarrow> compareSegments a c \<le> 0"
proof (induction a arbitrary: b c)
  case Nil
  show ?case
  proof (cases b)
    case Nil
    with \<open>compareSegments b c \<le> 0\<close> show ?thesis by simp
  next
    case (Cons y ys)
    with Nil.prems have y: "\<not> seg_preRelease y" by (simp split: if_splits)
    show ?thesis
    proof (cases c)
      fix z zs assume c: "c = z # zs"
      with Cons Nil.prems have "compareSegment y z \<le> 0"
        by (simp only: compareSegments_Cons) linarith
      with y c show ?thesis using compareSegment_place(2) by auto
    qed simp
  qed
next
  case (Cons x xs)
  show ?case
  proof (cases b)
    case Nil
    with Cons.prems show ?thesis
      by (cases c) (auto split: if_splits simp: compareSegment_def Let_def)
  next
    case (Cons y ys)
    show ?thesis
    proof (cases c)
      case Nil
      with Cons Cons.prems compareSegment_place [of x y] show ?thesis
        by (auto simp: compareSegments_Cons simp del: compareSegments.simps(4) split: if_splits)
    next
      fix z zs assume c: "c = z # zs"
      with Cons.prems \<open>b = y # ys\<close>
      have "compareSegment x y < 0 \<or> compareSegment x y = 0 \<and> compareSegments xs ys \<le> 0"
        and "compareSegment y z < 0 \<or> compareSegment y z = 0 \<and> compareSegments ys zs \<le> 0"
        by (simp_all only: compareSegments_Cons)
      then have "compareSegment x z < 0 \<or> compareSegment x z = 0 \<and> compareSegments xs zs \<le> 0"
        using seg_cmp.cmp_less_le_trans [of x y z] seg_cmp.cmp_le_less_trans [of x y z]
          seg_cmp.cmp_eq_trans [of x y z] Cons.IH [of ys zs] by auto
      with c show ?thesis by (simp only: compareSegments_Cons)
    qed
  qed
qed

interpretation segs_cmp: three_way compareSegments
  using compareSegments_sign compareSegments_swap compareSegments_trans
  by unfold_locales blast+

lemma compareEpochUpstream_then:
  "compareEpochUpstream = then_cmp (\<lambda>a b. compareNumeric (v_epoch a) (v_epoch b))
     (\<lambda>a b. compareSegments (v_segments a) (v_segments b))"
  by (simp add: compareEpochUpstream_def [abs_def] then_cmp_def fun_eq_iff Let_def)

interpretation upstream_cmp: three_way compareEpochUpstream
  unfolding compareEpochUpstream_then
  by (intro three_way_then three_way_key [where f = v_epoch] three_way_key [where f = v_segments]
      num_cmp.three_way_axioms segs_cmp.three_way_axioms)

interpretation version_cmp: three_way Compare
proof -
  have "Compare = then_cmp compareEpochUpstream
          (\<lambda>a b. compareNumeric (v_revision a) (v_revision b))"
    by (simp add: Compare_def [abs_def] then_cmp_def fun_eq_iff Let_def)
  moreover have "three_way \<dots>"
    by (intro three_way_then three_way_key [where f = v_revision]
        upstream_cmp.three_way_axioms num_cmp.three_way_axioms)
  ultimately show "three_way Compare" by (simp only:)
qed

text \<open>The order on the type, so that the library's lemmas on preorders apply to versions.\<close>

instantiation version_ext :: (type) preorder
begin

definition less_eq_version_ext :: "'a version_scheme \<Rightarrow> 'a version_scheme \<Rightarrow> bool" where
  "less_eq_version_ext a b \<longleftrightarrow> Compare (version.truncate a) (version.truncate b) \<le> 0"

definition less_version_ext :: "'a version_scheme \<Rightarrow> 'a version_scheme \<Rightarrow> bool" where
  "less_version_ext a b \<longleftrightarrow> Compare (version.truncate a) (version.truncate b) < 0"

instance
proof
  fix x y z :: "'a version_scheme"
  show "x < y \<longleftrightarrow> x \<le> y \<and> \<not> y \<le> x"
    using version_cmp.cmp_swap [of "version.truncate x" "version.truncate y"]
    by (auto simp: less_eq_version_ext_def less_version_ext_def)
  show "x \<le> x" by (simp add: less_eq_version_ext_def)
  show "x \<le> y \<Longrightarrow> y \<le> z \<Longrightarrow> x \<le> z"
    unfolding less_eq_version_ext_def by (rule version_cmp.cmp_trans)
qed

end

lemma version_truncate [simp]: "version.truncate (v::version) = v"
  by (cases v) (simp add: version.truncate_def)

lemma version_le_iff: "(v::version) \<le> w \<longleftrightarrow> Compare v w \<le> 0"
  by (simp add: less_eq_version_ext_def)

lemma version_less_iff: "(v::version) < w \<longleftrightarrow> Less v w"
  by (simp add: less_version_ext_def Less_def)

subsection \<open>Numbers are compared by value\<close>

fun decimal :: "string \<Rightarrow> nat" where
  "decimal [] = 0"
| "decimal (c # cs) = (of_char c - 48) * 10 ^ length cs + decimal cs"

lemma digit_bound: "isDigit c \<Longrightarrow> (of_char c :: nat) - 48 < 10"
  by (auto simp: isDigit_def less_eq_char_def)

lemma decimal_bound: "list_all isDigit s \<Longrightarrow> decimal s < 10 ^ length s"
proof (induction s)
  case (Cons c cs)
  then have "decimal cs < 10 ^ length cs" and "(of_char c :: nat) - 48 \<le> 9"
    using digit_bound [of c] by auto
  then have "((of_char c :: nat) - 48) * 10 ^ length cs + decimal cs < 9 * 10 ^ length cs + 10 ^ length cs"
    by (intro add_le_less_mono mult_le_mono1)
  then show ?case by simp
qed simp

lemma decimal_strip: "decimal (dropWhile (\<lambda>c. c = CHR ''0'') s) = decimal s"
  by (induction s) auto

lemma decimal_lower:
  assumes "isDigit c" and "c \<noteq> CHR ''0''"
  shows "10 ^ length cs \<le> decimal (c # cs)"
proof -
  have "(of_char c :: nat) \<noteq> of_char (CHR ''0'')"
    using assms(2) by (metis of_char_eq_iff)
  with assms(1) have "1 \<le> (of_char c :: nat) - 48" by (auto simp: isDigit_def less_eq_char_def)
  then have "1 * 10 ^ length cs \<le> ((of_char c :: nat) - 48) * 10 ^ length cs"
    by (rule mult_le_mono1)
  then show ?thesis unfolding decimal.simps mult_1 by (rule trans_le_add1)
qed

lemma decimal_shorter:
  assumes "list_all isDigit a" and "list_all isDigit (c # cs)" and "c \<noteq> CHR ''0''"
    and "length a < length (c # cs)"
  shows "decimal a < decimal (c # cs)"
proof -
  have "decimal a < 10 ^ length a" using assms(1) by (rule decimal_bound)
  also have "\<dots> \<le> 10 ^ length cs" using assms(4) by simp
  also have "\<dots> \<le> decimal (c # cs)" using assms(2,3) by (intro decimal_lower) simp_all
  finally show ?thesis .
qed

lemma digit_less: "isDigit c \<Longrightarrow> isDigit d \<Longrightarrow> c < d \<Longrightarrow> (of_char c :: nat) - 48 < of_char d - 48"
  by (auto simp: isDigit_def less_char_def less_eq_char_def)

lemma decimal_lex:
  "length a = length b \<Longrightarrow> list_all isDigit a \<Longrightarrow> list_all isDigit b \<Longrightarrow> a < b \<Longrightarrow> decimal a < decimal b"
proof (induction a b rule: list_induct2)
  case (Cons c cs d ds)
  show ?case
  proof (cases "c = d")
    case True
    with Cons show ?thesis by simp
  next
    case False
    with Cons.prems have "c < d" by simp
    with Cons.prems have "((of_char c :: nat) - 48) + 1 \<le> of_char d - 48"
      using digit_less [of c d] by simp
    then have "(((of_char c :: nat) - 48) + 1) * 10 ^ length ds \<le> (of_char d - 48) * 10 ^ length ds"
      by (rule mult_le_mono1)
    moreover have "decimal cs < 10 ^ length ds"
      using decimal_bound [of cs] Cons.prems Cons.hyps by simp
    ultimately show ?thesis using Cons.hyps by (simp add: algebra_simps)
  qed
qed simp

lemma dropWhile_digits: "list_all isDigit s \<Longrightarrow> list_all isDigit (dropWhile P s)"
  by (auto simp: list_all_iff dest: set_dropWhileD)

lemma compareNumeric_decimal:
  assumes "list_all isDigit a" and "list_all isDigit b"
  shows "compareNumeric a b = cmp_compare (decimal a) (decimal b)"
proof -
  let ?d = "dropWhile (\<lambda>c. c = CHR ''0'')"
  have da: "list_all isDigit (?d a)" and db: "list_all isDigit (?d b)"
    using assms by (simp_all add: dropWhile_digits)
  have lead: "?d s = c # cs \<Longrightarrow> c \<noteq> CHR ''0''" for s c cs
    by (simp add: dropWhile_eq_Cons_conv)
  have shorter: "decimal (?d x) < decimal (?d y)"
    if "length (?d x) < length (?d y)" "list_all isDigit (?d x)" "list_all isDigit (?d y)" for x y
  proof (cases "?d y")
    case Nil
    with that show ?thesis by simp
  next
    case (Cons c cs)
    with that lead [OF Cons] show ?thesis using decimal_shorter [of "?d x" c cs] by simp
  qed
  have "compareNumeric a b = cmp_compare (decimal (?d a)) (decimal (?d b))"
  proof (cases "length (?d a) = length (?d b)")
    case True
    then have "compareNumeric a b = cmp_compare (?d a) (?d b)"
      by (simp add: compareNumeric_def)
    also have "\<dots> = cmp_compare (decimal (?d a)) (decimal (?d b))"
    proof (rule cmp_compare_eqI)
      show "?d a < ?d b \<Longrightarrow> decimal (?d a) < decimal (?d b)"
        by (rule decimal_lex [OF True da db])
      show "?d b < ?d a \<Longrightarrow> decimal (?d b) < decimal (?d a)"
        by (rule decimal_lex [OF True [symmetric] db da])
    qed simp
    finally show ?thesis .
  next
    case False
    then have "compareNumeric a b = cmp_compare (length (?d a)) (length (?d b))"
      by (simp add: compareNumeric_def)
    also have "\<dots> = cmp_compare (decimal (?d a)) (decimal (?d b))"
      using shorter [of a b, OF _ da db] shorter [of b a, OF _ db da] False
      by (intro cmp_compare_eqI) blast+
    finally show ?thesis .
  qed
  then show ?thesis by (simp add: decimal_strip)
qed

subsection \<open>Tokenisation\<close>

definition wf_segment :: "segment \<Rightarrow> bool" where
  "wf_segment s \<longleftrightarrow> seg_text s \<noteq> [] \<and>
     list_all (if seg_kind s = numeric then isDigit else isLetter) (seg_text s)"

text \<open>A pre-release tail, once begun, goes on to the end.\<close>

definition tail_closed :: "segment list \<Rightarrow> bool" where
  "tail_closed = sorted_wrt (\<lambda>a b. seg_preRelease a \<longrightarrow> seg_preRelease b)"

lemma filter_takeWhile_dropWhile:
  "(\<And>c. P c \<Longrightarrow> Q c) \<Longrightarrow> filter Q s = takeWhile P s @ filter Q (dropWhile P s)"
  by (induction s) auto

definition good_tokens :: "bool \<Rightarrow> string \<Rightarrow> segment list \<Rightarrow> bool" where
  "good_tokens pre rest new \<longleftrightarrow>
     concat (map seg_text new) = filter isAlphanumeric rest \<and> list_all wf_segment new \<and>
     tail_closed new \<and> (pre \<longrightarrow> list_all seg_preRelease new)"

lemma good_tokens_skip:
  "good_tokens p cs new \<Longrightarrow> (pre \<longrightarrow> p) \<Longrightarrow> \<not> isAlphanumeric c \<Longrightarrow> good_tokens pre (c # cs) new"
  by (auto simp: good_tokens_def)

lemma good_tokens_run:
  assumes new: "good_tokens p (dropWhile P rest) new" and "pre \<longrightarrow> p"
    and "\<And>c. P c \<Longrightarrow> isAlphanumeric c" and "wf_segment s"
    and "seg_text s = takeWhile P rest" and "seg_preRelease s = p"
  shows "good_tokens pre rest (s # new)"
proof -
  have "filter isAlphanumeric rest = takeWhile P rest @ filter isAlphanumeric (dropWhile P rest)"
    using assms(3) by (rule filter_takeWhile_dropWhile)
  with assms show ?thesis by (auto simp: good_tokens_def tail_closed_def list_all_iff)
qed

lemma tokenize_loop_good:
  "list_all upstreamChar rest \<Longrightarrow>
     \<exists>new. tokenize_loop segs pre rest = Some (segs @ new) \<and> good_tokens pre rest new"
proof (induction rest arbitrary: segs pre rule: length_induct)
  case (1 rest)
  show ?case
  proof (cases rest)
    case Nil
    then show ?thesis by (simp add: tokenize_loop.simps good_tokens_def tail_closed_def)
  next
    case (Cons c cs)
    have step: "\<exists>new. tokenize_loop sg p (dropWhile P rest) = Some (sg @ new) \<and>
        good_tokens p (dropWhile P rest) new" if "P c" for sg p P
    proof -
      have "length (dropWhile P rest) < length rest"
        using that Cons by (simp add: le_imp_less_Suc length_dropWhile_le)
      moreover have "list_all upstreamChar (dropWhile P rest)"
        using 1(2) by (auto simp: list_all_iff dest: set_dropWhileD)
      ultimately show ?thesis using 1(1) by blast
    qed
    have skip: "\<exists>new. tokenize_loop segs p cs = Some (segs @ new) \<and> good_tokens p cs new" for p
      using 1 Cons by simp
    consider (tilde) "c = CHR ''~''"
      | (sep) "c = CHR ''.'' \<or> c = CHR ''+'' \<or> c = CHR ''-''"
      | (digit) "isDigit c" | (letter) "isLetter c"
      using 1(2) Cons by (auto simp: upstreamChar_def isAlphanumeric_def)
    then show ?thesis
    proof cases
      case tilde
      then have "\<not> isAlphanumeric c" and "tokenize_loop segs pre rest = tokenize_loop segs True cs"
        by (simp add: isAlphanumeric_def) (subst tokenize_loop.simps, simp add: Cons tilde)
      then show ?thesis using skip [of True] Cons good_tokens_skip [of True cs _ pre c] by auto
    next
      case sep
      then have "\<not> isAlphanumeric c" and "tokenize_loop segs pre rest = tokenize_loop segs pre cs"
        by (auto simp: isAlphanumeric_def) (subst tokenize_loop.simps, simp add: Cons)+
      then show ?thesis using skip [of pre] Cons good_tokens_skip [of pre cs _ pre c] by auto
    next
      case digit
      define s where "s = \<lparr>seg_kind = numeric, seg_text = takeWhile isDigit rest,
        seg_preRelease = pre\<rparr>"
      obtain new where new: "tokenize_loop (segs @ [s]) pre (dropWhile isDigit rest)
          = Some ((segs @ [s]) @ new)" "good_tokens pre (dropWhile isDigit rest) new"
        using step [of isDigit "segs @ [s]" pre, OF digit] by blast
      have "good_tokens pre rest (s # new)"
        by (rule good_tokens_run [OF new(2)])
           (use digit Cons in \<open>auto simp: s_def isAlphanumeric_def wf_segment_def list_all_iff
              dest: set_takeWhileD\<close>)
      moreover have "tokenize_loop segs pre rest = Some (segs @ s # new)"
        using new(1) digit
        by (subst tokenize_loop.simps) (auto simp: Cons s_def)
      ultimately show ?thesis by blast
    next
      case letter
      define p where "p = (pre \<or> preReleaseRank (takeWhile isLetter rest) < rankOther)"
      define s where "s = \<lparr>seg_kind = alphabetic, seg_text = takeWhile isLetter rest,
        seg_preRelease = p\<rparr>"
      obtain new where new: "tokenize_loop (segs @ [s]) p (dropWhile isLetter rest)
          = Some ((segs @ [s]) @ new)" "good_tokens p (dropWhile isLetter rest) new"
        using step [of isLetter "segs @ [s]" p, OF letter] by blast
      have "good_tokens pre rest (s # new)"
        by (rule good_tokens_run [OF new(2)])
           (use letter Cons in \<open>auto simp: s_def p_def isAlphanumeric_def wf_segment_def list_all_iff
              dest: set_takeWhileD\<close>)
      moreover have "\<not> isDigit c" using letter digit_not_letter by blast
      then have "tokenize_loop segs pre rest = Some (segs @ s # new)"
        using new(1) letter
        by (subst tokenize_loop.simps) (auto simp: Cons s_def p_def Let_def)
      ultimately show ?thesis by blast
    qed
  qed
qed

lemma tokenize_valid:
  assumes "list_all upstreamChar s"
  obtains segs where "tokenize s = Some segs" and "good_tokens False s segs"
  using tokenize_loop_good [OF assms, of "[]" False] by (auto simp: tokenize_def)

subsection \<open>The grammar the parser accepts\<close>

definition canonical_number :: "string \<Rightarrow> bool" where
  "canonical_number s \<longleftrightarrow> s \<noteq> [] \<and> list_all isDigit s \<and> (length s > 1 \<longrightarrow> hd s \<noteq> CHR ''0'')"

definition valid_upstream :: "string \<Rightarrow> bool" where
  "valid_upstream s \<longleftrightarrow> s \<noteq> [] \<and> isAlphanumeric (hd s) \<and> list_all upstreamChar s"

definition positive_number :: "string \<Rightarrow> bool" where
  "positive_number s \<longleftrightarrow> canonical_number s \<and> s \<noteq> ''0''"

text \<open>The written form of an epoch, an upstream version and a revision.\<close>

definition render :: "string \<Rightarrow> string \<Rightarrow> string \<Rightarrow> string" where
  "render e u r = (if e = [] then [] else e @ '':'') @ u @ (if r = [] then [] else ''-'' @ r)"

text \<open>
  Without a revision the last hyphen group of the upstream version must not read as one:
  it holds a byte that is no digit.
\<close>

definition no_revision_group :: "string \<Rightarrow> bool" where
  "no_revision_group u \<longleftrightarrow>
     (case cut_last_byte (CHR ''-'') u of None \<Rightarrow> True | Some (_, g) \<Rightarrow> hasNonDigit g)"

definition wf_version :: "version \<Rightarrow> bool" where
  "wf_version v \<longleftrightarrow>
     v_raw v = render (v_epoch v) (v_upstream v) (v_revision v) \<and>
     (v_epoch v = [] \<or> canonical_number (v_epoch v)) \<and>
     valid_upstream (v_upstream v) \<and>
     (if v_revision v = [] then no_revision_group (v_upstream v)
      else positive_number (v_revision v)) \<and>
     tokenize (v_upstream v) = Some (v_segments v)"

lemma parseDecimal_iff: "parseDecimal s = Inr n \<longleftrightarrow> n = s \<and> canonical_number s"
  by (cases s) (auto simp: parseDecimal_def canonical_number_def)

lemma validateUpstream_iff: "validateUpstream s = Inr x \<longleftrightarrow> valid_upstream s"
proof (cases s)
  case (Cons c cs)
  have "filter (\<lambda>c. \<not> upstreamChar c) s = [] \<longleftrightarrow> list_all upstreamChar s"
    by (simp add: filter_empty_conv list_all_iff)
  with Cons show ?thesis
    by (auto simp: validateUpstream_def valid_upstream_def split: list.splits)
qed (simp add: validateUpstream_def valid_upstream_def)

lemma hasNonDigit_iff: "hasNonDigit s \<longleftrightarrow> \<not> list_all isDigit s"
  by (simp add: hasNonDigit_def list_ex_iff list_all_iff)

lemma canonical_digits: "canonical_number s \<Longrightarrow> list_all isDigit s"
  by (simp add: canonical_number_def)

lemma digits_no_char: "list_all isDigit s \<Longrightarrow> \<not> isDigit c \<Longrightarrow> c \<notin> set s"
  by (auto simp: list_all_iff)

lemma upstream_no_colon: "valid_upstream u \<Longrightarrow> CHR '':'' \<notin> set u"
  by (auto simp: valid_upstream_def list_all_iff upstreamChar_def isAlphanumeric_def)

lemma parse_epoch_iff:
  "parse_epoch s = Inr (e, rest) \<longleftrightarrow>
     (if e = [] then CHR '':'' \<notin> set s \<and> rest = s
      else canonical_number e \<and> s = e @ CHR '':'' # rest)"
proof -
  have nocolon: "CHR '':'' \<notin> set e" if "canonical_number e" for e
    using that by (intro digits_no_char canonical_digits) simp_all
  show ?thesis
  proof (cases "cut_byte (CHR '':'') s")
    case None
    then have "CHR '':'' \<notin> set s" by simp
    then show ?thesis by (auto simp: parse_epoch_def None simp del: cut_byte_None)
  next
    case (Some p)
    obtain a b where p: "p = (a, b)" by force
    have split: "s = e @ CHR '':'' # rest \<longleftrightarrow> e = a \<and> rest = b" if "canonical_number e"
      using Some p nocolon [OF that] cut_byte_Some [of "CHR '':''" s e rest] by auto
    have colon: "CHR '':'' \<in> set s" using Some p by (auto simp: cut_byte_Some)
    have eq: "parse_epoch s = Inr (e, rest) \<longleftrightarrow> canonical_number a \<and> e = a \<and> rest = b"
      using parseDecimal_iff [of a] by (cases "parseDecimal a") (auto simp: parse_epoch_def Some p)
    have "canonical_number a \<Longrightarrow> a \<noteq> []" by (simp add: canonical_number_def)
    with split colon show ?thesis unfolding eq by auto
  qed
qed

lemma parse_revision_iff:
  "parse_revision s b rest = Inr (u, r) \<longleftrightarrow>
     (if r = [] then b \<and> u = rest \<and> no_revision_group rest
      else positive_number r \<and> rest = u @ CHR ''-'' # r)"
proof -
  have nodash: "CHR ''-'' \<notin> set r" if "positive_number r" for r
    using that by (intro digits_no_char canonical_digits) (simp_all add: positive_number_def)
  show ?thesis
  proof (cases "cut_last_byte (CHR ''-'') rest")
    case None
    then have "CHR ''-'' \<notin> set rest" by simp
    then show ?thesis by (auto simp: parse_revision_def None no_revision_group_def
          simp del: cut_last_byte_None)
  next
    case (Some p)
    obtain a g where p: "p = (a, g)" by force
    have split: "rest = u @ CHR ''-'' # r \<longleftrightarrow> u = a \<and> r = g" if "positive_number r"
      using Some p nodash [OF that] cut_last_byte_Some [of "CHR ''-''" rest u r] by auto
    show ?thesis
    proof (cases "parseDecimal g")
      case (Inl e)
      then have "\<not> positive_number g"
        using parseDecimal_iff [of g g] by (auto simp: positive_number_def)
      with Some p Inl split show ?thesis
        by (auto simp: parse_revision_def no_revision_group_def)
    next
      case (Inr n)
      then have n: "n = g" and c: "canonical_number g" by (simp_all add: parseDecimal_iff)
      then have "\<not> hasNonDigit g" and "g \<noteq> []"
        by (simp_all add: hasNonDigit_iff canonical_number_def)
      with Some p Inr n c split show ?thesis
        by (auto simp: parse_revision_def no_revision_group_def positive_number_def)
    qed
  qed
qed

lemma parse_eq_Inr:
  "parse s b = Inr v \<longleftrightarrow>
     (\<exists>rest. parse_epoch s = Inr (v_epoch v, rest) \<and>
        parse_revision s b rest = Inr (v_upstream v, v_revision v) \<and>
        valid_upstream (v_upstream v) \<and> tokenize (v_upstream v) = Some (v_segments v) \<and> v_raw v = s)"
proof (cases "parse_epoch s")
  case (Inr p)
  obtain e rest where p: "p = (e, rest)" by force
  show ?thesis
  proof (cases "parse_revision s b rest")
    case (Inr q)
    obtain u r where q: "q = (u, r)" by force
    have "parse s b = Inr v \<longleftrightarrow> valid_upstream u \<and> (\<exists>segs. tokenize u = Some segs \<and>
        v = \<lparr>v_raw = s, v_epoch = e, v_upstream = u, v_revision = r, v_segments = segs\<rparr>)"
      using validateUpstream_iff [of u] \<open>parse_epoch s = Inr p\<close> Inr
      by (cases "validateUpstream u"; cases "tokenize u") (auto simp: parse_def p q)
    then show ?thesis
      using \<open>parse_epoch s = Inr p\<close> Inr by (cases v) (auto simp: p q)
  qed (use Inr in \<open>simp add: parse_def p\<close>)
qed (simp add: parse_def)

lemma parse_iff: "parse s b = Inr v \<longleftrightarrow> wf_version v \<and> s = v_raw v \<and> (b \<or> v_revision v \<noteq> [])"
proof
  assume "parse s b = Inr v"
  then obtain rest where
    e: "parse_epoch s = Inr (v_epoch v, rest)"
    and r: "parse_revision s b rest = Inr (v_upstream v, v_revision v)"
    and v: "valid_upstream (v_upstream v)" "tokenize (v_upstream v) = Some (v_segments v)"
      "v_raw v = s"
    unfolding parse_eq_Inr by blast
  from e have e': "s = (if v_epoch v = [] then rest else v_epoch v @ CHR '':'' # rest)"
      "v_epoch v = [] \<or> canonical_number (v_epoch v)"
    unfolding parse_epoch_iff by (auto split: if_splits)
  from r have r': "rest = v_upstream v @ (if v_revision v = [] then [] else ''-'' @ v_revision v)"
      "if v_revision v = [] then b \<and> no_revision_group (v_upstream v) else positive_number (v_revision v)"
    unfolding parse_revision_iff by (auto split: if_splits)
  show "wf_version v \<and> s = v_raw v \<and> (b \<or> v_revision v \<noteq> [])"
    using v e' r' by (simp add: wf_version_def render_def split: if_splits)
next
  assume v: "wf_version v \<and> s = v_raw v \<and> (b \<or> v_revision v \<noteq> [])"
  define rest where "rest = v_upstream v @ (if v_revision v = [] then [] else ''-'' @ v_revision v)"
  have digits: "CHR '':'' \<notin> set (v_revision v)" if "v_revision v \<noteq> []"
    using v that by (intro digits_no_char canonical_digits)
      (auto simp: wf_version_def positive_number_def)
  have "CHR '':'' \<notin> set rest"
    using v digits upstream_no_colon [of "v_upstream v"] by (auto simp: rest_def wf_version_def)
  then have "parse_epoch s = Inr (v_epoch v, rest)"
    using v unfolding parse_epoch_iff by (auto simp: wf_version_def render_def rest_def)
  moreover have "parse_revision s b rest = Inr (v_upstream v, v_revision v)"
    using v unfolding parse_revision_iff by (auto simp: wf_version_def rest_def split: if_splits)
  ultimately show "parse s b = Inr v"
    using v unfolding parse_eq_Inr by (auto simp: wf_version_def)
qed

lemma parse_terminates: "parse s b \<noteq> Inl (TokenizerLoops u)"
proof
  assume loops: "parse s b = Inl (TokenizerLoops u)"
  have "parse_epoch s \<noteq> Inl (TokenizerLoops u)" and "parse_revision s b r \<noteq> Inl (TokenizerLoops u)" for r
    by (auto simp: parse_epoch_def parse_revision_def split: option.splits sum.splits)
  with loops obtain w where w: "validateUpstream w = Inr ()" and t: "tokenize w = None"
    by (auto simp: parse_def split: sum.splits option.splits prod.splits)
  then have "list_all upstreamChar w" by (simp add: validateUpstream_iff valid_upstream_def)
  with t show False by (metis tokenize_valid option.distinct(1))
qed

lemma wf_version_segments:
  "wf_version v \<Longrightarrow> good_tokens False (v_upstream v) (v_segments v)"
  using tokenize_valid [of "v_upstream v"]
  by (auto simp: wf_version_def valid_upstream_def)

end
