(* ===== verification/Constraint.thy ===== *)
theory Constraint
  imports Version
begin

section \<open>Version constraints\<close>

text \<open>
  \<open>internal/version/constraint.go\<close>: parsing a constraint, matching a version against
  it, and rendering it back to text.
\<close>

datatype Operator = OpEqual | OpGreater | OpGreaterEqual | OpLess | OpLessEqual | OpNotEqual

fun opString :: "Operator \<Rightarrow> string" where
  "opString OpEqual = ''=''"
| "opString OpGreater = ''>''"
| "opString OpGreaterEqual = ''>=''"
| "opString OpLess = ''<''"
| "opString OpLessEqual = ''<=''"
| "opString OpNotEqual = ''!=''"

record expression =
  e_op :: Operator
  e_operand :: version

record Constraint =
  exprs :: "expression list"

text \<open>The zero \<open>Constraint\<close> of Go, which imposes no restriction.\<close>

definition noConstraint :: Constraint where
  "noConstraint = \<lparr>exprs = []\<rparr>"

datatype constraintError =
    EmptyExpression string
  | InvalidConstraint string versionError

definition splitOperator :: "string \<Rightarrow> Operator \<times> string" where
  "splitOperator part =
     (if has_prefix part ''>='' then (OpGreaterEqual, drop 2 part)
      else if has_prefix part ''<='' then (OpLessEqual, drop 2 part)
      else if has_prefix part ''!='' then (OpNotEqual, drop 2 part)
      else if has_prefix part ''>'' then (OpGreater, drop 1 part)
      else if has_prefix part ''<'' then (OpLess, drop 1 part)
      else if has_prefix part ''='' then (OpEqual, drop 1 part)
      else (OpEqual, part))"

definition parseExpression :: "string \<Rightarrow> versionError + expression" where
  "parseExpression part =
     (case splitOperator part of (opr, operandStr) \<Rightarrow>
        (case parse (trim_space operandStr) True of
           Inl e \<Rightarrow> Inl e
         | Inr operand \<Rightarrow> Inr \<lparr>e_op = opr, e_operand = operand\<rparr>))"

definition parsePart :: "string \<Rightarrow> string \<Rightarrow> constraintError + expression" where
  "parsePart s part =
     (let part = trim_space part in
      if part = [] then Inl (EmptyExpression s)
      else rmap_err (InvalidConstraint s) (parseExpression part))"

definition ParseConstraint :: "string \<Rightarrow> constraintError + Constraint" where
  "ParseConstraint s =
     rbind (traverse (parsePart s) (split_byte (CHR '','') s)) (\<lambda>es. Inr \<lparr>exprs = es\<rparr>)"

definition matches :: "expression \<Rightarrow> version \<Rightarrow> bool" where
  "matches e v =
     (let c0 = compareEpochUpstream v (e_operand e);
          c = (if c0 = 0 \<and> v_revision (e_operand e) \<noteq> []
               then compareNumeric (v_revision v) (v_revision (e_operand e)) else c0)
      in case e_op e of
           OpEqual \<Rightarrow> c = 0
         | OpGreater \<Rightarrow> c > 0
         | OpGreaterEqual \<Rightarrow> c \<ge> 0
         | OpLess \<Rightarrow> c < 0
         | OpLessEqual \<Rightarrow> c \<le> 0
         | OpNotEqual \<Rightarrow> c \<noteq> 0)"

definition Matches :: "Constraint \<Rightarrow> version \<Rightarrow> bool" where
  "Matches c v \<longleftrightarrow> list_all (\<lambda>e. matches e v) (exprs c)"

definition Any :: "Constraint \<Rightarrow> bool" where
  "Any c \<longleftrightarrow> length (exprs c) = 0"

definition MayNeedHistoricalVersions :: "Constraint \<Rightarrow> bool" where
  "MayNeedHistoricalVersions c \<longleftrightarrow>
     list_ex (\<lambda>e. e_op e \<in> {OpEqual, OpLess, OpLessEqual, OpNotEqual}) (exprs c)"

definition exprString :: "expression \<Rightarrow> string" where
  "exprString e = opString (e_op e) @ '' '' @ v_raw (e_operand e)"

definition String :: "Constraint \<Rightarrow> string" where
  "String c =
     (if length (exprs c) = 0 then ''any'' else join '', '' (map exprString (exprs c)))"

lemma Matches_noConstraint [simp]: "Matches noConstraint v"
  by (simp add: Matches_def noConstraint_def)

subsection \<open>Matching respects the order of versions\<close>

lemma Compare_upstream:
  "Compare v w \<le> 0 \<Longrightarrow> compareEpochUpstream v w \<le> 0"
  "Compare v w = 0 \<Longrightarrow> compareEpochUpstream v w = 0"
  by (auto simp: Compare_def Let_def split: if_splits)

text \<open>
  The comparison \<open>matches\<close> decides on: that of the versions, or of epoch and upstream
  version alone where the operand has no revision.
\<close>

definition operandCompare :: "version \<Rightarrow> version \<Rightarrow> int" where
  "operandCompare v operand =
     (if v_revision operand \<noteq> [] then Compare v operand else compareEpochUpstream v operand)"

lemma matches_operandCompare:
  "matches e v =
     (let c = operandCompare v (e_operand e) in
      case e_op e of
        OpEqual \<Rightarrow> c = 0 | OpGreater \<Rightarrow> c > 0 | OpGreaterEqual \<Rightarrow> c \<ge> 0
      | OpLess \<Rightarrow> c < 0 | OpLessEqual \<Rightarrow> c \<le> 0 | OpNotEqual \<Rightarrow> c \<noteq> 0)"
proof -
  have "(if compareEpochUpstream v x = 0 \<and> v_revision x \<noteq> []
         then compareNumeric (v_revision v) (v_revision x) else compareEpochUpstream v x)
        = operandCompare v x" for x
    by (auto simp: operandCompare_def Compare_def Let_def)
  then show ?thesis by (simp only: matches_def Let_def)
qed

lemma operandCompare_cong: "Compare v w = 0 \<Longrightarrow> operandCompare v x = operandCompare w x"
  using version_cmp.cmp_cong_left [of v w x]
    upstream_cmp.cmp_cong_left [OF Compare_upstream(2), of v w x]
  by (simp add: operandCompare_def)

lemma operandCompare_mono:
  assumes "Compare v w \<le> 0"
  shows "0 \<le> operandCompare v x \<Longrightarrow> 0 \<le> operandCompare w x"
    and "0 < operandCompare v x \<Longrightarrow> 0 < operandCompare w x"
proof -
  have up: "compareEpochUpstream v w \<le> 0" using assms by (rule Compare_upstream)
  show "0 \<le> operandCompare v x \<Longrightarrow> 0 \<le> operandCompare w x"
    using version_cmp.cmp_ge_trans [of w v x] version_cmp.cmp_swap [of v w] assms
      upstream_cmp.cmp_ge_trans [of w v x] upstream_cmp.cmp_swap [of v w] up
    by (auto simp: operandCompare_def split: if_splits)
  show "0 < operandCompare v x \<Longrightarrow> 0 < operandCompare w x"
    using version_cmp.cmp_less_le_trans [of x v w] version_cmp.cmp_swap [of x v]
      version_cmp.cmp_swap [of x w] assms
      upstream_cmp.cmp_less_le_trans [of x v w] upstream_cmp.cmp_swap [of x v]
      upstream_cmp.cmp_swap [of x w] up
    by (auto simp: operandCompare_def split: if_splits)
qed

lemma Matches_cong: "Compare v w = 0 \<Longrightarrow> Matches c v = Matches c w"
  by (simp add: Matches_def matches_operandCompare operandCompare_cong)

lemma Matches_upward:
  assumes "\<not> MayNeedHistoricalVersions c" and "Matches c v" and "Compare v w \<le> 0"
  shows "Matches c w"
proof -
  have "matches e w" if e: "e \<in> set (exprs c)" for e
  proof -
    from e assms(1) have "e_op e = OpGreater \<or> e_op e = OpGreaterEqual"
      by (cases "e_op e") (auto simp: MayNeedHistoricalVersions_def list_ex_iff)
    moreover have "matches e v" using e assms(2) by (simp add: Matches_def list_all_iff)
    ultimately show ?thesis
      using operandCompare_mono [OF assms(3), of "e_operand e"]
      by (auto simp: matches_operandCompare Let_def)
  qed
  then show ?thesis by (simp add: Matches_def list_all_iff)
qed

subsection \<open>Rendering and parsing again\<close>

lemma upstreamChar_graphic: "upstreamChar c \<Longrightarrow> graphic c"
  by (auto simp: upstreamChar_def isAlphanumeric_def isDigit_def isLetter_def graphic_def
      less_eq_char_def)

lemma canonical_upstreamChar: "canonical_number s \<Longrightarrow> list_all upstreamChar s"
  by (auto simp: canonical_number_def list_all_iff upstreamChar_def isAlphanumeric_def)

lemma wf_version_raw_chars:
  assumes "wf_version v"
  shows "v_raw v \<noteq> []" and "list_all graphic (v_raw v)" and "CHR '','' \<notin> set (v_raw v)"
proof -
  have chars: "c \<in> set (v_raw v) \<Longrightarrow> upstreamChar c \<or> c = CHR '':''" for c
    using assms canonical_upstreamChar [of "v_epoch v"] canonical_upstreamChar [of "v_revision v"]
    by (auto simp: wf_version_def render_def valid_upstream_def positive_number_def list_all_iff
        upstreamChar_def [of "CHR ''-''"] split: if_splits)
  show "v_raw v \<noteq> []"
    using assms by (simp add: wf_version_def render_def valid_upstream_def)
  have "graphic (CHR '':'')" by (simp add: graphic_def less_eq_char_def)
  with chars show "list_all graphic (v_raw v)"
    using upstreamChar_graphic by (auto simp: list_all_iff)
  have "\<not> upstreamChar (CHR '','')" by (simp add: upstreamChar_def isAlphanumeric_def)
  with chars show "CHR '','' \<notin> set (v_raw v)" by auto
qed

lemma trim_space_blank:
  assumes "s \<noteq> []" and "graphic (hd s)" and "graphic (last s)"
  shows "trim_space (CHR '' '' # s) = s"
proof -
  have "strip_one white_space (CHR '' '' # s) = Some s"
    by (simp add: white_space_def)
  then have "strip_all white_space (CHR '' '' # s) = strip_all white_space s"
    by (simp add: strip_all.simps [of white_space "CHR '' '' # s"])
  then have "trim_space (CHR '' '' # s) = trim_space s"
    by (simp add: trim_space_def)
  then show ?thesis using trim_space_graphic [OF assms] by simp
qed

lemma list_all_graphic_ends:
  "s \<noteq> [] \<Longrightarrow> list_all graphic s \<Longrightarrow> graphic (hd s) \<and> graphic (last s)"
  by (simp add: list_all_iff)

lemma parseExpression_String:
  assumes "wf_version (e_operand e)"
  shows "parseExpression (exprString e) = Inr e"
proof -
  note raw = wf_version_raw_chars [OF assms]
  have "trim_space (CHR '' '' # v_raw (e_operand e)) = v_raw (e_operand e)"
    using raw list_all_graphic_ends by (intro trim_space_blank) blast+
  moreover have "splitOperator (exprString e) = (e_op e, CHR '' '' # v_raw (e_operand e))"
    by (cases "e_op e") (simp_all add: splitOperator_def exprString_def has_prefix_def)
  moreover have "parse (v_raw (e_operand e)) True = Inr (e_operand e)"
    using assms by (simp add: parse_iff)
  ultimately show ?thesis by (simp add: parseExpression_def)
qed

lemma exprString_ends:
  assumes "wf_version (e_operand e)"
  shows "exprString e \<noteq> []" and "graphic (hd (exprString e))" and "graphic (last (exprString e))"
    and "CHR '','' \<notin> set (exprString e)"
proof -
  note raw = wf_version_raw_chars [OF assms]
  show "exprString e \<noteq> []" by (simp add: exprString_def)
  show "graphic (hd (exprString e))"
    by (cases "e_op e") (simp_all add: exprString_def graphic_def less_eq_char_def)
  show "graphic (last (exprString e))"
    using raw by (simp add: exprString_def list_all_iff)
  show "CHR '','' \<notin> set (exprString e)"
    using raw by (cases "e_op e") (simp_all add: exprString_def)
qed

lemma parsePart_String:
  assumes "wf_version (e_operand e)"
  shows "parsePart s (exprString e) = Inr e" and "parsePart s (CHR '' '' # exprString e) = Inr e"
  using parseExpression_String [OF assms] exprString_ends [OF assms]
  by (simp_all add: parsePart_def trim_space_graphic trim_space_blank Let_def)

lemma join_blank: "join '', '' (p # ps) = join '','' (p # map ((#) CHR '' '') ps)"
proof (induction ps arbitrary: p)
  case (Cons q qs)
  have "join '', '' (p # q # qs) = p @ '', '' @ join '','' (q # map ((#) CHR '' '') qs)"
    using Cons [of q] by simp
  also have "\<dots> = join '','' (p # map ((#) CHR '' '') (q # qs))"
    by (cases qs) simp_all
  finally show ?case .
qed simp

lemma traverse_parsePart:
  "\<forall>e\<in>set es. wf_version (e_operand e) \<Longrightarrow>
     traverse (parsePart s) (map ((#) CHR '' '') (map exprString es)) = Inr es"
  by (induction es) (auto simp: parsePart_String)

lemma ParseConstraint_String:
  assumes "exprs c \<noteq> []" and "\<forall>e\<in>set (exprs c). wf_version (e_operand e)"
  shows "ParseConstraint (String c) = Inr c"
proof (cases "exprs c")
  case (Cons e es)
  define ps where "ps = exprString e # map ((#) CHR '' '') (map exprString es)"
  have "String c = join '','' ps"
    by (simp add: String_def Cons ps_def join_blank del: map_map)
  moreover have "\<forall>p\<in>set ps. CHR '','' \<notin> set p"
    using assms(2) Cons exprString_ends(4) by (auto simp: ps_def)
  ultimately have "split_byte (CHR '','') (String c) = ps"
    by (simp add: join_split_byte ps_def)
  moreover have "traverse (parsePart s) ps = Inr (exprs c)" for s
    using assms(2) Cons traverse_parsePart [of es s] by (simp add: ps_def parsePart_String)
  ultimately show ?thesis by (simp add: ParseConstraint_def)
qed (use assms in simp)

lemma parseExpression_wf: "parseExpression p = Inr e \<Longrightarrow> wf_version (e_operand e)"
  by (auto simp: parseExpression_def parse_iff split: prod.splits sum.splits)

lemma ParseConstraint_wf:
  assumes "ParseConstraint s = Inr c"
  shows "exprs c \<noteq> []" and "\<forall>e\<in>set (exprs c). wf_version (e_operand e)"
proof -
  from assms have t: "traverse (parsePart s) (split_byte (CHR '','') s) = Inr (exprs c)"
    by (auto simp: ParseConstraint_def result_simps)
  from traverse_length [OF t] show "exprs c \<noteq> []" by auto
  show "\<forall>e\<in>set (exprs c). wf_version (e_operand e)"
  proof
    fix e assume "e \<in> set (exprs c)"
    with t obtain p where "parsePart s p = Inr e" by (auto elim: traverse_mem)
    then show "wf_version (e_operand e)"
      by (auto simp: parsePart_def Let_def result_simps split: if_splits intro: parseExpression_wf)
  qed
qed

end
