(* ===== verification/Capability.thy ===== *)
theory Capability
  imports Prelude
begin

section \<open>Capability names\<close>

text \<open>
  \<open>internal/capability/capability.go\<close>: the grammar of the virtual names that
  \<open>provides\<close> and \<open>dependencies\<close> entries carry.
\<close>

datatype capabilityError =
    CapLength
  | CapInvalidCharacter char
  | CapBadStart
  | CapBadEnd
  | CapNamespaceStart
  | CapNamespaceCharacter
  | CapNamespaceEnd
  | CapEmptyArgument
  | CapArgumentCharacter char

definition MaxLen :: nat where
  "MaxLen = 128"

definition cap_isLower :: "char \<Rightarrow> bool" where
  "cap_isLower c \<longleftrightarrow> CHR ''a'' \<le> c \<and> c \<le> CHR ''z''"

definition cap_isUpper :: "char \<Rightarrow> bool" where
  "cap_isUpper c \<longleftrightarrow> CHR ''A'' \<le> c \<and> c \<le> CHR ''Z''"

definition cap_isDigit :: "char \<Rightarrow> bool" where
  "cap_isDigit c \<longleftrightarrow> CHR ''0'' \<le> c \<and> c \<le> CHR ''9''"

definition cap_isAlnum :: "char \<Rightarrow> bool" where
  "cap_isAlnum c \<longleftrightarrow> cap_isLower c \<or> cap_isUpper c \<or> cap_isDigit c"

definition cap_isSeparator :: "char \<Rightarrow> bool" where
  "cap_isSeparator c \<longleftrightarrow> c = CHR ''-'' \<or> c = CHR ''.'' \<or> c = CHR ''+''"

definition isPlainChar :: "char \<Rightarrow> bool" where
  "isPlainChar c \<longleftrightarrow> cap_isAlnum c \<or> cap_isSeparator c \<or> c = CHR ''_''"

definition isArgChar :: "char \<Rightarrow> bool" where
  "isArgChar c \<longleftrightarrow> isPlainChar c \<or> c = CHR '':'' \<or> c = CHR ''/''"

definition validatePlain :: "string \<Rightarrow> capabilityError + unit" where
  "validatePlain s =
     (case filter (\<lambda>c. \<not> isPlainChar c) s of
        b # _ \<Rightarrow> Inl (CapInvalidCharacter b)
      | [] \<Rightarrow>
          if \<not> cap_isAlnum (s ! 0) then Inl CapBadStart
          else if \<not> cap_isAlnum (last s) \<and> last s \<noteq> CHR ''+'' then Inl CapBadEnd
          else Inr ())"

text \<open>
  \<open>ns\<close> and \<open>rest\<close> are the parts before and after the first opening parenthesis; the
  last byte of the whole is the last of \<open>rest\<close>, or the parenthesis itself.
\<close>

definition validateNamespaced :: "string \<Rightarrow> string \<Rightarrow> capabilityError + unit" where
  "validateNamespaced ns rest =
     (if length ns = 0 \<or> \<not> cap_isLower (ns ! 0) then Inl CapNamespaceStart
      else if list_ex (\<lambda>c. \<not> cap_isLower c \<and> \<not> cap_isDigit c) ns then Inl CapNamespaceCharacter
      else if last (CHR ''('' # rest) \<noteq> CHR '')'' then Inl CapNamespaceEnd
      else if butlast rest = [] then Inl CapEmptyArgument
      else (case filter (\<lambda>c. \<not> isArgChar c) (butlast rest) of
              b # _ \<Rightarrow> Inl (CapArgumentCharacter b)
            | [] \<Rightarrow> Inr ()))"

definition capabilityValidateName :: "string \<Rightarrow> capabilityError + unit" where
  "capabilityValidateName s =
     (if length s < 2 \<or> length s > MaxLen then Inl CapLength
      else (case cut_byte (CHR ''('') s of
              Some (ns, rest) \<Rightarrow> validateNamespaced ns rest
            | None \<Rightarrow> validatePlain s))"

lemma validatePlain_iff:
  "validatePlain s = Inr u \<longleftrightarrow>
     list_all isPlainChar s \<and> cap_isAlnum (s ! 0) \<and> (cap_isAlnum (last s) \<or> last s = CHR ''+'')"
proof -
  have "filter (\<lambda>c. \<not> isPlainChar c) s = [] \<longleftrightarrow> list_all isPlainChar s"
    by (simp add: filter_empty_conv list_all_iff)
  then show ?thesis by (auto simp: validatePlain_def split: list.splits)
qed

lemma isArgChar_not [simp]: "\<not> isArgChar (CHR '','')" "\<not> isArgChar (CHR '' '')" "\<not> isArgChar (CHR ''('')"
  by (simp_all add: isArgChar_def isPlainChar_def cap_isAlnum_def cap_isLower_def cap_isUpper_def
      cap_isDigit_def cap_isSeparator_def less_eq_char_def)

lemma validateNamespaced_iff:
  "validateNamespaced ns rest = Inr u \<longleftrightarrow>
     ns \<noteq> [] \<and> cap_isLower (hd ns) \<and> list_all (\<lambda>c. cap_isLower c \<or> cap_isDigit c) ns \<and>
     (\<exists>arg. rest = arg @ '')'' \<and> arg \<noteq> [] \<and> list_all isArgChar arg)"
proof -
  have arg: "filter (\<lambda>c. \<not> isArgChar c) a = [] \<longleftrightarrow> list_all isArgChar a" for a
    by (simp add: filter_empty_conv list_all_iff)
  have "validateNamespaced ns rest = Inr u \<longleftrightarrow>
     ns \<noteq> [] \<and> cap_isLower (hd ns) \<and> list_all (\<lambda>c. cap_isLower c \<or> cap_isDigit c) ns \<and>
     last (CHR ''('' # rest) = CHR '')'' \<and> butlast rest \<noteq> [] \<and> list_all isArgChar (butlast rest)"
    using arg [of "butlast rest"]
    by (auto simp: validateNamespaced_def list_ex_iff list_all_iff hd_conv_nth split: list.splits)
  also have "\<dots> \<longleftrightarrow> ns \<noteq> [] \<and> cap_isLower (hd ns) \<and>
     list_all (\<lambda>c. cap_isLower c \<or> cap_isDigit c) ns \<and>
     (\<exists>arg. rest = arg @ '')'' \<and> arg \<noteq> [] \<and> list_all isArgChar arg)"
    by (cases rest rule: rev_cases) auto
  finally show ?thesis .
qed

end
