(* ===== verification/GoStdlib.thy ===== *)
theory GoStdlib
  imports Prelude
begin

section \<open>Standard-library functions of the decoders\<close>

text \<open>
  What the manifest, descriptor and index decoders use of Go's standard library, on the
  arguments they pass: \<open>time.Parse\<close>, \<open>base64.RawStdEncoding.DecodeString\<close>,
  \<open>utf8.ValidString\<close> with \<open>unicode.IsControl\<close>, and \<open>path.Clean\<close> of a rooted path.
\<close>

subsection \<open>Timestamps\<close>

text \<open>
  A \<open>time.Time\<close> is the number of nanoseconds since 1970-01-01T00:00:00Z. The zero
  \<open>Time\<close> is the first instant of the year 1.
\<close>

type_synonym time = int

definition second_ns :: int where
  "second_ns = 1000000000"

definition zeroTime :: time where
  "zeroTime = - 62135596800 * second_ns"

definition leapYear :: "int \<Rightarrow> bool" where
  "leapYear y \<longleftrightarrow> y mod 4 = 0 \<and> (y mod 100 \<noteq> 0 \<or> y mod 400 = 0)"

definition daysIn :: "int \<Rightarrow> int \<Rightarrow> int" where
  "daysIn m y =
     (if m = 2 then (if leapYear y then 29 else 28)
      else if m = 4 \<or> m = 6 \<or> m = 9 \<or> m = 11 then 30 else 31)"

fun daysBefore :: "nat \<Rightarrow> int \<Rightarrow> int" where
  "daysBefore 0 y = 0"
| "daysBefore (Suc m) y = daysBefore m y + daysIn (int (Suc m)) y"

definition unixDays :: "int \<Rightarrow> int \<Rightarrow> int \<Rightarrow> int" where
  "unixDays y m d =
     365 * (y - 1) + (y - 1) div 4 - (y - 1) div 100 + (y - 1) div 400 - 719162
     + daysBefore (nat (m - 1)) y + (d - 1)"

definition digitVal :: "char \<Rightarrow> int" where
  "digitVal c = of_char c - 48"

definition asciiDigit :: "char \<Rightarrow> bool" where
  "asciiDigit c \<longleftrightarrow> CHR ''0'' \<le> c \<and> c \<le> CHR ''9''"

definition digitsVal :: "string \<Rightarrow> int" where
  "digitsVal s = foldl (\<lambda>n c. 10 * n + digitVal c) 0 s"

text \<open>
  \<open>getnum\<close>: two digits, or with \<open>fixed\<close> false also one. \<open>literal\<close> skips the
  layout's literal bytes.
\<close>

definition getnum :: "bool \<Rightarrow> string \<Rightarrow> (int \<times> string) option" where
  "getnum fixed s =
     (case s of
        c # d # r \<Rightarrow>
          if \<not> asciiDigit c then None
          else if asciiDigit d then Some (10 * digitVal c + digitVal d, r)
          else if fixed then None else Some (digitVal c, d # r)
      | [c] \<Rightarrow> if asciiDigit c \<and> \<not> fixed then Some (digitVal c, []) else None
      | [] \<Rightarrow> None)"

definition year4 :: "string \<Rightarrow> (int \<times> string) option" where
  "year4 s =
     (if length s \<ge> 4 \<and> list_all asciiDigit (take 4 s) then Some (digitsVal (take 4 s), drop 4 s)
      else None)"

definition literal :: "char \<Rightarrow> string \<Rightarrow> string option" where
  "literal c s = (case s of x # r \<Rightarrow> if x = c then Some r else None | [] \<Rightarrow> None)"

text \<open>
  After the seconds \<open>time.Parse\<close> takes a fraction the layout does not mention: a period
  or a comma and a run of digits, of which the first nine count.
\<close>

definition fraction :: "string \<Rightarrow> int \<times> string" where
  "fraction s =
     (case s of
        p # d # r \<Rightarrow>
          if (p = CHR ''.'' \<or> p = CHR '','') \<and> asciiDigit d then
            (let ds = takeWhile asciiDigit (d # r); n = take 9 ds
             in (digitsVal n * 10 ^ (9 - length n), dropWhile asciiDigit (d # r)))
          else (0, s)
      | _ \<Rightarrow> (0, s))"

definition in_range :: "int \<Rightarrow> int \<Rightarrow> int \<times> string \<Rightarrow> (int \<times> string) option" where
  "in_range lo hi p = (if lo \<le> fst p \<and> fst p \<le> hi then Some p else None)"

text \<open>
  \<open>time.Parse(time.RFC3339, s)\<close> for a string that ends with \<open>Z\<close>, the only strings
  the decoders pass: the zone is then the final \<open>Z\<close>.
\<close>

definition timeParseRFC3339Z :: "string \<Rightarrow> time option" where
  "timeParseRFC3339Z s =
     Option.bind (year4 s) (\<lambda>(y, s).
     Option.bind (literal (CHR ''-'') s) (\<lambda>s.
     Option.bind (Option.bind (getnum True s) (in_range 1 12)) (\<lambda>(mo, s).
     Option.bind (literal (CHR ''-'') s) (\<lambda>s.
     Option.bind (getnum True s) (\<lambda>(d, s).
     Option.bind (literal (CHR ''T'') s) (\<lambda>s.
     Option.bind (Option.bind (getnum False s) (in_range 0 23)) (\<lambda>(h, s).
     Option.bind (literal (CHR '':'') s) (\<lambda>s.
     Option.bind (Option.bind (getnum True s) (in_range 0 59)) (\<lambda>(mi, s).
     Option.bind (literal (CHR '':'') s) (\<lambda>s.
     Option.bind (Option.bind (getnum True s) (in_range 0 59)) (\<lambda>(sec, s).
       case fraction s of (ns, s) \<Rightarrow>
         if s = ''Z'' \<and> 1 \<le> d \<and> d \<le> daysIn mo y then
           Some ((((unixDays y mo d * 24 + h) * 60 + mi) * 60 + sec) * second_ns + ns)
         else None)))))))))))"

subsection \<open>Base64 without padding\<close>

definition b64val :: "char \<Rightarrow> int option" where
  "b64val c =
     (if CHR ''A'' \<le> c \<and> c \<le> CHR ''Z'' then Some (of_char c - 65)
      else if CHR ''a'' \<le> c \<and> c \<le> CHR ''z'' then Some (of_char c - 71)
      else if CHR ''0'' \<le> c \<and> c \<le> CHR ''9'' then Some (of_char c + 4)
      else if c = CHR ''+'' then Some 62
      else if c = CHR ''/'' then Some 63
      else None)"

fun b64values :: "string \<Rightarrow> int list option" where
  "b64values [] = Some []"
| "b64values (c # cs) =
     (if c = CHR 0x0D \<or> c = CHR 0x0A then b64values cs
      else Option.bind (b64val c) (\<lambda>v. map_option ((#) v) (b64values cs)))"

fun b64bytes :: "int list \<Rightarrow> string option" where
  "b64bytes [] = Some []"
| "b64bytes [a] = None"
| "b64bytes [a, b] = Some [char_of (a * 4 + b div 16)]"
| "b64bytes [a, b, c] = Some [char_of (a * 4 + b div 16), char_of (b mod 16 * 16 + c div 4)]"
| "b64bytes (a # b # c # d # r) =
     map_option ((@) [char_of (a * 4 + b div 16), char_of (b mod 16 * 16 + c div 4),
                      char_of (c mod 4 * 64 + d)]) (b64bytes r)"

definition rawStdDecode :: "string \<Rightarrow> string option" where
  "rawStdDecode s = Option.bind (b64values s) b64bytes"

subsection \<open>UTF-8\<close>

definition byte_in :: "int \<Rightarrow> int \<Rightarrow> char \<Rightarrow> bool" where
  "byte_in lo hi c \<longleftrightarrow> lo \<le> of_char c \<and> of_char c \<le> hi"

text \<open>The length of the valid encoding a string begins with, \<open>0\<close> where there is none.\<close>

definition runeLen :: "string \<Rightarrow> nat" where
  "runeLen s =
     (case s of
        [] \<Rightarrow> 0
      | a # r \<Rightarrow>
          if byte_in 0 0x7F a then 1
          else if byte_in 0xC2 0xDF a then
            (case r of b # _ \<Rightarrow> if byte_in 0x80 0xBF b then 2 else 0 | _ \<Rightarrow> 0)
          else if byte_in 0xE0 0xEF a then
            (case r of
               b # c # _ \<Rightarrow>
                 if byte_in (if a = CHR 0xE0 then 0xA0 else 0x80)
                            (if a = CHR 0xED then 0x9F else 0xBF) b
                    \<and> byte_in 0x80 0xBF c then 3 else 0
             | _ \<Rightarrow> 0)
          else if byte_in 0xF0 0xF4 a then
            (case r of
               b # c # d # _ \<Rightarrow>
                 if byte_in (if a = CHR 0xF0 then 0x90 else 0x80)
                            (if a = CHR 0xF4 then 0x8F else 0xBF) b
                    \<and> byte_in 0x80 0xBF c \<and> byte_in 0x80 0xBF d then 4 else 0
             | _ \<Rightarrow> 0)
          else 0)"

text \<open>\<open>None\<close> for a string that is no valid UTF-8, otherwise its encoded code points.\<close>

function runes :: "string \<Rightarrow> string list option" where
  "runes s =
     (if s = [] then Some []
      else if runeLen s = 0 then None
      else map_option ((#) (take (runeLen s) s)) (runes (drop (runeLen s) s)))"
  by pat_completeness auto
termination
  by (relation "measure length") auto

declare runes.simps [simp del]

definition validUTF8 :: "string \<Rightarrow> bool" where
  "validUTF8 s \<longleftrightarrow> runes s \<noteq> None"

text \<open>\<open>unicode.IsControl\<close>: U+0000 to U+001F and U+007F to U+009F.\<close>

definition isControlRune :: "string \<Rightarrow> bool" where
  "isControlRune e \<longleftrightarrow>
     (case e of
        [a] \<Rightarrow> byte_in 0 0x1F a \<or> a = CHR 0x7F
      | [a, b] \<Rightarrow> a = CHR 0xC2 \<and> byte_in 0x80 0x9F b
      | _ \<Rightarrow> False)"

subsection \<open>Lexical paths\<close>

text \<open>
  \<open>path.Clean\<close> of a rooted path: the components with the empty and the dot ones dropped
  and each dot-dot taking back the component before it.
\<close>

fun clean_step :: "string list \<Rightarrow> string \<Rightarrow> string list" where
  "clean_step st c =
     (if c = [] \<or> c = ''.'' then st
      else if c = ''..'' then butlast st
      else st @ [c])"

definition clean_components :: "string \<Rightarrow> string list" where
  "clean_components p = foldl clean_step [] (split_byte (CHR ''/'') p)"

definition cleanRooted :: "string \<Rightarrow> string" where
  "cleanRooted p = CHR ''/'' # join ''/'' (clean_components p)"

lemma clean_step_keeps:
  "(\<And>c. c \<in> set st \<Longrightarrow> P c) \<Longrightarrow> (c \<noteq> [] \<Longrightarrow> c \<noteq> ''.'' \<Longrightarrow> c \<noteq> ''..'' \<Longrightarrow> P c) \<Longrightarrow>
     x \<in> set (clean_step st c) \<Longrightarrow> P x"
  by (auto split: if_splits dest: in_set_butlastD)

lemma foldl_clean_step_keeps:
  assumes "\<And>c. c \<in> set cs \<Longrightarrow> c \<noteq> [] \<Longrightarrow> c \<noteq> ''.'' \<Longrightarrow> c \<noteq> ''..'' \<Longrightarrow> P c"
    and "\<And>c. c \<in> set st \<Longrightarrow> P c" and "x \<in> set (foldl clean_step st cs)"
  shows "P x"
  using assms
proof (induction cs arbitrary: st)
  case (Cons c cs)
  have "P y" if "y \<in> set (clean_step st c)" for y
    by (rule clean_step_keeps [OF Cons.prems(2) _ that]) (use Cons.prems(1) in auto)
  with Cons.IH [of "clean_step st c"] Cons.prems(1,3) show ?case
    by (simp del: clean_step.simps)
qed simp

lemma clean_components_proper:
  assumes "c \<in> set (clean_components p)"
  shows "c \<noteq> [] \<and> c \<noteq> ''.'' \<and> c \<noteq> ''..'' \<and> CHR ''/'' \<notin> set c"
  using assms unfolding clean_components_def
  by (rule foldl_clean_step_keeps [rotated 2]) (auto dest: split_byte_parts)

lemma foldl_clean_step_plain:
  "\<forall>c\<in>set cs. c \<noteq> [] \<and> c \<noteq> ''.'' \<and> c \<noteq> ''..'' \<Longrightarrow> foldl clean_step st cs = st @ cs"
  by (induction cs arbitrary: st) auto

text \<open>A path without empty, dot and dot-dot components is its own cleaned form.\<close>

lemma clean_components_plain:
  "\<forall>c\<in>set (split_byte (CHR ''/'') p). c \<noteq> [] \<and> c \<noteq> ''.'' \<and> c \<noteq> ''..'' \<Longrightarrow>
     clean_components p = split_byte (CHR ''/'') p"
  by (simp add: clean_components_def foldl_clean_step_plain)

end
