(* ===== verification/Layout.thy ===== *)
theory Layout
  imports GoStdlib
begin

section \<open>Path invariants of every package path\<close>

text \<open>
  \<open>internal/layout/layout.go\<close> and \<open>paths.go\<close>: the tree no package may put
  content into, the permitted install destinations, and the syntax rules for payload
  paths and claim paths. The \<open>kind\<close> argument of the Go functions only names the
  subject in a message and has no counterpart. Unicode normalisation is the package
  \<open>golang.org/x/text\<close>, so its test \<open>norm.NFC.IsNormalString\<close> is the argument
  \<open>nfc\<close>.
\<close>

datatype pathError =
    PathTooLong nat
  | PathNotUTF8
  | PathNotNFC
  | PathNulByte
  | PathControlByte char
  | PathBackslash
  | PathTooDeep nat
  | PathComponentTooLong string
  | PathEmptyComponent
  | PathDotComponent string
  | PathNotAbsolute
  | PathNoComponent
  | PathForbidden string
  | PathOutsideDestinations

definition MaxPathComponent :: nat where
  "MaxPathComponent = 255"

definition MaxPathLength :: nat where
  "MaxPathLength = 4096"

definition MaxPathDepth :: nat where
  "MaxPathDepth = 256"

subsection \<open>The forbidden tree\<close>

definition forbiddenPrefixes :: "string list" where
  "forbiddenPrefixes = [''lcl/policy'']"

text \<open>\<open>strings.TrimPrefix(path.Clean("/" + p), "/")\<close>.\<close>

definition clean_relative :: "string \<Rightarrow> string" where
  "clean_relative p = drop 1 (cleanRooted (CHR ''/'' # p))"

definition Forbidden :: "string \<Rightarrow> string option" where
  "Forbidden p =
     (case filter (\<lambda>f. clean_relative p = f \<or> has_prefix (clean_relative p) (f @ ''/''))
             forbiddenPrefixes of
        f # _ \<Rightarrow> Some (CHR ''/'' # f)
      | [] \<Rightarrow> None)"

definition CheckEntry :: "string \<Rightarrow> bool \<Rightarrow> pathError + unit" where
  "CheckEntry p isDir =
     (case Forbidden p of
        Some tree \<Rightarrow> if isDir then Inr () else Inl (PathForbidden tree)
      | None \<Rightarrow> Inr ())"

definition Check :: "string \<Rightarrow> pathError + unit" where
  "Check p = CheckEntry p False"

subsection \<open>Destinations and syntax\<close>

definition PermittedTopLevels :: "string list" where
  "PermittedTopLevels =
     [''usr/bin/'', ''usr/sbin/'', ''usr/lib/'', ''usr/libexec/'', ''usr/share/'',
      ''usr/include/'', ''usr/etc/'', ''usr/conf/'', ''usr/src/debug/'', ''usr/src/dist/'',
      ''var/'', ''boot/'', ''hooks/'', ''++/'']"

definition claimOnlyTopLevels :: "string list" where
  "claimOnlyTopLevels = [''run/'']"

definition claimOnlyRootName :: string where
  "claimOnlyRootName = ''init''"

definition UnderPermittedTopLevel :: "string \<Rightarrow> bool" where
  "UnderPermittedTopLevel rel \<longleftrightarrow> list_ex (has_prefix rel) PermittedTopLevels"

fun checkBytes :: "string \<Rightarrow> pathError + unit" where
  "checkBytes [] = Inr ()"
| "checkBytes (c # cs) =
     (if c = CHR 0x00 then Inl PathNulByte
      else if c < CHR 0x20 \<or> c = CHR 0x7F then Inl (PathControlByte c)
      else if c = CHR 0x5C then Inl PathBackslash
      else checkBytes cs)"

definition checkComponentSizes :: "string list \<Rightarrow> pathError + unit" where
  "checkComponentSizes components =
     (if length components > MaxPathDepth then Inl (PathTooDeep (length components))
      else (case filter (\<lambda>c. length c > MaxPathComponent) components of
              c # _ \<Rightarrow> Inl (PathComponentTooLong c)
            | [] \<Rightarrow> Inr ()))"

definition CheckPathBytes :: "(string \<Rightarrow> bool) \<Rightarrow> string \<Rightarrow> pathError + unit" where
  "CheckPathBytes nfc p =
     (if length p > MaxPathLength then Inl (PathTooLong (length p))
      else if \<not> validUTF8 p then Inl PathNotUTF8
      else if \<not> nfc p then Inl PathNotNFC
      else rbind (checkBytes p) (\<lambda>_. checkComponentSizes (split_byte (CHR ''/'') p)))"

fun checkComponents :: "string list \<Rightarrow> pathError + unit" where
  "checkComponents [] = Inr ()"
| "checkComponents (c # cs) =
     (if c = [] then Inl PathEmptyComponent
      else if c = ''.'' \<or> c = ''..'' then Inl (PathDotComponent c)
      else checkComponents cs)"

definition CheckPathComponents :: "string \<Rightarrow> pathError + unit" where
  "CheckPathComponents p = checkComponents (split_byte (CHR ''/'') p)"

definition checkAbsolute :: "(string \<Rightarrow> bool) \<Rightarrow> string \<Rightarrow> pathError + string" where
  "checkAbsolute nfc p =
     (if \<not> has_prefix p ''/'' then Inl PathNotAbsolute
      else (let rel = drop 1 p in
        if rel = [] then Inl PathNoComponent
        else rbind (CheckPathBytes nfc rel) (\<lambda>_.
             rbind (CheckPathComponents rel) (\<lambda>_. Inr rel))))"

definition CheckClaimPath :: "(string \<Rightarrow> bool) \<Rightarrow> string \<Rightarrow> pathError + unit" where
  "CheckClaimPath nfc p =
     rbind (checkAbsolute nfc p) (\<lambda>rel.
       if UnderPermittedTopLevel rel \<or> rel = claimOnlyRootName
          \<or> list_ex (has_prefix rel) claimOnlyTopLevels
       then Check rel else Inl PathOutsideDestinations)"

definition CheckClaimTarget :: "(string \<Rightarrow> bool) \<Rightarrow> string \<Rightarrow> pathError + unit" where
  "CheckClaimTarget nfc p =
     rbind (checkAbsolute nfc p) (\<lambda>rel.
       if UnderPermittedTopLevel rel then Check rel else Inl PathOutsideDestinations)"

subsection \<open>What the checks establish\<close>

lemma join_slash_inj:
  assumes "\<forall>c\<in>set xs. CHR ''/'' \<notin> set c" and "\<forall>c\<in>set ys. CHR ''/'' \<notin> set c"
    and "xs \<noteq> []" and "ys \<noteq> []" and "join ''/'' xs = join ''/'' ys"
  shows "xs = ys"
  using assms by (metis join_split_byte)

lemma join_append: "xs \<noteq> [] \<Longrightarrow> ys \<noteq> [] \<Longrightarrow> join s (xs @ ys) = join s xs @ s @ join s ys"
proof (induction s xs rule: join.induct)
  case (2 s p)
  then show ?case by (cases ys) simp_all
qed simp_all

text \<open>
  The cleaned path is the forbidden tree or lies in it exactly when the resolved
  components begin with those of the tree.
\<close>

lemma Forbidden_components:
  "Forbidden p = (if prefix [''lcl'', ''policy''] (clean_components p)
                  then Some ''/lcl/policy'' else None)"
proof -
  define cs where "cs = clean_components p"
  have comps: "clean_components (CHR ''/'' # p) = cs"
    by (simp add: cs_def clean_components_def)
  have noslash: "\<forall>c\<in>set cs. CHR ''/'' \<notin> set c" and nonempty: "\<forall>c\<in>set cs. c \<noteq> []"
    using clean_components_proper [of _ p] by (auto simp: cs_def)
  have lit: "''lcl/policy'' = join ''/'' [''lcl'', ''policy'']" by simp
  have "join ''/'' cs = ''lcl/policy'' \<longleftrightarrow> cs = [''lcl'', ''policy'']"
  proof
    assume j: "join ''/'' cs = ''lcl/policy''"
    then have "cs \<noteq> []" by auto
    with j show "cs = [''lcl'', ''policy'']"
      unfolding lit by (intro join_slash_inj noslash) auto
  qed simp
  moreover have "prefix ''lcl/policy/'' (join ''/'' cs) \<longleftrightarrow>
      (\<exists>r. r \<noteq> [] \<and> cs = [''lcl'', ''policy''] @ r)"
  proof
    assume "prefix ''lcl/policy/'' (join ''/'' cs)"
    then obtain t where t: "join ''/'' cs = ''lcl/policy/'' @ t" by (auto simp: prefix_def)
    then have "cs \<noteq> []" by auto
    define r where "r = split_byte (CHR ''/'') t"
    have "join ''/'' ([''lcl'', ''policy''] @ r) = ''lcl/policy/'' @ t"
      by (subst join_append) (simp_all add: r_def split_byte_join)
    with t have "cs = [''lcl'', ''policy''] @ r"
      using noslash split_byte_parts [of _ "CHR ''/''" t] \<open>cs \<noteq> []\<close>
      by (intro join_slash_inj) (auto simp: r_def)
    then show "\<exists>r. r \<noteq> [] \<and> cs = [''lcl'', ''policy''] @ r" by (auto simp: r_def)
  next
    assume "\<exists>r. r \<noteq> [] \<and> cs = [''lcl'', ''policy''] @ r"
    then show "prefix ''lcl/policy/'' (join ''/'' cs)"
      by (auto simp: neq_Nil_conv)
  qed
  ultimately have "join ''/'' cs = ''lcl/policy'' \<or> prefix ''lcl/policy/'' (join ''/'' cs)
      \<longleftrightarrow> prefix [''lcl'', ''policy''] cs"
    by (auto simp: prefix_def)
  then show ?thesis
    by (simp add: Forbidden_def forbiddenPrefixes_def clean_relative_def cleanRooted_def comps
        has_prefix_def flip: cs_def)
qed

lemma checkComponents_iff:
  "checkComponents cs = Inr () \<longleftrightarrow> (\<forall>c\<in>set cs. c \<noteq> [] \<and> c \<noteq> ''.'' \<and> c \<noteq> ''..'')"
  by (induction cs) auto

lemma checkBytes_iff:
  "checkBytes p = Inr () \<longleftrightarrow> (\<forall>c\<in>set p. \<not> c < CHR 0x20 \<and> c \<noteq> CHR 0x7F \<and> c \<noteq> CHR 0x5C)"
proof (induction p)
  case (Cons c cs)
  have "CHR 0x00 < CHR 0x20" by (simp add: less_char_def)
  then have "c = CHR 0x00 \<Longrightarrow> c < CHR 0x20" by simp
  then show ?case
    by (cases "c < CHR 0x20"; cases "c = CHR 0x00") (simp_all add: Cons)
qed simp

lemma checkComponentSizes_iff:
  "checkComponentSizes cs = Inr () \<longleftrightarrow>
     length cs \<le> MaxPathDepth \<and> (\<forall>c\<in>set cs. length c \<le> MaxPathComponent)"
proof -
  have "filter (\<lambda>c. MaxPathComponent < length c) cs = [] \<longleftrightarrow>
      (\<forall>c\<in>set cs. length c \<le> MaxPathComponent)"
    by (simp add: filter_empty_conv not_less)
  then show ?thesis
    by (cases "filter (\<lambda>c. MaxPathComponent < length c) cs")
       (simp_all add: checkComponentSizes_def not_less)
qed

lemma CheckPathBytes_iff:
  "CheckPathBytes nfc p = Inr () \<longleftrightarrow>
     length p \<le> MaxPathLength \<and> validUTF8 p \<and> nfc p \<and>
     (\<forall>c\<in>set p. \<not> c < CHR 0x20 \<and> c \<noteq> CHR 0x7F \<and> c \<noteq> CHR 0x5C) \<and>
     length (split_byte (CHR ''/'') p) \<le> MaxPathDepth \<and>
     (\<forall>c\<in>set (split_byte (CHR ''/'') p). length c \<le> MaxPathComponent)"
  unfolding checkBytes_iff [symmetric] checkComponentSizes_iff [symmetric]
  by (cases "checkBytes p") (simp_all add: CheckPathBytes_def not_less)

lemma checkAbsolute_iff:
  "checkAbsolute nfc p = Inr rel \<longleftrightarrow>
     p = CHR ''/'' # rel \<and> rel \<noteq> [] \<and> CheckPathBytes nfc rel = Inr () \<and>
     (\<forall>c\<in>set (split_byte (CHR ''/'') rel). c \<noteq> [] \<and> c \<noteq> ''.'' \<and> c \<noteq> ''..'')"
  by (cases p)
     (auto simp: checkAbsolute_def has_prefix_def result_simps CheckPathComponents_def
        checkComponents_iff Let_def)

lemma Check_iff: "Check p = Inr () \<longleftrightarrow> Forbidden p = None"
  by (auto simp: Check_def CheckEntry_def split: option.splits)

end
