(* ===== verification/Manifest.thy ===== *)
theory Manifest
  imports Constraint Capability Layout
begin

section \<open>The package manifest\<close>

text \<open>
  \<open>internal/manifest/manifest.go\<close> and the wire types of \<open>decode.go\<close>: the decoded
  manifest and the JSON shape it is decoded from. A pointer field of a wire type, whose
  absence must be told from a present zero value, is an \<^typ>\<open>'a option\<close>; a map field
  is a \<^typ>\<open>'a gomap\<close>, with the empty map for \<open>nil\<close>.
\<close>

subsection \<open>Decoded values\<close>

datatype LicenseClass =
    LicenseClassUnknown | LicenseClassFree | LicenseClassFirmware | LicenseClassProprietary

datatype SideEffect = SideEffectDepmod | SideEffectManDB

record ClaimSlot =
  cs_Path :: string
  cs_Target :: string

record Dependency =
  d_Name :: string
  d_Constraint :: Constraint
  d_Root :: string
  d_Claims :: "ClaimSlot gomap"

record Provides =
  p_Name :: string
  p_Version :: "version option"
  p_Claims :: "ClaimSlot gomap"

record Replaces =
  r_Name :: string
  r_Constraint :: Constraint

record AlternateUpgrade =
  au_Message :: string

record SDOverride =
  so_Path :: string
  so_SD :: string

record Build =
  b_Timestamp :: time
  b_FarmID :: string
  b_SourceRef :: string
  b_SourcePackage :: string
  b_RecipeRef :: string
  b_Builder :: string

record Manifest =
  m_Name :: string
  m_Version :: version
  m_Architecture :: string
  m_Description :: string
  m_License :: string
  m_LicenseClass :: LicenseClass
  m_Homepage :: string
  m_DefaultRoot :: string
  m_SpecialSystemPackage :: bool
  m_AlternateUpgrade :: "AlternateUpgrade option"
  m_Dependencies :: "Dependency list"
  m_OptionalDependencies :: "Dependency list"
  m_Conflicts :: "Dependency list"
  m_Provides :: "Provides list"
  m_Replaces :: "Replaces list"
  m_SideEffects :: "SideEffect list"
  m_SizeInstalled :: int
  m_SDOverrides :: "SDOverride list"
  m_Build :: Build

definition ParseLicenseClass :: "string \<Rightarrow> string + LicenseClass" where
  "ParseLicenseClass s =
     (if s = '''' \<or> s = ''unknown'' then Inr LicenseClassUnknown
      else if s = ''free'' then Inr LicenseClassFree
      else if s = ''firmware'' then Inr LicenseClassFirmware
      else if s = ''proprietary'' then Inr LicenseClassProprietary
      else Inl s)"

subsection \<open>Wire types\<close>

record wireClaimSlot =
  wc_Path :: string
  wc_Target :: string

record wireDependency =
  wd_Name :: "string option"
  wd_Constraint :: string
  wd_Arch :: string
  wd_Root :: string
  wd_Claims :: "wireClaimSlot gomap"

record wireProvides =
  wp_Name :: "string option"
  wp_Version :: string
  wp_Claims :: "wireClaimSlot gomap"

record wireReplaces =
  wr_Name :: "string option"
  wr_Constraint :: string

record wireSDOverride =
  ws_Path :: "string option"
  ws_SD :: "string option"

record wireBuild =
  wb_Timestamp :: "string option"
  wb_FarmID :: "string option"
  wb_SourceRef :: "string option"
  wb_SourcePackage :: "string option"
  wb_RecipeRef :: "string option"
  wb_Builder :: "string option"

record wireAlternateUpgrade =
  wa_Message :: "string option"

record wireManifest =
  w_SchemaVersion :: "int option"
  w_Name :: "string option"
  w_Version :: "string option"
  w_Architecture :: "string option"
  w_Description :: string
  w_License :: string
  w_LicenseClass :: string
  w_Homepage :: string
  w_DefaultRoot :: string
  w_SpecialSystemPackage :: bool
  w_AlternateUpgrade :: "wireAlternateUpgrade option"
  w_Dependencies :: "wireDependency list option"
  w_OptionalDependencies :: "wireDependency list"
  w_Conflicts :: "wireDependency list option"
  w_Provides :: "wireProvides list"
  w_Replaces :: "wireReplaces list"
  w_SideEffects :: "string list"
  w_SizeInstalled :: "int option"
  w_SDOverrides :: "wireSDOverride list"
  w_Build :: "wireBuild option"

end
