(* ===== verification/ResolverModel.thy ===== *)
theory ResolverModel
  imports Manifest
begin

section \<open>The resolver's inputs and outputs\<close>

text \<open>
  \<open>internal/resolver/model.go\<close>, \<open>reject.go\<close> and the working-set types of
  \<open>resolve.go\<close>. A version a Go struct leaves at its zero value is \<^const>\<open>None\<close>. The
  text of a message is not modelled; what it is made of is kept as a structured detail,
  because \<open>dedupeAuthorizations\<close> compares details.
\<close>

definition archNoarch :: string where
  "archNoarch = ''noarch''"

datatype RequestKind = Install | Upgrade | Downgrade | Remove

record Request =
  rq_Kind :: RequestKind
  rq_Name :: string
  rq_Version :: version
  rq_Root :: string

record Candidate =
  c_Name :: string
  c_Version :: version
  c_Architecture :: string
  c_Dependencies :: "Dependency list"
  c_Conflicts :: "Dependency list"
  c_Provides :: "Provides list"
  c_Replaces :: "Replaces list"
  c_Repo :: string
  c_RepoPriority :: int
  c_DefaultRoot :: string
  c_AlternateUpgrade :: "AlternateUpgrade option"
  c_LicenseClass :: LicenseClass
  c_URL :: string
  c_Hash :: string
  c_SizeCompressed :: int
  c_SizeInstalled :: int

record Installed =
  i_Name :: string
  i_Version :: version
  i_Architecture :: string
  i_Dependencies :: "Dependency list"
  i_Conflicts :: "Dependency list"
  i_Provides :: "Provides list"
  i_Repo :: string
  i_RepoPriority :: int
  i_Orphaned :: bool

definition OrphanPriority :: int where
  "OrphanPriority = - (2 ^ 31)"

record Options =
  o_PrimaryArch :: string
  o_AllowDowngrade :: bool
  o_CascadeRemovals :: bool

datatype OpKind = OpInstall | OpUpgrade | OpDowngrade | OpRemove

record Operation =
  op_Kind :: OpKind
  op_Name :: string
  op_Root :: string
  op_FromVersion :: "version option"
  op_ToVersion :: "version option"
  op_Candidate :: "Candidate option"

datatype AuthKind = AuthLowTrustProvides | AuthForeignReplaces | AuthDowngrade

datatype AuthDetail =
    LowTrustDetail string string string string string string string
  | ForeignDetail string string int string string int
  | OrphanDetail string string int string string
  | DowngradeDetail string "version option" "version option"

record Authorization =
  au_Kind :: AuthKind
  au_Package :: string
  au_Detail :: AuthDetail

datatype NoticeKind = NoticeGoalViaProvides

record Notice =
  n_Kind :: NoticeKind
  n_Detail :: "string list"

record Plan =
  pl_Operations :: "Operation list"
  pl_Authorizations :: "Authorization list"
  pl_Notices :: "Notice list"

datatype RejectReason =
    ReasonUnsatisfiable | ReasonConflict | ReasonArchMismatch | ReasonVersionRegression
  | ReasonCycle | ReasonRemovalBlocked | ReasonTooComplex

record Rejection =
  rj_Reason :: RejectReason
  rj_Detail :: "string list"

text \<open>
  \<open>SortFuel\<close> is the model's own: the depth bound of the topological sort was reached.
  No resolution returns it (\<open>topoSort_fuel\<close>).
\<close>

datatype resolveError = Rejected Rejection | BadConstraint constraintError | SortFuel

definition reject :: "RejectReason \<Rightarrow> string list \<Rightarrow> resolveError + 'a" where
  "reject reason detail = Inl (Rejected \<lparr>rj_Reason = reason, rj_Detail = detail\<rparr>)"

subsection \<open>The working set\<close>

definition rootSep :: string where
  "rootSep = [CHR 0x00]"

definition worldKey :: "string \<Rightarrow> string \<Rightarrow> string" where
  "worldKey root name = root @ rootSep @ name"

definition nameOf :: "string \<Rightarrow> string" where
  "nameOf key = (case cut_byte (CHR 0x00) key of Some (_, name) \<Rightarrow> name | None \<Rightarrow> key)"

record worldPkg =
  pk_root :: string
  pk_name :: string
  pk_version :: version
  pk_architecture :: string
  pk_dependencies :: "Dependency list"
  pk_conflicts :: "Dependency list"
  pk_provides :: "Provides list"
  pk_installedVersion :: "version option"
  pk_installedRepo :: string
  pk_installedRepoPriority :: int
  pk_installedOrphaned :: bool
  pk_candidate :: "Candidate option"

type_synonym world = "worldPkg gomap"

type_synonym installedSet = "Installed list gomap"

definition originRepo :: "worldPkg \<Rightarrow> string \<times> int" where
  "originRepo p =
     (case pk_candidate p of
        Some c \<Rightarrow> (c_Repo c, c_RepoPriority c)
      | None \<Rightarrow> (pk_installedRepo p, pk_installedRepoPriority p))"

record candidateIndex =
  byName :: "Candidate list gomap"
  byProvides :: "Candidate list gomap"

definition index_get :: "'a list gomap \<Rightarrow> string \<Rightarrow> 'a list" where
  "index_get m k = (case map_get m k of None \<Rightarrow> [] | Some l \<Rightarrow> l)"

definition index_add :: "'a list gomap \<Rightarrow> string \<Rightarrow> 'a \<Rightarrow> 'a list gomap" where
  "index_add m k a = map_put m k (index_get m k @ [a])"

definition buildIndex :: "Candidate list \<Rightarrow> candidateIndex" where
  "buildIndex available =
     foldl (\<lambda>idx c.
              \<lparr>byName = index_add (byName idx) (c_Name c) c,
               byProvides = foldl (\<lambda>m p. index_add m (p_Name p) c) (byProvides idx) (c_Provides c)\<rparr>)
       \<lparr>byName = [], byProvides = []\<rparr> available"

lemma index_get_add: "index_get (index_add m k a) j = (if j = k then index_get m k @ [a] else index_get m j)"
  by (simp add: index_get_def index_add_def map_simps)

lemma index_get_Nil [simp]: "index_get [] k = []"
  by (simp add: index_get_def)

lemma set_index_get_foldl:
  "set (index_get (foldl (\<lambda>m p. index_add m (f p) c) m ps) k) =
     set (index_get m k) \<union> (if k \<in> f ` set ps then {c} else {})"
  by (induction ps arbitrary: m) (auto simp: index_get_add)

lemma buildIndex_step:
  "byName (buildIndex (cs @ [c])) = index_add (byName (buildIndex cs)) (c_Name c) c"
  "byProvides (buildIndex (cs @ [c])) =
     foldl (\<lambda>m p. index_add m (p_Name p) c) (byProvides (buildIndex cs)) (c_Provides c)"
  by (simp_all add: buildIndex_def)

lemma byName_buildIndex:
  "index_get (byName (buildIndex cs)) n = filter (\<lambda>c. c_Name c = n) cs"
proof (induction cs rule: rev_induct)
  case Nil
  then show ?case by (simp add: buildIndex_def)
next
  case (snoc c cs)
  then show ?case by (cases "n = c_Name c") (simp_all add: buildIndex_step index_get_add)
qed

lemma byProvides_buildIndex:
  "set (index_get (byProvides (buildIndex cs)) n) =
     {c \<in> set cs. n \<in> p_Name ` set (c_Provides c)}"
proof (induction cs rule: rev_induct)
  case Nil
  then show ?case by (simp add: buildIndex_def)
next
  case (snoc c cs)
  then show ?case by (auto simp: buildIndex_step set_index_get_foldl)
qed

lemma nameOf_worldKey: "CHR 0x00 \<notin> set root \<Longrightarrow> nameOf (worldKey root name) = name"
proof -
  assume "CHR 0x00 \<notin> set root"
  then have "cut_byte (CHR 0x00) (worldKey root name) = Some (root, name)"
    by (simp add: cut_byte_Some worldKey_def rootSep_def)
  then show ?thesis by (simp add: nameOf_def)
qed

text \<open>Root and name can be read back off a key as long as no root holds a NUL.\<close>

lemma worldKey_inj:
  assumes "CHR 0x00 \<notin> set r" and "CHR 0x00 \<notin> set r'" and "worldKey r n = worldKey r' n'"
  shows "r = r' \<and> n = n'"
proof -
  have "cut_byte (CHR 0x00) (worldKey r n) = Some (r, n)"
    and "cut_byte (CHR 0x00) (worldKey r' n') = Some (r', n')"
    using assms(1,2) by (simp_all add: cut_byte_Some worldKey_def rootSep_def)
  with assms(3) have "(r, n) = (r', n')" by (metis option.inject)
  then show ?thesis by blast
qed

end
