(* ===== verification/Select.thy ===== *)
theory Select
  imports ResolverModel
begin

section \<open>Satisfaction and candidate selection\<close>

text \<open>
  \<open>satisfies\<close> and its helpers from \<open>internal/resolver/resolve.go\<close>, and
  \<open>select.go\<close>: which candidates match a name, and which of them is preferred.
\<close>

subsection \<open>Satisfaction\<close>

definition effectiveArch :: "string \<Rightarrow> string \<Rightarrow> string" where
  "effectiveArch arch primaryArch =
     (if arch = archNoarch \<and> primaryArch \<noteq> [] then primaryArch else arch)"

definition installableArch :: "string \<Rightarrow> string \<Rightarrow> bool" where
  "installableArch arch primaryArch \<longleftrightarrow> arch = primaryArch \<or> arch = archNoarch"

definition satisfies ::
    "string \<Rightarrow> version \<Rightarrow> string \<Rightarrow> Provides list \<Rightarrow> Dependency \<Rightarrow> string \<Rightarrow> string \<Rightarrow> bool" where
  "satisfies name ver arch provides dep dependerArch primaryArch \<longleftrightarrow>
     (if arch \<noteq> archNoarch \<and> effectiveArch dependerArch primaryArch \<noteq> archNoarch \<and>
         arch \<noteq> effectiveArch dependerArch primaryArch then False
      else if name = d_Name dep \<and> Matches (d_Constraint dep) ver then True
      else list_ex (\<lambda>p. p_Name p = d_Name dep \<and>
                        (case p_Version p of
                           None \<Rightarrow> True
                         | Some v \<Rightarrow> Matches (d_Constraint dep) v)) provides)"

definition pkgSatisfies :: "worldPkg \<Rightarrow> Dependency \<Rightarrow> string \<Rightarrow> string \<Rightarrow> bool" where
  "pkgSatisfies p dep dependerArch primaryArch =
     satisfies (pk_name p) (pk_version p) (pk_architecture p) (pk_provides p) dep
       dependerArch primaryArch"

definition worldSatisfiesInRoot ::
    "world \<Rightarrow> Dependency \<Rightarrow> string \<Rightarrow> string \<Rightarrow> string \<Rightarrow> bool" where
  "worldSatisfiesInRoot w dep dependerArch primaryArch targetRoot \<longleftrightarrow>
     list_ex (\<lambda>(k, p). pk_root p = targetRoot \<and> pkgSatisfies p dep dependerArch primaryArch)
       (map_entries w)"

definition routeRoot :: "Dependency \<Rightarrow> string \<Rightarrow> string gomap option \<Rightarrow> string option" where
  "routeRoot dep dependerRoot refToPath =
     (if d_Root dep = [] then Some dependerRoot
      else (case refToPath of
              None \<Rightarrow> Some dependerRoot
            | Some m \<Rightarrow> map_get m (d_Root dep)))"

lemma worldSatisfiesInRoot_iff:
  "worldSatisfiesInRoot w dep da pa r \<longleftrightarrow>
     (\<exists>k p. map_get w k = Some p \<and> pk_root p = r \<and> pkgSatisfies p dep da pa)"
  unfolding worldSatisfiesInRoot_def list_ex_iff by (force simp: map_entries_mem)

subsection \<open>Matches\<close>

record match =
  ma_cand :: Candidate
  ma_roleVer :: "version option"

definition matchFor :: "Candidate \<Rightarrow> string \<Rightarrow> match option" where
  "matchFor c name =
     (if c_Name c = name then Some \<lparr>ma_cand = c, ma_roleVer = Some (c_Version c)\<rparr>
      else (case filter (\<lambda>p. p_Name p = name) (c_Provides c) of
              p # _ \<Rightarrow> Some \<lparr>ma_cand = c, ma_roleVer = p_Version p\<rparr>
            | [] \<Rightarrow> None))"

definition candidateKey :: "Candidate \<Rightarrow> string" where
  "candidateKey c =
     c_Name c @ [CHR 0x00] @ v_raw (c_Version c) @ [CHR 0x00] @ c_Architecture c
     @ [CHR 0x00] @ c_Repo c @ [CHR 0x00] @ c_URL c @ [CHR 0x00] @ c_Hash c"

text \<open>
  The preference rules. Each of the two helpers decides, or leaves the decision to the
  rules after it with \<^const>\<open>None\<close>.
\<close>

definition sameRepoRule :: "Candidate \<Rightarrow> Candidate \<Rightarrow> string \<Rightarrow> int \<Rightarrow> bool option" where
  "sameRepoRule a b dependerRepo dependerPriority =
     (if dependerRepo = [] then None
      else (let aSame = (c_Repo a = dependerRepo); bSame = (c_Repo b = dependerRepo) in
        if aSame \<and> \<not> bSame \<and> dependerPriority \<le> c_RepoPriority b then Some True
        else if bSame \<and> \<not> aSame \<and> dependerPriority \<le> c_RepoPriority a then Some False
        else None))"

definition roleRule :: "version option \<Rightarrow> version option \<Rightarrow> bool option" where
  "roleRule a b =
     (case (a, b) of
        (Some _, None) \<Rightarrow> Some True
      | (None, Some _) \<Rightarrow> Some False
      | (Some v, Some w) \<Rightarrow> (let c = Compare v w in if c \<noteq> 0 then Some (c > 0) else None)
      | (None, None) \<Rightarrow> None)"

definition archRule :: "Candidate \<Rightarrow> Candidate \<Rightarrow> string \<Rightarrow> bool option" where
  "archRule a b primaryArch =
     (let am = (c_Architecture a = primaryArch); bm = (c_Architecture b = primaryArch) in
      if am \<noteq> bm then Some am else None)"

definition sameNameRule :: "Candidate \<Rightarrow> Candidate \<Rightarrow> string \<Rightarrow> bool option" where
  "sameNameRule a b primaryArch =
     (if c_Name a = c_Name b then
        (let c = Compare (c_Version a) (c_Version b) in
         if c \<noteq> 0 then Some (c > 0) else archRule a b primaryArch)
      else None)"

definition morePreferred :: "match \<Rightarrow> match \<Rightarrow> string \<Rightarrow> string \<Rightarrow> int \<Rightarrow> bool" where
  "morePreferred a b primaryArch dependerRepo dependerPriority =
     (let ca = ma_cand a; cb = ma_cand b in
      case (if c_Name ca \<noteq> c_Name cb then archRule ca cb primaryArch else None) of
        Some r \<Rightarrow> r
      | None \<Rightarrow>
     (case sameRepoRule ca cb dependerRepo dependerPriority of
        Some r \<Rightarrow> r
      | None \<Rightarrow>
     if c_RepoPriority ca \<noteq> c_RepoPriority cb then c_RepoPriority ca < c_RepoPriority cb
     else
     (case roleRule (ma_roleVer a) (ma_roleVer b) of
        Some r \<Rightarrow> r
      | None \<Rightarrow>
     (case sameNameRule ca cb primaryArch of
        Some r \<Rightarrow> r
      | None \<Rightarrow>
     if c_Name ca \<noteq> c_Name cb then c_Name ca < c_Name cb
     else c_Repo ca < c_Repo cb))))"

text \<open>
  \<open>pickBest\<close>: first one match per package name, in order of first appearance, then the
  preferred one among those.
\<close>

fun absorb :: "(match \<Rightarrow> match \<Rightarrow> bool) \<Rightarrow> match list \<Rightarrow> match \<Rightarrow> match list" where
  "absorb pref [] m = [m]"
| "absorb pref (p # ps) m =
     (if c_Name (ma_cand p) = c_Name (ma_cand m) then (if pref m p then m # ps else p # ps)
      else p # absorb pref ps m)"

definition bestProvider :: "(match \<Rightarrow> match \<Rightarrow> bool) \<Rightarrow> match \<Rightarrow> match list \<Rightarrow> match" where
  "bestProvider pref p ps = foldl (\<lambda>best m. if pref m best then m else best) p ps"

definition pickBest :: "match list \<Rightarrow> string \<Rightarrow> string \<Rightarrow> int \<Rightarrow> Candidate option" where
  "pickBest ms primaryArch dependerRepo dependerPriority =
     (let pref = (\<lambda>a b. morePreferred a b primaryArch dependerRepo dependerPriority) in
      case foldl (absorb pref) [] ms of
        [] \<Rightarrow> None
      | p # ps \<Rightarrow> Some (ma_cand (bestProvider pref p ps)))"

definition bestNamed :: "Candidate list \<Rightarrow> Constraint \<Rightarrow> string \<Rightarrow> Candidate option" where
  "bestNamed cands constraint primaryArch =
     pickBest
       (map (\<lambda>c. \<lparr>ma_cand = c, ma_roleVer = Some (c_Version c)\<rparr>)
         (filter (\<lambda>c. installableArch (c_Architecture c) primaryArch \<and>
                      Matches constraint (c_Version c)) cands))
       primaryArch [] 0"

text \<open>The loop of \<open>consider\<close>: a candidate seen before is passed over.\<close>

fun collect :: "(Candidate \<Rightarrow> match option) \<Rightarrow> string list \<Rightarrow> Candidate list \<Rightarrow> match list" where
  "collect accept seen [] = []"
| "collect accept seen (c # cs) =
     (if candidateKey c \<in> set seen then collect accept seen cs
      else (case accept c of
              None \<Rightarrow> collect accept seen cs
            | Some m \<Rightarrow> m # collect accept (candidateKey c # seen) cs))"

definition acceptGoal :: "string \<Rightarrow> Constraint \<Rightarrow> string \<Rightarrow> Candidate \<Rightarrow> match option" where
  "acceptGoal name constraint primaryArch c =
     (if \<not> installableArch (c_Architecture c) primaryArch then None
      else (case matchFor c name of
              None \<Rightarrow> None
            | Some m \<Rightarrow>
                (case ma_roleVer m of
                   Some v \<Rightarrow> if \<not> Matches constraint v then None else Some m
                 | None \<Rightarrow> Some m)))"

definition bestForGoal ::
    "candidateIndex \<Rightarrow> string \<Rightarrow> Constraint \<Rightarrow> string \<Rightarrow> Candidate option" where
  "bestForGoal idx name constraint primaryArch =
     pickBest
       (collect (acceptGoal name constraint primaryArch) []
         (index_get (byName idx) name @ index_get (byProvides idx) name))
       primaryArch [] 0"

definition acceptDependency ::
    "Dependency \<Rightarrow> string \<Rightarrow> string \<Rightarrow> Candidate \<Rightarrow> match option" where
  "acceptDependency dep dependerArch primaryArch c =
     (if \<not> satisfies (c_Name c) (c_Version c) (c_Architecture c) (c_Provides c) dep
             dependerArch primaryArch then None
      else if \<not> installableArch (c_Architecture c) primaryArch then None
      else matchFor c (d_Name dep))"

definition bestForDependency ::
    "candidateIndex \<Rightarrow> Dependency \<Rightarrow> string \<Rightarrow> string \<Rightarrow> string \<Rightarrow> int \<Rightarrow> Candidate option" where
  "bestForDependency idx dep dependerArch primaryArch dependerRepo dependerPriority =
     pickBest
       (collect (acceptDependency dep dependerArch primaryArch) []
         (index_get (byName idx) (d_Name dep) @ index_get (byProvides idx) (d_Name dep)))
       primaryArch dependerRepo dependerPriority"

subsection \<open>What is selected\<close>

lemma matchFor_cand: "matchFor c name = Some m \<Longrightarrow> ma_cand m = c"
  by (auto simp: matchFor_def split: if_splits list.splits)

lemma collect_mem: "m \<in> set (collect accept seen cs) \<Longrightarrow> \<exists>c\<in>set cs. accept c = Some m"
  by (induction accept seen cs rule: collect.induct) (auto split: if_splits option.splits)

lemma collect_nonempty:
  "c \<in> set cs \<Longrightarrow> accept c \<noteq> None \<Longrightarrow> candidateKey c \<notin> set seen \<Longrightarrow> collect accept seen cs \<noteq> []"
  by (induction accept seen cs rule: collect.induct) (auto split: option.splits)

lemma collect_empty: "collect accept [] cs = [] \<longleftrightarrow> (\<forall>c\<in>set cs. accept c = None)"
proof
  assume "collect accept [] cs = []"
  then show "\<forall>c\<in>set cs. accept c = None"
    using collect_nonempty [of _ cs accept "[]"] by force
next
  assume none: "\<forall>c\<in>set cs. accept c = None"
  show "collect accept [] cs = []"
  proof (cases "collect accept [] cs")
    case (Cons m ms)
    then show ?thesis using collect_mem [of m accept "[]" cs] none by auto
  qed
qed

lemma set_absorb: "set (absorb pref ps m) \<subseteq> insert m (set ps)"
  by (induction pref ps m rule: absorb.induct) auto

lemma foldl_absorb_subset: "set (foldl (absorb pref) ps ms) \<subseteq> set ps \<union> set ms"
proof (induction ms arbitrary: ps)
  case (Cons m ms)
  from Cons.IH [of "absorb pref ps m"] set_absorb [of pref ps m] show ?case by auto
qed simp

lemma absorb_nonempty [simp]: "absorb pref ps m \<noteq> []"
  by (cases ps) auto

lemma foldl_absorb_nonempty: "ps \<noteq> [] \<or> ms \<noteq> [] \<Longrightarrow> foldl (absorb pref) ps ms \<noteq> []"
  by (induction ms arbitrary: ps) auto

lemma bestProvider_mem: "bestProvider pref p ps \<in> insert p (set ps)"
proof (induction ps arbitrary: p)
  case (Cons m ps)
  from Cons.IH [of "if pref m p then m else p"] show ?case
    by (auto simp: bestProvider_def split: if_splits)
qed (simp add: bestProvider_def)

lemma pickBest_None: "pickBest ms pa dr dp = None \<longleftrightarrow> ms = []"
  using foldl_absorb_nonempty [of "[]" ms]
  by (cases ms) (auto simp: pickBest_def Let_def split: list.splits)

lemma pickBest_mem:
  assumes "pickBest ms pa dr dp = Some c"
  shows "\<exists>m\<in>set ms. ma_cand m = c"
proof -
  define pref where "pref = (\<lambda>a b. morePreferred a b pa dr dp)"
  from assms obtain p ps where ps: "foldl (absorb pref) [] ms = p # ps"
    and c: "c = ma_cand (bestProvider pref p ps)"
    by (auto simp: pickBest_def Let_def pref_def split: list.splits)
  have "bestProvider pref p ps \<in> set ms"
    using bestProvider_mem [of pref p ps] foldl_absorb_subset [of pref "[]" ms] ps by auto
  with c show ?thesis by blast
qed

lemma bestForDependency_sound:
  assumes "bestForDependency (buildIndex av) dep da pa dr dp = Some c"
  shows "c \<in> set av" and "installableArch (c_Architecture c) pa"
    and "satisfies (c_Name c) (c_Version c) (c_Architecture c) (c_Provides c) dep da pa"
proof -
  from assms obtain m where "m \<in> set (collect (acceptDependency dep da pa) []
      (index_get (byName (buildIndex av)) (d_Name dep)
       @ index_get (byProvides (buildIndex av)) (d_Name dep)))" and "ma_cand m = c"
    unfolding bestForDependency_def by (blast dest: pickBest_mem)
  then obtain d where "d \<in> set av" and "acceptDependency dep da pa d = Some m"
    by (auto dest!: collect_mem simp: byName_buildIndex byProvides_buildIndex)
  moreover from this \<open>ma_cand m = c\<close> have "d = c"
    by (auto simp: acceptDependency_def dest: matchFor_cand split: if_splits)
  ultimately show "c \<in> set av" and "installableArch (c_Architecture c) pa"
    and "satisfies (c_Name c) (c_Version c) (c_Architecture c) (c_Provides c) dep da pa"
    by (auto simp: acceptDependency_def split: if_splits)
qed

lemma satisfies_names:
  assumes "satisfies name ver arch provides dep da pa"
  shows "name = d_Name dep \<or> d_Name dep \<in> p_Name ` set provides"
  using assms unfolding satisfies_def list_ex_iff by (metis image_eqI)

lemma matchFor_Some:
  "name = c_Name c \<or> name \<in> p_Name ` set (c_Provides c) \<Longrightarrow> matchFor c name \<noteq> None"
  by (auto simp: matchFor_def filter_empty_conv split: list.splits)

text \<open>A dependency is given up only when no available candidate both satisfies it and fits.\<close>

lemma bestForDependency_None:
  "bestForDependency (buildIndex av) dep da pa dr dp = None \<longleftrightarrow>
     (\<forall>c\<in>set av. \<not> (installableArch (c_Architecture c) pa \<and>
        satisfies (c_Name c) (c_Version c) (c_Architecture c) (c_Provides c) dep da pa))"
proof -
  define cs where "cs = index_get (byName (buildIndex av)) (d_Name dep)
       @ index_get (byProvides (buildIndex av)) (d_Name dep)"
  have cs: "set cs = {c \<in> set av. c_Name c = d_Name dep \<or> d_Name dep \<in> p_Name ` set (c_Provides c)}"
    by (auto simp: cs_def byName_buildIndex byProvides_buildIndex)
  have acc: "acceptDependency dep da pa c \<noteq> None \<longleftrightarrow> installableArch (c_Architecture c) pa \<and>
      satisfies (c_Name c) (c_Version c) (c_Architecture c) (c_Provides c) dep da pa" for c
    using satisfies_names [of "c_Name c" "c_Version c" "c_Architecture c" "c_Provides c" dep da pa]
      matchFor_Some [of "d_Name dep" c]
    by (auto simp: acceptDependency_def)
  have "collect (acceptDependency dep da pa) [] cs = [] \<longleftrightarrow>
      (\<forall>c\<in>set cs. acceptDependency dep da pa c = None)"
    by (rule collect_empty)
  also have "\<dots> \<longleftrightarrow> (\<forall>c\<in>set av. \<not> (installableArch (c_Architecture c) pa \<and>
        satisfies (c_Name c) (c_Version c) (c_Architecture c) (c_Provides c) dep da pa))"
    using acc cs satisfies_names [of _ _ _ _ dep da pa] by (auto simp del: not_None_eq) metis+
  finally show ?thesis
    unfolding bestForDependency_def pickBest_None cs_def [symmetric] .
qed

lemma bestForGoal_sound:
  assumes "bestForGoal (buildIndex av) name con pa = Some c"
  shows "c \<in> set av" and "installableArch (c_Architecture c) pa"
    and "c_Name c = name \<or> name \<in> p_Name ` set (c_Provides c)"
proof -
  from assms obtain m where "m \<in> set (collect (acceptGoal name con pa) []
      (index_get (byName (buildIndex av)) name @ index_get (byProvides (buildIndex av)) name))"
    and "ma_cand m = c"
    unfolding bestForGoal_def by (blast dest: pickBest_mem)
  then obtain d where "d \<in> set av" and "acceptGoal name con pa d = Some m"
    and "c_Name d = name \<or> name \<in> p_Name ` set (c_Provides d)"
    by (fastforce dest!: collect_mem simp: byName_buildIndex byProvides_buildIndex)
  moreover from this \<open>ma_cand m = c\<close> have "d = c"
    by (auto simp: acceptGoal_def dest: matchFor_cand split: if_splits option.splits)
  ultimately show "c \<in> set av" and "installableArch (c_Architecture c) pa"
    and "c_Name c = name \<or> name \<in> p_Name ` set (c_Provides c)"
    by (auto simp: acceptGoal_def split: if_splits)
qed

lemma bestNamed_sound:
  assumes "bestNamed cs con pa = Some c"
  shows "c \<in> set cs" and "installableArch (c_Architecture c) pa" and "Matches con (c_Version c)"
  using assms unfolding bestNamed_def by (auto dest!: pickBest_mem)

end
