(* ===== verification/Removal.thy ===== *)
theory Removal
  imports Select
begin

section \<open>Removals\<close>

text \<open>
  \<open>internal/resolver/removal.go\<close>. \<open>sort.Slice\<close> by name is the stable \<^const>\<open>sort_key\<close>
  here; a package has one dependency entry per name, so ties do not arise. The
  cascade is a recursive function; each round deletes a key of the world, which is why
  it ends.
\<close>

definition brokenDependency ::
    "world \<Rightarrow> string gomap option \<Rightarrow> string \<Rightarrow> worldPkg \<Rightarrow> Dependency option" where
  "brokenDependency w refToPath primaryArch p =
     find (\<lambda>d. case routeRoot d (pk_root p) refToPath of
                 None \<Rightarrow> False
               | Some targetRoot \<Rightarrow>
                   \<not> worldSatisfiesInRoot w d (pk_architecture p) primaryArch targetRoot)
       (sort_key d_Name (pk_dependencies p))"

fun firstBrokenIn ::
    "world \<Rightarrow> string gomap option \<Rightarrow> string \<Rightarrow> (string \<times> worldPkg) list \<Rightarrow> string \<times> string" where
  "firstBrokenIn w refToPath primaryArch [] = ([], [])"
| "firstBrokenIn w refToPath primaryArch ((k, p) # rest) =
     (case brokenDependency w refToPath primaryArch p of
        Some d \<Rightarrow> (k, d_Name d)
      | None \<Rightarrow> firstBrokenIn w refToPath primaryArch rest)"

definition firstBroken :: "world \<Rightarrow> string gomap option \<Rightarrow> string \<Rightarrow> string \<times> string" where
  "firstBroken w refToPath primaryArch = firstBrokenIn w refToPath primaryArch (map_entries w)"

definition removeTarget :: "string \<Rightarrow> world \<Rightarrow> resolveError + world" where
  "removeTarget key w =
     (case map_get w key of
        None \<Rightarrow> reject ReasonRemovalBlocked [nameOf key]
      | Some _ \<Rightarrow> Inr (map_del w key))"

lemma firstBrokenIn_key:
  "firstBrokenIn w ref pa es = (k, d) \<Longrightarrow> k \<noteq> [] \<Longrightarrow>
     \<exists>p e. (k, p) \<in> set es \<and> brokenDependency w ref pa p = Some e"
  by (induction w ref pa es rule: firstBrokenIn.induct) (auto split: option.splits)

lemma firstBroken_key:
  assumes "firstBroken w ref pa = (k, d)" and "k \<noteq> []"
  obtains p e where "map_get w k = Some p" and "brokenDependency w ref pa p = Some e"
  using firstBrokenIn_key [OF assms(1) [unfolded firstBroken_def] assms(2)]
  by (auto simp: map_entries_mem)

lemma firstBroken_shrinks:
  assumes "(k, d) = firstBroken w ref pa" and "k \<noteq> []"
  shows "length (map_keys (map_del w k)) < length (map_keys w)"
proof -
  obtain p where "map_get w k = Some p"
    by (rule firstBroken_key [OF assms(1) [symmetric] assms(2)])
  then show ?thesis by (rule gomap.length_keys_del)
qed

function cascade :: "string gomap option \<Rightarrow> Options \<Rightarrow> world \<Rightarrow> resolveError + world" where
  "cascade refToPath opts w =
     (case firstBroken w refToPath (o_PrimaryArch opts) of
        (brokenKey, dep) \<Rightarrow>
          if brokenKey = [] then Inr w
          else if \<not> o_CascadeRemovals opts then reject ReasonRemovalBlocked [nameOf brokenKey, dep]
          else cascade refToPath opts (map_del w brokenKey))"
  by pat_completeness auto

termination
  by (relation "measure (\<lambda>(_, _, w). length (map_keys w))") (auto simp: firstBroken_shrinks)

declare cascade.simps [simp del]

definition applyRemovals ::
    "world \<Rightarrow> string list \<Rightarrow> string gomap option \<Rightarrow> Options \<Rightarrow> resolveError + world" where
  "applyRemovals w targets refToPath opts =
     (if targets = [] then Inr w
      else rbind (fold_res removeTarget targets w) (cascade refToPath opts))"

subsection \<open>What a removal leaves\<close>

text \<open>A package is held up by \<open>w\<close> when \<open>w\<close> satisfies each dependency that has a root.\<close>

definition held_up :: "world \<Rightarrow> string gomap option \<Rightarrow> string \<Rightarrow> worldPkg \<Rightarrow> bool" where
  "held_up w refToPath primaryArch p \<longleftrightarrow>
     (\<forall>d\<in>set (pk_dependencies p). \<forall>r. routeRoot d (pk_root p) refToPath = Some r \<longrightarrow>
        worldSatisfiesInRoot w d (pk_architecture p) primaryArch r)"

definition submap :: "world \<Rightarrow> world \<Rightarrow> bool" where
  "submap w w' \<longleftrightarrow> (\<forall>k p. map_get w k = Some p \<longrightarrow> map_get w' k = Some p)"

lemma submap_refl [simp]: "submap w w"
  by (simp add: submap_def)

lemma submap_trans: "submap u v \<Longrightarrow> submap v w \<Longrightarrow> submap u w"
  by (simp add: submap_def)

lemma submap_del: "submap (map_del w k) w"
  by (simp add: submap_def map_simps)

lemma submap_put: "map_get w k = None \<Longrightarrow> submap w (map_put w k p)"
  by (auto simp: submap_def map_simps)

lemma worldSatisfies_mono:
  "submap w w' \<Longrightarrow> worldSatisfiesInRoot w d da pa r \<Longrightarrow> worldSatisfiesInRoot w' d da pa r"
  unfolding worldSatisfiesInRoot_iff submap_def by blast

lemma held_up_mono: "submap w w' \<Longrightarrow> held_up w ref pa p \<Longrightarrow> held_up w' ref pa p"
  unfolding held_up_def using worldSatisfies_mono by blast

lemma brokenDependency_None:
  "brokenDependency w ref pa p = None \<longleftrightarrow> held_up w ref pa p"
  unfolding brokenDependency_def held_up_def find_None_iff by (auto split: option.splits)

lemma firstBroken_None:
  assumes "firstBroken w ref pa = (k, d)" and "k = []" and "map_get w [] = None"
    and "map_get w k' = Some p"
  shows "held_up w ref pa p"
proof -
  have "brokenDependency w ref pa p = None" if "(k', p) \<in> set es" and "[] \<notin> fst ` set es"
    and "fst (firstBrokenIn w ref pa es) = []" for es
    using that
    by (induction w ref pa es rule: firstBrokenIn.induct) (auto split: option.splits)
  moreover have "(k', p) \<in> set (map_entries w)" using assms(4) by (simp add: map_entries_mem)
  moreover have "[] \<notin> fst ` set (map_entries w)"
    using assms(3) by (auto simp: map_entries_mem)
  ultimately show ?thesis
    using assms(1,2) by (simp add: firstBroken_def brokenDependency_None)
qed

lemma cascade_sub: "cascade ref opts w = Inr w' \<Longrightarrow> submap w' w"
proof (induction ref opts w rule: cascade.induct)
  case (1 ref opts w)
  show ?case
    using "1.prems" "1.IH" submap_trans [OF _ submap_del]
    by (auto simp: cascade.simps [of ref opts w] reject_def split: prod.splits if_splits)
qed

lemma cascade_whole:
  "cascade ref opts w = Inr w' \<Longrightarrow> map_get w [] = None \<Longrightarrow> map_get w' k = Some p \<Longrightarrow>
     held_up w' ref (o_PrimaryArch opts) p"
proof (induction ref opts w rule: cascade.induct)
  case (1 ref opts w)
  obtain b d where b: "firstBroken w ref (o_PrimaryArch opts) = (b, d)" by fastforce
  show ?case
  proof (cases "b = []")
    case True
    with "1.prems"(1) b have "w' = w" by (simp add: cascade.simps [of ref opts w])
    with firstBroken_None [OF b True] "1.prems"(2,3) show ?thesis by simp
  next
    case False
    with "1.prems"(1) b have "o_CascadeRemovals opts" and "cascade ref opts (map_del w b) = Inr w'"
      by (auto simp: cascade.simps [of ref opts w] reject_def split: if_splits)
    with False b "1.IH" [OF b [symmetric]] "1.prems"(2,3) show ?thesis by (simp add: map_simps)
  qed
qed

text \<open>
  A set of packages that holds itself up survives: nothing is removed that did not lose a
  dependency for good.
\<close>

lemma cascade_keeps:
  "cascade ref opts w = Inr w' \<Longrightarrow> submap u w \<Longrightarrow>
     (\<And>k p. map_get u k = Some p \<Longrightarrow> held_up u ref (o_PrimaryArch opts) p) \<Longrightarrow> submap u w'"
proof (induction ref opts w rule: cascade.induct)
  case (1 ref opts w)
  obtain b d where b: "firstBroken w ref (o_PrimaryArch opts) = (b, d)" by fastforce
  show ?case
  proof (cases "b = []")
    case True
    with "1.prems"(1,2) b show ?thesis by (simp add: cascade.simps [of ref opts w])
  next
    case False
    obtain p e where p: "map_get w b = Some p" "brokenDependency w ref (o_PrimaryArch opts) p = Some e"
      by (rule firstBroken_key [OF b False])
    have "map_get u b = None"
    proof (rule ccontr)
      assume "map_get u b \<noteq> None"
      with "1.prems"(2) p(1) have "map_get u b = Some p" by (auto simp: submap_def)
      then have "held_up w ref (o_PrimaryArch opts) p"
        using "1.prems"(2,3) held_up_mono by blast
      with p(2) show False by (simp add: brokenDependency_None [symmetric])
    qed
    with "1.prems"(2) have "submap u (map_del w b)" by (auto simp: submap_def map_simps)
    moreover from "1.prems"(1) b False
    have "o_CascadeRemovals opts" and "cascade ref opts (map_del w b) = Inr w'"
      by (auto simp: cascade.simps [of ref opts w] reject_def split: if_splits)
    ultimately show ?thesis using False b "1.IH" [OF b [symmetric]] "1.prems"(3) by simp
  qed
qed

lemma cascade_off:
  "\<not> o_CascadeRemovals opts \<Longrightarrow> cascade ref opts w = Inr w' \<Longrightarrow> w' = w"
  by (auto simp: cascade.simps [of ref opts w] reject_def split: prod.splits if_splits)

lemma removeTargets_get:
  "fold_res removeTarget ts w = Inr w' \<Longrightarrow>
     map_get w' = (map_get w) |` (- set ts) \<and> (\<forall>t\<in>set ts. map_get w t \<noteq> None)"
proof (induction ts arbitrary: w)
  case (Cons t ts)
  obtain p where p: "map_get w t = Some p"
    using Cons.prems by (cases "map_get w t") (auto simp: removeTarget_def reject_def)
  then have "removeTarget t w = Inr (map_del w t)" by (simp add: removeTarget_def)
  with Cons.prems have "fold_res removeTarget ts (map_del w t) = Inr w'" by simp
  with p Cons.IH [of "map_del w t"] show ?case
    by (auto simp: map_simps restrict_map_def fun_eq_iff split: if_splits)
qed (auto simp: restrict_map_def)

lemma applyRemovals_sub: "applyRemovals w ts ref opts = Inr w' \<Longrightarrow> submap w' w"
proof -
  assume a: "applyRemovals w ts ref opts = Inr w'"
  show ?thesis
  proof (cases "ts = []")
    case False
    with a obtain u where u: "fold_res removeTarget ts w = Inr u" "cascade ref opts u = Inr w'"
      by (auto simp: applyRemovals_def result_simps)
    have "submap u w" using removeTargets_get [OF u(1)] by (auto simp: submap_def restrict_map_def)
    then show ?thesis using cascade_sub [OF u(2)] submap_trans by blast
  qed (use a in \<open>simp add: applyRemovals_def\<close>)
qed

text \<open>
  The specification of a removal: the largest part of the world without the targets in which
  every package is held up.
\<close>

lemma applyRemovals_spec:
  assumes "applyRemovals w ts ref opts = Inr w'" and "ts \<noteq> []" and "map_get w [] = None"
  shows "\<And>t. t \<in> set ts \<Longrightarrow> map_get w t \<noteq> None \<and> map_get w' t = None"
    and "\<And>k p. map_get w' k = Some p \<Longrightarrow> held_up w' ref (o_PrimaryArch opts) p"
    and "\<And>u. submap u w \<Longrightarrow> (\<And>t. t \<in> set ts \<Longrightarrow> map_get u t = None) \<Longrightarrow>
      (\<And>k p. map_get u k = Some p \<Longrightarrow> held_up u ref (o_PrimaryArch opts) p) \<Longrightarrow> submap u w'"
proof -
  from assms(1,2) obtain v where v: "fold_res removeTarget ts w = Inr v" "cascade ref opts v = Inr w'"
    by (auto simp: applyRemovals_def result_simps)
  note get = removeTargets_get [OF v(1)]
  have empty: "map_get v [] = None" using get assms(3) by (simp add: restrict_map_def)
  show "map_get w t \<noteq> None \<and> map_get w' t = None" if "t \<in> set ts" for t
  proof -
    have "map_get v t = None" using get that by (simp add: restrict_map_def)
    then show ?thesis
      using cascade_sub [OF v(2)] get that unfolding submap_def by (metis not_Some_eq)
  qed
  show "held_up w' ref (o_PrimaryArch opts) p" if "map_get w' k = Some p" for k p
    by (rule cascade_whole [OF v(2) empty that])
  show "submap u w'" if "submap u w" and "\<And>t. t \<in> set ts \<Longrightarrow> map_get u t = None"
    and "\<And>k p. map_get u k = Some p \<Longrightarrow> held_up u ref (o_PrimaryArch opts) p" for u
  proof (rule cascade_keeps [OF v(2)])
    show "submap u v"
      using that(1,2) get by (auto simp: submap_def restrict_map_def)
  qed (rule that(3))
qed

end
