(* ===== verification/Forward.thy ===== *)
theory Forward
  imports Removal
begin

section \<open>Goals, forward resolution and succession\<close>

text \<open>
  \<open>applyGoal\<close>, \<open>placeCandidate\<close>, \<open>resolveForward\<close>,
  \<open>lowTrustProvidesAuthorization\<close>, \<open>dedupeAuthorizations\<close> and
  \<open>applyReplaces\<close> of \<open>internal/resolver/resolve.go\<close>. The world a Go function
  updates in place is passed in and returned.
\<close>

definition maxResolveSteps :: nat where
  "maxResolveSteps = 100000"

definition placeCandidate :: "world \<Rightarrow> Candidate \<Rightarrow> string \<Rightarrow> world" where
  "placeCandidate w cand root =
     (let key = worldKey root (c_Name cand);
          wp = \<lparr>pk_root = root, pk_name = c_Name cand, pk_version = c_Version cand,
                pk_architecture = c_Architecture cand, pk_dependencies = c_Dependencies cand,
                pk_conflicts = c_Conflicts cand, pk_provides = c_Provides cand,
                pk_installedVersion = None, pk_installedRepo = [],
                pk_installedRepoPriority = 0, pk_installedOrphaned = False,
                pk_candidate = Some cand\<rparr>
      in map_put w key
           (case map_get w key of
              None \<Rightarrow> wp
            | Some existing \<Rightarrow>
                wp\<lparr>pk_installedVersion := pk_installedVersion existing,
                   pk_installedRepo := pk_installedRepo existing,
                   pk_installedRepoPriority := pk_installedRepoPriority existing,
                   pk_installedOrphaned := pk_installedOrphaned existing\<rparr>))"

subsection \<open>Goals\<close>

definition upgradeTarget ::
    "candidateIndex \<Rightarrow> Options \<Rightarrow> string \<Rightarrow> string \<Rightarrow> world \<times> string list \<Rightarrow>
       resolveError + (world \<times> string list)" where
  "upgradeTarget idx opts name key st =
     (case map_get (fst st) key of
        None \<Rightarrow>
          if name \<noteq> [] then reject ReasonUnsatisfiable [''upgrade'', name] else Inr st
      | Some cur \<Rightarrow>
          (case bestNamed (index_get (byName idx) (pk_name cur)) noConstraint (o_PrimaryArch opts) of
             None \<Rightarrow> Inr (fst st, snd st @ [key])
           | Some cand \<Rightarrow>
               if \<not> Less (c_Version cand) (pk_version cur)
                  \<and> \<not> Equal (c_Version cand) (pk_version cur)
               then Inr (placeCandidate (fst st) cand (pk_root cur), snd st @ [key])
               else Inr (fst st, snd st @ [key])))"

definition applyGoal ::
    "Request \<Rightarrow> world \<Rightarrow> candidateIndex \<Rightarrow> Options \<Rightarrow>
       resolveError + (world \<times> string list \<times> Notice list)" where
  "applyGoal req w idx opts =
     (case rq_Kind req of
        Install \<Rightarrow>
          (let key = worldKey (rq_Root req) (rq_Name req) in
           case map_get w key of
             Some _ \<Rightarrow> Inr (w, [key], [])
           | None \<Rightarrow>
               (case bestForGoal idx (rq_Name req) noConstraint (o_PrimaryArch opts) of
                  None \<Rightarrow> reject ReasonUnsatisfiable [''install'', rq_Name req]
                | Some cand \<Rightarrow>
                    Inr (placeCandidate w cand (rq_Root req),
                         [worldKey (rq_Root req) (c_Name cand)],
                         if c_Name cand \<noteq> rq_Name req
                         then [\<lparr>n_Kind = NoticeGoalViaProvides,
                                n_Detail = [rq_Name req, c_Name cand, v_raw (c_Version cand)]\<rparr>]
                         else [])))
      | Upgrade \<Rightarrow>
          (case fold_res (upgradeTarget idx opts (rq_Name req))
                  (if rq_Name req \<noteq> [] then [worldKey (rq_Root req) (rq_Name req)] else map_keys w)
                  (w, []) of
             Inl e \<Rightarrow> Inl e
           | Inr (w', resolved) \<Rightarrow> Inr (w', resolved, []))
      | Downgrade \<Rightarrow>
          (case ParseConstraint (''= '' @ v_raw (rq_Version req)) of
             Inl e \<Rightarrow> Inl (BadConstraint e)
           | Inr exact \<Rightarrow>
               (case bestNamed (index_get (byName idx) (rq_Name req)) exact (o_PrimaryArch opts) of
                  None \<Rightarrow> reject ReasonUnsatisfiable [''downgrade'', rq_Name req, v_raw (rq_Version req)]
                | Some cand \<Rightarrow>
                    Inr (placeCandidate w cand (rq_Root req),
                         [worldKey (rq_Root req) (c_Name cand)], [])))
      | Remove \<Rightarrow> Inr (w, [], []))"

subsection \<open>Forward resolution\<close>

definition lowTrustProvidesAuthorization ::
    "candidateIndex \<Rightarrow> Dependency \<Rightarrow> Candidate \<Rightarrow> Authorization option" where
  "lowTrustProvidesAuthorization idx dep cand =
     (if c_Name cand = d_Name dep \<and> Matches (d_Constraint dep) (c_Version cand) then None
      else (case find (\<lambda>c. c_RepoPriority c < c_RepoPriority cand \<and>
                           \<not> Matches (d_Constraint dep) (c_Version c))
                   (index_get (byName idx) (d_Name dep)) of
              None \<Rightarrow> None
            | Some c \<Rightarrow>
                Some \<lparr>au_Kind = AuthLowTrustProvides, au_Package = c_Name cand,
                      au_Detail = LowTrustDetail (d_Name dep) (c_Name cand)
                        (v_raw (c_Version cand)) (c_Repo cand) (c_Name c)
                        (v_raw (c_Version c)) (c_Repo c)\<rparr>))"

text \<open>
  Dependencies that name an available package come first, then by name. The Go sort is not
  stable, and this one is; a package has one dependency entry per name.
\<close>

definition forwardOrder :: "candidateIndex \<Rightarrow> Dependency list \<Rightarrow> Dependency list" where
  "forwardOrder idx deps =
     (let named = (\<lambda>d. index_get (byName idx) (d_Name d) \<noteq> []);
          sorted = sort_key d_Name deps
      in filter named sorted @ filter (Not \<circ> named) sorted)"

type_synonym forwardState = "world \<times> string list \<times> Authorization list"

definition resolveDependency ::
    "candidateIndex \<Rightarrow> string gomap option \<Rightarrow> Options \<Rightarrow> worldPkg \<Rightarrow> Dependency \<Rightarrow>
       forwardState \<Rightarrow> resolveError + forwardState" where
  "resolveDependency idx refToPath opts pkg dep st =
     (case st of (w, worklist, auths) \<Rightarrow>
        (case routeRoot dep (pk_root pkg) refToPath of
           None \<Rightarrow> reject ReasonUnsatisfiable [''root'', pk_name pkg, d_Name dep, d_Root dep]
         | Some targetRoot \<Rightarrow>
             if worldSatisfiesInRoot w dep (pk_architecture pkg) (o_PrimaryArch opts) targetRoot
             then Inr st
             else
               (case bestForDependency idx dep (pk_architecture pkg) (o_PrimaryArch opts)
                       (fst (originRepo pkg)) (snd (originRepo pkg)) of
                  None \<Rightarrow> reject ReasonUnsatisfiable [''depends'', pk_name pkg, d_Name dep]
                | Some cand \<Rightarrow>
                    Inr (placeCandidate w cand targetRoot,
                         worklist @ [worldKey targetRoot (c_Name cand)],
                         auths @ (case lowTrustProvidesAuthorization idx dep cand of
                                    None \<Rightarrow> [] | Some a \<Rightarrow> [a])))))"

text \<open>
  The work list. The step counter is compared with the limit before a key is taken, so the
  loop ends after at most \<^const>\<open>maxResolveSteps\<close> keys.
\<close>

function forwardLoop ::
    "candidateIndex \<Rightarrow> string gomap option \<Rightarrow> Options \<Rightarrow> nat \<Rightarrow> world \<Rightarrow> string list \<Rightarrow>
       Authorization list \<Rightarrow> resolveError + (world \<times> Authorization list)" where
  "forwardLoop idx refToPath opts steps w [] auths = Inr (w, auths)"
| "forwardLoop idx refToPath opts steps w (key # worklist) auths =
     (if maxResolveSteps < Suc steps then reject ReasonTooComplex []
      else (case map_get w key of
              None \<Rightarrow> forwardLoop idx refToPath opts (Suc steps) w worklist auths
            | Some pkg \<Rightarrow>
                (case fold_res (resolveDependency idx refToPath opts pkg)
                        (forwardOrder idx (pk_dependencies pkg)) (w, worklist, auths) of
                   Inl e \<Rightarrow> Inl e
                 | Inr st \<Rightarrow>
                     forwardLoop idx refToPath opts (Suc steps) (fst st) (fst (snd st))
                       (snd (snd st)))))"
  by pat_completeness auto

termination
  by (relation "measure (\<lambda>(_, _, _, steps, _, _, _). maxResolveSteps - steps)") auto

definition resolveForward ::
    "world \<Rightarrow> candidateIndex \<Rightarrow> string list \<Rightarrow> string gomap option \<Rightarrow> Options \<Rightarrow>
       Authorization list \<Rightarrow> resolveError + (world \<times> Authorization list)" where
  "resolveForward w idx goals refToPath opts auths =
     forwardLoop idx refToPath opts 0 w goals auths"

fun dedupeFrom :: "AuthDetail list \<Rightarrow> Authorization list \<Rightarrow> Authorization list" where
  "dedupeFrom seen [] = []"
| "dedupeFrom seen (a # as) =
     (if au_Detail a \<in> set seen then dedupeFrom seen as
      else a # dedupeFrom (au_Detail a # seen) as)"

definition dedupeAuthorizations :: "Authorization list \<Rightarrow> Authorization list" where
  "dedupeAuthorizations auths = dedupeFrom [] auths"

subsection \<open>Succession\<close>

definition replacedBy :: "world \<Rightarrow> worldPkg \<Rightarrow> Candidate \<Rightarrow> Replaces \<Rightarrow> (string \<times> Authorization list) option" where
  "replacedBy w p c r =
     (let victimKey = worldKey (pk_root p) (r_Name r) in
      case map_get w victimKey of
        None \<Rightarrow> None
      | Some victim \<Rightarrow>
          (case pk_installedVersion victim of
             None \<Rightarrow> None
           | Some v \<Rightarrow>
               if \<not> Matches (r_Constraint r) v then None
               else Some (victimKey,
                 if pk_installedRepo victim \<noteq> [] \<and>
                    pk_installedRepoPriority victim < c_RepoPriority c
                 then [\<lparr>au_Kind = AuthForeignReplaces, au_Package = pk_name p,
                        au_Detail =
                          (if pk_installedOrphaned victim
                           then OrphanDetail (pk_name p) (c_Repo c) (c_RepoPriority c)
                                  (r_Name r) (pk_installedRepo victim)
                           else ForeignDetail (pk_name p) (c_Repo c) (c_RepoPriority c)
                                  (r_Name r) (pk_installedRepo victim)
                                  (pk_installedRepoPriority victim))\<rparr>]
                 else [])))"

definition supersededBy :: "world \<Rightarrow> worldPkg \<Rightarrow> (string \<times> Authorization list) list" where
  "supersededBy w p =
     (case pk_candidate p of
        None \<Rightarrow> []
      | Some c \<Rightarrow> List.map_filter (replacedBy w p c) (c_Replaces c))"

definition applyReplaces :: "world \<Rightarrow> Authorization list \<Rightarrow> world \<times> Authorization list" where
  "applyReplaces w auths =
     (let superseded = concat (map (supersededBy w \<circ> snd) (map_entries w))
      in (foldl map_del w (map fst superseded), auths @ concat (map snd superseded)))"

subsection \<open>What the passes keep\<close>

text \<open>
  A world over an installed set: every key is the key of its package, a package with a
  candidate is that candidate (available and installable here), one without is the installed
  package unchanged, and what it says about the installed version and its repository is true of
  \<open>inst\<close>, the lookup of the installed package at a key.
\<close>

definition from_installed :: "worldPkg \<Rightarrow> Installed \<Rightarrow> bool" where
  "from_installed p i \<longleftrightarrow>
     pk_name p = i_Name i \<and> pk_version p = i_Version i \<and> pk_architecture p = i_Architecture i \<and>
     pk_dependencies p = i_Dependencies i \<and> pk_conflicts p = i_Conflicts i \<and>
     pk_provides p = i_Provides i"

definition from_candidate :: "worldPkg \<Rightarrow> Candidate \<Rightarrow> bool" where
  "from_candidate p c \<longleftrightarrow>
     pk_name p = c_Name c \<and> pk_version p = c_Version c \<and> pk_architecture p = c_Architecture c \<and>
     pk_dependencies p = c_Dependencies c \<and> pk_conflicts p = c_Conflicts c \<and>
     pk_provides p = c_Provides c"

definition pkg_ok ::
    "Candidate set \<Rightarrow> string \<Rightarrow> (string \<Rightarrow> Installed option) \<Rightarrow> string \<Rightarrow> worldPkg \<Rightarrow> bool" where
  "pkg_ok av primaryArch inst k p \<longleftrightarrow>
     k = worldKey (pk_root p) (pk_name p) \<and>
     (case pk_candidate p of
        None \<Rightarrow> pk_installedVersion p = Some (pk_version p) \<and>
          (\<exists>i. inst k = Some i \<and> from_installed p i)
      | Some c \<Rightarrow> c \<in> av \<and> installableArch (c_Architecture c) primaryArch \<and> from_candidate p c) \<and>
     (\<forall>v. pk_installedVersion p = Some v \<longrightarrow>
        (\<exists>i. inst k = Some i \<and> i_Version i = v \<and> pk_installedRepo p = i_Repo i \<and>
           pk_installedRepoPriority p = i_RepoPriority i \<and> pk_installedOrphaned p = i_Orphaned i))"

definition world_ok ::
    "Candidate set \<Rightarrow> string \<Rightarrow> (string \<Rightarrow> Installed option) \<Rightarrow> world \<Rightarrow> bool" where
  "world_ok av primaryArch inst w \<longleftrightarrow>
     (\<forall>k p. map_get w k = Some p \<longrightarrow> pkg_ok av primaryArch inst k p)"

lemma world_ok_submap: "world_ok av pa inst w' \<Longrightarrow> submap w w' \<Longrightarrow> world_ok av pa inst w"
  by (auto simp: world_ok_def submap_def)

lemma world_ok_no_empty_key: "world_ok av pa inst w \<Longrightarrow> map_get w [] = None"
  by (rule ccontr) (auto simp: world_ok_def pkg_ok_def worldKey_def rootSep_def)

lemma world_ok_place:
  assumes "world_ok av pa inst w" and "c \<in> av" and "installableArch (c_Architecture c) pa"
  shows "world_ok av pa inst (placeCandidate w c root)"
  using assms
  by (auto simp: world_ok_def pkg_ok_def from_candidate_def placeCandidate_def Let_def map_simps
      split: option.splits if_splits)

lemma place_dom:
  "dom (map_get (placeCandidate w c root)) = insert (worldKey root (c_Name c)) (dom (map_get w))"
  by (auto simp: placeCandidate_def Let_def map_simps)

lemma world_ok_replaces:
  "world_ok av pa inst w \<Longrightarrow> world_ok av pa inst (fst (applyReplaces w auths))"
  by (rule world_ok_submap)
     (auto simp: applyReplaces_def Let_def submap_def gomap.get_del_all restrict_map_def)

lemma world_ok_upgrade:
  assumes "upgradeTarget (buildIndex av) opts name key st = Inr st'"
    and "world_ok (set av) (o_PrimaryArch opts) inst (fst st)"
  shows "world_ok (set av) (o_PrimaryArch opts) inst (fst st')"
proof -
  have "world_ok (set av) (o_PrimaryArch opts) inst (placeCandidate (fst st) c r)"
    if "bestNamed (index_get (byName (buildIndex av)) n) noConstraint (o_PrimaryArch opts) = Some c"
    for n c r
    using bestNamed_sound [OF that] assms(2) by (intro world_ok_place) (auto simp: byName_buildIndex)
  with assms show ?thesis
    by (auto simp: upgradeTarget_def reject_def split: option.splits if_splits)
qed

lemma applyGoal_ok:
  assumes "applyGoal req w (buildIndex av) opts = Inr (w', keys, notices)"
    and "world_ok (set av) (o_PrimaryArch opts) inst w"
  shows "world_ok (set av) (o_PrimaryArch opts) inst w'"
proof (cases "rq_Kind req")
  case Install
  with assms show ?thesis
    by (auto simp: applyGoal_def Let_def reject_def split: option.splits
        intro!: world_ok_place dest: bestForGoal_sound)
next
  case Upgrade
  with assms(1) obtain ks where
    loop: "fold_res (upgradeTarget (buildIndex av) opts (rq_Name req)) ks (w, []) = Inr (w', keys)"
    by (auto simp: applyGoal_def split: sum.splits)
  have "world_ok (set av) (o_PrimaryArch opts) inst (fst (w', keys))"
    using loop by (rule fold_res_inv) (use assms(2) in \<open>auto dest: world_ok_upgrade\<close>)
  then show ?thesis by simp
next
  case Downgrade
  with assms show ?thesis
    by (auto simp: applyGoal_def reject_def byName_buildIndex split: option.splits sum.splits
        intro!: world_ok_place dest: bestNamed_sound)
next
  case Remove
  with assms show ?thesis by (simp add: applyGoal_def)
qed

lemma resolveDependency_ok:
  assumes "resolveDependency (buildIndex av) ref opts pkg dep st = Inr st'"
    and "world_ok (set av) (o_PrimaryArch opts) inst (fst st)"
  shows "world_ok (set av) (o_PrimaryArch opts) inst (fst st')"
  using assms
  by (auto simp: resolveDependency_def reject_def split: prod.splits option.splits if_splits
      intro!: world_ok_place dest: bestForDependency_sound)

lemma forwardLoop_ok:
  "forwardLoop (buildIndex av) ref opts steps w wl auths = Inr (w', auths') \<Longrightarrow>
     world_ok (set av) (o_PrimaryArch opts) inst w \<Longrightarrow>
     world_ok (set av) (o_PrimaryArch opts) inst w'"
proof (induction "buildIndex av" ref opts steps w wl auths rule: forwardLoop.induct)
  case (2 ref opts steps w key wl auths)
  show ?case
  proof (cases "map_get w key")
    case None
    with 2 show ?thesis by (auto simp: reject_def split: if_splits)
  next
    case (Some pkg)
    with "2.prems"(1) obtain st where st: "\<not> maxResolveSteps < Suc steps"
      "fold_res (resolveDependency (buildIndex av) ref opts pkg)
         (forwardOrder (buildIndex av) (pk_dependencies pkg)) (w, wl, auths) = Inr st"
      "forwardLoop (buildIndex av) ref opts (Suc steps) (fst st) (fst (snd st)) (snd (snd st))
         = Inr (w', auths')"
      by (auto simp: reject_def split: if_splits sum.splits)
    have "world_ok (set av) (o_PrimaryArch opts) inst (fst st)"
      using st(2)
      by (rule fold_res_inv) (use "2.prems"(2) in \<open>auto dest: resolveDependency_ok\<close>)
    with "2.hyps"(2) [OF st(1) Some st(2,3)] show ?thesis .
  qed
qed simp

end
