(* ===== verification/Consistency.thy ===== *)
theory Consistency
  imports Forward
begin

section \<open>The consistency check\<close>

text \<open>
  \<open>checkConsistency\<close> of \<open>internal/resolver/check.go\<close>, one definition per pass, and
  the specification it decides, \<open>consistent\<close>.
\<close>

definition checkArchitectures :: "world \<Rightarrow> Options \<Rightarrow> resolveError + unit" where
  "checkArchitectures w opts =
     each_res (\<lambda>(key, p).
         if \<not> installableArch (pk_architecture p) (o_PrimaryArch opts)
         then reject ReasonArchMismatch [pk_name p, pk_architecture p]
         else Inr ())
       (map_entries w)"

definition checkConflict ::
    "Options \<Rightarrow> string \<Rightarrow> worldPkg \<Rightarrow> Dependency \<Rightarrow> string \<times> worldPkg \<Rightarrow> resolveError + unit" where
  "checkConflict opts ak a conflict bp =
     (case bp of (bk, b) \<Rightarrow>
        if ak = bk then Inr ()
        else if pk_root a \<noteq> pk_root b then Inr ()
        else if pkgSatisfies b conflict (pk_architecture a) (o_PrimaryArch opts)
        then reject ReasonConflict [pk_name a, pk_name b]
        else Inr ())"

definition checkConflicts :: "world \<Rightarrow> Options \<Rightarrow> resolveError + unit" where
  "checkConflicts w opts =
     each_res (\<lambda>(ak, a).
         each_res (\<lambda>conflict. each_res (checkConflict opts ak a conflict) (map_entries w))
           (pk_conflicts a))
       (map_entries w)"

definition checkDependency ::
    "world \<Rightarrow> string gomap option \<Rightarrow> Options \<Rightarrow> worldPkg \<Rightarrow> Dependency \<Rightarrow> resolveError + unit" where
  "checkDependency w refToPath opts p dep =
     (case routeRoot dep (pk_root p) refToPath of
        None \<Rightarrow> reject ReasonUnsatisfiable [pk_name p, d_Name dep]
      | Some targetRoot \<Rightarrow>
          if \<not> worldSatisfiesInRoot w dep (pk_architecture p) (o_PrimaryArch opts) targetRoot
          then reject ReasonUnsatisfiable [pk_name p, d_Name dep]
          else Inr ())"

definition checkDependencies :: "world \<Rightarrow> string gomap option \<Rightarrow> Options \<Rightarrow> resolveError + unit" where
  "checkDependencies w refToPath opts =
     each_res (\<lambda>(key, p). each_res (checkDependency w refToPath opts p) (pk_dependencies p))
       (map_entries w)"

definition checkRegression ::
    "string list \<Rightarrow> string \<times> worldPkg \<Rightarrow> resolveError + unit" where
  "checkRegression downgradeAllowed kp =
     (case kp of (key, p) \<Rightarrow>
        (case (pk_candidate p, pk_installedVersion p) of
           (Some c, Some v) \<Rightarrow>
             if key \<in> set downgradeAllowed then Inr ()
             else if Compare (c_Version c) v < 0
             then reject ReasonVersionRegression [pk_name p, v_raw v, v_raw (c_Version c)]
             else Inr ()
         | _ \<Rightarrow> Inr ()))"

definition checkRegressions :: "world \<Rightarrow> Options \<Rightarrow> string list \<Rightarrow> resolveError + unit" where
  "checkRegressions w opts downgradeAllowed =
     (if o_AllowDowngrade opts then Inr ()
      else each_res (checkRegression downgradeAllowed) (map_entries w))"

definition checkConsistency ::
    "world \<Rightarrow> string gomap option \<Rightarrow> Options \<Rightarrow> string list \<Rightarrow> resolveError + unit" where
  "checkConsistency w refToPath opts downgradeAllowed =
     rbind (checkArchitectures w opts) (\<lambda>_.
     rbind (checkConflicts w opts) (\<lambda>_.
     rbind (checkDependencies w refToPath opts) (\<lambda>_.
     checkRegressions w opts downgradeAllowed)))"

subsection \<open>Specification\<close>

definition consistent :: "world \<Rightarrow> string gomap option \<Rightarrow> string \<Rightarrow> bool" where
  "consistent w refToPath primaryArch \<longleftrightarrow>
     (\<forall>k p. map_get w k = Some p \<longrightarrow>
        installableArch (pk_architecture p) primaryArch \<and>
        (\<forall>dep\<in>set (pk_dependencies p). \<exists>r. routeRoot dep (pk_root p) refToPath = Some r \<and>
           worldSatisfiesInRoot w dep (pk_architecture p) primaryArch r) \<and>
        (\<forall>con\<in>set (pk_conflicts p). \<forall>k' q. map_get w k' = Some q \<and> k' \<noteq> k \<and> pk_root q = pk_root p
           \<longrightarrow> \<not> pkgSatisfies q con (pk_architecture p) primaryArch))"

definition no_regression :: "world \<Rightarrow> Options \<Rightarrow> string list \<Rightarrow> bool" where
  "no_regression w opts downgradeAllowed \<longleftrightarrow>
     o_AllowDowngrade opts \<or>
     (\<forall>k p c v. map_get w k = Some p \<and> pk_candidate p = Some c \<and> pk_installedVersion p = Some v
        \<and> k \<notin> set downgradeAllowed \<longrightarrow> 0 \<le> Compare (c_Version c) v)"

lemma ball_entries: "(\<forall>kp\<in>set (map_entries w). P kp) \<longleftrightarrow> (\<forall>k p. map_get w k = Some p \<longrightarrow> P (k, p))"
  using map_entries_mem [of _ _ w] by (metis surj_pair)

lemma reject_not_ok [simp]: "reject r d = Inr x \<longleftrightarrow> False"
  by (simp add: reject_def)

lemma checkArchitectures_ok:
  "checkArchitectures w opts = Inr () \<longleftrightarrow>
     (\<forall>k p. map_get w k = Some p \<longrightarrow> installableArch (pk_architecture p) (o_PrimaryArch opts))"
  by (auto simp: checkArchitectures_def each_res_ok ball_entries)

lemma checkConflicts_ok:
  "checkConflicts w opts = Inr () \<longleftrightarrow>
     (\<forall>k p. map_get w k = Some p \<longrightarrow> (\<forall>con\<in>set (pk_conflicts p). \<forall>k' q. map_get w k' = Some q \<longrightarrow>
        k' \<noteq> k \<and> pk_root q = pk_root p \<longrightarrow> \<not> pkgSatisfies q con (pk_architecture p) (o_PrimaryArch opts)))"
  by (auto simp: checkConflicts_def checkConflict_def each_res_ok ball_entries)

lemma checkDependency_ok:
  "checkDependency w ref opts p dep = Inr () \<longleftrightarrow>
     (\<exists>r. routeRoot dep (pk_root p) ref = Some r \<and>
        worldSatisfiesInRoot w dep (pk_architecture p) (o_PrimaryArch opts) r)"
  by (cases "routeRoot dep (pk_root p) ref") (simp_all add: checkDependency_def)

lemma checkRegression_ok:
  "checkRegression da (k, p) = Inr () \<longleftrightarrow>
     (\<forall>c v. pk_candidate p = Some c \<and> pk_installedVersion p = Some v \<and> k \<notin> set da \<longrightarrow>
        0 \<le> Compare (c_Version c) v)"
  by (cases "pk_candidate p"; cases "pk_installedVersion p") (auto simp: checkRegression_def not_less)

lemma checkDependencies_ok:
  "checkDependencies w ref opts = Inr () \<longleftrightarrow>
     (\<forall>k p. map_get w k = Some p \<longrightarrow> (\<forall>dep\<in>set (pk_dependencies p).
        \<exists>r. routeRoot dep (pk_root p) ref = Some r \<and>
          worldSatisfiesInRoot w dep (pk_architecture p) (o_PrimaryArch opts) r))"
  by (simp add: checkDependencies_def checkDependency_ok each_res_ok ball_entries)

lemma checkRegressions_ok:
  "checkRegressions w opts da = Inr () \<longleftrightarrow> no_regression w opts da"
  by (simp add: checkRegressions_def checkRegression_ok no_regression_def each_res_ok ball_entries)
     blast

theorem checkConsistency_ok:
  "checkConsistency w ref opts da = Inr () \<longleftrightarrow>
     consistent w ref (o_PrimaryArch opts) \<and> no_regression w opts da"
proof -
  have bind: "rbind m (\<lambda>_. n) = Inr () \<longleftrightarrow> m = Inr () \<and> n = Inr ()" for m n :: "resolveError + unit"
    by (cases m) auto
  show ?thesis
    unfolding checkConsistency_def bind checkArchitectures_ok checkConflicts_ok checkDependencies_ok
      checkRegressions_ok consistent_def by blast
qed

end
