(* ===== verification/Topo.thy ===== *)
theory Topo
  imports ResolverModel
begin

section \<open>The topological sort\<close>

text \<open>
  \<open>topoSort\<close> of \<open>internal/resolver/plan.go\<close>: a depth-first walk with three marks.
  An unvisited name has no mark. The recursion of \<open>visit\<close> is bounded by fuel; the
  names on the call stack are the active ones, no two of them equal, so one more than the
  number of names is enough when \<open>depsOf\<close> stays within the names, which is how
  both callers build it (\<open>topoSort_fuel\<close>).
\<close>

datatype mark = Active | Done

type_synonym visitState = "mark gomap \<times> string list"

primrec visit ::
    "nat \<Rightarrow> (string \<Rightarrow> string list) \<Rightarrow> string \<Rightarrow> visitState \<Rightarrow> resolveError + visitState" where
  "visit 0 depsOf n s = Inl SortFuel"
| "visit (Suc fuel) depsOf n s =
     (case map_get (fst s) n of
        Some Done \<Rightarrow> Inr s
      | Some Active \<Rightarrow> reject ReasonCycle [nameOf n]
      | None \<Rightarrow>
          (case fold_res (visit fuel depsOf) (depsOf n) (map_put (fst s) n Active, snd s) of
             Inl e \<Rightarrow> Inl e
           | Inr (marks, out) \<Rightarrow> Inr (map_put marks n Done, out @ [n])))"

definition topoSort :: "string list \<Rightarrow> (string \<Rightarrow> string list) \<Rightarrow> resolveError + string list" where
  "topoSort names depsOf =
     (case fold_res (visit (Suc (length names)) depsOf) (sort names) ([], []) of
        Inl e \<Rightarrow> Inl e
      | Inr (marks, out) \<Rightarrow> Inr out)"

subsection \<open>The state of the walk\<close>

definition marked :: "mark \<Rightarrow> mark gomap \<Rightarrow> string set" where
  "marked k marks = {n. map_get marks n = Some k}"

abbreviation active :: "visitState \<Rightarrow> string set" where
  "active s \<equiv> marked Active (fst s)"

abbreviation done_set :: "visitState \<Rightarrow> string set" where
  "done_set s \<equiv> marked Done (fst s)"

text \<open>Every element of the list comes after all it depends on.\<close>

fun deps_first :: "(string \<Rightarrow> string list) \<Rightarrow> string set \<Rightarrow> string list \<Rightarrow> bool" where
  "deps_first depsOf before [] \<longleftrightarrow> True"
| "deps_first depsOf before (n # ns) \<longleftrightarrow>
     set (depsOf n) \<subseteq> before \<and> n \<notin> before \<and> deps_first depsOf (insert n before) ns"

lemma deps_first_append:
  "deps_first d b (xs @ ys) \<longleftrightarrow> deps_first d b xs \<and> deps_first d (b \<union> set xs) ys"
  by (induction xs arbitrary: b) auto

lemma deps_first_distinct: "deps_first d b xs \<Longrightarrow> distinct xs \<and> set xs \<inter> b = {}"
  by (induction xs arbitrary: b) auto

lemma deps_first_before:
  assumes "deps_first d {} (xs @ n # ys)"
  shows "set (d n) \<subseteq> set xs"
  using assms by (simp add: deps_first_append)

definition walk_inv :: "(string \<Rightarrow> string list) \<Rightarrow> visitState \<Rightarrow> bool" where
  "walk_inv depsOf s \<longleftrightarrow> done_set s = set (snd s) \<and> deps_first depsOf {} (snd s)"

lemma marked_put: "marked k (map_put m n j) = (if j = k then insert n (marked k m) else marked k m - {n})"
  by (auto simp: marked_def map_simps)

text \<open>The relation \<open>depends on\<close>.\<close>

definition edges :: "(string \<Rightarrow> string list) \<Rightarrow> (string \<times> string) set" where
  "edges depsOf = {(n, d). d \<in> set (depsOf n)}"

subsection \<open>A successful walk\<close>

lemma visit_step:
  assumes "visit fuel depsOf n s = Inr s'" and "walk_inv depsOf s"
  shows "walk_inv depsOf s' \<and> active s' = active s \<and> done_set s \<subseteq> done_set s' \<and> n \<in> done_set s' \<and>
    done_set s' \<subseteq> done_set s \<union> (edges depsOf)\<^sup>* `` {n}"
  using assms
proof (induction fuel arbitrary: n s s')
  case (Suc fuel)
  obtain m out where s: "s = (m, out)" by (cases s)
  show ?case
  proof (cases "map_get m n")
    case None
    let ?s0 = "(map_put m n Active, out)"
    from Suc.prems(1) None s obtain m' out' where
      loop: "fold_res (visit fuel depsOf) (depsOf n) ?s0 = Inr (m', out')"
      and s': "s' = (map_put m' n Done, out' @ [n])"
      by (auto split: sum.splits)
    have n: "n \<notin> active s" "n \<notin> done_set s" using None s by (auto simp: marked_def)
    have inv0: "walk_inv depsOf ?s0"
      using Suc.prems(2) n s by (simp add: walk_inv_def marked_put)
    define P where "P t \<longleftrightarrow> walk_inv depsOf t \<and> active t = insert n (active s) \<and>
        done_set s \<subseteq> done_set t \<and>
        done_set t \<subseteq> done_set s \<union> (edges depsOf)\<^sup>* `` {n}" for t
    have step: "P t' \<and> d \<in> done_set t'"
      if "d \<in> set (depsOf n)" and "P t" and "visit fuel depsOf d t = Inr t'" for d t t'
    proof -
      have "(n, d) \<in> edges depsOf" using that(1) by (simp add: edges_def)
      then have "(edges depsOf)\<^sup>* `` {d} \<subseteq> (edges depsOf)\<^sup>* `` {n}"
        by (auto intro: converse_rtrancl_into_rtrancl)
      moreover have "walk_inv depsOf t" using that(2) by (simp add: P_def)
      note Suc.IH [OF that(3) this]
      ultimately show ?thesis using that(2) unfolding P_def by blast
    qed
    have mono: "d \<in> done_set t'" if "P t" "visit fuel depsOf e t = Inr t'" "d \<in> done_set t" for d e t t'
      using Suc.IH [OF that(2)] that(1,3) by (auto simp: P_def)
    have "P ?s0" using inv0 n s by (auto simp: P_def marked_put)
    with loop have all: "P (m', out') \<and> (\<forall>d\<in>set (depsOf n). d \<in> done_set (m', out'))"
    proof (rule fold_res_all [where Q = "\<lambda>d t. d \<in> done_set t"])
      show "P t' \<and> d \<in> done_set t'"
        if "d \<in> set (depsOf n)" "P t" "visit fuel depsOf d t = Inr t'" for d t t'
        by (rule step [OF that])
      show "d \<in> done_set t'"
        if "P t" "visit fuel depsOf e t = Inr t'" "d \<in> done_set t" for d e t t'
        by (rule mono [OF that])
    qed
    then have "n \<in> active (m', out')" by (simp add: P_def)
    then have nd: "n \<notin> done_set (m', out')" by (simp add: marked_def)
    show ?thesis
      using all nd n s s' by (auto simp: P_def walk_inv_def marked_put deps_first_append)
  next
    case (Some k)
    with Suc.prems s show ?thesis by (cases k) (auto simp: reject_def marked_def)
  qed
qed simp

lemma fold_visit_step:
  assumes "fold_res (visit fuel depsOf) ns s = Inr s'" and "walk_inv depsOf s"
  shows "walk_inv depsOf s' \<and> active s' = active s \<and> set ns \<subseteq> done_set s' \<and>
    done_set s' \<subseteq> done_set s \<union> (edges depsOf)\<^sup>* `` set ns"
proof -
  have "(walk_inv depsOf s' \<and> active s' = active s \<and>
      done_set s' \<subseteq> done_set s \<union> (edges depsOf)\<^sup>* `` set ns) \<and> (\<forall>n\<in>set ns. n \<in> done_set s')"
    using assms(1)
  proof (rule fold_res_all)
    show "(walk_inv depsOf t' \<and> active t' = active s \<and>
        done_set t' \<subseteq> done_set s \<union> (edges depsOf)\<^sup>* `` set ns) \<and> n \<in> done_set t'"
      if "n \<in> set ns" and "walk_inv depsOf t \<and> active t = active s \<and>
        done_set t \<subseteq> done_set s \<union> (edges depsOf)\<^sup>* `` set ns"
        and "visit fuel depsOf n t = Inr t'" for n t t'
      using visit_step [OF that(3)] that(1,2) by blast
    show "x \<in> done_set t'"
      if "n \<in> set ns" and "walk_inv depsOf t \<and> active t = active s \<and>
        done_set t \<subseteq> done_set s \<union> (edges depsOf)\<^sup>* `` set ns"
        and "visit fuel depsOf n t = Inr t'" and "x \<in> done_set t" for n x t t'
      using visit_step [OF that(3)] that(2,4) by blast
  qed (use assms(2) in simp)
  then show ?thesis by auto
qed

lemma topoSort_sound:
  assumes "topoSort names depsOf = Inr out"
  shows "deps_first depsOf {} out \<and> set names \<subseteq> set out \<and> set out \<subseteq> (edges depsOf)\<^sup>* `` set names"
proof -
  from assms obtain m where
    "fold_res (visit (Suc (length names)) depsOf) (sort names) ([], []) = Inr (m, out)"
    by (auto simp: topoSort_def split: sum.splits)
  from fold_visit_step [OF this] show ?thesis
    by (auto simp: walk_inv_def marked_def)
qed

subsection \<open>A walk that fails\<close>

text \<open>
  A walk that starts where every active name reaches \<open>n\<close> fails only on a real cycle,
  and never for lack of fuel when there is more fuel than names left to visit.
\<close>

lemma visit_fails:
  assumes "visit fuel depsOf n s = Inl e" and "walk_inv depsOf s"
    and "\<And>a. a \<in> active s \<Longrightarrow> (a, n) \<in> (edges depsOf)\<^sup>+"
    and "finite U" and "n \<in> U" and "active s \<subseteq> U"
    and "\<And>u. u \<in> U \<Longrightarrow> set (depsOf u) \<subseteq> U" and "card (U - active s) < fuel"
  shows "\<exists>m\<in>U. (m, m) \<in> (edges depsOf)\<^sup>+ \<and>
    e = Rejected \<lparr>rj_Reason = ReasonCycle, rj_Detail = [nameOf m]\<rparr>"
  using assms(1-3,5,6,8)
proof (induction fuel arbitrary: n s)
  case (Suc fuel)
  obtain m out where s: "s = (m, out)" by (cases s)
  show ?case
  proof (cases "map_get m n")
    case None
    let ?s0 = "(map_put m n Active, out)"
    from Suc.prems(1) None s
    have loop: "fold_res (visit fuel depsOf) (depsOf n) ?s0 = Inl e"
      by (auto split: sum.splits)
    have n: "n \<notin> active s" "n \<notin> done_set s" using None s by (auto simp: marked_def)
    define P where "P t \<longleftrightarrow> walk_inv depsOf t \<and> active t = insert n (active s)" for t
    have "P ?s0" using Suc.prems(2) n s by (simp add: P_def walk_inv_def marked_put)
    then obtain d t where d: "d \<in> set (depsOf n)" "P t" "visit fuel depsOf d t = Inl e"
      by (rule fold_res_Inl [OF loop]) (use visit_step in \<open>auto simp: P_def\<close>)
    have nd: "(n, d) \<in> edges depsOf" using d(1) by (simp add: edges_def)
    have "card (U - active t) < card (U - active s)"
      using d(2) n Suc.prems(4) assms(4) by (intro psubset_card_mono) (auto simp: P_def)
    then have card: "card (U - active t) < fuel" using Suc.prems(6) by simp
    show ?thesis
    proof (rule Suc.IH [OF d(3)])
      show "(a, d) \<in> (edges depsOf)\<^sup>+" if "a \<in> active t" for a
        using that d(2) nd Suc.prems(3) [of a] by (auto simp: P_def intro: trancl_into_trancl)
    qed (use d Suc.prems assms(7) card in \<open>auto simp: P_def\<close>)
  next
    case (Some k)
    show ?thesis
    proof (cases k)
      case Active
      with Some s have "n \<in> active s" by (simp add: marked_def)
      with Suc.prems(1,3,4) Some s Active show ?thesis by (auto simp: reject_def)
    next
      case Done
      with Some Suc.prems(1) s show ?thesis by simp
    qed
  qed
qed simp

lemma topoSort_fails:
  assumes "topoSort names depsOf = Inl e"
    and "\<And>n. n \<in> set names \<Longrightarrow> set (depsOf n) \<subseteq> set names"
  shows "\<exists>m\<in>set names. (m, m) \<in> (edges depsOf)\<^sup>+ \<and>
    e = Rejected \<lparr>rj_Reason = ReasonCycle, rj_Detail = [nameOf m]\<rparr>"
proof -
  have loop: "fold_res (visit (Suc (length names)) depsOf) (sort names) ([], []) = Inl e"
    using assms(1) by (auto simp: topoSort_def split: sum.splits)
  have "walk_inv depsOf ([], []) \<and> active ([], []) = {}"
    by (simp add: walk_inv_def marked_def)
  then obtain n t where n: "n \<in> set (sort names)" "walk_inv depsOf t \<and> active t = {}"
    "visit (Suc (length names)) depsOf n t = Inl e"
    by (rule fold_res_Inl [OF loop]) (blast dest: visit_step)+
  have "card (set names - active t) < Suc (length names)"
    by (meson card_length card_mono Diff_subset List.finite_set le_imp_less_Suc le_trans)
  with n show ?thesis
    by (intro visit_fails [OF n(3), where U = "set names"]) (use assms(2) in auto)
qed

text \<open>An order that puts dependencies first leaves no room for a cycle.\<close>

lemma deps_first_acyclic:
  assumes "deps_first depsOf b ns" and "m \<in> set ns" and "(m, x) \<in> (edges depsOf)\<^sup>+" and "b \<inter> set ns = {}"
    and "\<And>n. n \<in> b \<Longrightarrow> set (depsOf n) \<subseteq> b"
  shows "x \<noteq> m"
  using assms
proof (induction ns arbitrary: b)
  case (Cons n ns)
  show ?case
  proof (cases "m = n")
    case True
    have "x \<in> b"
      using Cons.prems(3)
    proof (induction rule: trancl_induct)
      case (base y)
      with True Cons.prems(1) show ?case by (auto simp: edges_def)
    next
      case (step y z)
      with Cons.prems(5) [of y] show ?case by (auto simp: edges_def)
    qed
    with True Cons.prems(4) show ?thesis by auto
  next
    case False
    with Cons.prems show ?thesis
      by (intro Cons.IH [of "insert n b"]) (auto dest: deps_first_distinct)
  qed
qed simp

lemma topoSort_succeeds_iff:
  assumes "\<And>n. n \<in> set names \<Longrightarrow> set (depsOf n) \<subseteq> set names"
  shows "(\<exists>out. topoSort names depsOf = Inr out) \<longleftrightarrow>
    (\<forall>m\<in>set names. (m, m) \<notin> (edges depsOf)\<^sup>+)"
proof
  assume "\<exists>out. topoSort names depsOf = Inr out"
  then obtain out where "topoSort names depsOf = Inr out" ..
  from topoSort_sound [OF this] show "\<forall>m\<in>set names. (m, m) \<notin> (edges depsOf)\<^sup>+"
    using deps_first_acyclic [of depsOf "{}" out] by auto
next
  assume "\<forall>m\<in>set names. (m, m) \<notin> (edges depsOf)\<^sup>+"
  then show "\<exists>out. topoSort names depsOf = Inr out"
    using topoSort_fails [OF _ assms] by (cases "topoSort names depsOf") fastforce+
qed

lemma topoSort_set:
  assumes "topoSort names depsOf = Inr out"
    and "\<And>n. n \<in> set names \<Longrightarrow> set (depsOf n) \<subseteq> set names"
  shows "set out = set names"
proof -
  have "(edges depsOf)\<^sup>* `` set names \<subseteq> set names"
    using assms(2) by (intro Image_closed_trancl [THEN equalityD1]) (auto simp: edges_def)
  with topoSort_sound [OF assms(1)] show ?thesis by blast
qed

lemma topoSort_distinct: "topoSort names depsOf = Inr out \<Longrightarrow> distinct out"
  using topoSort_sound deps_first_distinct by blast

end
