(* ===== verification/Planning.thy ===== *)
theory Planning
  imports Consistency Topo
begin

section \<open>Building and ordering the plan\<close>

text \<open>
  The rest of \<open>internal/resolver/plan.go\<close>: the difference between the resolved
  world and the installed set, ordered.
\<close>

record removedPkg =
  rm_root :: string
  rm_inst :: Installed

definition forwardOperation :: "worldPkg \<Rightarrow> Operation option" where
  "forwardOperation p =
     (case pk_candidate p of
        None \<Rightarrow> None
      | Some c \<Rightarrow>
          (let op = \<lparr>op_Kind = OpInstall, op_Name = pk_name p, op_Root = pk_root p,
                     op_FromVersion = None, op_ToVersion = Some (c_Version c),
                     op_Candidate = Some c\<rparr>
           in case pk_installedVersion p of
                None \<Rightarrow> Some op
              | Some v \<Rightarrow>
                  (let cmp = Compare (c_Version c) v in
                   if cmp = 1 then Some (op\<lparr>op_Kind := OpUpgrade, op_FromVersion := Some v\<rparr>)
                   else if cmp = -1 then Some (op\<lparr>op_Kind := OpDowngrade, op_FromVersion := Some v\<rparr>)
                   else None)))"

definition planDependencies ::
    "world \<Rightarrow> string list \<Rightarrow> string gomap option \<Rightarrow> string \<Rightarrow> string \<Rightarrow> string list" where
  "planDependencies w inPlan refToPath primaryArch key =
     (case map_get w key of
        None \<Rightarrow> []
      | Some p \<Rightarrow>
          sort (remdups (concat (map (\<lambda>dep.
            (case routeRoot dep (pk_root p) refToPath of
               None \<Rightarrow> []
             | Some targetRoot \<Rightarrow>
                 map fst (filter (\<lambda>(other, s).
                     other \<noteq> key \<and> other \<in> set inPlan \<and> pk_root s = targetRoot \<and>
                     pkgSatisfies s dep (pk_architecture p) primaryArch)
                   (map_entries w))))
            (pk_dependencies p)))))"

definition opKey :: "Operation \<Rightarrow> string" where
  "opKey op = worldKey (op_Root op) (op_Name op)"

definition orderForward ::
    "Operation list \<Rightarrow> world \<Rightarrow> string gomap option \<Rightarrow> string \<Rightarrow> resolveError + Operation list" where
  "orderForward ops w refToPath primaryArch =
     (let byKey = map_put_all opKey (\<lambda>op. op) [] ops; keys = map opKey ops in
      case topoSort keys (planDependencies w keys refToPath primaryArch) of
        Inl e \<Rightarrow> Inl e
      | Inr ordered \<Rightarrow> Inr (List.map_filter (map_get byKey) ordered))"

definition removedKey :: "removedPkg \<Rightarrow> string" where
  "removedKey rp = worldKey (rm_root rp) (i_Name (rm_inst rp))"

definition removedDependencies ::
    "removedPkg gomap \<Rightarrow> string gomap option \<Rightarrow> string \<Rightarrow> removedPkg \<Rightarrow> string list" where
  "removedDependencies removed refToPath primaryArch rp =
     sort (remdups (concat (map (\<lambda>dep.
       (case routeRoot dep (rm_root rp) refToPath of
          None \<Rightarrow> []
        | Some targetRoot \<Rightarrow>
            map fst (filter (\<lambda>(other, ot).
                other \<noteq> removedKey rp \<and> rm_root ot = targetRoot \<and>
                satisfies (i_Name (rm_inst ot)) (i_Version (rm_inst ot)) (i_Architecture (rm_inst ot))
                  (i_Provides (rm_inst ot)) dep (i_Architecture (rm_inst rp)) primaryArch)
              (map_entries removed))))
       (i_Dependencies (rm_inst rp)))))"

definition removeOperation :: "removedPkg \<Rightarrow> Operation" where
  "removeOperation rp =
     \<lparr>op_Kind = OpRemove, op_Name = i_Name (rm_inst rp), op_Root = rm_root rp,
      op_FromVersion = Some (i_Version (rm_inst rp)), op_ToVersion = None, op_Candidate = None\<rparr>"

definition orderRemovals ::
    "removedPkg list \<Rightarrow> string gomap option \<Rightarrow> string \<Rightarrow> resolveError + Operation list" where
  "orderRemovals removed refToPath primaryArch =
     (let byKey = map_put_all removedKey (\<lambda>rp. rp) [] removed in
      case topoSort (map removedKey removed)
             (\<lambda>key. case map_get byKey key of
                      None \<Rightarrow> []
                    | Some rp \<Rightarrow> removedDependencies byKey refToPath primaryArch rp) of
        Inl e \<Rightarrow> Inl e
      | Inr ordered \<Rightarrow> Inr (map removeOperation (rev (List.map_filter (map_get byKey) ordered))))"

definition removedFrom :: "world \<Rightarrow> installedSet \<Rightarrow> removedPkg list" where
  "removedFrom w installedByRoot =
     concat (map (\<lambda>(root, insts).
         map (\<lambda>i. \<lparr>rm_root = root, rm_inst = i\<rparr>)
           (filter (\<lambda>i. map_get w (worldKey root (i_Name i)) = None) insts))
       (map_entries installedByRoot))"

definition forwardOperations :: "world \<Rightarrow> Operation list" where
  "forwardOperations w = List.map_filter (forwardOperation \<circ> snd) (map_entries w)"

definition buildPlan ::
    "world \<Rightarrow> installedSet \<Rightarrow> string gomap option \<Rightarrow> string \<Rightarrow> resolveError + Operation list" where
  "buildPlan w installedByRoot refToPath primaryArch =
     (case orderRemovals (removedFrom w installedByRoot) refToPath primaryArch of
        Inl e \<Rightarrow> Inl e
      | Inr removeOps \<Rightarrow>
          (case orderForward (forwardOperations w) w refToPath primaryArch of
             Inl e \<Rightarrow> Inl e
           | Inr forwardOps \<Rightarrow> Inr (removeOps @ forwardOps)))"

subsection \<open>The edges the sorts follow\<close>

definition depends_on ::
    "world \<Rightarrow> string gomap option \<Rightarrow> string \<Rightarrow> string \<Rightarrow> string \<Rightarrow> bool" where
  "depends_on w refToPath primaryArch key other \<longleftrightarrow>
     other \<noteq> key \<and>
     (\<exists>p s. map_get w key = Some p \<and> map_get w other = Some s \<and>
        (\<exists>dep\<in>set (pk_dependencies p). routeRoot dep (pk_root p) refToPath = Some (pk_root s) \<and>
           pkgSatisfies s dep (pk_architecture p) primaryArch))"

lemma set_case_option: "x \<in> set (case r of None \<Rightarrow> [] | Some t \<Rightarrow> f t) \<longleftrightarrow> (\<exists>t. r = Some t \<and> x \<in> set (f t))"
  by (cases r) simp_all

lemma set_filter_keys: "x \<in> set (map fst (filter P es)) \<longleftrightarrow> (\<exists>v. (x, v) \<in> set es \<and> P (x, v))"
  by force

lemma set_sort_remdups_concat:
  "x \<in> set (sort (remdups (concat (map f ds)))) \<longleftrightarrow> (\<exists>d\<in>set ds. x \<in> set (f d))"
  by simp

lemma set_planDependencies:
  "set (planDependencies w inPlan ref pa key) = {other \<in> set inPlan. depends_on w ref pa key other}"
  (is "?l = ?r")
proof -
  have "other \<in> ?l \<longleftrightarrow> other \<in> ?r" for other
  proof (cases "map_get w key")
    case (Some p)
    then have l: "planDependencies w inPlan ref pa key = sort (remdups (concat (map (\<lambda>dep.
        (case routeRoot dep (pk_root p) ref of None \<Rightarrow> [] | Some targetRoot \<Rightarrow>
           map fst (filter (\<lambda>(other, s). other \<noteq> key \<and> other \<in> set inPlan \<and> pk_root s = targetRoot \<and>
             pkgSatisfies s dep (pk_architecture p) pa) (map_entries w)))) (pk_dependencies p))))"
      by (simp add: planDependencies_def)
    show ?thesis
      unfolding l set_sort_remdups_concat set_case_option set_filter_keys map_entries_mem
      using Some by (auto simp: depends_on_def)
  qed (simp add: planDependencies_def depends_on_def)
  then show ?thesis by blast
qed

lemma set_removedDependencies:
  "other \<in> set (removedDependencies removed ref pa rp) \<longleftrightarrow>
     other \<noteq> removedKey rp \<and>
     (\<exists>ot. map_get removed other = Some ot \<and>
        (\<exists>dep\<in>set (i_Dependencies (rm_inst rp)). routeRoot dep (rm_root rp) ref = Some (rm_root ot) \<and>
           satisfies (i_Name (rm_inst ot)) (i_Version (rm_inst ot)) (i_Architecture (rm_inst ot))
             (i_Provides (rm_inst ot)) dep (i_Architecture (rm_inst rp)) pa))"
  unfolding removedDependencies_def set_sort_remdups_concat set_case_option set_filter_keys
    map_entries_mem by auto

subsection \<open>Looking the sorted keys up again\<close>

lemma map_filter_keys:
  assumes "\<And>k. k \<in> set ks \<Longrightarrow> \<exists>x. get k = Some x \<and> key x = k"
  shows "map key (List.map_filter get ks) = ks"
  using assms
proof (induction ks)
  case (Cons k ks)
  from Cons.prems [of k] obtain x where "get k = Some x" and "key x = k" by auto
  with Cons show ?case by (simp add: List.map_filter_simps)
qed (simp add: List.map_filter_simps)

lemma map_filter_set: "set (List.map_filter get ks) = {x. \<exists>k\<in>set ks. get k = Some x}"
  by (induction ks) (auto simp: List.map_filter_simps split: option.splits)

lemma put_all_lookup:
  "k \<in> key ` set xs \<Longrightarrow> \<exists>x\<in>set xs. map_get (map_put_all key (\<lambda>x. x) [] xs) k = Some x \<and> key x = k"
proof -
  assume "k \<in> key ` set xs"
  then have "k \<in> dom (map_get (map_put_all key (\<lambda>x. x) [] xs))"
    by (simp add: map_get_put_all_dom)
  then obtain x where "map_get (map_put_all key (\<lambda>x. x) [] xs) k = Some x" by auto
  with map_get_put_all_Some [OF this] show ?thesis by auto
qed

lemma orderForward_ok:
  assumes "orderForward ops w ref pa = Inr out" and "distinct (map opKey ops)"
  shows "set out = set ops" and "distinct (map opKey out)"
    and "deps_first (planDependencies w (map opKey ops) ref pa) {} (map opKey out)"
proof -
  define m where "m = map_put_all opKey (\<lambda>op. op) [] ops"
  from assms(1) obtain ks where
    ks: "topoSort (map opKey ops) (planDependencies w (map opKey ops) ref pa) = Inr ks"
    and out: "out = List.map_filter (map_get m) ks"
    by (auto simp: orderForward_def m_def Let_def split: sum.splits)
  have set_ks: "set ks = opKey ` set ops"
    using topoSort_set [OF ks] by (simp add: set_planDependencies)
  then have look: "\<exists>x. map_get m k = Some x \<and> opKey x = k" if "k \<in> set ks" for k
    using put_all_lookup [of k opKey ops] that by (auto simp: m_def)
  have keys: "map opKey out = ks"
    unfolding out by (rule map_filter_keys [OF look])
  show "distinct (map opKey out)"
    using topoSort_distinct [OF ks] keys by simp
  show "deps_first (planDependencies w (map opKey ops) ref pa) {} (map opKey out)"
    using topoSort_sound [OF ks] keys by simp
  have "map_get m (opKey op) = Some op" if "op \<in> set ops" for op
    unfolding m_def by (rule map_get_put_all_distinct [OF assms(2) that])
  then have "{x. \<exists>k\<in>opKey ` set ops. map_get m k = Some x} = set ops" by auto
  then show "set out = set ops"
    unfolding out map_filter_set set_ks .
qed

lemma orderRemovals_ok:
  assumes "orderRemovals rs ref pa = Inr out"
  defines "m \<equiv> map_put_all removedKey (\<lambda>rp. rp) [] rs"
  shows "opKey ` set out = removedKey ` set rs" and "distinct (map opKey out)"
    and "\<And>op. op \<in> set out \<Longrightarrow> \<exists>rp\<in>set rs. op = removeOperation rp"
    and "deps_first (\<lambda>key. case map_get m key of None \<Rightarrow> [] | Some rp \<Rightarrow> removedDependencies m ref pa rp) {}
      (rev (map opKey out))"
proof -
  define deps where "deps = (\<lambda>key. case map_get m key of
      None \<Rightarrow> [] | Some rp \<Rightarrow> removedDependencies m ref pa rp)"
  from assms(1) obtain ks where ks: "topoSort (map removedKey rs) deps = Inr ks"
    and out: "out = map removeOperation (rev (List.map_filter (map_get m) ks))"
    unfolding orderRemovals_def Let_def deps_def m_def by (auto split: sum.splits)
  have dom: "dom (map_get m) = removedKey ` set rs"
    by (auto simp: m_def map_get_put_all_dom)
  have "set ks = removedKey ` set rs"
    using topoSort_set [OF ks] dom
    by (auto simp: deps_def set_removedDependencies split: option.splits)
  then have look: "\<exists>x\<in>set rs. map_get m k = Some x \<and> removedKey x = k" if "k \<in> set ks" for k
    using put_all_lookup [of k removedKey rs] that by (auto simp: m_def)
  then have look': "\<exists>x. map_get m k = Some x \<and> removedKey x = k" if "k \<in> set ks" for k
    using that by blast
  have op: "opKey \<circ> removeOperation = removedKey"
    by (simp add: fun_eq_iff opKey_def removeOperation_def removedKey_def)
  have keys: "map opKey out = rev ks"
    unfolding out rev_map [symmetric] map_map op by (simp only: map_filter_keys [OF look'])
  have "set ks = removedKey ` set rs" by fact
  with keys show "opKey ` set out = removedKey ` set rs"
    by (metis set_map set_rev)
  show "distinct (map opKey out)"
    using topoSort_distinct [OF ks] keys by simp
  show "\<exists>rp\<in>set rs. op = removeOperation rp" if "op \<in> set out" for op
    using that look unfolding out by (fastforce simp: map_filter_set)
  show "deps_first (\<lambda>key. case map_get m key of None \<Rightarrow> [] | Some rp \<Rightarrow> removedDependencies m ref pa rp) {}
      (rev (map opKey out))"
    using topoSort_sound [OF ks] keys by (simp add: deps_def)
qed

end
