(* ===== verification/Resolve.thy ===== *)
theory Resolve
  imports Planning
begin

section \<open>Resolution\<close>

text \<open>
  \<open>resolveCore\<close>, \<open>Resolve\<close> and \<open>ResolveMultiRoot\<close> of
  \<open>internal/resolver/resolve.go\<close>. \<open>resolveWorld\<close> is the part of
  \<open>resolveCore\<close> up to and including the consistency check, \<open>resolveCore\<close> the
  whole of it.
\<close>

definition initialPkg :: "string \<times> Installed \<Rightarrow> worldPkg" where
  "initialPkg ri =
     (case ri of (root, inst) \<Rightarrow>
        \<lparr>pk_root = root, pk_name = i_Name inst, pk_version = i_Version inst,
         pk_architecture = i_Architecture inst, pk_dependencies = i_Dependencies inst,
         pk_conflicts = i_Conflicts inst, pk_provides = i_Provides inst,
         pk_installedVersion = Some (i_Version inst), pk_installedRepo = i_Repo inst,
         pk_installedRepoPriority = i_RepoPriority inst,
         pk_installedOrphaned = i_Orphaned inst, pk_candidate = None\<rparr>)"

definition installedList :: "installedSet \<Rightarrow> (string \<times> Installed) list" where
  "installedList installedByRoot =
     concat (map (\<lambda>(root, insts). map (Pair root) insts) (map_entries installedByRoot))"

definition installedKey :: "string \<times> Installed \<Rightarrow> string" where
  "installedKey ri = worldKey (fst ri) (i_Name (snd ri))"

definition initialWorld :: "installedSet \<Rightarrow> world" where
  "initialWorld installedByRoot =
     map_put_all installedKey initialPkg [] (installedList installedByRoot)"

definition keysOfKind :: "RequestKind \<Rightarrow> Request list \<Rightarrow> string list" where
  "keysOfKind kind reqs =
     map (\<lambda>req. worldKey (rq_Root req) (rq_Name req)) (filter (\<lambda>req. rq_Kind req = kind) reqs)"

definition goalStep ::
    "candidateIndex \<Rightarrow> Options \<Rightarrow> Request \<Rightarrow> world \<times> string list \<times> Notice list \<Rightarrow>
       resolveError + (world \<times> string list \<times> Notice list)" where
  "goalStep idx opts req st =
     (case st of (w, goals, notices) \<Rightarrow>
        (case applyGoal req w idx opts of
           Inl e \<Rightarrow> Inl e
         | Inr (w', keys, ns) \<Rightarrow> Inr (w', goals @ keys, notices @ ns)))"

definition resolveWorld ::
    "Request list \<Rightarrow> installedSet \<Rightarrow> Candidate list \<Rightarrow> string gomap option \<Rightarrow> Options \<Rightarrow>
       resolveError + (world \<times> Authorization list \<times> Notice list)" where
  "resolveWorld reqs installedByRoot available refToPath opts =
     (let idx = buildIndex available in
      case applyRemovals (initialWorld installedByRoot) (keysOfKind Remove reqs) refToPath opts of
        Inl e \<Rightarrow> Inl e
      | Inr w1 \<Rightarrow>
     (case fold_res (goalStep idx opts) reqs (w1, [], []) of
        Inl e \<Rightarrow> Inl e
      | Inr (w2, goals, notices) \<Rightarrow>
     (case resolveForward w2 idx goals refToPath opts [] of
        Inl e \<Rightarrow> Inl e
      | Inr (w3, auths) \<Rightarrow>
     (case applyReplaces w3 auths of (w4, auths') \<Rightarrow>
      case checkConsistency w4 refToPath opts (keysOfKind Downgrade reqs) of
        Inl e \<Rightarrow> Inl e
      | Inr _ \<Rightarrow> Inr (w4, auths', notices)))))"

definition downgradeAuthorization :: "Operation \<Rightarrow> Authorization option" where
  "downgradeAuthorization op =
     (if op_Kind op = OpDowngrade
      then Some \<lparr>au_Kind = AuthDowngrade, au_Package = op_Name op,
                 au_Detail = DowngradeDetail (op_Name op) (op_FromVersion op) (op_ToVersion op)\<rparr>
      else None)"

definition resolveCore ::
    "Request list \<Rightarrow> installedSet \<Rightarrow> Candidate list \<Rightarrow> string gomap option \<Rightarrow> Options \<Rightarrow>
       resolveError + Plan" where
  "resolveCore reqs installedByRoot available refToPath opts =
     (case resolveWorld reqs installedByRoot available refToPath opts of
        Inl e \<Rightarrow> Inl e
      | Inr (w, auths, notices) \<Rightarrow>
     (case buildPlan w installedByRoot refToPath (o_PrimaryArch opts) of
        Inl e \<Rightarrow> Inl e
      | Inr ops \<Rightarrow>
          Inr \<lparr>pl_Operations = ops,
               pl_Authorizations =
                 dedupeAuthorizations (auths @ List.map_filter downgradeAuthorization ops),
               pl_Notices = notices\<rparr>))"

definition Resolve ::
    "Request list \<Rightarrow> Installed list \<Rightarrow> Candidate list \<Rightarrow> Options \<Rightarrow> resolveError + Plan" where
  "Resolve reqs installed available opts =
     resolveCore reqs (map_put [] [] installed) available None opts"

definition ResolveMultiRoot ::
    "Request list \<Rightarrow> installedSet \<Rightarrow> Candidate list \<Rightarrow> string gomap \<Rightarrow> Options \<Rightarrow>
       resolveError + Plan" where
  "ResolveMultiRoot reqs installedByRoot available refToPath opts =
     resolveCore reqs installedByRoot available (Some refToPath) opts"

subsection \<open>The installed packages by key\<close>

definition installedAt :: "installedSet \<Rightarrow> string \<Rightarrow> Installed option" where
  "installedAt installedByRoot =
     map_get (map_put_all installedKey snd [] (installedList installedByRoot))"

lemma put_all_map:
  assumes "\<And>x. x \<in> set xs \<Longrightarrow> g (val x) = val' x" and "\<And>k. map_get m' k = map_option g (map_get m k)"
  shows "map_get (map_put_all key val' m' xs) k = map_option g (map_get (map_put_all key val m xs) k)"
  using assms
proof (induction xs arbitrary: m m')
  case (Cons x xs)
  show ?case
    unfolding map_put_all_def foldl.simps
    using Cons.IH [where m = "map_put m (key x) (val x)" and m' = "map_put m' (key x) (val' x)"] Cons.prems
    by (simp add: map_put_all_def map_simps)
qed (simp add: map_put_all_def)

lemma installedAt_initial:
  "installedAt inst k = map_option (\<lambda>p. snd p) (map_get (map_put_all installedKey (\<lambda>ri. ri) [] (installedList inst)) k)"
  unfolding installedAt_def by (rule put_all_map) simp_all

lemma initialWorld_get:
  "map_get (initialWorld inst) k = map_option initialPkg (map_get (map_put_all installedKey (\<lambda>ri. ri) [] (installedList inst)) k)"
  unfolding initialWorld_def by (rule put_all_map) simp_all

lemma initialWorld_None: "map_get (initialWorld inst) k = None \<longleftrightarrow> installedAt inst k = None"
  by (simp add: initialWorld_get installedAt_initial)

lemma installedAt_Some:
  "installedAt inst k = Some i \<Longrightarrow> \<exists>r. (r, i) \<in> set (installedList inst) \<and> worldKey r (i_Name i) = k"
  by (auto simp: installedAt_initial installedKey_def dest!: map_get_put_all_Some)

lemma installedAt_dom: "installedAt inst k \<noteq> None \<longleftrightarrow> k \<in> installedKey ` set (installedList inst)"
proof -
  have "dom (installedAt inst) = installedKey ` set (installedList inst)"
    unfolding installedAt_def map_get_put_all_dom by auto
  then show ?thesis by (metis domIff)
qed

lemma initialWorld_ok: "world_ok av pa (installedAt inst) (initialWorld inst)"
proof -
  have "pkg_ok av pa (installedAt inst) k p" if "map_get (initialWorld inst) k = Some p" for k p
  proof -
    from that obtain r i where ri: "map_get (map_put_all installedKey (\<lambda>ri. ri) [] (installedList inst)) k = Some (r, i)"
      and p: "p = initialPkg (r, i)" by (auto simp: initialWorld_get)
    from map_get_put_all_Some [OF ri] have "k = worldKey r (i_Name i)"
      by (auto simp: installedKey_def)
    moreover have "installedAt inst k = Some i" using ri by (simp add: installedAt_initial)
    ultimately show ?thesis by (simp add: pkg_ok_def from_installed_def p initialPkg_def)
  qed
  then show ?thesis by (simp add: world_ok_def)
qed

subsection \<open>The resolved world\<close>

lemma goalStep_ok:
  assumes "goalStep (buildIndex av) opts req st = Inr st'"
    and "world_ok (set av) (o_PrimaryArch opts) inst (fst st)"
  shows "world_ok (set av) (o_PrimaryArch opts) inst (fst st')"
  using assms by (auto simp: goalStep_def split: prod.splits sum.splits dest: applyGoal_ok)

lemma resolveWorld_ok:
  assumes "resolveWorld reqs inst av ref opts = Inr (w, auths, notices)"
  shows "world_ok (set av) (o_PrimaryArch opts) (installedAt inst) w"
    and "consistent w ref (o_PrimaryArch opts)"
    and "no_regression w opts (keysOfKind Downgrade reqs)"
proof -
  let ?ok = "world_ok (set av) (o_PrimaryArch opts) (installedAt inst)"
  from assms obtain w1 w2 goals w3 auths3 where
    1: "applyRemovals (initialWorld inst) (keysOfKind Remove reqs) ref opts = Inr w1"
    and 2: "fold_res (goalStep (buildIndex av) opts) reqs (w1, [], []) = Inr (w2, goals, notices)"
    and 3: "resolveForward w2 (buildIndex av) goals ref opts [] = Inr (w3, auths3)"
    and 4: "w = fst (applyReplaces w3 auths3)"
    and 5: "checkConsistency w ref opts (keysOfKind Downgrade reqs) = Inr ()"
    by (auto simp: resolveWorld_def Let_def split: sum.splits prod.splits)
  have "?ok w1"
    using initialWorld_ok applyRemovals_sub [OF 1] by (rule world_ok_submap)
  have "?ok (fst (w2, goals, notices))"
    using 2 by (rule fold_res_inv) (use \<open>?ok w1\<close> in \<open>auto dest: goalStep_ok\<close>)
  then have "?ok w3"
    using 3 unfolding resolveForward_def by (auto dest: forwardLoop_ok)
  then show "?ok w" unfolding 4 by (rule world_ok_replaces)
  show "consistent w ref (o_PrimaryArch opts)" and "no_regression w opts (keysOfKind Downgrade reqs)"
    using 5 by (simp_all add: checkConsistency_ok)
qed

subsection \<open>The plan and the world\<close>

text \<open>What executing a plan does to the versions installed, by key.\<close>

definition applyOperation :: "Operation \<Rightarrow> (string \<Rightarrow> version option) \<Rightarrow> string \<Rightarrow> version option" where
  "applyOperation op m = m(opKey op := op_ToVersion op)"

definition applyOperations :: "Operation list \<Rightarrow> (string \<Rightarrow> version option) \<Rightarrow> string \<Rightarrow> version option" where
  "applyOperations ops m = fold applyOperation ops m"

definition installedVersions :: "installedSet \<Rightarrow> string \<Rightarrow> version option" where
  "installedVersions inst k = map_option i_Version (installedAt inst k)"

lemma applyOperations_other:
  "k \<notin> opKey ` set ops \<Longrightarrow> applyOperations ops m k = m k"
  unfolding applyOperations_def by (induction ops arbitrary: m) (auto simp: applyOperation_def)

lemma applyOperations_at:
  "distinct (map opKey ops) \<Longrightarrow> op \<in> set ops \<Longrightarrow> applyOperations ops m (opKey op) = op_ToVersion op"
proof (induction ops arbitrary: m)
  case (Cons o1 ops)
  show ?case
  proof (cases "op \<in> set ops")
    case True
    with Cons show ?thesis by (simp add: applyOperations_def)
  next
    case False
    with Cons.prems have "op = o1" by simp
    with Cons.prems applyOperations_other [of "opKey op" ops "applyOperation o1 m"]
    show ?thesis by (simp add: applyOperations_def applyOperation_def)
  qed
qed simp

lemma removedFrom_keys:
  "removedKey ` set (removedFrom w inst) = {k. installedAt inst k \<noteq> None \<and> map_get w k = None}"
proof -
  have "set (removedFrom w inst) = (\<lambda>(r, i). \<lparr>rm_root = r, rm_inst = i\<rparr>) `
      {(r, i) \<in> set (installedList inst). map_get w (worldKey r (i_Name i)) = None}"
    by (force simp: removedFrom_def installedList_def)
  then show ?thesis
    unfolding installedAt_dom by (force simp: removedKey_def installedKey_def)
qed

lemma forwardOperation_key: "forwardOperation p = Some op \<Longrightarrow> opKey op = worldKey (pk_root p) (pk_name p)"
  by (auto simp: forwardOperation_def Let_def opKey_def split: option.splits if_splits)

lemma forwardOperations_mem:
  "op \<in> set (forwardOperations w) \<longleftrightarrow> (\<exists>k p. map_get w k = Some p \<and> forwardOperation p = Some op)"
proof -
  have "op \<in> set (forwardOperations w) \<longleftrightarrow>
      (\<exists>kp\<in>set (map_entries w). forwardOperation (snd kp) = Some op)"
    by (simp add: forwardOperations_def map_filter_set)
  then show ?thesis by (auto simp: map_entries_mem Bex_def)
qed

lemma map_filter_operation_keys:
  "(\<And>k p. (k, p) \<in> set es \<Longrightarrow> k = worldKey (pk_root p) (pk_name p)) \<Longrightarrow>
     map opKey (List.map_filter (forwardOperation \<circ> snd) es) =
     map fst (filter (\<lambda>kp. forwardOperation (snd kp) \<noteq> None) es)"
proof (induction es)
  case (Cons kp es)
  obtain k p where kp: "kp = (k, p)" by (cases kp)
  with Cons.prems [of k p] have k: "k = worldKey (pk_root p) (pk_name p)" by simp
  have "map opKey (List.map_filter (forwardOperation \<circ> snd) es) =
      map fst (filter (\<lambda>kp. forwardOperation (snd kp) \<noteq> None) es)"
    using Cons.prems by (intro Cons.IH) simp
  then show ?case
    using kp k
    by (cases "forwardOperation p") (simp_all add: List.map_filter_simps forwardOperation_key o_def)
qed (simp add: List.map_filter_simps)

lemma forwardOperations_keys:
  assumes "world_ok av pa inst w"
  shows "distinct (map opKey (forwardOperations w))"
proof -
  have "map opKey (forwardOperations w) =
      map fst (filter (\<lambda>kp. forwardOperation (snd kp) \<noteq> None) (map_entries w))"
    unfolding forwardOperations_def
    by (rule map_filter_operation_keys)
       (use assms in \<open>simp add: map_entries_mem world_ok_def pkg_ok_def\<close>)
  moreover have "distinct (map fst (map_entries w))"
    by (simp add: map_entries_keys gomap.distinct_keys)
  ultimately show ?thesis by (simp only: distinct_map_filter)
qed

lemma buildPlan_parts:
  assumes "buildPlan w inst ref pa = Inr ops" and "world_ok av pa (installedAt inst) w"
  obtains rem fwd where "ops = rem @ fwd"
    and "orderRemovals (removedFrom w inst) ref pa = Inr rem"
    and "orderForward (forwardOperations w) w ref pa = Inr fwd"
    and "distinct (map opKey fwd)" and "set fwd = set (forwardOperations w)"
    and "distinct (map opKey rem)"
    and "opKey ` set rem = {k. installedAt inst k \<noteq> None \<and> map_get w k = None}"
proof -
  from assms(1) obtain rem fwd where *: "ops = rem @ fwd"
    "orderRemovals (removedFrom w inst) ref pa = Inr rem"
    "orderForward (forwardOperations w) w ref pa = Inr fwd"
    by (auto simp: buildPlan_def split: sum.splits)
  show thesis
    by (rule that [OF *])
       (use orderForward_ok [OF *(3) forwardOperations_keys [OF assms(2)]] orderRemovals_ok [OF *(2)]
         removedFrom_keys in simp_all)
qed

lemma plan_reaches_world:
  assumes "buildPlan w inst ref pa = Inr ops" and ok: "world_ok av pa (installedAt inst) w"
  shows "map_get w k = None \<Longrightarrow> applyOperations ops (installedVersions inst) k = None"
    and "map_get w k = Some p \<Longrightarrow>
      \<exists>v. applyOperations ops (installedVersions inst) k = Some v \<and> Compare v (pk_version p) = 0"
proof -
  obtain rem fwd where ops: "ops = rem @ fwd"
    and rem: "orderRemovals (removedFrom w inst) ref pa = Inr rem"
    and fwd: "distinct (map opKey fwd)" "set fwd = set (forwardOperations w)"
    and rem': "distinct (map opKey rem)"
      "opKey ` set rem = {k. installedAt inst k \<noteq> None \<and> map_get w k = None}"
    by (rule buildPlan_parts [OF assms])
  let ?m = "applyOperations rem (installedVersions inst)"
  have split: "applyOperations ops m = applyOperations fwd (applyOperations rem m)" for m
    by (simp add: ops applyOperations_def)
  have no_to: "op_ToVersion op = None" if "op \<in> set rem" for op
    using orderRemovals_ok(3) [OF rem that] by (auto simp: removeOperation_def)
  have fwd_key: "\<exists>q. map_get w (opKey op) = Some q \<and> forwardOperation q = Some op" if "op \<in> set fwd" for op
  proof -
    from that fwd(2) obtain j q where q: "map_get w j = Some q" "forwardOperation q = Some op"
      by (auto simp: forwardOperations_mem)
    moreover have "j = opKey op"
      using ok q by (simp add: world_ok_def pkg_ok_def forwardOperation_key [OF q(2)])
    ultimately show ?thesis by blast
  qed
  show "applyOperations ops (installedVersions inst) k = None" if none: "map_get w k = None"
  proof -
    have "k \<notin> opKey ` set fwd" using fwd_key none by force
    moreover have "?m k = None"
    proof (cases "installedAt inst k")
      case None
      then have "k \<notin> opKey ` set rem" using rem'(2) by auto
      then show ?thesis using None by (simp add: applyOperations_other installedVersions_def)
    next
      case (Some i)
      then have "k \<in> opKey ` set rem" using rem'(2) none by auto
      then obtain op where "op \<in> set rem" "k = opKey op" by auto
      then show ?thesis using applyOperations_at [OF rem'(1)] no_to by simp
    qed
    ultimately show ?thesis by (simp add: split applyOperations_other)
  qed
  show "\<exists>v. applyOperations ops (installedVersions inst) k = Some v \<and> Compare v (pk_version p) = 0"
    if p: "map_get w k = Some p"
  proof -
    have pk: "pkg_ok av pa (installedAt inst) k p" using ok p by (simp add: world_ok_def)
    have m: "?m k = installedVersions inst k"
      using rem'(2) p by (intro applyOperations_other) auto
    show ?thesis
    proof (cases "forwardOperation p")
      case (Some op)
      then have "op \<in> set fwd" using fwd(2) p by (auto simp: forwardOperations_mem)
      moreover have "opKey op = k" using forwardOperation_key [OF Some] pk by (simp add: pkg_ok_def)
      ultimately have "applyOperations ops (installedVersions inst) k = op_ToVersion op"
        using applyOperations_at [OF fwd(1)] by (auto simp: split)
      moreover have "op_ToVersion op = Some (pk_version p)"
        using Some pk by (auto simp: forwardOperation_def pkg_ok_def from_candidate_def Let_def
            split: option.splits if_splits)
      ultimately show ?thesis by simp
    next
      case None
      have "k \<notin> opKey ` set fwd"
        using fwd_key p None by fastforce
      then have "applyOperations ops (installedVersions inst) k = installedVersions inst k"
        by (simp add: split applyOperations_other m)
      moreover obtain v where v: "pk_installedVersion p = Some v" "Compare (pk_version p) v = 0"
        using None pk version_cmp.cmp_sign
        by (fastforce simp: forwardOperation_def pkg_ok_def from_candidate_def Let_def
            split: option.splits if_splits)
      moreover have "installedVersions inst k = Some v"
        using v(1) pk by (auto simp: pkg_ok_def installedVersions_def)
      ultimately show ?thesis using version_cmp.cmp_swap [of v "pk_version p"] by simp
    qed
  qed
qed

end
