(* ===== verification/Examples.thy ===== *)
theory Examples
  imports Resolve
begin

section \<open>Concrete inputs for the resolver\<close>

text \<open>
  A small repository and two installed systems. The properties of the resolver are
  evaluated on them, and so are two resolutions whose plans are not what was asked for.
\<close>

definition exVersion :: "char \<Rightarrow> version" where
  "exVersion d =
     \<lparr>v_raw = [d, CHR ''-'', CHR ''1''], v_epoch = [], v_upstream = [d], v_revision = ''1'',
      v_segments = [\<lparr>seg_kind = numeric, seg_text = [d], seg_preRelease = False\<rparr>]\<rparr>"

definition exDependency :: "string \<Rightarrow> expression list \<Rightarrow> Dependency" where
  "exDependency name es = \<lparr>d_Name = name, d_Constraint = \<lparr>exprs = es\<rparr>, d_Root = [], d_Claims = []\<rparr>"

definition exCandidate ::
    "string \<Rightarrow> char \<Rightarrow> Dependency list \<Rightarrow> Replaces list \<Rightarrow> Candidate" where
  "exCandidate name v deps reps =
     \<lparr>c_Name = name, c_Version = exVersion v, c_Architecture = ''x'', c_Dependencies = deps,
      c_Conflicts = [], c_Provides = [], c_Replaces = reps, c_Repo = ''r'', c_RepoPriority = 1,
      c_DefaultRoot = [], c_AlternateUpgrade = None, c_LicenseClass = LicenseClassFree,
      c_URL = [], c_Hash = [], c_SizeCompressed = 0, c_SizeInstalled = 0\<rparr>"

definition exInstalled :: "string \<Rightarrow> char \<Rightarrow> Dependency list \<Rightarrow> Installed" where
  "exInstalled name v deps =
     \<lparr>i_Name = name, i_Version = exVersion v, i_Architecture = ''x'', i_Dependencies = deps,
      i_Conflicts = [], i_Provides = [], i_Repo = ''r'', i_RepoPriority = 1, i_Orphaned = False\<rparr>"

definition exOptions :: Options where
  "exOptions = \<lparr>o_PrimaryArch = ''x'', o_AllowDowngrade = False, o_CascadeRemovals = False\<rparr>"

definition exRequest :: "RequestKind \<Rightarrow> string \<Rightarrow> Request" where
  "exRequest kind name =
     \<lparr>rq_Kind = kind, rq_Name = name, rq_Version = exVersion (CHR ''1''), rq_Root = []\<rparr>"

text \<open>\<open>a\<close> in two versions, \<open>b\<close> that needs the newer one.\<close>

definition exAvailable :: "Candidate list" where
  "exAvailable =
     [exCandidate ''a'' (CHR ''1'') [] [], exCandidate ''a'' (CHR ''2'') [] [],
      exCandidate ''b'' (CHR ''1'')
        [exDependency ''a'' [\<lparr>e_op = OpGreaterEqual, e_operand = exVersion (CHR ''2'')\<rparr>]] []]"

lemmas example_simps = exVersion_def exDependency_def exCandidate_def exInstalled_def
  exOptions_def exRequest_def exAvailable_def

subsection \<open>Two plans that surprise\<close>

definition planSummary :: "resolveError + Plan \<Rightarrow> (OpKind \<times> string \<times> version option) list" where
  "planSummary r =
     (case r of
        Inl e \<Rightarrow> []
      | Inr plan \<Rightarrow> map (\<lambda>op. (op_Kind op, op_Name op, op_ToVersion op)) (pl_Operations plan))"

text \<open>
  A package whose new version declares that it replaces its own older versions supersedes
  itself: \<open>applyReplaces\<close> drops the package that is being upgraded, and the plan for
  the upgrade removes it.
\<close>

theorem self_replacing_upgrade_removes:
  "planSummary (Resolve [exRequest Upgrade ''a''] [exInstalled ''a'' (CHR ''1'') []]
     [exCandidate ''a'' (CHR ''2'') []
        [\<lparr>r_Name = ''a'', r_Constraint = \<lparr>exprs = [\<lparr>e_op = OpLess, e_operand = exVersion (CHR ''2'')\<rparr>]\<rparr>\<rparr>]]
     exOptions) = [(OpRemove, ''a'', None)]"
  by code_simp

text \<open>
  A package that a request removes and that a dependency brings back is planned as a fresh
  installation: nothing compares its version with the one still installed, so it moves
  backward without \<open>AllowDowngrade\<close> and without an authorization.
\<close>

theorem removed_package_moves_backward:
  "planSummary (Resolve [exRequest Remove ''a'', exRequest Install ''b''] [exInstalled ''a'' (CHR ''2'') []]
     [exCandidate ''a'' (CHR ''1'') [] [], exCandidate ''b'' (CHR ''1'') [exDependency ''a'' []] []]
     exOptions) =
   [(OpInstall, ''a'', Some (exVersion (CHR ''1''))), (OpInstall, ''b'', Some (exVersion (CHR ''1'')))]"
  by code_simp

subsection \<open>Three plans worked out\<close>

text \<open>
  Installing \<open>b\<close> first upgrades \<open>a\<close>; \<open>a\<close> is moved back on request; and \<open>b\<close> is removed
  together with the \<open>a\<close> it depends on.
\<close>

definition exOperation :: "OpKind \<Rightarrow> string \<Rightarrow> version option \<Rightarrow> version option \<Rightarrow> Candidate option \<Rightarrow> Operation" where
  "exOperation kind name from to cand =
     \<lparr>op_Kind = kind, op_Name = name, op_Root = [], op_FromVersion = from, op_ToVersion = to,
      op_Candidate = cand\<rparr>"

definition exInstallPlan :: Plan where
  "exInstallPlan =
     \<lparr>pl_Operations =
        [exOperation OpUpgrade ''a'' (Some (exVersion (CHR ''1''))) (Some (exVersion (CHR ''2''))) (Some (exAvailable ! 1)),
         exOperation OpInstall ''b'' None (Some (exVersion (CHR ''1''))) (Some (exAvailable ! 2))],
      pl_Authorizations = [], pl_Notices = []\<rparr>"

definition exDowngradePlan :: Plan where
  "exDowngradePlan =
     \<lparr>pl_Operations =
        [exOperation OpDowngrade ''a'' (Some (exVersion (CHR ''2''))) (Some (exVersion (CHR ''1''))) (Some (exAvailable ! 0))],
      pl_Authorizations =
        [\<lparr>au_Kind = AuthDowngrade, au_Package = ''a'',
          au_Detail = DowngradeDetail ''a'' (Some (exVersion (CHR ''2''))) (Some (exVersion (CHR ''1'')))\<rparr>],
      pl_Notices = []\<rparr>"

definition exRemovalPlan :: Plan where
  "exRemovalPlan =
     \<lparr>pl_Operations =
        [exOperation OpRemove ''b'' (Some (exVersion (CHR ''1''))) None None,
         exOperation OpRemove ''a'' (Some (exVersion (CHR ''1''))) None None],
      pl_Authorizations = [], pl_Notices = []\<rparr>"

definition exBoth :: installedSet where
  "exBoth = [([], [exInstalled ''b'' (CHR ''1'') [exDependency ''a'' []], exInstalled ''a'' (CHR ''1'') []])]"

definition exOnly :: "char \<Rightarrow> installedSet" where
  "exOnly v = [([], [exInstalled ''a'' v []])]"

lemmas example_plan_simps = example_simps exOperation_def exInstallPlan_def exDowngradePlan_def
  exRemovalPlan_def exBoth_def exOnly_def

lemma install_example:
  "resolveCore [exRequest Install ''b''] (exOnly (CHR ''1'')) exAvailable None exOptions = Inr exInstallPlan"
  by code_simp

lemma downgrade_example:
  "resolveCore [exRequest Downgrade ''a''] (exOnly (CHR ''2'')) exAvailable None exOptions = Inr exDowngradePlan"
  by code_simp

lemma removal_example:
  "resolveCore [exRequest Remove ''a'', exRequest Remove ''b''] exBoth exAvailable None exOptions = Inr exRemovalPlan"
  by code_simp

end
