(* ===== verification/ResolveFacts.thy ===== *)
theory ResolveFacts
  imports Examples
begin

section \<open>What a plan guarantees\<close>

lemma resolveCore_parts:
  assumes "resolveCore reqs inst av ref opts = Inr plan"
  obtains w auths notices where
    "resolveWorld reqs inst av ref opts = Inr (w, auths, notices)"
    and "buildPlan w inst ref (o_PrimaryArch opts) = Inr (pl_Operations plan)"
    and "pl_Authorizations plan =
      dedupeAuthorizations (auths @ List.map_filter downgradeAuthorization (pl_Operations plan))"
    and "world_ok (set av) (o_PrimaryArch opts) (installedAt inst) w"
    and "consistent w ref (o_PrimaryArch opts)"
    and "no_regression w opts (keysOfKind Downgrade reqs)"
  using assms resolveWorld_ok that
  by (auto simp: resolveCore_def split: sum.splits prod.splits)

subsection \<open>The state a plan reaches\<close>

text \<open>
  \<open>w\<close> is what an installation looks like: each of its packages is unchanged from the
  installed set or is an available candidate that this system can install, and \<open>m\<close>
  has the same packages at equal versions.
\<close>

definition reaches :: "(string \<Rightarrow> version option) \<Rightarrow> world \<Rightarrow> bool" where
  "reaches m w \<longleftrightarrow>
     (\<forall>k. case map_get w k of
            None \<Rightarrow> m k = None
          | Some p \<Rightarrow> \<exists>v. m k = Some v \<and> Compare v (pk_version p) = 0)"

lemma resolve_reaches:
  assumes "resolveCore reqs inst av ref opts = Inr plan"
  shows "\<exists>w. world_ok (set av) (o_PrimaryArch opts) (installedAt inst) w \<and>
    consistent w ref (o_PrimaryArch opts) \<and>
    reaches (applyOperations (pl_Operations plan) (installedVersions inst)) w"
proof -
  obtain w where ok: "world_ok (set av) (o_PrimaryArch opts) (installedAt inst) w"
    and con: "consistent w ref (o_PrimaryArch opts)"
    and plan: "buildPlan w inst ref (o_PrimaryArch opts) = Inr (pl_Operations plan)"
    by (rule resolveCore_parts [OF assms]) blast
  note r = plan_reaches_world [OF plan ok]
  have "reaches (applyOperations (pl_Operations plan) (installedVersions inst)) w"
    using r by (auto simp: reaches_def split: option.split)
  with ok con show ?thesis by blast
qed

subsection \<open>Each operation\<close>

definition operation_ok ::
    "Candidate list \<Rightarrow> string \<Rightarrow> installedSet \<Rightarrow> Operation \<Rightarrow> bool" where
  "operation_ok available primaryArch installedByRoot op \<longleftrightarrow>
     (case op_Kind op of
        OpRemove \<Rightarrow> op_Candidate op = None \<and> op_ToVersion op = None \<and>
          installedAt installedByRoot (opKey op) \<noteq> None
      | kind \<Rightarrow>
          (\<exists>c\<in>set available. op_Candidate op = Some c \<and> op_Name op = c_Name c \<and>
             op_ToVersion op = Some (c_Version c) \<and>
             installableArch (c_Architecture c) primaryArch \<and>
             (case op_FromVersion op of
                None \<Rightarrow> kind = OpInstall
              | Some v \<Rightarrow> installedVersions installedByRoot (opKey op) = Some v \<and>
                  Compare (c_Version c) v = (if kind = OpUpgrade then 1 else - 1) \<and>
                  kind \<noteq> OpInstall)))"

lemma forwardOperation_kind: "forwardOperation p = Some op \<Longrightarrow> op_Kind op \<noteq> OpRemove"
  by (auto simp: forwardOperation_def Let_def split: option.splits if_splits)

lemma forwardOperation_ok:
  assumes "forwardOperation p = Some op" and "pkg_ok (set av) pa (installedAt inst) k p"
  shows "operation_ok av pa inst op"
proof -
  from assms(1) obtain c where c: "pk_candidate p = Some c"
    by (auto simp: forwardOperation_def split: option.splits)
  have "opKey op = k"
    using assms forwardOperation_key by (simp add: pkg_ok_def)
  with assms c show ?thesis
    by (cases "pk_installedVersion p")
      (auto simp: forwardOperation_def Let_def pkg_ok_def from_candidate_def operation_ok_def
        installedVersions_def split: if_splits)
qed

lemma buildPlan_operations:
  assumes "buildPlan w inst ref pa = Inr ops" and ok: "world_ok (set av) pa (installedAt inst) w"
  shows "distinct (map opKey ops)" and "\<And>op. op \<in> set ops \<Longrightarrow> operation_ok av pa inst op"
proof -
  obtain rem fwd where ops: "ops = rem @ fwd"
    and rem: "orderRemovals (removedFrom w inst) ref pa = Inr rem" "distinct (map opKey rem)"
      "opKey ` set rem = {k. installedAt inst k \<noteq> None \<and> map_get w k = None}"
    and fwd: "distinct (map opKey fwd)" "set fwd = set (forwardOperations w)"
    by (rule buildPlan_parts [OF assms])
  have f: "\<exists>p. map_get w (opKey op) = Some p \<and> forwardOperation p = Some op" if "op \<in> set fwd" for op
  proof -
    from that fwd(2) obtain j p where p: "map_get w j = Some p" "forwardOperation p = Some op"
      by (auto simp: forwardOperations_mem)
    with ok have "j = opKey op"
      by (simp add: world_ok_def pkg_ok_def forwardOperation_key [OF p(2)])
    with p show ?thesis by blast
  qed
  have "map_get w k \<noteq> None" if "k \<in> opKey ` set fwd" for k
    using that f by fastforce
  then have "opKey ` set rem \<inter> opKey ` set fwd = {}" unfolding rem(3) by blast
  with rem(2) fwd(1) show "distinct (map opKey ops)" by (simp add: ops)
  show "operation_ok av pa inst op" if "op \<in> set ops" for op
  proof (cases "op \<in> set fwd")
    case True
    with f obtain p where "map_get w (opKey op) = Some p" "forwardOperation p = Some op" by blast
    with ok forwardOperation_ok show ?thesis unfolding world_ok_def by blast
  next
    case False
    with that ops have "op \<in> set rem" by simp
    with rem(3) orderRemovals_ok(3) [OF rem(1)] show ?thesis
      by (fastforce simp: operation_ok_def removeOperation_def)
  qed
qed

subsection \<open>The order\<close>

lemma deps_first_nth:
  assumes "deps_first d b ks" and "i < length ks" and "x \<in> set (d (ks ! i))"
  shows "x \<in> b \<or> (\<exists>j<i. ks ! j = x)"
  using assms
proof (induction ks arbitrary: b i)
  case (Cons k ks)
  show ?case
  proof (cases i)
    case (Suc i')
    with Cons.prems have "x \<in> insert k b \<or> (\<exists>j<i'. ks ! j = x)"
      by (intro Cons.IH) auto
    with Suc show ?thesis by fastforce
  qed (use Cons.prems in auto)
qed simp

text \<open>The removed package \<open>ri\<close> depended on the removed package \<open>ot\<close>.\<close>

definition needed ::
    "string gomap option \<Rightarrow> string \<Rightarrow> string \<times> Installed \<Rightarrow> string \<times> Installed \<Rightarrow> bool" where
  "needed refToPath primaryArch ri ot \<longleftrightarrow>
     installedKey ri \<noteq> installedKey ot \<and>
     (\<exists>dep\<in>set (i_Dependencies (snd ri)). routeRoot dep (fst ri) refToPath = Some (fst ot) \<and>
        satisfies (i_Name (snd ot)) (i_Version (snd ot)) (i_Architecture (snd ot))
          (i_Provides (snd ot)) dep (i_Architecture (snd ri)) primaryArch)"

lemma forward_order:
  assumes "orderForward (forwardOperations w) w ref pa = Inr fwd"
    and "world_ok av pa (installedAt inst) w"
    and "i < length fwd" and "j < length fwd"
    and "depends_on w ref pa (opKey (fwd ! i)) (opKey (fwd ! j))"
  shows "j < i"
proof -
  note o = orderForward_ok [OF assms(1) forwardOperations_keys [OF assms(2)]]
  have "opKey (fwd ! j) \<in> set (planDependencies w (map opKey (forwardOperations w)) ref pa (opKey (fwd ! i)))"
    using assms(4,5) o(1) nth_mem [OF assms(4)] by (auto simp: set_planDependencies)
  moreover have "i < length (map opKey fwd)" using assms(3) by simp
  moreover have "map opKey fwd ! i = opKey (fwd ! i)" using assms(3) by simp
  ultimately obtain j' where j': "j' < i" "map opKey fwd ! j' = opKey (fwd ! j)"
    using deps_first_nth [OF o(3), of i "opKey (fwd ! j)"] by auto
  have "map opKey fwd ! j = opKey (fwd ! j)" "j' < length (map opKey fwd)" "j < length (map opKey fwd)"
    using j'(1) assms(3,4) by simp_all
  with o(2) j'(2) have "j' = j" by (metis nth_eq_iff_index_eq)
  with j'(1) show ?thesis by simp
qed

lemma removal_order:
  assumes "orderRemovals rs ref pa = Inr rem"
    and "distinct (map removedKey rs)"
    and "i < length rem" and "j < length rem" and "rp \<in> set rs" and "ot \<in> set rs"
    and "rem ! i = removeOperation rp" and "rem ! j = removeOperation ot"
    and "needed ref pa (rm_root rp, rm_inst rp) (rm_root ot, rm_inst ot)"
  shows "i < j"
proof -
  define m where "m = map_put_all removedKey (\<lambda>rp. rp) [] rs"
  define deps where "deps = (\<lambda>key. case map_get m key of
      None \<Rightarrow> [] | Some rp \<Rightarrow> removedDependencies m ref pa rp)"
  note o = orderRemovals_ok [OF assms(1), folded m_def]
  have get: "map_get m (removedKey r) = Some r" if "r \<in> set rs" for r
    unfolding m_def by (rule map_get_put_all_distinct [OF assms(2) that])
  have key: "opKey (removeOperation r) = removedKey r" for r
    by (simp add: opKey_def removeOperation_def removedKey_def)
  let ?n = "length rem"
  have ord: "deps_first deps {} (rev (map opKey rem))" using o(4) by (simp add: deps_def)
  have at: "rev (map opKey rem) ! (?n - Suc x) = opKey (rem ! x)" if "x < ?n" for x
    using that by (simp add: rev_nth)
  have "removedKey ot \<in> set (deps (removedKey rp))"
    using assms(9) get [OF assms(5)] get [OF assms(6)]
    by (auto simp: deps_def set_removedDependencies needed_def installedKey_def removedKey_def)
  then have "removedKey ot \<in> set (deps (rev (map opKey rem) ! (?n - Suc i)))"
    using at [OF assms(3)] assms(7) by (simp add: key)
  moreover have "?n - Suc i < length (rev (map opKey rem))" using assms(3) by simp
  ultimately obtain y where
    y: "y < ?n - Suc i" "rev (map opKey rem) ! y = removedKey ot"
    using deps_first_nth [OF ord, of "?n - Suc i" "removedKey ot"] by blast
  have "rev (map opKey rem) ! (?n - Suc j) = removedKey ot"
    using at [OF assms(4)] assms(8) by (simp add: key)
  moreover have "distinct (rev (map opKey rem))" using o(2) by simp
  moreover have "y < length (rev (map opKey rem))" "?n - Suc j < length (rev (map opKey rem))"
    using y(1) assms(3,4) by simp_all
  ultimately have "y = ?n - Suc j"
    using y(2) by (metis nth_eq_iff_index_eq)
  with y(1) assms(3,4) show ?thesis by linarith
qed

subsection \<open>Authorizations\<close>

lemma dedupeFrom_details:
  "set (map au_Detail (dedupeFrom seen as)) = set (map au_Detail as) - set seen"
  "distinct (map au_Detail (dedupeFrom seen as))"
  by (induction seen as rule: dedupeFrom.induct) auto

lemma dedupeAuthorizations_details:
  "set (map au_Detail (dedupeAuthorizations as)) = set (map au_Detail as)"
  "distinct (map au_Detail (dedupeAuthorizations as))"
  using dedupeFrom_details [of "[]" as] by (simp_all add: dedupeAuthorizations_def)

lemma downgrade_guarded:
  assumes "resolveCore reqs inst av ref opts = Inr plan"
    and "op \<in> set (pl_Operations plan)" and "op_Kind op = OpDowngrade"
  shows "o_AllowDowngrade opts \<or>
      (\<exists>req\<in>set reqs. rq_Kind req = Downgrade \<and> worldKey (rq_Root req) (rq_Name req) = opKey op)"
    and "DowngradeDetail (op_Name op) (op_FromVersion op) (op_ToVersion op)
      \<in> au_Detail ` set (pl_Authorizations plan)"
proof -
  obtain w auths notices where ok: "world_ok (set av) (o_PrimaryArch opts) (installedAt inst) w"
    and reg: "no_regression w opts (keysOfKind Downgrade reqs)"
    and plan: "buildPlan w inst ref (o_PrimaryArch opts) = Inr (pl_Operations plan)"
    and auth: "pl_Authorizations plan =
      dedupeAuthorizations (auths @ List.map_filter downgradeAuthorization (pl_Operations plan))"
    by (rule resolveCore_parts [OF assms(1)])
  have "\<lparr>au_Kind = AuthDowngrade, au_Package = op_Name op,
      au_Detail = DowngradeDetail (op_Name op) (op_FromVersion op) (op_ToVersion op)\<rparr>
      \<in> set (List.map_filter downgradeAuthorization (pl_Operations plan))"
    using assms(2,3) by (auto simp: map_filter_set downgradeAuthorization_def intro!: bexI [of _ op])
  then have "DowngradeDetail (op_Name op) (op_FromVersion op) (op_ToVersion op)
      \<in> set (map au_Detail (auths @ List.map_filter downgradeAuthorization (pl_Operations plan)))"
    by force
  then show "DowngradeDetail (op_Name op) (op_FromVersion op) (op_ToVersion op)
      \<in> au_Detail ` set (pl_Authorizations plan)"
    using dedupeAuthorizations_details(1) auth by (metis set_map)
  obtain rem fwd where ops: "pl_Operations plan = rem @ fwd"
    and rem: "orderRemovals (removedFrom w inst) ref (o_PrimaryArch opts) = Inr rem"
    and fwd: "set fwd = set (forwardOperations w)"
    by (rule buildPlan_parts [OF plan ok])
  have "op \<notin> set rem"
    using orderRemovals_ok(3) [OF rem, of op] assms(3) by (auto simp: removeOperation_def)
  with assms(2) ops fwd obtain k p where p: "map_get w k = Some p" "forwardOperation p = Some op"
    by (auto simp: forwardOperations_mem)
  then obtain c v where "pk_candidate p = Some c" "pk_installedVersion p = Some v"
    "Compare (c_Version c) v = - 1"
    using assms(3) by (auto simp: forwardOperation_def Let_def split: option.splits if_splits)
  with reg p(1) have "o_AllowDowngrade opts \<or> k \<in> set (keysOfKind Downgrade reqs)"
    by (force simp: no_regression_def)
  moreover have "k = opKey op"
    using ok p by (simp add: world_ok_def pkg_ok_def forwardOperation_key [OF p(2)])
  ultimately show "o_AllowDowngrade opts \<or>
      (\<exists>req\<in>set reqs. rq_Kind req = Downgrade \<and> worldKey (rq_Root req) (rq_Name req) = opKey op)"
    by (auto simp: keysOfKind_def)
qed

text \<open>What succession takes out of the world, and who has to agree.\<close>

lemma applyReplaces_gone:
  assumes "applyReplaces w auths = (w', auths')" and "map_get w k \<noteq> None" and "map_get w' k = None"
  obtains j p c r victim v where "map_get w j = Some p" and "pk_candidate p = Some c"
    and "r \<in> set (c_Replaces c)" and "k = worldKey (pk_root p) (r_Name r)"
    and "map_get w k = Some victim" and "pk_installedVersion victim = Some v"
    and "Matches (r_Constraint r) v"
    and "pk_installedRepo victim \<noteq> [] \<Longrightarrow> pk_installedRepoPriority victim < c_RepoPriority c \<Longrightarrow>
      \<exists>a\<in>set auths'. au_Kind a = AuthForeignReplaces \<and> au_Package a = pk_name p"
proof -
  define gone where "gone = concat (map (supersededBy w \<circ> snd) (map_entries w))"
  have w': "w' = foldl map_del w (map fst gone)" and a': "auths' = auths @ concat (map snd gone)"
    using assms(1) by (auto simp: applyReplaces_def gone_def Let_def)
  have "k \<in> fst ` set gone"
    using assms(2,3) by (auto simp: w' gomap.get_del_all restrict_map_def split: if_splits)
  then obtain as where "(k, as) \<in> set gone" by auto
  then obtain j p where p: "map_get w j = Some p" and "(k, as) \<in> set (supersededBy w p)"
    by (auto simp: gone_def map_entries_mem)
  then obtain c r where c: "pk_candidate p = Some c" and r: "r \<in> set (c_Replaces c)"
    and rep: "replacedBy w p c r = Some (k, as)"
    by (cases "pk_candidate p") (auto simp: supersededBy_def map_filter_set)
  from rep obtain victim v where
    v: "k = worldKey (pk_root p) (r_Name r)" "map_get w k = Some victim"
      "pk_installedVersion victim = Some v" "Matches (r_Constraint r) v"
    by (auto simp: replacedBy_def Let_def split: option.splits if_splits)
  have "\<exists>a\<in>set auths'. au_Kind a = AuthForeignReplaces \<and> au_Package a = pk_name p"
    if "pk_installedRepo victim \<noteq> []" and "pk_installedRepoPriority victim < c_RepoPriority c"
  proof -
    have "\<exists>a\<in>set as. au_Kind a = AuthForeignReplaces \<and> au_Package a = pk_name p"
      using rep v that by (auto simp: replacedBy_def Let_def split: if_splits)
    moreover have "set as \<subseteq> set auths'" using \<open>(k, as) \<in> set gone\<close> by (force simp: a')
    ultimately show ?thesis by blast
  qed
  with that [OF p c r v] show thesis .
qed

subsection \<open>Nothing to do\<close>

lemma map_filter_None: "(\<And>x. x \<in> set xs \<Longrightarrow> f x = None) \<Longrightarrow> List.map_filter f xs = []"
  by (induction xs) (simp_all add: List.map_filter_simps)

lemma keep_world:
  assumes "\<And>k p. map_get w k = Some p \<Longrightarrow> pk_candidate p = None"
  shows "applyReplaces w auths = (w, auths)" and "forwardOperations w = []"
    and "no_regression w opts da"
proof -
  have "supersededBy w p = []" if "(k, p) \<in> set (map_entries w)" for k p
    using assms that by (simp add: map_entries_mem supersededBy_def)
  then have "concat (map (supersededBy w \<circ> snd) (map_entries w)) = []" by auto
  note none = this
  show "applyReplaces w auths = (w, auths)" unfolding applyReplaces_def Let_def none by simp
  show "forwardOperations w = []"
    unfolding forwardOperations_def
    by (rule map_filter_None) (use assms in \<open>auto simp: map_entries_mem forwardOperation_def\<close>)
  show "no_regression w opts da"
    using assms by (fastforce simp: no_regression_def)
qed

lemma initialWorld_candidates: "map_get (initialWorld inst) k = Some p \<Longrightarrow> pk_candidate p = None"
  by (auto simp: initialWorld_get initialPkg_def)

lemma removedFrom_initial: "removedFrom (initialWorld inst) inst = []"
proof -
  have "removedKey ` set (removedFrom (initialWorld inst) inst) = {}"
    unfolding removedFrom_keys initialWorld_None by blast
  then show ?thesis by simp
qed

lemma resolve_nothing:
  "resolveCore [] inst av ref opts =
     (case checkConsistency (initialWorld inst) ref opts [] of
        Inl e \<Rightarrow> Inl e
      | Inr _ \<Rightarrow> Inr \<lparr>pl_Operations = [], pl_Authorizations = [], pl_Notices = []\<rparr>)"
proof -
  note keep = keep_world [of "initialWorld inst", OF initialWorld_candidates]
  have "buildPlan (initialWorld inst) inst ref (o_PrimaryArch opts) = Inr []"
    by (simp add: buildPlan_def keep removedFrom_initial orderRemovals_def orderForward_def
        topoSort_def Let_def List.map_filter_simps)
  then show ?thesis
    by (simp add: resolveCore_def resolveWorld_def Let_def keysOfKind_def applyRemovals_def
        resolveForward_def keep dedupeAuthorizations_def List.map_filter_simps split: sum.split)
qed

subsection \<open>No resolution ends for lack of fuel\<close>

lemma each_res_fails: "each_res f xs = Inl e \<Longrightarrow> \<exists>x\<in>set xs. f x = Inl e"
  by (induction xs) (auto split: sum.splits)

lemma reject_fuel [simp]: "reject r d \<noteq> Inl SortFuel"
  by (simp add: reject_def)

lemma fold_res_fuel:
  "(\<And>x s. f x s \<noteq> Inl SortFuel) \<Longrightarrow> fold_res f xs s \<noteq> Inl SortFuel"
  by (induction xs arbitrary: s) (auto split: sum.splits)

lemma cascade_fuel: "cascade ref opts w \<noteq> Inl SortFuel"
proof (induction ref opts w rule: cascade.induct)
  case (1 ref opts w)
  then show ?case
    by (auto simp: cascade.simps [of ref opts w] split: prod.splits)
qed

lemma applyRemovals_fuel: "applyRemovals w ts ref opts \<noteq> Inl SortFuel"
proof -
  have "fold_res removeTarget ts w \<noteq> Inl SortFuel"
    by (rule fold_res_fuel) (simp add: removeTarget_def split: option.split)
  then show ?thesis
    by (cases "fold_res removeTarget ts w") (auto simp: applyRemovals_def cascade_fuel)
qed

lemma applyGoal_fuel: "applyGoal req w idx opts \<noteq> Inl SortFuel"
proof -
  have "fold_res (upgradeTarget idx opts n) ks st \<noteq> Inl SortFuel" for n ks st
    by (rule fold_res_fuel) (simp add: upgradeTarget_def split: option.split)
  note up = this
  show ?thesis
  proof (cases "rq_Kind req")
    case Upgrade
    define ks where "ks = (if rq_Name req \<noteq> [] then [worldKey (rq_Root req) (rq_Name req)] else map_keys w)"
    show ?thesis
      using up [of "rq_Name req" ks "(w, [])"] Upgrade
      by (cases "fold_res (upgradeTarget idx opts (rq_Name req)) ks (w, [])")
        (simp_all add: applyGoal_def ks_def [symmetric] split: prod.split)
  qed (simp_all add: applyGoal_def Let_def split: option.split sum.split)
qed

lemma forwardLoop_fuel: "forwardLoop idx ref opts steps w wl auths \<noteq> Inl SortFuel"
proof (induction idx ref opts steps w wl auths rule: forwardLoop.induct)
  case (2 idx ref opts steps w key wl auths)
  have "fold_res (resolveDependency idx ref opts pkg) ds st \<noteq> Inl SortFuel" for pkg ds st
    by (rule fold_res_fuel) (simp add: resolveDependency_def split: option.split prod.split)
  with 2 show ?case by (auto split: option.split sum.split)
qed simp

lemma checkConsistency_fuel: "checkConsistency w ref opts da \<noteq> Inl SortFuel"
proof -
  have bind: "rbind m (\<lambda>_. n) \<noteq> Inl SortFuel" if "m \<noteq> Inl SortFuel" "n \<noteq> Inl SortFuel"
    for m n :: "resolveError + unit"
    using that by (cases m) auto
  have each: "each_res f xs \<noteq> Inl SortFuel" if "\<And>x. f x \<noteq> Inl SortFuel"
    for f :: "'x \<Rightarrow> resolveError + unit" and xs
    using each_res_fails [of f xs] that by blast
  have "checkArchitectures w opts \<noteq> Inl SortFuel"
    unfolding checkArchitectures_def by (rule each) (simp split: prod.split)
  moreover have "checkConflicts w opts \<noteq> Inl SortFuel"
    unfolding checkConflicts_def
    by (intro each) (simp split: prod.split, intro allI impI each,
        simp add: checkConflict_def split: prod.split)
  moreover have "checkDependencies w ref opts \<noteq> Inl SortFuel"
    unfolding checkDependencies_def
    by (intro each) (simp split: prod.split, intro allI impI each,
        simp add: checkDependency_def split: option.split)
  moreover have "checkRegressions w opts da \<noteq> Inl SortFuel"
    using each [of "checkRegression da" "map_entries w"]
    by (simp add: checkRegressions_def checkRegression_def split: prod.split option.split)
  ultimately show ?thesis unfolding checkConsistency_def by (intro bind)
qed

lemma topoSort_fuel:
  "(\<And>n. n \<in> set names \<Longrightarrow> set (depsOf n) \<subseteq> set names) \<Longrightarrow> topoSort names depsOf \<noteq> Inl SortFuel"
  using topoSort_fails by fastforce

lemma orderForward_fuel: "orderForward ops w ref pa \<noteq> Inl SortFuel"
  using topoSort_fuel [of "map opKey ops" "planDependencies w (map opKey ops) ref pa"]
  by (auto simp: orderForward_def Let_def set_planDependencies split: sum.split)

lemma orderRemovals_fuel: "orderRemovals rs ref pa \<noteq> Inl SortFuel"
proof -
  define m where "m = map_put_all removedKey (\<lambda>rp. rp) [] rs"
  have "dom (map_get m) = removedKey ` set rs" by (auto simp: m_def map_get_put_all_dom)
  then have "topoSort (map removedKey rs) (\<lambda>key. case map_get m key of
      None \<Rightarrow> [] | Some rp \<Rightarrow> removedDependencies m ref pa rp) \<noteq> Inl SortFuel"
    by (intro topoSort_fuel) (auto simp: set_removedDependencies split: option.splits)
  then show ?thesis
    unfolding orderRemovals_def Let_def m_def by (auto split: sum.split)
qed

lemma resolve_fuel: "resolveCore reqs inst av ref opts \<noteq> Inl SortFuel"
proof -
  have goals: "fold_res (goalStep idx opts) reqs st \<noteq> Inl SortFuel" for idx st
    by (rule fold_res_fuel) (auto simp: goalStep_def applyGoal_fuel split: prod.split sum.split)
  have "buildPlan w inst ref pa \<noteq> Inl SortFuel" for w pa
    by (auto simp: buildPlan_def orderRemovals_fuel orderForward_fuel split: sum.split)
  moreover have "resolveWorld reqs inst av ref opts \<noteq> Inl SortFuel"
    using applyRemovals_fuel goals forwardLoop_fuel checkConsistency_fuel
    by (auto simp: resolveWorld_def resolveForward_def Let_def split: sum.split prod.split)
  ultimately show ?thesis by (auto simp: resolveCore_def split: sum.split prod.split)
qed

end
