(* ===== verification/Authority.thy ===== *)
theory Authority
  imports ResolveFacts
begin

section \<open>What a plan does without being asked\<close>

text \<open>
  A resolution starts from the installed packages, and after the removals no step but
  succession takes a package out of the world. So a removal in the plan was requested, follows
  from a requested one by cascade, or is a succession, with an authorization when the
  replacing package comes from a repository of lower priority.
\<close>

subsection \<open>The passes keep every package\<close>

definition keeps :: "world \<Rightarrow> world \<Rightarrow> bool" where
  "keeps w w' \<longleftrightarrow> dom (map_get w) \<subseteq> dom (map_get w')"

lemma keeps_refl [simp]: "keeps w w"
  by (simp add: keeps_def)

lemma keeps_trans: "keeps u v \<Longrightarrow> keeps v w \<Longrightarrow> keeps u w"
  by (auto simp: keeps_def)

lemma keeps_place [simp]: "keeps w (placeCandidate w c root)"
  by (auto simp: keeps_def place_dom)

lemma keeps_upgrade: "upgradeTarget idx opts name key st = Inr st' \<Longrightarrow> keeps (fst st) (fst st')"
  by (auto simp: upgradeTarget_def reject_def split: option.splits if_splits)

lemma fold_res_keeps:
  assumes "fold_res f xs st = Inr st'" and "\<And>x st st'. f x st = Inr st' \<Longrightarrow> keeps (fst st) (fst st')"
  shows "keeps (fst st) (fst st')"
  using assms(1)
  by (rule fold_res_inv [where P = "\<lambda>s. keeps (fst st) (fst s)"])
     (auto intro: keeps_trans dest: assms(2))

lemma keeps_goal:
  assumes "applyGoal req w idx opts = Inr (w', keys, notices)"
  shows "keeps w w'"
proof (cases "rq_Kind req")
  case Upgrade
  with assms obtain ks where "fold_res (upgradeTarget idx opts (rq_Name req)) ks (w, []) = Inr (w', keys)"
    by (auto simp: applyGoal_def split: sum.splits)
  then have "keeps (fst (w, [] :: string list)) (fst (w', keys))"
    by (rule fold_res_keeps) (rule keeps_upgrade)
  then show ?thesis by simp
qed (use assms in \<open>auto simp: applyGoal_def Let_def reject_def split: option.splits sum.splits\<close>)

lemma keeps_step: "goalStep idx opts req st = Inr st' \<Longrightarrow> keeps (fst st) (fst st')"
  by (auto simp: goalStep_def split: prod.splits sum.splits dest: keeps_goal)

lemma keeps_dependency: "resolveDependency idx ref opts pkg dep st = Inr st' \<Longrightarrow> keeps (fst st) (fst st')"
  by (auto simp: resolveDependency_def reject_def split: prod.splits option.splits if_splits)

lemma keeps_loop: "forwardLoop idx ref opts steps w wl auths = Inr (w', auths') \<Longrightarrow> keeps w w'"
proof (induction idx ref opts steps w wl auths rule: forwardLoop.induct)
  case (2 idx ref opts steps w key wl auths)
  show ?case
  proof (cases "map_get w key")
    case None
    with 2 show ?thesis by (auto simp: reject_def split: if_splits)
  next
    case (Some pkg)
    with "2.prems" obtain st where st: "\<not> maxResolveSteps < Suc steps"
      "fold_res (resolveDependency idx ref opts pkg) (forwardOrder idx (pk_dependencies pkg)) (w, wl, auths) = Inr st"
      "forwardLoop idx ref opts (Suc steps) (fst st) (fst (snd st)) (snd (snd st)) = Inr (w', auths')"
      by (auto simp: reject_def split: if_splits sum.splits)
    have "keeps (fst (w, wl, auths)) (fst st)"
      using st(2) by (rule fold_res_keeps) (rule keeps_dependency)
    with "2.IH"(2) [OF st(1) Some st(2,3)] show ?thesis by (auto intro: keeps_trans)
  qed
qed simp

lemma resolveWorld_passes:
  assumes "resolveWorld reqs inst av ref opts = Inr (w, auths, notices)"
  obtains w1 w3 auths3 where
    "applyRemovals (initialWorld inst) (keysOfKind Remove reqs) ref opts = Inr w1"
    and "keeps w1 w3" and "applyReplaces w3 auths3 = (w, auths)"
    and "world_ok (set av) (o_PrimaryArch opts) (installedAt inst) w3"
proof -
  let ?ok = "world_ok (set av) (o_PrimaryArch opts) (installedAt inst)"
  from assms obtain w1 w2 goals w3 auths3 where
    1: "applyRemovals (initialWorld inst) (keysOfKind Remove reqs) ref opts = Inr w1"
    and 2: "fold_res (goalStep (buildIndex av) opts) reqs (w1, [], []) = Inr (w2, goals, notices)"
    and 3: "forwardLoop (buildIndex av) ref opts 0 w2 goals [] = Inr (w3, auths3)"
    and 4: "applyReplaces w3 auths3 = (w, auths)"
    by (auto simp: resolveWorld_def Let_def resolveForward_def split: sum.splits prod.splits)
  have "keeps (fst (w1, [] :: string list, [] :: Notice list)) (fst (w2, goals, notices))"
    using 2 by (rule fold_res_keeps) (rule keeps_step)
  with keeps_loop [OF 3] have "keeps w1 w3" by (auto intro: keeps_trans)
  have "?ok w1" using initialWorld_ok applyRemovals_sub [OF 1] by (rule world_ok_submap)
  have "?ok (fst (w2, goals, notices))"
    using 2 by (rule fold_res_inv) (use \<open>?ok w1\<close> in \<open>auto dest: goalStep_ok\<close>)
  then have "?ok w3" using 3 by (auto dest: forwardLoop_ok)
  with that [OF 1 \<open>keeps w1 w3\<close> 4] show thesis .
qed

subsection \<open>Why a package is removed\<close>

definition requested :: "Request list \<Rightarrow> RequestKind \<Rightarrow> string \<Rightarrow> bool" where
  "requested reqs kind key \<longleftrightarrow>
     (\<exists>req\<in>set reqs. rq_Kind req = kind \<and> worldKey (rq_Root req) (rq_Name req) = key)"

lemma keysOfKind_mem: "key \<in> set (keysOfKind kind reqs) \<longleftrightarrow> requested reqs kind key"
  by (auto simp: keysOfKind_def requested_def)

text \<open>
  \<open>i\<close> at \<open>key\<close> is replaced by the available package \<open>c\<close>, and if that
  comes from a repository of lower priority (a greater number), one of \<open>details\<close> says so.
\<close>

definition replaced_with_consent :: "Candidate list \<Rightarrow> AuthDetail set \<Rightarrow> string \<Rightarrow> Installed \<Rightarrow> bool" where
  "replaced_with_consent available details key i \<longleftrightarrow>
     (\<exists>c\<in>set available. \<exists>r\<in>set (c_Replaces c). \<exists>root. key = worldKey root (r_Name r) \<and>
        Matches (r_Constraint r) (i_Version i) \<and>
        (i_Repo i \<noteq> [] \<and> i_RepoPriority i < c_RepoPriority c \<longrightarrow>
           (if i_Orphaned i
            then OrphanDetail (c_Name c) (c_Repo c) (c_RepoPriority c) (r_Name r) (i_Repo i)
            else ForeignDetail (c_Name c) (c_Repo c) (c_RepoPriority c) (r_Name r) (i_Repo i)
                   (i_RepoPriority i)) \<in> details))"

lemma consent_mono:
  "replaced_with_consent av d k i \<Longrightarrow> d \<subseteq> d' \<Longrightarrow> replaced_with_consent av d' k i"
  unfolding replaced_with_consent_def by (meson subsetD)

lemma replacedBy_consent:
  assumes "replacedBy w p c r = Some (k, as)" and "pkg_ok (set av) pa inst j p"
    and "pk_candidate p = Some c" and "r \<in> set (c_Replaces c)"
    and "world_ok (set av) pa inst w"
  shows "\<exists>i. inst k = Some i \<and> replaced_with_consent av (au_Detail ` set as) k i"
proof -
  from assms(1) obtain victim v where
    v: "k = worldKey (pk_root p) (r_Name r)" "map_get w k = Some victim"
      "pk_installedVersion victim = Some v" "Matches (r_Constraint r) v"
    by (auto simp: replacedBy_def Let_def split: option.splits if_splits)
  from assms(5) v(2,3) obtain i where i: "inst k = Some i" "i_Version i = v"
      "pk_installedRepo victim = i_Repo i" "pk_installedRepoPriority victim = i_RepoPriority i"
      "pk_installedOrphaned victim = i_Orphaned i"
    unfolding world_ok_def pkg_ok_def by blast
  have c: "c \<in> set av" "pk_name p = c_Name c"
    using assms(2,3) by (simp_all add: pkg_ok_def from_candidate_def)
  have "replaced_with_consent av (au_Detail ` set as) k i"
    unfolding replaced_with_consent_def
  proof (rule bexI [OF _ c(1)], rule bexI [OF _ assms(4)], rule exI [of _ "pk_root p"], intro conjI impI)
    show "k = worldKey (pk_root p) (r_Name r)" by (fact v(1))
    show "Matches (r_Constraint r) (i_Version i)" using v(4) i(2) by simp
    assume "i_Repo i \<noteq> [] \<and> i_RepoPriority i < c_RepoPriority c"
    then show "(if i_Orphaned i
            then OrphanDetail (c_Name c) (c_Repo c) (c_RepoPriority c) (r_Name r) (i_Repo i)
            else ForeignDetail (c_Name c) (c_Repo c) (c_RepoPriority c) (r_Name r) (i_Repo i)
                   (i_RepoPriority i)) \<in> au_Detail ` set as"
      using assms(1) v i c(2) by (auto simp: replacedBy_def Let_def)
  qed
  with i(1) show ?thesis by blast
qed

lemma applyReplaces_consent:
  assumes "applyReplaces w auths = (w', auths')" and "world_ok (set av) pa inst w"
    and "map_get w k \<noteq> None" and "map_get w' k = None"
  shows "\<exists>i. inst k = Some i \<and> replaced_with_consent av (au_Detail ` set auths') k i"
proof -
  define gone where "gone = concat (map (supersededBy w \<circ> snd) (map_entries w))"
  have w': "w' = foldl map_del w (map fst gone)" and a': "auths' = auths @ concat (map snd gone)"
    using assms(1) by (auto simp: applyReplaces_def gone_def Let_def)
  have "k \<in> fst ` set gone"
    using assms(3,4) by (auto simp: w' gomap.get_del_all restrict_map_def split: if_splits)
  then obtain as where as: "(k, as) \<in> set gone" by auto
  then obtain j p where p: "map_get w j = Some p" and "(k, as) \<in> set (supersededBy w p)"
    by (auto simp: gone_def map_entries_mem)
  then obtain c r where c: "pk_candidate p = Some c" and r: "r \<in> set (c_Replaces c)"
    and rep: "replacedBy w p c r = Some (k, as)"
    by (cases "pk_candidate p") (auto simp: supersededBy_def map_filter_set)
  have "pkg_ok (set av) pa inst j p" using assms(2) p by (simp add: world_ok_def)
  from replacedBy_consent [OF rep this c r assms(2)] obtain i where
    i: "inst k = Some i" "replaced_with_consent av (au_Detail ` set as) k i" by blast
  have "au_Detail ` set as \<subseteq> au_Detail ` set auths'" using as by (force simp: a')
  with i consent_mono show ?thesis by blast
qed

lemma applyRemovals_uncascaded:
  assumes "applyRemovals w ts ref opts = Inr w'" and "map_get w k \<noteq> None" and "map_get w' k = None"
  shows "k \<in> set ts \<or> o_CascadeRemovals opts \<and> ts \<noteq> []"
proof (cases "ts = []")
  case True
  with assms show ?thesis by (simp add: applyRemovals_def)
next
  case False
  with assms(1) obtain v where v: "fold_res removeTarget ts w = Inr v" "cascade ref opts v = Inr w'"
    by (auto simp: applyRemovals_def result_simps)
  show ?thesis
  proof (rule ccontr)
    assume no: "\<not> ?thesis"
    with False v(2) cascade_off have "w' = v" by blast
    with removeTargets_get [OF v(1)] no assms(2,3) show False by (auto simp: restrict_map_def)
  qed
qed

lemma removal_justified:
  assumes "resolveCore reqs inst av ref opts = Inr plan"
    and "op \<in> set (pl_Operations plan)" and "op_Kind op = OpRemove"
  shows "requested reqs Remove (opKey op)
    \<or> o_CascadeRemovals opts \<and> (\<exists>key. requested reqs Remove key)
    \<or> (\<exists>i. installedAt inst (opKey op) = Some i \<and>
         replaced_with_consent av (au_Detail ` set (pl_Authorizations plan)) (opKey op) i)"
proof -
  obtain w auths notices where res: "resolveWorld reqs inst av ref opts = Inr (w, auths, notices)"
    and plan: "buildPlan w inst ref (o_PrimaryArch opts) = Inr (pl_Operations plan)"
    and auth: "pl_Authorizations plan =
      dedupeAuthorizations (auths @ List.map_filter downgradeAuthorization (pl_Operations plan))"
    and ok: "world_ok (set av) (o_PrimaryArch opts) (installedAt inst) w"
    by (rule resolveCore_parts [OF assms(1)])
  obtain w1 w3 auths3 where
    1: "applyRemovals (initialWorld inst) (keysOfKind Remove reqs) ref opts = Inr w1"
    and 2: "keeps w1 w3" and 3: "applyReplaces w3 auths3 = (w, auths)"
    and ok3: "world_ok (set av) (o_PrimaryArch opts) (installedAt inst) w3"
    by (rule resolveWorld_passes [OF res])
  obtain rem fwd where ops: "pl_Operations plan = rem @ fwd" "set fwd = set (forwardOperations w)"
    and rem: "opKey ` set rem = {k. installedAt inst k \<noteq> None \<and> map_get w k = None}"
    by (rule buildPlan_parts [OF plan ok])
  have "op \<in> set rem"
    using assms(2,3) forwardOperation_kind by (auto simp: ops forwardOperations_mem)
  then have k: "installedAt inst (opKey op) \<noteq> None" "map_get w (opKey op) = None"
    using rem by blast+
  show ?thesis
  proof (cases "map_get w1 (opKey op)")
    case (Some p)
    with 2 have "map_get w3 (opKey op) \<noteq> None" by (auto simp: keeps_def)
    from applyReplaces_consent [OF 3 ok3 this k(2)] obtain i where
      i: "installedAt inst (opKey op) = Some i"
        "replaced_with_consent av (au_Detail ` set auths) (opKey op) i" by blast
    have "au_Detail ` set auths \<subseteq> au_Detail ` set (pl_Authorizations plan)"
      unfolding auth set_map [symmetric] dedupeAuthorizations_details(1) by auto
    with i consent_mono show ?thesis by blast
  next
    case None
    have "map_get (initialWorld inst) (opKey op) \<noteq> None" using k(1) by (simp add: initialWorld_None)
    from applyRemovals_uncascaded [OF 1 this None] show ?thesis
      by (auto simp: neq_Nil_conv simp flip: keysOfKind_mem)
  qed
qed

subsection \<open>The order of a whole plan\<close>

lemma removedFrom_map:
  "removedFrom w inst = map (\<lambda>ri. \<lparr>rm_root = fst ri, rm_inst = snd ri\<rparr>)
     (filter (\<lambda>ri. map_get w (installedKey ri) = None) (installedList inst))"
proof -
  have "concat (map (\<lambda>(root, insts). map (\<lambda>i. \<lparr>rm_root = root, rm_inst = i\<rparr>)
          (filter (\<lambda>i. map_get w (worldKey root (i_Name i)) = None) insts)) es) =
      map (\<lambda>ri. \<lparr>rm_root = fst ri, rm_inst = snd ri\<rparr>)
        (filter (\<lambda>ri. map_get w (installedKey ri) = None) (concat (map (\<lambda>(root, insts). map (Pair root) insts) es)))"
    for es
    by (induction es) (auto simp: filter_map o_def installedKey_def)
  then show ?thesis by (simp add: removedFrom_def installedList_def)
qed

lemma removedFrom_mem:
  "rp \<in> set (removedFrom w inst) \<longleftrightarrow>
     (rm_root rp, rm_inst rp) \<in> set (installedList inst) \<and> map_get w (removedKey rp) = None"
proof -
  have "rp = \<lparr>rm_root = fst ri, rm_inst = snd ri\<rparr> \<longleftrightarrow> ri = (rm_root rp, rm_inst rp)" for ri
    by (cases rp; cases ri) auto
  then show ?thesis
    unfolding removedFrom_map by (auto simp: image_iff removedKey_def installedKey_def)
qed

lemma removedFrom_distinct:
  assumes "distinct (map installedKey (installedList inst))"
  shows "distinct (map removedKey (removedFrom w inst))"
proof -
  have "map removedKey (removedFrom w inst) =
      map installedKey (filter (\<lambda>ri. map_get w (installedKey ri) = None) (installedList inst))"
    unfolding removedFrom_map by (simp add: o_def removedKey_def installedKey_def)
  with assms show ?thesis by (simp only: distinct_map_filter)
qed

lemma plan_order:
  assumes "resolveCore reqs inst av ref opts = Inr plan"
    and "distinct (map installedKey (installedList inst))"
  shows "\<exists>w rem fwd. pl_Operations plan = rem @ fwd \<and>
    world_ok (set av) (o_PrimaryArch opts) (installedAt inst) w \<and>
    reaches (applyOperations (pl_Operations plan) (installedVersions inst)) w \<and>
    (\<forall>op\<in>set rem. op_Kind op = OpRemove) \<and> (\<forall>op\<in>set fwd. op_Kind op \<noteq> OpRemove) \<and>
    (\<forall>i j ri ot. i < length rem \<and> j < length rem \<and>
       ri \<in> set (installedList inst) \<and> ot \<in> set (installedList inst) \<and>
       opKey (rem ! i) = installedKey ri \<and> opKey (rem ! j) = installedKey ot \<and>
       needed ref (o_PrimaryArch opts) ri ot \<longrightarrow> i < j) \<and>
    (\<forall>i j. i < length fwd \<and> j < length fwd \<and>
       depends_on w ref (o_PrimaryArch opts) (opKey (fwd ! i)) (opKey (fwd ! j)) \<longrightarrow> j < i)"
proof -
  obtain w where plan: "buildPlan w inst ref (o_PrimaryArch opts) = Inr (pl_Operations plan)"
    and ok: "world_ok (set av) (o_PrimaryArch opts) (installedAt inst) w"
    by (rule resolveCore_parts [OF assms(1)])
  note r = plan_reaches_world [OF plan ok]
  have reach: "reaches (applyOperations (pl_Operations plan) (installedVersions inst)) w"
    using r by (auto simp: reaches_def split: option.split)
  obtain rem fwd where ops: "pl_Operations plan = rem @ fwd"
    and rem: "orderRemovals (removedFrom w inst) ref (o_PrimaryArch opts) = Inr rem"
    and fwd: "orderForward (forwardOperations w) w ref (o_PrimaryArch opts) = Inr fwd"
      "set fwd = set (forwardOperations w)"
    by (rule buildPlan_parts [OF plan ok])
  note dist = removedFrom_distinct [OF assms(2), of w]
  have kind: "op_Kind op = OpRemove" if "op \<in> set rem" for op
    using orderRemovals_ok(3) [OF rem that] by (auto simp: removeOperation_def)
  have kind': "op_Kind op \<noteq> OpRemove" if "op \<in> set fwd" for op
    using that forwardOperation_kind by (auto simp: fwd(2) forwardOperations_mem)
  have rp: "\<exists>rp\<in>set (removedFrom w inst). rem ! i = removeOperation rp \<and> (rm_root rp, rm_inst rp) = ri"
    if "i < length rem" "ri \<in> set (installedList inst)" "opKey (rem ! i) = installedKey ri" for i ri
  proof -
    have "rem ! i \<in> set rem" using that(1) by (rule nth_mem)
    with orderRemovals_ok(3) [OF rem] obtain rp
      where rp: "rp \<in> set (removedFrom w inst)" "rem ! i = removeOperation rp" by blast
    have "installedKey (rm_root rp, rm_inst rp) = installedKey ri"
      using that(3) rp(2) by (simp add: opKey_def removeOperation_def installedKey_def)
    moreover have "(rm_root rp, rm_inst rp) \<in> set (installedList inst)"
      using rp(1) by (simp add: removedFrom_mem)
    ultimately have "(rm_root rp, rm_inst rp) = ri"
      using assms(2) that(2) by (auto simp: distinct_map dest: inj_onD)
    with rp show ?thesis by blast
  qed
  have "i < j" if "i < length rem" "j < length rem" "ri \<in> set (installedList inst)"
      "ot \<in> set (installedList inst)" "opKey (rem ! i) = installedKey ri"
      "opKey (rem ! j) = installedKey ot" "needed ref (o_PrimaryArch opts) ri ot" for i j ri ot
    using rp [OF that(1,3,5)] rp [OF that(2,4,6)] removal_order [OF rem dist that(1,2)] that(7)
    by metis
  moreover have "j < i" if "i < length fwd" "j < length fwd"
      "depends_on w ref (o_PrimaryArch opts) (opKey (fwd ! i)) (opKey (fwd ! j))" for i j
    using forward_order [OF fwd(1) ok] that by blast
  ultimately show ?thesis using ops ok reach kind kind' by blast
qed

end
