(* ===== verification/Preference.thy ===== *)
theory Preference
  imports Select
begin

section \<open>The preferred candidate\<close>

text \<open>
  \<open>morePreferred\<close> is not transitive on all matches: between two packages of one name it
  looks at versions, between two names at the architecture first. On the matches of one name
  and on one match per name it is the strict part of a three-way comparison, provided that
  every candidate of the depending package's repository carries that repository's priority.
  That is enough for \<^const>\<open>pickBest\<close> to find a best one.
\<close>

definition coherent :: "string \<Rightarrow> int \<Rightarrow> match \<Rightarrow> bool" where
  "coherent dependerRepo dependerPriority m \<longleftrightarrow>
     (dependerRepo \<noteq> [] \<and> c_Repo (ma_cand m) = dependerRepo \<longrightarrow>
        c_RepoPriority (ma_cand m) = dependerPriority)"

subsection \<open>Comparisons\<close>

definition prio_cmp :: "match \<Rightarrow> match \<Rightarrow> int" where
  "prio_cmp a b = cmp_compare (c_RepoPriority (ma_cand a)) (c_RepoPriority (ma_cand b))"

definition repo_rank :: "string \<Rightarrow> match \<Rightarrow> int" where
  "repo_rank dependerRepo m = (if dependerRepo \<noteq> [] \<and> c_Repo (ma_cand m) = dependerRepo then 0 else 1)"

definition arch_rank :: "string \<Rightarrow> match \<Rightarrow> int" where
  "arch_rank primaryArch m = (if c_Architecture (ma_cand m) = primaryArch then 0 else 1)"

definition opt_version_cmp :: "version option \<Rightarrow> version option \<Rightarrow> int" where
  "opt_version_cmp a b =
     (case (a, b) of
        (Some _, None) \<Rightarrow> - 1
      | (None, Some _) \<Rightarrow> 1
      | (Some v, Some w) \<Rightarrow> Compare w v
      | (None, None) \<Rightarrow> 0)"

definition same_name_cmp :: "string \<Rightarrow> string \<Rightarrow> match \<Rightarrow> match \<Rightarrow> int" where
  "same_name_cmp primaryArch dependerRepo =
     then_cmp prio_cmp
     (then_cmp (\<lambda>a b. cmp_compare (repo_rank dependerRepo a) (repo_rank dependerRepo b))
     (then_cmp (\<lambda>a b. opt_version_cmp (ma_roleVer a) (ma_roleVer b))
     (then_cmp (\<lambda>a b. Compare (c_Version (ma_cand b)) (c_Version (ma_cand a)))
     (then_cmp (\<lambda>a b. cmp_compare (arch_rank primaryArch a) (arch_rank primaryArch b))
               (\<lambda>a b. cmp_compare (c_Repo (ma_cand a)) (c_Repo (ma_cand b)))))))"

definition cross_name_cmp :: "string \<Rightarrow> string \<Rightarrow> match \<Rightarrow> match \<Rightarrow> int" where
  "cross_name_cmp primaryArch dependerRepo =
     then_cmp (\<lambda>a b. cmp_compare (arch_rank primaryArch a) (arch_rank primaryArch b))
     (then_cmp prio_cmp
     (then_cmp (\<lambda>a b. cmp_compare (repo_rank dependerRepo a) (repo_rank dependerRepo b))
     (then_cmp (\<lambda>a b. opt_version_cmp (ma_roleVer a) (ma_roleVer b))
               (\<lambda>a b. cmp_compare (c_Name (ma_cand a)) (c_Name (ma_cand b))))))"

lemma three_way_refl: "three_way cmp \<Longrightarrow> cmp a a = 0"
  using three_way.cmp_swap [of cmp a a] by linarith

lemma three_way_flip: "three_way c \<Longrightarrow> three_way (\<lambda>a b. c b a)"
  unfolding three_way_def by blast

interpretation opt_cmp: three_way opt_version_cmp
proof
  fix a b c :: "version option"
  show "opt_version_cmp a b \<in> {- 1, 0, 1}"
    using version_cmp.cmp_sign by (auto simp: opt_version_cmp_def split: option.split)
  show "opt_version_cmp b a = - opt_version_cmp a b"
    using version_cmp.cmp_swap [of "the a" "the b"]
    by (cases a; cases b) (simp_all add: opt_version_cmp_def)
  show "opt_version_cmp a b \<le> 0 \<Longrightarrow> opt_version_cmp b c \<le> 0 \<Longrightarrow> opt_version_cmp a c \<le> 0"
    using version_cmp.cmp_trans [of "the c" "the b" "the a"]
    by (cases a; cases b; cases c) (auto simp: opt_version_cmp_def)
qed

lemma three_way_prio: "three_way prio_cmp"
  unfolding prio_cmp_def
  by (rule three_way_key [where f = "\<lambda>m. c_RepoPriority (ma_cand m)", OF ord_cmp.three_way_axioms])

interpretation same_cmp: three_way "same_name_cmp primaryArch dependerRepo"
  unfolding same_name_cmp_def
  by (intro three_way_then three_way_prio
      three_way_key [where f = "repo_rank dependerRepo", OF ord_cmp.three_way_axioms]
      three_way_key [where f = ma_roleVer, OF opt_cmp.three_way_axioms]
      three_way_flip [OF three_way_key [where f = "\<lambda>m. c_Version (ma_cand m)", OF version_cmp.three_way_axioms]]
      three_way_key [where f = "arch_rank primaryArch", OF ord_cmp.three_way_axioms]
      three_way_key [where f = "\<lambda>m. c_Repo (ma_cand m)", OF ord_cmp.three_way_axioms])

interpretation cross_cmp: three_way "cross_name_cmp primaryArch dependerRepo"
  unfolding cross_name_cmp_def
  by (intro three_way_then three_way_prio
      three_way_key [where f = "repo_rank dependerRepo", OF ord_cmp.three_way_axioms]
      three_way_key [where f = ma_roleVer, OF opt_cmp.three_way_axioms]
      three_way_key [where f = "arch_rank primaryArch", OF ord_cmp.three_way_axioms]
      three_way_key [where f = "\<lambda>m. c_Name (ma_cand m)", OF ord_cmp.three_way_axioms])

subsection \<open>\<open>morePreferred\<close> on these\<close>

lemma roleRule_cmp:
  "roleRule a b = (if opt_version_cmp a b \<noteq> 0 then Some (opt_version_cmp a b < 0) else None)"
  using version_cmp.cmp_swap [of "the a" "the b"]
  by (cases a; cases b) (auto simp: roleRule_def opt_version_cmp_def Let_def)

lemma archRule_cmp:
  "archRule (ma_cand a) (ma_cand b) pa =
     (if cmp_compare (arch_rank pa a) (arch_rank pa b) \<noteq> 0
      then Some (cmp_compare (arch_rank pa a) (arch_rank pa b) < 0) else None)"
  by (auto simp: archRule_def arch_rank_def Let_def)

lemma repo_then_priority:
  assumes "coherent dr dp a" and "coherent dr dp b"
  shows "(case sameRepoRule (ma_cand a) (ma_cand b) dr dp of
            Some r \<Rightarrow> r
          | None \<Rightarrow> if c_RepoPriority (ma_cand a) \<noteq> c_RepoPriority (ma_cand b)
                     then c_RepoPriority (ma_cand a) < c_RepoPriority (ma_cand b) else rest) \<longleftrightarrow>
    (if prio_cmp a b \<noteq> 0 then prio_cmp a b < 0
     else if cmp_compare (repo_rank dr a) (repo_rank dr b) \<noteq> 0
     then cmp_compare (repo_rank dr a) (repo_rank dr b) < 0 else rest)"
  using assms
  by (cases "c_RepoPriority (ma_cand a)" "c_RepoPriority (ma_cand b)" rule: linorder_cases)
     (auto simp: coherent_def sameRepoRule_def prio_cmp_def repo_rank_def Let_def)

lemma morePreferred_same:
  assumes "coherent dr dp a" and "coherent dr dp b" and "c_Name (ma_cand a) = c_Name (ma_cand b)"
  shows "morePreferred a b pa dr dp \<longleftrightarrow> same_name_cmp pa dr a b < 0"
proof -
  have swap: "Compare (c_Version (ma_cand b)) (c_Version (ma_cand a))
      = - Compare (c_Version (ma_cand a)) (c_Version (ma_cand b))"
    by (rule version_cmp.cmp_swap)
  show ?thesis
    using assms(3) unfolding morePreferred_def Let_def
    by (simp add: repo_then_priority [OF assms(1,2)] roleRule_cmp sameNameRule_def archRule_cmp Let_def
        same_name_cmp_def then_cmp_def swap)
qed

lemma morePreferred_cross:
  assumes "coherent dr dp a" and "coherent dr dp b" and "c_Name (ma_cand a) \<noteq> c_Name (ma_cand b)"
  shows "morePreferred a b pa dr dp \<longleftrightarrow> cross_name_cmp pa dr a b < 0"
  using assms(3) unfolding morePreferred_def Let_def
  by (simp add: repo_then_priority [OF assms(1,2)] roleRule_cmp sameNameRule_def archRule_cmp
      cross_name_cmp_def then_cmp_def)

subsection \<open>The choice\<close>

abbreviation name_of :: "match \<Rightarrow> string" where
  "name_of m \<equiv> c_Name (ma_cand m)"

lemma absorb_names:
  "set (map name_of (absorb pref ps m)) = insert (name_of m) (set (map name_of ps))"
  "distinct (map name_of ps) \<Longrightarrow> distinct (map name_of (absorb pref ps m))"
proof -
  show s: "set (map name_of (absorb pref ps m)) = insert (name_of m) (set (map name_of ps))" for ps
    by (induction pref ps m rule: absorb.induct) auto
  show "distinct (map name_of ps) \<Longrightarrow> distinct (map name_of (absorb pref ps m))"
  proof (induction ps)
    case (Cons p ps)
    with s [of ps] show ?case by auto
  qed simp
qed

text \<open>Each match seen so far is represented by one of its name that is at least as good.\<close>

definition represented :: "(match \<Rightarrow> match \<Rightarrow> int) \<Rightarrow> match list \<Rightarrow> match \<Rightarrow> bool" where
  "represented cmp ps m \<longleftrightarrow> (\<exists>r\<in>set ps. name_of r = name_of m \<and> cmp r m \<le> 0)"

lemma represented_Cons: "represented cmp ps m \<Longrightarrow> represented cmp (p # ps) m"
  by (auto simp: represented_def)

lemma absorb_represents:
  assumes c: "three_way cmp"
    and pref: "\<And>p. p \<in> set ps \<Longrightarrow> name_of p = name_of m \<Longrightarrow> pref m p \<longleftrightarrow> cmp m p < 0"
  shows "represented cmp (absorb pref ps m) m"
    and "represented cmp ps x \<Longrightarrow> represented cmp (absorb pref ps m) x"
proof -
  have refl: "cmp m m \<le> 0" using three_way_refl [OF c] by simp
  show "represented cmp (absorb pref ps m) m"
    using pref
  proof (induction ps)
    case Nil
    with refl show ?case by (simp add: represented_def)
  next
    case (Cons p ps)
    have IH: "represented cmp (absorb pref ps m) m" using Cons.prems by (intro Cons.IH) simp
    show ?case
    proof (cases "name_of p = name_of m")
      case True
      then have "pref m p \<or> cmp p m \<le> 0"
        using Cons.prems [of p] three_way.cmp_swap [OF c, of m p] by auto
      with True refl show ?thesis by (auto simp: represented_def)
    next
      case False
      with represented_Cons [OF IH] show ?thesis by simp
    qed
  qed
  show "represented cmp (absorb pref ps m) x" if "represented cmp ps x"
    using pref that
  proof (induction ps)
    case (Cons p ps)
    show ?case
    proof (cases "name_of p = name_of m")
      case True
      have "represented cmp (m # ps) x" if "pref m p"
      proof -
        from Cons.prems(2) consider "name_of p = name_of x" "cmp p x \<le> 0" | "represented cmp ps x"
          by (auto simp: represented_def)
        then show ?thesis
        proof cases
          case 1
          have "cmp m p \<le> 0" using Cons.prems(1) [of p] True that by simp
          with 1(2) have "cmp m x \<le> 0" using three_way.cmp_trans [OF c] by blast
          with 1(1) True show ?thesis by (simp add: represented_def)
        next
          case 2
          then show ?thesis by (rule represented_Cons)
        qed
      qed
      with True Cons.prems(2) show ?thesis by simp
    next
      case False
      have IH: "represented cmp (absorb pref ps m) x" if "represented cmp ps x"
        using Cons.prems(1) that by (intro Cons.IH) simp
      from Cons.prems(2) consider "name_of p = name_of x" "cmp p x \<le> 0" | "represented cmp ps x"
        by (auto simp: represented_def)
      then show ?thesis
      proof cases
        case 1
        with False show ?thesis by (simp add: represented_def)
      next
        case 2
        with False IH represented_Cons show ?thesis by simp
      qed
    qed
  qed (simp add: represented_def)
qed

lemma foldl_absorb_represents:
  assumes c: "three_way cmp"
    and pref: "\<And>p m. p \<in> U \<Longrightarrow> m \<in> U \<Longrightarrow> name_of p = name_of m \<Longrightarrow> pref m p \<longleftrightarrow> cmp m p < 0"
  shows "set ps \<subseteq> U \<Longrightarrow> set ms \<subseteq> U \<Longrightarrow> x \<in> set ms \<or> represented cmp ps x \<Longrightarrow>
    represented cmp (foldl (absorb pref) ps ms) x"
proof (induction ms arbitrary: ps)
  case (Cons m ms)
  note ab = absorb_represents [OF c, of ps m pref]
  have p: "pref m p \<longleftrightarrow> cmp m p < 0" if "p \<in> set ps" "name_of p = name_of m" for p
    using pref that Cons.prems(1,2) by auto
  have "set (absorb pref ps m) \<subseteq> U" using set_absorb [of pref ps m] Cons.prems(1,2) by auto
  moreover have "x \<in> set ms \<or> represented cmp (absorb pref ps m) x"
    using Cons.prems(3) ab p by auto
  ultimately show ?case using Cons.IH [of "absorb pref ps m"] Cons.prems(2) by simp
qed simp

lemma foldl_absorb_distinct:
  "distinct (map name_of ps) \<Longrightarrow> distinct (map name_of (foldl (absorb pref) ps ms))"
  by (induction ms arbitrary: ps) (simp_all add: absorb_names)

lemma bestProvider_best:
  assumes c: "three_way cmp"
    and pref: "\<And>a b. a \<in> insert p (set ps) \<Longrightarrow> b \<in> insert p (set ps) \<Longrightarrow> a \<noteq> b \<Longrightarrow> pref a b \<longleftrightarrow> cmp a b < 0"
    and "distinct (p # ps)" and "x \<in> insert p (set ps)"
  shows "cmp (bestProvider pref p ps) x \<le> 0"
  using pref assms(3,4)
proof (induction ps arbitrary: p x)
  case Nil
  then show ?case using three_way_refl [OF c] by (simp add: bestProvider_def)
next
  case (Cons q ps)
  note refl = three_way_refl [OF c]
  let ?b = "if pref q p then q else p"
  have step: "bestProvider pref p (q # ps) = bestProvider pref ?b ps"
    by (simp add: bestProvider_def)
  have IH: "cmp (bestProvider pref ?b ps) y \<le> 0" if "y \<in> insert ?b (set ps)" for y
    by (rule Cons.IH) (use Cons.prems(1,2) that in \<open>auto split: if_splits\<close>)
  have "q \<noteq> p" using Cons.prems(2) by auto
  then have pq: "pref q p \<longleftrightarrow> cmp q p < 0" using Cons.prems(1) [of q p] by simp
  have swap: "cmp p q = - cmp q p" by (rule three_way.cmp_swap [OF c])
  have "cmp ?b p \<le> 0 \<and> cmp ?b q \<le> 0"
  proof (cases "pref q p")
    case True
    with pq refl show ?thesis by simp
  next
    case False
    with pq refl swap show ?thesis by simp
  qed
  with IH [of ?b] have "cmp (bestProvider pref ?b ps) p \<le> 0 \<and> cmp (bestProvider pref ?b ps) q \<le> 0"
    using three_way.cmp_trans [OF c, of "bestProvider pref ?b ps" ?b] by blast
  with IH Cons.prems(3) show ?case unfolding step by auto
qed

text \<open>
  The chosen candidate is at least as good as the best match of every package name, and that
  one is at least as good as the others of its name.
\<close>

lemma pickBest_best:
  assumes "pickBest ms pa dr dp = Some c" and coh: "list_all (coherent dr dp) ms"
  shows "\<exists>best\<in>set ms. ma_cand best = c \<and>
    (\<forall>m\<in>set ms. \<exists>r\<in>set ms. name_of r = name_of m \<and>
       \<not> morePreferred m r pa dr dp \<and> \<not> morePreferred r best pa dr dp)"
proof -
  define pref where "pref = (\<lambda>a b. morePreferred a b pa dr dp)"
  from assms(1) obtain p ps where ps: "foldl (absorb pref) [] ms = p # ps"
    and c: "c = ma_cand (bestProvider pref p ps)"
    by (auto simp: pickBest_def Let_def pref_def split: list.splits)
  have sub: "set (p # ps) \<subseteq> set ms"
    using foldl_absorb_subset [of pref "[]" ms] ps by simp
  have coh': "coherent dr dp m" if "m \<in> set ms" for m
    using coh that by (simp add: list_all_iff)
  have dist: "distinct (map name_of (p # ps))"
    using foldl_absorb_distinct [of "[]" pref ms] ps by simp
  let ?best = "bestProvider pref p ps"
  have best_in: "?best \<in> set (p # ps)" using bestProvider_mem [of pref p ps] by simp
  have cross: "pref a b \<longleftrightarrow> cross_name_cmp pa dr a b < 0"
    if "a \<in> insert p (set ps)" "b \<in> insert p (set ps)" "a \<noteq> b" for a b
  proof -
    have "name_of a \<noteq> name_of b"
    proof
      assume eq: "name_of a = name_of b"
      have inj: "inj_on name_of (insert p (set ps))"
        using dist unfolding distinct_map list.set by (rule conjunct2)
      from inj_onD [OF inj eq that(1,2)] that(3) show False by (rule notE [rotated])
    qed
    then show ?thesis
      unfolding pref_def using that sub coh' by (intro morePreferred_cross) auto
  qed
  have same: "pref b a \<longleftrightarrow> same_name_cmp pa dr b a < 0"
    if "a \<in> set ms" "b \<in> set ms" "name_of a = name_of b" for a b
    unfolding pref_def using that coh' by (intro morePreferred_same) auto
  have "\<exists>r\<in>set ms. name_of r = name_of m \<and> \<not> pref m r \<and> \<not> pref r ?best" if m: "m \<in> set ms" for m
  proof -
    have "represented (same_name_cmp pa dr) (foldl (absorb pref) [] ms) m"
      by (rule foldl_absorb_represents [OF same_cmp.three_way_axioms same]) (use m in auto)
    then obtain r where r: "r \<in> set (p # ps)" "name_of r = name_of m" "same_name_cmp pa dr r m \<le> 0"
      by (auto simp: represented_def ps)
    have "\<not> pref m r"
      using same [of r m] r sub m same_cmp.cmp_swap [of pa dr m r] by auto
    moreover have "\<not> pref r ?best"
    proof (cases "r = ?best")
      case True
      with same [of r r] r(1) sub same_cmp.cmp_swap [of pa dr r r] show ?thesis by auto
    next
      case False
      have "cross_name_cmp pa dr ?best r \<le> 0"
        using bestProvider_best [OF cross_cmp.three_way_axioms cross] dist r(1)
        by (auto simp: distinct_map)
      moreover have "pref r ?best \<longleftrightarrow> cross_name_cmp pa dr r ?best < 0"
        using cross [OF _ _ False] r(1) best_in by simp
      ultimately show ?thesis using cross_cmp.cmp_swap [of pa dr r ?best] by simp
    qed
    ultimately show ?thesis using r sub by blast
  qed
  then show ?thesis
    unfolding pref_def [symmetric] using best_in sub c by (intro bexI [of _ ?best]) (auto simp: pref_def)
qed

end
