(* ===== verification/Validate.thy ===== *)
theory Validate
  imports Manifest
begin

section \<open>Validation of a decoded manifest\<close>

text \<open>
  \<open>internal/manifest/validate.go\<close>: every rule a manifest has to pass, in the order the
  code applies them. An error is a value that says which rule failed and where; its text
  is not modelled. What the code calls outside the repository and the standard library's
  pure functions is the record \<open>externals\<close>: the NFC test, \<open>url.Parse\<close> (the scheme of
  a syntactically valid URL), and \<open>sd.ParseDescriptor\<close> of \<open>libp-go\<close>.
\<close>

record externals =
  x_nfc :: "string \<Rightarrow> bool"
  x_urlScheme :: "string \<Rightarrow> string option"
  x_descriptor :: "string \<Rightarrow> bool"

subsection \<open>Errors\<close>

datatype nameError =
    NameLength | NameInvalidCharacter char | NameBadStart | NameBadEnd | NameSeparators

datatype archError = ArchEmpty | ArchTooLong | ArchBadStart | ArchInvalidCharacter char

datatype rootRefError = RootRefPath | RootRefEmptySegment | RootRefInvalidSegment string

datatype messageError =
    MessageMissing | MessageEmpty | MessageTooLong nat | MessageNotUTF8 | MessageControl string

datatype claimsError =
    TooManySlots nat
  | SlotName nameError
  | SlotSetsTarget string
  | SlotMissingPath string
  | SlotPath string pathError
  | SlotMissingTarget string
  | SlotTarget string pathError

datatype entryError =
    EntryMissing string
  | EntryCapability capabilityError
  | EntryName nameError
  | EntryArch string
  | EntryConstraint constraintError
  | EntryRootNotPermitted
  | EntryRoot rootRefError
  | EntryClaimsNotPermitted
  | EntryClaims claimsError
  | EntryVersion versionError
  | EntryNotBase64
  | EntryTooLong nat
  | EntryNotDescriptor
  | EntryEmptyPath

datatype buildError =
    BuildMissing string | BuildNotUTC | BuildSubSecond | BuildBadTimestamp

datatype manifestError =
    MissingField string
  | BadSchemaVersion int
  | BadName nameError
  | BadVersion versionError
  | BadArchitecture archError
  | BadDescription char
  | BadHomepage
  | BadLicenseClass string
  | BadDefaultRoot rootRefError
  | BadAlternateUpgrade messageError
  | NegativeSize int
  | TooManyEntries string nat
  | AtEntry string nat entryError
  | NotSorted string string string
  | DuplicateEntry string string
  | UnknownSideEffect string
  | RepeatedSideEffect string
  | BadBuild buildError

definition schemaVersion :: int where
  "schemaVersion = 1"

definition maxDependencies :: nat where
  "maxDependencies = 10000"

definition maxReplaces :: nat where
  "maxReplaces = 1000"

definition maxSDOverrides :: nat where
  "maxSDOverrides = 100000"

definition maxSDOverride :: nat where
  "maxSDOverride = 64 * 1024"

definition maxClaimSlots :: nat where
  "maxClaimSlots = 64"

definition maxAlternateUpgradeMessage :: nat where
  "maxAlternateUpgradeMessage = 1024"

subsection \<open>Names, architectures, root references\<close>

definition isLowerOrDigit :: "char \<Rightarrow> bool" where
  "isLowerOrDigit c \<longleftrightarrow> (CHR ''a'' \<le> c \<and> c \<le> CHR ''z'') \<or> (CHR ''0'' \<le> c \<and> c \<le> CHR ''9'')"

definition isNameSeparator :: "char \<Rightarrow> bool" where
  "isNameSeparator c \<longleftrightarrow> c = CHR ''-'' \<or> c = CHR ''.''"

definition isNameChar :: "char \<Rightarrow> bool" where
  "isNameChar c \<longleftrightarrow> isLowerOrDigit c \<or> isNameSeparator c \<or> c = CHR ''+''"

fun adjacentSeparators :: "string \<Rightarrow> bool" where
  "adjacentSeparators (a # b # r) =
     (isNameSeparator b \<and> isNameSeparator a \<or> adjacentSeparators (b # r))"
| "adjacentSeparators _ = False"

definition validateName :: "string \<Rightarrow> nameError + unit" where
  "validateName s =
     (if length s < 2 \<or> length s > 64 then Inl NameLength
      else (case filter (\<lambda>c. \<not> isNameChar c) s of
              b # _ \<Rightarrow> Inl (NameInvalidCharacter b)
            | [] \<Rightarrow>
                if \<not> isLowerOrDigit (s ! 0) then Inl NameBadStart
                else if \<not> isLowerOrDigit (last s) \<and> last s \<noteq> CHR ''+'' then Inl NameBadEnd
                else if adjacentSeparators s then Inl NameSeparators
                else Inr ()))"

definition rootSegment :: "string \<Rightarrow> bool" where
  "rootSegment seg \<longleftrightarrow>
     (case seg of
        [] \<Rightarrow> True
      | c # cs \<Rightarrow> isLowerOrDigit c \<and>
                  list_all (\<lambda>c. isLowerOrDigit c \<or> c = CHR ''-'' \<or> c = CHR ''_'') cs)"

fun rootSegments :: "string list \<Rightarrow> rootRefError + unit" where
  "rootSegments [] = Inr ()"
| "rootSegments (seg # segs) =
     (if seg = [] then Inl RootRefEmptySegment
      else if \<not> rootSegment seg then Inl (RootRefInvalidSegment seg)
      else rootSegments segs)"

definition ValidateRootRef :: "string \<Rightarrow> rootRefError + unit" where
  "ValidateRootRef s =
     (if CHR ''/'' \<in> set s then Inl RootRefPath else rootSegments (split_byte (CHR ''.'') s))"

definition validateArchitecture :: "string \<Rightarrow> archError + unit" where
  "validateArchitecture s =
     (if s = [] then Inl ArchEmpty
      else if length s > 16 then Inl ArchTooLong
      else if s ! 0 < CHR ''a'' \<or> s ! 0 > CHR ''z'' then Inl ArchBadStart
      else (case filter (\<lambda>c. \<not> isLowerOrDigit c \<and> c \<noteq> CHR ''_'') s of
              b # _ \<Rightarrow> Inl (ArchInvalidCharacter b)
            | [] \<Rightarrow> Inr ()))"

definition validateDescription :: "string \<Rightarrow> manifestError + unit" where
  "validateDescription s =
     (case filter (\<lambda>c. c < CHR 0x20 \<or> c > CHR 0x7E) s of
        b # _ \<Rightarrow> Inl (BadDescription b)
      | [] \<Rightarrow> Inr ())"

definition ValidateAlternateUpgradeMessage :: "string \<Rightarrow> messageError + unit" where
  "ValidateAlternateUpgradeMessage s =
     (if s = [] then Inl MessageEmpty
      else if length s > maxAlternateUpgradeMessage then Inl (MessageTooLong (length s))
      else (case runes s of
              None \<Rightarrow> Inl MessageNotUTF8
            | Some rs \<Rightarrow>
                (case filter (\<lambda>r. r \<noteq> [CHR 0x0A] \<and> isControlRune r) rs of
                   r # _ \<Rightarrow> Inl (MessageControl r)
                 | [] \<Rightarrow> Inr ())))"

definition validateAlternateUpgrade ::
    "wireAlternateUpgrade option \<Rightarrow> messageError + AlternateUpgrade option" where
  "validateAlternateUpgrade w =
     (case w of
        None \<Rightarrow> Inr None
      | Some w \<Rightarrow>
          (case wa_Message w of
             None \<Rightarrow> Inl MessageMissing
           | Some msg \<Rightarrow>
               rbind (ValidateAlternateUpgradeMessage msg)
                 (\<lambda>_. Inr (Some \<lparr>au_Message = msg\<rparr>))))"

definition validateHomepage :: "externals \<Rightarrow> string \<Rightarrow> manifestError + unit" where
  "validateHomepage x s =
     (if s = [] then Inr ()
      else (case x_urlScheme x s of
              None \<Rightarrow> Inl BadHomepage
            | Some scheme \<Rightarrow>
                if scheme \<noteq> ''http'' \<and> scheme \<noteq> ''https'' then Inl BadHomepage else Inr ()))"

subsection \<open>The arrays\<close>

definition parseOptionalConstraint :: "string \<Rightarrow> constraintError + Constraint" where
  "parseOptionalConstraint s = (if s = [] then Inr noConstraint else ParseConstraint s)"

fun checkSortedUnique :: "string \<Rightarrow> string list \<Rightarrow> manifestError + unit" where
  "checkSortedUnique field (a # b # r) =
     (if b < a then Inl (NotSorted field a b)
      else if b = a then Inl (DuplicateEntry field b)
      else checkSortedUnique field (b # r))"
| "checkSortedUnique field _ = Inr ()"

datatype claimSide = consumerClaims | providerClaims

definition validateClaimSlot ::
    "externals \<Rightarrow> claimSide \<Rightarrow> string \<times> wireClaimSlot \<Rightarrow> claimsError + string \<times> ClaimSlot" where
  "validateClaimSlot x side e =
     (case e of (slot, w) \<Rightarrow>
        rbind (rmap_err SlotName (validateName slot)) (\<lambda>_.
        rbind
          (case side of
             consumerClaims \<Rightarrow>
               if wc_Target w \<noteq> [] then Inl (SlotSetsTarget slot)
               else if wc_Path w = [] then Inl (SlotMissingPath slot)
               else rmap_err (SlotPath slot) (CheckClaimPath (x_nfc x) (wc_Path w))
           | providerClaims \<Rightarrow>
               if wc_Target w = [] then Inl (SlotMissingTarget slot)
               else rbind (rmap_err (SlotTarget slot) (CheckClaimTarget (x_nfc x) (wc_Target w))) (\<lambda>_.
                    if wc_Path w \<noteq> []
                    then rmap_err (SlotPath slot) (CheckClaimPath (x_nfc x) (wc_Path w))
                    else Inr ()))
          (\<lambda>_. Inr (slot, \<lparr>cs_Path = wc_Path w, cs_Target = wc_Target w\<rparr>))))"

definition validateClaims ::
    "externals \<Rightarrow> wireClaimSlot gomap \<Rightarrow> claimSide \<Rightarrow> claimsError + ClaimSlot gomap" where
  "validateClaims x wires side =
     (if length (map_keys wires) > maxClaimSlots then Inl (TooManySlots (length (map_keys wires)))
      else traverse (validateClaimSlot x side) (map_entries wires))"

definition validateDependency ::
    "externals \<Rightarrow> string \<Rightarrow> bool \<Rightarrow> nat \<Rightarrow> wireDependency \<Rightarrow> manifestError + Dependency" where
  "validateDependency x field claimsAllowed i w =
     rmap_err (AtEntry field i)
       (case wd_Name w of
          None \<Rightarrow> Inl (EntryMissing ''name'')
        | Some name \<Rightarrow>
            rbind (if field = ''conflicts'' then rmap_err EntryName (validateName name)
                   else rmap_err EntryCapability (capabilityValidateName name)) (\<lambda>_.
            if wd_Arch w \<noteq> [] \<and> wd_Arch w \<noteq> ''any'' then Inl (EntryArch (wd_Arch w))
            else
              rbind (rmap_err EntryConstraint (parseOptionalConstraint (wd_Constraint w)))
                (\<lambda>constraint.
              rbind (if wd_Root w \<noteq> [] then
                       (if \<not> claimsAllowed then Inl EntryRootNotPermitted
                        else rmap_err EntryRoot (ValidateRootRef (wd_Root w)))
                     else Inr ()) (\<lambda>_.
              rbind (if length (map_keys (wd_Claims w)) > 0 then
                       (if \<not> claimsAllowed then Inl EntryClaimsNotPermitted
                        else rmap_err EntryClaims (validateClaims x (wd_Claims w) consumerClaims))
                     else Inr []) (\<lambda>claims.
              Inr \<lparr>d_Name = name, d_Constraint = constraint, d_Root = wd_Root w,
                   d_Claims = claims\<rparr>)))))"

definition validateDependencies ::
    "externals \<Rightarrow> string \<Rightarrow> wireDependency list \<Rightarrow> bool \<Rightarrow> manifestError + Dependency list" where
  "validateDependencies x field wires claimsAllowed =
     (if length wires > maxDependencies then Inl (TooManyEntries field (length wires))
      else
        rbind (traverse_idx (validateDependency x field claimsAllowed) 0 wires) (\<lambda>deps.
        rbind (checkSortedUnique field (map d_Name deps)) (\<lambda>_. Inr deps)))"

definition validateProvide :: "externals \<Rightarrow> nat \<Rightarrow> wireProvides \<Rightarrow> manifestError + Provides" where
  "validateProvide x i w =
     rmap_err (AtEntry ''provides'' i)
       (case wp_Name w of
          None \<Rightarrow> Inl (EntryMissing ''name'')
        | Some name \<Rightarrow>
            rbind (rmap_err EntryCapability (capabilityValidateName name)) (\<lambda>_.
            rbind (if wp_Version w \<noteq> []
                   then rbind (rmap_err EntryVersion (ParseRelaxed (wp_Version w))) (\<lambda>v. Inr (Some v))
                   else Inr None) (\<lambda>ver.
            rbind (if length (map_keys (wp_Claims w)) > 0
                   then rmap_err EntryClaims (validateClaims x (wp_Claims w) providerClaims)
                   else Inr []) (\<lambda>claims.
            Inr \<lparr>p_Name = name, p_Version = ver, p_Claims = claims\<rparr>))))"

definition validateProvides :: "externals \<Rightarrow> wireProvides list \<Rightarrow> manifestError + Provides list" where
  "validateProvides x wires =
     (if length wires > maxDependencies then Inl (TooManyEntries ''provides'' (length wires))
      else
        rbind (traverse_idx (validateProvide x) 0 wires) (\<lambda>provides.
        rbind (checkSortedUnique ''provides'' (map p_Name provides)) (\<lambda>_. Inr provides)))"

definition validateReplace :: "nat \<Rightarrow> wireReplaces \<Rightarrow> manifestError + Replaces" where
  "validateReplace i w =
     rmap_err (AtEntry ''replaces'' i)
       (case wr_Name w of
          None \<Rightarrow> Inl (EntryMissing ''name'')
        | Some name \<Rightarrow>
            rbind (rmap_err EntryName (validateName name)) (\<lambda>_.
            rbind (rmap_err EntryConstraint (parseOptionalConstraint (wr_Constraint w)))
              (\<lambda>constraint. Inr \<lparr>r_Name = name, r_Constraint = constraint\<rparr>)))"

definition validateReplaces :: "wireReplaces list \<Rightarrow> manifestError + Replaces list" where
  "validateReplaces wires =
     (if length wires > maxReplaces then Inl (TooManyEntries ''replaces'' (length wires))
      else
        rbind (traverse_idx validateReplace 0 wires) (\<lambda>replaces.
        rbind (checkSortedUnique ''replaces'' (map r_Name replaces)) (\<lambda>_. Inr replaces)))"

fun validateSideEffectsFrom :: "string list \<Rightarrow> string list \<Rightarrow> manifestError + SideEffect list" where
  "validateSideEffectsFrom seen [] = Inr []"
| "validateSideEffectsFrom seen (s # ss) =
     (let effect = (if s = ''depmod'' then Some SideEffectDepmod
                    else if s = ''man-db'' then Some SideEffectManDB else None)
      in case effect of
           None \<Rightarrow> Inl (UnknownSideEffect s)
         | Some e \<Rightarrow>
             if s \<in> set seen then Inl (RepeatedSideEffect s)
             else rbind (validateSideEffectsFrom (s # seen) ss) (\<lambda>es. Inr (e # es)))"

definition validateSideEffects :: "string list \<Rightarrow> manifestError + SideEffect list" where
  "validateSideEffects raw = validateSideEffectsFrom [] raw"

definition validateSDOverride ::
    "externals \<Rightarrow> nat \<Rightarrow> wireSDOverride \<Rightarrow> manifestError + SDOverride" where
  "validateSDOverride x i w =
     rmap_err (AtEntry ''sd_overrides'' i)
       (case ws_Path w of
          None \<Rightarrow> Inl (EntryMissing ''path'')
        | Some path \<Rightarrow>
            (case ws_SD w of
               None \<Rightarrow> Inl (EntryMissing ''sd'')
             | Some enc \<Rightarrow>
                 (case rawStdDecode enc of
                    None \<Rightarrow> Inl EntryNotBase64
                  | Some sd \<Rightarrow>
                      if length sd > maxSDOverride then Inl (EntryTooLong (length sd))
                      else if \<not> x_descriptor x sd then Inl EntryNotDescriptor
                      else if path = [] then Inl EntryEmptyPath
                      else Inr \<lparr>so_Path = path, so_SD = sd\<rparr>)))"

definition validateSDOverrides ::
    "externals \<Rightarrow> wireSDOverride list \<Rightarrow> manifestError + SDOverride list" where
  "validateSDOverrides x wires =
     (if length wires > maxSDOverrides then Inl (TooManyEntries ''sd_overrides'' (length wires))
      else
        rbind (traverse_idx (validateSDOverride x) 0 wires) (\<lambda>overrides.
        rbind (checkSortedUnique ''sd_overrides'' (map so_Path overrides)) (\<lambda>_. Inr overrides)))"

definition validateBuild :: "wireBuild \<Rightarrow> buildError + Build" where
  "validateBuild w =
     (case wb_Timestamp w of
        None \<Rightarrow> Inl (BuildMissing ''timestamp'')
      | Some timestamp \<Rightarrow>
     (case wb_FarmID w of
        None \<Rightarrow> Inl (BuildMissing ''farm_id'')
      | Some farmID \<Rightarrow>
     (case wb_SourceRef w of
        None \<Rightarrow> Inl (BuildMissing ''source_ref'')
      | Some sourceRef \<Rightarrow>
          if \<not> has_suffix timestamp ''Z'' then Inl BuildNotUTC
          else if CHR ''.'' \<in> set timestamp then Inl BuildSubSecond
          else (case timeParseRFC3339Z timestamp of
                  None \<Rightarrow> Inl BuildBadTimestamp
                | Some ts \<Rightarrow>
                    Inr \<lparr>b_Timestamp = ts, b_FarmID = farmID, b_SourceRef = sourceRef,
                         b_SourcePackage = (case wb_SourcePackage w of None \<Rightarrow> [] | Some s \<Rightarrow> s),
                         b_RecipeRef = (case wb_RecipeRef w of None \<Rightarrow> [] | Some s \<Rightarrow> s),
                         b_Builder = (case wb_Builder w of None \<Rightarrow> [] | Some s \<Rightarrow> s)\<rparr>))))"

subsection \<open>The whole manifest\<close>

definition requireField :: "string \<Rightarrow> 'a option \<Rightarrow> manifestError + 'a" where
  "requireField name v = (case v of None \<Rightarrow> Inl (MissingField name) | Some a \<Rightarrow> Inr a)"

definition validate :: "externals \<Rightarrow> wireManifest \<Rightarrow> manifestError + Manifest" where
  "validate x wm =
     rbind (requireField ''schema_version'' (w_SchemaVersion wm)) (\<lambda>schema.
     rbind (requireField ''name'' (w_Name wm)) (\<lambda>name.
     rbind (requireField ''version'' (w_Version wm)) (\<lambda>rawVersion.
     rbind (requireField ''architecture'' (w_Architecture wm)) (\<lambda>arch.
     rbind (requireField ''dependencies'' (w_Dependencies wm)) (\<lambda>wdeps.
     rbind (requireField ''conflicts'' (w_Conflicts wm)) (\<lambda>wconflicts.
     rbind (requireField ''size_installed'' (w_SizeInstalled wm)) (\<lambda>size.
     rbind (requireField ''build'' (w_Build wm)) (\<lambda>wbuild.
     if schema \<noteq> schemaVersion then Inl (BadSchemaVersion schema) else
     rbind (rmap_err BadName (validateName name)) (\<lambda>_.
     rbind (rmap_err BadVersion (Parse rawVersion)) (\<lambda>ver.
     rbind (rmap_err BadArchitecture (validateArchitecture arch)) (\<lambda>_.
     rbind (validateDescription (w_Description wm)) (\<lambda>_.
     rbind (validateHomepage x (w_Homepage wm)) (\<lambda>_.
     rbind (rmap_err BadLicenseClass (ParseLicenseClass (w_LicenseClass wm))) (\<lambda>lclass.
     rbind (if w_DefaultRoot wm \<noteq> []
            then rmap_err BadDefaultRoot (ValidateRootRef (w_DefaultRoot wm)) else Inr ()) (\<lambda>_.
     rbind (rmap_err BadAlternateUpgrade (validateAlternateUpgrade (w_AlternateUpgrade wm)))
       (\<lambda>alternate.
     if size < 0 then Inl (NegativeSize size) else
     rbind (validateDependencies x ''dependencies'' wdeps True) (\<lambda>deps.
     rbind (validateDependencies x ''optional_dependencies'' (w_OptionalDependencies wm) True)
       (\<lambda>optdeps.
     rbind (validateDependencies x ''conflicts'' wconflicts False) (\<lambda>conflicts.
     rbind (validateProvides x (w_Provides wm)) (\<lambda>provides.
     rbind (validateReplaces (w_Replaces wm)) (\<lambda>replaces.
     rbind (validateSideEffects (w_SideEffects wm)) (\<lambda>effects.
     rbind (validateSDOverrides x (w_SDOverrides wm)) (\<lambda>overrides.
     rbind (rmap_err BadBuild (validateBuild wbuild)) (\<lambda>build.
     Inr \<lparr>m_Name = name, m_Version = ver, m_Architecture = arch,
          m_Description = w_Description wm, m_License = w_License wm, m_LicenseClass = lclass,
          m_Homepage = w_Homepage wm, m_DefaultRoot = w_DefaultRoot wm,
          m_SpecialSystemPackage = w_SpecialSystemPackage wm, m_AlternateUpgrade = alternate,
          m_Dependencies = deps, m_OptionalDependencies = optdeps, m_Conflicts = conflicts,
          m_Provides = provides, m_Replaces = replaces, m_SideEffects = effects,
          m_SizeInstalled = size, m_SDOverrides = overrides, m_Build = build\<rparr>
     ))))))))))))))))))))))))"

end
