(* ===== verification/ValidateFacts.thy ===== *)
theory ValidateFacts
  imports Validate
begin

section \<open>What a validated manifest satisfies\<close>

text \<open>
  The format rules as predicates on decoded values, and the lemmas that each validator
  accepts only values that satisfy its rule.
\<close>

definition valid_package_name :: "string \<Rightarrow> bool" where
  "valid_package_name s \<longleftrightarrow>
     2 \<le> length s \<and> length s \<le> 64 \<and> list_all isNameChar s \<and> isLowerOrDigit (hd s) \<and>
     (isLowerOrDigit (last s) \<or> last s = CHR ''+'') \<and> \<not> adjacentSeparators s"

definition valid_capability_name :: "string \<Rightarrow> bool" where
  "valid_capability_name s \<longleftrightarrow> capabilityValidateName s = Inr ()"

definition valid_architecture :: "string \<Rightarrow> bool" where
  "valid_architecture s \<longleftrightarrow>
     s \<noteq> [] \<and> length s \<le> 16 \<and> CHR ''a'' \<le> hd s \<and> hd s \<le> CHR ''z'' \<and>
     list_all (\<lambda>c. isLowerOrDigit c \<or> c = CHR ''_'') s"

definition valid_root_ref :: "string \<Rightarrow> bool" where
  "valid_root_ref s \<longleftrightarrow>
     CHR ''/'' \<notin> set s \<and> (\<forall>seg\<in>set (split_byte (CHR ''.'') s). seg \<noteq> [] \<and> rootSegment seg)"

definition printable_ascii :: "string \<Rightarrow> bool" where
  "printable_ascii s \<longleftrightarrow> (\<forall>c\<in>set s. CHR 0x20 \<le> c \<and> c \<le> CHR 0x7E)"

definition wf_constraint :: "Constraint \<Rightarrow> bool" where
  "wf_constraint c \<longleftrightarrow> (\<forall>e\<in>set (exprs c). wf_version (e_operand e))"

definition wf_slot :: "externals \<Rightarrow> claimSide \<Rightarrow> string \<times> ClaimSlot \<Rightarrow> bool" where
  "wf_slot x side e \<longleftrightarrow>
     valid_package_name (fst e) \<and>
     (case side of
        consumerClaims \<Rightarrow>
          cs_Target (snd e) = [] \<and> CheckClaimPath (x_nfc x) (cs_Path (snd e)) = Inr ()
      | providerClaims \<Rightarrow>
          CheckClaimTarget (x_nfc x) (cs_Target (snd e)) = Inr () \<and>
          (cs_Path (snd e) = [] \<or> CheckClaimPath (x_nfc x) (cs_Path (snd e)) = Inr ()))"

definition wf_claims :: "externals \<Rightarrow> claimSide \<Rightarrow> ClaimSlot gomap \<Rightarrow> bool" where
  "wf_claims x side cs \<longleftrightarrow>
     sorted_wrt (<) (map fst cs) \<and> length cs \<le> maxClaimSlots \<and> (\<forall>e\<in>set cs. wf_slot x side e)"

definition wf_dependency :: "externals \<Rightarrow> Dependency \<Rightarrow> bool" where
  "wf_dependency x d \<longleftrightarrow>
     valid_capability_name (d_Name d) \<and> wf_constraint (d_Constraint d) \<and>
     (d_Root d = [] \<or> valid_root_ref (d_Root d)) \<and> wf_claims x consumerClaims (d_Claims d)"

definition wf_conflict :: "Dependency \<Rightarrow> bool" where
  "wf_conflict d \<longleftrightarrow>
     valid_package_name (d_Name d) \<and> wf_constraint (d_Constraint d) \<and> d_Root d = [] \<and> d_Claims d = []"

definition wf_provides :: "externals \<Rightarrow> Provides \<Rightarrow> bool" where
  "wf_provides x p \<longleftrightarrow>
     valid_capability_name (p_Name p) \<and> (\<forall>v. p_Version p = Some v \<longrightarrow> wf_version v) \<and>
     wf_claims x providerClaims (p_Claims p)"

definition wf_replaces :: "Replaces \<Rightarrow> bool" where
  "wf_replaces r \<longleftrightarrow> valid_package_name (r_Name r) \<and> wf_constraint (r_Constraint r)"

definition wf_override :: "externals \<Rightarrow> SDOverride \<Rightarrow> bool" where
  "wf_override x s \<longleftrightarrow> so_Path s \<noteq> [] \<and> length (so_SD s) \<le> maxSDOverride \<and> x_descriptor x (so_SD s)"

definition wf_manifest :: "externals \<Rightarrow> Manifest \<Rightarrow> bool" where
  "wf_manifest x m \<longleftrightarrow>
     valid_package_name (m_Name m) \<and>
     wf_version (m_Version m) \<and> v_revision (m_Version m) \<noteq> [] \<and>
     valid_architecture (m_Architecture m) \<and> printable_ascii (m_Description m) \<and>
     (m_DefaultRoot m = [] \<or> valid_root_ref (m_DefaultRoot m)) \<and> 0 \<le> m_SizeInstalled m \<and>
     sorted_wrt (<) (map d_Name (m_Dependencies m)) \<and> list_all (wf_dependency x) (m_Dependencies m) \<and>
     sorted_wrt (<) (map d_Name (m_OptionalDependencies m)) \<and>
     list_all (wf_dependency x) (m_OptionalDependencies m) \<and>
     sorted_wrt (<) (map d_Name (m_Conflicts m)) \<and> list_all wf_conflict (m_Conflicts m) \<and>
     sorted_wrt (<) (map p_Name (m_Provides m)) \<and> list_all (wf_provides x) (m_Provides m) \<and>
     sorted_wrt (<) (map r_Name (m_Replaces m)) \<and> list_all wf_replaces (m_Replaces m) \<and>
     distinct (m_SideEffects m) \<and>
     sorted_wrt (<) (map so_Path (m_SDOverrides m)) \<and> list_all (wf_override x) (m_SDOverrides m)"

subsection \<open>Each validator accepts exactly its rule\<close>

lemma filter_case:
  "(case filter P xs of b # bs \<Rightarrow> Inl (f b) | [] \<Rightarrow> y) = Inr u \<longleftrightarrow> (\<forall>z\<in>set xs. \<not> P z) \<and> y = Inr u"
  by (cases "filter P xs") (auto simp: filter_empty_conv filter_eq_Cons_iff)

lemma validateName_iff: "validateName s = Inr () \<longleftrightarrow> valid_package_name s"
proof (cases s)
  case (Cons c cs)
  show ?thesis
    unfolding validateName_def valid_package_name_def
    by (auto simp: filter_case list_all_iff Cons not_less Suc_le_eq)
qed (simp add: validateName_def valid_package_name_def)

lemma rootSegments_iff:
  "rootSegments segs = Inr () \<longleftrightarrow> (\<forall>seg\<in>set segs. seg \<noteq> [] \<and> rootSegment seg)"
  by (induction segs) auto

lemma ValidateRootRef_iff: "ValidateRootRef s = Inr () \<longleftrightarrow> valid_root_ref s"
  by (simp add: ValidateRootRef_def valid_root_ref_def rootSegments_iff)

lemma validateArchitecture_iff: "validateArchitecture s = Inr () \<longleftrightarrow> valid_architecture s"
proof (cases s)
  case (Cons c cs)
  show ?thesis
    unfolding validateArchitecture_def valid_architecture_def
    by (auto simp: filter_case list_all_iff Cons not_less)
qed (simp add: validateArchitecture_def valid_architecture_def)

lemma validateDescription_iff: "validateDescription s = Inr () \<longleftrightarrow> printable_ascii s"
  unfolding validateDescription_def printable_ascii_def
  by (auto simp: filter_case not_less)

lemma checkSortedUnique_iff:
  "checkSortedUnique field names = Inr () \<longleftrightarrow> sorted_wrt (<) names"
proof (induction field names rule: checkSortedUnique.induct)
  case (1 field a b r)
  have "sorted_wrt (<) (a # b # r) \<longleftrightarrow> a < b \<and> sorted_wrt (<) (b # r)"
    by (auto dest: less_trans)
  with 1 show ?case
    by (cases a b rule: linorder_cases) (auto simp del: sorted_wrt.simps dest: less_asym)
qed auto

lemma parseOptionalConstraint_wf: "parseOptionalConstraint s = Inr c \<Longrightarrow> wf_constraint c"
  using ParseConstraint_wf(2)
  by (auto simp: parseOptionalConstraint_def wf_constraint_def noConstraint_def split: if_splits)

text \<open>Every package name is a capability name.\<close>

lemma lowerOrDigit_cap: "isLowerOrDigit c \<Longrightarrow> cap_isAlnum c"
  by (auto simp: isLowerOrDigit_def cap_isAlnum_def cap_isLower_def cap_isDigit_def)

lemma nameChar_plain: "isNameChar c \<Longrightarrow> isPlainChar c"
  using lowerOrDigit_cap [of c]
  by (auto simp: isNameChar_def isNameSeparator_def isPlainChar_def cap_isSeparator_def)

lemma package_name_is_capability:
  assumes "valid_package_name s"
  shows "valid_capability_name s"
proof -
  from assms have chars: "list_all isPlainChar s"
    by (auto simp: valid_package_name_def list_all_iff intro: nameChar_plain)
  have "\<not> isPlainChar (CHR ''('')" using isArgChar_not(3) by (simp add: isArgChar_def)
  with chars have "CHR ''('' \<notin> set s" by (auto simp: list_all_iff)
  moreover have "s \<noteq> []" using assms by (auto simp: valid_package_name_def)
  then have "validatePlain s = Inr ()"
    using assms chars lowerOrDigit_cap [of "hd s"] lowerOrDigit_cap [of "last s"]
    by (auto simp: validatePlain_iff valid_package_name_def hd_conv_nth)
  ultimately show ?thesis
    using assms by (simp add: valid_capability_name_def capabilityValidateName_def
        valid_package_name_def MaxLen_def flip: cut_byte_None)
qed

subsection \<open>The arrays\<close>

lemma validateClaimSlot_wf:
  assumes "validateClaimSlot x side e = Inr r"
  shows "fst r = fst e" and "wf_slot x side r"
  using assms
  by (auto simp: validateClaimSlot_def wf_slot_def result_simps validateName_iff
      split: prod.splits claimSide.splits if_splits)

lemma traverse_fst:
  "(\<And>e r. f e = Inr r \<Longrightarrow> fst r = fst e) \<Longrightarrow> traverse f es = Inr rs \<Longrightarrow> map fst rs = map fst es"
  by (induction es arbitrary: rs) (auto simp: result_simps)

lemma validateClaims_wf:
  assumes "validateClaims x wires side = Inr cs"
  shows "wf_claims x side cs" and "map fst cs = map_keys wires"
proof -
  from assms have len: "length (map_keys wires) \<le> maxClaimSlots"
    and t: "traverse (validateClaimSlot x side) (map_entries wires) = Inr cs"
    by (auto simp: validateClaims_def split: if_splits)
  from traverse_fst [OF validateClaimSlot_wf(1) t]
  show keys: "map fst cs = map_keys wires" by (simp add: map_entries_keys)
  have "sorted_wrt (<) (map_keys wires)"
    by (simp add: strict_sorted_iff gomap.sorted_keys gomap.distinct_keys)
  moreover have "wf_slot x side e" if "e \<in> set cs" for e
    using traverse_mem [OF t that] validateClaimSlot_wf(2) by metis
  ultimately show "wf_claims x side cs"
    using len keys by (auto simp: wf_claims_def simp flip: length_map [of fst cs])
qed

lemma wf_claims_Nil [simp]: "wf_claims x side []"
  by (simp add: wf_claims_def)

lemma validateDependency_wf:
  assumes "validateDependency x field claimsAllowed i w = Inr d"
  shows "field \<noteq> ''conflicts'' \<Longrightarrow> wf_dependency x d"
    and "field = ''conflicts'' \<Longrightarrow> \<not> claimsAllowed \<Longrightarrow> wf_conflict d"
  using assms
  by (auto simp: validateDependency_def wf_dependency_def wf_conflict_def result_simps
      valid_capability_name_def validateName_iff ValidateRootRef_iff
      intro: parseOptionalConstraint_wf validateClaims_wf(1)
      split: option.splits if_splits)

lemma validateDependencies_wf:
  assumes "validateDependencies x field wires claimsAllowed = Inr deps"
  shows "sorted_wrt (<) (map d_Name deps)"
    and "field \<noteq> ''conflicts'' \<Longrightarrow> list_all (wf_dependency x) deps"
    and "field = ''conflicts'' \<Longrightarrow> \<not> claimsAllowed \<Longrightarrow> list_all wf_conflict deps"
proof -
  from assms have t: "traverse_idx (validateDependency x field claimsAllowed) 0 wires = Inr deps"
    and s: "checkSortedUnique field (map d_Name deps) = Inr ()"
    by (auto simp: validateDependencies_def result_simps split: if_splits)
  from s show "sorted_wrt (<) (map d_Name deps)" by (simp only: checkSortedUnique_iff)
  show "field \<noteq> ''conflicts'' \<Longrightarrow> list_all (wf_dependency x) deps"
    using validateDependency_wf(1) traverse_idx_mem [OF t] by (metis list_all_iff)
  show "field = ''conflicts'' \<Longrightarrow> \<not> claimsAllowed \<Longrightarrow> list_all wf_conflict deps"
    using validateDependency_wf(2) traverse_idx_mem [OF t] by (metis list_all_iff)
qed

lemma validateProvide_wf: "validateProvide x i w = Inr p \<Longrightarrow> wf_provides x p"
  by (auto simp: validateProvide_def wf_provides_def result_simps valid_capability_name_def
      ParseRelaxed_def parse_iff intro: validateClaims_wf(1) split: option.splits if_splits)

lemma validateProvides_wf:
  assumes "validateProvides x wires = Inr ps"
  shows "sorted_wrt (<) (map p_Name ps)" and "list_all (wf_provides x) ps"
proof -
  from assms have t: "traverse_idx (validateProvide x) 0 wires = Inr ps"
    and s: "checkSortedUnique ''provides'' (map p_Name ps) = Inr ()"
    by (auto simp: validateProvides_def result_simps split: if_splits)
  from s show "sorted_wrt (<) (map p_Name ps)" by (simp only: checkSortedUnique_iff)
  show "list_all (wf_provides x) ps"
    using validateProvide_wf traverse_idx_mem [OF t] by (metis list_all_iff)
qed

lemma validateReplace_wf: "validateReplace i w = Inr r \<Longrightarrow> wf_replaces r"
  by (auto simp: validateReplace_def wf_replaces_def result_simps validateName_iff
      intro: parseOptionalConstraint_wf split: option.splits)

lemma validateReplaces_wf:
  assumes "validateReplaces wires = Inr rs"
  shows "sorted_wrt (<) (map r_Name rs)" and "list_all wf_replaces rs"
proof -
  from assms have t: "traverse_idx validateReplace 0 wires = Inr rs"
    and s: "checkSortedUnique ''replaces'' (map r_Name rs) = Inr ()"
    by (auto simp: validateReplaces_def result_simps split: if_splits)
  from s show "sorted_wrt (<) (map r_Name rs)" by (simp only: checkSortedUnique_iff)
  show "list_all wf_replaces rs"
    using validateReplace_wf traverse_idx_mem [OF t] by (metis list_all_iff)
qed

text \<open>The side effects are distinct: two equal ones come from equal strings.\<close>

fun effectName :: "SideEffect \<Rightarrow> string" where
  "effectName SideEffectDepmod = ''depmod''"
| "effectName SideEffectManDB = ''man-db''"

lemma validateSideEffectsFrom_names:
  "validateSideEffectsFrom seen raw = Inr es \<Longrightarrow>
     map effectName es = raw \<and> distinct raw \<and> set raw \<inter> set seen = {}"
proof (induction seen raw arbitrary: es rule: validateSideEffectsFrom.induct)
  case (2 seen s ss)
  then show ?case
    by (auto simp: Let_def result_simps split: if_splits)
qed simp

lemma validateSideEffects_distinct: "validateSideEffects raw = Inr es \<Longrightarrow> distinct es"
  using validateSideEffectsFrom_names [of "[]" raw es]
  by (metis distinct_map validateSideEffects_def)

lemma validateSDOverride_wf: "validateSDOverride x i w = Inr s \<Longrightarrow> wf_override x s"
  by (auto simp: validateSDOverride_def wf_override_def result_simps split: option.splits if_splits)

lemma validateSDOverrides_wf:
  assumes "validateSDOverrides x wires = Inr ss"
  shows "sorted_wrt (<) (map so_Path ss)" and "list_all (wf_override x) ss"
proof -
  from assms have t: "traverse_idx (validateSDOverride x) 0 wires = Inr ss"
    and s: "checkSortedUnique ''sd_overrides'' (map so_Path ss) = Inr ()"
    by (auto simp: validateSDOverrides_def result_simps split: if_splits)
  from s show "sorted_wrt (<) (map so_Path ss)" by (simp only: checkSortedUnique_iff)
  show "list_all (wf_override x) ss"
    using validateSDOverride_wf traverse_idx_mem [OF t] by (metis list_all_iff)
qed

lemma validate_wf:
  assumes "validate x wm = Inr m"
  shows "wf_manifest x m"
  using assms unfolding validate_def
  by (auto simp: result_simps wf_manifest_def validateName_iff Parse_def parse_iff
      validateArchitecture_iff validateDescription_iff ValidateRootRef_iff
      validateDependencies_wf validateProvides_wf validateReplaces_wf validateSDOverrides_wf
      validateSideEffects_distinct split: if_splits)

end
