(* ===== verification/Claims.thy ===== *)
theory Claims
  imports ValidateFacts
begin

section \<open>Claim materialisation\<close>

text \<open>
  \<open>internal/claims/claims.go\<close>. Where Go visits the slots or the paths of a map in no
  fixed order the model takes the order of the keys; a path reached twice is the same link or
  an error in either order, so only the text of the error depends on it.
\<close>

record claimsInstalled =
  ci_Name :: string
  ci_Manifest :: Manifest

record Link =
  l_Path :: string
  l_Role :: string
  l_Slot :: string
  l_Target :: string

subsection \<open>Relative targets\<close>

text \<open>
  \<open>filepath.Dir\<close> and \<open>filepath.Rel\<close> on rooted paths, the only ones a link has
  (\<open>CheckClaimPath\<close>, \<open>CheckClaimTarget\<close>).
\<close>

definition dirRooted :: "string \<Rightarrow> string" where
  "dirRooted p =
     (case cut_last_byte (CHR ''/'') p of
        None \<Rightarrow> ''/''
      | Some (before, after) \<Rightarrow> cleanRooted (before @ ''/''))"

fun relComponents :: "string list \<Rightarrow> string list \<Rightarrow> string list" where
  "relComponents (b # bs) (t # ts) =
     (if b = t then relComponents bs ts
      else replicate (length (b # bs)) ''..'' @ t # ts)"
| "relComponents bs ts = replicate (length bs) ''..'' @ ts"

definition relRooted :: "string \<Rightarrow> string \<Rightarrow> string" where
  "relRooted base target =
     (case relComponents (clean_components base) (clean_components target) of
        [] \<Rightarrow> ''.''
      | cs \<Rightarrow> join ''/'' cs)"

definition RelativeTarget :: "Link \<Rightarrow> string" where
  "RelativeTarget link = relRooted (dirRooted (l_Path link)) (l_Target link)"

subsection \<open>Providers\<close>

definition EligibleProvider :: "Manifest \<Rightarrow> string \<Rightarrow> bool" where
  "EligibleProvider m role =
     list_ex (\<lambda>p. p_Name p = role \<and>
                  list_ex (\<lambda>(slot, desc). cs_Target desc \<noteq> []) (map_entries (p_Claims p)))
       (m_Provides m)"

fun providedRolesFrom :: "Manifest \<Rightarrow> string list \<Rightarrow> Provides list \<Rightarrow> string list" where
  "providedRolesFrom m seen [] = []"
| "providedRolesFrom m seen (p # ps) =
     (if p_Name p \<in> set seen then providedRolesFrom m seen ps
      else if EligibleProvider m (p_Name p)
      then p_Name p # providedRolesFrom m (p_Name p # seen) ps
      else providedRolesFrom m seen ps)"

definition ProvidedRoles :: "Manifest \<Rightarrow> string list" where
  "ProvidedRoles m = sort (providedRolesFrom m [] (m_Provides m))"

definition providesFor :: "Manifest \<Rightarrow> string \<Rightarrow> ClaimSlot gomap" where
  "providesFor m role =
     (case find (\<lambda>p. p_Name p = role) (m_Provides m) of None \<Rightarrow> [] | Some p \<Rightarrow> p_Claims p)"

definition consumerPaths :: "Manifest \<Rightarrow> string \<Rightarrow> string \<Rightarrow> string list" where
  "consumerPaths m role slot =
     List.map_filter
       (\<lambda>dep. if d_Name dep \<noteq> role then None
              else (case map_get (d_Claims dep) slot of
                      None \<Rightarrow> None
                    | Some cs \<Rightarrow> if cs_Path cs \<noteq> [] then Some (cs_Path cs) else None))
       (m_Dependencies m @ m_OptionalDependencies m)"

subsection \<open>The desired links\<close>

definition maxClaimPathsPerRole :: nat where
  "maxClaimPathsPerRole = 256"

datatype desiredError = PathClaimedTwice string string string | TooManyPaths string nat

definition slotPaths :: "claimsInstalled list \<Rightarrow> string \<Rightarrow> string \<Rightarrow> ClaimSlot \<Rightarrow> string list" where
  "slotPaths installed role slot desc =
     sort (remdups ((if cs_Path desc \<noteq> [] then [cs_Path desc] else []) @
       concat (map (\<lambda>p. consumerPaths (ci_Manifest p) role slot) installed)))"

type_synonym claimState = "Link gomap \<times> string list"

definition claimPath :: "string \<Rightarrow> string \<Rightarrow> string \<Rightarrow> string \<Rightarrow> claimState \<Rightarrow> desiredError + claimState" where
  "claimPath role slot target path st =
     (let link = \<lparr>l_Path = path, l_Role = role, l_Slot = slot, l_Target = target\<rparr>;
          st' = (map_put (fst st) path link, List.insert path (snd st))
      in case map_get (fst st) path of
           None \<Rightarrow> Inr st'
         | Some prev \<Rightarrow> if prev \<noteq> link then Inl (PathClaimedTwice path (l_Role prev) role) else Inr st')"

definition claimSlot ::
    "claimsInstalled list \<Rightarrow> string \<Rightarrow> string \<times> ClaimSlot \<Rightarrow> claimState \<Rightarrow> desiredError + claimState" where
  "claimSlot installed role sd st =
     (case sd of (slot, desc) \<Rightarrow>
        if cs_Target desc = [] then Inr st
        else fold_res (claimPath role slot (cs_Target desc)) (slotPaths installed role slot desc) st)"

definition claimRole ::
    "claimsInstalled list \<Rightarrow> string \<times> string \<Rightarrow> Link gomap \<Rightarrow> desiredError + Link gomap" where
  "claimRole installed rh result =
     (case rh of (role, holder) \<Rightarrow>
        (case map_get (map_put_all ci_Name ci_Manifest [] installed) holder of
           None \<Rightarrow> Inr result
         | Some hm \<Rightarrow>
             (case fold_res (claimSlot installed role) (map_entries (providesFor hm role)) (result, []) of
                Inl e \<Rightarrow> Inl e
              | Inr (result', perRole) \<Rightarrow>
                  if maxClaimPathsPerRole < length perRole
                  then Inl (TooManyPaths role (length perRole))
                  else Inr result')))"

definition Desired :: "claimsInstalled list \<Rightarrow> string gomap \<Rightarrow> desiredError + Link list" where
  "Desired installed holders =
     (case fold_res (claimRole installed) (map_entries holders) [] of
        Inl e \<Rightarrow> Inl e
      | Inr result \<Rightarrow> Inr (map snd (map_entries result)))"

subsection \<open>The difference\<close>

record claimsPlan =
  cp_Create :: "Link list"
  cp_Repoint :: "Link list"
  cp_Remove :: "Link list"

definition indexByPath :: "Link list \<Rightarrow> Link gomap" where
  "indexByPath links = map_put_all l_Path (\<lambda>l. l) [] links"

definition planEmpty :: "claimsPlan \<Rightarrow> bool" where
  "planEmpty p \<longleftrightarrow> cp_Create p = [] \<and> cp_Repoint p = [] \<and> cp_Remove p = []"

definition Reconcile :: "Link list \<Rightarrow> Link list \<Rightarrow> claimsPlan" where
  "Reconcile actual desired =
     (let actualByPath = indexByPath actual; desiredByPath = indexByPath desired in
      \<lparr>cp_Create = filter (\<lambda>d. map_get actualByPath (l_Path d) = None) desired,
       cp_Repoint = filter (\<lambda>d. case map_get actualByPath (l_Path d) of
                                  None \<Rightarrow> False | Some a \<Rightarrow> a \<noteq> d) desired,
       cp_Remove = filter (\<lambda>a. map_get desiredByPath (l_Path a) = None) actual\<rparr>)"

subsection \<open>Relative targets resolve\<close>

lemma foldl_clean_step_up:
  "foldl clean_step (st @ ss) (replicate (length ss) ''..'') = st"
proof (induction ss rule: rev_induct)
  case (snoc s ss)
  then show ?case by (simp add: butlast_append)
qed simp

lemma relComponents_resolve:
  "\<forall>c\<in>set ts. c \<noteq> [] \<and> c \<noteq> ''.'' \<and> c \<noteq> ''..'' \<Longrightarrow>
     foldl clean_step (pre @ bs) (relComponents bs ts) = pre @ ts"
proof (induction bs ts arbitrary: pre rule: relComponents.induct)
  case (1 b bs t ts)
  show ?case
  proof (cases "b = t")
    case True
    with "1.IH" [of "pre @ [b]"] "1.prems" show ?thesis by simp
  next
    case False
    with "1.prems" show ?thesis
      by (simp only: relComponents.simps if_False foldl_append foldl_clean_step_up foldl_clean_step_plain)
  qed
qed (simp_all only: relComponents.simps foldl_append foldl_clean_step_up foldl_clean_step_plain)

lemma split_byte_append_sep: "split_byte c (a @ c # b) = split_byte c a @ split_byte c b"
  by (induction a) (auto split: list.splits)

lemma clean_components_append:
  "clean_components (a @ CHR ''/'' # b) =
     foldl clean_step (clean_components a) (split_byte (CHR ''/'') b)"
  by (simp add: clean_components_def split_byte_append_sep)

lemma clean_components_cleanRooted: "clean_components (cleanRooted p) = clean_components p"
proof (cases "clean_components p")
  case Nil
  then show ?thesis by (simp add: cleanRooted_def clean_components_def)
next
  case (Cons c cs)
  have proper: "\<forall>c\<in>set (clean_components p). c \<noteq> [] \<and> c \<noteq> ''.'' \<and> c \<noteq> ''..'' \<and> CHR ''/'' \<notin> set c"
    using clean_components_proper by blast
  have "clean_components (cleanRooted p) =
      foldl clean_step (clean_components []) (split_byte (CHR ''/'') (join ''/'' (clean_components p)))"
    unfolding cleanRooted_def using clean_components_append [of "[]"] by simp
  also have "\<dots> = foldl clean_step [] (clean_components p)"
    using Cons proper by (subst join_split_byte) (auto simp: clean_components_def)
  also have "\<dots> = clean_components p"
    using proper by (subst foldl_clean_step_plain) auto
  finally show ?thesis .
qed

lemma relComponents_no_slash:
  "\<forall>c\<in>set ts. CHR ''/'' \<notin> set c \<Longrightarrow> \<forall>c\<in>set (relComponents bs ts). CHR ''/'' \<notin> set c"
  by (induction bs ts rule: relComponents.induct) auto

lemma RelativeTarget_resolves:
  "cleanRooted (dirRooted (l_Path link) @ ''/'' @ RelativeTarget link) = cleanRooted (l_Target link)"
proof -
  let ?d = "dirRooted (l_Path link)" and ?t = "l_Target link"
  let ?rel = "relComponents (clean_components ?d) (clean_components ?t)"
  have proper: "\<forall>c\<in>set (clean_components ?t). c \<noteq> [] \<and> c \<noteq> ''.'' \<and> c \<noteq> ''..'' \<and> CHR ''/'' \<notin> set c"
    using clean_components_proper by blast
  have "foldl clean_step (clean_components ?d) (split_byte (CHR ''/'') (RelativeTarget link)) =
      foldl clean_step (clean_components ?d) ?rel"
  proof (cases ?rel)
    case Nil
    then show ?thesis by (simp add: RelativeTarget_def relRooted_def)
  next
    case (Cons c cs)
    then have "RelativeTarget link = join ''/'' ?rel"
      by (simp add: RelativeTarget_def relRooted_def)
    moreover have "\<forall>c\<in>set ?rel. CHR ''/'' \<notin> set c"
      using proper by (intro relComponents_no_slash) auto
    ultimately show ?thesis using Cons by (simp add: join_split_byte del: join.simps)
  qed
  also have "\<dots> = clean_components ?t"
    using relComponents_resolve [of "clean_components ?t" "[]"] proper by auto
  finally show ?thesis
    unfolding cleanRooted_def by (simp add: clean_components_append)
qed

subsection \<open>Which links are desired\<close>

text \<open>
  The specification: a link for every held role whose holder is installed, every slot the
  holder fills, and every path declared for that slot, by the holder or by a consumer.
\<close>

definition declaredPaths :: "claimsInstalled list \<Rightarrow> string \<Rightarrow> string \<Rightarrow> ClaimSlot \<Rightarrow> string set" where
  "declaredPaths installed role slot desc =
     {path. path \<noteq> [] \<and>
       (path = cs_Path desc \<or>
        (\<exists>p\<in>set installed. \<exists>dep\<in>set (m_Dependencies (ci_Manifest p) @ m_OptionalDependencies (ci_Manifest p)).
           \<exists>cs. d_Name dep = role \<and> map_get (d_Claims dep) slot = Some cs \<and> cs_Path cs = path))}"

definition claimLinks :: "claimsInstalled list \<Rightarrow> string gomap \<Rightarrow> Link set" where
  "claimLinks installed holders =
     {link. \<exists>holder m desc.
        map_get holders (l_Role link) = Some holder \<and>
        map_get (map_put_all ci_Name ci_Manifest [] installed) holder = Some m \<and>
        map_get (providesFor m (l_Role link)) (l_Slot link) = Some desc \<and>
        cs_Target desc \<noteq> [] \<and> l_Target link = cs_Target desc \<and>
        l_Path link \<in> declaredPaths installed (l_Role link) (l_Slot link) desc}"

lemma set_map_filter: "set (List.map_filter f xs) = {y. \<exists>x\<in>set xs. f x = Some y}"
  by (induction xs) (auto simp: List.map_filter_simps split: option.splits)

lemma set_consumerPaths:
  "path \<in> set (consumerPaths m role slot) \<longleftrightarrow> path \<noteq> [] \<and>
     (\<exists>dep\<in>set (m_Dependencies m @ m_OptionalDependencies m).
        \<exists>cs. d_Name dep = role \<and> map_get (d_Claims dep) slot = Some cs \<and> cs_Path cs = path)"
proof -
  have one: "(if d_Name dep \<noteq> role then None
       else (case map_get (d_Claims dep) slot of None \<Rightarrow> None
             | Some cs \<Rightarrow> if cs_Path cs \<noteq> [] then Some (cs_Path cs) else None)) = Some path \<longleftrightarrow>
     path \<noteq> [] \<and> (\<exists>cs. d_Name dep = role \<and> map_get (d_Claims dep) slot = Some cs \<and> cs_Path cs = path)" for dep
    by (cases "map_get (d_Claims dep) slot") auto
  show ?thesis unfolding consumerPaths_def set_map_filter mem_Collect_eq one by blast
qed

lemma set_slotPaths: "set (slotPaths installed role slot desc) = declaredPaths installed role slot desc"
proof -
  have "path \<in> set (slotPaths installed role slot desc) \<longleftrightarrow>
      path = cs_Path desc \<and> path \<noteq> [] \<or>
      (\<exists>p\<in>set installed. path \<in> set (consumerPaths (ci_Manifest p) role slot))" for path
    by (auto simp: slotPaths_def)
  then have "path \<in> set (slotPaths installed role slot desc) \<longleftrightarrow>
      path \<in> declaredPaths installed role slot desc" for path
    unfolding declaredPaths_def set_consumerPaths mem_Collect_eq by (metis (no_types, lifting))
  then show ?thesis by blast
qed

definition slotLinks :: "claimsInstalled list \<Rightarrow> string \<Rightarrow> string \<times> ClaimSlot \<Rightarrow> Link set" where
  "slotLinks installed role sd =
     {link. l_Role link = role \<and> l_Slot link = fst sd \<and> l_Target link = cs_Target (snd sd) \<and>
        cs_Target (snd sd) \<noteq> [] \<and> l_Path link \<in> declaredPaths installed role (fst sd) (snd sd)}"

definition roleLinks :: "claimsInstalled list \<Rightarrow> string \<times> string \<Rightarrow> Link set" where
  "roleLinks installed rh =
     (case map_get (map_put_all ci_Name ci_Manifest [] installed) (snd rh) of
        None \<Rightarrow> {}
      | Some m \<Rightarrow> \<Union> (slotLinks installed (fst rh) ` set (map_entries (providesFor m (fst rh)))))"

lemma roleLinks_role: "link \<in> roleLinks installed rh \<Longrightarrow> l_Role link = fst rh"
  by (auto simp: roleLinks_def slotLinks_def split: option.splits)

lemma claimLinks_roles: "claimLinks installed holders = \<Union> (roleLinks installed ` set (map_entries holders))"
proof -
  have "link \<in> claimLinks installed holders \<longleftrightarrow>
      (\<exists>rh\<in>set (map_entries holders). link \<in> roleLinks installed rh)" for link
    by (fastforce simp: claimLinks_def roleLinks_def slotLinks_def map_entries_mem Bex_def
        split: option.splits)
  then show ?thesis by blast
qed

lemma claimLinks_role:
  "{l \<in> claimLinks installed holders. l_Role l = role} =
     (case map_get holders role of None \<Rightarrow> {} | Some h \<Rightarrow> roleLinks installed (role, h))"
proof -
  have "link \<in> {l \<in> claimLinks installed holders. l_Role l = role} \<longleftrightarrow>
      (\<exists>h. map_get holders role = Some h \<and> link \<in> roleLinks installed (role, h))" for link
    unfolding claimLinks_roles using roleLinks_role [of link installed]
    by (force simp: map_entries_mem)
  then show ?thesis by (auto split: option.split)
qed

subsection \<open>The loops of \<open>Desired\<close>\<close>

definition keyed :: "Link gomap \<Rightarrow> bool" where
  "keyed m \<longleftrightarrow> (\<forall>k l. map_get m k = Some l \<longrightarrow> l_Path l = k)"

definition linksOf :: "Link gomap \<Rightarrow> Link set" where
  "linksOf m = {l. \<exists>k. map_get m k = Some l}"

lemma linksOf_get: "keyed m \<Longrightarrow> l \<in> linksOf m \<longleftrightarrow> map_get m (l_Path l) = Some l"
  by (auto simp: keyed_def linksOf_def)

lemma linksOf_inj: "keyed m \<Longrightarrow> inj_on l_Path (linksOf m)"
  by (rule inj_onI) (metis linksOf_get option.inject)

text \<open>
  A loop whose steps add to what a state holds, and succeed as long as that stays inside a
  set, adds everything, and succeeds if everything stays inside.
\<close>

lemma fold_res_adds:
  assumes "fold_res f xs s = Inr s'" and "P s"
    and "\<And>x s s'. x \<in> set xs \<Longrightarrow> P s \<Longrightarrow> f x s = Inr s' \<Longrightarrow> P s' \<and> g s' = g s \<union> L x"
  shows "P s' \<and> g s' = g s \<union> \<Union> (L ` set xs)"
  using assms
proof (induction xs arbitrary: s)
  case (Cons x xs)
  from Cons.prems(1) obtain t where t: "f x s = Inr t" "fold_res f xs t = Inr s'"
    by (auto split: sum.splits)
  have pt: "P t \<and> g t = g s \<union> L x" by (rule Cons.prems(3) [OF _ Cons.prems(2) t(1)]) simp
  have "P s' \<and> g s' = g t \<union> \<Union> (L ` set xs)"
  proof (rule Cons.IH [OF t(2)])
    show "P t" using pt by simp
    show "P s' \<and> g s' = g s \<union> L y" if "y \<in> set xs" "P s" "f y s = Inr s'" for y s s'
      using Cons.prems(3) [of y s s'] that by simp
  qed
  with pt show ?case by auto
qed simp

lemma fold_res_succeeds:
  assumes "P s" and "\<And>x s. x \<in> set xs \<Longrightarrow> P s \<Longrightarrow> \<exists>s'. f x s = Inr s' \<and> P s'"
  shows "\<exists>s'. fold_res f xs s = Inr s' \<and> P s'"
  using assms
proof (induction xs arbitrary: s)
  case (Cons x xs)
  from Cons.prems(2) [of x s] Cons.prems(1) obtain t where "f x s = Inr t" "P t" by auto
  with Cons.IH [of t] Cons.prems(2) show ?case by auto
qed simp

definition claim_ok :: "string \<Rightarrow> claimState \<Rightarrow> bool" where
  "claim_ok role st \<longleftrightarrow> keyed (fst st) \<and> distinct (snd st)"

lemma claimPath_ok:
  assumes "claimPath role slot target path st = Inr st'" and "claim_ok role st"
  defines "link \<equiv> \<lparr>l_Path = path, l_Role = role, l_Slot = slot, l_Target = target\<rparr>"
  shows "claim_ok role st' \<and> linksOf (fst st') = linksOf (fst st) \<union> {link} \<and>
    set (snd st') = set (snd st) \<union> {path}"
proof -
  have st': "st' = (map_put (fst st) path link, List.insert path (snd st))"
    and prev: "map_get (fst st) path = None \<or> map_get (fst st) path = Some link"
    using assms(1) by (auto simp: claimPath_def Let_def link_def split: option.splits if_splits)
  have "keyed (fst st')"
    using assms(2) by (auto simp: st' claim_ok_def keyed_def map_simps link_def)
  moreover have "linksOf (fst st') = linksOf (fst st) \<union> {link}"
  proof -
    have "l \<in> linksOf (map_put (fst st) path link)" if "map_get (fst st) k = Some l" for k l
      using that prev unfolding linksOf_def
      by (cases "k = path") (auto simp: map_simps intro!: exI [of _ k])
    then have "linksOf (fst st) \<union> {link} \<subseteq> linksOf (fst st')"
      unfolding st' by (auto simp: linksOf_def [of "fst st"]) (auto simp: linksOf_def map_simps)
    moreover have "linksOf (fst st') \<subseteq> linksOf (fst st) \<union> {link}"
      by (auto simp: st' linksOf_def map_simps split: if_splits)
    ultimately show ?thesis by blast
  qed
  ultimately show ?thesis using assms(2) by (auto simp: st' claim_ok_def)
qed

lemma claimPath_succeeds:
  assumes "claim_ok role st" and "linksOf (fst st) \<subseteq> U" and "inj_on l_Path U"
    and "\<lparr>l_Path = path, l_Role = role, l_Slot = slot, l_Target = target\<rparr> \<in> U"
  shows "\<exists>st'. claimPath role slot target path st = Inr st'"
proof (cases "map_get (fst st) path")
  case (Some prev)
  then have "prev \<in> linksOf (fst st)" "l_Path prev = path"
    using assms(1) by (auto simp: linksOf_def claim_ok_def keyed_def)
  with assms(2-4) have "prev = \<lparr>l_Path = path, l_Role = role, l_Slot = slot, l_Target = target\<rparr>"
    using inj_onD [OF assms(3), of prev "\<lparr>l_Path = path, l_Role = role, l_Slot = slot, l_Target = target\<rparr>"]
    by auto
  with Some show ?thesis by (simp add: claimPath_def Let_def)
qed (simp add: claimPath_def Let_def)

lemma claimSlot_ok:
  assumes "claimSlot installed role sd st = Inr st'" and "claim_ok role st"
  shows "claim_ok role st' \<and> linksOf (fst st') = linksOf (fst st) \<union> slotLinks installed role sd \<and>
    set (snd st') = set (snd st) \<union> l_Path ` slotLinks installed role sd"
proof (cases "cs_Target (snd sd) = []")
  case True
  with assms show ?thesis by (auto simp: claimSlot_def slotLinks_def split: prod.splits)
next
  case False
  obtain slot desc where sd: "sd = (slot, desc)" by (cases sd)
  let ?link = "\<lambda>path. \<lparr>l_Path = path, l_Role = role, l_Slot = slot, l_Target = cs_Target desc\<rparr>"
  have loop: "fold_res (claimPath role slot (cs_Target desc)) (slotPaths installed role slot desc) st = Inr st'"
    using assms(1) False by (simp add: claimSlot_def sd)
  have slot: "slotLinks installed role sd = ?link ` set (slotPaths installed role slot desc)"
  proof -
    have "l \<in> ?link ` declaredPaths installed role slot desc" if "l \<in> slotLinks installed role sd" for l
    proof (rule image_eqI)
      show "l = ?link (l_Path l)" and "l_Path l \<in> declaredPaths installed role slot desc"
        using that by (simp_all add: slotLinks_def sd)
    qed
    then show ?thesis using False unfolding set_slotPaths by (auto simp: slotLinks_def sd)
  qed
  have "claim_ok role st' \<and> linksOf (fst st') = linksOf (fst st) \<union> \<Union> ((\<lambda>p. {?link p}) ` set (slotPaths installed role slot desc))"
    using loop assms(2) by (rule fold_res_adds) (use claimPath_ok in blast)
  moreover have "claim_ok role st' \<and> set (snd st') = set (snd st) \<union> \<Union> ((\<lambda>p. {p}) ` set (slotPaths installed role slot desc))"
    using loop assms(2) by (rule fold_res_adds) (use claimPath_ok in blast)
  ultimately show ?thesis unfolding slot by (auto simp: image_iff)
qed

lemma claimSlot_succeeds:
  assumes "claim_ok role st" and "linksOf (fst st) \<subseteq> U" and "inj_on l_Path U"
    and "slotLinks installed role sd \<subseteq> U"
  shows "\<exists>st'. claimSlot installed role sd st = Inr st'"
proof (cases "cs_Target (snd sd) = []")
  case True
  then show ?thesis by (cases sd) (simp add: claimSlot_def)
next
  case False
  obtain slot desc where sd: "sd = (slot, desc)" by (cases sd)
  have "\<exists>st'. fold_res (claimPath role slot (cs_Target desc)) (slotPaths installed role slot desc) st = Inr st' \<and>
      claim_ok role st' \<and> linksOf (fst st') \<subseteq> U"
  proof (rule fold_res_succeeds)
    show "claim_ok role st \<and> linksOf (fst st) \<subseteq> U" using assms by simp
    fix path s assume path: "path \<in> set (slotPaths installed role slot desc)"
      and s: "claim_ok role s \<and> linksOf (fst s) \<subseteq> U"
    have link: "\<lparr>l_Path = path, l_Role = role, l_Slot = slot, l_Target = cs_Target desc\<rparr> \<in> U"
      using assms(4) path False unfolding sd set_slotPaths slotLinks_def by auto
    from claimPath_succeeds [OF _ _ assms(3) this] s obtain s' where
      s': "claimPath role slot (cs_Target desc) path s = Inr s'" by blast
    have "claim_ok role s' \<and> linksOf (fst s') \<subseteq> U"
      using claimPath_ok [OF s'] s link by auto
    with s' show "\<exists>s'. claimPath role slot (cs_Target desc) path s = Inr s' \<and> claim_ok role s' \<and> linksOf (fst s') \<subseteq> U"
      by (intro exI [of _ s']) simp
  qed
  with False show ?thesis by (auto simp: claimSlot_def sd)
qed

lemma claimRole_ok:
  assumes "claimRole installed rh result = Inr result'" and "keyed result"
  shows "keyed result' \<and> linksOf result' = linksOf result \<union> roleLinks installed rh"
    and "card (l_Path ` roleLinks installed rh) \<le> maxClaimPathsPerRole"
proof -
  obtain role holder where rh: "rh = (role, holder)" by (cases rh)
  have "(keyed result' \<and> linksOf result' = linksOf result \<union> roleLinks installed rh) \<and>
      card (l_Path ` roleLinks installed rh) \<le> maxClaimPathsPerRole"
  proof (cases "map_get (map_put_all ci_Name ci_Manifest [] installed) holder")
    case None
    with assms show ?thesis by (simp add: claimRole_def rh roleLinks_def)
  next
    case (Some m)
    with assms(1) obtain perRole where
      loop: "fold_res (claimSlot installed role) (map_entries (providesFor m role)) (result, []) = Inr (result', perRole)"
      and len: "length perRole \<le> maxClaimPathsPerRole"
      by (auto simp: claimRole_def rh split: sum.splits if_splits)
    have init: "claim_ok role (result, [])" using assms(2) by (simp add: claim_ok_def)
    have links: "claim_ok role (result', perRole) \<and>
        linksOf (fst (result', perRole)) = linksOf (fst (result, [] :: string list)) \<union>
          \<Union> (slotLinks installed role ` set (map_entries (providesFor m role)))"
      using loop init by (rule fold_res_adds) (use claimSlot_ok in blast)
    have paths: "claim_ok role (result', perRole) \<and>
        set (snd (result', perRole)) = set (snd (result, [] :: string list)) \<union>
          \<Union> ((\<lambda>sd. l_Path ` slotLinks installed role sd) ` set (map_entries (providesFor m role)))"
      using loop init by (rule fold_res_adds) (use claimSlot_ok in blast)
    have role: "roleLinks installed rh = \<Union> (slotLinks installed role ` set (map_entries (providesFor m role)))"
      using Some by (simp add: roleLinks_def rh)
    have "l_Path ` roleLinks installed rh = set perRole" using paths by (auto simp: role)
    then have "card (l_Path ` roleLinks installed rh) \<le> length perRole"
      by (simp add: card_length)
    with links len show ?thesis by (simp add: role claim_ok_def)
  qed
  then show "keyed result' \<and> linksOf result' = linksOf result \<union> roleLinks installed rh"
    and "card (l_Path ` roleLinks installed rh) \<le> maxClaimPathsPerRole" by auto
qed

lemma claimRole_succeeds:
  assumes "keyed result" and "linksOf result \<subseteq> U" and "inj_on l_Path U"
    and "roleLinks installed rh \<subseteq> U" and "card (l_Path ` roleLinks installed rh) \<le> maxClaimPathsPerRole"
  shows "\<exists>result'. claimRole installed rh result = Inr result'"
proof -
  obtain role holder where rh: "rh = (role, holder)" by (cases rh)
  show ?thesis
  proof (cases "map_get (map_put_all ci_Name ci_Manifest [] installed) holder")
    case None
    then show ?thesis by (simp add: claimRole_def rh)
  next
    case (Some m)
    have role: "roleLinks installed rh = \<Union> (slotLinks installed role ` set (map_entries (providesFor m role)))"
      using Some by (simp add: roleLinks_def rh)
    have "\<exists>st'. fold_res (claimSlot installed role) (map_entries (providesFor m role)) (result, []) = Inr st' \<and>
        claim_ok role st' \<and> linksOf (fst st') \<subseteq> U"
    proof (rule fold_res_succeeds)
      show "claim_ok role (result, []) \<and> linksOf (fst (result, [] :: string list)) \<subseteq> U"
        using assms(1,2) by (simp add: claim_ok_def)
      fix sd s assume sd: "sd \<in> set (map_entries (providesFor m role))"
        and s: "claim_ok role s \<and> linksOf (fst s) \<subseteq> U"
      have sub: "slotLinks installed role sd \<subseteq> U" using assms(4) sd unfolding role by blast
      with s obtain s' where s': "claimSlot installed role sd s = Inr s'"
        using claimSlot_succeeds [OF _ _ assms(3)] by blast
      with claimSlot_ok [OF s'] s sub
      show "\<exists>s'. claimSlot installed role sd s = Inr s' \<and> claim_ok role s' \<and> linksOf (fst s') \<subseteq> U"
        by blast
    qed
    then obtain result' perRole where
      loop: "fold_res (claimSlot installed role) (map_entries (providesFor m role)) (result, []) = Inr (result', perRole)"
      and ok: "claim_ok role (result', perRole)"
      by (metis surj_pair)
    have init: "claim_ok role (result, [])" using assms(1) by (simp add: claim_ok_def)
    have "claim_ok role (result', perRole) \<and>
        set (snd (result', perRole)) = set (snd (result, [] :: string list)) \<union>
          \<Union> ((\<lambda>sd. l_Path ` slotLinks installed role sd) ` set (map_entries (providesFor m role)))"
      using loop init by (rule fold_res_adds) (use claimSlot_ok in blast)
    then have "l_Path ` roleLinks installed rh = set perRole" by (auto simp: role)
    then have "length perRole \<le> maxClaimPathsPerRole"
      using assms(5) ok by (simp add: claim_ok_def distinct_card)
    with loop Some show ?thesis by (simp add: claimRole_def rh)
  qed
qed

lemma Desired_ok:
  assumes "Desired installed holders = Inr links"
  shows "set links = claimLinks installed holders" and "sorted_wrt (<) (map l_Path links)"
    and "\<And>role. card (l_Path ` {l \<in> claimLinks installed holders. l_Role l = role}) \<le> maxClaimPathsPerRole"
    and "inj_on l_Path (claimLinks installed holders)"
proof -
  from assms obtain result where loop: "fold_res (claimRole installed) (map_entries holders) [] = Inr result"
    and links: "links = map snd (map_entries result)"
    by (auto simp: Desired_def split: sum.splits)
  have "keyed result \<and> linksOf result = linksOf [] \<union> \<Union> (roleLinks installed ` set (map_entries holders))"
    using loop by (rule fold_res_adds) (simp add: keyed_def, rule claimRole_ok(1), assumption+)
  then have res: "keyed result" "linksOf result = claimLinks installed holders"
    by (auto simp: claimLinks_roles linksOf_def)
  show "set links = claimLinks installed holders"
  proof -
    have "l \<in> set links \<longleftrightarrow> (\<exists>k. (k, l) \<in> set (map_entries result))" for l
      unfolding links by force
    then show ?thesis unfolding res(2) [symmetric] linksOf_def by (auto simp: map_entries_mem)
  qed
  have "l_Path (snd e) = fst e" if "e \<in> set (map_entries result)" for e
    using that res(1) map_entries_mem [of "fst e" "snd e" result] by (simp add: keyed_def)
  then have "map l_Path links = map_keys result"
    unfolding links map_map map_entries_keys [symmetric] by simp
  then show "sorted_wrt (<) (map l_Path links)"
    by (simp add: strict_sorted_iff gomap.sorted_keys gomap.distinct_keys)
  show "inj_on l_Path (claimLinks installed holders)"
    using linksOf_inj [OF res(1)] res(2) by simp
  have "(\<forall>rh\<in>set (map_entries holders). card (l_Path ` roleLinks installed rh) \<le> maxClaimPathsPerRole)"
    using fold_res_all [where P = keyed and Q = "\<lambda>rh s. card (l_Path ` roleLinks installed rh) \<le> maxClaimPathsPerRole", OF loop]
      claimRole_ok by (auto simp: keyed_def [of "[]"])
  then show "card (l_Path ` {l \<in> claimLinks installed holders. l_Role l = role}) \<le> maxClaimPathsPerRole" for role
    unfolding claimLinks_role by (auto simp: map_entries_mem split: option.split)
qed

theorem Desired_succeeds_iff:
  "(\<exists>links. Desired installed holders = Inr links) \<longleftrightarrow>
     inj_on l_Path (claimLinks installed holders) \<and>
     (\<forall>role. card (l_Path ` {l \<in> claimLinks installed holders. l_Role l = role}) \<le> maxClaimPathsPerRole)"
proof
  assume "\<exists>links. Desired installed holders = Inr links"
  then show "inj_on l_Path (claimLinks installed holders) \<and>
     (\<forall>role. card (l_Path ` {l \<in> claimLinks installed holders. l_Role l = role}) \<le> maxClaimPathsPerRole)"
    using Desired_ok(3,4) by blast
next
  let ?U = "claimLinks installed holders"
  assume a: "inj_on l_Path ?U \<and> (\<forall>role. card (l_Path ` {l \<in> ?U. l_Role l = role}) \<le> maxClaimPathsPerRole)"
  have "\<exists>result. fold_res (claimRole installed) (map_entries holders) [] = Inr result \<and>
      keyed result \<and> linksOf result \<subseteq> ?U"
  proof (rule fold_res_succeeds)
    show "keyed [] \<and> linksOf [] \<subseteq> ?U" by (simp add: keyed_def linksOf_def)
    fix rh s assume rh: "rh \<in> set (map_entries holders)" and s: "keyed s \<and> linksOf s \<subseteq> ?U"
    have sub: "roleLinks installed rh \<subseteq> ?U" using rh by (auto simp: claimLinks_roles)
    have "map_get holders (fst rh) = Some (snd rh)"
      using rh map_entries_mem [of "fst rh" "snd rh" holders] by simp
    then have "{l \<in> ?U. l_Role l = fst rh} = roleLinks installed rh"
      unfolding claimLinks_role by simp
    then have "card (l_Path ` roleLinks installed rh) \<le> maxClaimPathsPerRole" using a by metis
    with claimRole_succeeds [OF _ _ _ sub] s a obtain s' where
      s': "claimRole installed rh s = Inr s'" by blast
    with claimRole_ok(1) [OF s'] s sub
    show "\<exists>s'. claimRole installed rh s = Inr s' \<and> keyed s' \<and> linksOf s' \<subseteq> ?U" by blast
  qed
  then show "\<exists>links. Desired installed holders = Inr links" by (auto simp: Desired_def)
qed

subsection \<open>Providers of a role\<close>

lemma set_providedRolesFrom:
  "set (providedRolesFrom m seen ps) = {r \<in> p_Name ` set ps. EligibleProvider m r} - set seen"
  "distinct (providedRolesFrom m seen ps)"
  by (induction m seen ps rule: providedRolesFrom.induct) auto

lemma ProvidedRoles_ok:
  "set (ProvidedRoles m) = {role. EligibleProvider m role}" "sorted_wrt (<) (ProvidedRoles m)"
proof -
  have "{r \<in> p_Name ` set (m_Provides m). EligibleProvider m r} = {role. EligibleProvider m role}"
    by (auto simp: EligibleProvider_def list_ex_iff)
  then show "set (ProvidedRoles m) = {role. EligibleProvider m role}"
    by (simp add: ProvidedRoles_def set_providedRolesFrom)
  show "sorted_wrt (<) (ProvidedRoles m)"
    by (simp add: ProvidedRoles_def strict_sorted_iff set_providedRolesFrom)
qed

text \<open>With one entry per name, a role is provided exactly when some slot of it is filled.\<close>

lemma EligibleProvider_slots:
  assumes "distinct (map p_Name (m_Provides m))"
  shows "EligibleProvider m role \<longleftrightarrow>
    (\<exists>slot desc. map_get (providesFor m role) slot = Some desc \<and> cs_Target desc \<noteq> [])"
proof -
  have "find (\<lambda>p. p_Name p = role) ps = Some p"
    if "p \<in> set ps" "p_Name p = role" "distinct (map p_Name ps)" for ps p
    using that by (induction ps) auto
  note first = this
  have found: "providesFor m role = p_Claims p"
    if "p \<in> set (m_Provides m)" "p_Name p = role" for p
    using first [OF that assms] by (simp add: providesFor_def)
  have none: "providesFor m role = []" if "role \<notin> p_Name ` set (m_Provides m)"
  proof -
    have "find (\<lambda>p. p_Name p = role) (m_Provides m) = None"
      using that by (auto simp: find_None_iff)
    then show ?thesis by (simp add: providesFor_def)
  qed
  show ?thesis
  proof (cases "role \<in> p_Name ` set (m_Provides m)")
    case True
    then obtain p where "p \<in> set (m_Provides m)" "p_Name p = role" by auto
    moreover from this have "q = p" if "q \<in> set (m_Provides m)" "p_Name q = role" for q
      using that assms by (auto simp: distinct_map dest: inj_onD)
    ultimately have "EligibleProvider m role \<longleftrightarrow>
        list_ex (\<lambda>(slot, desc). cs_Target desc \<noteq> []) (map_entries (p_Claims p))"
      unfolding EligibleProvider_def list_ex_iff [of _ "m_Provides m"] by blast
    also have "\<dots> \<longleftrightarrow> (\<exists>slot desc. map_get (p_Claims p) slot = Some desc \<and> cs_Target desc \<noteq> [])"
      unfolding list_ex_iff Bex_def split_paired_Ex map_entries_mem by simp
    finally show ?thesis
      using found \<open>p \<in> set (m_Provides m)\<close> \<open>p_Name p = role\<close> by simp
  next
    case False
    with none show ?thesis by (auto simp: EligibleProvider_def list_ex_iff)
  qed
qed

subsection \<open>Applying the difference\<close>

text \<open>Executing a plan on the links by path: a created or repointed link is at its path, a removed one is gone.\<close>

definition applyClaimsPlan :: "claimsPlan \<Rightarrow> Link set \<Rightarrow> Link set" where
  "applyClaimsPlan p links =
     {l \<in> links. l \<notin> set (cp_Remove p) \<and> l_Path l \<notin> l_Path ` set (cp_Repoint p)}
     \<union> set (cp_Repoint p) \<union> set (cp_Create p)"

lemma indexByPath_get:
  "distinct (map l_Path links) \<Longrightarrow>
     map_get (indexByPath links) path = Some l \<longleftrightarrow> l \<in> set links \<and> l_Path l = path"
proof
  assume d: "distinct (map l_Path links)"
  show "l \<in> set links \<and> l_Path l = path" if "map_get (indexByPath links) path = Some l"
    using map_get_put_all_Some [OF that [unfolded indexByPath_def]] by auto
  show "map_get (indexByPath links) path = Some l" if "l \<in> set links \<and> l_Path l = path"
    using map_get_put_all_distinct [OF d, of l "\<lambda>l. l" "[]"] that by (simp add: indexByPath_def)
qed

lemma indexByPath_None: "map_get (indexByPath links) path = None \<longleftrightarrow> path \<notin> l_Path ` set links"
proof -
  have "dom (map_get (indexByPath links)) = l_Path ` set links"
    by (auto simp: indexByPath_def map_get_put_all_dom)
  then show ?thesis by (metis domIff)
qed

lemma Reconcile_reaches:
  assumes a: "distinct (map l_Path actual)" and d: "distinct (map l_Path desired)"
  shows "applyClaimsPlan (Reconcile actual desired) (set actual) = set desired"
proof -
  let ?p = "Reconcile actual desired"
  have create: "l \<in> set (cp_Create ?p) \<longleftrightarrow> l \<in> set desired \<and> l_Path l \<notin> l_Path ` set actual" for l
    by (simp add: Reconcile_def Let_def indexByPath_None)
  have remove: "l \<in> set (cp_Remove ?p) \<longleftrightarrow> l \<in> set actual \<and> l_Path l \<notin> l_Path ` set desired" for l
    by (simp add: Reconcile_def Let_def indexByPath_None)
  have repoint: "l \<in> set (cp_Repoint ?p) \<longleftrightarrow>
      l \<in> set desired \<and> (\<exists>b\<in>set actual. l_Path b = l_Path l \<and> b \<noteq> l)" for l
  proof (cases "map_get (indexByPath actual) (l_Path l)")
    case None
    then have "l_Path l \<notin> l_Path ` set actual" by (simp add: indexByPath_None)
    then have "l_Path b \<noteq> l_Path l" if "b \<in> set actual" for b
      using that by (metis imageI)
    with None show ?thesis by (auto simp: Reconcile_def Let_def)
  next
    case (Some b)
    then have "c = b \<longleftrightarrow> c \<in> set actual \<and> l_Path c = l_Path l" for c
      using indexByPath_get [OF a] by (metis option.inject)
    with Some show ?thesis by (simp add: Reconcile_def Let_def) metis
  qed
  have inj_a: "x = y" if "x \<in> set actual" "y \<in> set actual" "l_Path x = l_Path y" for x y
    using a that by (auto simp: distinct_map dest: inj_onD)
  have inj_d: "x = y" if "x \<in> set desired" "y \<in> set desired" "l_Path x = l_Path y" for x y
    using d that by (auto simp: distinct_map dest: inj_onD)
  show ?thesis
  proof (intro set_eqI iffI)
    fix l assume l: "l \<in> applyClaimsPlan ?p (set actual)"
    show "l \<in> set desired"
    proof (rule ccontr)
      assume nd: "l \<notin> set desired"
      with l have la: "l \<in> set actual" "l \<notin> set (cp_Remove ?p)" "l_Path l \<notin> l_Path ` set (cp_Repoint ?p)"
        by (auto simp: applyClaimsPlan_def create repoint)
      then obtain x where x: "x \<in> set desired" "l_Path x = l_Path l" by (auto simp: remove)
      with la(1) nd have "x \<in> set (cp_Repoint ?p)" by (auto simp: repoint)
      with la(3) x(2) show False by (metis imageI)
    qed
  next
    fix l assume l: "l \<in> set desired"
    show "l \<in> applyClaimsPlan ?p (set actual)"
    proof (cases "l \<in> set actual")
      case True
      have "l_Path l \<notin> l_Path ` set (cp_Repoint ?p)"
      proof
        assume "l_Path l \<in> l_Path ` set (cp_Repoint ?p)"
        then obtain y where y: "y \<in> set (cp_Repoint ?p)" "l_Path y = l_Path l" by force
        then have "y = l" using inj_d [of y l] l by (simp add: repoint)
        with y(1) True inj_a show False by (auto simp: repoint)
      qed
      with True l show ?thesis by (auto simp: applyClaimsPlan_def remove)
    next
      case False
      with l show ?thesis by (auto simp: applyClaimsPlan_def create repoint)
    qed
  qed
qed

lemma Reconcile_empty_iff:
  assumes "distinct (map l_Path actual)" and "distinct (map l_Path desired)"
  shows "planEmpty (Reconcile actual desired) \<longleftrightarrow> set actual = set desired"
proof
  assume "planEmpty (Reconcile actual desired)"
  then have "applyClaimsPlan (Reconcile actual desired) (set actual) = set actual"
    by (auto simp: applyClaimsPlan_def planEmpty_def)
  with Reconcile_reaches [OF assms] show "set actual = set desired" by simp
next
  assume eq: "set actual = set desired"
  have "map_get (indexByPath actual) (l_Path l) = Some l" if "l \<in> set desired" for l
    using that eq indexByPath_get [OF assms(1)] by blast
  with eq show "planEmpty (Reconcile actual desired)"
    by (auto simp: planEmpty_def Reconcile_def Let_def indexByPath_None)
qed

end
