(* ===== verification/VersionFacts.thy ===== *)
theory VersionFacts
  imports Constraint
begin

section \<open>Pre-releases sort before their release\<close>

text \<open>
  A tilde in an upstream version opens a pre-release tail. Tokenisation splits at the tilde,
  comparison skips the common segments, and what is left of the pre-release loses to nothing.
\<close>

lemma takeWhile_stop: "\<not> P c \<Longrightarrow> takeWhile P (xs @ c # ys) = takeWhile P xs"
  by (induction xs) auto

lemma dropWhile_stop: "\<not> P c \<Longrightarrow> dropWhile P (xs @ c # ys) = dropWhile P xs @ c # ys"
  by (induction xs) auto

lemma tokenize_loop_tilde:
  assumes "tokenize_loop segs pre u = Some out" and "list_all upstreamChar u"
  shows "tokenize_loop segs pre (u @ CHR ''~'' # x) = tokenize_loop out True x"
  using assms
proof (induction "length u" arbitrary: segs pre u rule: less_induct)
  case less
  show ?case
  proof (cases u)
    case Nil
    with less.prems show ?thesis
      by (simp add: tokenize_loop.simps [of _ _ "[]"] tokenize_loop.simps [of _ _ "CHR ''~'' # x"])
  next
    case (Cons c cs)
    note step = tokenize_loop.simps [of segs pre "c # cs"] tokenize_loop.simps [of segs pre "c # (cs @ CHR ''~'' # x)"]
    have drop: "length (dropWhile P cs) < length u" for P
      using length_dropWhile_le [of P cs] Cons by (simp add: le_imp_less_Suc)
    have rest: "list_all upstreamChar cs" "list_all upstreamChar (dropWhile P cs)" for P
      using less.prems(2) Cons by (auto simp: list_all_iff dest: set_dropWhileD)
    show ?thesis
    proof (cases "c = CHR ''~'' \<or> c = CHR ''.'' \<or> c = CHR ''+'' \<or> c = CHR ''-''")
      case True
      with less.hyps [of cs] less.prems(1) Cons rest(1) show ?thesis
        by (auto simp: step)
    next
      case special: False
      show ?thesis
      proof (cases "isDigit c")
        case True
        with special less.hyps [OF drop _ rest(2)] less.prems(1) show ?thesis
          unfolding Cons append_Cons step by (simp add: takeWhile_stop dropWhile_stop)
      next
        case False
        show ?thesis
        proof (cases "isLetter c")
          case True
          with False special less.hyps [OF drop _ rest(2)] less.prems(1) show ?thesis
            unfolding Cons append_Cons step by (simp add: takeWhile_stop dropWhile_stop Let_def)
        next
          case other: False
          with less.prems(2) special False Cons show ?thesis
            by (simp add: upstreamChar_def isAlphanumeric_def)
        qed
      qed
    qed
  qed
qed


lemma compareSegments_common:
  "compareSegments (xs @ ys) (xs @ zs) = compareSegments ys zs"
  by (induction xs) (simp_all add: Let_def)

lemma compareSegments_preRelease:
  "list_all seg_preRelease ys \<Longrightarrow> ys \<noteq> [] \<Longrightarrow> compareSegments (xs @ ys) xs = - 1"
  using compareSegments_common [of xs ys "[]"] by (cases ys) auto

lemma tokenize_tilde:
  assumes "list_all upstreamChar (u @ CHR ''~'' # x)" and "list_ex isAlphanumeric x"
    and "tokenize u = Some s" and "tokenize (u @ CHR ''~'' # x) = Some t"
  obtains tail where "t = s @ tail" and "tail \<noteq> []" and "list_all seg_preRelease tail"
proof -
  from assms(1) have u: "list_all upstreamChar u" and x: "list_all upstreamChar x" by simp_all
  have "tokenize_loop s True x = Some t"
    using tokenize_loop_tilde [OF assms(3) [unfolded tokenize_def] u] assms(4) by (simp add: tokenize_def)
  moreover obtain tail where "tokenize_loop s True x = Some (s @ tail)" and good: "good_tokens True x tail"
    using tokenize_loop_good [OF x] by blast
  ultimately have "t = s @ tail" by simp
  moreover have "tail \<noteq> []"
  proof
    assume "tail = []"
    with good have "filter isAlphanumeric x = []" by (simp add: good_tokens_def)
    with assms(2) show False by (simp add: filter_empty_conv list_ex_iff)
  qed
  moreover have "list_all seg_preRelease tail" using good by (simp add: good_tokens_def)
  ultimately show thesis by (rule that)
qed

lemma tilde_before_release:
  assumes "parse s b = Inr v" and "parse t b' = Inr w"
    and "v_upstream w = v_upstream v @ CHR ''~'' # x" and "list_ex isAlphanumeric x"
    and "compareNumeric (v_epoch w) (v_epoch v) = 0"
  shows "Compare w v = - 1"
proof -
  from assms(1,2) have v: "wf_version v" and w: "wf_version w" by (simp_all add: parse_iff)
  from v w assms(3,4) obtain tail where "v_segments w = v_segments v @ tail"
    and "tail \<noteq> []" and "list_all seg_preRelease tail"
    using tokenize_tilde [of "v_upstream v" x "v_segments v" "v_segments w"]
    by (auto simp: wf_version_def valid_upstream_def)
  with compareSegments_preRelease assms(5) show ?thesis
    by (simp add: Compare_def compareEpochUpstream_def Let_def)
qed

end
