(* ===== verification/RepoData.thy ===== *)
theory RepoData
  imports ValidateFacts
begin

section \<open>Repository metadata\<close>

text \<open>
  \<open>internal/repodata/descriptor.go\<close>, \<open>index.go\<close> and \<open>verify.go\<close>, and
  \<open>DecodeEnvelope\<close> and \<open>Verify\<close> of \<open>internal/signature/signature.go\<close>.

  Two groups of functions are arguments of the definitions here. \<open>jsonReader\<close> turns the
  text of a document into the wire structure: \<open>jsonguard.Unmarshal\<close> on the whole
  document, \<open>json.Unmarshal\<close> on a raw array inside an index entry. \<open>crypto\<close> is
  \<open>sha256.Sum256\<close> and \<open>ed25519.Verify\<close>. No property assumes anything of them
  except where it says so.
\<close>

record crypto =
  k_sha256 :: "string \<Rightarrow> string"
  k_verify :: "string \<Rightarrow> string \<Rightarrow> string \<Rightarrow> bool"

definition ed25519PublicKeySize :: nat where
  "ed25519PublicKeySize = 32"

definition ed25519SignatureSize :: nat where
  "ed25519SignatureSize = 64"

subsection \<open>Wire structures\<close>

record wireKey =
  wk_Fingerprint :: "string option"
  wk_URL :: "string option"
  wk_Status :: "string option"
  wk_ValidUntil :: string

record wireIndexPointer =
  wip_URL :: "string option"
  wip_SignatureURL :: "string option"

record wireSigning =
  wsg_Algorithm :: "string option"
  wsg_Keys :: "wireKey list"

record wireRepo =
  wrp_Name :: "string option"
  wrp_Description :: string
  wrp_Signing :: "wireSigning option"

record wireIndexes =
  wix_Active :: "wireIndexPointer option"
  wix_Archive :: "wireIndexPointer option"

record wireDescriptor =
  wds_SchemaVersion :: "int option"
  wds_Repo :: "wireRepo option"
  wds_Indexes :: "wireIndexes option"

record wireHash =
  wh_Algorithm :: "string option"
  wh_Value :: "string option"

record wireIndexBuild =
  wib_Timestamp :: string
  wib_FarmID :: string

record wireIndexEntry =
  we_Name :: "string option"
  we_Version :: "string option"
  we_Architecture :: "string option"
  we_Description :: string
  we_License :: string
  we_LicenseClass :: string
  we_Homepage :: string
  we_DefaultRoot :: string
  we_AlternateUpgrade :: "wireAlternateUpgrade option"
  we_Dependencies :: string
  we_OptionalDependencies :: string
  we_Conflicts :: string
  we_Provides :: string
  we_Replaces :: string
  we_SideEffects :: string
  we_SizeCompressed :: "int option"
  we_SizeInstalled :: "int option"
  we_Hash :: "wireHash option"
  we_URL :: "string option"
  we_Build :: "wireIndexBuild option"

record wireIndex =
  wi_SchemaVersion :: "int option"
  wi_Repo :: "string option"
  wi_Kind :: "string option"
  wi_IndexVersion :: "int option"
  wi_GeneratedAt :: "string option"
  wi_Packages :: "wireIndexEntry list"

record wireEnvelope =
  wv_SchemaVersion :: "int option"
  wv_Algorithm :: "string option"
  wv_KeyFingerprint :: "string option"
  wv_Signature :: "string option"

record jsonReader =
  j_descriptor :: "string \<Rightarrow> wireDescriptor option"
  j_index :: "string \<Rightarrow> wireIndex option"
  j_envelope :: "string \<Rightarrow> wireEnvelope option"
  j_dependencies :: "string \<Rightarrow> wireDependency list option"
  j_provides :: "string \<Rightarrow> wireProvides list option"
  j_replaces :: "string \<Rightarrow> wireReplaces list option"
  j_strings :: "string \<Rightarrow> string list option"

datatype repodataError =
    InvalidJSON
  | FieldMissing string
  | FieldInvalid string string
  | AtIndexEntry nat repodataError
  | AtSigningKey nat repodataError
  | KeysNotSorted
  | KeyDuplicated string
  | NoActiveKey
  | IndexNotSorted string string
  | IndexDuplicate string
  | NameInvalid nameError
  | ArchitectureInvalid archError
  | LicenseClassInvalid string
  | DefaultRootInvalid rootRefError
  | AlternateUpgradeInvalid messageError
  | VersionInvalid versionError
  | ArrayInvalid manifestError
  | Untrusted

subsection \<open>Scalars\<close>

definition isLowerHex :: "char \<Rightarrow> bool" where
  "isLowerHex c \<longleftrightarrow> (CHR ''0'' \<le> c \<and> c \<le> CHR ''9'') \<or> (CHR ''a'' \<le> c \<and> c \<le> CHR ''f'')"

definition validateHexFingerprint :: "string \<Rightarrow> repodataError + unit" where
  "validateHexFingerprint s =
     (if length s \<noteq> 64 then Inl (FieldInvalid ''fingerprint'' s)
      else if \<not> list_all isLowerHex s then Inl (FieldInvalid ''fingerprint'' s)
      else Inr ())"

definition ParseUTCTimestamp :: "string \<Rightarrow> repodataError + time" where
  "ParseUTCTimestamp s =
     (if \<not> has_suffix s ''Z'' then Inl (FieldInvalid ''timestamp'' s)
      else (case timeParseRFC3339Z s of
              None \<Rightarrow> Inl (FieldInvalid ''timestamp'' s)
            | Some t \<Rightarrow> Inr t))"

definition required :: "string \<Rightarrow> 'a option \<Rightarrow> repodataError + 'a" where
  "required name v = (case v of None \<Rightarrow> Inl (FieldMissing name) | Some a \<Rightarrow> Inr a)"

definition requiredNonempty :: "string \<Rightarrow> string option \<Rightarrow> repodataError + string" where
  "requiredNonempty name v =
     (case v of None \<Rightarrow> Inl (FieldMissing name)
      | Some s \<Rightarrow> if s = [] then Inl (FieldMissing name) else Inr s)"

subsection \<open>The descriptor\<close>

definition KeyActive :: string where "KeyActive = ''active''"
definition KeyTransitioning :: string where "KeyTransitioning = ''transitioning''"
definition KeyRevoked :: string where "KeyRevoked = ''revoked''"

record DescriptorKey =
  dk_Fingerprint :: string
  dk_URL :: string
  dk_Status :: string
  dk_ValidUntil :: time

record IndexPointer =
  ip_URL :: string
  ip_SignatureURL :: string

record Descriptor =
  ds_RepoName :: string
  ds_Description :: string
  ds_Keys :: "DescriptorKey list"
  ds_ActiveIndex :: IndexPointer
  ds_ArchiveIndex :: IndexPointer

definition decodeKey :: "nat \<Rightarrow> string option \<Rightarrow> wireKey \<Rightarrow> repodataError + DescriptorKey" where
  "decodeKey i prev w =
     rbind (rmap_err (AtSigningKey i) (required ''fingerprint'' (wk_Fingerprint w))) (\<lambda>fp.
     rbind (rmap_err (AtSigningKey i) (requiredNonempty ''url'' (wk_URL w))) (\<lambda>url.
     rbind (rmap_err (AtSigningKey i) (required ''status'' (wk_Status w))) (\<lambda>status.
     rbind (rmap_err (AtSigningKey i) (validateHexFingerprint fp)) (\<lambda>_.
     rbind (case prev of
              None \<Rightarrow> Inr ()
            | Some p \<Rightarrow> if fp < p then Inl KeysNotSorted
                        else if fp = p then Inl (KeyDuplicated fp) else Inr ()) (\<lambda>_.
     rbind (if status = KeyActive then Inr zeroTime
            else if status = KeyTransitioning then
              (if wk_ValidUntil w = [] then Inl (FieldMissing ''valid_until'')
               else ParseUTCTimestamp (wk_ValidUntil w))
            else if status = KeyRevoked then Inr zeroTime
            else Inl (FieldInvalid ''status'' status)) (\<lambda>validUntil.
     Inr \<lparr>dk_Fingerprint = fp, dk_URL = url, dk_Status = status, dk_ValidUntil = validUntil\<rparr>))))))"

fun decodeKeysFrom :: "nat \<Rightarrow> string option \<Rightarrow> wireKey list \<Rightarrow> repodataError + DescriptorKey list" where
  "decodeKeysFrom i prev [] = Inr []"
| "decodeKeysFrom i prev (w # ws) =
     rbind (decodeKey i prev w) (\<lambda>key.
     rbind (decodeKeysFrom (Suc i) (Some (dk_Fingerprint key)) ws) (\<lambda>keys. Inr (key # keys)))"

definition decodeKeys :: "wireKey list \<Rightarrow> repodataError + DescriptorKey list" where
  "decodeKeys wires =
     (if wires = [] then Inl (FieldMissing ''keys'')
      else
        rbind (decodeKeysFrom 0 None wires) (\<lambda>keys.
        if \<not> list_ex (\<lambda>k. dk_Status k = KeyActive) keys then Inl NoActiveKey else Inr keys))"

definition decodeIndexPointer :: "string \<Rightarrow> wireIndexPointer option \<Rightarrow> repodataError + IndexPointer" where
  "decodeIndexPointer name w =
     rbind (required name w) (\<lambda>w.
     rbind (requiredNonempty ''url'' (wip_URL w)) (\<lambda>url.
     rbind (requiredNonempty ''signature_url'' (wip_SignatureURL w)) (\<lambda>sig.
     Inr \<lparr>ip_URL = url, ip_SignatureURL = sig\<rparr>)))"

definition decodeDescriptorWire :: "wireDescriptor \<Rightarrow> repodataError + Descriptor" where
  "decodeDescriptorWire w =
     rbind (required ''schema_version'' (wds_SchemaVersion w)) (\<lambda>schema.
     rbind (required ''repo'' (wds_Repo w)) (\<lambda>repo.
     rbind (required ''indexes'' (wds_Indexes w)) (\<lambda>indexes.
     if schema \<noteq> 1 then Inl (FieldInvalid ''schema_version'' []) else
     rbind (requiredNonempty ''repo.name'' (wrp_Name repo)) (\<lambda>name.
     rbind (required ''repo.signing'' (wrp_Signing repo)) (\<lambda>signing.
     if wsg_Algorithm signing \<noteq> Some ''ed25519'' then Inl (FieldInvalid ''algorithm'' []) else
     rbind (decodeKeys (wsg_Keys signing)) (\<lambda>keys.
     rbind (decodeIndexPointer ''active'' (wix_Active indexes)) (\<lambda>active.
     rbind (decodeIndexPointer ''archive'' (wix_Archive indexes)) (\<lambda>archive.
     Inr \<lparr>ds_RepoName = name, ds_Description = wrp_Description repo, ds_Keys = keys,
          ds_ActiveIndex = active, ds_ArchiveIndex = archive\<rparr>))))))))"

definition DecodeDescriptor :: "jsonReader \<Rightarrow> string \<Rightarrow> repodataError + Descriptor" where
  "DecodeDescriptor r data =
     (case j_descriptor r data of None \<Rightarrow> Inl InvalidJSON | Some w \<Rightarrow> decodeDescriptorWire w)"

subsection \<open>The index\<close>

definition IndexActive :: string where "IndexActive = ''active''"
definition IndexArchive :: string where "IndexArchive = ''archive''"

record IndexEntry =
  ie_Name :: string
  ie_Version :: version
  ie_Architecture :: string
  ie_Description :: string
  ie_License :: string
  ie_LicenseClass :: LicenseClass
  ie_Homepage :: string
  ie_DefaultRoot :: string
  ie_AlternateUpgrade :: "AlternateUpgrade option"
  ie_Dependencies :: "Dependency list"
  ie_OptionalDependencies :: "Dependency list"
  ie_Conflicts :: "Dependency list"
  ie_Provides :: "Provides list"
  ie_Replaces :: "Replaces list"
  ie_SideEffects :: "SideEffect list"
  ie_SizeCompressed :: int
  ie_SizeInstalled :: int
  ie_Hash :: string
  ie_URL :: string
  ie_BuildTimestamp :: time
  ie_BuildFarmID :: string

record Index =
  ix_RepoName :: string
  ix_Kind :: string
  ix_IndexVersion :: int
  ix_GeneratedAt :: time
  ix_Packages :: "IndexEntry list"

definition decodeArray ::
    "(string \<Rightarrow> 'w list option) \<Rightarrow> ('w list \<Rightarrow> manifestError + 'a list) \<Rightarrow> string \<Rightarrow>
       repodataError + 'a list" where
  "decodeArray read check data =
     (if data = [] then Inr []
      else (case read data of
              None \<Rightarrow> Inl InvalidJSON
            | Some ws \<Rightarrow> rmap_err ArrayInvalid (check ws)))"

definition DecodeDependencyArray ::
    "jsonReader \<Rightarrow> externals \<Rightarrow> string \<Rightarrow> string \<Rightarrow> bool \<Rightarrow> repodataError + Dependency list" where
  "DecodeDependencyArray r x field data claimsAllowed =
     decodeArray (j_dependencies r) (\<lambda>ws. validateDependencies x field ws claimsAllowed) data"

definition DecodeProvidesArray ::
    "jsonReader \<Rightarrow> externals \<Rightarrow> string \<Rightarrow> repodataError + Provides list" where
  "DecodeProvidesArray r x data = decodeArray (j_provides r) (validateProvides x) data"

definition DecodeReplacesArray :: "jsonReader \<Rightarrow> string \<Rightarrow> repodataError + Replaces list" where
  "DecodeReplacesArray r data = decodeArray (j_replaces r) validateReplaces data"

definition DecodeSideEffectArray :: "jsonReader \<Rightarrow> string \<Rightarrow> repodataError + SideEffect list" where
  "DecodeSideEffectArray r data = decodeArray (j_strings r) validateSideEffects data"

definition decodeHash :: "wireHash \<Rightarrow> repodataError + string" where
  "decodeHash h =
     (if wh_Algorithm h \<noteq> Some ''sha256'' then Inl (FieldInvalid ''hash'' [])
      else
        rbind (required ''value'' (wh_Value h)) (\<lambda>v.
        rbind (validateHexFingerprint v) (\<lambda>_. Inr v)))"

definition decodeEntryBuild :: "wireIndexBuild option \<Rightarrow> repodataError + time \<times> string" where
  "decodeEntryBuild b =
     (case b of
        None \<Rightarrow> Inr (zeroTime, [])
      | Some b \<Rightarrow>
          if wib_Timestamp b = [] then Inr (zeroTime, [])
          else rbind (ParseUTCTimestamp (wib_Timestamp b)) (\<lambda>ts. Inr (ts, wib_FarmID b)))"

definition decodeIndexEntry ::
    "jsonReader \<Rightarrow> externals \<Rightarrow> wireIndexEntry \<Rightarrow> repodataError + IndexEntry" where
  "decodeIndexEntry r x w =
     rbind (required ''name'' (we_Name w)) (\<lambda>name.
     rbind (required ''version'' (we_Version w)) (\<lambda>rawVersion.
     rbind (required ''architecture'' (we_Architecture w)) (\<lambda>arch.
     rbind (required ''size_compressed'' (we_SizeCompressed w)) (\<lambda>sizeCompressed.
     rbind (required ''size_installed'' (we_SizeInstalled w)) (\<lambda>sizeInstalled.
     rbind (required ''hash'' (we_Hash w)) (\<lambda>whash.
     rbind (requiredNonempty ''url'' (we_URL w)) (\<lambda>url.
     rbind (rmap_err NameInvalid (validateName name)) (\<lambda>_.
     rbind (rmap_err ArchitectureInvalid (validateArchitecture arch)) (\<lambda>_.
     rbind (rmap_err LicenseClassInvalid (ParseLicenseClass (we_LicenseClass w))) (\<lambda>lc.
     rbind (if we_DefaultRoot w \<noteq> []
            then rmap_err DefaultRootInvalid (ValidateRootRef (we_DefaultRoot w)) else Inr ()) (\<lambda>_.
     rbind (rmap_err AlternateUpgradeInvalid (validateAlternateUpgrade (we_AlternateUpgrade w)))
       (\<lambda>alternate.
     rbind (rmap_err VersionInvalid (Parse rawVersion)) (\<lambda>ver.
     if sizeCompressed < 0 \<or> sizeInstalled < 0 then Inl (FieldInvalid ''size'' []) else
     rbind (decodeHash whash) (\<lambda>hash.
     rbind (DecodeDependencyArray r x ''dependencies'' (we_Dependencies w) True) (\<lambda>deps.
     rbind (DecodeDependencyArray r x ''optional_dependencies'' (we_OptionalDependencies w) True)
       (\<lambda>optdeps.
     rbind (DecodeDependencyArray r x ''conflicts'' (we_Conflicts w) False) (\<lambda>conflicts.
     rbind (DecodeProvidesArray r x (we_Provides w)) (\<lambda>provides.
     rbind (DecodeReplacesArray r (we_Replaces w)) (\<lambda>replaces.
     rbind (DecodeSideEffectArray r (we_SideEffects w)) (\<lambda>effects.
     rbind (decodeEntryBuild (we_Build w)) (\<lambda>build.
     Inr \<lparr>ie_Name = name, ie_Version = ver, ie_Architecture = arch,
          ie_Description = we_Description w, ie_License = we_License w, ie_LicenseClass = lc,
          ie_Homepage = we_Homepage w, ie_DefaultRoot = we_DefaultRoot w,
          ie_AlternateUpgrade = alternate, ie_Dependencies = deps,
          ie_OptionalDependencies = optdeps, ie_Conflicts = conflicts, ie_Provides = provides,
          ie_Replaces = replaces, ie_SideEffects = effects, ie_SizeCompressed = sizeCompressed,
          ie_SizeInstalled = sizeInstalled, ie_Hash = hash, ie_URL = url,
          ie_BuildTimestamp = fst build, ie_BuildFarmID = snd build\<rparr>
     )))))))))))))))))))))"

fun decodeEntries ::
    "jsonReader \<Rightarrow> externals \<Rightarrow> string \<Rightarrow> nat \<Rightarrow> string option \<Rightarrow> wireIndexEntry list \<Rightarrow>
       repodataError + IndexEntry list" where
  "decodeEntries r x kind i prev [] = Inr []"
| "decodeEntries r x kind i prev (w # ws) =
     rbind (rmap_err (AtIndexEntry i) (decodeIndexEntry r x w)) (\<lambda>entry.
     rbind (case prev of
              None \<Rightarrow> Inr ()
            | Some p \<Rightarrow>
                if ie_Name entry < p then Inl (IndexNotSorted p (ie_Name entry))
                else if ie_Name entry = p \<and> kind = IndexActive
                then Inl (IndexDuplicate (ie_Name entry)) else Inr ()) (\<lambda>_.
     rbind (decodeEntries r x kind (Suc i) (Some (ie_Name entry)) ws) (\<lambda>entries.
     Inr (entry # entries))))"

definition decodeIndexWire :: "jsonReader \<Rightarrow> externals \<Rightarrow> wireIndex \<Rightarrow> repodataError + Index" where
  "decodeIndexWire r x w =
     rbind (required ''schema_version'' (wi_SchemaVersion w)) (\<lambda>schema.
     rbind (required ''repo'' (wi_Repo w)) (\<lambda>repo.
     rbind (required ''kind'' (wi_Kind w)) (\<lambda>kind.
     rbind (required ''generated_at'' (wi_GeneratedAt w)) (\<lambda>generated.
     rbind (required ''index_version'' (wi_IndexVersion w)) (\<lambda>ver.
     if schema \<noteq> 1 then Inl (FieldInvalid ''schema_version'' [])
     else if kind \<noteq> IndexActive \<and> kind \<noteq> IndexArchive then Inl (FieldInvalid ''kind'' kind)
     else if ver < 1 then Inl (FieldInvalid ''index_version'' []) else
     rbind (ParseUTCTimestamp generated) (\<lambda>generatedAt.
     rbind (decodeEntries r x kind 0 None (wi_Packages w)) (\<lambda>entries.
     Inr \<lparr>ix_RepoName = repo, ix_Kind = kind, ix_IndexVersion = ver,
          ix_GeneratedAt = generatedAt, ix_Packages = entries\<rparr>)))))))"

definition DecodeIndex :: "jsonReader \<Rightarrow> externals \<Rightarrow> string \<Rightarrow> repodataError + Index" where
  "DecodeIndex r x data =
     (case j_index r data of None \<Rightarrow> Inl InvalidJSON | Some w \<Rightarrow> decodeIndexWire r x w)"

subsection \<open>Signatures\<close>

record Envelope =
  ev_KeyFingerprint :: string
  ev_Signature :: string

definition hexDigit :: "nat \<Rightarrow> char" where
  "hexDigit n = (if n < 10 then char_of (48 + n) else char_of (87 + n))"

definition hexEncode :: "string \<Rightarrow> string" where
  "hexEncode s = concat (map (\<lambda>c. [hexDigit (of_char c div 16), hexDigit (of_char c mod 16)]) s)"

definition Fingerprint :: "crypto \<Rightarrow> string \<Rightarrow> string" where
  "Fingerprint k pub = hexEncode (k_sha256 k pub)"

definition decodeEnvelopeWire :: "wireEnvelope \<Rightarrow> repodataError + Envelope" where
  "decodeEnvelopeWire w =
     rbind (required ''schema_version'' (wv_SchemaVersion w)) (\<lambda>schema.
     rbind (required ''algorithm'' (wv_Algorithm w)) (\<lambda>algorithm.
     rbind (required ''key_fingerprint'' (wv_KeyFingerprint w)) (\<lambda>fp.
     rbind (required ''signature'' (wv_Signature w)) (\<lambda>enc.
     if schema \<noteq> 1 then Inl (FieldInvalid ''schema_version'' [])
     else if algorithm \<noteq> ''ed25519'' then Inl (FieldInvalid ''algorithm'' algorithm) else
     rbind (validateHexFingerprint fp) (\<lambda>_.
     (case rawStdDecode enc of
        None \<Rightarrow> Inl (FieldInvalid ''signature'' enc)
      | Some sig \<Rightarrow>
          if length sig \<noteq> ed25519SignatureSize then Inl (FieldInvalid ''signature'' enc)
          else Inr \<lparr>ev_KeyFingerprint = fp, ev_Signature = sig\<rparr>))))))"

definition DecodeEnvelope :: "jsonReader \<Rightarrow> string \<Rightarrow> repodataError + Envelope" where
  "DecodeEnvelope r data =
     (case j_envelope r data of None \<Rightarrow> Inl InvalidJSON | Some w \<Rightarrow> decodeEnvelopeWire w)"

definition Verify :: "crypto \<Rightarrow> Envelope \<Rightarrow> string \<Rightarrow> string \<Rightarrow> repodataError + unit" where
  "Verify k e pub digest =
     (if length pub \<noteq> ed25519PublicKeySize then Inl (FieldInvalid ''public key'' pub)
      else if Fingerprint k pub \<noteq> ev_KeyFingerprint e then Inl (FieldInvalid ''fingerprint'' pub)
      else if \<not> k_verify k pub digest (ev_Signature e) then Inl Untrusted
      else Inr ())"

definition VerifyDetached ::
    "crypto \<Rightarrow> jsonReader \<Rightarrow> string \<Rightarrow> string \<Rightarrow> string list \<Rightarrow> repodataError + unit" where
  "VerifyDetached k r content sigContent candidates =
     rbind (DecodeEnvelope r sigContent) (\<lambda>env.
     let digest = k_sha256 k content in
     if list_ex (\<lambda>key. length key = ed25519PublicKeySize \<and> k_verify k key digest (ev_Signature env))
          candidates
     then Inr () else Inl Untrusted)"

end
