(* ===== verification/Trust.thy ===== *)
theory Trust
  imports RepoData "HOL-Library.Word"
begin

section \<open>Trust sets, freshness and age\<close>

text \<open>
  \<open>internal/repository/trust.go\<close>, \<open>freshness.go\<close> and \<open>age.go\<close>. The JSON text
  in which a trust set is stored is represented by the wire values it holds; the empty string
  and \<open>[]\<close> are both the empty list.
\<close>

subsection \<open>Trust sets\<close>

record TrustKey =
  tk_Fingerprint :: string
  tk_PublicKey :: string
  tk_Status :: string
  tk_ValidUntil :: time

type_synonym TrustSet = "TrustKey list"

datatype trustError =
    NoPublicKey string | KeyDoesNotHash string | KeyNotBase64 string | KeyBadLength string nat
  | ValidUntilInvalid string repodataError

definition trustKey :: "crypto \<Rightarrow> string gomap \<Rightarrow> DescriptorKey \<Rightarrow> trustError + TrustKey" where
  "trustKey k publicKeys dk =
     (case map_get publicKeys (dk_Fingerprint dk) of
        None \<Rightarrow> Inl (NoPublicKey (dk_Fingerprint dk))
      | Some pub \<Rightarrow>
          if Fingerprint k pub \<noteq> dk_Fingerprint dk then Inl (KeyDoesNotHash (dk_Fingerprint dk))
          else Inr \<lparr>tk_Fingerprint = dk_Fingerprint dk, tk_PublicKey = pub,
                    tk_Status = dk_Status dk, tk_ValidUntil = dk_ValidUntil dk\<rparr>)"

definition NewTrustSet :: "crypto \<Rightarrow> Descriptor \<Rightarrow> string gomap \<Rightarrow> trustError + TrustSet" where
  "NewTrustSet k d publicKeys = traverse (trustKey k publicKeys) (ds_Keys d)"

definition verifiableAt :: "TrustKey \<Rightarrow> time \<Rightarrow> bool" where
  "verifiableAt k now =
     (if tk_Status k = KeyActive then True
      else if tk_Status k = KeyTransitioning then \<not> now > tk_ValidUntil k
      else False)"

definition VerificationKeys :: "TrustSet \<Rightarrow> time \<Rightarrow> string list" where
  "VerificationKeys ts now = map tk_PublicKey (filter (\<lambda>k. verifiableAt k now) ts)"

definition Resolver :: "TrustSet \<Rightarrow> time \<Rightarrow> string \<Rightarrow> string \<times> bool" where
  "Resolver ts now fingerprint =
     (case find (\<lambda>k. tk_Fingerprint k = fingerprint) ts of
        None \<Rightarrow> ([], False)
      | Some k \<Rightarrow> (tk_PublicKey k, verifiableAt k now))"

subsection \<open>Storing a trust set\<close>

definition b64char :: "int \<Rightarrow> char" where
  "b64char n =
     (if n < 26 then char_of (65 + n) else if n < 52 then char_of (71 + n)
      else if n < 62 then char_of (n - 4) else if n = 62 then CHR ''+'' else CHR ''/'')"

fun b64groups :: "int list \<Rightarrow> int list" where
  "b64groups [] = []"
| "b64groups [a] = [a div 4, a mod 4 * 16]"
| "b64groups [a, b] = [a div 4, a mod 4 * 16 + b div 16, b mod 16 * 4]"
| "b64groups (a # b # c # r) =
     a div 4 # (a mod 4 * 16 + b div 16) # (b mod 16 * 4 + c div 64) # c mod 64 # b64groups r"

definition rawStdEncode :: "string \<Rightarrow> string" where
  "rawStdEncode s = map b64char (b64groups (map of_char s))"

definition pad :: "nat \<Rightarrow> int \<Rightarrow> string" where
  "pad n v = map (\<lambda>i. char_of (48 + v div 10 ^ i mod 10)) (rev [0..<n])"

text \<open>
  \<open>t.UTC().Format(time.RFC3339)\<close> for the years 0 to 9999. The fraction of a second is
  not written.
\<close>

definition formatRFC3339 :: "time \<Rightarrow> string" where
  "formatRFC3339 t =
     (let secs = t div second_ns; days = secs div 86400; sod = secs mod 86400;
          z = days + 719468; era = z div 146097; doe = z mod 146097;
          yoe = (doe - doe div 1460 + doe div 36524 - doe div 146096) div 365;
          doy = doe - (365 * yoe + yoe div 4 - yoe div 100);
          mp = (5 * doy + 2) div 153; d = doy - (153 * mp + 2) div 5 + 1;
          m = (if mp < 10 then mp + 3 else mp - 9);
          y = yoe + era * 400 + (if m \<le> 2 then 1 else 0)
      in pad 4 y @ ''-'' @ pad 2 m @ ''-'' @ pad 2 d @ ''T'' @ pad 2 (sod div 3600) @ '':''
         @ pad 2 (sod mod 3600 div 60) @ '':'' @ pad 2 (sod mod 60) @ ''Z'')"

record wireTrustKey =
  wt_Fingerprint :: string
  wt_PublicKey :: string
  wt_Status :: string
  wt_ValidUntil :: string

definition Marshal :: "TrustSet \<Rightarrow> wireTrustKey list" where
  "Marshal ts =
     map (\<lambda>k. \<lparr>wt_Fingerprint = tk_Fingerprint k, wt_PublicKey = rawStdEncode (tk_PublicKey k),
                wt_Status = tk_Status k,
                wt_ValidUntil = (if tk_Status k = KeyTransitioning
                                 then formatRFC3339 (tk_ValidUntil k) else [])\<rparr>) ts"

definition parseTrustKey :: "wireTrustKey \<Rightarrow> trustError + TrustKey" where
  "parseTrustKey w =
     (case rawStdDecode (wt_PublicKey w) of
        None \<Rightarrow> Inl (KeyNotBase64 (wt_Fingerprint w))
      | Some pub \<Rightarrow>
          if length pub \<noteq> ed25519PublicKeySize
          then Inl (KeyBadLength (wt_Fingerprint w) (length pub))
          else
            rbind (if wt_ValidUntil w \<noteq> []
                   then rmap_err (ValidUntilInvalid (wt_Fingerprint w))
                          (ParseUTCTimestamp (wt_ValidUntil w))
                   else Inr zeroTime) (\<lambda>validUntil.
            Inr \<lparr>tk_Fingerprint = wt_Fingerprint w, tk_PublicKey = pub,
                 tk_Status = wt_Status w, tk_ValidUntil = validUntil\<rparr>))"

definition ParseTrustSet :: "wireTrustKey list \<Rightarrow> trustError + TrustSet" where
  "ParseTrustSet ws = traverse parseTrustKey ws"

subsection \<open>Freshness\<close>

datatype FreshnessResult = FreshnessRejected | FreshnessNoProgress | FreshnessProgress

definition CheckFreshness :: "Index \<Rightarrow> int \<Rightarrow> time \<Rightarrow> FreshnessResult" where
  "CheckFreshness idx recordedVersion recordedGeneratedAt =
     (if ix_IndexVersion idx < recordedVersion then FreshnessRejected
      else if ix_GeneratedAt idx < recordedGeneratedAt then FreshnessRejected
      else if ix_IndexVersion idx = recordedVersion \<and> ix_GeneratedAt idx = recordedGeneratedAt
      then FreshnessNoProgress
      else FreshnessProgress)"

lemma CheckFreshness_cases:
  "CheckFreshness idx v t = FreshnessRejected \<longleftrightarrow> ix_IndexVersion idx < v \<or> ix_GeneratedAt idx < t"
  "CheckFreshness idx v t = FreshnessNoProgress \<longleftrightarrow> ix_IndexVersion idx = v \<and> ix_GeneratedAt idx = t"
  "CheckFreshness idx v t = FreshnessProgress \<longleftrightarrow>
     v \<le> ix_IndexVersion idx \<and> t \<le> ix_GeneratedAt idx \<and> (v < ix_IndexVersion idx \<or> t < ix_GeneratedAt idx)"
  by (auto simp: CheckFreshness_def)

subsection \<open>Age\<close>

text \<open>
  A \<open>time.Duration\<close> is a 64-bit count of nanoseconds: products wrap around, and
  \<open>Time.Sub\<close> saturates.
\<close>

definition wrap64 :: "int \<Rightarrow> int" where
  "wrap64 n = sint (word_of_int n :: 64 word)"

definition maxDuration :: int where
  "maxDuration = 2 ^ 63 - 1"

definition timeSub :: "time \<Rightarrow> time \<Rightarrow> int" where
  "timeSub a b = max (- maxDuration - 1) (min maxDuration (a - b))"

definition hour_ns :: int where
  "hour_ns = 3600 * second_ns"

definition DefaultMaxTrustedAgeDays :: int where "DefaultMaxTrustedAgeDays = 30"
definition DefaultMaxIndexStalenessDays :: int where "DefaultMaxIndexStalenessDays = 90"

definition MaxTrustedAge :: "int \<Rightarrow> int" where
  "MaxTrustedAge days =
     wrap64 (wrap64 ((if days = 0 then DefaultMaxTrustedAgeDays else days) * 24) * hour_ns)"

definition MaxIndexStaleness :: "int \<Rightarrow> int" where
  "MaxIndexStaleness days =
     wrap64 (wrap64 ((if days = 0 then DefaultMaxIndexStalenessDays else days) * 24) * hour_ns)"

lemma wrap64_id: "- (2 ^ 63) \<le> n \<Longrightarrow> n < 2 ^ 63 \<Longrightarrow> wrap64 n = n"
  unfolding wrap64_def by (simp add: sint_sbintrunc' signed_take_bit_int_eq_self)

text \<open>Up to 106751 days the product is the number of nanoseconds it means to be.\<close>

lemma MaxTrustedAge_exact:
  assumes "1 \<le> days" and "days \<le> 106751"
  shows "MaxTrustedAge days = days * 24 * 3600 * second_ns"
  using assms by (simp add: MaxTrustedAge_def hour_ns_def second_ns_def wrap64_id)

lemma MaxTrustedAge_overflows: "MaxTrustedAge 106752 < 0" "MaxTrustedAge 213504 < hour_ns"
  by (simp_all add: MaxTrustedAge_def wrap64_def hour_ns_def second_ns_def)

subsection \<open>Trust sets of a descriptor\<close>

lemma NewTrustSet_keys:
  assumes "NewTrustSet k d keys = Inr ts"
  shows "map tk_Fingerprint ts = map dk_Fingerprint (ds_Keys d)"
    and "map tk_Status ts = map dk_Status (ds_Keys d)"
    and "\<And>t. t \<in> set ts \<Longrightarrow> Fingerprint k (tk_PublicKey t) = tk_Fingerprint t"
proof -
  have rel: "list_all2 (\<lambda>dk t. trustKey k keys dk = Inr t) (ds_Keys d) ts"
    using assms by (simp add: NewTrustSet_def traverse_eq_Inr)
  have one: "tk_Fingerprint t = dk_Fingerprint dk \<and> tk_Status t = dk_Status dk \<and>
      Fingerprint k (tk_PublicKey t) = tk_Fingerprint t" if "trustKey k keys dk = Inr t" for dk t
    using that by (auto simp: trustKey_def split: option.splits if_splits)
  show "map tk_Fingerprint ts = map dk_Fingerprint (ds_Keys d)"
    using rel by (induction rule: list_all2_induct) (simp_all add: one)
  show "map tk_Status ts = map dk_Status (ds_Keys d)"
    using rel by (induction rule: list_all2_induct) (simp_all add: one)
  show "Fingerprint k (tk_PublicKey t) = tk_Fingerprint t" if "t \<in> set ts" for t
    using rel that by (induction rule: list_all2_induct) (auto dest: one)
qed

lemma VerificationKeys_mem:
  "pub \<in> set (VerificationKeys ts now) \<longleftrightarrow>
     (\<exists>t\<in>set ts. tk_PublicKey t = pub \<and>
        (tk_Status t = KeyActive \<or> tk_Status t = KeyTransitioning \<and> now \<le> tk_ValidUntil t))"
  by (auto simp: VerificationKeys_def verifiableAt_def split: if_splits)

lemma Resolver_verifies:
  "Resolver ts now fp = (pub, True) \<Longrightarrow> pub \<in> set (VerificationKeys ts now)"
  by (auto simp: Resolver_def VerificationKeys_def find_Some_iff split: option.splits)

subsection \<open>Base64 round trip\<close>

lemma b64val_char: "0 \<le> n \<Longrightarrow> n < 64 \<Longrightarrow> b64val (b64char n) = Some n"
proof -
  have "list_all (\<lambda>n. b64val (b64char n) = Some n) [0..63]" by code_simp
  then show "0 \<le> n \<Longrightarrow> n < 64 \<Longrightarrow> b64val (b64char n) = Some n"
    by (simp add: list_all_iff)
qed

lemma b64char_no_newline: "0 \<le> n \<Longrightarrow> n < 64 \<Longrightarrow> b64char n \<noteq> CHR 0x0D \<and> b64char n \<noteq> CHR 0x0A"
proof -
  have "list_all (\<lambda>n. b64char n \<noteq> CHR 0x0D \<and> b64char n \<noteq> CHR 0x0A) [0..63]" by code_simp
  then show "0 \<le> n \<Longrightarrow> n < 64 \<Longrightarrow> b64char n \<noteq> CHR 0x0D \<and> b64char n \<noteq> CHR 0x0A"
    by (simp add: list_all_iff)
qed

lemma b64values_map: "\<forall>v\<in>set vs. 0 \<le> v \<and> v < 64 \<Longrightarrow> b64values (map b64char vs) = Some vs"
  by (induction vs) (simp_all add: b64val_char b64char_no_newline)

lemma unpack:
  fixes k x y :: int
  assumes "0 \<le> y" and "y < k"
  shows "(x * k + y) div k = x" and "(x * k + y) mod k = y"
  using assms by (simp_all add: div_pos_pos_trivial)

lemma byte_div: "0 \<le> (b::int) \<Longrightarrow> b < 256 \<Longrightarrow> 0 \<le> b div 16 \<and> b div 16 < 16"
  by (simp add: pos_imp_zdiv_nonneg_iff div_less_iff_less_mult)

lemma byte_div64: "0 \<le> (b::int) \<Longrightarrow> b < 256 \<Longrightarrow> 0 \<le> b div 64 \<and> b div 64 < 4"
  by (simp add: pos_imp_zdiv_nonneg_iff div_less_iff_less_mult)

lemma byte_div4: "0 \<le> (b::int) \<Longrightarrow> b < 256 \<Longrightarrow> 0 \<le> b div 4 \<and> b div 4 < 64"
  by (simp add: pos_imp_zdiv_nonneg_iff div_less_iff_less_mult)

lemma pack_range:
  fixes u v k m :: int
  assumes "0 \<le> u" and "u < m" and "0 \<le> v" and "v < k"
  shows "0 \<le> u * k + v \<and> u * k + v < m * k"
proof -
  have "u * k + v < (u + 1) * k" using assms(4) by (simp add: algebra_simps)
  also have "\<dots> \<le> m * k" using assms by (intro mult_right_mono) auto
  finally show ?thesis using assms by simp
qed

lemma b64groups_range: "\<forall>b\<in>set bs. 0 \<le> b \<and> b < 256 \<Longrightarrow> \<forall>v\<in>set (b64groups bs). 0 \<le> v \<and> v < 64"
proof (induction bs rule: b64groups.induct)
  case (4 a b c r)
  have "0 \<le> a mod 4 * 16 + b div 16 \<and> a mod 4 * 16 + b div 16 < 4 * 16"
    and "0 \<le> b mod 16 * 4 + c div 64 \<and> b mod 16 * 4 + c div 64 < 16 * 4"
    using 4(2) by (intro pack_range; simp add: byte_div byte_div64)+
  with 4 show ?case by (simp add: byte_div4)
next
  case (3 a b)
  have "0 \<le> a mod 4 * 16 + b div 16 \<and> a mod 4 * 16 + b div 16 < 4 * 16"
    and "0 \<le> b mod 16 * 4 + 0 \<and> b mod 16 * 4 + 0 < 16 * 4"
    using 3 by (intro pack_range; simp add: byte_div)+
  with 3 show ?case by (simp add: byte_div4)
next
  case (2 a)
  have "0 \<le> a mod 4 * 16 + 0 \<and> a mod 4 * 16 + 0 < 4 * 16"
    by (intro pack_range) simp_all
  with 2 show ?case by (simp add: byte_div4)
qed simp

lemma b64bytes_groups:
  "\<forall>b\<in>set bs. 0 \<le> b \<and> b < 256 \<Longrightarrow> b64bytes (b64groups bs) = Some (map char_of bs)"
proof (induction bs rule: b64groups.induct)
  case (4 a b c r)
  then have "0 \<le> b div 16 \<and> b div 16 < 16" and "0 \<le> c div 64 \<and> c div 64 < 4"
    by (simp_all add: byte_div byte_div64)
  with 4 show ?case by (simp add: unpack)
next
  case (3 a b)
  then have "0 \<le> b div 16 \<and> b div 16 < 16" by (simp add: byte_div)
  then show ?case by (simp add: unpack)
qed simp_all

lemma char_code_range: "0 \<le> (of_char c :: int) \<and> (of_char c :: int) < 256"
proof -
  have "(of_char c :: int) = int (of_char c)" by (simp only: of_nat_of_char)
  moreover have "(of_char c :: nat) < 256" by simp
  ultimately show ?thesis by linarith
qed

lemma rawStd_roundtrip: "rawStdDecode (rawStdEncode s) = Some s"
proof -
  define bs :: "int list" where "bs = map of_char s"
  have "\<forall>b\<in>set bs. 0 \<le> b \<and> b < 256"
    unfolding bs_def using char_code_range by auto
  moreover from this have "b64values (map b64char (b64groups bs)) = Some (b64groups bs)"
    by (intro b64values_map b64groups_range)
  moreover have "map char_of bs = s" by (simp add: bs_def o_def map_idI)
  ultimately show ?thesis
    by (simp add: rawStdDecode_def rawStdEncode_def bs_def [symmetric] b64bytes_groups)
qed

text \<open>
  A trust set of 32-byte keys without transitioning ones is read back as it was stored. (A
  transitioning key comes back with its expiry cut to whole seconds.)
\<close>

lemma ParseTrustSet_Marshal:
  assumes "\<And>t. t \<in> set ts \<Longrightarrow> length (tk_PublicKey t) = ed25519PublicKeySize \<and>
      tk_Status t \<noteq> KeyTransitioning \<and> tk_ValidUntil t = zeroTime"
  shows "ParseTrustSet (Marshal ts) = Inr ts"
  using assms
  by (induction ts) (simp_all add: ParseTrustSet_def Marshal_def parseTrustKey_def rawStd_roundtrip)

end
