(* ===== verification/RepoClient.thy ===== *)
theory RepoClient
  imports Trust
begin

section \<open>The repository client\<close>

text \<open>
  \<open>internal/repository/client.go\<close>, \<open>resolveURL\<close> of \<open>fetch.go\<close>,
  \<open>TrustAge\<close> and \<open>IndexStaleness\<close> of \<open>age.go\<close>, the repository row of
  \<open>internal/db\<close>, and the configuration checks of \<open>internal/config/config.go\<close>.

  The network is an argument: \<open>net url limit\<close> is what a fetch of \<open>url\<close> returns,
  chosen afresh for every operation. So are \<open>net/url\<close> (\<open>urlOps\<close>) and the PEM decoder.
  The database and the cache directory are the state. A cache entry is the pair of index
  bytes and signature that the pointer file publishes; its file names are not modelled.
\<close>

record urlOps =
  u_scheme :: "string \<Rightarrow> string option"
  u_isAbs :: "string \<Rightarrow> bool"
  u_resolve :: "string \<Rightarrow> string \<Rightarrow> string option"
  u_host :: "string \<Rightarrow> string"
  u_path :: "string \<Rightarrow> string"

record clientEnv =
  env_crypto :: crypto
  env_json :: jsonReader
  env_ext :: externals
  env_url :: urlOps
  env_pem :: "string \<Rightarrow> string option"

type_synonym network = "string \<Rightarrow> nat \<Rightarrow> string option"

subsection \<open>Configuration\<close>

definition PolicyRequired :: string where "PolicyRequired = ''required''"
definition PolicyOptional :: string where "PolicyOptional = ''optional''"

record RepoConfig =
  cfg_Name :: string
  cfg_BaseURL :: string
  cfg_Priority :: int
  cfg_SignaturePolicy :: string
  cfg_TrustAnchors :: "string list"
  cfg_AllowInsecureTransport :: bool
  cfg_AllowSDOverrides :: bool
  cfg_MinIndexVersion :: int
  cfg_MaxTrustedAgeDays :: int
  cfg_MaxIndexStalenessDays :: int

datatype configError =
    RepoNameLength | RepoNameCharacter char | BaseURLInvalid string | PriorityInvalid
  | PolicyInvalid | AnchorInvalid string | LimitNegative string

definition validateRepoName :: "string \<Rightarrow> configError + unit" where
  "validateRepoName name =
     (if name = [] \<or> length name > 64 then Inl RepoNameLength
      else (case filter (\<lambda>c. \<not> isLowerOrDigit c \<and> c \<noteq> CHR ''-'') name of
              c # _ \<Rightarrow> Inl (RepoNameCharacter c)
            | [] \<Rightarrow> Inr ()))"

definition validateBaseURL :: "urlOps \<Rightarrow> string \<Rightarrow> bool \<Rightarrow> configError + unit" where
  "validateBaseURL u base allowInsecure =
     (if base = [] then Inl (BaseURLInvalid base)
      else if has_suffix base ''/'' then Inl (BaseURLInvalid base)
      else (case u_scheme u base of
              None \<Rightarrow> Inl (BaseURLInvalid base)
            | Some scheme \<Rightarrow>
                if scheme = ''file'' then
                  (if u_path u base = [] then Inl (BaseURLInvalid base) else Inr ())
                else if scheme = ''http'' \<and> \<not> allowInsecure then Inl (BaseURLInvalid base)
                else if scheme \<noteq> ''https'' \<and> scheme \<noteq> ''http'' then Inl (BaseURLInvalid base)
                else if u_host u base = [] then Inl (BaseURLInvalid base) else Inr ()))"

definition validateConfig :: "urlOps \<Rightarrow> RepoConfig \<Rightarrow> configError + unit" where
  "validateConfig u c =
     rbind (validateRepoName (cfg_Name c)) (\<lambda>_.
     rbind (validateBaseURL u (cfg_BaseURL c) (cfg_AllowInsecureTransport c)) (\<lambda>_.
     if cfg_Priority c < 1 then Inl PriorityInvalid
     else if cfg_SignaturePolicy c \<noteq> PolicyRequired \<and> cfg_SignaturePolicy c \<noteq> PolicyOptional
     then Inl PolicyInvalid else
     rbind (each_res (\<lambda>a. rmap_err (\<lambda>_. AnchorInvalid a) (validateHexFingerprint a))
              (cfg_TrustAnchors c)) (\<lambda>_.
     if cfg_MinIndexVersion c < 0 then Inl (LimitNegative ''min_index_version'')
     else if cfg_MaxTrustedAgeDays c < 0 then Inl (LimitNegative ''max_trusted_age_days'')
     else if cfg_MaxIndexStalenessDays c < 0 then Inl (LimitNegative ''max_index_staleness_days'')
     else Inr ())))"

subsection \<open>Recorded state\<close>

record Repository =
  rp_Name :: string
  rp_DescriptorName :: string
  rp_HighestIndexVersion :: int
  rp_GeneratedAtFloor :: int
  rp_LastRefreshAt :: time
  rp_TrustKeys :: "wireTrustKey list"

record repoState =
  st_rows :: "Repository gomap"
  st_cache :: "(string \<times> string option) gomap"

definition unixSeconds :: "time \<Rightarrow> int" where
  "unixSeconds t = t div second_ns"

definition timeUnix :: "int \<Rightarrow> time" where
  "timeUnix s = s * second_ns"

text \<open>\<open>UpsertRepository\<close>: the refresh time goes through the column's whole seconds.\<close>

definition UpsertRepository :: "Repository \<Rightarrow> repoState \<Rightarrow> repoState" where
  "UpsertRepository r st =
     st\<lparr>st_rows := map_put (st_rows st) (rp_Name r)
          (r\<lparr>rp_LastRefreshAt :=
               (if rp_LastRefreshAt r = zeroTime then zeroTime
                else timeUnix (unixSeconds (rp_LastRefreshAt r)))\<rparr>)\<rparr>"

definition GetRepository :: "repoState \<Rightarrow> string \<Rightarrow> Repository option" where
  "GetRepository st name = map_get (st_rows st) name"

datatype clientError =
    FetchFailed string
  | URLRefused string
  | Metadata repodataError
  | TrustFault trustError
  | KeyUnreadable string
  | KeyDoesNotHashTo string
  | NoTrustAnchor
  | NoTrustState
  | RolledBack int int
  | BelowMinimum int
  | WrongKind string
  | NamesOther string string
  | NotCached
  | NoCachedSignature
  | CachedVersionDiffers
  | CachedTimeDiffers

definition UnsignedMode :: "RepoConfig \<Rightarrow> bool" where
  "UnsignedMode cfg \<longleftrightarrow> cfg_SignaturePolicy cfg = PolicyOptional \<and> cfg_TrustAnchors cfg = []"

definition applyFreshnessFloor ::
    "Repository \<Rightarrow> Index \<Rightarrow> Repository option \<Rightarrow> time \<Rightarrow> clientError + Repository" where
  "applyFreshnessFloor row idx prev now =
     (let advanced = row\<lparr>rp_HighestIndexVersion := ix_IndexVersion idx,
                          rp_GeneratedAtFloor := unixSeconds (ix_GeneratedAt idx),
                          rp_LastRefreshAt := now\<rparr>
      in case prev of
           None \<Rightarrow> Inr advanced
         | Some prev \<Rightarrow>
             (case CheckFreshness idx (rp_HighestIndexVersion prev)
                     (timeUnix (rp_GeneratedAtFloor prev)) of
                FreshnessRejected \<Rightarrow>
                  Inl (RolledBack (ix_IndexVersion idx) (rp_HighestIndexVersion prev))
              | FreshnessNoProgress \<Rightarrow>
                  Inr (row\<lparr>rp_HighestIndexVersion := rp_HighestIndexVersion prev,
                           rp_GeneratedAtFloor := rp_GeneratedAtFloor prev,
                           rp_LastRefreshAt := rp_LastRefreshAt prev\<rparr>)
              | FreshnessProgress \<Rightarrow> Inr advanced))"

subsection \<open>Fetching\<close>

definition maxDescriptorFetch :: nat where "maxDescriptorFetch = 4194304"
definition maxSignatureFetch :: nat where "maxSignatureFetch = 4096"
definition maxKeyFetch :: nat where "maxKeyFetch = 65536"
definition maxIndexFetch :: nat where "maxIndexFetch = 67108864"

definition resolveReference :: "urlOps \<Rightarrow> string \<Rightarrow> string \<Rightarrow> string \<Rightarrow> clientError + string" where
  "resolveReference u base documentURL ref =
     (if u_isAbs u ref then Inr ref
      else if has_prefix ref ''/'' then Inr (base @ ref)
      else (case u_resolve u documentURL ref of
              None \<Rightarrow> Inl (URLRefused ref)
            | Some s \<Rightarrow> Inr s))"

definition resolveURL :: "urlOps \<Rightarrow> string \<Rightarrow> string \<Rightarrow> string \<Rightarrow> bool \<Rightarrow> clientError + string" where
  "resolveURL u base documentURL ref allowInsecure =
     rbind (resolveReference u base documentURL ref) (\<lambda>resolved.
     case u_scheme u resolved of
       None \<Rightarrow> Inl (URLRefused resolved)
     | Some scheme \<Rightarrow>
         if scheme = ''https'' \<or> scheme = ''file'' then Inr resolved
         else if scheme = ''http'' then
           (if \<not> allowInsecure then Inl (URLRefused resolved) else Inr resolved)
         else Inl (URLRefused resolved))"

definition fetch :: "network \<Rightarrow> string \<Rightarrow> nat \<Rightarrow> clientError + string" where
  "fetch net url limit = (case net url limit of None \<Rightarrow> Inl (FetchFailed url) | Some b \<Rightarrow> Inr b)"

definition descriptorURLOf :: "RepoConfig \<Rightarrow> string" where
  "descriptorURLOf cfg = cfg_BaseURL cfg @ ''/repo.json''"

definition fetchDescriptor ::
    "clientEnv \<Rightarrow> network \<Rightarrow> RepoConfig \<Rightarrow> clientError + (Descriptor \<times> string \<times> string)" where
  "fetchDescriptor env net cfg =
     rbind (fetch net (descriptorURLOf cfg) maxDescriptorFetch) (\<lambda>descBytes.
     rbind (fetch net (cfg_BaseURL cfg @ ''/repo.json.sig'') maxSignatureFetch) (\<lambda>descSig.
     rbind (rmap_err Metadata (DecodeDescriptor (env_json env) descBytes)) (\<lambda>desc.
     if ds_RepoName desc = [] then Inl (Metadata (FieldMissing ''repo.name''))
     else Inr (desc, descBytes, descSig))))"

definition fetchDescriptorDocument ::
    "clientEnv \<Rightarrow> network \<Rightarrow> RepoConfig \<Rightarrow> clientError + Descriptor" where
  "fetchDescriptorDocument env net cfg =
     rbind (fetch net (descriptorURLOf cfg) maxDescriptorFetch) (\<lambda>descBytes.
     rmap_err Metadata (DecodeDescriptor (env_json env) descBytes))"

definition checkFetchedIndex :: "Descriptor \<Rightarrow> string \<Rightarrow> Index \<Rightarrow> clientError + unit" where
  "checkFetchedIndex desc expectKind idx =
     (if ix_Kind idx \<noteq> expectKind then Inl (WrongKind (ix_Kind idx))
      else if ix_RepoName idx \<noteq> ds_RepoName desc
      then Inl (NamesOther (ix_RepoName idx) (ds_RepoName desc)) else Inr ())"

definition fetchIndexDocument ::
    "clientEnv \<Rightarrow> network \<Rightarrow> RepoConfig \<Rightarrow> Descriptor \<Rightarrow> IndexPointer \<Rightarrow> string \<Rightarrow>
       clientError + (Index \<times> string)" where
  "fetchIndexDocument env net cfg desc ptr expectKind =
     rbind (resolveURL (env_url env) (cfg_BaseURL cfg) (descriptorURLOf cfg) (ip_URL ptr)
              (cfg_AllowInsecureTransport cfg)) (\<lambda>idxURL.
     rbind (fetch net idxURL maxIndexFetch) (\<lambda>idxBytes.
     rbind (rmap_err Metadata (DecodeIndex (env_json env) (env_ext env) idxBytes)) (\<lambda>idx.
     rbind (checkFetchedIndex desc expectKind idx) (\<lambda>_. Inr (idx, idxBytes)))))"

text \<open>\<open>signature.ParsePublicKey\<close>: the raw 32 bytes, or what the PEM decoder makes of them.\<close>

definition ParsePublicKey :: "clientEnv \<Rightarrow> string \<Rightarrow> string option" where
  "ParsePublicKey env data =
     (if length data = ed25519PublicKeySize then Some data else env_pem env data)"

definition fetchKey ::
    "clientEnv \<Rightarrow> network \<Rightarrow> RepoConfig \<Rightarrow> DescriptorKey \<Rightarrow> string gomap \<Rightarrow>
       clientError + string gomap" where
  "fetchKey env net cfg dk keys =
     rbind (resolveURL (env_url env) (cfg_BaseURL cfg) (descriptorURLOf cfg) (dk_URL dk)
              (cfg_AllowInsecureTransport cfg)) (\<lambda>keyURL.
     rbind (fetch net keyURL maxKeyFetch) (\<lambda>data.
     case ParsePublicKey env data of
       None \<Rightarrow> Inl (KeyUnreadable (dk_Fingerprint dk))
     | Some pub \<Rightarrow>
         if Fingerprint (env_crypto env) pub \<noteq> dk_Fingerprint dk
         then Inl (KeyDoesNotHashTo (dk_Fingerprint dk))
         else Inr (map_put keys (dk_Fingerprint dk) pub)))"

definition fetchKeys ::
    "clientEnv \<Rightarrow> network \<Rightarrow> RepoConfig \<Rightarrow> Descriptor \<Rightarrow> clientError + string gomap" where
  "fetchKeys env net cfg desc = fold_res (fetchKey env net cfg) (ds_Keys desc) []"

text \<open>\<open>fetchActiveIndex\<close> and \<open>fetchArchiveIndex\<close>, which differ in pointer and kind.\<close>

definition fetchSignedIndex ::
    "clientEnv \<Rightarrow> network \<Rightarrow> RepoConfig \<Rightarrow> Descriptor \<Rightarrow> IndexPointer \<Rightarrow> string \<Rightarrow> TrustSet \<Rightarrow>
       time \<Rightarrow> clientError + (Index \<times> string \<times> string)" where
  "fetchSignedIndex env net cfg desc ptr expectKind trust now =
     rbind (resolveURL (env_url env) (cfg_BaseURL cfg) (descriptorURLOf cfg) (ip_URL ptr)
              (cfg_AllowInsecureTransport cfg)) (\<lambda>idxURL.
     rbind (resolveURL (env_url env) (cfg_BaseURL cfg) (descriptorURLOf cfg) (ip_SignatureURL ptr)
              (cfg_AllowInsecureTransport cfg)) (\<lambda>sigURL.
     rbind (fetch net idxURL maxIndexFetch) (\<lambda>idxBytes.
     rbind (fetch net sigURL maxSignatureFetch) (\<lambda>idxSig.
     rbind (rmap_err Metadata
              (VerifyDetached (env_crypto env) (env_json env) idxBytes idxSig
                 (VerificationKeys trust now))) (\<lambda>_.
     rbind (rmap_err Metadata (DecodeIndex (env_json env) (env_ext env) idxBytes)) (\<lambda>idx.
     rbind (checkFetchedIndex desc expectKind idx) (\<lambda>_. Inr (idx, idxBytes, idxSig))))))))"

definition fetchActiveIndex ::
    "clientEnv \<Rightarrow> network \<Rightarrow> RepoConfig \<Rightarrow> Descriptor \<Rightarrow> TrustSet \<Rightarrow> time \<Rightarrow>
       clientError + (Index \<times> string \<times> string)" where
  "fetchActiveIndex env net cfg desc trust now =
     fetchSignedIndex env net cfg desc (ds_ActiveIndex desc) IndexActive trust now"

definition fetchArchiveIndex ::
    "clientEnv \<Rightarrow> network \<Rightarrow> RepoConfig \<Rightarrow> Descriptor \<Rightarrow> TrustSet \<Rightarrow> time \<Rightarrow> clientError + Index" where
  "fetchArchiveIndex env net cfg desc trust now =
     rbind (fetchSignedIndex env net cfg desc (ds_ArchiveIndex desc) IndexArchive trust now)
       (\<lambda>r. Inr (fst r))"

definition keysMatchingAnchors :: "string gomap \<Rightarrow> string list \<Rightarrow> string list" where
  "keysMatchingAnchors keys anchors = List.map_filter (map_get keys) anchors"

subsection \<open>Operations\<close>

text \<open>\<open>record\<close>: the cache first, then the row. A crash in between leaves \<open>cacheIndex\<close> alone.\<close>

definition cacheIndex :: "string \<Rightarrow> string \<Rightarrow> string option \<Rightarrow> repoState \<Rightarrow> repoState" where
  "cacheIndex name idxBytes idxSig st =
     st\<lparr>st_cache := map_put (st_cache st) name (idxBytes, idxSig)\<rparr>"

definition recordRepo :: "Repository \<Rightarrow> string \<Rightarrow> string option \<Rightarrow> repoState \<Rightarrow> repoState" where
  "recordRepo row idxBytes idxSig st =
     UpsertRepository row (cacheIndex (rp_Name row) idxBytes idxSig st)"

definition newRow :: "RepoConfig \<Rightarrow> wireTrustKey list \<Rightarrow> Descriptor \<Rightarrow> Repository" where
  "newRow cfg trustKeys desc =
     \<lparr>rp_Name = cfg_Name cfg, rp_DescriptorName = ds_RepoName desc, rp_HighestIndexVersion = 0,
      rp_GeneratedAtFloor = 0, rp_LastRefreshAt = zeroTime, rp_TrustKeys = trustKeys\<rparr>"

definition belowMinimum :: "RepoConfig \<Rightarrow> Index \<Rightarrow> bool" where
  "belowMinimum cfg idx \<longleftrightarrow>
     cfg_MinIndexVersion cfg > 0 \<and> ix_IndexVersion idx < cfg_MinIndexVersion cfg"

text \<open>
  What an operation records: the row, the index bytes and the signature. It reads the recorded
  row and nothing else.
\<close>

type_synonym recorded = "Repository \<times> string \<times> string option"

definition addUnsigned ::
    "clientEnv \<Rightarrow> network \<Rightarrow> RepoConfig \<Rightarrow> time \<Rightarrow> Repository option \<Rightarrow> clientError + recorded" where
  "addUnsigned env net cfg now prev =
     rbind (fetchDescriptorDocument env net cfg) (\<lambda>desc.
     rbind (fetchIndexDocument env net cfg desc (ds_ActiveIndex desc) IndexActive) (\<lambda>fetched.
     case fetched of (idx, idxBytes) \<Rightarrow>
       if belowMinimum cfg idx then Inl (BelowMinimum (ix_IndexVersion idx)) else
       rbind (applyFreshnessFloor (newRow cfg [] desc) idx prev now) (\<lambda>row.
       Inr (row, idxBytes, None))))"

definition refreshUnsigned ::
    "clientEnv \<Rightarrow> network \<Rightarrow> RepoConfig \<Rightarrow> time \<Rightarrow> Repository option \<Rightarrow> clientError + recorded" where
  "refreshUnsigned env net cfg now prev =
     (case prev of
        None \<Rightarrow> Inl NoTrustState
      | Some p \<Rightarrow>
          rbind (fetchDescriptorDocument env net cfg) (\<lambda>desc.
          rbind (fetchIndexDocument env net cfg desc (ds_ActiveIndex desc) IndexActive) (\<lambda>fetched.
          case fetched of (idx, idxBytes) \<Rightarrow>
            rbind (applyFreshnessFloor (newRow cfg [] desc) idx (Some p) now) (\<lambda>row.
            Inr (row, idxBytes, None)))))"

definition Add ::
    "clientEnv \<Rightarrow> network \<Rightarrow> RepoConfig \<Rightarrow> time \<Rightarrow> Repository option \<Rightarrow> clientError + recorded" where
  "Add env net cfg now prev =
     (if UnsignedMode cfg then addUnsigned env net cfg now prev else
      rbind (fetchDescriptor env net cfg) (\<lambda>fetched.
      case fetched of (desc, descBytes, descSig) \<Rightarrow>
      rbind (fetchKeys env net cfg desc) (\<lambda>keys.
      let anchorKeys = keysMatchingAnchors keys (cfg_TrustAnchors cfg) in
      if anchorKeys = [] then Inl NoTrustAnchor else
      rbind (rmap_err Metadata
               (VerifyDetached (env_crypto env) (env_json env) descBytes descSig anchorKeys)) (\<lambda>_.
      rbind (rmap_err TrustFault (NewTrustSet (env_crypto env) desc keys)) (\<lambda>trust.
      rbind (fetchActiveIndex env net cfg desc trust now) (\<lambda>fetched.
      case fetched of (idx, idxBytes, idxSig) \<Rightarrow>
      if belowMinimum cfg idx then Inl (BelowMinimum (ix_IndexVersion idx)) else
      rbind (applyFreshnessFloor (newRow cfg (Marshal trust) desc) idx prev now) (\<lambda>row.
      Inr (row, idxBytes, Some idxSig))))))))"

definition Refresh ::
    "clientEnv \<Rightarrow> network \<Rightarrow> RepoConfig \<Rightarrow> time \<Rightarrow> Repository option \<Rightarrow> clientError + recorded" where
  "Refresh env net cfg now prev =
     (if UnsignedMode cfg then refreshUnsigned env net cfg now prev else
      case prev of
        None \<Rightarrow> Inl NoTrustState
      | Some p \<Rightarrow>
      rbind (rmap_err TrustFault (ParseTrustSet (rp_TrustKeys p))) (\<lambda>prevTrust.
      rbind (fetchDescriptor env net cfg) (\<lambda>fetched.
      case fetched of (desc, descBytes, descSig) \<Rightarrow>
      rbind (rmap_err Metadata
               (VerifyDetached (env_crypto env) (env_json env) descBytes descSig
                  (VerificationKeys prevTrust now))) (\<lambda>_.
      rbind (fetchKeys env net cfg desc) (\<lambda>keys.
      rbind (rmap_err TrustFault (NewTrustSet (env_crypto env) desc keys)) (\<lambda>newTrust.
      rbind (fetchActiveIndex env net cfg desc newTrust now) (\<lambda>fetched.
      case fetched of (idx, idxBytes, idxSig) \<Rightarrow>
      rbind (applyFreshnessFloor (newRow cfg (Marshal newTrust) desc) idx (Some p) now) (\<lambda>row.
      Inr (row, idxBytes, Some idxSig)))))))))"

definition validateCachedActiveIndex ::
    "string \<Rightarrow> Repository \<Rightarrow> Index \<Rightarrow> clientError + unit" where
  "validateCachedActiveIndex repoName row idx =
     (let expected = (if rp_DescriptorName row = [] then repoName else rp_DescriptorName row) in
      if ix_Kind idx \<noteq> IndexActive then Inl (WrongKind (ix_Kind idx))
      else if ix_RepoName idx \<noteq> expected then Inl (NamesOther (ix_RepoName idx) expected)
      else if ix_IndexVersion idx \<noteq> rp_HighestIndexVersion row then Inl CachedVersionDiffers
      else if unixSeconds (ix_GeneratedAt idx) \<noteq> rp_GeneratedAtFloor row then Inl CachedTimeDiffers
      else Inr ())"

definition ActiveIndex :: "clientEnv \<Rightarrow> string \<Rightarrow> time \<Rightarrow> repoState \<Rightarrow> clientError + Index" where
  "ActiveIndex env repoName now st =
     (case GetRepository st repoName of
        None \<Rightarrow> Inl NoTrustState
      | Some row \<Rightarrow>
          rbind (rmap_err TrustFault (ParseTrustSet (rp_TrustKeys row))) (\<lambda>trust.
          case map_get (st_cache st) repoName of
            None \<Rightarrow> Inl NotCached
          | Some (idxBytes, idxSig) \<Rightarrow>
              rbind
                (if trust = [] then Inr ()
                 else (case idxSig of
                         None \<Rightarrow> Inl NoCachedSignature
                       | Some sig \<Rightarrow>
                           rmap_err Metadata
                             (VerifyDetached (env_crypto env) (env_json env) idxBytes sig
                                (VerificationKeys trust now)))) (\<lambda>_.
              rbind (rmap_err Metadata (DecodeIndex (env_json env) (env_ext env) idxBytes)) (\<lambda>idx.
              rbind (validateCachedActiveIndex repoName row idx) (\<lambda>_. Inr idx)))))"

definition checkArchiveFreshness :: "Index \<Rightarrow> Repository option \<Rightarrow> clientError + unit" where
  "checkArchiveFreshness idx prev =
     (case prev of
        None \<Rightarrow> Inr ()
      | Some p \<Rightarrow>
          if CheckFreshness idx (rp_HighestIndexVersion p) (timeUnix (rp_GeneratedAtFloor p))
               = FreshnessRejected
          then Inl (RolledBack (ix_IndexVersion idx) (rp_HighestIndexVersion p)) else Inr ())"

definition ArchiveIndex ::
    "clientEnv \<Rightarrow> network \<Rightarrow> RepoConfig \<Rightarrow> time \<Rightarrow> Repository option \<Rightarrow> clientError + Index" where
  "ArchiveIndex env net cfg now prev =
     (if UnsignedMode cfg then
        rbind (fetchDescriptorDocument env net cfg) (\<lambda>desc.
        rbind (fetchIndexDocument env net cfg desc (ds_ArchiveIndex desc) IndexArchive) (\<lambda>fetched.
        rbind (checkArchiveFreshness (fst fetched) prev) (\<lambda>_. Inr (fst fetched))))
      else
        case prev of
          None \<Rightarrow> Inl NoTrustState
        | Some p \<Rightarrow>
        rbind (rmap_err TrustFault (ParseTrustSet (rp_TrustKeys p))) (\<lambda>prevTrust.
        rbind (fetchDescriptor env net cfg) (\<lambda>fetched.
        case fetched of (desc, descBytes, descSig) \<Rightarrow>
        rbind (rmap_err Metadata
                 (VerifyDetached (env_crypto env) (env_json env) descBytes descSig
                    (VerificationKeys prevTrust now))) (\<lambda>_.
        rbind (fetchKeys env net cfg desc) (\<lambda>keys.
        rbind (rmap_err TrustFault (NewTrustSet (env_crypto env) desc keys)) (\<lambda>trust.
        rbind (fetchArchiveIndex env net cfg desc trust now) (\<lambda>idx.
        rbind (checkArchiveFreshness idx prev) (\<lambda>_. Inr idx))))))))"

definition TrustAge :: "repoState \<Rightarrow> RepoConfig \<Rightarrow> time \<Rightarrow> int \<times> bool" where
  "TrustAge st cfg now =
     (case GetRepository st (cfg_Name cfg) of
        None \<Rightarrow> (0, False)
      | Some row \<Rightarrow>
          (let maxAge = MaxTrustedAge (cfg_MaxTrustedAgeDays cfg) in
           if rp_LastRefreshAt row = zeroTime then (wrap64 (maxAge + second_ns), True)
           else (let age = timeSub now (rp_LastRefreshAt row) in (age, age > maxAge))))"

definition IndexStaleness :: "repoState \<Rightarrow> RepoConfig \<Rightarrow> time \<Rightarrow> int \<times> bool" where
  "IndexStaleness st cfg now =
     (case GetRepository st (cfg_Name cfg) of
        None \<Rightarrow> (0, False)
      | Some row \<Rightarrow>
          if rp_GeneratedAtFloor row = 0 then (0, False)
          else (let age = timeSub now (timeUnix (rp_GeneratedAtFloor row))
                in (age, age > MaxIndexStaleness (cfg_MaxIndexStalenessDays cfg))))"

end
