(* ===== verification/RepoSafety.thy ===== *)
theory RepoSafety
  imports RepoClient
begin

section \<open>What a consumer can rely on\<close>

text \<open>
  The state machine of one machine's repository state: additions and refreshes against an
  arbitrary network, crashes between the two writes of \<open>record\<close>, and removals of other
  repositories. The facts are about the repository \<open>name\<close>, which is not removed.
\<close>

subsection \<open>Signatures\<close>

definition signed_by :: "clientEnv \<Rightarrow> string \<Rightarrow> string \<Rightarrow> string list \<Rightarrow> bool" where
  "signed_by env content sigContent keys \<longleftrightarrow>
     (\<exists>e pub. DecodeEnvelope (env_json env) sigContent = Inr e \<and> pub \<in> set keys \<and>
        length pub = ed25519PublicKeySize \<and>
        k_verify (env_crypto env) pub (k_sha256 (env_crypto env) content) (ev_Signature e))"

lemma VerifyDetached_ok:
  "VerifyDetached (env_crypto env) (env_json env) content sigContent keys = Inr () \<longleftrightarrow>
     signed_by env content sigContent keys"
  by (cases "DecodeEnvelope (env_json env) sigContent")
     (auto simp: VerifyDetached_def signed_by_def Let_def list_ex_iff)

lemma VerifyDetached_Inr [result_simps]:
  "VerifyDetached (env_crypto env) (env_json env) content sigContent keys = Inr u \<longleftrightarrow>
     signed_by env content sigContent keys"
  using VerifyDetached_ok by (cases u) simp

lemma checkFetchedIndex_ok [result_simps]:
  "checkFetchedIndex desc kind idx = Inr u \<longleftrightarrow> ix_Kind idx = kind \<and> ix_RepoName idx = ds_RepoName desc"
  by (cases u) (simp add: checkFetchedIndex_def)

subsection \<open>Freshness\<close>

definition floor_le :: "Repository \<Rightarrow> Repository \<Rightarrow> bool" where
  "floor_le r r' \<longleftrightarrow> rp_HighestIndexVersion r \<le> rp_HighestIndexVersion r' \<and>
     rp_GeneratedAtFloor r \<le> rp_GeneratedAtFloor r'"

lemma floor_le_trans: "floor_le a b \<Longrightarrow> floor_le b c \<Longrightarrow> floor_le a c"
  by (auto simp: floor_le_def)

lemma unixSeconds_le: "timeUnix s \<le> t \<Longrightarrow> s \<le> unixSeconds t"
  by (simp add: timeUnix_def unixSeconds_def second_ns_def)

lemma applyFreshnessFloor_ok:
  assumes "applyFreshnessFloor row idx prev now = Inr row'"
  shows "rp_Name row' = rp_Name row" and "rp_TrustKeys row' = rp_TrustKeys row"
    and "rp_DescriptorName row' = rp_DescriptorName row"
    and "rp_HighestIndexVersion row' = ix_IndexVersion idx"
    and "rp_GeneratedAtFloor row' = unixSeconds (ix_GeneratedAt idx)"
    and "\<And>p. prev = Some p \<Longrightarrow> floor_le p row'"
  using assms
  by (auto simp: applyFreshnessFloor_def Let_def CheckFreshness_def floor_le_def unixSeconds_le
      timeUnix_def unixSeconds_def second_ns_def split: option.splits if_splits)

text \<open>With a generation time in whole seconds the refresh time moves only if the floor does.\<close>

lemma applyFreshnessFloor_refreshed:
  assumes "applyFreshnessFloor row idx (Some p) now = Inr row'"
    and "ix_GeneratedAt idx mod second_ns = 0"
    and "rp_LastRefreshAt row' \<noteq> rp_LastRefreshAt p"
  shows "rp_HighestIndexVersion p < rp_HighestIndexVersion row' \<or>
    rp_GeneratedAtFloor p < rp_GeneratedAtFloor row'"
proof -
  have "CheckFreshness idx (rp_HighestIndexVersion p) (timeUnix (rp_GeneratedAtFloor p)) = FreshnessProgress"
    using assms(1,3) by (auto simp: applyFreshnessFloor_def Let_def split: FreshnessResult.splits)
  then have "rp_HighestIndexVersion p < ix_IndexVersion idx \<or>
      timeUnix (rp_GeneratedAtFloor p) < ix_GeneratedAt idx"
    by (simp add: CheckFreshness_cases)
  moreover have "rp_GeneratedAtFloor p < unixSeconds (ix_GeneratedAt idx)"
    if "timeUnix (rp_GeneratedAtFloor p) < ix_GeneratedAt idx"
  proof -
    have "ix_GeneratedAt idx = unixSeconds (ix_GeneratedAt idx) * second_ns"
      using assms(2) by (simp add: unixSeconds_def mult.commute mod_0_imp_dvd)
    with that show ?thesis by (simp add: timeUnix_def second_ns_def)
  qed
  ultimately show ?thesis
    using applyFreshnessFloor_ok(4,5) [OF assms(1)] by auto
qed

text \<open>
  The floor keeps whole seconds and the index need not. An index generated half a second past
  a second is newer than its own floor, so serving it again counts as progress every time: the
  frozen repository advances the refresh time that the maximum trusted age is measured from.
\<close>

theorem frozen_index_counts_as_progress:
  fixes idx :: Index
  assumes "applyFreshnessFloor row idx None t0 = Inr recorded"
    and "ix_GeneratedAt idx mod second_ns \<noteq> 0"
  shows "\<exists>row'. applyFreshnessFloor row2 idx (Some recorded) t1 = Inr row' \<and> rp_LastRefreshAt row' = t1"
proof -
  have rec: "rp_HighestIndexVersion recorded = ix_IndexVersion idx"
    "rp_GeneratedAtFloor recorded = unixSeconds (ix_GeneratedAt idx)"
    using applyFreshnessFloor_ok(4,5) [OF assms(1)] by auto
  have "timeUnix (unixSeconds (ix_GeneratedAt idx)) = ix_GeneratedAt idx - ix_GeneratedAt idx mod second_ns"
    unfolding timeUnix_def unixSeconds_def by (rule minus_mod_eq_div_mult [symmetric])
  moreover have "0 \<le> ix_GeneratedAt idx mod second_ns" by (simp add: second_ns_def)
  ultimately have "timeUnix (unixSeconds (ix_GeneratedAt idx)) < ix_GeneratedAt idx"
    using assms(2) by linarith
  then have "CheckFreshness idx (rp_HighestIndexVersion recorded) (timeUnix (rp_GeneratedAtFloor recorded))
      = FreshnessProgress"
    by (simp add: CheckFreshness_def rec)
  then show ?thesis by (simp add: applyFreshnessFloor_def Let_def)
qed

subsection \<open>Operations\<close>

lemma newRow_fields [simp]:
  "rp_Name (newRow cfg ks d) = cfg_Name cfg" "rp_TrustKeys (newRow cfg ks d) = ks"
  "rp_DescriptorName (newRow cfg ks d) = ds_RepoName d"
  by (simp_all add: newRow_def)

lemma Add_floor:
  assumes "Add env net cfg now prev = Inr (row, b, s)"
  shows "rp_Name row = cfg_Name cfg \<and> (\<forall>p. prev = Some p \<longrightarrow> floor_le p row)"
  using assms
  by (auto simp: Add_def addUnsigned_def Let_def result_simps split: if_splits prod.splits
      dest: applyFreshnessFloor_ok(1,6))

lemma Refresh_floor:
  assumes "Refresh env net cfg now prev = Inr (row, b, s)"
  shows "rp_Name row = cfg_Name cfg \<and> (\<forall>p. prev = Some p \<longrightarrow> floor_le p row)"
  using assms
  by (auto simp: Refresh_def refreshUnsigned_def result_simps split: if_splits prod.splits option.splits
      dest: applyFreshnessFloor_ok(1,6))

lemma DecodeDescriptor_active:
  assumes "DecodeDescriptor r data = Inr d"
  shows "\<exists>k\<in>set (ds_Keys d). dk_Status k = KeyActive"
  using assms
  by (auto simp: DecodeDescriptor_def decodeDescriptorWire_def decodeKeys_def result_simps list_ex_iff
      split: option.splits if_splits)

lemma NewTrustSet_active:
  assumes "NewTrustSet k d keys = Inr ts" and "\<exists>k\<in>set (ds_Keys d). dk_Status k = KeyActive"
  shows "\<exists>t\<in>set ts. tk_Status t = KeyActive"
  using NewTrustSet_keys(2) [OF assms(1)] assms(2) by (metis (no_types, lifting) imageE imageI list.set_map)

text \<open>What a signed addition or refresh has checked before it records anything.\<close>

lemma Refresh_verified:
  assumes "Refresh env net cfg now prev = Inr (row, b, s)" and "\<not> UnsignedMode cfg"
  obtains p prevTrust desc descBytes descSig trust idx idxSig where
    "prev = Some p" and "ParseTrustSet (rp_TrustKeys p) = Inr prevTrust"
    and "DecodeDescriptor (env_json env) descBytes = Inr desc"
    and "signed_by env descBytes descSig (VerificationKeys prevTrust now)"
    and "map tk_Fingerprint trust = map dk_Fingerprint (ds_Keys desc)"
    and "\<exists>t\<in>set trust. tk_Status t = KeyActive" and "rp_TrustKeys row = Marshal trust"
    and "s = Some idxSig" and "signed_by env b idxSig (VerificationKeys trust now)"
    and "DecodeIndex (env_json env) (env_ext env) b = Inr idx"
    and "ix_RepoName idx = ds_RepoName desc" and "rp_HighestIndexVersion row = ix_IndexVersion idx"
proof -
  from assms obtain p prevTrust desc descBytes descSig trust keys idx idxSig where
    1: "prev = Some p" "ParseTrustSet (rp_TrustKeys p) = Inr prevTrust"
    and 2: "fetchDescriptor env net cfg = Inr (desc, descBytes, descSig)"
    and 3: "signed_by env descBytes descSig (VerificationKeys prevTrust now)"
    and 4: "NewTrustSet (env_crypto env) desc keys = Inr trust"
    and 5: "fetchActiveIndex env net cfg desc trust now = Inr (idx, b, idxSig)"
    and 6: "applyFreshnessFloor (newRow cfg (Marshal trust) desc) idx (Some p) now = Inr row"
    and 7: "s = Some idxSig"
    by (auto simp: Refresh_def result_simps split: option.splits prod.splits)
  have dec: "DecodeDescriptor (env_json env) descBytes = Inr desc"
    using 2 by (auto simp: fetchDescriptor_def result_simps split: if_splits)
  have idx: "signed_by env b idxSig (VerificationKeys trust now)"
    "DecodeIndex (env_json env) (env_ext env) b = Inr idx" "ix_RepoName idx = ds_RepoName desc"
    using 5 by (auto simp: fetchActiveIndex_def fetchSignedIndex_def result_simps)
  show thesis
    by (rule that [OF 1 dec 3 NewTrustSet_keys(1) [OF 4]
          NewTrustSet_active [OF 4 DecodeDescriptor_active [OF dec]] _ 7 idx])
       (use applyFreshnessFloor_ok(2,4) [OF 6] in simp_all)
qed

lemma Add_verified:
  assumes "Add env net cfg now prev = Inr (row, b, s)" and "\<not> UnsignedMode cfg"
  obtains desc descBytes descSig trust idx idxSig anchorKeys where
    "DecodeDescriptor (env_json env) descBytes = Inr desc"
    and "signed_by env descBytes descSig anchorKeys"
    and "\<And>k. k \<in> set anchorKeys \<Longrightarrow> Fingerprint (env_crypto env) k \<in> set (cfg_TrustAnchors cfg)"
    and "\<exists>t\<in>set trust. tk_Status t = KeyActive" and "rp_TrustKeys row = Marshal trust"
    and "s = Some idxSig" and "signed_by env b idxSig (VerificationKeys trust now)"
    and "DecodeIndex (env_json env) (env_ext env) b = Inr idx"
    and "cfg_MinIndexVersion cfg \<le> max 0 (ix_IndexVersion idx)"
proof -
  from assms obtain desc descBytes descSig trust keys idx idxSig where
    2: "fetchDescriptor env net cfg = Inr (desc, descBytes, descSig)"
    and keys: "fetchKeys env net cfg desc = Inr keys"
    and 3: "signed_by env descBytes descSig (keysMatchingAnchors keys (cfg_TrustAnchors cfg))"
    and 4: "NewTrustSet (env_crypto env) desc keys = Inr trust"
    and 5: "fetchActiveIndex env net cfg desc trust now = Inr (idx, b, idxSig)"
    and 6: "applyFreshnessFloor (newRow cfg (Marshal trust) desc) idx prev now = Inr row"
    and 7: "s = Some idxSig" and 8: "\<not> belowMinimum cfg idx"
    by (auto simp: Add_def result_simps Let_def split: option.splits prod.splits if_splits)
  have dec: "DecodeDescriptor (env_json env) descBytes = Inr desc"
    using 2 by (auto simp: fetchDescriptor_def result_simps split: if_splits)
  have idx: "signed_by env b idxSig (VerificationKeys trust now)"
    "DecodeIndex (env_json env) (env_ext env) b = Inr idx"
    using 5 by (auto simp: fetchActiveIndex_def fetchSignedIndex_def result_simps)
  have hash: "\<forall>fp pub. map_get keys fp = Some pub \<longrightarrow> Fingerprint (env_crypto env) pub = fp"
    using keys unfolding fetchKeys_def
    by (rule fold_res_inv)
       (auto simp: fetchKey_def result_simps map_simps split: option.splits if_splits)
  have anchors: "Fingerprint (env_crypto env) k \<in> set (cfg_TrustAnchors cfg)"
    if "k \<in> set (keysMatchingAnchors keys (cfg_TrustAnchors cfg))" for k
  proof -
    have "\<exists>a\<in>set as. f a = Some k" if "k \<in> set (List.map_filter f as)" for f and as :: "string list"
      using that by (induction as) (auto simp: List.map_filter_simps split: option.splits)
    with that obtain a where "a \<in> set (cfg_TrustAnchors cfg)" "map_get keys a = Some k"
      unfolding keysMatchingAnchors_def by blast
    with hash show ?thesis by simp
  qed
  show thesis
    by (rule that [OF dec 3 anchors NewTrustSet_active [OF 4 DecodeDescriptor_active [OF dec]] _ 7 idx])
       (use applyFreshnessFloor_ok(2) [OF 6] 8 in \<open>auto simp: belowMinimum_def\<close>)
qed

subsection \<open>The state machine\<close>

inductive client_step ::
    "clientEnv \<Rightarrow> (RepoConfig \<Rightarrow> bool) \<Rightarrow> string \<Rightarrow> repoState \<Rightarrow> repoState \<Rightarrow> bool"
  for env admits name where
  added: "admits cfg \<Longrightarrow>
    Add env net cfg now (GetRepository st (cfg_Name cfg)) = Inr (row, b, s) \<Longrightarrow>
    client_step env admits name st (recordRepo row b s st)"
| refreshed: "admits cfg \<Longrightarrow>
    Refresh env net cfg now (GetRepository st (cfg_Name cfg)) = Inr (row, b, s) \<Longrightarrow>
    client_step env admits name st (recordRepo row b s st)"
| crashed: "client_step env admits name st (cacheIndex repo b s st)"
| removed: "repo \<noteq> name \<Longrightarrow>
    client_step env admits name st (st\<lparr>st_rows := map_del (st_rows st) repo\<rparr>)"

abbreviation client_run ::
    "clientEnv \<Rightarrow> (RepoConfig \<Rightarrow> bool) \<Rightarrow> string \<Rightarrow> repoState \<Rightarrow> repoState \<Rightarrow> bool" where
  "client_run env admits name \<equiv> (client_step env admits name)\<^sup>*\<^sup>*"

lemma GetRepository_record:
  "GetRepository (recordRepo row b s st) name =
     (if name = rp_Name row
      then Some (row\<lparr>rp_LastRefreshAt := (if rp_LastRefreshAt row = zeroTime then zeroTime
                else timeUnix (unixSeconds (rp_LastRefreshAt row)))\<rparr>)
      else GetRepository st name)"
  by (simp add: recordRepo_def UpsertRepository_def GetRepository_def cacheIndex_def map_simps)

lemma GetRepository_cache [simp]: "GetRepository (cacheIndex repo b s st) name = GetRepository st name"
  by (simp add: GetRepository_def cacheIndex_def)

lemma recorded_floor:
  assumes "rp_Name row = cfg_Name cfg \<and> (\<forall>p. GetRepository st (cfg_Name cfg) = Some p \<longrightarrow> floor_le p row)"
    and "GetRepository st name = Some r"
  shows "\<exists>r'. GetRepository (recordRepo row b s st) name = Some r' \<and> floor_le r r'"
  using assms by (auto simp: GetRepository_record floor_le_def)

lemma step_floor:
  assumes "client_step env admits name st st'" and "GetRepository st name = Some r"
  shows "\<exists>r'. GetRepository st' name = Some r' \<and> floor_le r r'"
  using assms(1)
proof (cases rule: client_step.cases)
  case (added cfg net now row b s)
  with recorded_floor [OF Add_floor assms(2)] show ?thesis by blast
next
  case (refreshed cfg net now row b s)
  with recorded_floor [OF Refresh_floor assms(2)] show ?thesis by blast
next
  case (crashed repo b s)
  with assms(2) show ?thesis by (auto simp: floor_le_def)
next
  case (removed repo)
  with assms(2) show ?thesis by (auto simp: GetRepository_def map_simps floor_le_def)
qed

lemma run_floor:
  assumes "client_run env admits name st st'" and "GetRepository st name = Some r"
  shows "\<exists>r'. GetRepository st' name = Some r' \<and> floor_le r r'"
  using assms
proof (induction rule: rtranclp_induct)
  case base
  then show ?case by (auto simp: floor_le_def)
next
  case (step s t)
  then show ?case using step_floor floor_le_trans by blast
qed

lemma ActiveIndex_row:
  assumes "ActiveIndex env name now st = Inr idx"
  obtains r where "GetRepository st name = Some r"
    and "ix_IndexVersion idx = rp_HighestIndexVersion r"
    and "unixSeconds (ix_GeneratedAt idx) = rp_GeneratedAtFloor r"
  using assms
  by (auto simp: ActiveIndex_def validateCachedActiveIndex_def Let_def result_simps
      split: option.splits prod.splits if_splits)

text \<open>The index acted on never goes back.\<close>

lemma no_rollback:
  assumes "client_run env admits name st st'"
    and "ActiveIndex env name now st = Inr idx" and "ActiveIndex env name now' st' = Inr idx'"
  shows "ix_IndexVersion idx \<le> ix_IndexVersion idx' \<and>
    unixSeconds (ix_GeneratedAt idx) \<le> unixSeconds (ix_GeneratedAt idx')"
proof -
  obtain r where r: "GetRepository st name = Some r" "ix_IndexVersion idx = rp_HighestIndexVersion r"
    "unixSeconds (ix_GeneratedAt idx) = rp_GeneratedAtFloor r"
    by (rule ActiveIndex_row [OF assms(2)])
  obtain r' where r': "GetRepository st' name = Some r'" "ix_IndexVersion idx' = rp_HighestIndexVersion r'"
    "unixSeconds (ix_GeneratedAt idx') = rp_GeneratedAtFloor r'"
    by (rule ActiveIndex_row [OF assms(3)])
  from run_floor [OF assms(1) r(1)] r r' show ?thesis by (simp add: floor_le_def)
qed

text \<open>A repository that is only ever added and refreshed with signatures keeps trusted keys.\<close>

definition keys_recorded :: "string \<Rightarrow> repoState \<Rightarrow> bool" where
  "keys_recorded name st \<longleftrightarrow> (\<forall>r. GetRepository st name = Some r \<longrightarrow> rp_TrustKeys r \<noteq> [])"

lemma Marshal_nonempty: "\<exists>t\<in>set trust. P t \<Longrightarrow> Marshal trust \<noteq> []"
  by (auto simp: Marshal_def)

lemma step_keys:
  assumes "client_step env admits name st st'"
    and signed: "\<And>cfg. admits cfg \<Longrightarrow> cfg_Name cfg = name \<Longrightarrow> \<not> UnsignedMode cfg"
    and "keys_recorded name st"
  shows "keys_recorded name st'"
  using assms(1)
proof (cases rule: client_step.cases)
  case (added cfg net now row b s)
  have "rp_TrustKeys row \<noteq> []" if "rp_Name row = name"
  proof -
    have "\<not> UnsignedMode cfg" using signed Add_floor [OF added(3)] added(2) that by auto
    then obtain trust where "\<exists>t\<in>set trust. tk_Status t = KeyActive" "rp_TrustKeys row = Marshal trust"
      using Add_verified [OF added(3)] by metis
    then show ?thesis using Marshal_nonempty by simp
  qed
  with assms(3) added(1) show ?thesis by (auto simp: keys_recorded_def GetRepository_record)
next
  case (refreshed cfg net now row b s)
  have "rp_TrustKeys row \<noteq> []" if "rp_Name row = name"
  proof -
    have "\<not> UnsignedMode cfg" using signed Refresh_floor [OF refreshed(3)] refreshed(2) that by auto
    then obtain trust where "\<exists>t\<in>set trust. tk_Status t = KeyActive" "rp_TrustKeys row = Marshal trust"
      using Refresh_verified [OF refreshed(3)] by metis
    then show ?thesis using Marshal_nonempty by simp
  qed
  with assms(3) refreshed(1) show ?thesis by (auto simp: keys_recorded_def GetRepository_record)
next
  case (crashed repo b s)
  with assms(3) show ?thesis by (simp add: keys_recorded_def)
next
  case (removed repo)
  with assms(3) show ?thesis by (auto simp: keys_recorded_def GetRepository_def map_simps)
qed

lemma run_keys:
  assumes "client_run env admits name st st'"
    and "\<And>cfg. admits cfg \<Longrightarrow> cfg_Name cfg = name \<Longrightarrow> \<not> UnsignedMode cfg"
    and "GetRepository st name = None"
  shows "keys_recorded name st'"
  using assms(1)
proof (induction rule: rtranclp_induct)
  case base
  with assms(3) show ?case by (simp add: keys_recorded_def)
next
  case (step s t)
  with step_keys assms(2) show ?case by blast
qed

lemma signed_index_verified:
  assumes "client_run env admits name st st'" and "GetRepository st name = None"
    and "\<And>cfg. admits cfg \<Longrightarrow> cfg_Name cfg = name \<Longrightarrow> \<not> UnsignedMode cfg"
    and "ActiveIndex env name now st' = Inr idx"
  shows "\<exists>r trust b sig. GetRepository st' name = Some r \<and>
    ParseTrustSet (rp_TrustKeys r) = Inr trust \<and>
    map_get (st_cache st') name = Some (b, Some sig) \<and>
    signed_by env b sig (VerificationKeys trust now) \<and>
    DecodeIndex (env_json env) (env_ext env) b = Inr idx"
proof -
  have keys: "keys_recorded name st'" using run_keys [OF assms(1,3,2)] by blast
  obtain r where r1: "GetRepository st' name = Some r"
    using assms(4) by (cases "GetRepository st' name") (auto simp: ActiveIndex_def)
  obtain trust where r2: "ParseTrustSet (rp_TrustKeys r) = Inr trust"
    using assms(4) r1 by (cases "ParseTrustSet (rp_TrustKeys r)") (auto simp: ActiveIndex_def)
  note r = r1 r2
  have "trust \<noteq> []"
    using keys r traverse_length [OF r(2) [unfolded ParseTrustSet_def]]
    by (auto simp: keys_recorded_def)
  with assms(4) r obtain b sig where "map_get (st_cache st') name = Some (b, Some sig)"
    and "signed_by env b sig (VerificationKeys trust now)"
    and "DecodeIndex (env_json env) (env_ext env) b = Inr idx"
    by (auto simp: ActiveIndex_def result_simps split: option.splits prod.splits)
  with r show ?thesis by blast
qed

end
