(* ===== verification/RepoDataFacts.thy ===== *)
theory RepoDataFacts
  imports RepoSafety
begin

section \<open>What the metadata decoders accept\<close>

definition hex64 :: "string \<Rightarrow> bool" where
  "hex64 s \<longleftrightarrow> length s = 64 \<and> list_all isLowerHex s"

lemma validateHexFingerprint_iff [result_simps]: "validateHexFingerprint s = Inr u \<longleftrightarrow> hex64 s"
  by (cases u) (auto simp: validateHexFingerprint_def hex64_def)

lemma required_Inr [result_simps]: "required n v = Inr a \<longleftrightarrow> v = Some a"
  by (auto simp: required_def split: option.splits)

lemma requiredNonempty_Inr [result_simps]: "requiredNonempty n v = Inr s \<longleftrightarrow> v = Some s \<and> s \<noteq> []"
  by (auto simp: requiredNonempty_def split: option.splits)

subsection \<open>Descriptors\<close>

definition wf_key :: "DescriptorKey \<Rightarrow> bool" where
  "wf_key k \<longleftrightarrow> hex64 (dk_Fingerprint k) \<and> dk_URL k \<noteq> [] \<and>
     dk_Status k \<in> {KeyActive, KeyTransitioning, KeyRevoked} \<and>
     (dk_Status k \<noteq> KeyTransitioning \<longrightarrow> dk_ValidUntil k = zeroTime)"

lemma decodeKey_ok:
  assumes "decodeKey i prev w = Inr k"
  shows "wf_key k" and "\<And>p. prev = Some p \<Longrightarrow> p < dk_Fingerprint k"
  using assms
  by (auto simp: decodeKey_def result_simps wf_key_def KeyActive_def KeyTransitioning_def KeyRevoked_def
      split: if_splits)

lemma decodeKeysFrom_ok:
  "decodeKeysFrom i prev ws = Inr ks \<Longrightarrow>
     list_all wf_key ks \<and> sorted_wrt (<) ((case prev of None \<Rightarrow> [] | Some p \<Rightarrow> [p]) @ map dk_Fingerprint ks)"
proof (induction i prev ws arbitrary: ks rule: decodeKeysFrom.induct)
  case (1 i prev)
  then show ?case by (auto split: option.split)
next
  case (2 i prev w ws)
  then obtain k ks' where k: "decodeKey i prev w = Inr k" and
    ks: "decodeKeysFrom (Suc i) (Some (dk_Fingerprint k)) ws = Inr ks'" "ks = k # ks'"
    by (auto simp: result_simps)
  from "2.IH" [OF ks(1)] decodeKey_ok [OF k] show ?case
    by (auto simp: ks(2) split: option.split)
qed

definition wf_descriptor :: "Descriptor \<Rightarrow> bool" where
  "wf_descriptor d \<longleftrightarrow>
     ds_RepoName d \<noteq> [] \<and> list_all wf_key (ds_Keys d) \<and>
     sorted_wrt (<) (map dk_Fingerprint (ds_Keys d)) \<and>
     (\<exists>k\<in>set (ds_Keys d). dk_Status k = KeyActive) \<and>
     ip_URL (ds_ActiveIndex d) \<noteq> [] \<and> ip_SignatureURL (ds_ActiveIndex d) \<noteq> [] \<and>
     ip_URL (ds_ArchiveIndex d) \<noteq> [] \<and> ip_SignatureURL (ds_ArchiveIndex d) \<noteq> []"

lemma decodeIndexPointer_ok:
  "decodeIndexPointer n w = Inr p \<Longrightarrow> ip_URL p \<noteq> [] \<and> ip_SignatureURL p \<noteq> []"
  by (auto simp: decodeIndexPointer_def result_simps)

lemma DecodeDescriptor_wf:
  assumes "DecodeDescriptor r data = Inr d"
  shows "wf_descriptor d"
proof -
  from assms obtain signing where
    keys: "decodeKeysFrom 0 None signing = Inr (ds_Keys d)" and
    act: "list_ex (\<lambda>k. dk_Status k = KeyActive) (ds_Keys d)" and
    rest: "ds_RepoName d \<noteq> []" "\<exists>n w. decodeIndexPointer n w = Inr (ds_ActiveIndex d)"
      "\<exists>n w. decodeIndexPointer n w = Inr (ds_ArchiveIndex d)"
    by (fastforce simp: DecodeDescriptor_def decodeDescriptorWire_def decodeKeys_def result_simps
        split: option.splits if_splits)
  with decodeKeysFrom_ok [OF keys] decodeIndexPointer_ok show ?thesis
    by (fastforce simp: wf_descriptor_def list_ex_iff)
qed

subsection \<open>Indexes\<close>

definition wf_entry :: "externals \<Rightarrow> IndexEntry \<Rightarrow> bool" where
  "wf_entry x e \<longleftrightarrow>
     valid_package_name (ie_Name e) \<and> wf_version (ie_Version e) \<and> v_revision (ie_Version e) \<noteq> [] \<and>
     valid_architecture (ie_Architecture e) \<and>
     (ie_DefaultRoot e = [] \<or> valid_root_ref (ie_DefaultRoot e)) \<and>
     0 \<le> ie_SizeCompressed e \<and> 0 \<le> ie_SizeInstalled e \<and> hex64 (ie_Hash e) \<and> ie_URL e \<noteq> [] \<and>
     sorted_wrt (<) (map d_Name (ie_Dependencies e)) \<and> list_all (wf_dependency x) (ie_Dependencies e) \<and>
     sorted_wrt (<) (map d_Name (ie_Conflicts e)) \<and> list_all wf_conflict (ie_Conflicts e) \<and>
     sorted_wrt (<) (map p_Name (ie_Provides e)) \<and> list_all (wf_provides x) (ie_Provides e) \<and>
     sorted_wrt (<) (map r_Name (ie_Replaces e)) \<and> list_all wf_replaces (ie_Replaces e)"

lemma decodeArray_Inr:
  "decodeArray read check data = Inr ys \<longleftrightarrow>
     (if data = [] then ys = [] else \<exists>ws. read data = Some ws \<and> check ws = Inr ys)"
  by (auto simp: decodeArray_def result_simps split: option.splits)

lemma DecodeDependencyArray_wf:
  assumes "DecodeDependencyArray r x field data True = Inr deps" and "field \<noteq> ''conflicts''"
  shows "sorted_wrt (<) (map d_Name deps) \<and> list_all (wf_dependency x) deps"
proof (cases "data = []")
  case False
  with assms(1) obtain ws where "validateDependencies x field ws True = Inr deps"
    by (auto simp: DecodeDependencyArray_def decodeArray_Inr)
  with assms(2) validateDependencies_wf show ?thesis by blast
qed (use assms(1) in \<open>simp add: DecodeDependencyArray_def decodeArray_Inr\<close>)

lemma DecodeConflicts_wf:
  assumes "DecodeDependencyArray r x ''conflicts'' data False = Inr deps"
  shows "sorted_wrt (<) (map d_Name deps) \<and> list_all wf_conflict deps"
proof (cases "data = []")
  case False
  with assms obtain ws where "validateDependencies x ''conflicts'' ws False = Inr deps"
    by (auto simp: DecodeDependencyArray_def decodeArray_Inr)
  with validateDependencies_wf show ?thesis by blast
qed (use assms in \<open>simp add: DecodeDependencyArray_def decodeArray_Inr\<close>)

lemma DecodeProvidesArray_wf:
  "DecodeProvidesArray r x data = Inr ps \<Longrightarrow>
     sorted_wrt (<) (map p_Name ps) \<and> list_all (wf_provides x) ps"
  using validateProvides_wf by (fastforce simp: DecodeProvidesArray_def decodeArray_Inr split: if_splits)

lemma DecodeReplacesArray_wf:
  "DecodeReplacesArray r data = Inr rs \<Longrightarrow>
     sorted_wrt (<) (map r_Name rs) \<and> list_all wf_replaces rs"
  using validateReplaces_wf by (fastforce simp: DecodeReplacesArray_def decodeArray_Inr split: if_splits)

lemma decodeHash_hex: "decodeHash h = Inr s \<Longrightarrow> hex64 s"
  by (auto simp: decodeHash_def result_simps split: if_splits)

lemma decodeIndexEntry_wf:
  assumes "decodeIndexEntry r x w = Inr e"
  shows "wf_entry x e"
  using assms unfolding decodeIndexEntry_def
  by (auto simp: result_simps wf_entry_def validateName_iff Parse_def parse_iff
      validateArchitecture_iff ValidateRootRef_iff DecodeDependencyArray_wf DecodeConflicts_wf
      DecodeProvidesArray_wf DecodeReplacesArray_wf decodeHash_hex split: if_splits)

lemma decodeEntries_ok:
  "decodeEntries r x kind i prev ws = Inr es \<Longrightarrow>
     list_all (wf_entry x) es \<and>
     sorted_wrt (if kind = IndexActive then (<) else (\<le>))
       ((case prev of None \<Rightarrow> [] | Some p \<Rightarrow> [p]) @ map ie_Name es)"
proof (induction r x kind i prev ws arbitrary: es rule: decodeEntries.induct)
  case (1 r x kind i prev)
  then show ?case by (auto split: option.split)
next
  case (2 r x kind i prev w ws)
  define ord where "ord p e \<longleftrightarrow> (if kind = IndexActive then p < ie_Name e else p \<le> ie_Name e)" for p and e :: IndexEntry
  define check where "check e = (case prev of
      None \<Rightarrow> Inr ()
    | Some p \<Rightarrow> if ie_Name e < p then Inl (IndexNotSorted p (ie_Name e))
                else if ie_Name e = p \<and> kind = IndexActive
                then Inl (IndexDuplicate (ie_Name e)) else Inr ())" for e :: IndexEntry
  have le: "ord p e" if "check e = Inr ()" "prev = Some p" for p and e :: IndexEntry
    using that by (auto simp: check_def ord_def split: if_splits)
  from "2.prems" obtain e es' where e: "decodeIndexEntry r x w = Inr e" and c: "check e = Inr ()"
    and rest: "decodeEntries r x kind (Suc i) (Some (ie_Name e)) ws = Inr es'" "es = e # es'"
    unfolding decodeEntries.simps check_def [symmetric] by (auto simp: result_simps)
  have "list_all (wf_entry x) es' \<and>
      sorted_wrt (if kind = IndexActive then (<) else (\<le>)) (ie_Name e # map ie_Name es')"
    using "2.IH" [OF rest(1)] by simp
  with decodeIndexEntry_wf [OF e] le [OF c] show ?case
    by (cases "kind = IndexActive"; cases prev)
       (auto simp: rest(2) ord_def intro: less_trans order_trans)
qed

definition wf_index :: "externals \<Rightarrow> Index \<Rightarrow> bool" where
  "wf_index x idx \<longleftrightarrow>
     ix_Kind idx \<in> {IndexActive, IndexArchive} \<and> 1 \<le> ix_IndexVersion idx \<and>
     list_all (wf_entry x) (ix_Packages idx) \<and> sorted (map ie_Name (ix_Packages idx)) \<and>
     (ix_Kind idx = IndexActive \<longrightarrow> distinct (map ie_Name (ix_Packages idx)))"

lemma DecodeIndex_wf:
  assumes "DecodeIndex r x data = Inr idx"
  shows "wf_index x idx"
proof -
  from assms have entries: "decodeEntries r x (ix_Kind idx) 0 None ws = Inr (ix_Packages idx) \<Longrightarrow>
      list_all (wf_entry x) (ix_Packages idx) \<and> sorted (map ie_Name (ix_Packages idx)) \<and>
      (ix_Kind idx = IndexActive \<longrightarrow> distinct (map ie_Name (ix_Packages idx)))" for ws
    using decodeEntries_ok [of r x "ix_Kind idx" 0 None ws "ix_Packages idx"]
    by (cases "ix_Kind idx = IndexActive") (auto simp: strict_sorted_iff)
  from assms obtain ws where "decodeEntries r x (ix_Kind idx) 0 None ws = Inr (ix_Packages idx)"
    and "ix_Kind idx \<in> {IndexActive, IndexArchive}" and "1 \<le> ix_IndexVersion idx"
    by (auto simp: DecodeIndex_def decodeIndexWire_def result_simps split: option.splits if_splits)
  with entries show ?thesis by (auto simp: wf_index_def)
qed

subsection \<open>A build time below the second\<close>

text \<open>
  \<open>validateBuild\<close> rejects a timestamp with a period, to keep fractions of a second out.
  \<open>time.Parse\<close> also takes a comma before a fraction.
\<close>

theorem comma_fraction_accepted:
  "\<exists>b. validateBuild
       \<lparr>wb_Timestamp = Some ''2026-01-02T03:04:05,5Z'', wb_FarmID = Some ''f'', wb_SourceRef = Some ''s'',
        wb_SourcePackage = None, wb_RecipeRef = None, wb_Builder = None\<rparr> = Inr b
     \<and> b_Timestamp b mod second_ns = 500000000"
proof -
  let ?r = "validateBuild
       \<lparr>wb_Timestamp = Some ''2026-01-02T03:04:05,5Z'', wb_FarmID = Some ''f'', wb_SourceRef = Some ''s'',
        wb_SourcePackage = None, wb_RecipeRef = None, wb_Builder = None\<rparr>"
  have "(case ?r of Inl e \<Rightarrow> False | Inr b \<Rightarrow> b_Timestamp b mod second_ns = 500000000)"
    by code_simp
  then show ?thesis by (auto split: sum.splits)
qed

end
