(* ===== verification/ClientExamples.thy ===== *)
theory ClientExamples
  imports RepoDataFacts
begin

section \<open>A repository to fetch from\<close>

text \<open>
  Concrete arguments for the repository client: a digest that is constant, a signature check
  that accepts, a reader that gives one document of each kind, and a network that answers every
  request. On them an addition, a refresh and a read of the active index succeed.
\<close>

definition exKey :: string where
  "exKey = replicate 32 (CHR 0x00)"

definition exFingerprint :: string where
  "exFingerprint = replicate 64 (CHR ''0'')"

definition exCrypto :: crypto where
  "exCrypto = \<lparr>k_sha256 = (\<lambda>_. replicate 32 (CHR 0x00)), k_verify = (\<lambda>_ _ _. True)\<rparr>"

definition exPointer :: wireIndexPointer where
  "exPointer = \<lparr>wip_URL = Some ''/i'', wip_SignatureURL = Some ''/s''\<rparr>"

definition exWireDescriptor :: wireDescriptor where
  "exWireDescriptor =
     \<lparr>wds_SchemaVersion = Some 1,
      wds_Repo = Some \<lparr>wrp_Name = Some ''r'', wrp_Description = [],
        wrp_Signing = Some \<lparr>wsg_Algorithm = Some ''ed25519'',
          wsg_Keys = [\<lparr>wk_Fingerprint = Some exFingerprint, wk_URL = Some ''/k'',
                       wk_Status = Some KeyActive, wk_ValidUntil = []\<rparr>]\<rparr>\<rparr>,
      wds_Indexes = Some \<lparr>wix_Active = Some exPointer, wix_Archive = Some exPointer\<rparr>\<rparr>"

definition exWireIndex :: wireIndex where
  "exWireIndex =
     \<lparr>wi_SchemaVersion = Some 1, wi_Repo = Some ''r'', wi_Kind = Some IndexActive,
      wi_IndexVersion = Some 7, wi_GeneratedAt = Some ''2026-01-02T03:04:05Z'', wi_Packages = []\<rparr>"

definition exWireEnvelope :: wireEnvelope where
  "exWireEnvelope =
     \<lparr>wv_SchemaVersion = Some 1, wv_Algorithm = Some ''ed25519'',
      wv_KeyFingerprint = Some exFingerprint, wv_Signature = Some (replicate 86 (CHR ''A''))\<rparr>"

definition exReader :: jsonReader where
  "exReader =
     \<lparr>j_descriptor = (\<lambda>_. Some exWireDescriptor), j_index = (\<lambda>_. Some exWireIndex),
      j_envelope = (\<lambda>_. Some exWireEnvelope), j_dependencies = (\<lambda>_. Some []),
      j_provides = (\<lambda>_. Some []), j_replaces = (\<lambda>_. Some []), j_strings = (\<lambda>_. Some [])\<rparr>"

definition exEnv :: clientEnv where
  "exEnv =
     \<lparr>env_crypto = exCrypto, env_json = exReader,
      env_ext = \<lparr>x_nfc = (\<lambda>_. True), x_urlScheme = (\<lambda>_. Some ''https''), x_descriptor = (\<lambda>_. True)\<rparr>,
      env_url = \<lparr>u_scheme = (\<lambda>_. Some ''https''), u_isAbs = (\<lambda>_. False), u_resolve = (\<lambda>_ r. Some r),
                 u_host = (\<lambda>_. ''h''), u_path = (\<lambda>_. [])\<rparr>,
      env_pem = (\<lambda>_. None)\<rparr>"

definition exNetwork :: network where
  "exNetwork url limit = Some exKey"

definition exConfig :: RepoConfig where
  "exConfig =
     \<lparr>cfg_Name = ''repo'', cfg_BaseURL = ''https://h'', cfg_Priority = 1,
      cfg_SignaturePolicy = PolicyRequired, cfg_TrustAnchors = [exFingerprint],
      cfg_AllowInsecureTransport = False, cfg_AllowSDOverrides = False, cfg_MinIndexVersion = 0,
      cfg_MaxTrustedAgeDays = 0, cfg_MaxIndexStalenessDays = 0\<rparr>"

definition exNow :: time where
  "exNow = 1800000000 * second_ns"

definition exTrust :: TrustSet where
  "exTrust =
     [\<lparr>tk_Fingerprint = exFingerprint, tk_PublicKey = exKey, tk_Status = KeyActive,
       tk_ValidUntil = zeroTime\<rparr>]"

definition exRow :: Repository where
  "exRow =
     \<lparr>rp_Name = ''repo'', rp_DescriptorName = ''r'', rp_HighestIndexVersion = 7,
      rp_GeneratedAtFloor = 1767323045, rp_LastRefreshAt = exNow, rp_TrustKeys = Marshal exTrust\<rparr>"

definition exIndex :: Index where
  "exIndex =
     \<lparr>ix_RepoName = ''r'', ix_Kind = IndexActive, ix_IndexVersion = 7,
      ix_GeneratedAt = 1767323045 * second_ns, ix_Packages = []\<rparr>"

lemma exIndex_decoded: "DecodeIndex (env_json exEnv) (env_ext exEnv) data = Inr exIndex"
  by code_simp

lemma add_example: "Add exEnv exNetwork exConfig exNow None = Inr (exRow, exKey, Some exKey)"
  by code_simp

lemma refresh_example:
  "Refresh exEnv exNetwork exConfig exNow (Some exRow) = Inr (exRow, exKey, Some exKey)"
  by code_simp

text \<open>The state after the addition, and what it gives to read.\<close>

definition exState :: repoState where
  "exState = recordRepo exRow exKey (Some exKey) \<lparr>st_rows = [], st_cache = []\<rparr>"

lemma active_example: "ActiveIndex exEnv ''repo'' exNow exState = Inr exIndex"
  by code_simp

lemma run_example:
  "client_run exEnv (\<lambda>cfg. cfg = exConfig) ''repo'' \<lparr>st_rows = [], st_cache = []\<rparr> exState"
proof -
  have none: "GetRepository \<lparr>st_rows = [], st_cache = []\<rparr> (cfg_Name exConfig) = None" by code_simp
  have "Add exEnv exNetwork exConfig exNow (GetRepository \<lparr>st_rows = [], st_cache = []\<rparr> (cfg_Name exConfig)) =
      Inr (exRow, exKey, Some exKey)"
    unfolding none by (rule add_example)
  then have "client_step exEnv (\<lambda>cfg. cfg = exConfig) ''repo'' \<lparr>st_rows = [], st_cache = []\<rparr> exState"
    unfolding exState_def by (rule client_step.added [OF refl])
  then show ?thesis by blast
qed

lemma signed_example: "\<not> UnsignedMode exConfig"
  by code_simp

subsection \<open>A manifest\<close>

definition exWireManifest :: wireManifest where
  "exWireManifest =
     \<lparr>w_SchemaVersion = Some 1, w_Name = Some ''hello'', w_Version = Some ''1.0-1'',
      w_Architecture = Some ''noarch'', w_Description = ''d'', w_License = ''MIT'', w_LicenseClass = ''free'',
      w_Homepage = [], w_DefaultRoot = [], w_SpecialSystemPackage = False, w_AlternateUpgrade = None,
      w_Dependencies = Some [\<lparr>wd_Name = Some ''libc'', wd_Constraint = ''>= 2.0'', wd_Arch = [],
        wd_Root = [], wd_Claims = [(''main'', \<lparr>wc_Path = ''/run/x'', wc_Target = []\<rparr>)]\<rparr>],
      w_OptionalDependencies = [], w_Conflicts = Some [],
      w_Provides = [\<lparr>wp_Name = Some ''greeter'', wp_Version = ''3'', wp_Claims = []\<rparr>],
      w_Replaces = [], w_SideEffects = [''depmod''], w_SizeInstalled = Some 5, w_SDOverrides = [],
      w_Build = Some \<lparr>wb_Timestamp = Some ''2026-01-02T03:04:05Z'', wb_FarmID = Some ''f'',
        wb_SourceRef = Some ''s'', wb_SourcePackage = None, wb_RecipeRef = None, wb_Builder = None\<rparr>\<rparr>"

lemma manifest_example: "case validate (env_ext exEnv) exWireManifest of Inl _ \<Rightarrow> False | Inr m \<Rightarrow> m_Name m = ''hello''"
  by code_simp

end
