(* ===== verification/PackageDb.thy ===== *)
theory PackageDb
  imports Prelude GoStdlib
begin

section \<open>The package database\<close>

text \<open>
  The tables of \<open>internal/db\<close> that a transaction reads and writes, and the SQL statements
  of \<open>package.go\<close>, \<open>claim.go\<close> and \<open>txn.go\<close> over them: one definition per statement, on
  the rows of a \<open>database\<close>. The constraints are those of \<open>migrations/*.sql\<close>: primary
  keys, the partial unique indices, \<open>CHECK\<close> clauses, foreign keys and their cascades; a
  statement that breaks one fails and changes nothing. \<open>nullString\<close> turns the empty string
  into NULL, so a nullable column is the empty string here.

  Failures of every layer of the installer share one type, as \<open>error\<close> does in Go.
\<close>

datatype failure =
    EIO | ENOENT | EEXIST | ENOTEMPTY | ENOTDIR | EISDIR | ELOOP | EINVAL
  | SymlinkComponent | LeavesRoot string | NotAComponent string | OutsideRoot string
  | ConstraintFailed string | NotTerminal | NoPendingWithId
  | Busy | NewerJournal nat | CrossRootPending string
  | NotPinned string | NoStagedPath string | WrongBlob string
  | Joined "failure list"
  | Refused string "string list"

subsection \<open>Rows\<close>

record dbPackage =
  dp_Name :: string
  dp_Version :: string
  dp_Architecture :: string
  dp_OriginRepo :: string
  dp_InstalledAt :: int
  dp_Manifest :: string

datatype FileType = FileTypeFile | FileTypeDir | FileTypeSymlink

record PackageFile =
  pf_PackageName :: string
  pf_Path :: string
  pf_Type :: FileType
  pf_Hash :: string
  pf_SymlinkTarget :: string

datatype TxnState = TxnPending | TxnCommitted | TxnRolledBack

record Txn =
  tx_ID :: nat
  tx_State :: TxnState
  tx_OpSummary :: string
  tx_StartedByVersion :: string
  tx_JournalSchemaVersion :: nat
  tx_CrossRootID :: string

datatype OpAction = ActInstall | ActUpgrade | ActDowngrade | ActRemove | ActClaim

record TxnOp =
  to_TxnID :: nat
  to_Seq :: nat
  to_PackageName :: string
  to_Action :: OpAction
  to_FromVersion :: string
  to_ToVersion :: string
  to_OriginRepo :: string

datatype FileAction = FileCreate | FileReplace | FileRemove

record TxnFile =
  tf_TxnID :: nat
  tf_Seq :: nat
  tf_PackageName :: string
  tf_FinalPath :: string
  tf_Action :: FileAction
  tf_StagedPath :: string
  tf_BackupPath :: string

record TxnDir =
  td_TxnID :: nat
  td_Seq :: nat
  td_Path :: string

record ClaimHolder =
  ch_Role :: string
  ch_Holder :: string

record ClaimLink =
  cl_Path :: string
  cl_Role :: string
  cl_Slot :: string
  cl_Target :: string

text \<open>
  The state a commit applies, as \<open>commit_payload\<close> stores it for a cross-root transaction
  (\<open>internal/install/payload.go\<close>). The column holds its JSON text; it is the value here,
  its version included.
\<close>

record payloadOp =
  po_Kind :: string
  po_Name :: string
  po_Package :: "dbPackage option"
  po_Files :: "PackageFile list"

record claimCommit =
  cc_SetHolders :: "string gomap"
  cc_DelHolders :: "string list"
  cc_DelLinks :: "string list"
  cc_InsLinks :: "ClaimLink list"

record commitPayload =
  cp_Version :: nat
  cp_Ops :: "payloadOp list"
  cp_Claims :: claimCommit

record database =
  t_package :: "dbPackage list"
  t_package_file :: "PackageFile list"
  t_txn :: "Txn list"
  t_txn_sequence :: nat
  t_payload :: "(nat \<times> commitPayload) list"
  t_txn_op :: "TxnOp list"
  t_txn_file :: "TxnFile list"
  t_txn_dir :: "TxnDir list"
  t_claim_holder :: "ClaimHolder list"
  t_claim_link :: "ClaimLink list"

subsection \<open>Packages and their files\<close>

definition InsertPackage :: "dbPackage \<Rightarrow> database \<Rightarrow> failure + database" where
  "InsertPackage p d =
     (if list_ex (\<lambda>q. dp_Name q = dp_Name p) (t_package d) then Inl (ConstraintFailed ''package'')
      else Inr (d\<lparr>t_package := t_package d @ [p]\<rparr>))"

definition GetPackage :: "string \<Rightarrow> database \<Rightarrow> dbPackage option" where
  "GetPackage name d = List.find (\<lambda>p. dp_Name p = name) (t_package d)"

definition ListPackages :: "database \<Rightarrow> dbPackage list" where
  "ListPackages d = sort_key dp_Name (t_package d)"

text \<open>The row goes, and by cascade its files, the roles it holds, and their links.\<close>

definition DeletePackage :: "string \<Rightarrow> database \<Rightarrow> failure + database" where
  "DeletePackage name d =
     (let gone = map ch_Role (filter (\<lambda>h. ch_Holder h = name) (t_claim_holder d))
      in Inr (d\<lparr>t_package := filter (\<lambda>p. dp_Name p \<noteq> name) (t_package d),
                t_package_file := filter (\<lambda>f. pf_PackageName f \<noteq> name) (t_package_file d),
                t_claim_holder := filter (\<lambda>h. ch_Holder h \<noteq> name) (t_claim_holder d),
                t_claim_link := filter (\<lambda>l. cl_Role l \<notin> set gone) (t_claim_link d)\<rparr>))"

definition package_file_row :: "PackageFile \<Rightarrow> bool" where
  "package_file_row f =
     (case pf_Type f of
        FileTypeFile \<Rightarrow> pf_Hash f \<noteq> [] \<and> pf_SymlinkTarget f = []
      | FileTypeSymlink \<Rightarrow> pf_SymlinkTarget f \<noteq> [] \<and> pf_Hash f = []
      | FileTypeDir \<Rightarrow> pf_Hash f = [] \<and> pf_SymlinkTarget f = [])"

definition InsertPackageFile :: "PackageFile \<Rightarrow> database \<Rightarrow> failure + database" where
  "InsertPackageFile f d =
     (if package_file_row f
        \<and> list_ex (\<lambda>p. dp_Name p = pf_PackageName f) (t_package d)
        \<and> \<not> list_ex (\<lambda>g. pf_PackageName g = pf_PackageName f \<and> pf_Path g = pf_Path f) (t_package_file d)
        \<and> (pf_Type f = FileTypeDir
            \<or> \<not> list_ex (\<lambda>g. pf_Path g = pf_Path f \<and> pf_Type g \<noteq> FileTypeDir) (t_package_file d))
      then Inr (d\<lparr>t_package_file := t_package_file d @ [f]\<rparr>)
      else Inl (ConstraintFailed ''package_file''))"

definition PackageFiles :: "string \<Rightarrow> database \<Rightarrow> PackageFile list" where
  "PackageFiles name d = sort_key pf_Path (filter (\<lambda>f. pf_PackageName f = name) (t_package_file d))"

definition FileOwners :: "string \<Rightarrow> database \<Rightarrow> PackageFile list" where
  "FileOwners path d = sort_key pf_PackageName (filter (\<lambda>f. pf_Path f = path) (t_package_file d))"

subsection \<open>Claims\<close>

definition SetClaimHolder :: "string \<Rightarrow> string \<Rightarrow> database \<Rightarrow> failure + database" where
  "SetClaimHolder role holder d =
     (if \<not> list_ex (\<lambda>p. dp_Name p = holder) (t_package d) then Inl (ConstraintFailed ''claim_holder'')
      else if list_ex (\<lambda>h. ch_Role h = role) (t_claim_holder d) then
        Inr (d\<lparr>t_claim_holder :=
                 map (\<lambda>h. if ch_Role h = role then h\<lparr>ch_Holder := holder\<rparr> else h) (t_claim_holder d)\<rparr>)
      else Inr (d\<lparr>t_claim_holder := t_claim_holder d @ [\<lparr>ch_Role = role, ch_Holder = holder\<rparr>]\<rparr>))"

definition DeleteClaimHolder :: "string \<Rightarrow> database \<Rightarrow> failure + database" where
  "DeleteClaimHolder role d =
     Inr (d\<lparr>t_claim_holder := filter (\<lambda>h. ch_Role h \<noteq> role) (t_claim_holder d),
            t_claim_link := filter (\<lambda>l. cl_Role l \<noteq> role) (t_claim_link d)\<rparr>)"

definition ClaimHolders :: "database \<Rightarrow> ClaimHolder list" where
  "ClaimHolders d = sort_key ch_Role (t_claim_holder d)"

definition InsertClaimLink :: "ClaimLink \<Rightarrow> database \<Rightarrow> failure + database" where
  "InsertClaimLink l d =
     (if list_ex (\<lambda>h. ch_Role h = cl_Role l) (t_claim_holder d)
        \<and> \<not> list_ex (\<lambda>k. cl_Path k = cl_Path l) (t_claim_link d)
      then Inr (d\<lparr>t_claim_link := t_claim_link d @ [l]\<rparr>)
      else Inl (ConstraintFailed ''claim_link''))"

definition DeleteClaimLink :: "string \<Rightarrow> database \<Rightarrow> failure + database" where
  "DeleteClaimLink path d = Inr (d\<lparr>t_claim_link := filter (\<lambda>l. cl_Path l \<noteq> path) (t_claim_link d)\<rparr>)"

definition ClaimLinks :: "database \<Rightarrow> ClaimLink list" where
  "ClaimLinks d = sort_key cl_Path (t_claim_link d)"

subsection \<open>Transactions\<close>

text \<open>
  The row in state \<open>pending\<close> is the crash-recovery journal, and the partial unique index
  lets there be one. Identifiers are never used twice (\<open>AUTOINCREMENT\<close>). The times of a
  row are not modelled.
\<close>

definition BeginCrossRootTxn :: "string \<Rightarrow> nat \<Rightarrow> string \<Rightarrow> database \<Rightarrow> failure + nat \<times> database" where
  "BeginCrossRootTxn startedByVersion schema crossRootID d =
     (if list_ex (\<lambda>t. tx_State t = TxnPending) (t_txn d) then Inl (ConstraintFailed ''txn'')
      else (let n = Suc (t_txn_sequence d) in
        Inr (n, d\<lparr>t_txn_sequence := n,
                   t_txn := t_txn d @ [\<lparr>tx_ID = n, tx_State = TxnPending, tx_OpSummary = [],
                     tx_StartedByVersion = startedByVersion, tx_JournalSchemaVersion = schema,
                     tx_CrossRootID = crossRootID\<rparr>]\<rparr>)))"

definition FinishTxn :: "nat \<Rightarrow> TxnState \<Rightarrow> string \<Rightarrow> database \<Rightarrow> failure + database" where
  "FinishTxn n state summary d =
     (if state \<noteq> TxnCommitted \<and> state \<noteq> TxnRolledBack then Inl NotTerminal
      else if \<not> list_ex (\<lambda>t. tx_ID t = n \<and> tx_State t = TxnPending) (t_txn d) then Inl NoPendingWithId
      else Inr (d\<lparr>t_txn := map (\<lambda>t. if tx_ID t = n \<and> tx_State t = TxnPending
                                    then t\<lparr>tx_State := state, tx_OpSummary := summary\<rparr> else t)
                               (t_txn d)\<rparr>))"

definition DeleteTxn :: "nat \<Rightarrow> database \<Rightarrow> failure + database" where
  "DeleteTxn n d =
     Inr (d\<lparr>t_txn := filter (\<lambda>t. tx_ID t \<noteq> n) (t_txn d),
            t_payload := filter (\<lambda>p. fst p \<noteq> n) (t_payload d),
            t_txn_op := filter (\<lambda>r. to_TxnID r \<noteq> n) (t_txn_op d),
            t_txn_file := filter (\<lambda>r. tf_TxnID r \<noteq> n) (t_txn_file d),
            t_txn_dir := filter (\<lambda>r. td_TxnID r \<noteq> n) (t_txn_dir d)\<rparr>)"

definition GetTxn :: "nat \<Rightarrow> database \<Rightarrow> Txn option" where
  "GetTxn n d = List.find (\<lambda>t. tx_ID t = n) (t_txn d)"

definition PendingTxn :: "database \<Rightarrow> Txn option" where
  "PendingTxn d = List.find (\<lambda>t. tx_State t = TxnPending) (t_txn d)"

definition ListTxns :: "int \<Rightarrow> database \<Rightarrow> Txn list" where
  "ListTxns limit d =
     (let ts = rev (sort_key tx_ID (t_txn d)) in if limit > 0 then take (nat limit) ts else ts)"

definition TxnsByCrossRootID :: "string \<Rightarrow> database \<Rightarrow> Txn list" where
  "TxnsByCrossRootID x d =
     rev (sort_key tx_ID (filter (\<lambda>t. tx_CrossRootID t \<noteq> [] \<and> tx_CrossRootID t = x) (t_txn d)))"

definition SetCommitPayload :: "nat \<Rightarrow> commitPayload \<Rightarrow> database \<Rightarrow> failure + database" where
  "SetCommitPayload n payload d =
     (if list_ex (\<lambda>t. tx_ID t = n) (t_txn d)
      then Inr (d\<lparr>t_payload := AList.update n payload (t_payload d)\<rparr>) else Inr d)"

definition CommitPayload :: "nat \<Rightarrow> database \<Rightarrow> commitPayload option" where
  "CommitPayload n d = map_of (t_payload d) n"

definition txn_op_row :: "TxnOp \<Rightarrow> bool" where
  "txn_op_row r =
     (case to_Action r of
        ActInstall \<Rightarrow> to_FromVersion r = [] \<and> to_ToVersion r \<noteq> []
      | ActRemove \<Rightarrow> to_FromVersion r \<noteq> [] \<and> to_ToVersion r = []
      | ActClaim \<Rightarrow> to_FromVersion r = [] \<and> to_ToVersion r = []
      | _ \<Rightarrow> to_FromVersion r \<noteq> [] \<and> to_ToVersion r \<noteq> [])"

definition InsertTxnOp :: "TxnOp \<Rightarrow> database \<Rightarrow> failure + database" where
  "InsertTxnOp r d =
     (if txn_op_row r \<and> list_ex (\<lambda>t. tx_ID t = to_TxnID r) (t_txn d)
        \<and> \<not> list_ex (\<lambda>q. to_TxnID q = to_TxnID r
                      \<and> (to_PackageName q = to_PackageName r \<or> to_Seq q = to_Seq r)) (t_txn_op d)
      then Inr (d\<lparr>t_txn_op := t_txn_op d @ [r]\<rparr>) else Inl (ConstraintFailed ''txn_op''))"

definition TxnOps :: "nat \<Rightarrow> database \<Rightarrow> TxnOp list" where
  "TxnOps n d = sort_key to_Seq (filter (\<lambda>r. to_TxnID r = n) (t_txn_op d))"

definition txn_file_row :: "TxnFile \<Rightarrow> bool" where
  "txn_file_row r =
     (case tf_Action r of
        FileCreate \<Rightarrow> tf_StagedPath r \<noteq> [] \<and> tf_BackupPath r = []
      | FileReplace \<Rightarrow> tf_StagedPath r \<noteq> [] \<and> tf_BackupPath r \<noteq> []
      | FileRemove \<Rightarrow> tf_StagedPath r = [] \<and> tf_BackupPath r \<noteq> [])"

definition InsertTxnFile :: "TxnFile \<Rightarrow> database \<Rightarrow> failure + database" where
  "InsertTxnFile r d =
     (if txn_file_row r
        \<and> list_ex (\<lambda>q. to_TxnID q = tf_TxnID r \<and> to_PackageName q = tf_PackageName r) (t_txn_op d)
        \<and> \<not> list_ex (\<lambda>q. tf_TxnID q = tf_TxnID r
                      \<and> (tf_FinalPath q = tf_FinalPath r \<or> tf_Seq q = tf_Seq r)) (t_txn_file d)
      then Inr (d\<lparr>t_txn_file := t_txn_file d @ [r]\<rparr>) else Inl (ConstraintFailed ''txn_file''))"

definition TxnFiles :: "nat \<Rightarrow> database \<Rightarrow> TxnFile list" where
  "TxnFiles n d = sort_key tf_Seq (filter (\<lambda>r. tf_TxnID r = n) (t_txn_file d))"

definition InsertTxnDir :: "TxnDir \<Rightarrow> database \<Rightarrow> failure + database" where
  "InsertTxnDir r d =
     (if list_ex (\<lambda>t. tx_ID t = td_TxnID r) (t_txn d)
        \<and> \<not> list_ex (\<lambda>q. td_TxnID q = td_TxnID r \<and> (td_Path q = td_Path r \<or> td_Seq q = td_Seq r))
              (t_txn_dir d)
      then Inr (d\<lparr>t_txn_dir := t_txn_dir d @ [r]\<rparr>) else Inl (ConstraintFailed ''txn_dir''))"

definition TxnDirs :: "nat \<Rightarrow> database \<Rightarrow> string list" where
  "TxnDirs n d = map td_Path (sort_key td_Seq (filter (\<lambda>r. td_TxnID r = n) (t_txn_dir d)))"

end
