(* ===== verification/Machine.thy ===== *)
theory Machine
  imports PackageDb Claims
begin

section \<open>The machine a transaction runs on\<close>

text \<open>
  An installation root with its package database, and the calls the installer makes on them.
  Every call that can fail takes one entry of a schedule of faults: it proceeds, fails, or the
  process ends there. A theorem about every schedule is one about every failure and every
  point of a crash. A call that ends the process has no effect; the effects of the calls
  before it stay, as those of completed system calls do.

  The file tree maps a path, the list of its components below the root, to a node. A
  directory handle of \<open>internal/safepath\<close> is the path it was opened by: nothing else
  renames directories of the root while a transaction holds its lock.
\<close>

datatype node = NFile string string string | NLink string | NDir string

type_synonym path = "string list"
type_synonym fsys = "(path \<times> node) list"

text \<open>\<open>NFile\<close> holds content, security descriptor and signature attribute; \<open>NDir\<close> its descriptor.\<close>

definition look :: "fsys \<Rightarrow> path \<Rightarrow> node option" where
  "look t = map_of t"

definition putNode :: "fsys \<Rightarrow> path \<Rightarrow> node \<Rightarrow> fsys" where
  "putNode t p n = AList.update p n t"

definition erase :: "fsys \<Rightarrow> path \<Rightarrow> fsys" where
  "erase t p = AList.delete p t"

definition paths :: "fsys \<Rightarrow> path list" where
  "paths t = sort (remdups (map fst t))"

lemma dom_look: "dom (look t) = fst ` set t"
  unfolding look_def by (rule dom_map_of_conv_image_fst)

interpretation fsys: keyed_store look putNode erase paths
  by unfold_locales
     (simp_all add: dom_look paths_def,
      simp_all add: look_def putNode_def erase_def update_conv' delete_conv')

lemmas fsys_simps [map_simps] = fsys.get_put fsys.get_del

fun isLeaf :: "node \<Rightarrow> bool" where
  "isLeaf (NDir sd) = False"
| "isLeaf n = True"

definition isDir :: "fsys \<Rightarrow> path \<Rightarrow> bool" where
  "isDir t p \<longleftrightarrow> p = [] \<or> (case look t p of Some n \<Rightarrow> \<not> isLeaf n | None \<Rightarrow> False)"

definition inhabited :: "fsys \<Rightarrow> path \<Rightarrow> bool" where
  "inhabited t p \<longleftrightarrow> list_ex (\<lambda>(k, n). strict_prefix p k) t"

subsection \<open>System calls\<close>

text \<open>
  Renaming a directory takes everything below it along. On files and links both renames are
  plain updates.
\<close>

definition rekey :: "path \<Rightarrow> path \<Rightarrow> path \<Rightarrow> path" where
  "rekey from dest p = (if prefix from p then dest @ drop (length from) p else p)"

definition sys_rename :: "path \<Rightarrow> path \<Rightarrow> fsys \<Rightarrow> failure + unit \<times> fsys" where
  "sys_rename from dest t =
     (case look t from of
        None \<Rightarrow> Inl ENOENT
      | Some n \<Rightarrow>
          if from = dest then Inr ((), t)
          else if isLeaf n then
            (case look t dest of
               Some (NDir sd) \<Rightarrow> Inl EISDIR
             | _ \<Rightarrow> Inr ((), putNode (erase t from) dest n))
          else
            (case look t dest of
               Some n' \<Rightarrow>
                 if isLeaf n' then Inl ENOTDIR
                 else if inhabited t dest then Inl ENOTEMPTY
                 else Inr ((), map (\<lambda>(k, n). (rekey from dest k, n)) (erase t dest))
             | None \<Rightarrow> Inr ((), map (\<lambda>(k, n). (rekey from dest k, n)) t)))"

definition swapKey :: "path \<Rightarrow> path \<Rightarrow> path \<Rightarrow> path" where
  "swapKey a b p = (if prefix a p then rekey a b p else rekey b a p)"

definition sys_exchange :: "path \<Rightarrow> path \<Rightarrow> fsys \<Rightarrow> failure + unit \<times> fsys" where
  "sys_exchange a b t =
     (case (look t a, look t b) of
        (Some m, Some n) \<Rightarrow>
          if isLeaf m \<and> isLeaf n then Inr ((), putNode (putNode t a n) b m)
          else Inr ((), map (\<lambda>(k, n). (swapKey a b k, n)) t)
      | _ \<Rightarrow> Inl ENOENT)"

definition sys_unlink :: "path \<Rightarrow> fsys \<Rightarrow> failure + unit \<times> fsys" where
  "sys_unlink p t =
     (case look t p of
        None \<Rightarrow> Inl ENOENT
      | Some n \<Rightarrow> if isLeaf n then Inr ((), erase t p) else Inl EISDIR)"

definition sys_rmdir :: "path \<Rightarrow> fsys \<Rightarrow> failure + unit \<times> fsys" where
  "sys_rmdir p t =
     (case look t p of
        None \<Rightarrow> Inl ENOENT
      | Some n \<Rightarrow>
          if isLeaf n then Inl ENOTDIR
          else if inhabited t p then Inl ENOTEMPTY
          else Inr ((), erase t p))"

text \<open>Making a node where nothing may be yet: \<open>O_CREAT|O_EXCL\<close>, \<open>symlinkat\<close>, \<open>mkdirat\<close>.\<close>

definition sys_make :: "path \<Rightarrow> node \<Rightarrow> fsys \<Rightarrow> failure + unit \<times> fsys" where
  "sys_make p n t = (case look t p of Some _ \<Rightarrow> Inl EEXIST | None \<Rightarrow> Inr ((), putNode t p n))"

fun appended :: "string \<Rightarrow> node \<Rightarrow> node" where
  "appended bytes (NFile c sd sig) = NFile (c @ bytes) sd sig"
| "appended bytes n = n"

fun described :: "string \<Rightarrow> node \<Rightarrow> node" where
  "described sd (NFile c _ sig) = NFile c sd sig"
| "described sd (NDir _) = NDir sd"
| "described sd n = n"

fun signedNode :: "string \<Rightarrow> node \<Rightarrow> node" where
  "signedNode sig (NFile c sd _) = NFile c sd sig"
| "signedNode sig n = n"

definition sys_change :: "(node \<Rightarrow> node) \<Rightarrow> path \<Rightarrow> fsys \<Rightarrow> failure + unit \<times> fsys" where
  "sys_change g p t =
     (case look t p of None \<Rightarrow> Inl ENOENT | Some n \<Rightarrow> Inr ((), putNode t p (g n)))"

subsection \<open>Running under a schedule of faults\<close>

datatype fault = Proceeds | Fails | Crashes

text \<open>
  \<open>statFaults\<close> are those of \<open>Lstat\<close>, whose errors \<open>Exists\<close> swallows; they are apart so that
  a theorem can say what depends on them. \<open>native\<close> says whether the kernel takes security
  descriptors at creation.
\<close>

record machine =
  tree :: fsys
  db :: database
  pinned :: "path gomap"
  directorySD :: "string gomap"
  appliedSD :: "string list"
  held :: bool
  native :: bool
  faults :: "fault list"
  statFaults :: "bool list"

datatype 'a outcome = Done 'a | Failed failure | Crashed

type_synonym 'a act = "machine \<Rightarrow> 'a outcome \<times> machine"

definition ret :: "'a \<Rightarrow> 'a act" where
  "ret x m = (Done x, m)"

definition raise :: "failure \<Rightarrow> 'a act" where
  "raise e m = (Failed e, m)"

definition bnd :: "'a act \<Rightarrow> ('a \<Rightarrow> 'b act) \<Rightarrow> 'b act" where
  "bnd a f m =
     (case a m of
        (Done x, m') \<Rightarrow> f x m'
      | (Failed e, m') \<Rightarrow> (Failed e, m')
      | (Crashed, m') \<Rightarrow> (Crashed, m'))"

text \<open>A call whose error the caller looks at; a crash cannot be caught.\<close>

definition attempt :: "'a act \<Rightarrow> (failure + 'a) act" where
  "attempt a m =
     (case a m of
        (Done x, m') \<Rightarrow> (Done (Inr x), m')
      | (Failed e, m') \<Rightarrow> (Done (Inl e), m')
      | (Crashed, m') \<Rightarrow> (Crashed, m'))"

definition perform :: "(machine \<Rightarrow> failure + 'a \<times> machine) \<Rightarrow> 'a act" where
  "perform f m =
     (case faults m of
        Fails # r \<Rightarrow> (Failed EIO, m\<lparr>faults := r\<rparr>)
      | Crashes # r \<Rightarrow> (Crashed, m\<lparr>faults := r\<rparr>)
      | fs \<Rightarrow>
          (case f (m\<lparr>faults := drop 1 fs\<rparr>) of
             Inl e \<Rightarrow> (Failed e, m\<lparr>faults := drop 1 fs\<rparr>)
           | Inr (x, m') \<Rightarrow> (Done x, m')))"

definition sys :: "(fsys \<Rightarrow> failure + 'a \<times> fsys) \<Rightarrow> 'a act" where
  "sys f = perform (\<lambda>m. rbind (f (tree m)) (\<lambda>(x, t). Inr (x, m\<lparr>tree := t\<rparr>)))"

definition exec :: "(database \<Rightarrow> failure + database) \<Rightarrow> unit act" where
  "exec f = perform (\<lambda>m. rbind (f (db m)) (\<lambda>d. Inr ((), m\<lparr>db := d\<rparr>)))"

definition execGet :: "(database \<Rightarrow> failure + 'a \<times> database) \<Rightarrow> 'a act" where
  "execGet f = perform (\<lambda>m. rbind (f (db m)) (\<lambda>(x, d). Inr (x, m\<lparr>db := d\<rparr>)))"

definition query :: "(database \<Rightarrow> 'a) \<Rightarrow> 'a act" where
  "query f = perform (\<lambda>m. Inr (f (db m), m))"

text \<open>A loop over a slice that stops at the first error.\<close>

fun each :: "('a \<Rightarrow> unit act) \<Rightarrow> 'a list \<Rightarrow> unit act" where
  "each f [] = ret ()"
| "each f (x # xs) = bnd (f x) (\<lambda>_. each f xs)"

text \<open>A loop that converts every element, stopping at the first error.\<close>

fun each_map :: "('a \<Rightarrow> 'b act) \<Rightarrow> 'a list \<Rightarrow> 'b list act" where
  "each_map f [] = ret []"
| "each_map f (x # xs) = bnd (f x) (\<lambda>y. bnd (each_map f xs) (\<lambda>ys. ret (y # ys)))"

text \<open>
  \<open>DB.Tx\<close>: the statements of a transaction work on a copy that the commit installs; an error
  or a crash before it leaves the database as it was.
\<close>

definition Tx :: "unit act \<Rightarrow> unit act" where
  "Tx body m =
     (case bnd body (\<lambda>_. perform (\<lambda>m. Inr ((), m))) m of
        (Done x, m') \<Rightarrow> (Done x, m')
      | (Failed e, m') \<Rightarrow> (Failed e, m'\<lparr>db := db m\<rparr>)
      | (Crashed, m') \<Rightarrow> (Crashed, m'\<lparr>db := db m\<rparr>))"

text \<open>
  \<open>Acquire\<close> and the deferred \<open>Release\<close> of \<open>lock.go\<close>: an advisory lock that does not wait and
  that the kernel drops when the process ends.
\<close>

definition Acquire :: "unit act" where
  "Acquire = perform (\<lambda>m. if held m then Inl Busy else Inr ((), m\<lparr>held := True\<rparr>))"

definition Release :: "machine \<Rightarrow> machine" where
  "Release m = m\<lparr>held := False\<rparr>"

definition withLock :: "'a act \<Rightarrow> 'a act" where
  "withLock body = bnd Acquire (\<lambda>_ m. let (r, m') = body m in (r, Release m'))"

end
