(* ===== verification/SafePath.thy ===== *)
theory SafePath
  imports Machine
begin

section \<open>Resolution beneath the root\<close>

text \<open>
  \<open>internal/safepath\<close> and \<open>internal/install/pinned.go\<close>: paths resolved component by component
  through real directories, the operations on one component of an open directory, and the
  cache of open directories a transaction keeps.
\<close>

subsection \<open>Walking to a directory\<close>

fun componentsFrom :: "string \<Rightarrow> string list \<Rightarrow> failure + string list" where
  "componentsFrom rel [] = Inr []"
| "componentsFrom rel (c # cs) =
     (if c = [] \<or> c = ''.'' then componentsFrom rel cs
      else if c = ''..'' then Inl (LeavesRoot rel)
      else rbind (componentsFrom rel cs) (\<lambda>r. Inr (c # r)))"

definition safeComponents :: "string \<Rightarrow> failure + string list" where
  "safeComponents rel =
     componentsFrom rel (split_byte (CHR ''/'')
       (if has_prefix rel ''/'' then drop 1 rel else rel))"

definition sys_openDir :: "path \<Rightarrow> string \<Rightarrow> fsys \<Rightarrow> failure + path \<times> fsys" where
  "sys_openDir cur c t =
     (if \<not> isDir t cur then Inl ENOENT
      else (case look t (cur @ [c]) of
              None \<Rightarrow> Inl ENOENT
            | Some n \<Rightarrow> if isLeaf n then Inl ENOTDIR else Inr (cur @ [c], t)))"

definition openDirAt :: "path \<Rightarrow> string \<Rightarrow> path act" where
  "openDirAt cur c = sys (sys_openDir cur c)"

fun walkError :: "failure \<Rightarrow> failure" where
  "walkError ELOOP = SymlinkComponent"
| "walkError ENOTDIR = SymlinkComponent"
| "walkError e = e"

definition relKey :: "path \<Rightarrow> string" where
  "relKey p = join ''/'' p"

definition descriptorOf :: "machine \<Rightarrow> path \<Rightarrow> string" where
  "descriptorOf m p = (case map_get (directorySD m) (relKey p) of Some sd \<Rightarrow> sd | None \<Rightarrow> [])"

definition markApplied :: "path \<Rightarrow> unit act" where
  "markApplied p m = (Done (), m\<lparr>appliedSD := relKey p # appliedSD m\<rparr>)"

text \<open>
  \<open>mkdirAt\<close>: with a descriptor the native call creates the directory with it. A kernel
  without that call answers \<open>ENOSYS\<close>, and the directory is made and opened plainly.
\<close>

definition makeAt :: "path \<Rightarrow> string \<Rightarrow> node \<Rightarrow> unit act" where
  "makeAt d name n = sys (\<lambda>t. if isDir t d then sys_make (d @ [name]) n t else Inl ENOENT)"

definition mkdirAt :: "path \<Rightarrow> string \<Rightarrow> path act" where
  "mkdirAt cur c m =
     (let p = cur @ [c]; sd = descriptorOf m p in
      if sd \<noteq> [] \<and> native m
      then bnd (makeAt cur c (NDir sd)) (\<lambda>_. bnd (markApplied p) (\<lambda>_. ret p)) m
      else bnd (makeAt cur c (NDir [])) (\<lambda>_. openDirAt cur c) m)"

definition applyDirectorySD :: "path \<Rightarrow> unit act" where
  "applyDirectorySD p m =
     (let sd = descriptorOf m p in
      if sd = [] \<or> relKey p \<in> set (appliedSD m) then ret () m
      else bnd (sys (sys_change (described sd) p)) (\<lambda>_. markApplied p) m)"

definition walkStep :: "bool \<Rightarrow> path \<Rightarrow> string \<Rightarrow> path act" where
  "walkStep create cur c =
     bnd (attempt (openDirAt cur c)) (\<lambda>r.
     bnd (if create \<and> r = Inl ENOENT then
            bnd (attempt (mkdirAt cur c)) (\<lambda>q.
              if q = Inl EEXIST then attempt (openDirAt cur c) else ret q)
          else ret r) (\<lambda>next.
       case next of
         Inl e \<Rightarrow> raise (walkError e)
       | Inr p \<Rightarrow> bnd (if create then applyDirectorySD p else ret ()) (\<lambda>_. ret p)))"

fun walkFrom :: "bool \<Rightarrow> path \<Rightarrow> string list \<Rightarrow> path act" where
  "walkFrom create cur [] = ret cur"
| "walkFrom create cur (c # cs) = bnd (walkStep create cur c) (\<lambda>next. walkFrom create next cs)"

definition walk :: "bool \<Rightarrow> string \<Rightarrow> path act" where
  "walk create rel =
     (case safeComponents rel of Inl e \<Rightarrow> raise e | Inr cs \<Rightarrow> walkFrom create [] cs)"

subsection \<open>Operations on one component of an open directory\<close>

definition checkName :: "string \<Rightarrow> bool" where
  "checkName name \<longleftrightarrow> name \<noteq> [] \<and> name \<noteq> ''.'' \<and> name \<noteq> ''..'' \<and> CHR ''/'' \<notin> set name"

definition at :: "path \<Rightarrow> string \<Rightarrow> (path \<Rightarrow> fsys \<Rightarrow> failure + 'a \<times> fsys) \<Rightarrow> 'a act" where
  "at d name f =
     (if checkName name then sys (\<lambda>t. if isDir t d then f (d @ [name]) t else Inl ENOENT)
      else raise (NotAComponent name))"

definition Lstat :: "path \<Rightarrow> string \<Rightarrow> node act" where
  "Lstat d name m =
     (if \<not> checkName name then (Failed (NotAComponent name), m)
      else (let m' = m\<lparr>statFaults := drop 1 (statFaults m)\<rparr> in
        if statFaults m \<noteq> [] \<and> hd (statFaults m) then (Failed EIO, m')
        else if \<not> isDir (tree m) d then (Failed ENOENT, m')
        else (case look (tree m) (d @ [name]) of
                None \<Rightarrow> (Failed ENOENT, m')
              | Some n \<Rightarrow> (Done n, m'))))"

definition Exists :: "path \<Rightarrow> string \<Rightarrow> bool act" where
  "Exists d name =
     bnd (attempt (Lstat d name)) (\<lambda>r. ret (case r of Inl e \<Rightarrow> False | Inr n \<Rightarrow> True))"

definition Create :: "path \<Rightarrow> string \<Rightarrow> unit act" where
  "Create d name = at d name (\<lambda>p. sys_make p (NFile [] [] []))"

definition WriteAll :: "path \<Rightarrow> string \<Rightarrow> string \<Rightarrow> unit act" where
  "WriteAll d name bytes = sys (sys_change (appended bytes) (d @ [name]))"

definition Setxattr :: "path \<Rightarrow> string \<Rightarrow> (node \<Rightarrow> node) \<Rightarrow> unit act" where
  "Setxattr d name g = sys (sys_change g (d @ [name]))"

text \<open>
  \<open>CreateWithSD\<close>: without a descriptor a plain create; with one the native call, whose file
  then gets its mode, or on a kernel without it a create and a stamp.
\<close>

definition CreateWithSD :: "path \<Rightarrow> string \<Rightarrow> string \<Rightarrow> unit act" where
  "CreateWithSD d name sd m =
     (if sd = [] then Create d name m
      else if \<not> checkName name then (Failed (NotAComponent name), m)
      else if native m then
        bnd (makeAt d name (NFile [] sd [])) (\<lambda>_. sys (\<lambda>t. Inr ((), t))) m
      else bnd (Create d name) (\<lambda>_. Setxattr d name (described sd)) m)"

definition readFile :: "path \<Rightarrow> string \<Rightarrow> string act" where
  "readFile d name =
     at d name (\<lambda>p t. case look t p of
        None \<Rightarrow> Inl ENOENT
      | Some (NFile c sd sig) \<Rightarrow> Inr (c, t)
      | Some (NLink l) \<Rightarrow> Inl ELOOP
      | Some (NDir sd) \<Rightarrow> Inl EISDIR)"

definition Symlink :: "path \<Rightarrow> string \<Rightarrow> string \<Rightarrow> unit act" where
  "Symlink d target name = at d name (\<lambda>p. sys_make p (NLink target))"

definition Readlink :: "path \<Rightarrow> string \<Rightarrow> string act" where
  "Readlink d name =
     at d name (\<lambda>p t. case look t p of
        None \<Rightarrow> Inl ENOENT
      | Some (NLink l) \<Rightarrow> Inr (l, t)
      | Some _ \<Rightarrow> Inl EINVAL)"

definition Rename :: "path \<Rightarrow> string \<Rightarrow> string \<Rightarrow> unit act" where
  "Rename d from dest =
     (if checkName from then at d dest (sys_rename (d @ [from])) else raise (NotAComponent from))"

definition Exchange :: "path \<Rightarrow> string \<Rightarrow> string \<Rightarrow> unit act" where
  "Exchange d a b =
     (if checkName a then at d b (sys_exchange (d @ [a])) else raise (NotAComponent a))"

text \<open>\<open>Remove\<close> unlinks, and where that says it is a directory removes the directory.\<close>

definition RemoveDir :: "path \<Rightarrow> string \<Rightarrow> unit act" where
  "RemoveDir d name = at d name sys_rmdir"

definition RemoveEntry :: "path \<Rightarrow> string \<Rightarrow> unit act" where
  "RemoveEntry d name =
     bnd (attempt (at d name sys_unlink)) (\<lambda>r.
       case r of
         Inr u \<Rightarrow> ret ()
       | Inl e \<Rightarrow> if e = EISDIR then RemoveDir d name else raise e)"

subsection \<open>The directories a transaction keeps open\<close>

definition safeSplit :: "string \<Rightarrow> string \<times> string" where
  "safeSplit rel =
     (let clean = clean_relative rel in
      case cut_last_byte (CHR ''/'') clean of None \<Rightarrow> ([], clean) | Some p \<Rightarrow> p)"

definition pinRel :: "string \<Rightarrow> string \<Rightarrow> failure + string" where
  "pinRel root absPath =
     (let rel = relRooted root absPath in
      if rel = ''..'' \<or> has_prefix rel ''../'' then Inl (OutsideRoot absPath) else Inr rel)"

definition newPinnedDirs :: "unit act" where
  "newPinnedDirs = perform (\<lambda>m. Inr ((), m\<lparr>pinned := [], directorySD := [], appliedSD := []\<rparr>))"

definition closePins :: "unit act" where
  "closePins m = (Done (), m\<lparr>pinned := [], directorySD := [], appliedSD := []\<rparr>)"

definition remember :: "string \<Rightarrow> path \<Rightarrow> path act" where
  "remember dirRel p m = (Done p, m\<lparr>pinned := map_put (pinned m) dirRel p\<rparr>)"

definition pinMkdirAll :: "string \<Rightarrow> path act" where
  "pinMkdirAll dirRel m =
     (case map_get (pinned m) dirRel of
        Some p \<Rightarrow> (Done p, m)
      | None \<Rightarrow> bnd (walk True dirRel) (remember dirRel) m)"

definition dirFor :: "string \<Rightarrow> string \<Rightarrow> path act" where
  "dirFor root absPath =
     (case pinRel root absPath of
        Inl e \<Rightarrow> raise e
      | Inr rel \<Rightarrow> pinMkdirAll (fst (safeSplit rel)))"

definition mkdirAllAbs :: "string \<Rightarrow> string \<Rightarrow> path act" where
  "mkdirAllAbs root absPath =
     (case pinRel root absPath of Inl e \<Rightarrow> raise e | Inr rel \<Rightarrow> pinMkdirAll rel)"

definition existingDirFor :: "string \<Rightarrow> string \<Rightarrow> path option act" where
  "existingDirFor root absPath m =
     (case pinRel root absPath of
        Inl e \<Rightarrow> raise e m
      | Inr rel \<Rightarrow>
          (let dirRel = fst (safeSplit rel) in
           case map_get (pinned m) dirRel of
             Some p \<Rightarrow> (Done (Some p), m)
           | None \<Rightarrow>
               bnd (attempt (walk False dirRel)) (\<lambda>r.
                 case r of
                   Inl e \<Rightarrow> if e = ENOENT then ret None else raise e
                 | Inr p \<Rightarrow> bnd (remember dirRel p) (\<lambda>p. ret (Some p))) m))"

end
