(* ===== verification/FileOps.thy ===== *)
theory FileOps
  imports SafePath
begin

section \<open>File operations of a transaction\<close>

text \<open>
  \<open>internal/install/files.go\<close>: the steps a transaction takes on one path each, how they are
  applied, undone, and cleaned up after.
\<close>

fun itoa :: "nat \<Rightarrow> string" where
  "itoa n = (if n < 10 then [char_of (48 + n)] else itoa (n div 10) @ [char_of (48 + n mod 10)])"

declare itoa.simps [simp del]

definition stagedMarker :: string where
  "stagedMarker = ''.peipkg-staged-''"

definition backupMarker :: string where
  "backupMarker = ''.peipkg-backup-''"

definition maxComponent :: nat where
  "maxComponent = 255"

text \<open>\<open>filepath.Base\<close> and \<open>filepath.Split\<close>.\<close>

definition stripSlashes :: "string \<Rightarrow> string" where
  "stripSlashes p = rev (dropWhile (\<lambda>c. c = CHR ''/'') (rev p))"

definition lastPart :: "string \<Rightarrow> string" where
  "lastPart p = (case cut_last_byte (CHR ''/'') p of None \<Rightarrow> p | Some (a, b) \<Rightarrow> b)"

definition baseName :: "string \<Rightarrow> string" where
  "baseName p =
     (if p = [] then ''.''
      else if stripSlashes p = [] then ''/''
      else lastPart (stripSlashes p))"

definition splitPath :: "string \<Rightarrow> string \<times> string" where
  "splitPath p =
     (case cut_last_byte (CHR ''/'') p of None \<Rightarrow> ([], p) | Some (a, b) \<Rightarrow> (a @ ''/'', b))"

definition tempName :: "string \<Rightarrow> string \<Rightarrow> nat \<Rightarrow> string" where
  "tempName base marker txnID =
     (let suffix = marker @ itoa txnID in
      (if length base + length suffix > maxComponent
       then take (maxComponent - length suffix) base else base) @ suffix)"

definition tempPath :: "string \<Rightarrow> string \<Rightarrow> nat \<Rightarrow> string" where
  "tempPath finalPath marker txnID =
     (case splitPath finalPath of
        (dir, base) \<Rightarrow> cleanRooted (dir @ ''/'' @ tempName base marker txnID))"

datatype fileAction = actionCreate | actionReplace | actionRemove | actionSwap

record fileOp =
  fo_finalPath :: string
  fo_action :: fileAction
  fo_stagedPath :: string
  fo_backupPath :: string
  fo_keepBackup :: bool
  fo_dir :: "path option"

definition base :: "fileOp \<Rightarrow> string" where
  "base op = baseName (fo_finalPath op)"

definition staged :: "fileOp \<Rightarrow> string" where
  "staged op = baseName (fo_stagedPath op)"

definition backup :: "fileOp \<Rightarrow> string" where
  "backup op = baseName (fo_backupPath op)"

subsection \<open>Applying\<close>

definition commitOp :: "fileOp \<Rightarrow> unit act" where
  "commitOp op =
     (case fo_dir op of
        None \<Rightarrow> if fo_action op = actionRemove then ret () else raise (NotPinned (fo_finalPath op))
      | Some d \<Rightarrow>
          (case fo_action op of
             actionCreate \<Rightarrow> Rename d (staged op) (base op)
           | actionReplace \<Rightarrow>
               bnd (Rename d (base op) (backup op)) (\<lambda>_. Rename d (staged op) (base op))
           | actionRemove \<Rightarrow>
               bnd (Exists d (base op)) (\<lambda>there.
                 if there then Rename d (base op) (backup op) else ret ())
           | actionSwap \<Rightarrow>
               bnd (Exchange d (staged op) (base op)) (\<lambda>_. Rename d (staged op) (backup op))))"

definition commitOps :: "fileOp list \<Rightarrow> unit act" where
  "commitOps ops = each commitOp ops"

subsection \<open>Undoing\<close>

definition removeIfExists :: "path \<Rightarrow> string \<Rightarrow> unit act" where
  "removeIfExists d name =
     bnd (attempt (RemoveEntry d name)) (\<lambda>r.
       case r of Inr u \<Rightarrow> ret () | Inl e \<Rightarrow> if e = ENOENT then ret () else raise e)"

definition restoreBackup :: "path \<Rightarrow> fileOp \<Rightarrow> unit act" where
  "restoreBackup d op =
     bnd (Exists d (backup op)) (\<lambda>there.
       if there then bnd (removeIfExists d (base op)) (\<lambda>_. Rename d (backup op) (base op))
       else ret ())"

definition rollbackOp :: "fileOp \<Rightarrow> unit act" where
  "rollbackOp op =
     (case fo_dir op of
        None \<Rightarrow> ret ()
      | Some d \<Rightarrow>
          (case fo_action op of
             actionCreate \<Rightarrow>
               bnd (removeIfExists d (base op)) (\<lambda>_. removeIfExists d (staged op))
           | actionRemove \<Rightarrow> restoreBackup d op
           | _ \<Rightarrow> bnd (restoreBackup d op) (\<lambda>_. removeIfExists d (staged op))))"

text \<open>A loop that does everything and reports all the errors together.\<close>

fun collecting :: "('a \<Rightarrow> unit act) \<Rightarrow> 'a list \<Rightarrow> failure list act" where
  "collecting f [] = ret []"
| "collecting f (x # xs) =
     bnd (attempt (f x)) (\<lambda>r.
     bnd (collecting f xs) (\<lambda>errs. ret (case r of Inl e \<Rightarrow> e # errs | Inr u \<Rightarrow> errs)))"

definition joinErrors :: "failure list \<Rightarrow> unit act" where
  "joinErrors errs = (if errs = [] then ret () else raise (Joined errs))"

definition rollbackOps :: "fileOp list \<Rightarrow> unit act" where
  "rollbackOps ops = bnd (collecting rollbackOp (rev ops)) joinErrors"

definition removeCreatedDir :: "string \<Rightarrow> string \<Rightarrow> unit act" where
  "removeCreatedDir root dir =
     bnd (existingDirFor root dir) (\<lambda>parent.
       case parent of
         None \<Rightarrow> ret ()
       | Some d \<Rightarrow>
           bnd (attempt (RemoveDir d (baseName dir))) (\<lambda>r.
             case r of
               Inr u \<Rightarrow> ret ()
             | Inl e \<Rightarrow> if e \<in> {ENOENT, ENOTEMPTY, EEXIST} then ret () else raise e))"

definition removeCreatedDirs :: "string \<Rightarrow> string list \<Rightarrow> unit act" where
  "removeCreatedDirs root dirs = bnd (collecting (removeCreatedDir root) (rev dirs)) joinErrors"

subsection \<open>After the commit\<close>

text \<open>The warnings are the backups that could not be removed.\<close>

fun discardBackups :: "fileOp list \<Rightarrow> string list act" where
  "discardBackups [] = ret []"
| "discardBackups (op # ops) =
     (case fo_dir op of
        None \<Rightarrow> discardBackups ops
      | Some d \<Rightarrow>
          if fo_backupPath op = [] \<or> fo_keepBackup op then discardBackups ops
          else
            bnd (attempt (RemoveEntry d (backup op))) (\<lambda>r.
            bnd (discardBackups ops) (\<lambda>ws.
              ret (case r of Inl e \<Rightarrow> if e = ENOENT then ws else fo_backupPath op # ws
                           | Inr u \<Rightarrow> ws))))"

end
