(* ===== verification/MachineRules.thy ===== *)
theory MachineRules
  imports FileOps
begin

section \<open>Reasoning about runs under faults\<close>

text \<open>
  A weakest-precondition predicate with one condition per outcome, rules for the combinators
  and the calls, and two structural notions: what an action never changes, and that without
  faults nothing crashes.
\<close>

named_theorems stable_rules \<open>what actions never change\<close>
named_theorems calm_rules \<open>actions that end when no fault is scheduled\<close>

definition wp ::
  "'a act \<Rightarrow> ('a \<Rightarrow> machine \<Rightarrow> bool) \<Rightarrow> (failure \<Rightarrow> machine \<Rightarrow> bool) \<Rightarrow> (machine \<Rightarrow> bool) \<Rightarrow>
   machine \<Rightarrow> bool" where
  "wp a Q F C m =
     (case a m of (Done x, m') \<Rightarrow> Q x m' | (Failed e, m') \<Rightarrow> F e m' | (Crashed, m') \<Rightarrow> C m')"

lemma wp_ret [simp]: "wp (ret x) Q F C m = Q x m"
  by (simp add: wp_def ret_def)

lemma wp_raise [simp]: "wp (raise e) Q F C m = F e m"
  by (simp add: wp_def raise_def)

lemma wp_bnd: "wp (bnd a f) Q F C m = wp a (\<lambda>x. wp (f x) Q F C) F C m"
  by (simp add: wp_def bnd_def split: prod.splits outcome.splits)

lemma wp_attempt: "wp (attempt a) Q F C m = wp a (\<lambda>x. Q (Inr x)) (\<lambda>e. Q (Inl e)) C m"
  by (simp add: wp_def attempt_def split: prod.splits outcome.splits)

lemma wp_mono:
  assumes "wp a Q F C m"
    and "\<And>x m'. Q x m' \<Longrightarrow> Q' x m'" and "\<And>e m'. F e m' \<Longrightarrow> F' e m'" and "\<And>m'. C m' \<Longrightarrow> C' m'"
  shows "wp a Q' F' C' m"
  using assms unfolding wp_def by (auto split: prod.splits outcome.splits)

lemma wp_conj:
  assumes "wp a Q F C m" and "wp a Q' F' C' m"
  shows "wp a (\<lambda>x m'. Q x m' \<and> Q' x m') (\<lambda>e m'. F e m' \<and> F' e m') (\<lambda>m'. C m' \<and> C' m') m"
  using assms unfolding wp_def by (auto split: prod.splits outcome.splits)

lemma wp_result:
  "wp a Q F C m \<Longrightarrow> a m = (r, m') \<Longrightarrow>
     (case r of Done x \<Rightarrow> Q x m' | Failed e \<Rightarrow> F e m' | Crashed \<Rightarrow> C m')"
  by (simp add: wp_def)

lemma wp_final: "wp a (\<lambda>x. I) (\<lambda>e. I) I m \<longleftrightarrow> I (snd (a m))"
  by (simp add: wp_def split: prod.splits outcome.splits)

text \<open>
  Taking an entry of the schedule. A fault can only be met while there are entries left, so
  what is shown for failures under \<open>faults m \<noteq> []\<close> says that a run without faults has none.
\<close>

definition tick :: "machine \<Rightarrow> machine" where
  "tick m = m\<lparr>faults := drop 1 (faults m)\<rparr>"

lemma tick_fields [simp]:
  "tree (tick m) = tree m" "db (tick m) = db m" "pinned (tick m) = pinned m"
  "directorySD (tick m) = directorySD m" "appliedSD (tick m) = appliedSD m"
  "held (tick m) = held m" "native (tick m) = native m" "statFaults (tick m) = statFaults m"
  "faults (tick m) = drop 1 (faults m)"
  by (simp_all add: tick_def)

lemma wp_performI:
  assumes "faults m \<noteq> [] \<Longrightarrow> F EIO (tick m)" and "faults m \<noteq> [] \<Longrightarrow> C (tick m)"
    and "\<And>e. f (tick m) = Inl e \<Longrightarrow> F e (tick m)"
    and "\<And>x m'. f (tick m) = Inr (x, m') \<Longrightarrow> Q x m'"
  shows "wp (perform f) Q F C m"
  using assms unfolding wp_def perform_def tick_def
  by (auto split: list.splits fault.splits sum.splits prod.splits)

lemma wp_sysI:
  assumes "faults m \<noteq> [] \<Longrightarrow> F EIO (tick m)" and "faults m \<noteq> [] \<Longrightarrow> C (tick m)"
    and "\<And>e. f (tree m) = Inl e \<Longrightarrow> F e (tick m)"
    and "\<And>x t. f (tree m) = Inr (x, t) \<Longrightarrow> Q x ((tick m)\<lparr>tree := t\<rparr>)"
  shows "wp (sys f) Q F C m"
  unfolding sys_def
  by (rule wp_performI) (auto simp: rbind_def assms split: sum.splits)

text \<open>Loops.\<close>

lemma wp_each:
  assumes "I xs m" and "\<And>x ys m. I (x # ys) m \<Longrightarrow> wp (f x) (\<lambda>u. I ys) F C m"
  shows "wp (each f xs) (\<lambda>u. I []) F C m"
  using assms(1) by (induction xs arbitrary: m) (auto simp: wp_bnd intro: wp_mono [OF assms(2)])

subsection \<open>What an action never changes\<close>

definition stable :: "(machine \<Rightarrow> bool) \<Rightarrow> 'a act \<Rightarrow> bool" where
  "stable P a \<longleftrightarrow> (\<forall>m. P m \<longrightarrow> P (snd (a m)))"

lemma stableD: "stable P a \<Longrightarrow> P m \<Longrightarrow> wp a (\<lambda>x. P) (\<lambda>e. P) P m"
  by (simp add: wp_final stable_def)

lemma stable_ret [stable_rules]: "stable P (ret x)"
  by (simp add: stable_def ret_def)

lemma stable_raise [stable_rules]: "stable P (raise e)"
  by (simp add: stable_def raise_def)

lemma stable_bnd [stable_rules]: "stable P a \<Longrightarrow> (\<And>x. stable P (f x)) \<Longrightarrow> stable P (bnd a f)"
  unfolding stable_def bnd_def by (force split: prod.splits outcome.splits)

lemma stable_attempt [stable_rules]: "stable P a \<Longrightarrow> stable P (attempt a)"
  unfolding stable_def attempt_def by (force split: prod.splits outcome.splits)

lemma stable_each [stable_rules]: "(\<And>x. stable P (f x)) \<Longrightarrow> stable P (each f xs)"
  by (induction xs) (auto intro: stable_rules)

lemma stable_each_map [stable_rules]: "(\<And>x. stable P (f x)) \<Longrightarrow> stable P (each_map f xs)"
  by (induction xs) (auto intro!: stable_rules)

lemma stable_collecting [stable_rules]: "(\<And>x. stable P (f x)) \<Longrightarrow> stable P (collecting f xs)"
  by (induction xs) (auto intro!: stable_rules)

lemma stable_perform:
  assumes "\<And>m. P m \<Longrightarrow> P (tick m)"
    and "\<And>m x m'. P m \<Longrightarrow> f m = Inr (x, m') \<Longrightarrow> P m'"
  shows "stable P (perform f)"
proof -
  have "P (snd (perform f m))" if "P m" for m
    using assms(1) [OF that] assms(2) [OF assms(1) [OF that]]
    by (cases "faults m") (auto simp: perform_def tick_def split: fault.splits sum.splits prod.splits)
  then show ?thesis by (simp add: stable_def)
qed

text \<open>Predicates that do not look at the tree, and at the schedules only in passing.\<close>

definition blind :: "(machine \<Rightarrow> bool) \<Rightarrow> bool" where
  "blind P \<longleftrightarrow>
     (\<forall>m. P m \<longrightarrow> (\<forall>t. P (m\<lparr>tree := t\<rparr>)) \<and> P (tick m) \<and> P (m\<lparr>statFaults := drop 1 (statFaults m)\<rparr>))"

lemma stable_sys [stable_rules]: "blind P \<Longrightarrow> stable P (sys f)"
  unfolding sys_def
  by (rule stable_perform) (auto simp: blind_def rbind_def split: sum.splits)

lemma stable_at [stable_rules]: "blind P \<Longrightarrow> stable P (at d name f)"
  by (simp add: at_def stable_sys stable_raise)

lemma stable_Lstat [stable_rules]: "blind P \<Longrightarrow> stable P (Lstat d name)"
  by (auto simp: stable_def Lstat_def Let_def blind_def split: option.splits)

lemma stable_if [stable_rules]: "stable P a \<Longrightarrow> stable P b \<Longrightarrow> stable P (if c then a else b)"
  by simp

lemma stable_option [stable_rules]:
  "stable P a \<Longrightarrow> (\<And>x. stable P (f x)) \<Longrightarrow> stable P (case y of None \<Rightarrow> a | Some x \<Rightarrow> f x)"
  by (simp split: option.splits)

lemma stable_sum [stable_rules]:
  "(\<And>e. stable P (g e)) \<Longrightarrow> (\<And>x. stable P (f x)) \<Longrightarrow>
     stable P (case y of Inl e \<Rightarrow> g e | Inr x \<Rightarrow> f x)"
  by (simp split: sum.splits)

lemma stable_files [stable_rules]:
  assumes "blind P"
  shows "stable P (Exists d a)" and "stable P (Rename d a b)" and "stable P (Exchange d a b)"
    and "stable P (RemoveDir d a)" and "stable P (RemoveEntry d a)" and "stable P (removeIfExists d a)"
    and "stable P (restoreBackup d op)"
  unfolding Exists_def Rename_def Exchange_def RemoveDir_def RemoveEntry_def removeIfExists_def
    restoreBackup_def
  by (intro stable_rules assms)+

lemma stable_rollbackOps [stable_rules]:
  assumes "blind P"
  shows "stable P (rollbackOp op)" and "stable P (commitOp op)"
    and "stable P (rollbackOps ops)" and "stable P (commitOps ops)"
proof -
  show roll: "stable P (rollbackOp op)" and commit: "stable P (commitOp op)" for op
    unfolding rollbackOp_def commitOp_def
    by (auto split: option.splits fileAction.splits intro!: stable_rules assms)
  show "stable P (rollbackOps ops)" and "stable P (commitOps ops)"
    unfolding rollbackOps_def commitOps_def joinErrors_def by (intro stable_rules roll commit)+
qed

end
