(* ===== verification/FileOpsFacts.thy ===== *)
theory FileOpsFacts
  imports MachineRules
begin

section \<open>What applying and undoing do to the tree\<close>

text \<open>
  Trees are compared by their lookups. An operation is judged against the tree \<open>s0\<close> the
  transaction began with: it is planned against it, waits to be applied, is applied, can
  still be undone, or is restored.
\<close>

definition leafy :: "node option \<Rightarrow> bool" where
  "leafy x \<longleftrightarrow> (case x of None \<Rightarrow> True | Some n \<Rightarrow> isLeaf n)"

lemma leafy_simps [simp]: "leafy None" "leafy (Some n) = isLeaf n"
  by (simp_all add: leafy_def)

lemma isDir_look: "isDir t p \<longleftrightarrow> p = [] \<or> \<not> leafy (look t p)"
  by (auto simp: isDir_def leafy_def split: option.splits)

lemma inhabited_look: "inhabited t p \<longleftrightarrow> (\<exists>k. strict_prefix p k \<and> look t k \<noteq> None)"
proof -
  have "look t k \<noteq> None \<longleftrightarrow> k \<in> fst ` set t" for k
    using dom_look [of t] by (auto simp: domIff)
  then show ?thesis
    by (auto simp: inhabited_def list_ex_iff rev_image_eqI intro: bexI [rotated])
qed

definition elsewhere :: "path set \<Rightarrow> fsys \<Rightarrow> fsys \<Rightarrow> bool" where
  "elsewhere K t t' \<longleftrightarrow> (\<forall>k. k \<notin> K \<longrightarrow> look t' k = look t k) \<and> (\<forall>p. isDir t' p = isDir t p)"

lemma elsewhere_refl [simp]: "elsewhere K t t"
  by (simp add: elsewhere_def)

lemma elsewhere_trans: "elsewhere K t u \<Longrightarrow> elsewhere L u v \<Longrightarrow> elsewhere (K \<union> L) t v"
  by (simp add: elsewhere_def)

lemma elsewhere_look: "elsewhere K t t' \<Longrightarrow> k \<notin> K \<Longrightarrow> look t' k = look t k"
  by (simp add: elsewhere_def)

lemma elsewhere_isDir: "elsewhere K t t' \<Longrightarrow> isDir t' p = isDir t p"
  by (simp add: elsewhere_def)

lemma elsewhereI:
  assumes "\<And>k. k \<notin> K \<Longrightarrow> look t' k = look t k"
    and "\<And>k. k \<in> K \<Longrightarrow> leafy (look t k) \<and> leafy (look t' k)"
  shows "elsewhere K t t'"
  unfolding elsewhere_def isDir_look using assms by metis

subsection \<open>The calls on files and links\<close>

lemma wp_sys_cong:
  assumes "f (tree m) = g (tree m)"
  shows "wp (sys f) Q F C m = wp (sys g) Q F C m"
  by (simp add: wp_def sys_def perform_def assms split: list.splits fault.splits)

lemma wp_at:
  assumes "checkName a" and "isDir (tree m) d"
  shows "wp (at d a f) Q F C m = wp (sys (f (d @ [a]))) Q F C m"
  using assms by (simp add: at_def) (rule wp_sys_cong, simp)

lemma wp_rename:
  assumes "checkName a" and "checkName b" and "a \<noteq> b" and "isDir (tree m) d"
    and "look (tree m) (d @ [a]) = Some n" and "isLeaf n" and "leafy (look (tree m) (d @ [b]))"
    and "faults m \<noteq> [] \<Longrightarrow> F EIO (tick m)" and "faults m \<noteq> [] \<Longrightarrow> C (tick m)"
    and "\<And>t. look t = (look (tree m))(d @ [a] := None, d @ [b] \<mapsto> n) \<Longrightarrow>
           Q () ((tick m)\<lparr>tree := t\<rparr>)"
  shows "wp (Rename d a b) Q F C m"
proof -
  have "sys_rename (d @ [a]) (d @ [b]) (tree m) =
      Inr ((), putNode (erase (tree m) (d @ [a])) (d @ [b]) n)"
    using assms(3,5-7) by (auto simp: sys_rename_def leafy_def split: option.splits node.splits)
  moreover have "Rename d a b = at d b (sys_rename (d @ [a]))"
    using assms(1) by (simp add: Rename_def)
  ultimately show ?thesis
    using assms(2,4) by (auto simp: wp_at intro!: wp_sysI assms simp: fsys_simps)
qed

lemma wp_exchange:
  assumes "checkName a" and "checkName b" and "isDir (tree m) d"
    and "look (tree m) (d @ [a]) = Some n" and "isLeaf n"
    and "look (tree m) (d @ [b]) = Some n'" and "isLeaf n'"
    and "faults m \<noteq> [] \<Longrightarrow> F EIO (tick m)" and "faults m \<noteq> [] \<Longrightarrow> C (tick m)"
    and "\<And>t. look t = (look (tree m))(d @ [a] \<mapsto> n', d @ [b] \<mapsto> n) \<Longrightarrow>
           Q () ((tick m)\<lparr>tree := t\<rparr>)"
  shows "wp (Exchange d a b) Q F C m"
proof -
  have "sys_exchange (d @ [a]) (d @ [b]) (tree m) =
      Inr ((), putNode (putNode (tree m) (d @ [a]) n') (d @ [b]) n)"
    using assms(4-7) by (simp add: sys_exchange_def)
  moreover have "Exchange d a b = at d b (sys_exchange (d @ [a]))"
    using assms(1) by (simp add: Exchange_def)
  ultimately show ?thesis
    using assms(2,3) by (auto simp: wp_at intro!: wp_sysI assms simp: fsys_simps)
qed

lemma wp_exists:
  assumes "checkName a" and "statFaults m = []"
  shows "wp (Exists d a) Q F C m =
     Q (isDir (tree m) d \<and> look (tree m) (d @ [a]) \<noteq> None) m"
  using assms
  by (cases m) (auto simp: wp_def Exists_def Lstat_def bnd_def attempt_def ret_def Let_def
      split: option.splits)

lemma wp_removeIfExists:
  assumes "checkName a" and "isDir (tree m) d" and "leafy (look (tree m) (d @ [a]))"
    and "faults m \<noteq> [] \<Longrightarrow> F EIO (tick m)" and "faults m \<noteq> [] \<Longrightarrow> C (tick m)"
    and "\<And>t. look t = (look (tree m))(d @ [a] := None) \<Longrightarrow> Q () ((tick m)\<lparr>tree := t\<rparr>)"
  shows "wp (removeIfExists d a) Q F C m"
proof (cases "look (tree m) (d @ [a])")
  case None
  then have unlink: "sys_unlink (d @ [a]) (tree m) = Inl ENOENT" by (simp add: sys_unlink_def)
  from None have "look (tree m) = (look (tree m))(d @ [a] := None)" by (simp add: fun_eq_iff)
  then have "Q () (tick m)" using assms(6) [of "tree m"] by (cases m) (simp add: tick_def)
  with assms(1,2,4,5) unlink show ?thesis
    by (auto simp: removeIfExists_def RemoveEntry_def wp_bnd wp_attempt wp_at intro!: wp_sysI)
next
  case (Some n)
  with assms(3) have "sys_unlink (d @ [a]) (tree m) = Inr ((), erase (tree m) (d @ [a]))"
    by (simp add: sys_unlink_def)
  with assms(1,2,4,5) show ?thesis
    by (auto simp: removeIfExists_def RemoveEntry_def wp_bnd wp_attempt wp_at fsys_simps
        intro!: wp_sysI assms(6))
qed

subsection \<open>The life of one operation\<close>

definition opNames :: "fileOp \<Rightarrow> string list" where
  "opNames op =
     (case fo_action op of
        actionCreate \<Rightarrow> [base op, staged op]
      | actionRemove \<Rightarrow> [base op, backup op]
      | _ \<Rightarrow> [base op, staged op, backup op])"

definition opKeys :: "fileOp \<Rightarrow> path list" where
  "opKeys op = (case fo_dir op of None \<Rightarrow> [] | Some d \<Rightarrow> map (\<lambda>n. d @ [n]) (opNames op))"

definition finalKey :: "fileOp \<Rightarrow> path" where
  "finalKey op = the (fo_dir op) @ [base op]"

definition stagedKey :: "fileOp \<Rightarrow> path" where
  "stagedKey op = the (fo_dir op) @ [staged op]"

definition backupKey :: "fileOp \<Rightarrow> path" where
  "backupKey op = the (fo_dir op) @ [backup op]"

text \<open>Three different names of one component each, in the same directory.\<close>

definition wellNamed :: "fileOp \<Rightarrow> bool" where
  "wellNamed op \<longleftrightarrow>
     (if fo_dir op = None then fo_action op = actionRemove
      else list_all checkName (opNames op) \<and> distinct (opNames op))"

definition planned :: "fsys \<Rightarrow> fileOp \<Rightarrow> bool" where
  "planned s0 op \<longleftrightarrow>
     (case fo_action op of
        actionCreate \<Rightarrow> look s0 (finalKey op) = None \<and> look s0 (stagedKey op) = None
      | actionRemove \<Rightarrow> leafy (look s0 (finalKey op)) \<and> look s0 (backupKey op) = None
      | _ \<Rightarrow> look s0 (finalKey op) \<noteq> None \<and> leafy (look s0 (finalKey op)) \<and>
           look s0 (stagedKey op) = None \<and> look s0 (backupKey op) = None)"

text \<open>Nothing has been moved. The staged content may be there or not.\<close>

definition waiting :: "fsys \<Rightarrow> fsys \<Rightarrow> fileOp \<Rightarrow> bool" where
  "waiting s0 t op \<longleftrightarrow>
     (case fo_dir op of
        None \<Rightarrow> True
      | Some d \<Rightarrow>
          planned s0 op \<and> isDir t d \<and> look t (finalKey op) = look s0 (finalKey op) \<and>
          (if fo_action op = actionRemove then True else leafy (look t (stagedKey op))) \<and>
          (if fo_action op = actionCreate then True else look t (backupKey op) = None))"

definition hasContent :: "fsys \<Rightarrow> fileOp \<Rightarrow> bool" where
  "hasContent t op \<longleftrightarrow> fo_dir op = None \<or> fo_action op = actionRemove \<or> look t (stagedKey op) \<noteq> None"

definition displaced :: "fsys \<Rightarrow> fsys \<Rightarrow> fileOp \<Rightarrow> bool" where
  "displaced s0 t op \<longleftrightarrow>
     (if look t (backupKey op) = None then look t (finalKey op) = look s0 (finalKey op)
      else look t (backupKey op) = look s0 (finalKey op) \<and> leafy (look t (finalKey op)))"

definition undoable :: "fsys \<Rightarrow> fsys \<Rightarrow> fileOp \<Rightarrow> bool" where
  "undoable s0 t op \<longleftrightarrow>
     (case fo_dir op of
        None \<Rightarrow> True
      | Some d \<Rightarrow>
          planned s0 op \<and> isDir t d \<and>
          (case fo_action op of
             actionCreate \<Rightarrow> leafy (look t (finalKey op)) \<and> leafy (look t (stagedKey op))
           | actionRemove \<Rightarrow> displaced s0 t op
           | _ \<Rightarrow> displaced s0 t op \<and> leafy (look t (stagedKey op))))"

definition restored :: "fsys \<Rightarrow> fsys \<Rightarrow> fileOp \<Rightarrow> bool" where
  "restored s0 t op \<longleftrightarrow> (\<forall>k\<in>set (opKeys op). look t k = look s0 k)"

text \<open>The path holds what was staged, and what it held is at the backup.\<close>

definition applied :: "fsys \<Rightarrow> fsys \<Rightarrow> fsys \<Rightarrow> fileOp \<Rightarrow> bool" where
  "applied s0 t0 t op \<longleftrightarrow>
     (case fo_dir op of
        None \<Rightarrow> True
      | Some d \<Rightarrow>
          look t (finalKey op) =
            (if fo_action op = actionRemove then None else look t0 (stagedKey op)) \<and>
          (if fo_action op = actionRemove then True else look t (stagedKey op) = None) \<and>
          (if fo_action op = actionCreate then True
           else look t (backupKey op) = look s0 (finalKey op)))"

lemmas op_defs = opKeys_def opNames_def finalKey_def stagedKey_def backupKey_def

lemma undoable_elsewhere:
  assumes "elsewhere K t t'" and "K \<inter> set (opKeys op) = {}"
  shows "undoable s0 t' op = undoable s0 t op" and "waiting s0 t' op = waiting s0 t op"
    and "restored s0 t' op = restored s0 t op" and "applied s0 t0 t' op = applied s0 t0 t op"
    and "hasContent t' op = hasContent t op"
  using assms
  by (cases "fo_action op"; cases "fo_dir op";
      simp add: undoable_def waiting_def restored_def applied_def displaced_def hasContent_def
        elsewhere_isDir elsewhere_look op_defs)+

lemma restored_undoable:
  assumes "undoable s0 t op" and "restored s0 t' op" and "elsewhere (set (opKeys op)) t t'"
  shows "undoable s0 t' op"
  using assms
  by (cases "fo_action op"; cases "fo_dir op")
     (auto simp: undoable_def restored_def displaced_def planned_def op_defs
        elsewhere_isDir split: if_splits)

text \<open>
  Applying one operation: whatever interrupts it, it can be undone. A swap is the exception;
  it has a moment of its own, treated below.
\<close>

definition contained :: "fsys \<Rightarrow> fileOp \<Rightarrow> fsys \<Rightarrow> fsys \<Rightarrow> bool" where
  "contained s0 op t t' \<longleftrightarrow> elsewhere (set (opKeys op)) t t' \<and> undoable s0 t' op"

lemma waiting_undoable: "waiting s0 t op \<Longrightarrow> undoable s0 t op"
  by (cases "fo_action op"; cases "fo_dir op")
     (auto simp: waiting_def undoable_def displaced_def planned_def)

lemma wp_rename_missing:
  assumes "checkName a" and "checkName b" and "look (tree m) (d @ [a]) = None"
    and "faults m \<noteq> [] \<Longrightarrow> F EIO (tick m)" and "faults m \<noteq> [] \<Longrightarrow> C (tick m)" and "F ENOENT (tick m)"
  shows "wp (Rename d a b) Q F C m"
  using assms by (auto simp: Rename_def at_def sys_rename_def intro!: wp_sysI split: if_splits)

lemma commitOp_run:
  assumes "wellNamed op" and "waiting s0 (tree m) op" and "fo_action op \<noteq> actionSwap"
    and "statFaults m = []"
  shows "wp (commitOp op)
     (\<lambda>u m'. contained s0 op (tree m) (tree m') \<and> applied s0 (tree m) (tree m') op)
     (\<lambda>e m'. contained s0 op (tree m) (tree m') \<and> (hasContent (tree m) op \<longrightarrow> faults m \<noteq> []))
     (\<lambda>m'. contained s0 op (tree m) (tree m') \<and> faults m \<noteq> []) m"
proof (cases "fo_dir op")
  case None
  with assms(1) have "commitOp op = ret ()" by (simp add: commitOp_def wellNamed_def)
  with None show ?thesis
    by (simp add: contained_def applied_def undoable_def opKeys_def)
next
  case (Some d)
  note unfold = op_defs Some wellNamed_def waiting_def contained_def applied_def undoable_def
    planned_def displaced_def isDir_look hasContent_def
  show ?thesis
  proof (cases "fo_action op")
    case actionCreate
    show ?thesis
    proof (cases "look (tree m) (d @ [staged op])")
      case None
      with assms actionCreate Some show ?thesis
        by (auto simp: commitOp_def unfold intro!: wp_rename_missing)
    next
      case (Some n)
      with assms actionCreate \<open>fo_dir op = Some d\<close> show ?thesis
        by (auto simp: commitOp_def unfold intro!: wp_rename elsewhereI split: if_splits)
    qed
  next
    case actionReplace
    with assms(1,2) Some obtain x where f: "look (tree m) (d @ [base op]) = Some x" "isLeaf x"
      by (auto simp: unfold leafy_def split: option.splits)
    show ?thesis
    proof (cases "look (tree m) (d @ [staged op])")
      case None
      have "commitOp op =
          bnd (Rename d (base op) (backup op)) (\<lambda>_. Rename d (staged op) (base op))"
        using actionReplace \<open>fo_dir op = Some d\<close> by (simp add: commitOp_def)
      moreover from None f assms actionReplace \<open>fo_dir op = Some d\<close> have "wp (Rename d (base op) (backup op))
          (\<lambda>_. wp (Rename d (staged op) (base op))
            (\<lambda>u m'. contained s0 op (tree m) (tree m') \<and> applied s0 (tree m) (tree m') op)
            (\<lambda>e m'. contained s0 op (tree m) (tree m') \<and> (hasContent (tree m) op \<longrightarrow> faults m \<noteq> []))
            (\<lambda>m'. contained s0 op (tree m) (tree m') \<and> faults m \<noteq> []))
          (\<lambda>e m'. contained s0 op (tree m) (tree m') \<and> (hasContent (tree m) op \<longrightarrow> faults m \<noteq> []))
          (\<lambda>m'. contained s0 op (tree m) (tree m') \<and> faults m \<noteq> []) m"
        by - (rule wp_rename [where n = x],
            auto simp: unfold intro!: wp_rename_missing elsewhereI split: if_splits)
      ultimately show ?thesis by (simp add: wp_bnd)
    next
      case (Some n)
      with f assms actionReplace \<open>fo_dir op = Some d\<close> show ?thesis
        by (auto simp: commitOp_def wp_bnd unfold intro!: wp_rename elsewhereI split: if_splits)
    qed
  next
    case actionRemove
    with assms Some show ?thesis
      by (auto simp: commitOp_def wp_bnd wp_exists unfold intro!: wp_rename elsewhereI split: if_splits)
  qed (use assms(3) in simp)
qed

text \<open>
  A swap exchanges first and moves the displaced entry to its backup second. Until the
  exchange it can be undone, and after the move; between the two the staged name holds the
  only copy of what was displaced.
\<close>

definition exchanged :: "fsys \<Rightarrow> fsys \<Rightarrow> fileOp \<Rightarrow> bool" where
  "exchanged s0 t op \<longleftrightarrow>
     look t (stagedKey op) = look s0 (finalKey op) \<and> look t (backupKey op) = None"

lemma commitOp_swap_run:
  assumes "wellNamed op" and "waiting s0 (tree m) op" and "fo_action op = actionSwap"
    and "hasContent (tree m) op" and "statFaults m = []"
  shows "wp (commitOp op)
     (\<lambda>u m'. contained s0 op (tree m) (tree m') \<and> applied s0 (tree m) (tree m') op)
     (\<lambda>e m'. (contained s0 op (tree m) (tree m') \<or> exchanged s0 (tree m') op) \<and> faults m \<noteq> [])
     (\<lambda>m'. (contained s0 op (tree m) (tree m') \<or> exchanged s0 (tree m') op) \<and> faults m \<noteq> []) m"
proof (cases "fo_dir op")
  case None
  with assms(1,3) show ?thesis by (simp add: wellNamed_def)
next
  case (Some d)
  note unfold = op_defs Some wellNamed_def waiting_def contained_def applied_def undoable_def
    planned_def displaced_def isDir_look exchanged_def hasContent_def
  from assms Some obtain n x where s: "look (tree m) (d @ [staged op]) = Some n" "isLeaf n"
    and f: "look (tree m) (d @ [base op]) = Some x" "isLeaf x"
    by (auto simp: unfold leafy_def split: option.splits)
  with assms Some show ?thesis
    by (auto simp: commitOp_def wp_bnd unfold intro!: wp_exchange wp_rename elsewhereI split: if_splits)
qed

end
