(* ===== verification/RollbackFacts.thy ===== *)
theory RollbackFacts
  imports FileOpsFacts
begin

section \<open>Undoing a transaction's file operations\<close>

text \<open>
  A rollback restores what its operations touched, from wherever applying them stopped, and
  a rollback that is itself interrupted leaves a state from which the next one restores.
\<close>

text \<open>Undoing one operation: it restores, and while it has not finished it can be tried again.\<close>

lemma restoreBackup_run:
  assumes "fo_dir op = Some d" and "checkName (base op)" and "checkName (backup op)"
    and "base op \<noteq> backup op" and "isDir (tree m) d" and "displaced s0 (tree m) op"
    and "leafy (look s0 (finalKey op))" and "look s0 (backupKey op) = None" and "statFaults m = []"
  defines "K \<equiv> {finalKey op, backupKey op}"
  shows "wp (restoreBackup d op)
     (\<lambda>u m'. (faults m = [] \<longrightarrow> faults m' = []) \<and> elsewhere K (tree m) (tree m') \<and>
        look (tree m') (finalKey op) = look s0 (finalKey op) \<and> look (tree m') (backupKey op) = None)
     (\<lambda>e m'. elsewhere K (tree m) (tree m') \<and> displaced s0 (tree m') op \<and> faults m \<noteq> [])
     (\<lambda>m'. elsewhere K (tree m) (tree m') \<and> displaced s0 (tree m') op \<and> faults m \<noteq> []) m"
proof (cases "look (tree m) (backupKey op)")
  case None
  with assms show ?thesis
    by (auto simp: restoreBackup_def wp_bnd wp_exists displaced_def finalKey_def backupKey_def)
next
  case (Some n)
  with assms(6) have l: "look s0 (finalKey op) = Some n" "leafy (look (tree m) (finalKey op))"
    by (simp_all add: displaced_def)
  with assms(7) have "isLeaf n" by simp
  from assms(1) have k: "finalKey op = d @ [base op]" "backupKey op = d @ [backup op]"
    by (simp_all add: finalKey_def backupKey_def)
  from assms(1-5,9) Some l \<open>isLeaf n\<close> show ?thesis
    unfolding restoreBackup_def K_def displaced_def k
    by (auto simp: wp_bnd wp_exists isDir_look
        intro!: wp_removeIfExists wp_rename elsewhereI split: if_splits)
qed

lemma contained_restoreI:
  assumes "undoable s0 t op" and "elsewhere (set (opKeys op)) t t'" and "restored s0 t' op"
  shows "contained s0 op t t'"
  using assms restored_undoable by (simp add: contained_def)

lemma rollbackOp_run:
  assumes "wellNamed op" and "undoable s0 (tree m) op" and "statFaults m = []"
  shows "wp (rollbackOp op)
     (\<lambda>u m'. contained s0 op (tree m) (tree m') \<and> restored s0 (tree m') op)
     (\<lambda>e m'. contained s0 op (tree m) (tree m') \<and> faults m \<noteq> [])
     (\<lambda>m'. contained s0 op (tree m) (tree m') \<and> faults m \<noteq> []) m"
proof (cases "fo_dir op")
  case None
  then show ?thesis by (simp add: rollbackOp_def contained_def restored_def opKeys_def undoable_def)
next
  case (Some d)
  then have k: "finalKey op = d @ [base op]" "stagedKey op = d @ [staged op]"
    "backupKey op = d @ [backup op]"
    by (simp_all add: finalKey_def backupKey_def stagedKey_def)
  have planned: "planned s0 op" "isDir (tree m) d"
    using assms(2) Some by (simp_all add: undoable_def)
  have names: "list_all checkName (opNames op)" "distinct (opNames op)"
    using assms(1) Some by (simp_all add: wellNamed_def)
  note unfold = opKeys_def opNames_def k Some contained_def restored_def undoable_def planned_def
    displaced_def isDir_look
  show ?thesis
  proof (cases "fo_action op = actionCreate")
    case True
    with assms names planned Some show ?thesis
      by (auto simp: rollbackOp_def wp_bnd unfold intro!: wp_removeIfExists elsewhereI split: if_splits)
  next
    case False
    have *: "wp (restoreBackup d op)
       (\<lambda>u m'. (faults m = [] \<longrightarrow> faults m' = []) \<and> elsewhere {finalKey op, backupKey op} (tree m) (tree m') \<and>
          look (tree m') (finalKey op) = look s0 (finalKey op) \<and> look (tree m') (backupKey op) = None)
       (\<lambda>e m'. elsewhere {finalKey op, backupKey op} (tree m) (tree m') \<and> displaced s0 (tree m') op \<and> faults m \<noteq> [])
       (\<lambda>m'. elsewhere {finalKey op, backupKey op} (tree m) (tree m') \<and> displaced s0 (tree m') op \<and> faults m \<noteq> []) m"
      by (rule restoreBackup_run)
         (use False assms planned names Some in \<open>auto simp: planned_def undoable_def opNames_def
            split: fileAction.splits\<close>)
    show ?thesis
    proof (cases "fo_action op = actionRemove")
      case True
      then have "rollbackOp op = restoreBackup d op" and "set (opKeys op) = {finalKey op, backupKey op}"
        by (simp_all add: rollbackOp_def unfold)
      with * True planned Some show ?thesis
        by (auto elim!: wp_mono simp: contained_def undoable_def elsewhere_isDir restored_def displaced_def planned_def)
    next
      case swap: False
      then have roll: "rollbackOp op = bnd (restoreBackup d op) (\<lambda>u. removeIfExists d (staged op))"
        and ks: "set (opKeys op) = {finalKey op, stagedKey op, backupKey op}"
        using False by (cases "fo_action op"; simp add: rollbackOp_def unfold)+
      have st: "checkName (staged op)" "stagedKey op \<notin> {finalKey op, backupKey op}"
        using names swap False by (cases "fo_action op"; auto simp: opNames_def k)+
      have safe: "contained s0 op (tree m) t"
        if "elsewhere (set (opKeys op)) (tree m) t" and "displaced s0 t op"
          and "leafy (look t (stagedKey op))" for t
        using that planned Some swap False
        by (cases "fo_action op") (simp_all add: contained_def undoable_def elsewhere_isDir)
      have st0: "leafy (look (tree m) (stagedKey op))"
        using assms(2) Some False swap by (cases "fo_action op") (auto simp: undoable_def)
      have wide: "elsewhere (set (opKeys op)) (tree m) t"
        if "elsewhere {finalKey op, backupKey op} (tree m) t" for t
        using that unfolding ks by (auto simp: elsewhere_def)
      have "wp (restoreBackup d op)
         (\<lambda>u. wp (removeIfExists d (staged op))
             (\<lambda>u m'. contained s0 op (tree m) (tree m') \<and> restored s0 (tree m') op)
             (\<lambda>e m'. contained s0 op (tree m) (tree m') \<and> faults m \<noteq> [])
             (\<lambda>m'. contained s0 op (tree m) (tree m') \<and> faults m \<noteq> []))
         (\<lambda>e m'. contained s0 op (tree m) (tree m') \<and> faults m \<noteq> [])
         (\<lambda>m'. contained s0 op (tree m) (tree m') \<and> faults m \<noteq> []) m"
      proof (rule wp_mono [OF *], goal_cases)
        case (1 u m')
        then have s': "leafy (look (tree m') (stagedKey op))" "isDir (tree m') d"
          using st st0 planned(2) elsewhere_look elsewhere_isDir by fastforce+
        have now: "contained s0 op (tree m) (tree m')"
          using 1 s' by (intro safe wide) (auto simp: displaced_def)
        have fin: "contained s0 op (tree m) t \<and> restored s0 t op"
          if t: "look t = (look (tree m'))(stagedKey op := None)" for t
        proof
          have "elsewhere {stagedKey op} (tree m') t"
            by (rule elsewhereI) (use t s' in auto)
          then have "elsewhere ({finalKey op, backupKey op} \<union> {stagedKey op}) (tree m) t"
            using 1 by (intro elsewhere_trans) auto
          then have e: "elsewhere (set (opKeys op)) (tree m) t"
            by (simp add: ks insert_commute)
          show "contained s0 op (tree m) t"
            by (rule safe [OF e]) (use t 1 st in \<open>auto simp: displaced_def\<close>)
          show "restored s0 t op"
            using t 1 st planned swap False
            by (cases "fo_action op") (auto simp: restored_def ks planned_def)
        qed
        show ?case
          by (rule wp_removeIfExists)
             (use st s' now fin 1 in \<open>auto simp: k\<close>)
      next
        case (2 e m')
        then show ?case using st st0 elsewhere_look by (intro conjI safe wide) fastforce+
      next
        case (3 m')
        then show ?case using st st0 elsewhere_look by (intro conjI safe wide) fastforce+
      qed
      then show ?thesis by (simp add: wp_bnd roll)
    qed
  qed
qed

subsection \<open>All operations of a transaction\<close>

text \<open>A loop that collects errors; the flag says that there was none so far.\<close>

lemma wp_collecting:
  assumes "I xs b m"
    and "\<And>x ys b m. I (x # ys) b m \<Longrightarrow> wp (f x) (\<lambda>u. I ys b) (\<lambda>e. I ys False) C m"
  shows "wp (collecting f xs) (\<lambda>errs. I [] (b \<and> errs = [])) (\<lambda>e m. False) C m"
  using assms(1)
proof (induction xs arbitrary: b m)
  case (Cons x ys)
  have "wp (collecting f ys) (\<lambda>errs. I [] (b' \<and> errs = [])) (\<lambda>e m. False) C m'"
    if "I ys b' m'" for b' m'
    using that by (rule Cons.IH)
  note rest = this
  show ?case
    unfolding collecting.simps wp_bnd wp_attempt
  proof (rule wp_mono [OF assms(2) [OF Cons.prems]], goal_cases)
    case (1 u m')
    show ?case by (rule wp_mono [OF rest [OF 1]]) simp_all
  next
    case (2 e m')
    show ?case by (rule wp_mono [OF rest [OF 2]]) simp_all
  qed
qed simp

definition allKeys :: "fileOp list \<Rightarrow> path set" where
  "allKeys ops = \<Union> (set ` opKeys ` set ops)"

text \<open>No two operations name the same path for anything.\<close>

definition separate :: "fileOp list \<Rightarrow> bool" where
  "separate ops \<longleftrightarrow> list_all wellNamed ops \<and> distinct (concat (map opKeys ops))"

lemma separate_parts:
  assumes "separate (xs @ op # ys)"
  shows "wellNamed op" and "\<And>p. p \<in> set xs \<union> set ys \<Longrightarrow> set (opKeys op) \<inter> set (opKeys p) = {}"
  using assms by (auto simp: separate_def)

definition quietStat :: "machine \<Rightarrow> bool" where
  "quietStat m \<longleftrightarrow> statFaults m = []"

lemma blind_quietStat: "blind quietStat"
  by (simp add: blind_def quietStat_def tick_def)

lemma blind_calm: "blind (\<lambda>m. faults m = [])"
  by (simp add: blind_def tick_def)

lemma quietStat_run:
  assumes "stable quietStat a" and "stable (\<lambda>m. faults m = []) a" and "quietStat m"
    and "wp a Q F C m"
  shows "wp a (\<lambda>x m'. Q x m' \<and> quietStat m' \<and> (faults m = [] \<longrightarrow> faults m' = []))
     (\<lambda>e m'. F e m' \<and> quietStat m' \<and> (faults m = [] \<longrightarrow> faults m' = [])) C m"
  using stableD [OF assms(1,3)] stableD [OF assms(2), of m] assms(4)
  by (cases "faults m = []") (auto simp: wp_def split: prod.splits outcome.splits)

lemma applied_from:
  assumes "elsewhere K t0 t" and "K \<inter> set (opKeys op) = {}"
  shows "applied s0 t t' op = applied s0 t0 t' op"
  using assms
  by (cases "fo_action op"; cases "fo_dir op") (simp_all add: applied_def elsewhere_look op_defs)

lemma commitOps_run:
  assumes "separate ops" and "\<forall>op\<in>set ops. waiting s0 (tree m0) op \<and> fo_action op \<noteq> actionSwap"
    and "quietStat m0"
  defines "safe \<equiv> \<lambda>m. elsewhere (allKeys ops) (tree m0) (tree m) \<and> (\<forall>op\<in>set ops. undoable s0 (tree m) op)"
  shows "wp (commitOps ops)
     (\<lambda>u m. safe m \<and> (\<forall>op\<in>set ops. applied s0 (tree m0) (tree m) op))
     (\<lambda>e m. safe m \<and> ((\<forall>op\<in>set ops. hasContent (tree m0) op) \<longrightarrow> faults m0 \<noteq> []))
     (\<lambda>m. safe m \<and> faults m0 \<noteq> []) m0"
proof -
  define I where "I ys m \<longleftrightarrow>
    (\<exists>xs. ops = xs @ ys \<and> elsewhere (allKeys xs) (tree m0) (tree m) \<and> quietStat m \<and>
       (faults m0 = [] \<longrightarrow> faults m = []) \<and>
       (\<forall>op\<in>set xs. undoable s0 (tree m) op \<and> applied s0 (tree m0) (tree m) op) \<and>
       (\<forall>op\<in>set ys. waiting s0 (tree m) op \<and> fo_action op \<noteq> actionSwap))" for ys m
  have "wp (each commitOp ops) (\<lambda>u. I [])
      (\<lambda>e m. safe m \<and> ((\<forall>op\<in>set ops. hasContent (tree m0) op) \<longrightarrow> faults m0 \<noteq> []))
      (\<lambda>m. safe m \<and> faults m0 \<noteq> []) m0"
  proof (rule wp_each)
    show "I ops m0" using assms(2,3) by (auto simp: I_def allKeys_def)
    fix op ys m assume "I (op # ys) m"
    then obtain xs where ops: "ops = xs @ op # ys"
      and e: "elsewhere (allKeys xs) (tree m0) (tree m)" and q: "quietStat m"
      and c: "faults m0 = [] \<longrightarrow> faults m = []"
      and xs: "\<forall>op\<in>set xs. undoable s0 (tree m) op \<and> applied s0 (tree m0) (tree m) op"
      and ys: "\<forall>op\<in>set ys. waiting s0 (tree m) op \<and> fo_action op \<noteq> actionSwap"
      and op: "waiting s0 (tree m) op" "fo_action op \<noteq> actionSwap"
      by (auto simp: I_def)
    note parts = separate_parts [OF assms(1) [unfolded ops]]
    have other: "p \<in> set xs \<union> set ys \<Longrightarrow> elsewhere (set (opKeys op)) (tree m) t \<Longrightarrow>
        undoable s0 t p = undoable s0 (tree m) p \<and> waiting s0 t p = waiting s0 (tree m) p \<and>
        applied s0 (tree m0) t p = applied s0 (tree m0) (tree m) p" for p t
      using undoable_elsewhere [of "set (opKeys op)" "tree m" t p] parts(2) by blast
    have wide: "elsewhere (allKeys (xs @ [op])) (tree m0) t"
      if "elsewhere (set (opKeys op)) (tree m) t" for t
      using elsewhere_trans [OF e that] by (simp add: allKeys_def Un_commute)
    have sep: "allKeys xs \<inter> set (opKeys op) = {}"
      using parts(2) by (force simp: allKeys_def)
    have safe: "safe m'" if "contained s0 op (tree m) (tree m')" for m'
    proof -
      from that have e': "elsewhere (set (opKeys op)) (tree m) (tree m')" and "undoable s0 (tree m') op"
        by (simp_all add: contained_def)
      moreover have "elsewhere (allKeys ops) (tree m0) (tree m')"
        using wide [OF e'] unfolding ops by (auto simp: elsewhere_def allKeys_def)
      moreover have "undoable s0 (tree m') p" if "p \<in> set xs \<union> set ys" for p
        using other [OF that e'] that xs ys waiting_undoable by auto
      ultimately show ?thesis by (auto simp: safe_def ops)
    qed
    have step: "wp (commitOp op)
       (\<lambda>u m'. contained s0 op (tree m) (tree m') \<and> applied s0 (tree m0) (tree m') op)
       (\<lambda>e m'. contained s0 op (tree m) (tree m') \<and> (hasContent (tree m) op \<longrightarrow> faults m \<noteq> []))
       (\<lambda>m'. contained s0 op (tree m) (tree m') \<and> faults m \<noteq> []) m"
      using commitOp_run [of op s0 m] parts(1) op q unfolding quietStat_def
      by (simp add: applied_from [OF e sep])
    have "wp (commitOp op)
       (\<lambda>u m'. (contained s0 op (tree m) (tree m') \<and> applied s0 (tree m0) (tree m') op) \<and> quietStat m'
          \<and> (faults m = [] \<longrightarrow> faults m' = []))
       (\<lambda>e m'. (contained s0 op (tree m) (tree m') \<and> (hasContent (tree m) op \<longrightarrow> faults m \<noteq> []))
          \<and> quietStat m' \<and> (faults m = [] \<longrightarrow> faults m' = []))
       (\<lambda>m'. contained s0 op (tree m) (tree m') \<and> faults m \<noteq> []) m"
      by (rule quietStat_run [OF _ _ q step]) (intro stable_rules blind_quietStat blind_calm)+
    moreover have "hasContent (tree m) op = hasContent (tree m0) op"
      using undoable_elsewhere(5) [OF e sep] .
    ultimately show "wp (commitOp op) (\<lambda>u. I ys)
        (\<lambda>e m. safe m \<and> ((\<forall>op\<in>set ops. hasContent (tree m0) op) \<longrightarrow> faults m0 \<noteq> []))
        (\<lambda>m. safe m \<and> faults m0 \<noteq> []) m"
    proof (elim wp_mono, goal_cases)
      case (1 u m')
      then have e': "elsewhere (set (opKeys op)) (tree m) (tree m')" by (simp add: contained_def)
      show ?case unfolding I_def
      proof (intro exI conjI)
        show "ops = (xs @ [op]) @ ys" by (simp add: ops)
        show "elsewhere (allKeys (xs @ [op])) (tree m0) (tree m')" by (rule wide [OF e'])
        show "\<forall>p\<in>set (xs @ [op]). undoable s0 (tree m') p \<and> applied s0 (tree m0) (tree m') p"
          using 1 xs other [OF _ e'] by (auto simp: contained_def)
        show "\<forall>p\<in>set ys. waiting s0 (tree m') p \<and> fo_action p \<noteq> actionSwap"
          using ys other [OF _ e'] by auto
      qed (use 1 c in auto)
    qed (use safe c ops in auto)
  qed
  then show ?thesis
    unfolding commitOps_def
    by (rule wp_mono) (auto simp: I_def safe_def)
qed

lemma joinErrors_run: "wp (joinErrors errs) Q F C m = (if errs = [] then Q () m else F (Joined errs) m)"
  by (simp add: joinErrors_def)

lemma rollbackOps_run:
  assumes "separate ops" and "\<forall>op\<in>set ops. undoable s0 (tree m0) op" and "quietStat m0"
  defines "safe \<equiv> \<lambda>m. elsewhere (allKeys ops) (tree m0) (tree m) \<and> (\<forall>op\<in>set ops. undoable s0 (tree m) op)"
  shows "wp (rollbackOps ops)
     (\<lambda>u m. safe m \<and> (\<forall>op\<in>set ops. restored s0 (tree m) op))
     (\<lambda>e m. safe m \<and> faults m0 \<noteq> []) (\<lambda>m. safe m \<and> faults m0 \<noteq> []) m0"
proof -
  define I where "I ys b m \<longleftrightarrow>
    (\<exists>xs. rev ops = xs @ ys \<and> safe m \<and> quietStat m \<and> (faults m0 = [] \<longrightarrow> faults m = [] \<and> b) \<and>
       (b \<longrightarrow> (\<forall>op\<in>set xs. restored s0 (tree m) op)))" for ys b m
  have "wp (collecting rollbackOp (rev ops)) (\<lambda>errs. I [] (True \<and> errs = [])) (\<lambda>e m. False)
      (\<lambda>m. safe m \<and> faults m0 \<noteq> []) m0"
  proof (rule wp_collecting)
    show "I (rev ops) True m0" using assms(2,3) by (simp add: I_def safe_def)
    fix op ys b m assume "I (op # ys) b m"
    then obtain xs where ops: "rev ops = xs @ op # ys" and safe: "safe m" and q: "quietStat m"
      and c: "faults m0 = [] \<longrightarrow> faults m = [] \<and> b"
      and xs: "b \<longrightarrow> (\<forall>op\<in>set xs. restored s0 (tree m) op)"
      by (auto simp: I_def)
    then have "ops = rev ys @ op # rev xs"
      by (metis append.assoc append_Cons append_Nil rev.simps(2) rev_append rev_rev_ident)
    note parts = separate_parts [OF assms(1) [unfolded this]]
    have mem: "set ops = insert op (set xs \<union> set ys)" by (metis Un_insert_right ops list.set(2) set_append set_rev)
    have other: "undoable s0 t p = undoable s0 (tree m) p \<and> restored s0 t p = restored s0 (tree m) p"
      if "p \<in> set xs \<union> set ys" and "elsewhere (set (opKeys op)) (tree m) t" for p t
      using undoable_elsewhere [OF that(2), of p] parts(2) [of p] that(1) by auto
    have safe': "safe m'" if "contained s0 op (tree m) (tree m')" for m'
    proof -
      from that have e': "elsewhere (set (opKeys op)) (tree m) (tree m')" and "undoable s0 (tree m') op"
        by (simp_all add: contained_def)
      moreover have "elsewhere (allKeys ops) (tree m0) (tree m')"
        using safe e' by (auto simp: safe_def elsewhere_def allKeys_def mem)
      ultimately show ?thesis
        using other [OF _ e'] safe by (auto simp: safe_def mem)
    qed
    have step: "wp (rollbackOp op)
       (\<lambda>u m'. contained s0 op (tree m) (tree m') \<and> restored s0 (tree m') op)
       (\<lambda>e m'. contained s0 op (tree m) (tree m') \<and> faults m \<noteq> [])
       (\<lambda>m'. contained s0 op (tree m) (tree m') \<and> faults m \<noteq> []) m"
      using rollbackOp_run [of op s0 m] parts(1) safe q by (simp add: safe_def mem quietStat_def)
    have "wp (rollbackOp op)
       (\<lambda>u m'. (contained s0 op (tree m) (tree m') \<and> restored s0 (tree m') op) \<and> quietStat m'
          \<and> (faults m = [] \<longrightarrow> faults m' = []))
       (\<lambda>e m'. (contained s0 op (tree m) (tree m') \<and> faults m \<noteq> []) \<and> quietStat m'
          \<and> (faults m = [] \<longrightarrow> faults m' = []))
       (\<lambda>m'. contained s0 op (tree m) (tree m') \<and> faults m \<noteq> []) m"
      by (rule quietStat_run [OF _ _ q step]) (intro stable_rules blind_quietStat blind_calm)+
    then show "wp (rollbackOp op) (\<lambda>u. I ys b) (\<lambda>e. I ys False) (\<lambda>m. safe m \<and> faults m0 \<noteq> []) m"
    proof (rule wp_mono, goal_cases)
      case (1 u m')
      then have e': "elsewhere (set (opKeys op)) (tree m) (tree m')" by (simp add: contained_def)
      show ?case unfolding I_def
      proof (intro exI conjI impI)
        show "rev ops = (xs @ [op]) @ ys" by (simp add: ops)
        assume b
        then show "\<forall>p\<in>set (xs @ [op]). restored s0 (tree m') p"
          using 1 xs other [OF _ e'] by auto
      qed (use 1 c safe' in auto)
    next
      case (2 e m')
      then show ?case unfolding I_def
        by (intro exI [of _ "xs @ [op]"]) (use c safe' ops in auto)
    qed (use safe' c in auto)
  qed
  then show ?thesis
    unfolding rollbackOps_def wp_bnd joinErrors_run
    by (rule wp_mono) (auto simp: I_def)
qed

text \<open>
  Together: whatever stops the operations from being applied, a rollback without further faults
  restores every path they touch and changes nothing else.
\<close>

lemma interrupted_commit_undone:
  assumes "separate ops" and "\<forall>op\<in>set ops. waiting s0 (tree m) op \<and> fo_action op \<noteq> actionSwap"
    and "quietStat m" and "commitOps ops m = (r, m1)"
    and "quietStat m2" and "faults m2 = []" and "tree m2 = tree m1"
  shows "\<exists>m3. rollbackOps ops m2 = (Done (), m3) \<and> elsewhere (allKeys ops) (tree m) (tree m3) \<and>
     (\<forall>k\<in>allKeys ops. look (tree m3) k = look s0 k)"
proof -
  have "elsewhere (allKeys ops) (tree m) (tree m1) \<and> (\<forall>op\<in>set ops. undoable s0 (tree m1) op)"
    using wp_result [OF commitOps_run [OF assms(1-3)] assms(4)] by (auto split: outcome.splits)
  with assms(7) have e: "elsewhere (allKeys ops) (tree m) (tree m2)"
    and u: "\<forall>op\<in>set ops. undoable s0 (tree m2) op" by auto
  obtain r3 m3 where r3: "rollbackOps ops m2 = (r3, m3)" by force
  from wp_result [OF rollbackOps_run [OF assms(1) u assms(5)] r3] assms(6)
  have "r3 = Done ()" and "elsewhere (allKeys ops) (tree m2) (tree m3)"
    and "\<forall>op\<in>set ops. restored s0 (tree m3) op"
    by (auto split: outcome.splits)
  with r3 e show ?thesis
    by (auto simp: restored_def allKeys_def elsewhere_def)
qed

end
