(* ===== verification/DbFacts.thy ===== *)
theory DbFacts
  imports PackageDb
begin

section \<open>What the database always holds\<close>

text \<open>
  The schema's constraints as one invariant of the tables, kept by every statement, and the
  statements' effects on what a transaction's recovery reads.
\<close>

definition collides :: "PackageFile \<Rightarrow> PackageFile \<Rightarrow> bool" where
  "collides f g \<longleftrightarrow>
     pf_Path f = pf_Path g \<and>
     (pf_PackageName f = pf_PackageName g \<or> pf_Type f \<noteq> FileTypeDir \<and> pf_Type g \<noteq> FileTypeDir)"

definition apart :: "('a \<Rightarrow> 'a \<Rightarrow> bool) \<Rightarrow> 'a list \<Rightarrow> bool" where
  "apart R xs \<longleftrightarrow> sorted_wrt (\<lambda>x y. \<not> R x y \<and> \<not> R y x) xs"

lemma apart_Nil [simp]: "apart R []"
  by (simp add: apart_def)

lemma apart_snoc: "apart R (xs @ [x]) \<longleftrightarrow> apart R xs \<and> (\<forall>y\<in>set xs. \<not> R x y \<and> \<not> R y x)"
  by (auto simp: apart_def sorted_wrt_append)

lemma apart_filter: "apart R xs \<Longrightarrow> apart R (filter P xs)"
  unfolding apart_def by (rule sorted_wrt_filter)

lemma apart_map:
  assumes "apart R xs" and "\<And>x y. x \<in> set xs \<Longrightarrow> y \<in> set xs \<Longrightarrow> R' (f x) (f y) \<Longrightarrow> R x y"
  shows "apart R' (map f xs)"
  using assms unfolding apart_def sorted_wrt_map
  by (auto elim!: sorted_wrt_mono_rel [rotated])

definition pending :: "Txn \<Rightarrow> bool" where
  "pending t \<longleftrightarrow> tx_State t = TxnPending"

definition packages_ok :: "database \<Rightarrow> bool" where
  "packages_ok d \<longleftrightarrow>
     apart (\<lambda>p q. dp_Name p = dp_Name q) (t_package d) \<and>
     apart collides (t_package_file d) \<and>
     (\<forall>f\<in>set (t_package_file d). package_file_row f \<and> pf_PackageName f \<in> dp_Name ` set (t_package d))"

definition claims_ok :: "database \<Rightarrow> bool" where
  "claims_ok d \<longleftrightarrow>
     apart (\<lambda>h k. ch_Role h = ch_Role k) (t_claim_holder d) \<and>
     apart (\<lambda>l k. cl_Path l = cl_Path k) (t_claim_link d) \<and>
     (\<forall>h\<in>set (t_claim_holder d). ch_Holder h \<in> dp_Name ` set (t_package d)) \<and>
     (\<forall>l\<in>set (t_claim_link d). cl_Role l \<in> ch_Role ` set (t_claim_holder d))"

definition txns_ok :: "database \<Rightarrow> bool" where
  "txns_ok d \<longleftrightarrow>
     apart (\<lambda>t u. tx_ID t = tx_ID u \<or> pending t \<and> pending u) (t_txn d) \<and>
     (\<forall>t\<in>set (t_txn d). tx_ID t \<le> t_txn_sequence d)"

definition journal_ok :: "database \<Rightarrow> bool" where
  "journal_ok d \<longleftrightarrow>
     apart (\<lambda>r q. to_TxnID r = to_TxnID q \<and> (to_PackageName r = to_PackageName q \<or> to_Seq r = to_Seq q))
       (t_txn_op d) \<and>
     apart (\<lambda>r q. tf_TxnID r = tf_TxnID q \<and> (tf_FinalPath r = tf_FinalPath q \<or> tf_Seq r = tf_Seq q))
       (t_txn_file d) \<and>
     apart (\<lambda>r q. td_TxnID r = td_TxnID q \<and> (td_Path r = td_Path q \<or> td_Seq r = td_Seq q))
       (t_txn_dir d) \<and>
     (\<forall>r\<in>set (t_txn_op d). txn_op_row r \<and> to_TxnID r \<in> tx_ID ` set (t_txn d)) \<and>
     (\<forall>r\<in>set (t_txn_file d). txn_file_row r \<and>
        (tf_TxnID r, tf_PackageName r) \<in> (\<lambda>q. (to_TxnID q, to_PackageName q)) ` set (t_txn_op d)) \<and>
     (\<forall>r\<in>set (t_txn_dir d). td_TxnID r \<in> tx_ID ` set (t_txn d))"

definition db_ok :: "database \<Rightarrow> bool" where
  "db_ok d \<longleftrightarrow> packages_ok d \<and> claims_ok d \<and> txns_ok d \<and> journal_ok d"

definition emptyDb :: database where
  "emptyDb =
     \<lparr>t_package = [], t_package_file = [], t_txn = [], t_txn_sequence = 0, t_payload = [],
      t_txn_op = [], t_txn_file = [], t_txn_dir = [], t_claim_holder = [], t_claim_link = []\<rparr>"

lemma emptyDb_ok: "db_ok emptyDb"
  by (simp add: db_ok_def packages_ok_def claims_ok_def txns_ok_def journal_ok_def emptyDb_def)

lemmas ok_defs = db_ok_def packages_ok_def claims_ok_def txns_ok_def journal_ok_def

text \<open>The statements of the code, as a type, and what running one does.\<close>

datatype statement =
    SInsertPackage dbPackage | SDeletePackage string | SInsertPackageFile PackageFile
  | SSetClaimHolder string string | SDeleteClaimHolder string
  | SInsertClaimLink ClaimLink | SDeleteClaimLink string
  | SBegin string nat string | SFinish nat TxnState string | SDeleteTxn nat
  | SSetCommitPayload nat commitPayload
  | SInsertTxnOp TxnOp | SInsertTxnFile TxnFile | SInsertTxnDir TxnDir

fun runStatement :: "statement \<Rightarrow> database \<Rightarrow> failure + database" where
  "runStatement (SInsertPackage p) d = InsertPackage p d"
| "runStatement (SDeletePackage n) d = DeletePackage n d"
| "runStatement (SInsertPackageFile f) d = InsertPackageFile f d"
| "runStatement (SSetClaimHolder r h) d = SetClaimHolder r h d"
| "runStatement (SDeleteClaimHolder r) d = DeleteClaimHolder r d"
| "runStatement (SInsertClaimLink l) d = InsertClaimLink l d"
| "runStatement (SDeleteClaimLink p) d = DeleteClaimLink p d"
| "runStatement (SBegin v s x) d = rbind (BeginCrossRootTxn v s x d) (\<lambda>(n, d'). Inr d')"
| "runStatement (SFinish n st w) d = FinishTxn n st w d"
| "runStatement (SDeleteTxn n) d = DeleteTxn n d"
| "runStatement (SSetCommitPayload n p) d = SetCommitPayload n p d"
| "runStatement (SInsertTxnOp r) d = InsertTxnOp r d"
| "runStatement (SInsertTxnFile r) d = InsertTxnFile r d"
| "runStatement (SInsertTxnDir r) d = InsertTxnDir r d"

lemma list_ex_key: "list_ex (\<lambda>x. f x = c) xs \<longleftrightarrow> c \<in> f ` set xs"
  by (auto simp: list_ex_iff)

text \<open>A row can only be appended where no row clashes with it.\<close>

lemma apart_snocI:
  "apart R xs \<Longrightarrow> (\<And>y. y \<in> set xs \<Longrightarrow> R x y \<or> R y x \<Longrightarrow> False) \<Longrightarrow> apart R (xs @ [x])"
  by (auto simp: apart_snoc)

lemma ok_parts:
  assumes "db_ok d"
  shows "packages_ok d" and "claims_ok d" and "txns_ok d" and "journal_ok d"
  using assms by (simp_all add: db_ok_def)

lemma ok_InsertPackage:
  assumes "db_ok d" and "InsertPackage p d = Inr d'"
  shows "db_ok d'"
proof -
  from assms(2) have d': "d' = d\<lparr>t_package := t_package d @ [p]\<rparr>"
    and new: "\<not> list_ex (\<lambda>q. dp_Name q = dp_Name p) (t_package d)"
    by (auto simp: InsertPackage_def split: if_splits)
  have "packages_ok d'" "claims_ok d'"
    using ok_parts(1,2) [OF assms(1)] new
    by (auto simp: packages_ok_def claims_ok_def d' list_ex_iff intro!: apart_snocI)
  with ok_parts(3,4) [OF assms(1)] show ?thesis by (simp add: db_ok_def txns_ok_def journal_ok_def d')
qed

lemma ok_InsertPackageFile:
  assumes "db_ok d" and "InsertPackageFile f d = Inr d'"
  shows "db_ok d'"
proof -
  from assms(2) have d': "d' = d\<lparr>t_package_file := t_package_file d @ [f]\<rparr>"
    and row: "package_file_row f" "pf_PackageName f \<in> dp_Name ` set (t_package d)"
    and new: "\<And>g. g \<in> set (t_package_file d) \<Longrightarrow> \<not> collides f g \<and> \<not> collides g f"
    by (auto simp: InsertPackageFile_def list_ex_key list_ex_iff collides_def split: if_splits)
  have "packages_ok d'"
    using ok_parts(1) [OF assms(1)] new row
    by (auto simp: packages_ok_def d' intro!: apart_snocI)
  with ok_parts(2-4) [OF assms(1)] show ?thesis
    by (simp add: db_ok_def claims_ok_def txns_ok_def journal_ok_def d')
qed

lemma ok_DeletePackage:
  assumes "db_ok d" and "DeletePackage n d = Inr d'"
  shows "db_ok d'"
proof -
  define gone where "gone = map ch_Role (filter (\<lambda>h. ch_Holder h = n) (t_claim_holder d))"
  from assms(2) have d': "d' = d\<lparr>t_package := filter (\<lambda>p. dp_Name p \<noteq> n) (t_package d),
      t_package_file := filter (\<lambda>f. pf_PackageName f \<noteq> n) (t_package_file d),
      t_claim_holder := filter (\<lambda>h. ch_Holder h \<noteq> n) (t_claim_holder d),
      t_claim_link := filter (\<lambda>l. cl_Role l \<notin> set gone) (t_claim_link d)\<rparr>"
    by (simp add: DeletePackage_def Let_def gone_def)
  have "packages_ok d'"
    using ok_parts(1) [OF assms(1)] by (auto simp: packages_ok_def d' intro!: apart_filter)
  moreover have claims: "claims_ok d" by (rule ok_parts(2) [OF assms(1)])
  have "cl_Role l \<in> ch_Role ` {h \<in> set (t_claim_holder d). ch_Holder h \<noteq> n}"
    if "l \<in> set (t_claim_link d)" "cl_Role l \<notin> set gone" for l
  proof -
    from claims that(1) obtain h where "h \<in> set (t_claim_holder d)" "cl_Role l = ch_Role h"
      by (auto simp: claims_ok_def)
    with that(2) show ?thesis by (auto simp: gone_def)
  qed
  with claims have "claims_ok d'"
    by (auto simp: claims_ok_def d' intro!: apart_filter)
  ultimately show ?thesis
    using ok_parts(3,4) [OF assms(1)] by (simp add: db_ok_def txns_ok_def journal_ok_def d')
qed

lemma ok_SetClaimHolder:
  assumes "db_ok d" and "SetClaimHolder r h d = Inr d'"
  shows "db_ok d'"
proof -
  let ?f = "\<lambda>k. if ch_Role k = r then k\<lparr>ch_Holder := h\<rparr> else k"
  have roles: "ch_Role (?f k) = ch_Role k" for k by simp
  have claims: "claims_ok d" and h: "h \<in> dp_Name ` set (t_package d)"
    using ok_parts(2) [OF assms(1)] assms(2)
    by (auto simp: SetClaimHolder_def list_ex_key split: if_splits)
  show ?thesis
  proof (cases "list_ex (\<lambda>k. ch_Role k = r) (t_claim_holder d)")
    case True
    with assms(2) have d': "d' = d\<lparr>t_claim_holder := map ?f (t_claim_holder d)\<rparr>"
      by (auto simp: SetClaimHolder_def split: if_splits)
    have "apart (\<lambda>k k'. ch_Role k = ch_Role k') (map ?f (t_claim_holder d))"
      using claims by (intro apart_map [where R = "\<lambda>k k'. ch_Role k = ch_Role k'"])
        (simp_all add: claims_ok_def split: if_splits)
    moreover have "ch_Role ` ?f ` set (t_claim_holder d) = ch_Role ` set (t_claim_holder d)"
      by (simp only: image_image roles)
    moreover have "ch_Holder k \<in> dp_Name ` set (t_package d)"
      if "k \<in> ?f ` set (t_claim_holder d)" for k
      using claims h that by (auto simp: claims_ok_def)
    ultimately have "claims_ok d'"
      using claims unfolding claims_ok_def d' by simp
    with ok_parts(1,3,4) [OF assms(1)] show ?thesis
      by (simp add: db_ok_def packages_ok_def txns_ok_def journal_ok_def d')
  next
    case False
    with assms(2) have d': "d' = d\<lparr>t_claim_holder := t_claim_holder d @ [\<lparr>ch_Role = r, ch_Holder = h\<rparr>]\<rparr>"
      by (auto simp: SetClaimHolder_def split: if_splits)
    have "claims_ok d'"
      using claims h False by (auto simp: claims_ok_def d' list_ex_iff intro!: apart_snocI)
    with ok_parts(1,3,4) [OF assms(1)] show ?thesis
      by (simp add: db_ok_def packages_ok_def txns_ok_def journal_ok_def d')
  qed
qed

lemma ok_DeleteClaimHolder:
  assumes "db_ok d" and "DeleteClaimHolder r d = Inr d'"
  shows "db_ok d'"
proof -
  from assms(2) have d': "d' = d\<lparr>t_claim_holder := filter (\<lambda>h. ch_Role h \<noteq> r) (t_claim_holder d),
      t_claim_link := filter (\<lambda>l. cl_Role l \<noteq> r) (t_claim_link d)\<rparr>"
    by (simp add: DeleteClaimHolder_def)
  have "claims_ok d'"
    using ok_parts(2) [OF assms(1)]
    by (auto simp: claims_ok_def d' intro!: apart_filter)
  with ok_parts(1,3,4) [OF assms(1)] show ?thesis
    by (simp add: db_ok_def packages_ok_def txns_ok_def journal_ok_def d')
qed

lemma ok_InsertClaimLink:
  assumes "db_ok d" and "InsertClaimLink l d = Inr d'"
  shows "db_ok d'"
proof -
  from assms(2) have d': "d' = d\<lparr>t_claim_link := t_claim_link d @ [l]\<rparr>"
    and l: "cl_Role l \<in> ch_Role ` set (t_claim_holder d)"
    and new: "\<And>k. k \<in> set (t_claim_link d) \<Longrightarrow> cl_Path k \<noteq> cl_Path l"
    by (auto simp: InsertClaimLink_def list_ex_key [of ch_Role] list_ex_iff split: if_splits)
  have "claims_ok d'"
    using ok_parts(2) [OF assms(1)] l new
    by (auto simp: claims_ok_def d' intro!: apart_snocI dest: new)
  with ok_parts(1,3,4) [OF assms(1)] show ?thesis
    by (simp add: db_ok_def packages_ok_def txns_ok_def journal_ok_def d')
qed

lemma ok_DeleteClaimLink:
  assumes "db_ok d" and "DeleteClaimLink p d = Inr d'"
  shows "db_ok d'"
proof -
  from assms(2) have d': "d' = d\<lparr>t_claim_link := filter (\<lambda>l. cl_Path l \<noteq> p) (t_claim_link d)\<rparr>"
    by (simp add: DeleteClaimLink_def)
  have "claims_ok d'"
    using ok_parts(2) [OF assms(1)] by (auto simp: claims_ok_def d' intro!: apart_filter)
  with ok_parts(1,3,4) [OF assms(1)] show ?thesis
    by (simp add: db_ok_def packages_ok_def txns_ok_def journal_ok_def d')
qed

lemma ok_Begin:
  assumes "db_ok d" and "BeginCrossRootTxn v s x d = Inr (n, d')"
  shows "db_ok d'"
proof -
  from assms(2) obtain t where n: "n = Suc (t_txn_sequence d)"
    and d': "d' = d\<lparr>t_txn_sequence := n, t_txn := t_txn d @ [t]\<rparr>" and t: "tx_ID t = n"
    and none: "\<And>u. u \<in> set (t_txn d) \<Longrightarrow> \<not> pending u"
    by (auto simp: BeginCrossRootTxn_def list_ex_iff pending_def Let_def split: if_splits)
  have bound: "tx_ID u < n" if "u \<in> set (t_txn d)" for u
    using ok_parts(3) [OF assms(1)] that by (auto simp: txns_ok_def n less_Suc_eq_le)
  have "apart (\<lambda>t u. tx_ID t = tx_ID u \<or> pending t \<and> pending u) (t_txn d @ [t])"
  proof (rule apart_snocI)
    fix u assume "u \<in> set (t_txn d)"
    from bound [OF this] none [OF this] t
    show "(tx_ID t = tx_ID u \<or> pending t \<and> pending u) \<or> tx_ID u = tx_ID t \<or> pending u \<and> pending t \<Longrightarrow> False"
      by auto
  qed (use ok_parts(3) [OF assms(1)] in \<open>simp add: txns_ok_def\<close>)
  moreover have "\<forall>u\<in>set (t_txn d @ [t]). tx_ID u \<le> n"
    using bound t by (auto intro: less_imp_le)
  ultimately have "txns_ok d'" by (simp add: txns_ok_def d')
  moreover have "journal_ok d'"
    using ok_parts(4) [OF assms(1)] by (auto simp: journal_ok_def d')
  ultimately show ?thesis
    using ok_parts(1,2) [OF assms(1)] by (simp add: db_ok_def packages_ok_def claims_ok_def d')
qed

lemma ok_FinishTxn:
  assumes "db_ok d" and "FinishTxn n st w d = Inr d'"
  shows "db_ok d'"
proof -
  let ?f = "\<lambda>t. if tx_ID t = n \<and> tx_State t = TxnPending
                then t\<lparr>tx_State := st, tx_OpSummary := w\<rparr> else t"
  from assms(2) have d': "d' = d\<lparr>t_txn := map ?f (t_txn d)\<rparr>"
    and st: "st = TxnCommitted \<or> st = TxnRolledBack"
    by (auto simp: FinishTxn_def split: if_splits)
  have id: "tx_ID (?f t) = tx_ID t" and pen: "pending (?f t) \<Longrightarrow> pending t" for t
    using st by (auto simp: pending_def split: if_splits)
  have "apart (\<lambda>t u. tx_ID t = tx_ID u \<or> pending t \<and> pending u) (map ?f (t_txn d))"
    using ok_parts(3) [OF assms(1)]
    by (intro apart_map [where R = "\<lambda>t u. tx_ID t = tx_ID u \<or> pending t \<and> pending u"])
       (auto simp only: txns_ok_def id dest: pen)
  moreover have "\<forall>t\<in>?f ` set (t_txn d). tx_ID t \<le> t_txn_sequence d"
    using ok_parts(3) [OF assms(1)] by (auto simp: txns_ok_def)
  ultimately have "txns_ok d'" by (simp add: txns_ok_def d')
  moreover have "tx_ID ` ?f ` set (t_txn d) = tx_ID ` set (t_txn d)"
    by (simp only: image_image id)
  then have "journal_ok d'"
    using ok_parts(4) [OF assms(1)] by (simp add: journal_ok_def d')
  ultimately show ?thesis
    using ok_parts(1,2) [OF assms(1)] by (simp add: db_ok_def packages_ok_def claims_ok_def d')
qed

lemma ok_DeleteTxn:
  assumes "db_ok d" and "DeleteTxn n d = Inr d'"
  shows "db_ok d'"
proof -
  from assms(2) have d': "d' = d\<lparr>t_txn := filter (\<lambda>t. tx_ID t \<noteq> n) (t_txn d),
      t_payload := filter (\<lambda>p. fst p \<noteq> n) (t_payload d),
      t_txn_op := filter (\<lambda>r. to_TxnID r \<noteq> n) (t_txn_op d),
      t_txn_file := filter (\<lambda>r. tf_TxnID r \<noteq> n) (t_txn_file d),
      t_txn_dir := filter (\<lambda>r. td_TxnID r \<noteq> n) (t_txn_dir d)\<rparr>"
    by (simp add: DeleteTxn_def)
  have "txns_ok d'"
    using ok_parts(3) [OF assms(1)] by (auto simp: txns_ok_def d' intro!: apart_filter)
  moreover have "(\<forall>r\<in>set (t_txn_file d'). txn_file_row r \<and>
      (tf_TxnID r, tf_PackageName r) \<in> (\<lambda>q. (to_TxnID q, to_PackageName q)) ` set (t_txn_op d'))"
    using ok_parts(4) [OF assms(1)] by (fastforce simp: journal_ok_def d')
  moreover have "(\<forall>r\<in>set (t_txn_op d'). txn_op_row r \<and> to_TxnID r \<in> tx_ID ` set (t_txn d'))"
    "(\<forall>r\<in>set (t_txn_dir d'). td_TxnID r \<in> tx_ID ` set (t_txn d'))"
    using ok_parts(4) [OF assms(1)] by (fastforce simp: journal_ok_def d')+
  ultimately show ?thesis
    using ok_parts(1,2,4) [OF assms(1)]
    by (simp add: db_ok_def packages_ok_def claims_ok_def journal_ok_def d' apart_filter)
qed

lemma ok_SetCommitPayload:
  assumes "db_ok d" and "SetCommitPayload n p d = Inr d'"
  shows "db_ok d'"
  using assms
  by (auto simp: SetCommitPayload_def db_ok_def packages_ok_def claims_ok_def txns_ok_def journal_ok_def
      split: if_splits)

lemma ok_InsertTxnOp:
  assumes "db_ok d" and "InsertTxnOp r d = Inr d'"
  shows "db_ok d'"
proof -
  from assms(2) have d': "d' = d\<lparr>t_txn_op := t_txn_op d @ [r]\<rparr>" and row: "txn_op_row r"
    and r: "to_TxnID r \<in> tx_ID ` set (t_txn d)"
    and new: "\<And>q. q \<in> set (t_txn_op d) \<Longrightarrow> \<not> (to_TxnID q = to_TxnID r
                \<and> (to_PackageName q = to_PackageName r \<or> to_Seq q = to_Seq r))"
    by (auto simp: InsertTxnOp_def list_ex_key [of tx_ID] list_ex_iff split: if_splits)
  have "journal_ok d'"
    using ok_parts(4) [OF assms(1)] row r new
    by (auto simp: journal_ok_def d' intro!: apart_snocI dest: new)
  with ok_parts(1-3) [OF assms(1)] show ?thesis
    by (simp add: db_ok_def packages_ok_def claims_ok_def txns_ok_def d')
qed

lemma ok_InsertTxnFile:
  assumes "db_ok d" and "InsertTxnFile r d = Inr d'"
  shows "db_ok d'"
proof -
  from assms(2) have d': "d' = d\<lparr>t_txn_file := t_txn_file d @ [r]\<rparr>" and row: "txn_file_row r"
    and r: "(tf_TxnID r, tf_PackageName r) \<in> (\<lambda>q. (to_TxnID q, to_PackageName q)) ` set (t_txn_op d)"
    and new: "\<And>q. q \<in> set (t_txn_file d) \<Longrightarrow> \<not> (tf_TxnID q = tf_TxnID r
                \<and> (tf_FinalPath q = tf_FinalPath r \<or> tf_Seq q = tf_Seq r))"
    by (auto simp: InsertTxnFile_def list_ex_iff intro!: rev_image_eqI split: if_splits)
  have "journal_ok d'"
    using ok_parts(4) [OF assms(1)] row r new
    by (auto simp: journal_ok_def d' intro!: apart_snocI dest: new)
  with ok_parts(1-3) [OF assms(1)] show ?thesis
    by (simp add: db_ok_def packages_ok_def claims_ok_def txns_ok_def d')
qed

lemma ok_InsertTxnDir:
  assumes "db_ok d" and "InsertTxnDir r d = Inr d'"
  shows "db_ok d'"
proof -
  from assms(2) have d': "d' = d\<lparr>t_txn_dir := t_txn_dir d @ [r]\<rparr>"
    and r: "td_TxnID r \<in> tx_ID ` set (t_txn d)"
    and new: "\<And>q. q \<in> set (t_txn_dir d) \<Longrightarrow> \<not> (td_TxnID q = td_TxnID r
                \<and> (td_Path q = td_Path r \<or> td_Seq q = td_Seq r))"
    by (auto simp: InsertTxnDir_def list_ex_key [of tx_ID] list_ex_iff split: if_splits)
  have "journal_ok d'"
    using ok_parts(4) [OF assms(1)] r new
    by (auto simp: journal_ok_def d' intro!: apart_snocI dest: new)
  with ok_parts(1-3) [OF assms(1)] show ?thesis
    by (simp add: db_ok_def packages_ok_def claims_ok_def txns_ok_def d')
qed

lemmas ok_statements = ok_InsertPackage ok_InsertPackageFile ok_DeletePackage ok_SetClaimHolder
  ok_DeleteClaimHolder ok_InsertClaimLink ok_DeleteClaimLink ok_Begin ok_FinishTxn ok_DeleteTxn
  ok_SetCommitPayload ok_InsertTxnOp ok_InsertTxnFile ok_InsertTxnDir

lemma statements_keep_db_ok: "db_ok d \<Longrightarrow> runStatement st d = Inr d' \<Longrightarrow> db_ok d'"
  by (cases st) (auto simp: rbind_eq_Inr intro: ok_statements)

end
