(* ===== verification/InstallModel.thy ===== *)
theory InstallModel
  imports FileOps ResolverModel
begin

section \<open>The data of a transaction\<close>

text \<open>
  The types of \<open>internal/install\<close> (\<open>execute.go\<close>, \<open>stage.go\<close>, \<open>claims.go\<close>) and what it
  takes from \<open>internal/archive\<close>: a verified package, the plan operation it is staged for, and
  the environment a transaction runs in. What the environment calls outside the repository is
  a field of it: the provider of packages, SHA-256 in hexadecimal, the manifest decoder's JSON
  reader, the operator's decisions, external commands. Progress reports are not modelled, and
  a warning is the values its text is formatted from.
\<close>

datatype EntryType = EntryFile | EntryDir | EntrySymlink

record PayloadEntry =
  pe_Path :: string
  pe_Type :: EntryType
  pe_Size :: int
  pe_LinkTarget :: string
  pe_Hash :: string

record archivePackage =
  ap_Manifest :: Manifest
  ap_ManifestJSON :: string
  ap_Payload :: "PayloadEntry list"

text \<open>\<open>pp_Archive\<close> is what \<open>archive.Extract\<close> hands to its callback, entry by entry.\<close>

record ProvidedPackage =
  pp_Pkg :: archivePackage
  pp_Archive :: "(PayloadEntry \<times> string) list"

datatype ModifiedDecision = ModifiedAbort | ModifiedRemove | ModifiedKeep

record ClaimDirective =
  cd_NoClaim :: bool
  cd_All :: bool
  cd_Roles :: "string list"

record Env =
  e_Root :: string
  e_Provide :: "Operation \<Rightarrow> failure + ProvidedPackage"
  e_PeipkgVersion :: string
  e_RunSideEffects :: bool
  e_Claims :: ClaimDirective
  e_BypassPathRestrictions :: bool
  e_OverwriteUnowned :: bool
  e_SDOverridePolicy :: "(string \<Rightarrow> bool) option"
  e_DecideModified :: "(string \<Rightarrow> string \<Rightarrow> ModifiedDecision) option"
  e_HashHex :: "string \<Rightarrow> string"
  e_DecodeManifest :: "string \<Rightarrow> Manifest option"
  e_Now :: int
  e_Available :: "path \<Rightarrow> (nat \<times> int) option"
  e_ValidateInstallPaths :: "string \<Rightarrow> PayloadEntry list \<Rightarrow> failure + unit"
  e_Run :: "string list \<Rightarrow> bool"

datatype warning =
    WarnInflatedProvides string string version version
  | WarnKeptModified string
  | WarnOverwroteUnowned string string string
  | WarnSharedOwner string string "string list"
  | WarnKeptUnowned string
  | WarnRemovedModified string string
  | WarnBackupLeft string
  | WarnNotReclaimed string
  | WarnClaimWithdrawn string "string list"
  | WarnSideEffect string
  | WarnSideEffectSkipped string string
  | WarnNothingToIndex

record Result =
  res_TxnID :: nat
  res_Warnings :: "warning list"
  res_SDOverrides :: "(string \<times> string) list"

record stagedOp =
  sg_op :: Operation
  sg_fileOps :: "fileOp list"
  sg_createdDirs :: "string list"
  sg_pkg :: "dbPackage option"
  sg_files :: "PackageFile list"
  sg_sideEffects :: "string list"
  sg_warnings :: "warning list"
  sg_sdOverrides :: "(string \<times> string) list"
  sg_stagedAt :: "string gomap"
  sg_removedFiles :: "PackageFile list"
  sg_removedDirs :: "string list"
  sg_untouched :: "string list"

definition emptyStagedOp :: "Operation \<Rightarrow> stagedOp" where
  "emptyStagedOp op =
     \<lparr>sg_op = op, sg_fileOps = [], sg_createdDirs = [], sg_pkg = None, sg_files = [],
      sg_sideEffects = [], sg_warnings = [], sg_sdOverrides = [], sg_stagedAt = [],
      sg_removedFiles = [], sg_removedDirs = [], sg_untouched = []\<rparr>"

record stagedSymlink =
  ss_staged :: string
  ss_target :: string
  ss_dir :: path
  ss_name :: string

record claimWork =
  cw_warnings :: "warning list"
  cw_fileOps :: "fileOp list"
  cw_createdDirs :: "string list"
  cw_stagedSymlinks :: "stagedSymlink list"
  cw_setHolders :: "string gomap"
  cw_delHolders :: "string list"
  cw_delLinks :: "string list"
  cw_insLinks :: "ClaimLink list"

definition emptyClaimWork :: claimWork where
  "emptyClaimWork =
     \<lparr>cw_warnings = [], cw_fileOps = [], cw_createdDirs = [], cw_stagedSymlinks = [],
      cw_setHolders = [], cw_delHolders = [], cw_delLinks = [], cw_insLinks = []\<rparr>"

definition claimWorkEmpty :: "claimWork \<Rightarrow> bool" where
  "claimWorkEmpty w \<longleftrightarrow>
     cw_fileOps w = [] \<and> map_keys (cw_setHolders w) = [] \<and> cw_delHolders w = [] \<and>
     cw_delLinks w = [] \<and> cw_insLinks w = []"

record preparedTxn =
  pt_txnID :: nat
  pt_plan :: "Operation list"
  pt_staged :: "stagedOp list"
  pt_claimW :: claimWork
  pt_claimWarnings :: "warning list"
  pt_ops :: "fileOp list"

definition allFileOps :: "stagedOp list \<Rightarrow> fileOp list" where
  "allFileOps ss = concat (map sg_fileOps ss)"

definition allCreatedDirs :: "stagedOp list \<Rightarrow> string list" where
  "allCreatedDirs ss = concat (map sg_createdDirs ss)"

definition opOriginRepo :: "Operation \<Rightarrow> string" where
  "opOriginRepo op = (case op_Candidate op of Some c \<Rightarrow> c_Repo c | None \<Rightarrow> [])"

definition versionText :: "version option \<Rightarrow> string" where
  "versionText v = (case v of Some v \<Rightarrow> v_raw v | None \<Rightarrow> [])"

end
