(* ===== verification/Journal.thy ===== *)
theory Journal
  imports InstallModel
begin

section \<open>The journal and the package state\<close>

text \<open>
  \<open>internal/install/journal.go\<close> and \<open>payload.go\<close>: what a transaction records before it
  touches a file, how recovery reads it back, and the rows its commit writes, live or from the
  payload a cross-root transaction stores.
\<close>

definition journalSchemaVersion :: nat where
  "journalSchemaVersion = 2"

fun txnOpAction :: "OpKind \<Rightarrow> OpAction" where
  "txnOpAction OpInstall = ActInstall"
| "txnOpAction OpUpgrade = ActUpgrade"
| "txnOpAction OpDowngrade = ActDowngrade"
| "txnOpAction OpRemove = ActRemove"

fun txnFileAction :: "fileAction \<Rightarrow> FileAction" where
  "txnFileAction actionCreate = FileCreate"
| "txnFileAction actionReplace = FileReplace"
| "txnFileAction actionSwap = FileReplace"
| "txnFileAction actionRemove = FileRemove"

fun fileActionFromDB :: "FileAction \<Rightarrow> fileAction" where
  "fileActionFromDB FileCreate = actionCreate"
| "fileActionFromDB FileReplace = actionReplace"
| "fileActionFromDB FileRemove = actionRemove"

definition journalOp :: "nat \<Rightarrow> nat \<times> stagedOp \<Rightarrow> TxnOp" where
  "journalOp txnID = (\<lambda>(i, s).
     \<lparr>to_TxnID = txnID, to_Seq = i, to_PackageName = op_Name (sg_op s),
      to_Action = txnOpAction (op_Kind (sg_op s)),
      to_FromVersion = versionText (op_FromVersion (sg_op s)),
      to_ToVersion = versionText (op_ToVersion (sg_op s)), to_OriginRepo = opOriginRepo (sg_op s)\<rparr>)"

definition journalFile :: "nat \<Rightarrow> nat \<times> string \<times> fileOp \<Rightarrow> TxnFile" where
  "journalFile txnID = (\<lambda>(i, name, fo).
     \<lparr>tf_TxnID = txnID, tf_Seq = i, tf_PackageName = name, tf_FinalPath = fo_finalPath fo,
      tf_Action = txnFileAction (fo_action fo), tf_StagedPath = fo_stagedPath fo,
      tf_BackupPath = fo_backupPath fo\<rparr>)"

definition journalDir :: "nat \<Rightarrow> nat \<times> string \<Rightarrow> TxnDir" where
  "journalDir txnID = (\<lambda>(i, d). \<lparr>td_TxnID = txnID, td_Seq = i, td_Path = d\<rparr>)"

definition namedFileOps :: "stagedOp list \<Rightarrow> (string \<times> fileOp) list" where
  "namedFileOps ss = concat (map (\<lambda>s. map (Pair (op_Name (sg_op s))) (sg_fileOps s)) ss)"

definition writeJournal :: "nat \<Rightarrow> stagedOp list \<Rightarrow> unit act" where
  "writeJournal txnID ss =
     bnd (each (\<lambda>r. exec (InsertTxnOp r)) (map (journalOp txnID) (enumerate 0 ss))) (\<lambda>_.
     bnd (each (\<lambda>r. exec (InsertTxnFile r)) (map (journalFile txnID) (enumerate 0 (namedFileOps ss)))) (\<lambda>_.
     each (\<lambda>r. exec (InsertTxnDir r)) (map (journalDir txnID) (enumerate 0 (allCreatedDirs ss)))))"

subsection \<open>The rows of a commit\<close>

definition insertRows :: "dbPackage option \<Rightarrow> PackageFile list \<Rightarrow> string \<Rightarrow> unit act" where
  "insertRows pkg files name =
     (case pkg of
        None \<Rightarrow> raise (Refused ''no package row'' [name])
      | Some p \<Rightarrow> bnd (exec (InsertPackage p)) (\<lambda>_. each (\<lambda>f. exec (InsertPackageFile f)) files))"

definition applyMetadataOf :: "stagedOp \<Rightarrow> unit act" where
  "applyMetadataOf s =
     (let op = sg_op s in
      if op_Kind op = OpRemove then exec (DeletePackage (op_Name op))
      else bnd (if op_Kind op \<noteq> OpInstall then exec (DeletePackage (op_Name op)) else ret ())
             (\<lambda>_. insertRows (sg_pkg s) (sg_files s) (op_Name op)))"

definition applyMetadata :: "stagedOp list \<Rightarrow> unit act" where
  "applyMetadata ss = each applyMetadataOf ss"

text \<open>Go visits \<open>setHolders\<close> in any order; the rows it leaves are the same.\<close>

definition applyClaimRows ::
    "string list \<Rightarrow> string gomap \<Rightarrow> string list \<Rightarrow> ClaimLink list \<Rightarrow> unit act" where
  "applyClaimRows delHolders setHolders delLinks insLinks =
     bnd (each (\<lambda>role. exec (DeleteClaimHolder role)) delHolders) (\<lambda>_.
     bnd (each (\<lambda>(role, holder). exec (SetClaimHolder role holder)) (map_entries setHolders)) (\<lambda>_.
     bnd (each (\<lambda>path. exec (DeleteClaimLink path)) delLinks) (\<lambda>_.
     each (\<lambda>l. exec (InsertClaimLink l)) insLinks)))"

definition applyClaimMetadata :: "claimWork \<Rightarrow> unit act" where
  "applyClaimMetadata w =
     applyClaimRows (cw_delHolders w) (cw_setHolders w) (cw_delLinks w) (cw_insLinks w)"

subsection \<open>The stored payload\<close>

definition commitPayloadVersion :: nat where
  "commitPayloadVersion = 1"

fun opKindString :: "OpKind \<Rightarrow> string" where
  "opKindString OpInstall = ''install''"
| "opKindString OpUpgrade = ''upgrade''"
| "opKindString OpDowngrade = ''downgrade''"
| "opKindString OpRemove = ''remove''"

definition payloadOpOf :: "stagedOp \<Rightarrow> payloadOp" where
  "payloadOpOf s =
     \<lparr>po_Kind = opKindString (op_Kind (sg_op s)), po_Name = op_Name (sg_op s),
      po_Package = (if op_Kind (sg_op s) \<noteq> OpRemove then sg_pkg s else None),
      po_Files = (if op_Kind (sg_op s) \<noteq> OpRemove then sg_files s else [])\<rparr>"

definition buildCommitPayload :: "stagedOp list \<Rightarrow> claimWork \<Rightarrow> commitPayload" where
  "buildCommitPayload ss w =
     \<lparr>cp_Version = commitPayloadVersion, cp_Ops = map payloadOpOf ss,
      cp_Claims = \<lparr>cc_SetHolders = cw_setHolders w, cc_DelHolders = cw_delHolders w,
                   cc_DelLinks = cw_delLinks w, cc_InsLinks = cw_insLinks w\<rparr>\<rparr>"

definition unmarshalCommitPayload :: "commitPayload \<Rightarrow> failure + commitPayload" where
  "unmarshalCommitPayload cp =
     (if cp_Version cp \<noteq> commitPayloadVersion then Inl (Refused ''commit payload version'' [])
      else Inr cp)"

definition applyPayloadOp :: "payloadOp \<Rightarrow> unit act" where
  "applyPayloadOp op =
     (if po_Kind op = opKindString OpRemove then exec (DeletePackage (po_Name op))
      else bnd (if po_Kind op \<noteq> opKindString OpInstall then exec (DeletePackage (po_Name op)) else ret ())
             (\<lambda>_. insertRows (po_Package op) (po_Files op) (po_Name op)))"

definition applyCommitPayload :: "commitPayload \<Rightarrow> unit act" where
  "applyCommitPayload cp =
     bnd (each applyPayloadOp (cp_Ops cp)) (\<lambda>_.
       applyClaimRows (cc_DelHolders (cp_Claims cp)) (cc_SetHolders (cp_Claims cp))
         (cc_DelLinks (cp_Claims cp)) (cc_InsLinks (cp_Claims cp)))"

text \<open>What a roll-forward writes is what the commit would have written.\<close>

lemma applyPayloadOp_same: "applyPayloadOp (payloadOpOf s) = applyMetadataOf s"
  by (cases "op_Kind (sg_op s)")
     (simp_all add: applyPayloadOp_def applyMetadataOf_def payloadOpOf_def Let_def)

lemma applyCommitPayload_same:
  "applyCommitPayload (buildCommitPayload ss w) =
     bnd (applyMetadata ss) (\<lambda>_. applyClaimMetadata w)"
proof -
  have "each applyPayloadOp (map payloadOpOf ss) = each applyMetadataOf ss"
    by (induction ss) (simp_all add: applyPayloadOp_same)
  then show ?thesis
    by (simp add: applyCommitPayload_def buildCommitPayload_def applyMetadata_def applyClaimMetadata_def)
qed

subsection \<open>Reading the journal back\<close>

definition fileOpFromJournal :: "string \<Rightarrow> TxnFile \<Rightarrow> fileOp act" where
  "fileOpFromJournal root f =
     bnd (existingDirFor root (tf_FinalPath f)) (\<lambda>dir.
       ret \<lparr>fo_finalPath = tf_FinalPath f, fo_action = fileActionFromDB (tf_Action f),
            fo_stagedPath = tf_StagedPath f, fo_backupPath = tf_BackupPath f,
            fo_keepBackup = False, fo_dir = dir\<rparr>)"

definition fileOpsFromJournal :: "string \<Rightarrow> TxnFile list \<Rightarrow> fileOp list act" where
  "fileOpsFromJournal root files = each_map (fileOpFromJournal root) files"

definition countKind :: "OpKind \<Rightarrow> Operation list \<Rightarrow> nat" where
  "countKind k ops = length (filter (\<lambda>op. op_Kind op = k) ops)"

definition operationSummary :: "Operation list \<Rightarrow> string" where
  "operationSummary ops =
     (let parts = List.map_filter (\<lambda>(k, label).
            if countKind k ops > 0 then Some (itoa (countKind k ops) @ '' '' @ label) else None)
          [(OpInstall, ''installed''), (OpUpgrade, ''upgraded''),
           (OpDowngrade, ''downgraded''), (OpRemove, ''removed'')]
      in if parts = [] then ''no changes'' else join '', '' parts)"

subsection \<open>Ending a transaction\<close>

text \<open>
  \<open>finishRolledBack\<close> of \<open>execute.go\<close>: when the reversal fails the row is left pending, for
  recovery to try again.
\<close>

definition finishRolledBack :: "Env \<Rightarrow> nat \<Rightarrow> fileOp list \<Rightarrow> string list \<Rightarrow> string \<Rightarrow> unit act" where
  "finishRolledBack env txnID ops dirs reason =
     bnd (attempt (rollbackOps ops)) (\<lambda>r.
     bnd (attempt (removeCreatedDirs (e_Root env) dirs)) (\<lambda>q.
       case (r, q) of
         (Inr u, Inr v) \<Rightarrow> exec (FinishTxn txnID TxnRolledBack reason)
       | (Inl e, Inr v) \<Rightarrow> raise (Joined [e])
       | (Inr u, Inl e') \<Rightarrow> raise (Joined [e'])
       | (Inl e, Inl e') \<Rightarrow> raise (Joined [e, e'])))"

definition abandon :: "Env \<Rightarrow> nat \<Rightarrow> stagedOp list \<Rightarrow> string \<Rightarrow> unit act" where
  "abandon env txnID ss reason =
     finishRolledBack env txnID (allFileOps ss) (allCreatedDirs ss) reason"

text \<open>An error joined with the one of the rollback it set off.\<close>

definition joining :: "failure \<Rightarrow> unit act \<Rightarrow> failure act" where
  "joining e undo = bnd (attempt undo) (\<lambda>r. ret (case r of Inl e' \<Rightarrow> Joined [e, e'] | Inr u \<Rightarrow> e))"

text \<open>The caller closes the open directories when it is done, on success and on failure.\<close>

definition closing :: "'a act \<Rightarrow> 'a act" where
  "closing a m =
     (case a m of
        (Crashed, m') \<Rightarrow> (Crashed, m')
      | (r, m') \<Rightarrow> (r, snd (closePins m')))"

definition rollbackTxn :: "Env \<Rightarrow> Txn \<Rightarrow> string \<Rightarrow> unit act" where
  "rollbackTxn env txn reason =
     (if tx_JournalSchemaVersion txn > journalSchemaVersion
      then raise (NewerJournal (tx_JournalSchemaVersion txn))
      else
        bnd (query (TxnFiles (tx_ID txn))) (\<lambda>files.
        bnd newPinnedDirs (\<lambda>_.
        closing (
          bnd (fileOpsFromJournal (e_Root env) files) (\<lambda>ops.
          bnd (rollbackOps ops) (\<lambda>_.
          bnd (if tx_JournalSchemaVersion txn \<ge> 2
               then bnd (query (TxnDirs (tx_ID txn))) (removeCreatedDirs (e_Root env))
               else ret ()) (\<lambda>_.
            exec (FinishTxn (tx_ID txn) TxnRolledBack reason))))))))"

definition recoverPending :: "Env \<Rightarrow> unit act" where
  "recoverPending env =
     bnd (query PendingTxn) (\<lambda>found.
       case found of
         None \<Rightarrow> ret ()
       | Some txn \<Rightarrow>
           if tx_CrossRootID txn \<noteq> [] then raise (CrossRootPending (tx_CrossRootID txn))
           else rollbackTxn env txn ''rolled back after an interrupted run'')"

definition rollForwardTxn :: "Env \<Rightarrow> Txn \<Rightarrow> commitPayload \<Rightarrow> unit act" where
  "rollForwardTxn env txn cp =
     (if tx_JournalSchemaVersion txn > journalSchemaVersion
      then raise (NewerJournal (tx_JournalSchemaVersion txn))
      else
        bnd (Tx (bnd (applyCommitPayload cp) (\<lambda>_.
               exec (FinishTxn (tx_ID txn) TxnCommitted ''rolled forward: cross-root recovery'')))) (\<lambda>_.
        bnd (attempt (query (TxnFiles (tx_ID txn)))) (\<lambda>r.
          case r of
            Inl e \<Rightarrow> ret ()
          | Inr files \<Rightarrow>
              bnd (attempt newPinnedDirs) (\<lambda>p.
                case p of
                  Inl e \<Rightarrow> ret ()
                | Inr u \<Rightarrow>
                    closing (bnd (attempt (fileOpsFromJournal (e_Root env) files)) (\<lambda>q.
                      case q of
                        Inl e \<Rightarrow> ret ()
                      | Inr ops \<Rightarrow> bnd (discardBackups ops) (\<lambda>ws. ret ())))))))"

definition Recover :: "Env \<Rightarrow> unit act" where
  "Recover env = withLock (recoverPending env)"

end
