(* ===== verification/Stage.thy ===== *)
theory Stage
  imports Journal
begin

section \<open>Staging\<close>

text \<open>
  \<open>internal/install/stage.go\<close>: what one plan operation contributes to a transaction, worked
  out before anything is written, and the writing of the staged content.
\<close>

definition joinRoot :: "string \<Rightarrow> string \<Rightarrow> string" where
  "joinRoot root p = cleanRooted (root @ ''/'' @ p)"

definition logicalPath :: "PayloadEntry \<Rightarrow> string" where
  "logicalPath e = CHR ''/'' # pe_Path e"

subsection \<open>Signature sidecars\<close>

definition sidecarSuffix :: string where
  "sidecarSuffix = ''.peios.sig''"

definition IsSidecar :: "string \<Rightarrow> bool" where
  "IsSidecar p \<longleftrightarrow>
     has_suffix p sidecarSuffix \<and> length p > length sidecarSuffix \<and>
     \<not> has_suffix p (CHR ''/'' # sidecarSuffix)"

definition sidecarTarget :: "string \<Rightarrow> string" where
  "sidecarTarget p =
     (if has_suffix p sidecarSuffix then take (length p - length sidecarSuffix) p else p)"

definition blobLen :: nat where
  "blobLen = 3310"

definition ValidateBlob :: "string \<Rightarrow> bool" where
  "ValidateBlob blob \<longleftrightarrow> length blob = blobLen \<and> hd blob = CHR 0x01"

definition IsELF :: "string \<Rightarrow> bool" where
  "IsELF content \<longleftrightarrow> has_prefix content (CHR 0x7F # ''ELF'')"

definition isSidecarEntry :: "PayloadEntry \<Rightarrow> bool" where
  "isSidecarEntry e \<longleftrightarrow> pe_Type e = EntryFile \<and> IsSidecar (pe_Path e)"

subsection \<open>Checks of a package\<close>

definition checkSDOverridePolicy :: "Env \<Rightarrow> Operation \<Rightarrow> ProvidedPackage \<Rightarrow> failure + unit" where
  "checkSDOverridePolicy env op pp =
     (let n = length (m_SDOverrides (ap_Manifest (pp_Pkg pp))); repo = opOriginRepo op in
      if n = 0 then Inr ()
      else (case e_SDOverridePolicy env of
              Some policy \<Rightarrow>
                if policy repo then Inr ()
                else Inl (Refused ''security-descriptor overrides'' [op_Name op, repo])
            | None \<Rightarrow> Inl (Refused ''security-descriptor overrides'' [op_Name op, repo])))"

definition checkPayloadLayout :: "Env \<Rightarrow> ProvidedPackage \<Rightarrow> failure + unit" where
  "checkPayloadLayout env pp =
     (let pkg = pp_Pkg pp; special = m_SpecialSystemPackage (ap_Manifest pkg) in
      rbind (rmap_err (\<lambda>e. Refused ''forbidden path'' [m_Name (ap_Manifest pkg)])
        (each_res (\<lambda>e. CheckEntry (pe_Path e) (pe_Type e = EntryDir)) (ap_Payload pkg))) (\<lambda>_.
      if special \<and> e_BypassPathRestrictions env then Inr ()
      else e_ValidateInstallPaths env (m_Architecture (ap_Manifest pkg)) (ap_Payload pkg)))"

definition collidesWith :: "string \<Rightarrow> string list \<Rightarrow> PackageFile list \<Rightarrow> string option" where
  "collidesWith name inTxn owners =
     (case filter (\<lambda>w. w \<noteq> name \<and> w \<notin> set inTxn) (map pf_PackageName owners) of
        [] \<Rightarrow> None | w # ws \<Rightarrow> Some w)"

definition checkPayloadCollision :: "string \<Rightarrow> string list \<Rightarrow> PayloadEntry \<Rightarrow> unit act" where
  "checkPayloadCollision name inTxn entry =
     (if pe_Type entry = EntryDir \<or> isSidecarEntry entry then ret ()
      else bnd (query (FileOwners (logicalPath entry))) (\<lambda>owners.
        case collidesWith name inTxn owners of
          None \<Rightarrow> ret ()
        | Some owner \<Rightarrow> raise (Refused ''path already owned'' [name, logicalPath entry, owner])))"

definition checkPayloadCollisions :: "Operation \<Rightarrow> ProvidedPackage \<Rightarrow> string list \<Rightarrow> unit act" where
  "checkPayloadCollisions op pp inTxn =
     each (checkPayloadCollision (op_Name op) inTxn) (ap_Payload (pp_Pkg pp))"

definition checkClaimLinkCollisions :: "Operation \<Rightarrow> ProvidedPackage \<Rightarrow> unit act" where
  "checkClaimLinkCollisions op pp =
     bnd (query ClaimLinks) (\<lambda>links.
       each (\<lambda>entry.
         if isSidecarEntry entry then ret ()
         else if list_ex (\<lambda>l. cl_Path l = logicalPath entry) links
         then raise (Refused ''claim path'' [op_Name op, logicalPath entry])
         else ret ()) (ap_Payload (pp_Pkg pp)))"

definition checkClaimTargets :: "string \<Rightarrow> ProvidedPackage \<Rightarrow> failure + unit" where
  "checkClaimTargets name pp =
     (let owns = map logicalPath (ap_Payload (pp_Pkg pp)) in
      each_res (\<lambda>prov. each_res (\<lambda>(slot, decl).
          if cs_Target decl = [] \<or> cs_Target decl \<in> set owns then Inr ()
          else Inl (Refused ''claim target'' [name, p_Name prov, slot, cs_Target decl]))
        (map_entries (p_Claims prov)))
      (m_Provides (ap_Manifest (pp_Pkg pp))))"

subsection \<open>What is on disk\<close>

definition isEtcPath :: "string \<Rightarrow> bool" where
  "isEtcPath logical \<longleftrightarrow> has_prefix logical ''/usr/etc/'' \<or> has_prefix logical ''/etc/''"

definition fileHashAt :: "Env \<Rightarrow> path \<Rightarrow> string \<Rightarrow> string act" where
  "fileHashAt env dir name = bnd (readFile dir name) (\<lambda>c. ret (e_HashHex env c))"

definition fileModified :: "Env \<Rightarrow> path \<Rightarrow> string \<Rightarrow> string \<Rightarrow> bool act" where
  "fileModified env dir name recordedHash =
     bnd (fileHashAt env dir name) (\<lambda>h. ret (h \<noteq> recordedHash))"

definition matchesPayload :: "Env \<Rightarrow> path \<Rightarrow> string \<Rightarrow> PayloadEntry \<Rightarrow> bool act" where
  "matchesPayload env dir name entry =
     bnd (Lstat dir name) (\<lambda>info.
       case pe_Type entry of
         EntryFile \<Rightarrow>
           (case info of
              NFile _ _ _ \<Rightarrow> bnd (fileHashAt env dir name) (\<lambda>h. ret (h = pe_Hash entry))
            | _ \<Rightarrow> ret False)
       | EntrySymlink \<Rightarrow>
           (case info of
              NLink _ \<Rightarrow> bnd (Readlink dir name) (\<lambda>target. ret (target = pe_LinkTarget entry))
            | _ \<Rightarrow> ret False)
       | EntryDir \<Rightarrow> ret False)"

text \<open>The rule for content that belongs to no package: whether its backup is kept, and a warning.\<close>

definition unownedPolicy ::
    "Env \<Rightarrow> path \<Rightarrow> string \<Rightarrow> string \<Rightarrow> string \<Rightarrow> PayloadEntry \<Rightarrow> (bool \<times> warning list) act" where
  "unownedPolicy env dir pkgName dest destLogical entry =
     bnd (Exists dir (baseName dest)) (\<lambda>there.
     if \<not> there then ret (False, [])
     else bnd (query (FileOwners destLogical)) (\<lambda>owners.
     if owners \<noteq> [] then ret (False, [])
     else bnd (matchesPayload env dir (baseName dest) entry) (\<lambda>same.
     if same then ret (False, [])
     else if \<not> e_OverwriteUnowned env then raise (Refused ''unowned file'' [pkgName, destLogical])
     else ret (True, [WarnOverwroteUnowned pkgName destLogical
                        (baseName (tempPath dest backupMarker 0))]))))"

subsection \<open>File operations\<close>

definition plannedOp :: "Env \<Rightarrow> string \<Rightarrow> string \<Rightarrow> nat \<Rightarrow> fileOp act" where
  "plannedOp env physical stagedPath txnID =
     bnd (dirFor (e_Root env) physical) (\<lambda>dir.
     bnd (Exists dir (baseName physical)) (\<lambda>there.
       ret \<lparr>fo_finalPath = physical,
            fo_action = (if there then actionReplace else actionCreate),
            fo_stagedPath = stagedPath,
            fo_backupPath = (if there then tempPath physical backupMarker txnID else []),
            fo_keepBackup = False, fo_dir = Some dir\<rparr>))"

definition removalOp :: "Env \<Rightarrow> string \<Rightarrow> path option \<Rightarrow> nat \<Rightarrow> fileOp" where
  "removalOp env physical dir txnID =
     \<lparr>fo_finalPath = physical, fo_action = actionRemove, fo_stagedPath = [],
      fo_backupPath = tempPath physical backupMarker txnID, fo_keepBackup = False, fo_dir = dir\<rparr>"

text \<open>
  \<open>rememberCreatedDirs\<close>: the state of the loop is the directories already planned and those
  this operation adds. It looks for \<open>part\<close> inside the directory that \<open>part\<close> names, not inside
  its parent, as the code does.
\<close>

fun rememberFrom ::
    "string \<Rightarrow> string \<Rightarrow> string list \<Rightarrow> string list \<Rightarrow> string list \<Rightarrow> (string list \<times> string list) act" where
  "rememberFrom root cur [] plannedDirs out = ret (plannedDirs, out)"
| "rememberFrom root cur (part # parts) plannedDirs out =
     (if part = [] \<or> part = ''.'' then rememberFrom root cur parts plannedDirs out
      else
        (let cur' = joinRoot cur part in
         if cur' \<in> set plannedDirs then rememberFrom root cur' parts plannedDirs out
         else bnd (attempt (existingDirFor root (joinRoot cur' ''x''))) (\<lambda>r.
           bnd (case r of Inr (Some d) \<Rightarrow> Exists d part | _ \<Rightarrow> ret False) (\<lambda>there.
             if there then rememberFrom root cur' parts plannedDirs out
             else rememberFrom root cur' parts (cur' # plannedDirs) (out @ [cur'])))))"

definition rememberCreatedDirs ::
    "string \<Rightarrow> string \<Rightarrow> string list \<Rightarrow> string list \<Rightarrow> (string list \<times> string list) act" where
  "rememberCreatedDirs root dir plannedDirs out =
     (let rel = relRooted root dir in
      if rel = ''.'' \<or> has_prefix rel ''..'' then ret (plannedDirs, out)
      else rememberFrom root (cleanRooted root) (split_byte (CHR ''/'') rel) plannedDirs out)"

subsection \<open>A package coming in\<close>

text \<open>
  The loop over the payload keeps the operation built so far, the directories planned by the
  transaction, and the logical paths of the new version.
\<close>

record stageState =
  st_op :: stagedOp
  st_planned :: "string list"
  st_newPaths :: "string list"

definition fileRow :: "string \<Rightarrow> string \<Rightarrow> FileType \<Rightarrow> string \<Rightarrow> string \<Rightarrow> PackageFile" where
  "fileRow name path type hash target =
     \<lparr>pf_PackageName = name, pf_Path = path, pf_Type = type, pf_Hash = hash, pf_SymlinkTarget = target\<rparr>"

definition addRow :: "PackageFile \<Rightarrow> stagedOp \<Rightarrow> stagedOp" where
  "addRow r s = s\<lparr>sg_files := sg_files s @ [r]\<rparr>"

definition warn :: "warning list \<Rightarrow> stagedOp \<Rightarrow> stagedOp" where
  "warn ws s = s\<lparr>sg_warnings := sg_warnings s @ ws\<rparr>"

definition previousFile :: "PackageFile list \<Rightarrow> string \<Rightarrow> PackageFile option" where
  "previousFile existing logical =
     (case List.find (\<lambda>f. pf_Path f = logical) existing of
        Some f \<Rightarrow> if pf_Type f = FileTypeFile then Some f else None
      | None \<Rightarrow> None)"

text \<open>
  A step that fails hands back what has been built so far with its error, because the caller
  undoes that much. \<open>kept\<close> runs a call and stops with the state at hand when it fails.
\<close>

definition kept ::
    "'s \<Rightarrow> 'a act \<Rightarrow> ('a \<Rightarrow> ('s \<times> failure option) act) \<Rightarrow> ('s \<times> failure option) act" where
  "kept s a f = bnd (attempt a) (\<lambda>r. case r of Inl e \<Rightarrow> ret (s, Some e) | Inr x \<Rightarrow> f x)"

definition andThen ::
    "('s \<times> failure option) act \<Rightarrow> ('s \<Rightarrow> ('s \<times> failure option) act) \<Rightarrow> ('s \<times> failure option) act" where
  "andThen a f = bnd a (\<lambda>(s, e). case e of Some e \<Rightarrow> ret (s, Some e) | None \<Rightarrow> f s)"

fun foldKeep ::
    "('a \<Rightarrow> 's \<Rightarrow> ('s \<times> failure option) act) \<Rightarrow> 'a list \<Rightarrow> 's \<Rightarrow> ('s \<times> failure option) act" where
  "foldKeep f [] s = ret (s, None)"
| "foldKeep f (x # xs) s = andThen (f x s) (foldKeep f xs)"

text \<open>
  Content for \<open>dest\<close>, a file or a symlink: the unowned-file rule, the staged sibling, the
  directories it needs, and the operation.
\<close>

definition stageContent ::
    "Env \<Rightarrow> string \<Rightarrow> nat \<Rightarrow> path \<Rightarrow> PayloadEntry \<Rightarrow> string \<Rightarrow> string \<Rightarrow> stageState \<Rightarrow>
     (stageState \<times> failure option) act" where
  "stageContent env name txnID parent entry dest destLogical st =
     kept st (unownedPolicy env parent name dest destLogical entry) (\<lambda>(keep, ws).
     (let stagedAt = tempPath dest stagedMarker txnID; s = warn ws (st_op st) in
      bnd (rememberCreatedDirs (e_Root env) (dirRooted stagedAt) (st_planned st) (sg_createdDirs s))
        (\<lambda>(plan, created).
      (let s1 = s\<lparr>sg_createdDirs := created,
                  sg_stagedAt := map_put (sg_stagedAt s) (logicalPath entry) stagedAt\<rparr>;
           st1 = st\<lparr>st_planned := plan, st_op := s1\<rparr> in
       kept st1 (plannedOp env dest stagedAt txnID) (\<lambda>fo.
         ret (st1\<lparr>st_op := s1\<lparr>sg_fileOps := sg_fileOps s1 @ [fo\<lparr>fo_keepBackup := keep\<rparr>]\<rparr>\<rparr>, None))))))"

definition stageDir ::
    "Env \<Rightarrow> string \<Rightarrow> PayloadEntry \<Rightarrow> stageState \<Rightarrow> (stageState \<times> failure option) act" where
  "stageDir env name entry st =
     bnd (rememberCreatedDirs (e_Root env) (joinRoot (e_Root env) (pe_Path entry)) (st_planned st)
            (sg_createdDirs (st_op st))) (\<lambda>(plan, created).
       ret (st\<lparr>st_planned := plan,
              st_op := addRow (fileRow name (logicalPath entry) FileTypeDir [] [])
                         ((st_op st)\<lparr>sg_createdDirs := created\<rparr>)\<rparr>, None))"

text \<open>The file is as the previous version left it, and still there.\<close>

definition untouchedBy ::
    "Env \<Rightarrow> PackageFile list \<Rightarrow> string list \<Rightarrow> PayloadEntry \<Rightarrow> bool act" where
  "untouchedBy env existing restamped entry =
     (case previousFile existing (logicalPath entry) of
        None \<Rightarrow> ret False
      | Some f \<Rightarrow>
          if pf_Hash f = pe_Hash entry \<and> pe_Hash entry \<noteq> [] \<and> logicalPath entry \<notin> set restamped then
            (let physical = joinRoot (e_Root env) (pe_Path entry) in
             bnd (existingDirFor (e_Root env) physical) (\<lambda>parent.
               case parent of None \<Rightarrow> ret False | Some d \<Rightarrow> Exists d (baseName physical)))
          else ret False)"

text \<open>An operator's edit of a configuration file: the hash of what is there now.\<close>

definition operatorEdit ::
    "Env \<Rightarrow> PackageFile list \<Rightarrow> path \<Rightarrow> string \<Rightarrow> string \<Rightarrow> string option act" where
  "operatorEdit env existing parent physical logical =
     (case previousFile existing logical of
        None \<Rightarrow> ret None
      | Some f \<Rightarrow>
          if \<not> isEtcPath logical then ret None
          else bnd (Exists parent (baseName physical)) (\<lambda>there.
            if \<not> there then ret None
            else bnd (fileModified env parent (baseName physical) (pf_Hash f)) (\<lambda>modified.
              if \<not> modified then ret None
              else bnd (fileHashAt env parent (baseName physical)) (\<lambda>h. ret (Some h)))))"

definition etcNewMarker :: string where
  "etcNewMarker = ''.peipkg-new''"

definition stageFile ::
    "Env \<Rightarrow> string \<Rightarrow> nat \<Rightarrow> PackageFile list \<Rightarrow> string list \<Rightarrow> PayloadEntry \<Rightarrow> stageState \<Rightarrow>
     (stageState \<times> failure option) act" where
  "stageFile env name txnID existing restamped entry st =
     (let logical = logicalPath entry; physical = joinRoot (e_Root env) (pe_Path entry) in
      kept st (untouchedBy env existing restamped entry) (\<lambda>same.
      if same then
        ret (st\<lparr>st_op := addRow (fileRow name logical FileTypeFile (pe_Hash entry) [])
                   ((st_op st)\<lparr>sg_untouched := logical # sg_untouched (st_op st)\<rparr>)\<rparr>, None)
      else kept st (dirFor (e_Root env) physical) (\<lambda>parent.
      kept st (operatorEdit env existing parent physical logical) (\<lambda>edit.
      case edit of
        None \<Rightarrow>
          andThen (stageContent env name txnID parent entry physical logical st) (\<lambda>st'.
            ret (st'\<lparr>st_op := addRow (fileRow name logical FileTypeFile (pe_Hash entry) []) (st_op st')\<rparr>, None))
      | Some h \<Rightarrow>
          andThen (stageContent env name txnID parent entry (physical @ etcNewMarker) (logical @ etcNewMarker)
                 (st\<lparr>st_op := warn [WarnKeptModified logical] (st_op st)\<rparr>)) (\<lambda>st'.
            ret (st'\<lparr>st_newPaths := (logical @ etcNewMarker) # st_newPaths st',
                    st_op := addRow (fileRow name (logical @ etcNewMarker) FileTypeFile (pe_Hash entry) [])
                      (addRow (fileRow name logical FileTypeFile h []) (st_op st'))\<rparr>, None))))))"

definition stageLink ::
    "Env \<Rightarrow> string \<Rightarrow> nat \<Rightarrow> PayloadEntry \<Rightarrow> stageState \<Rightarrow> (stageState \<times> failure option) act" where
  "stageLink env name txnID entry st =
     (let logical = logicalPath entry; physical = joinRoot (e_Root env) (pe_Path entry) in
      kept st (dirFor (e_Root env) physical) (\<lambda>parent.
      andThen (stageContent env name txnID parent entry physical logical st) (\<lambda>st'.
        ret (st'\<lparr>st_op := addRow (fileRow name logical FileTypeSymlink [] (pe_LinkTarget entry)) (st_op st')\<rparr>, None))))"

definition stageEntry ::
    "Env \<Rightarrow> string \<Rightarrow> nat \<Rightarrow> PackageFile list \<Rightarrow> string list \<Rightarrow> PayloadEntry \<Rightarrow> stageState \<Rightarrow>
     (stageState \<times> failure option) act" where
  "stageEntry env name txnID existing restamped entry st =
     (if isSidecarEntry entry then ret (st, None)
      else
        (let st' = st\<lparr>st_newPaths := logicalPath entry # st_newPaths st\<rparr> in
         case pe_Type entry of
           EntryDir \<Rightarrow> stageDir env name entry st'
         | EntryFile \<Rightarrow> stageFile env name txnID existing restamped entry st'
         | EntrySymlink \<Rightarrow> stageLink env name txnID entry st'))"

fun foldAct :: "('a \<Rightarrow> 's \<Rightarrow> 's act) \<Rightarrow> 'a list \<Rightarrow> 's \<Rightarrow> 's act" where
  "foldAct f [] s = ret s"
| "foldAct f (x # xs) s = bnd (f x s) (foldAct f xs)"

text \<open>What the previous version owned and the new one does not.\<close>

definition releaseRow ::
    "Env \<Rightarrow> nat \<Rightarrow> string list \<Rightarrow> PackageFile \<Rightarrow> stagedOp \<Rightarrow> (stagedOp \<times> failure option) act" where
  "releaseRow env txnID newPaths f s =
     (if pf_Path f \<in> set newPaths then ret (s, None)
      else if pf_Type f = FileTypeDir then
        ret (s\<lparr>sg_removedDirs := sg_removedDirs s @ [pf_Path f]\<rparr>, None)
      else
        (let physical = joinRoot (e_Root env) (pf_Path f) in
         kept s (existingDirFor (e_Root env) physical) (\<lambda>dir.
           ret (s\<lparr>sg_fileOps := sg_fileOps s @ [removalOp env physical dir txnID]\<rparr>, None))))"

definition restampedPaths :: "ProvidedPackage \<Rightarrow> string list" where
  "restampedPaths pp =
     map (\<lambda>e. CHR ''/'' # sidecarTarget (pe_Path e)) (filter isSidecarEntry (ap_Payload (pp_Pkg pp)))
     @ map (\<lambda>ov. CHR ''/'' # so_Path ov) (m_SDOverrides (ap_Manifest (pp_Pkg pp)))"

definition inflatedProvides :: "string \<Rightarrow> Manifest \<Rightarrow> warning list" where
  "inflatedProvides name m =
     List.map_filter (\<lambda>prov.
       case p_Version prov of
         Some v \<Rightarrow> if Compare v (m_Version m) > 0
                   then Some (WarnInflatedProvides name (p_Name prov) v (m_Version m)) else None
       | None \<Rightarrow> None) (m_Provides m)"

fun sideEffectName :: "SideEffect \<Rightarrow> string" where
  "sideEffectName SideEffectDepmod = ''depmod''"
| "sideEffectName SideEffectManDB = ''man-db''"

definition liftRes :: "failure + 'a \<Rightarrow> 'a act" where
  "liftRes r = (case r of Inl e \<Rightarrow> raise e | Inr x \<Rightarrow> ret x)"

definition packageChecks :: "Env \<Rightarrow> Operation \<Rightarrow> ProvidedPackage \<Rightarrow> string list \<Rightarrow> PackageFile list act" where
  "packageChecks env op pp inTxn =
     bnd (liftRes (checkPayloadLayout env pp)) (\<lambda>_.
     bnd (liftRes (checkSDOverridePolicy env op pp)) (\<lambda>_.
     bnd (checkPayloadCollisions op pp inTxn) (\<lambda>_.
     bnd (checkClaimLinkCollisions op pp) (\<lambda>_.
     bnd (liftRes (checkClaimTargets (op_Name op) pp)) (\<lambda>_.
       if op_Kind op \<noteq> OpInstall then query (PackageFiles (op_Name op)) else ret [])))))"

definition finishPackage :: "Env \<Rightarrow> Operation \<Rightarrow> ProvidedPackage \<Rightarrow> stagedOp \<Rightarrow> stagedOp" where
  "finishPackage env op pp s =
     s\<lparr>sg_pkg := Some \<lparr>dp_Name = op_Name op, dp_Version = versionText (op_ToVersion op),
          dp_Architecture = m_Architecture (ap_Manifest (pp_Pkg pp)), dp_OriginRepo = opOriginRepo op,
          dp_InstalledAt = e_Now env, dp_Manifest = ap_ManifestJSON (pp_Pkg pp)\<rparr>,
       sg_sideEffects := map sideEffectName (m_SideEffects (ap_Manifest (pp_Pkg pp)))\<rparr>"

text \<open>The pair is the operation and the directories planned by the transaction.\<close>

definition preparePackage ::
    "Env \<Rightarrow> nat \<Rightarrow> Operation \<Rightarrow> ProvidedPackage \<Rightarrow> string list \<Rightarrow> string list \<Rightarrow>
     ((stagedOp \<times> string list) \<times> failure option) act" where
  "preparePackage env txnID op pp plannedDirs inTxn =
     (let name = op_Name op; m = ap_Manifest (pp_Pkg pp);
          s0 = (emptyStagedOp op)\<lparr>sg_sdOverrides := map (\<lambda>ov. (name, CHR ''/'' # so_Path ov)) (m_SDOverrides m),
                                  sg_warnings := inflatedProvides name m\<rparr> in
      kept (s0, plannedDirs) (packageChecks env op pp inTxn) (\<lambda>existing.
      bnd (foldKeep (stageEntry env name txnID existing (restampedPaths pp)) (ap_Payload (pp_Pkg pp))
             \<lparr>st_op = s0, st_planned = plannedDirs, st_newPaths = []\<rparr>) (\<lambda>(st, err).
      case err of
        Some e \<Rightarrow> ret ((st_op st, st_planned st), Some e)
      | None \<Rightarrow>
          bnd (foldKeep (releaseRow env txnID (st_newPaths st)) existing (st_op st)) (\<lambda>(s, err).
          case err of
            Some e \<Rightarrow> ret ((s, st_planned st), Some e)
          | None \<Rightarrow> ret ((finishPackage env op pp s, st_planned st), None)))))"

subsection \<open>A package going out\<close>

definition otherOwners :: "PackageFile list \<Rightarrow> string \<Rightarrow> string list" where
  "otherOwners owners pkg = filter (\<lambda>w. w \<noteq> pkg) (map pf_PackageName owners)"

datatype removalChoice = RemovePlain | RemoveKeepingBackup | LeaveInPlace

definition modifiedChoice :: "Env \<Rightarrow> string \<Rightarrow> PackageFile \<Rightarrow> path option \<Rightarrow> string \<Rightarrow> removalChoice act" where
  "modifiedChoice env name f dir physical =
     (case dir of
        None \<Rightarrow> ret RemovePlain
      | Some d \<Rightarrow>
          if pf_Type f \<noteq> FileTypeFile \<or> \<not> isEtcPath (pf_Path f) then ret RemovePlain
          else bnd (Exists d (baseName physical)) (\<lambda>there.
            if \<not> there then ret RemovePlain
            else bnd (fileModified env d (baseName physical) (pf_Hash f)) (\<lambda>modified.
              if \<not> modified then ret RemovePlain
              else (case (case e_DecideModified env of Some decide \<Rightarrow> decide name (pf_Path f)
                                                      | None \<Rightarrow> ModifiedAbort) of
                      ModifiedKeep \<Rightarrow> ret LeaveInPlace
                    | ModifiedRemove \<Rightarrow> ret RemoveKeepingBackup
                    | ModifiedAbort \<Rightarrow> raise (Refused ''modified file'' [name, pf_Path f])))))"

definition stageRemovedFile ::
    "Env \<Rightarrow> string \<Rightarrow> nat \<Rightarrow> PackageFile \<Rightarrow> stagedOp \<Rightarrow> (stagedOp \<times> failure option) act" where
  "stageRemovedFile env name txnID f s =
     (if pf_Type f = FileTypeDir then
        ret (s\<lparr>sg_removedDirs := sg_removedDirs s @ [pf_Path f]\<rparr>, None)
      else kept s (query (FileOwners (pf_Path f))) (\<lambda>owners.
        (let others = otherOwners owners name; physical = joinRoot (e_Root env) (pf_Path f) in
         if others \<noteq> [] then ret (warn [WarnSharedOwner (pf_Path f) name others] s, None)
         else kept s (existingDirFor (e_Root env) physical) (\<lambda>dir.
           (let fo = removalOp env physical dir txnID in
            kept s (modifiedChoice env name f dir physical) (\<lambda>choice.
              ret (case choice of
                     LeaveInPlace \<Rightarrow> warn [WarnKeptUnowned (pf_Path f)] s
                   | RemovePlain \<Rightarrow> s\<lparr>sg_fileOps := sg_fileOps s @ [fo]\<rparr>
                   | RemoveKeepingBackup \<Rightarrow>
                       warn [WarnRemovedModified (pf_Path f) (baseName (tempPath physical backupMarker 0))]
                         (s\<lparr>sg_fileOps := sg_fileOps s @ [fo\<lparr>fo_keepBackup := True\<rparr>]\<rparr>), None)))))))"

definition storedSideEffects :: "Env \<Rightarrow> dbPackage option \<Rightarrow> string list" where
  "storedSideEffects env found =
     (case found of
        None \<Rightarrow> []
      | Some pkg \<Rightarrow>
          (case e_DecodeManifest env (dp_Manifest pkg) of
             None \<Rightarrow> []
           | Some m \<Rightarrow> map sideEffectName (m_SideEffects m)))"

definition stageRemoval :: "Env \<Rightarrow> nat \<Rightarrow> Operation \<Rightarrow> (stagedOp \<times> failure option) act" where
  "stageRemoval env txnID op =
     (let s = emptyStagedOp op in
      kept s (query (GetPackage (op_Name op))) (\<lambda>found.
      (let s1 = s\<lparr>sg_sideEffects := storedSideEffects env found\<rparr> in
       kept s1 (query (PackageFiles (op_Name op))) (\<lambda>files.
         foldKeep (stageRemovedFile env (op_Name op) txnID) files (s1\<lparr>sg_removedFiles := files\<rparr>)))))"

definition prepareOperation ::
    "Env \<Rightarrow> nat \<Rightarrow> ProvidedPackage gomap \<Rightarrow> string list \<Rightarrow> Operation \<Rightarrow> string list \<Rightarrow>
     ((stagedOp \<times> string list) \<times> failure option) act" where
  "prepareOperation env txnID provided inTxn op plannedDirs =
     (if op_Kind op = OpRemove then
        bnd (stageRemoval env txnID op) (\<lambda>(s, err). ret ((s, plannedDirs), err))
      else (case map_get provided (op_Name op) of
              None \<Rightarrow> ret ((emptyStagedOp op, plannedDirs), Some (Refused ''not provided'' [op_Name op]))
            | Some pp \<Rightarrow> preparePackage env txnID op pp plannedDirs inTxn))"

subsection \<open>Writing the staged content\<close>

text \<open>
  The loop over the archive keeps the signatures collected and the staged paths written, by
  archive path. A package that changed after it was verified is not modelled: the archive's
  entries are those of the payload.
\<close>

definition writeStagedFile :: "path \<Rightarrow> string \<Rightarrow> string \<Rightarrow> string \<Rightarrow> unit act" where
  "writeStagedFile dir name content descriptor =
     bnd (CreateWithSD dir name descriptor) (\<lambda>_. WriteAll dir name content)"

type_synonym materialState = "string gomap \<times> string gomap"

definition addSidecar :: "string \<Rightarrow> string \<Rightarrow> materialState \<Rightarrow> materialState act" where
  "addSidecar entryPath blob = (\<lambda>(sidecars, written).
     if ValidateBlob blob then ret (map_put sidecars (sidecarTarget entryPath) blob, written)
     else raise (WrongBlob entryPath))"

definition overrideFor :: "Manifest \<Rightarrow> string \<Rightarrow> string" where
  "overrideFor m p =
     (case map_get (map_put_all so_Path so_SD [] (m_SDOverrides m)) p of Some sd \<Rightarrow> sd | None \<Rightarrow> [])"

definition materializeEntry ::
    "Env \<Rightarrow> stagedOp \<Rightarrow> Manifest \<Rightarrow> PayloadEntry \<times> string \<Rightarrow> materialState \<Rightarrow> materialState act" where
  "materializeEntry env s m = (\<lambda>(entry, content) st.
     case pe_Type entry of
       EntryDir \<Rightarrow>
         bnd (mkdirAllAbs (e_Root env) (joinRoot (e_Root env) (pe_Path entry))) (\<lambda>d. ret st)
     | EntryFile \<Rightarrow>
         if IsSidecar (pe_Path entry) then addSidecar (pe_Path entry) content st
         else if logicalPath entry \<in> set (sg_untouched s) then ret st
         else (case map_get (sg_stagedAt s) (logicalPath entry) of
                 None \<Rightarrow> raise (NoStagedPath (pe_Path entry))
               | Some stagedAt \<Rightarrow>
                   bnd (dirFor (e_Root env) stagedAt) (\<lambda>dir.
                   bnd (writeStagedFile dir (baseName stagedAt) content (overrideFor m (pe_Path entry))) (\<lambda>_.
                     ret (fst st, map_put (snd st) (pe_Path entry) stagedAt))))
     | EntrySymlink \<Rightarrow>
         (case map_get (sg_stagedAt s) (logicalPath entry) of
            None \<Rightarrow> raise (NoStagedPath (pe_Path entry))
          | Some stagedAt \<Rightarrow>
              bnd (dirFor (e_Root env) stagedAt) (\<lambda>dir.
              bnd (Symlink dir (pe_LinkTarget entry) (baseName stagedAt)) (\<lambda>_. ret st))))"

text \<open>
  \<open>Sidecars.ApplyWith\<close>: the target must have been written and be no ELF file; the attribute
  is set on the staged file, by its path.
\<close>

definition stampSidecar :: "Env \<Rightarrow> string gomap \<Rightarrow> string \<times> string \<Rightarrow> unit act" where
  "stampSidecar env written = (\<lambda>(target, blob).
     case map_get written target of
       None \<Rightarrow> raise (WrongBlob target)
     | Some stagedAt \<Rightarrow>
         bnd (existingDirFor (e_Root env) stagedAt) (\<lambda>dir.
           case dir of
             None \<Rightarrow> raise ENOENT
           | Some d \<Rightarrow>
               bnd (readFile d (baseName stagedAt)) (\<lambda>content.
                 if IsELF content then raise (WrongBlob target)
                 else Setxattr d (baseName stagedAt) (signedNode blob))))"

definition materializePackage :: "Env \<Rightarrow> stagedOp \<Rightarrow> ProvidedPackage \<Rightarrow> unit act" where
  "materializePackage env s pp =
     bnd (foldAct (materializeEntry env s (ap_Manifest (pp_Pkg pp))) (pp_Archive pp) ([], [])) (\<lambda>(sidecars, written).
       each (stampSidecar env written) (map_entries sidecars))"

end
