(* ===== verification/ClaimPlan.thy ===== *)
theory ClaimPlan
  imports Stage
begin

section \<open>Claims of a transaction\<close>

text \<open>
  \<open>internal/install/claims.go\<close>: who holds which role after the transaction, the links that
  follow from it, and the file operations and rows that bring them about.
\<close>

definition toClaimsLinks :: "ClaimLink list \<Rightarrow> Link list" where
  "toClaimsLinks rows =
     map (\<lambda>r. \<lparr>l_Path = cl_Path r, l_Role = cl_Role r, l_Slot = cl_Slot r, l_Target = cl_Target r\<rparr>) rows"

subsection \<open>The state after the transaction\<close>

definition applyManifest ::
    "ProvidedPackage gomap \<Rightarrow> Operation \<Rightarrow> Manifest gomap \<Rightarrow> failure + Manifest gomap" where
  "applyManifest provided op manifests =
     (if op_Kind op = OpRemove then Inr (map_del manifests (op_Name op))
      else (case map_get provided (op_Name op) of
              None \<Rightarrow> Inl (Refused ''not provided'' [op_Name op])
            | Some pp \<Rightarrow> Inr (map_put manifests (op_Name op) (ap_Manifest (pp_Pkg pp)))))"

definition storedManifests :: "Env \<Rightarrow> dbPackage list \<Rightarrow> Manifest gomap" where
  "storedManifests env pkgs =
     foldl (\<lambda>manifests p. case e_DecodeManifest env (dp_Manifest p) of
                         None \<Rightarrow> manifests | Some m \<Rightarrow> map_put manifests (dp_Name p) m) [] pkgs"

definition postInstalledManifests ::
    "Env \<Rightarrow> Operation list \<Rightarrow> ProvidedPackage gomap \<Rightarrow> claimsInstalled list act" where
  "postInstalledManifests env ops provided =
     bnd (query ListPackages) (\<lambda>pkgs.
     bnd (liftRes (fold_res (applyManifest provided) ops (storedManifests env pkgs))) (\<lambda>manifests.
       ret (map (\<lambda>(n, m). \<lparr>ci_Name = n, ci_Manifest = m\<rparr>) (map_entries manifests))))"

definition payloadRow :: "string \<Rightarrow> PayloadEntry \<Rightarrow> PackageFile" where
  "payloadRow name e =
     fileRow name (logicalPath e)
       (case pe_Type e of EntryFile \<Rightarrow> FileTypeFile | EntryDir \<Rightarrow> FileTypeDir
                        | EntrySymlink \<Rightarrow> FileTypeSymlink) (pe_Hash e) []"

definition ownPayload ::
    "ProvidedPackage gomap \<Rightarrow> PackageFile gomap \<Rightarrow> Operation \<Rightarrow> PackageFile gomap" where
  "ownPayload provided owned op =
     (if op_Kind op = OpRemove then owned
      else (case map_get provided (op_Name op) of
              None \<Rightarrow> owned
            | Some pp \<Rightarrow>
                map_put_all pf_Path (\<lambda>f. f) owned
                  (map (payloadRow (op_Name op))
                    (filter (\<lambda>e. \<not> isSidecarEntry e) (ap_Payload (pp_Pkg pp))))))"

definition postTransactionOwnership ::
    "Operation list \<Rightarrow> ProvidedPackage gomap \<Rightarrow> PackageFile gomap act" where
  "postTransactionOwnership ops provided =
     bnd (query ListPackages) (\<lambda>pkgs.
     bnd (each_map (\<lambda>p. query (PackageFiles (dp_Name p)))
            (filter (\<lambda>p. dp_Name p \<notin> set (map op_Name ops)) pkgs)) (\<lambda>files.
       ret (foldl (ownPayload provided) (map_put_all pf_Path (\<lambda>f. f) [] (concat files)) ops)))"

subsection \<open>Holders\<close>

definition holderMap :: "ClaimHolder list \<Rightarrow> string gomap" where
  "holderMap hs = map_put_all ch_Role ch_Holder [] hs"

definition keepHolders :: "string list \<Rightarrow> string gomap \<Rightarrow> string gomap" where
  "keepHolders removing current =
     filter (\<lambda>(role, holder). holder \<notin> set removing) (map_entries current)"

text \<open>Of two packages that provide a role in one transaction the smaller name wins.\<close>

definition offerRole :: "string \<Rightarrow> string gomap \<Rightarrow> string \<Rightarrow> string gomap" where
  "offerRole name providerOf role =
     (case map_get providerOf role of
        None \<Rightarrow> map_put providerOf role name
      | Some cur \<Rightarrow> if name < cur then map_put providerOf role name else providerOf)"

definition offerRoles ::
    "ProvidedPackage gomap \<Rightarrow> string gomap \<Rightarrow> Operation \<Rightarrow> string gomap" where
  "offerRoles provided providerOf op =
     (if op_Kind op = OpRemove then providerOf
      else (case map_get provided (op_Name op) of
              None \<Rightarrow> providerOf
            | Some pp \<Rightarrow> foldl (offerRole (op_Name op)) providerOf (ProvidedRoles (ap_Manifest (pp_Pkg pp)))))"

definition claimRoleFor :: "ClaimDirective \<Rightarrow> string gomap \<Rightarrow> string \<times> string \<Rightarrow> string gomap" where
  "claimRoleFor dir post = (\<lambda>(role, pkg).
     if cd_All dir \<or> role \<in> set (cd_Roles dir) then map_put post role pkg
     else if cd_NoClaim dir then post
     else if map_get post role = None then map_put post role pkg
     else post)"

definition computePost ::
    "string gomap \<Rightarrow> Operation list \<Rightarrow> ProvidedPackage gomap \<Rightarrow> ClaimDirective \<Rightarrow> failure + string gomap" where
  "computePost current ops provided dir =
     (let removing = map op_Name (filter (\<lambda>op. op_Kind op = OpRemove) ops);
          providerOf = foldl (offerRoles provided) [] ops in
      case filter (\<lambda>role. map_get providerOf role = None) (cd_Roles dir) of
        role # rest \<Rightarrow> Inl (Refused ''role not provided'' [role])
      | [] \<Rightarrow> Inr (foldl (claimRoleFor dir) (keepHolders removing current) (map_entries providerOf)))"

definition computeHolders ::
    "Operation list \<Rightarrow> ProvidedPackage gomap \<Rightarrow> ClaimDirective \<Rightarrow> (string gomap \<times> string gomap) act" where
  "computeHolders ops provided dir =
     bnd (query ClaimHolders) (\<lambda>hs.
     bnd (liftRes (computePost (holderMap hs) ops provided dir)) (\<lambda>post. ret (holderMap hs, post)))"

definition lostRoles :: "string gomap \<Rightarrow> string gomap \<Rightarrow> string list" where
  "lostRoles current post = filter (\<lambda>role. map_get post role = None) (map_keys current)"

definition withdrawalWarnings :: "string gomap \<Rightarrow> string gomap \<Rightarrow> claimsInstalled list \<Rightarrow> warning list" where
  "withdrawalWarnings current post installed =
     List.map_filter (\<lambda>role.
       let providers = map ci_Name (filter (\<lambda>p. EligibleProvider (ci_Manifest p) role) installed)
       in if providers = [] then None else Some (WarnClaimWithdrawn role providers))
       (lostRoles current post)"

subsection \<open>The work\<close>

definition collidingLink :: "PackageFile gomap \<Rightarrow> Link \<Rightarrow> failure + unit" where
  "collidingLink owned l =
     (case map_get owned (l_Path l) of
        None \<Rightarrow> Inr ()
      | Some f \<Rightarrow> Inl (Refused ''claim path owned'' [l_Path l, l_Role l, pf_PackageName f]))"

definition linkEntry :: "string \<Rightarrow> PayloadEntry" where
  "linkEntry target =
     \<lparr>pe_Path = [], pe_Type = EntrySymlink, pe_Size = 0, pe_LinkTarget = target, pe_Hash = []\<rparr>"

text \<open>A link at a path no claim had yet: the unowned-file rule, and adoption of an equal link.\<close>

definition newLinkPolicy ::
    "Env \<Rightarrow> string \<Rightarrow> Link \<Rightarrow> string \<Rightarrow> string \<Rightarrow> fileOp \<Rightarrow> (bool \<times> bool) act" where
  "newLinkPolicy env holder l physical target fo =
     bnd (unownedPolicy env (the (fo_dir fo)) holder physical (l_Path l) (linkEntry target)) (\<lambda>(keep, ws).
     if keep \<or> fo_action fo \<noteq> actionReplace then ret (keep, False)
     else bnd (query (FileOwners (l_Path l))) (\<lambda>owners.
       if owners \<noteq> [] then ret (keep, False)
       else bnd (matchesPayload env (the (fo_dir fo)) (baseName physical) (linkEntry target)) (\<lambda>same.
         ret (keep, same))))"

definition stageClaimLink ::
    "Env \<Rightarrow> string gomap \<Rightarrow> nat \<Rightarrow> bool \<times> Link \<Rightarrow> claimWork \<times> string list \<Rightarrow>
     (claimWork \<times> string list) act" where
  "stageClaimLink env post txnID = (\<lambda>(isNew, l) (w, plannedDirs).
     (let physical = joinRoot (e_Root env) (l_Path l);
          stagedAt = tempPath physical stagedMarker txnID;
          target = RelativeTarget l;
          holder = (case map_get post (l_Role l) of Some h \<Rightarrow> h | None \<Rightarrow> []) in
      bnd (rememberCreatedDirs (e_Root env) (dirRooted stagedAt) plannedDirs (cw_createdDirs w))
        (\<lambda>(plan, created).
      bnd (plannedOp env physical stagedAt txnID) (\<lambda>fo.
      bnd (if isNew then newLinkPolicy env holder l physical target fo else ret (False, False)) (\<lambda>(keep, adopt).
        (let w1 = w\<lparr>cw_createdDirs := created,
                    cw_warnings := cw_warnings w @
                      (if keep then [WarnOverwroteUnowned holder (l_Path l) (fo_backupPath fo)] else [])\<rparr>;
             fo1 = fo\<lparr>fo_keepBackup := keep,
                      fo_action := (if fo_action fo = actionReplace then actionSwap else fo_action fo)\<rparr> in
         ret (if adopt then (w1, plan)
              else (w1\<lparr>cw_stagedSymlinks := cw_stagedSymlinks w1 @
                         [\<lparr>ss_staged = stagedAt, ss_target = target, ss_dir = the (fo_dir fo),
                           ss_name = baseName stagedAt\<rparr>],
                       cw_fileOps := cw_fileOps w1 @ [fo1]\<rparr>, plan))))))))"

definition removeClaimLink :: "Env \<Rightarrow> nat \<Rightarrow> Link \<Rightarrow> claimWork \<Rightarrow> claimWork act" where
  "removeClaimLink env txnID l w =
     (let physical = joinRoot (e_Root env) (l_Path l) in
      bnd (existingDirFor (e_Root env) physical) (\<lambda>d.
        ret (w\<lparr>cw_fileOps := cw_fileOps w @ [removalOp env physical d txnID]\<rparr>)))"

definition reconcileClaims ::
    "Env \<Rightarrow> Operation list \<Rightarrow> ProvidedPackage gomap \<Rightarrow> claimsInstalled list \<Rightarrow> string gomap \<Rightarrow>
     string gomap \<Rightarrow> nat \<Rightarrow> string list \<Rightarrow> claimWork act" where
  "reconcileClaims env ops provided installed current post txnID plannedDirs =
     bnd (liftRes (rmap_err (\<lambda>e. Refused ''claims'' []) (Desired installed post))) (\<lambda>desired.
     bnd (postTransactionOwnership ops provided) (\<lambda>owned.
     bnd (liftRes (each_res (collidingLink owned) desired)) (\<lambda>_.
     bnd (query ClaimLinks) (\<lambda>actual.
     (let rec = Reconcile (toClaimsLinks actual) desired;
          w = emptyClaimWork\<lparr>cw_setHolders := post, cw_delHolders := lostRoles current post\<rparr> in
      bnd (foldAct (stageClaimLink env post txnID)
             (map (Pair True) (cp_Create rec) @ map (Pair False) (cp_Repoint rec)) (w, plannedDirs)) (\<lambda>(w1, plan).
      bnd (foldAct (removeClaimLink env txnID) (cp_Remove rec) w1) (\<lambda>w2.
        ret (w2\<lparr>cw_delLinks := map cl_Path actual,
                cw_insLinks := map (\<lambda>l. \<lparr>cl_Path = l_Path l, cl_Role = l_Role l, cl_Slot = l_Slot l,
                                         cl_Target = l_Target l\<rparr>) desired\<rparr>))))))))"

definition planClaims ::
    "Env \<Rightarrow> Operation list \<Rightarrow> ProvidedPackage gomap \<Rightarrow> ClaimDirective \<Rightarrow> nat \<Rightarrow> string list \<Rightarrow>
     (claimWork \<times> warning list) act" where
  "planClaims env ops provided dir txnID plannedDirs =
     bnd (postInstalledManifests env ops provided) (\<lambda>installed.
     bnd (computeHolders ops provided dir) (\<lambda>(current, post).
     bnd (reconcileClaims env ops provided installed current post txnID plannedDirs) (\<lambda>w.
       ret (w, cw_warnings w @ withdrawalWarnings current post installed))))"

definition materializeClaims :: "claimWork \<Rightarrow> unit act" where
  "materializeClaims w =
     each (\<lambda>ss. Symlink (ss_dir ss) (ss_target ss) (ss_name ss)) (cw_stagedSymlinks w)"

end
