(* ===== verification/Execute.thy ===== *)
theory Execute
  imports ClaimPlan
begin

section \<open>Executing a plan in one root\<close>

text \<open>
  \<open>internal/install/execute.go\<close>, \<open>space.go\<close>, \<open>reclaim.go\<close> and \<open>sideeffects.go\<close>: fetching, preparing, applying, committing and
  finishing one transaction, and recovering an interrupted one. A function that returns a
  result together with an error returns the pair here.
\<close>

subsection \<open>Fetching\<close>

definition provideOne ::
    "Env \<Rightarrow> Operation \<Rightarrow> ProvidedPackage gomap \<Rightarrow> ProvidedPackage gomap act" where
  "provideOne env op provided =
     (if op_Kind op = OpRemove then ret provided
      else bnd (perform (\<lambda>m. rbind (e_Provide env op) (\<lambda>pp. Inr (pp, m)))) (\<lambda>pp.
        ret (map_put provided (op_Name op) pp)))"

definition provideAll :: "Env \<Rightarrow> Operation list \<Rightarrow> ProvidedPackage gomap act" where
  "provideAll env ops = foldAct (provideOne env) ops []"

definition incoming :: "ProvidedPackage gomap \<Rightarrow> Operation list \<Rightarrow> (Operation \<times> ProvidedPackage) list" where
  "incoming provided ops =
     List.map_filter (\<lambda>op. if op_Kind op = OpRemove then None
                           else map_option (Pair op) (map_get provided (op_Name op))) ops"

subsection \<open>Checks before the journal is opened\<close>

definition addDescriptor ::
    "string list \<Rightarrow> SDOverride \<Rightarrow> string gomap \<Rightarrow> failure + string gomap" where
  "addDescriptor dirs ov sds =
     (if so_Path ov \<notin> set dirs then Inr sds
      else (case map_get sds (so_Path ov) of
              Some prior \<Rightarrow>
                if prior \<noteq> so_SD ov then Inl (Refused ''conflicting directory descriptors'' [so_Path ov])
                else Inr (map_put sds (so_Path ov) (so_SD ov))
            | None \<Rightarrow> Inr (map_put sds (so_Path ov) (so_SD ov))))"

definition packageDescriptors ::
    "Env \<Rightarrow> Operation \<times> ProvidedPackage \<Rightarrow> string gomap \<Rightarrow> failure + string gomap" where
  "packageDescriptors env = (\<lambda>(op, pp) sds.
     rbind (checkPayloadLayout env pp) (\<lambda>_.
     rbind (checkSDOverridePolicy env op pp) (\<lambda>_.
       fold_res (addDescriptor (map pe_Path (filter (\<lambda>e. pe_Type e = EntryDir) (ap_Payload (pp_Pkg pp)))))
         (m_SDOverrides (ap_Manifest (pp_Pkg pp))) sds)))"

definition directoryDescriptors ::
    "Env \<Rightarrow> Operation list \<Rightarrow> ProvidedPackage gomap \<Rightarrow> failure + string gomap" where
  "directoryDescriptors env ops provided = fold_res (packageDescriptors env) (incoming provided ops) []"

definition setDescriptors :: "string gomap \<Rightarrow> unit act" where
  "setDescriptors sds m = (Done (), m\<lparr>directorySD := sds, appliedSD := []\<rparr>)"

definition spaceMargin :: int where
  "spaceMargin = 32 * 2 ^ 20"

text \<open>The bytes needed on each file system, with a directory on it.\<close>

type_synonym needs = "(nat \<times> int \<times> path) list"

definition addNeed :: "nat \<Rightarrow> int \<Rightarrow> path \<Rightarrow> needs \<Rightarrow> needs" where
  "addNeed fsid bytes dir needed =
     (case map_of needed fsid of
        None \<Rightarrow> AList.update fsid (bytes, dir) needed
      | Some (n, p) \<Rightarrow> AList.update fsid (n + bytes, p) needed)"

definition needOf :: "Env \<Rightarrow> PayloadEntry \<Rightarrow> needs \<Rightarrow> needs act" where
  "needOf env e needed =
     (if pe_Type e \<noteq> EntryFile \<or> pe_Size e = 0 then ret needed
      else bnd (attempt (dirFor (e_Root env) (joinRoot (e_Root env) (pe_Path e)))) (\<lambda>r.
        ret (case r of
               Inl err \<Rightarrow> needed
             | Inr dir \<Rightarrow>
                 (case e_Available env dir of
                    None \<Rightarrow> needed
                  | Some (fsid, avail) \<Rightarrow> addNeed fsid (pe_Size e) dir needed))))"

definition enoughSpace :: "Env \<Rightarrow> nat \<times> int \<times> path \<Rightarrow> failure + unit" where
  "enoughSpace env = (\<lambda>(fsid, bytes, dir).
     case e_Available env dir of
       None \<Rightarrow> Inr ()
     | Some (f, avail) \<Rightarrow>
         if avail < bytes + spaceMargin then Inl (Refused ''disk space'' []) else Inr ())"

definition checkDiskSpace :: "Env \<Rightarrow> Operation list \<Rightarrow> ProvidedPackage gomap \<Rightarrow> unit act" where
  "checkDiskSpace env ops provided =
     bnd (foldAct (needOf env) (concat (map (\<lambda>(op, pp). ap_Payload (pp_Pkg pp)) (incoming provided ops))) [])
       (\<lambda>needed. liftRes (each_res (enoughSpace env) needed))"

subsection \<open>Preparing\<close>

definition planOne ::
    "Env \<Rightarrow> nat \<Rightarrow> ProvidedPackage gomap \<Rightarrow> string list \<Rightarrow> Operation \<Rightarrow> stagedOp list \<times> string list \<Rightarrow>
     ((stagedOp list \<times> string list) \<times> failure option) act" where
  "planOne env txnID provided inTxn op = (\<lambda>(ss, plannedDirs).
     bnd (prepareOperation env txnID provided inTxn op plannedDirs) (\<lambda>((s, plan), err).
       ret ((ss @ [s], plan), err)))"

definition planOperations ::
    "Env \<Rightarrow> nat \<Rightarrow> ProvidedPackage gomap \<Rightarrow> Operation list \<Rightarrow>
     ((stagedOp list \<times> string list) \<times> failure option) act" where
  "planOperations env txnID provided ops =
     foldKeep (planOne env txnID provided (map op_Name ops)) ops ([], [])"

definition dropClaimedRemovals :: "fileOp list \<Rightarrow> stagedOp \<Rightarrow> stagedOp" where
  "dropClaimedRemovals claimOps s =
     s\<lparr>sg_fileOps := filter (\<lambda>op. \<not> (fo_action op = actionRemove
          \<and> fo_finalPath op \<in> set (map fo_finalPath claimOps))) (sg_fileOps s)\<rparr>"

definition resolveClaimOverRemoval :: "fileOp list \<Rightarrow> stagedOp list \<Rightarrow> stagedOp list" where
  "resolveClaimOverRemoval claimOps ss =
     (if claimOps = [] then ss else map (dropClaimedRemovals claimOps) ss)"

text \<open>The last operation of the plan carries the claims' file operations.\<close>

definition attachClaims :: "stagedOp list \<Rightarrow> claimWork \<Rightarrow> stagedOp list" where
  "attachClaims ss w =
     (if claimWorkEmpty w \<or> ss = [] then ss
      else (let rs = resolveClaimOverRemoval (cw_fileOps w) ss; carrier = last rs in
        butlast rs @ [carrier\<lparr>sg_fileOps := sg_fileOps carrier @ cw_fileOps w,
                             sg_createdDirs := sg_createdDirs carrier @ cw_createdDirs w\<rparr>]))"

definition preparedOf ::
    "nat \<Rightarrow> Operation list \<Rightarrow> stagedOp list \<Rightarrow> claimWork \<Rightarrow> warning list \<Rightarrow> preparedTxn" where
  "preparedOf txnID ops ss w ws =
     \<lparr>pt_txnID = txnID, pt_plan = ops, pt_staged = ss, pt_claimW = w, pt_claimWarnings = ws,
      pt_ops = allFileOps ss\<rparr>"

text \<open>A failure while nothing is in place yet: undo and close the journal, keep the id.\<close>

definition giveUp ::
    "Env \<Rightarrow> preparedTxn \<Rightarrow> string \<Rightarrow> failure \<Rightarrow> (preparedTxn \<times> failure option) act" where
  "giveUp env p reason e =
     bnd (joining e (abandon env (pt_txnID p) (pt_staged p) reason)) (\<lambda>e'. ret (p, Some e'))"

definition openTxn ::
    "Env \<Rightarrow> Operation list \<Rightarrow> string \<Rightarrow> ProvidedPackage gomap \<Rightarrow> nat act" where
  "openTxn env ops crossRootID provided =
     bnd newPinnedDirs (\<lambda>_.
     bnd (liftRes (directoryDescriptors env ops provided)) (\<lambda>sds.
     bnd (setDescriptors sds) (\<lambda>_.
     bnd (checkDiskSpace env ops provided) (\<lambda>_.
       execGet (BeginCrossRootTxn (e_PeipkgVersion env) journalSchemaVersion crossRootID)))))"

definition materializeOne :: "Env \<Rightarrow> ProvidedPackage gomap \<Rightarrow> stagedOp \<Rightarrow> unit act" where
  "materializeOne env provided s =
     (if op_Kind (sg_op s) = OpRemove then ret ()
      else (case map_get provided (op_Name (sg_op s)) of
              None \<Rightarrow> raise (Refused ''not provided'' [op_Name (sg_op s)])
            | Some pp \<Rightarrow> materializePackage env s pp))"

text \<open>
  From the complete list of operations to their being in place: the steps in order, each with
  the reason the journal is closed with when it fails.
\<close>

fun runSteps ::
    "Env \<Rightarrow> preparedTxn \<Rightarrow> (string \<times> unit act) list \<Rightarrow> (preparedTxn \<times> failure option) act" where
  "runSteps env p [] = ret (p, None)"
| "runSteps env p ((reason, a) # rest) =
     bnd (attempt a) (\<lambda>r. case r of Inl e \<Rightarrow> giveUp env p reason e | Inr u \<Rightarrow> runSteps env p rest)"

definition putInPlace ::
    "Env \<Rightarrow> string \<Rightarrow> ProvidedPackage gomap \<Rightarrow> preparedTxn \<Rightarrow> (preparedTxn \<times> failure option) act" where
  "putInPlace env crossRootID provided p =
     runSteps env p
       ([(''recording the journal failed'', writeJournal (pt_txnID p) (pt_staged p))] @
        (if crossRootID = [] then []
         else [(''recording the commit payload failed'',
                exec (SetCommitPayload (pt_txnID p) (buildCommitPayload (pt_staged p) (pt_claimW p))))]) @
        [(''staging failed'', each (materializeOne env provided) (pt_staged p)),
         (''staging claim links failed'', materializeClaims (pt_claimW p)),
         (''applying file changes failed'', commitOps (pt_ops p))])"

definition planClaimsFor ::
    "Env \<Rightarrow> Operation list \<Rightarrow> ProvidedPackage gomap \<Rightarrow> nat \<Rightarrow> stagedOp list \<Rightarrow> string list \<Rightarrow>
     (preparedTxn \<times> failure option) act" where
  "planClaimsFor env ops provided txnID ss plannedDirs =
     bnd (attempt (planClaims env ops provided (e_Claims env) txnID plannedDirs)) (\<lambda>r.
     case r of
       Inl e \<Rightarrow> giveUp env (preparedOf txnID ops ss emptyClaimWork []) ''planning claims failed'' e
     | Inr (w, ws) \<Rightarrow> ret (preparedOf txnID ops (attachClaims ss w) w ws, None))"

definition planTxn ::
    "Env \<Rightarrow> Operation list \<Rightarrow> ProvidedPackage gomap \<Rightarrow> nat \<Rightarrow> (preparedTxn \<times> failure option) act" where
  "planTxn env ops provided txnID =
     bnd (planOperations env txnID provided ops) (\<lambda>((ss, plannedDirs), err).
     case err of
       Some e \<Rightarrow> giveUp env (preparedOf txnID ops ss emptyClaimWork []) ''preparing the journal failed'' e
     | None \<Rightarrow> planClaimsFor env ops provided txnID ss plannedDirs)"

definition closeOnError :: "(preparedTxn \<times> failure option) act \<Rightarrow> (preparedTxn \<times> failure option) act" where
  "closeOnError a =
     bnd a (\<lambda>(p, err). case err of None \<Rightarrow> ret (p, None) | Some e \<Rightarrow> bnd closePins (\<lambda>_. ret (p, Some e)))"

definition prepareWith ::
    "Env \<Rightarrow> Operation list \<Rightarrow> string \<Rightarrow> ProvidedPackage gomap \<Rightarrow> (preparedTxn \<times> failure option) act" where
  "prepareWith env ops crossRootID provided =
     bnd (attempt (openTxn env ops crossRootID provided)) (\<lambda>r.
     case r of
       Inl e \<Rightarrow> ret (preparedOf 0 ops [] emptyClaimWork [], Some e)
     | Inr txnID \<Rightarrow>
         andThen (planTxn env ops provided txnID) (putInPlace env crossRootID provided))"

definition prepareTxn ::
    "Env \<Rightarrow> Operation list \<Rightarrow> string \<Rightarrow> ProvidedPackage gomap option \<Rightarrow>
     (preparedTxn \<times> failure option) act" where
  "prepareTxn env ops crossRootID provided =
     (case provided of
        Some pv \<Rightarrow> closeOnError (prepareWith env ops crossRootID pv)
      | None \<Rightarrow>
          bnd (attempt (provideAll env ops)) (\<lambda>r.
          case r of
            Inl e \<Rightarrow> ret (preparedOf 0 ops [] emptyClaimWork [], Some e)
          | Inr pv \<Rightarrow> closeOnError (prepareWith env ops crossRootID pv)))"

subsection \<open>After the commit\<close>

definition slashes :: "string \<Rightarrow> nat" where
  "slashes p = length (filter (\<lambda>c. c = CHR ''/'') p)"

text \<open>Deepest first, and among equals the greater name first.\<close>

definition reclaimOrder :: "string list \<Rightarrow> string list" where
  "reclaimOrder dirs = rev (sort_key slashes (sort (remdups dirs)))"

definition reclaimDir :: "Env \<Rightarrow> string \<Rightarrow> warning list act" where
  "reclaimDir env logical =
     bnd (attempt (query (FileOwners logical))) (\<lambda>r.
     case r of
       Inl e \<Rightarrow> ret [WarnNotReclaimed logical]
     | Inr owners \<Rightarrow>
         (let physical = joinRoot (e_Root env) logical in
          if owners \<noteq> [] \<or> cleanRooted physical = cleanRooted (e_Root env) then ret []
          else bnd (attempt (existingDirFor (e_Root env) physical)) (\<lambda>r.
            case r of
              Inl e \<Rightarrow> ret [WarnNotReclaimed logical]
            | Inr None \<Rightarrow> ret []
            | Inr (Some d) \<Rightarrow>
                bnd (attempt (RemoveDir d (baseName physical))) (\<lambda>r.
                  ret (case r of
                         Inr u \<Rightarrow> []
                       | Inl e \<Rightarrow> if e \<in> {ENOENT, ENOTEMPTY, EEXIST, ENOTDIR} then []
                                  else [WarnNotReclaimed logical])))))"

definition reclaimDirectories :: "Env \<Rightarrow> stagedOp list \<Rightarrow> warning list act" where
  "reclaimDirectories env ss =
     bnd (each_map (reclaimDir env) (reclaimOrder (concat (map sg_removedDirs ss)))) (\<lambda>wss.
       ret (concat wss))"

text \<open>Side effects: the commands that follow from the declared names and the kernel modules.\<close>

definition modulesPrefix :: string where
  "modulesPrefix = ''usr/lib/modules/''"

definition moduleRelease :: "PackageFile \<Rightarrow> string option" where
  "moduleRelease f =
     (let p = (if has_prefix (pf_Path f) ''/'' then drop 1 (pf_Path f) else pf_Path f) in
      if pf_Type f \<noteq> FileTypeFile \<or> \<not> has_prefix p modulesPrefix then None
      else (case cut_byte (CHR ''/'') (drop (length modulesPrefix) p) of
              None \<Rightarrow> None
            | Some (release, rest) \<Rightarrow> if release = [] \<or> rest = [] then None else Some release))"

definition isHostRoot :: "string \<Rightarrow> bool" where
  "isHostRoot root \<longleftrightarrow> root = [] \<or> cleanRooted root = ''/''"

definition depmodCommands :: "string \<Rightarrow> stagedOp list \<Rightarrow> (string \<times> string list) list \<times> warning list" where
  "depmodCommands root ss =
     (let releases = sort (remdups (List.map_filter moduleRelease
            (concat (map (\<lambda>s. sg_files s @ sg_removedFiles s) ss)))) in
      if releases = [] then ([], [WarnNothingToIndex])
      else (map (\<lambda>release. (''depmod'', [''/libexec/depmod''] @
              (if isHostRoot root then [] else [''-b'', root, ''-m'', ''/usr/lib/modules'']) @
              [''-a'', release])) releases, []))"

definition effectCommands :: "string \<Rightarrow> stagedOp list \<Rightarrow> string \<Rightarrow> (string \<times> string list) list \<times> warning list" where
  "effectCommands root ss name =
     (if name = ''depmod'' then depmodCommands root ss
      else if name \<noteq> ''man-db'' then ([], [])
      else if isHostRoot root then ([(name, [''/bin/mandb'', ''-q''])], [])
      else ([], [WarnSideEffectSkipped name root]))"

definition firstOccurrences :: "string list \<Rightarrow> string list" where
  "firstOccurrences xs = rev (remdups (rev xs))"

definition plannedSideEffects :: "string \<Rightarrow> stagedOp list \<Rightarrow> (string \<times> string list) list \<times> warning list" where
  "plannedSideEffects root ss =
     (let parts = map (effectCommands root ss) (firstOccurrences (concat (map sg_sideEffects ss)))
      in (concat (map fst parts), concat (map snd parts)))"

definition runSideEffects :: "Env \<Rightarrow> (string \<times> string list) list \<Rightarrow> warning list" where
  "runSideEffects env effects =
     List.map_filter (\<lambda>(name, argv). if e_Run env argv then None else Some (WarnSideEffect name)) effects"

definition finishCommitted :: "Env \<Rightarrow> preparedTxn \<Rightarrow> Result act" where
  "finishCommitted env p =
     bnd (discardBackups (pt_ops p)) (\<lambda>left.
     bnd (reclaimDirectories env (pt_staged p)) (\<lambda>kept.
     (let effects = (if e_RunSideEffects env then plannedSideEffects (e_Root env) (pt_staged p) else ([], [])) in
      ret \<lparr>res_TxnID = pt_txnID p,
           res_Warnings = concat (map sg_warnings (pt_staged p)) @ pt_claimWarnings p
             @ map WarnBackupLeft left @ kept @ snd effects @ runSideEffects env (fst effects),
           res_SDOverrides = concat (map sg_sdOverrides (pt_staged p))\<rparr>)))"

subsection \<open>Committing\<close>

definition failedResult :: "nat \<Rightarrow> Result" where
  "failedResult n = \<lparr>res_TxnID = n, res_Warnings = [], res_SDOverrides = []\<rparr>"

definition commitBody :: "preparedTxn \<Rightarrow> unit act" where
  "commitBody p =
     bnd (bnd (applyMetadata (pt_staged p)) (\<lambda>_. applyClaimMetadata (pt_claimW p))) (\<lambda>_.
       exec (FinishTxn (pt_txnID p) TxnCommitted (operationSummary (pt_plan p))))"

definition commitTxn :: "Env \<Rightarrow> preparedTxn \<Rightarrow> bool \<Rightarrow> (Result \<times> failure option) act" where
  "commitTxn env p rollbackOnFailure =
     closing (
       bnd (attempt (Tx (commitBody p))) (\<lambda>r.
       case r of
         Inr u \<Rightarrow> bnd (finishCommitted env p) (\<lambda>res. ret (res, None))
       | Inl e \<Rightarrow>
           if rollbackOnFailure then
             bnd (joining e (finishRolledBack env (pt_txnID p) (pt_ops p) (allCreatedDirs (pt_staged p))
                    ''committing package state failed'')) (\<lambda>e'. ret (failedResult (pt_txnID p), Some e'))
           else ret (failedResult (pt_txnID p), Some e)))"

definition rollbackPrepared :: "Env \<Rightarrow> preparedTxn \<Rightarrow> unit act" where
  "rollbackPrepared env p =
     closing (finishRolledBack env (pt_txnID p) (pt_ops p) (allCreatedDirs (pt_staged p))
       ''rolled back: a sibling root failed to prepare'')"

definition runTransaction :: "Env \<Rightarrow> Operation list \<Rightarrow> (Result \<times> failure option) act" where
  "runTransaction env ops =
     bnd (prepareTxn env ops [] None) (\<lambda>(p, err).
     case err of
       Some e \<Rightarrow> ret (failedResult (pt_txnID p), Some e)
     | None \<Rightarrow> commitTxn env p True)"

definition Execute :: "Env \<Rightarrow> Operation list \<Rightarrow> (Result \<times> failure option) act" where
  "Execute env ops =
     withLock (
       bnd (recoverPending env) (\<lambda>_.
         if ops = [] then ret (failedResult 0, None) else runTransaction env ops))"

end
