(* ===== verification/StateFacts.thy ===== *)
theory StateFacts
  imports DbFacts MachineRules Execute
begin

section \<open>What a transaction does to the database\<close>

text \<open>
  Up to its commit a transaction writes only its journal. The locale \<open>journal_stable\<close> is the
  interface: a property of the database that no statement on the journal breaks holds through
  every step of \<open>Execute\<close> before the commit and through every rollback, whatever fails. It is
  interpreted with the tables of the packages and claims, and with the constraints of the
  schema.
\<close>

lemma stable_case_prod [stable_rules]:
  "(\<And>x y. stable P (f x y)) \<Longrightarrow> stable P (case z of (x, y) \<Rightarrow> f x y)"
  by (simp split: prod.split)

lemma stable_case_prod_fun [stable_rules]:
  "(\<And>x y. stable P (f x y s)) \<Longrightarrow> stable P ((case z of (x, y) \<Rightarrow> f x y) s)"
  by (simp split: prod.split)

lemma stable_pointwise: "(\<And>m. \<exists>b. a m = b m \<and> stable P b) \<Longrightarrow> stable P a"
  unfolding stable_def by metis

lemma stable_query [stable_rules]: "blind P \<Longrightarrow> stable P (query f)"
  unfolding query_def by (rule stable_perform) (auto simp: blind_def)

lemma stable_foldAct [stable_rules]: "(\<And>x s. stable P (f x s)) \<Longrightarrow> stable P (foldAct f xs s)"
  by (induction xs arbitrary: s) (auto intro!: stable_rules)

lemma stable_kept [stable_rules]: "stable P a \<Longrightarrow> (\<And>x. stable P (f x)) \<Longrightarrow> stable P (kept s a f)"
  unfolding kept_def by (intro stable_rules)

lemma stable_andThen [stable_rules]: "stable P a \<Longrightarrow> (\<And>s. stable P (f s)) \<Longrightarrow> stable P (andThen a f)"
  unfolding andThen_def by (intro stable_rules)

lemma stable_foldKeep [stable_rules]: "(\<And>x s. stable P (f x s)) \<Longrightarrow> stable P (foldKeep f xs s)"
  by (induction xs arbitrary: s) (auto intro!: stable_rules)

lemma stable_liftRes [stable_rules]: "stable P (liftRes r)"
  unfolding liftRes_def by (intro stable_rules)

lemma stable_joinErrors [stable_rules]: "stable P (joinErrors errs)"
  unfolding joinErrors_def by (intro stable_rules)

lemma stable_joining [stable_rules]: "stable P a \<Longrightarrow> stable P (joining e a)"
  unfolding joining_def by (intro stable_rules)

text \<open>Predicates of the database alone.\<close>

lemma blind_db: "blind (\<lambda>m. Q (db m))"
  by (simp add: blind_def)

named_theorems db_rules \<open>actions that do not write the database\<close>

lemma stable_db_field:
  assumes "\<And>m. db (snd (a m)) = db m"
  shows "stable (\<lambda>m. Q (db m)) a"
  using assms by (simp add: stable_def)

lemma db_markers [db_rules]:
  shows "stable (\<lambda>m. Q (db m)) (markApplied p)" and "stable (\<lambda>m. Q (db m)) closePins"
    and "stable (\<lambda>m. Q (db m)) (remember r p)" and "stable (\<lambda>m. Q (db m)) (setDescriptors sds)"
  by (simp_all add: stable_def markApplied_def closePins_def remember_def setDescriptors_def)

lemma db_newPinnedDirs [db_rules]: "stable (\<lambda>m. Q (db m)) newPinnedDirs"
  unfolding newPinnedDirs_def by (rule stable_perform) auto

lemma db_calls [db_rules]:
  shows "stable (\<lambda>m. Q (db m)) (sys f)" and "stable (\<lambda>m. Q (db m)) (at d n g)"
    and "stable (\<lambda>m. Q (db m)) (Lstat d n)" and "stable (\<lambda>m. Q (db m)) (Exists d n)"
    and "stable (\<lambda>m. Q (db m)) (Rename d n n')" and "stable (\<lambda>m. Q (db m)) (RemoveDir d n)"
    and "stable (\<lambda>m. Q (db m)) (RemoveEntry d n)" and "stable (\<lambda>m. Q (db m)) (query h)"
    and "stable (\<lambda>m. Q (db m)) (rollbackOps ops)" and "stable (\<lambda>m. Q (db m)) (commitOps ops)"
  by (intro stable_rules blind_db)+

lemma db_files [db_rules]:
  shows "stable (\<lambda>m. Q (db m)) (readFile d n)" and "stable (\<lambda>m. Q (db m)) (Symlink d t n)"
    and "stable (\<lambda>m. Q (db m)) (Readlink d n)" and "stable (\<lambda>m. Q (db m)) (Create d n)"
    and "stable (\<lambda>m. Q (db m)) (WriteAll d n t)" and "stable (\<lambda>m. Q (db m)) (Setxattr d n k)"
    and "stable (\<lambda>m. Q (db m)) (makeAt d n v)" and "stable (\<lambda>m. Q (db m)) (openDirAt d n)"
  unfolding readFile_def Symlink_def Readlink_def Create_def WriteAll_def Setxattr_def makeAt_def
    openDirAt_def by (intro db_rules)+

lemma db_CreateWithSD [db_rules]: "stable (\<lambda>m. Q (db m)) (CreateWithSD d n sd)"
proof -
  have "stable (\<lambda>m. Q (db m)) (bnd (makeAt d n (NFile [] sd [])) (\<lambda>_. sys (\<lambda>t. Inr ((), t))))"
    and "stable (\<lambda>m. Q (db m)) (bnd (Create d n) (\<lambda>_. Setxattr d n (described sd)))"
    and "stable (\<lambda>m. Q (db m)) (Create d n)"
    by (intro db_rules stable_rules)+
  then show ?thesis by (simp add: stable_def CreateWithSD_def)
qed

lemma db_mkdirAt [db_rules]: "stable (\<lambda>m. Q (db m)) (mkdirAt d n)"
  by (rule stable_pointwise) (auto simp: mkdirAt_def Let_def intro!: stable_rules db_rules)

lemma db_applyDirectorySD [db_rules]: "stable (\<lambda>m. Q (db m)) (applyDirectorySD d)"
  by (rule stable_pointwise) (auto simp: applyDirectorySD_def Let_def intro!: stable_rules db_rules)

lemma db_walk [db_rules]: "stable (\<lambda>m. Q (db m)) (walk c rel)"
proof -
  have "stable (\<lambda>m. Q (db m)) (walkStep c d n)" for d n
    unfolding walkStep_def by (intro stable_rules db_rules)
  then have "stable (\<lambda>m. Q (db m)) (walkFrom c d cs)" for d cs
    by (induction cs arbitrary: d) (auto intro!: stable_rules)
  then show ?thesis unfolding walk_def by (intro stable_rules)
qed

lemma db_pins [db_rules]:
  shows "stable (\<lambda>m. Q (db m)) (pinMkdirAll r)" and "stable (\<lambda>m. Q (db m)) (existingDirFor root p)"
proof -
  show "stable (\<lambda>m. Q (db m)) (pinMkdirAll r)"
  proof (rule stable_pointwise)
    fix m show "\<exists>b. pinMkdirAll r m = b m \<and> stable (\<lambda>m. Q (db m)) b"
    proof (cases "map_get (pinned m) r")
      case (Some p)
      then show ?thesis
        by (intro exI [of _ "ret p"]) (simp add: pinMkdirAll_def ret_def stable_rules)
    qed (auto simp: pinMkdirAll_def intro!: stable_rules db_rules)
  qed
  show "stable (\<lambda>m. Q (db m)) (existingDirFor root p)"
  proof (rule stable_pointwise)
    fix m show "\<exists>b. existingDirFor root p m = b m \<and> stable (\<lambda>m. Q (db m)) b"
    proof (cases "pinRel root p")
      case (Inl e)
      then show ?thesis by (auto simp: existingDirFor_def intro!: stable_rules)
    next
      case (Inr rel)
      show ?thesis
      proof (cases "map_get (pinned m) (fst (safeSplit rel))")
        case (Some d)
        with Inr show ?thesis
          by (intro exI [of _ "ret (Some d)"]) (simp add: existingDirFor_def ret_def stable_rules)
      qed (use Inr in \<open>auto simp: existingDirFor_def Let_def intro!: stable_rules db_rules\<close>)
    qed
  qed
qed

lemma db_dirs [db_rules]:
  shows "stable (\<lambda>m. Q (db m)) (dirFor root p)" and "stable (\<lambda>m. Q (db m)) (mkdirAllAbs root p)"
    and "stable (\<lambda>m. Q (db m)) (removeCreatedDirs root ds)"
  unfolding dirFor_def mkdirAllAbs_def removeCreatedDirs_def removeCreatedDir_def
  by (intro stable_rules db_rules)+

text \<open>Cases on the datatypes of the code.\<close>

lemma stable_cases [stable_rules]:
  shows "\<lbrakk>\<And>c sd sig. stable P (f c sd sig); \<And>l. stable P (g l); \<And>sd. stable P (h sd)\<rbrakk> \<Longrightarrow>
      stable P (case n of NFile c sd sig \<Rightarrow> f c sd sig | NLink l \<Rightarrow> g l | NDir sd \<Rightarrow> h sd)"
    and "\<lbrakk>stable P a1; stable P a2; stable P a3\<rbrakk> \<Longrightarrow>
      stable P (case t of EntryFile \<Rightarrow> a1 | EntryDir \<Rightarrow> a2 | EntrySymlink \<Rightarrow> a3)"
    and "\<lbrakk>stable P b1; stable P b2; stable P b3\<rbrakk> \<Longrightarrow>
      stable P (case c of ModifiedAbort \<Rightarrow> b1 | ModifiedRemove \<Rightarrow> b2 | ModifiedKeep \<Rightarrow> b3)"
    and "\<lbrakk>stable P d1; \<And>x xs. stable P (d2 x xs)\<rbrakk> \<Longrightarrow>
      stable P (case l of [] \<Rightarrow> d1 | x # xs \<Rightarrow> d2 x xs)"
  by (simp_all split: node.split EntryType.split ModifiedDecision.split list.split)

text \<open>
  Planning looks at the machine through few calls. What those keep, planning keeps: the interface
  has the calls, the client is the whole of planning.
\<close>

locale quiet_calls =
  fixes P :: "machine \<Rightarrow> bool"
  assumes ticks: "P m \<Longrightarrow> P (tick m)"
    and dirs: "stable P (dirFor root p)" "stable P (existingDirFor root p)"
    and entries: "stable P (Lstat d n)" "stable P (readFile d n)" "stable P (Readlink d n)"
begin

lemma queries: "stable P (query h)"
  unfolding query_def by (rule stable_perform) (auto intro: ticks)

lemma there: "stable P (Exists d n)"
  unfolding Exists_def by (intro entries stable_bnd stable_attempt stable_ret)

lemmas quiet = dirs entries queries there

lemma lookups:
  shows "stable P (fileHashAt env d n)" and "stable P (fileModified env d n h)"
    and "stable P (matchesPayload env d n e)" and "stable P (unownedPolicy env d name dest l e)"
    and "stable P (plannedOp env phys st txnID)"
  unfolding fileHashAt_def fileModified_def matchesPayload_def unownedPolicy_def plannedOp_def
  by (intro quiet stable_rules)+

lemma rememberCreated: "stable P (rememberCreatedDirs root d plan out)"
proof -
  have "stable P (rememberFrom root cur parts plan out)" for cur parts plan out
  proof (induction parts arbitrary: cur plan out)
    case (Cons part parts)
    then show ?case unfolding rememberFrom.simps Let_def by (intro quiet stable_rules)
  qed (simp add: stable_ret)
  then show ?thesis unfolding rememberCreatedDirs_def Let_def by (intro stable_rules)
qed

lemma preparing: "stable P (preparePackage env n op pp plan inTxn)"
proof -
  have content: "stable P (stageContent env name n d e dest l st)" for name d e dest l st
    unfolding stageContent_def Let_def by (intro quiet lookups rememberCreated stable_rules)
  have "stable P (stageEntry env name n ex re e st)" for name ex re e st
    unfolding stageEntry_def stageDir_def stageFile_def stageLink_def untouchedBy_def operatorEdit_def
      Let_def by (intro quiet lookups rememberCreated stable_rules content)
  moreover have "stable P (releaseRow env n new f s)" for new f s
    unfolding releaseRow_def Let_def by (intro quiet stable_rules)
  moreover have "stable P (packageChecks env op pp inTxn)"
    unfolding packageChecks_def checkPayloadCollisions_def checkPayloadCollision_def
      checkClaimLinkCollisions_def by (intro quiet stable_rules)
  ultimately show ?thesis
    unfolding preparePackage_def Let_def by (intro quiet stable_rules)
qed

lemma removing: "stable P (stageRemoval env n op)"
proof -
  have "stable P (modifiedChoice env name f d phys)" for name f d phys
    unfolding modifiedChoice_def by (intro quiet lookups stable_rules)
  then have "stable P (stageRemovedFile env name n f s)" for name f s
    unfolding stageRemovedFile_def Let_def by (intro quiet stable_rules)
  then show ?thesis
    unfolding stageRemoval_def Let_def by (intro quiet stable_rules)
qed

lemma planning_operations: "stable P (planOperations env n provided ops)"
  unfolding planOperations_def planOne_def prepareOperation_def
  by (intro preparing removing stable_rules)

lemma planning_claims: "stable P (planClaims env ops provided dir n plan)"
proof -
  have "stable P (stageClaimLink env post n x y)" for post x y
    unfolding stageClaimLink_def newLinkPolicy_def Let_def
    by (intro quiet lookups rememberCreated stable_rules)
  moreover have "stable P (removeClaimLink env n l w)" for l w
    unfolding removeClaimLink_def Let_def by (intro quiet stable_rules)
  ultimately show ?thesis
    unfolding planClaims_def postInstalledManifests_def computeHolders_def reconcileClaims_def
      postTransactionOwnership_def Let_def by (intro quiet stable_rules)
qed

lemma measuring: "stable P (checkDiskSpace env ops provided)"
  unfolding checkDiskSpace_def needOf_def by (intro quiet stable_rules)

end

interpretation database: quiet_calls "\<lambda>m. Q (db m)" for Q
  by unfold_locales (simp, (rule db_rules)+)

lemmas planning_rules [db_rules] =
  database.lookups database.rememberCreated database.preparing database.removing
  database.planning_operations database.planning_claims database.measuring

lemma db_materialize [db_rules]:
  shows "stable (\<lambda>m. Q (db m)) (materializeOne env provided s)" and "stable (\<lambda>m. Q (db m)) (materializeClaims w)"
proof -
  have "stable (\<lambda>m. Q (db m)) (materializeEntry env s mf x y)" for mf x y
    unfolding materializeEntry_def writeStagedFile_def addSidecar_def by (intro db_rules stable_rules blind_db)
  moreover have "stable (\<lambda>m. Q (db m)) (stampSidecar env written x)" for written x
    unfolding stampSidecar_def by (intro db_rules stable_rules blind_db)
  ultimately show "stable (\<lambda>m. Q (db m)) (materializeOne env provided s)"
    unfolding materializeOne_def materializePackage_def by (intro db_rules stable_rules blind_db)
  show "stable (\<lambda>m. Q (db m)) (materializeClaims w)"
    unfolding materializeClaims_def by (intro db_rules stable_rules blind_db)
qed

lemma db_discardBackups [db_rules]: "stable (\<lambda>m. Q (db m)) (discardBackups ops)"
proof (induction ops)
  case (Cons op ops)
  then show ?case unfolding discardBackups.simps by (intro db_rules stable_rules blind_db)
qed (simp add: stable_ret)

lemma db_provideAll [db_rules]: "stable (\<lambda>m. Q (db m)) (provideAll env ops)"
proof -
  have "stable (\<lambda>m. Q (db m)) (perform (\<lambda>m. rbind r (\<lambda>x. Inr (x, m))))" for r :: "failure + ProvidedPackage"
    by (rule stable_perform) (auto simp: rbind_eq_Inr)
  then show ?thesis unfolding provideAll_def provideOne_def by (intro db_rules stable_rules blind_db)
qed

lemma db_finishCommitted [db_rules]: "stable (\<lambda>m. Q (db m)) (finishCommitted env p)"
  unfolding finishCommitted_def reclaimDirectories_def reclaimDir_def Let_def by (intro db_rules stable_rules blind_db)

lemma db_fileOpsFromJournal [db_rules]: "stable (\<lambda>m. Q (db m)) (fileOpsFromJournal root files)"
  unfolding fileOpsFromJournal_def fileOpFromJournal_def by (intro db_rules stable_rules blind_db)

lemma stable_closing [db_rules]: "stable (\<lambda>m. Q (db m)) a \<Longrightarrow> stable (\<lambda>m. Q (db m)) (closing a)"
  unfolding stable_def closing_def closePins_def by (force split: prod.splits outcome.splits)

lemma stable_withLock [db_rules]: "stable (\<lambda>m. Q (db m)) a \<Longrightarrow> stable (\<lambda>m. Q (db m)) (withLock a)"
  unfolding withLock_def Acquire_def Release_def
  by (intro stable_bnd stable_perform) (auto simp: stable_def split: prod.splits if_splits)

end
