(* ===== verification/CommitFacts.thy ===== *)
theory CommitFacts
  imports StateFacts
begin

section \<open>What a commit writes\<close>

text \<open>
  The tables of the packages seen as a catalogue, from a name to its row and its files, and
  the claims as a map from roles to holders and a set of links. The statements of a commit
  are updates of these.
\<close>

type_synonym catalogue = "string \<Rightarrow> (dbPackage \<times> PackageFile list) option"

definition rowOf :: "database \<Rightarrow> string \<Rightarrow> dbPackage option" where
  "rowOf d n = List.find (\<lambda>p. dp_Name p = n) (t_package d)"

definition filesOf :: "database \<Rightarrow> string \<Rightarrow> PackageFile list" where
  "filesOf d n = filter (\<lambda>f. pf_PackageName f = n) (t_package_file d)"

definition catalogueOf :: "database \<Rightarrow> catalogue" where
  "catalogueOf d n = map_option (\<lambda>p. (p, filesOf d n)) (rowOf d n)"

definition holderOf :: "database \<Rightarrow> string \<Rightarrow> string option" where
  "holderOf d = map_of (map (\<lambda>h. (ch_Role h, ch_Holder h)) (t_claim_holder d))"

lemma find_filter_ne:
  "List.find (\<lambda>p. key p = n) (filter (\<lambda>p. key p \<noteq> k) xs) =
     (if n = k then None else List.find (\<lambda>p. key p = n) xs)"
  by (induction xs) auto

lemma find_append: "List.find P (xs @ ys) = (case List.find P xs of None \<Rightarrow> List.find P ys | Some x \<Rightarrow> Some x)"
  by (induction xs) auto

lemma find_None: "List.find P xs = None \<longleftrightarrow> (\<forall>x\<in>set xs. \<not> P x)"
  by (induction xs) auto

lemma rowOf_DeletePackage:
  "DeletePackage n d = Inr d' \<Longrightarrow> rowOf d' = (rowOf d)(n := None)"
  by (auto simp: DeletePackage_def rowOf_def Let_def find_filter_ne fun_eq_iff)

lemma filesOf_DeletePackage:
  "DeletePackage n d = Inr d' \<Longrightarrow> filesOf d' = (filesOf d)(n := [])"
  by (auto simp: DeletePackage_def filesOf_def Let_def fun_eq_iff filter_empty_conv intro: filter_cong)

lemma catalogue_DeletePackage:
  "DeletePackage n d = Inr d' \<Longrightarrow> catalogueOf d' = (catalogueOf d)(n := None)"
  by (simp add: catalogueOf_def fun_eq_iff rowOf_DeletePackage filesOf_DeletePackage)

lemma catalogue_InsertPackage:
  assumes "db_ok d" and "InsertPackage p d = Inr d'"
  shows "catalogueOf d' = (catalogueOf d)(dp_Name p \<mapsto> (p, []))"
proof -
  from assms(2) have d': "d' = d\<lparr>t_package := t_package d @ [p]\<rparr>"
    and new: "dp_Name p \<notin> dp_Name ` set (t_package d)"
    by (auto simp: InsertPackage_def list_ex_iff split: if_splits)
  have "filesOf d (dp_Name p) = []"
  proof -
    have "pf_PackageName f \<noteq> dp_Name p" if "f \<in> set (t_package_file d)" for f
    proof -
      from ok_parts(1) [OF assms(1)] that have "pf_PackageName f \<in> dp_Name ` set (t_package d)"
        by (simp add: packages_ok_def)
      with new show ?thesis by metis
    qed
    then show ?thesis by (simp add: filesOf_def filter_empty_conv)
  qed
  moreover have "rowOf d (dp_Name p) = None"
    using new unfolding rowOf_def find_None by (metis imageI)
  ultimately show ?thesis
    by (auto simp: catalogueOf_def rowOf_def filesOf_def d' fun_eq_iff find_append split: option.split)
qed

definition addFiles :: "PackageFile list \<Rightarrow> catalogue \<Rightarrow> catalogue" where
  "addFiles fs C n = map_option (\<lambda>(p, gs). (p, gs @ filter (\<lambda>f. pf_PackageName f = n) fs)) (C n)"

lemma catalogue_InsertPackageFile:
  assumes "InsertPackageFile f d = Inr d'"
  shows "catalogueOf d' = addFiles [f] (catalogueOf d)"
proof -
  from assms have "d' = d\<lparr>t_package_file := t_package_file d @ [f]\<rparr>"
    by (auto simp: InsertPackageFile_def split: if_splits)
  then show ?thesis
    by (auto simp: catalogueOf_def rowOf_def filesOf_def addFiles_def fun_eq_iff option.map_comp o_def)
qed

lemma addFiles_Nil [simp]: "addFiles [] C = C"
  by (auto simp: addFiles_def fun_eq_iff intro: option.map_ident_strong)

lemma addFiles_Cons: "addFiles (f # fs) C = addFiles fs (addFiles [f] C)"
  by (auto simp: addFiles_def fun_eq_iff option.map_comp o_def split: prod.splits intro!: option.map_cong)

text \<open>The other statements leave the catalogue alone.\<close>

lemma catalogue_claims:
  "SetClaimHolder r h d = Inr d' \<Longrightarrow> catalogueOf d' = catalogueOf d"
  "DeleteClaimHolder r d = Inr d' \<Longrightarrow> catalogueOf d' = catalogueOf d"
  "InsertClaimLink l d = Inr d' \<Longrightarrow> catalogueOf d' = catalogueOf d"
  "DeleteClaimLink p d = Inr d' \<Longrightarrow> catalogueOf d' = catalogueOf d"
  "FinishTxn n st w d = Inr d' \<Longrightarrow> catalogueOf d' = catalogueOf d"
  by (auto simp: SetClaimHolder_def DeleteClaimHolder_def InsertClaimLink_def DeleteClaimLink_def
      FinishTxn_def catalogueOf_def rowOf_def filesOf_def split: if_splits)

subsection \<open>Actions that end well\<close>

definition does :: "unit act \<Rightarrow> (database \<Rightarrow> database \<Rightarrow> bool) \<Rightarrow> bool" where
  "does a R \<longleftrightarrow> (\<forall>m m'. a m = (Done (), m') \<longrightarrow> R (db m) (db m'))"

lemma does_ret: "(\<And>d. R d d) \<Longrightarrow> does (ret ()) R"
  by (simp add: does_def ret_def)

lemma does_raise: "does (raise e) R"
  by (simp add: does_def raise_def)

lemma does_bnd: "does a R \<Longrightarrow> does b S \<Longrightarrow> does (bnd a (\<lambda>_. b)) (R OO S)"
  unfolding does_def bnd_def by (fastforce split: prod.splits outcome.splits)

lemma does_mono: "does a R \<Longrightarrow> (\<And>d d'. R d d' \<Longrightarrow> S d d') \<Longrightarrow> does a S"
  unfolding does_def by blast

lemma does_exec:
  assumes "\<And>d d'. f d = Inr d' \<Longrightarrow> R d d'"
  shows "does (exec f) R"
  unfolding does_def exec_def perform_def
  by (auto split: list.splits fault.splits sum.splits prod.splits simp: rbind_eq_Inr intro: assms)

text \<open>
  A loop of statements: each keeps an invariant and makes its change to what is looked at.
\<close>

lemma does_each:
  assumes "\<And>x. does (f x) (\<lambda>d d'. I d \<longrightarrow> I d' \<and> view d' = step x (view d))"
  shows "does (each f xs) (\<lambda>d d'. I d \<longrightarrow> I d' \<and> view d' = fold step xs (view d))"
proof (induction xs)
  case (Cons x xs)
  have "does (bnd (f x) (\<lambda>_. each f xs))
      ((\<lambda>d d'. I d \<longrightarrow> I d' \<and> view d' = step x (view d)) OO
       (\<lambda>d d'. I d \<longrightarrow> I d' \<and> view d' = fold step xs (view d)))"
    by (rule does_bnd [OF assms Cons.IH])
  then show ?case by (simp, elim does_mono) (auto simp: relcompp_apply)
qed (auto intro!: does_ret)

lemma does_each_keep:
  assumes "\<And>x. does (f x) (\<lambda>d d'. I d \<longrightarrow> I d')"
  shows "does (each f xs) (\<lambda>d d'. I d \<longrightarrow> I d')"
  using does_each [where f = f and I = I and view = "\<lambda>d. ()" and step = "\<lambda>x u. ()"] assms by simp

subsection \<open>The packages\<close>

definition applyStaged :: "stagedOp \<Rightarrow> catalogue \<Rightarrow> catalogue" where
  "applyStaged s C =
     (if op_Kind (sg_op s) = OpRemove then C(op_Name (sg_op s) := None)
      else C(op_Name (sg_op s) := map_option (\<lambda>p. (p, sg_files s)) (sg_pkg s)))"

text \<open>A staged operation whose rows are its package's own.\<close>

definition ownRows :: "stagedOp \<Rightarrow> bool" where
  "ownRows s \<longleftrightarrow>
     (op_Kind (sg_op s) \<noteq> OpRemove \<longrightarrow>
        (\<exists>p. sg_pkg s = Some p \<and> dp_Name p = op_Name (sg_op s)) \<and>
        (\<forall>f\<in>set (sg_files s). pf_PackageName f = op_Name (sg_op s)))"

lemma does_InsertFiles:
  "does (each (\<lambda>f. exec (InsertPackageFile f)) fs)
     (\<lambda>d d'. db_ok d \<longrightarrow> db_ok d' \<and> catalogueOf d' = addFiles fs (catalogueOf d))"
proof -
  have "fold (\<lambda>f. addFiles [f]) fs C = addFiles fs C" for C
    by (induction fs arbitrary: C) (simp_all, simp add: addFiles_Cons [of _ "_ # _"] flip: addFiles_Cons)
  then show ?thesis
    using does_each [where I = db_ok and view = catalogueOf and step = "\<lambda>f. addFiles [f]"
        and f = "\<lambda>f. exec (InsertPackageFile f)" and xs = fs]
    by (simp add: does_exec catalogue_InsertPackageFile ok_InsertPackageFile)
qed

lemma does_applyMetadataOf:
  assumes "ownRows s"
  shows "does (applyMetadataOf s)
     (\<lambda>d d'. db_ok d \<longrightarrow> db_ok d' \<and> catalogueOf d' = applyStaged s (catalogueOf d))"
proof (cases "op_Kind (sg_op s) = OpRemove")
  case True
  then show ?thesis
    by (auto simp: applyMetadataOf_def applyStaged_def Let_def intro!: does_exec
        intro: ok_DeletePackage catalogue_DeletePackage)
next
  case False
  with assms obtain p where p: "sg_pkg s = Some p" "dp_Name p = op_Name (sg_op s)"
    and fs: "filter (\<lambda>f. pf_PackageName f = op_Name (sg_op s)) (sg_files s) = sg_files s"
      "\<And>n. n \<noteq> op_Name (sg_op s) \<Longrightarrow> filter (\<lambda>f. pf_PackageName f = n) (sg_files s) = []"
    by (auto simp: ownRows_def filter_empty_conv)
  let ?n = "op_Name (sg_op s)"
  have del: "does (if op_Kind (sg_op s) \<noteq> OpInstall then exec (DeletePackage ?n) else ret ())
      (\<lambda>d d'. db_ok d \<longrightarrow> db_ok d' \<and> (\<forall>k. k \<noteq> ?n \<longrightarrow> catalogueOf d' k = catalogueOf d k))"
    by (auto intro!: does_exec does_ret intro: ok_DeletePackage simp: catalogue_DeletePackage)
  have ins: "does (exec (InsertPackage p))
      (\<lambda>d d'. db_ok d \<longrightarrow> db_ok d' \<and> catalogueOf d' = (catalogueOf d)(?n \<mapsto> (p, [])))"
    using p(2) by (intro does_exec) (auto intro: ok_InsertPackage simp: catalogue_InsertPackage)
  have "addFiles (sg_files s) (C(?n \<mapsto> (p, []))) k = (if k = ?n then Some (p, sg_files s) else C k)"
    for C k
    using fs by (cases "C k") (auto simp: addFiles_def)
  then have "catalogueOf d' = applyStaged s (catalogueOf d)"
    if "\<forall>k. k \<noteq> ?n \<longrightarrow> catalogueOf d1 k = catalogueOf d k"
      "catalogueOf d' = addFiles (sg_files s) ((catalogueOf d1)(?n \<mapsto> (p, [])))" for d d1 d'
    using that p(1) False by (auto simp: applyStaged_def fun_eq_iff)
  then show ?thesis
    using False p(1) does_bnd [OF del does_bnd [OF ins does_InsertFiles [of "sg_files s"]]]
    by (auto simp: applyMetadataOf_def insertRows_def Let_def relcompp_apply elim!: does_mono)
qed

lemma does_applyMetadata:
  assumes "list_all ownRows ss"
  shows "does (applyMetadata ss)
     (\<lambda>d d'. db_ok d \<longrightarrow> db_ok d' \<and> catalogueOf d' = fold applyStaged ss (catalogueOf d))"
  using assms
proof (induction ss)
  case (Cons s ss)
  from Cons.prems have "ownRows s" by simp
  then have "does (bnd (applyMetadataOf s) (\<lambda>_. applyMetadata ss))
      ((\<lambda>d d'. db_ok d \<longrightarrow> db_ok d' \<and> catalogueOf d' = applyStaged s (catalogueOf d)) OO
       (\<lambda>d d'. db_ok d \<longrightarrow> db_ok d' \<and> catalogueOf d' = fold applyStaged ss (catalogueOf d)))"
    using Cons by (intro does_bnd does_applyMetadataOf Cons.IH) simp_all
  then show ?case by (simp add: applyMetadata_def, elim does_mono) (auto simp: relcompp_apply)
qed (auto simp: applyMetadata_def intro!: does_ret)

subsection \<open>The claims\<close>

text \<open>
  The links of a set of paths are gone whatever else is deleted, and roles only lose holders
  until the new ones are set.
\<close>

definition linksWithin :: "string set \<Rightarrow> database \<Rightarrow> bool" where
  "linksWithin P d \<longleftrightarrow> cl_Path ` set (t_claim_link d) \<subseteq> P"

definition rolesWithin :: "string set \<Rightarrow> database \<Rightarrow> bool" where
  "rolesWithin R d \<longleftrightarrow> dom (holderOf d) \<subseteq> R"

lemma dom_holderOf: "dom (holderOf d) = ch_Role ` set (t_claim_holder d)"
  by (simp add: holderOf_def dom_map_of_conv_image_fst image_image)

lemma holderOf_same:
  "InsertClaimLink l d = Inr d' \<Longrightarrow> holderOf d' = holderOf d"
  "DeleteClaimLink p d = Inr d' \<Longrightarrow> holderOf d' = holderOf d"
  "InsertPackage q d = Inr d' \<Longrightarrow> holderOf d' = holderOf d"
  "InsertPackageFile f d = Inr d' \<Longrightarrow> holderOf d' = holderOf d"
  "FinishTxn n st w d = Inr d' \<Longrightarrow> holderOf d' = holderOf d"
  by (auto simp: InsertClaimLink_def DeleteClaimLink_def InsertPackage_def InsertPackageFile_def
      FinishTxn_def holderOf_def split: if_splits)

lemma links_same:
  "InsertPackage q d = Inr d' \<Longrightarrow> t_claim_link d' = t_claim_link d"
  "InsertPackageFile f d = Inr d' \<Longrightarrow> t_claim_link d' = t_claim_link d"
  "SetClaimHolder r h d = Inr d' \<Longrightarrow> t_claim_link d' = t_claim_link d"
  "FinishTxn n st w d = Inr d' \<Longrightarrow> t_claim_link d' = t_claim_link d"
  by (auto simp: InsertPackage_def InsertPackageFile_def SetClaimHolder_def FinishTxn_def
      split: if_splits)

lemma holderOf_SetClaimHolder:
  assumes "SetClaimHolder r h d = Inr d'"
  shows "holderOf d' = (holderOf d)(r \<mapsto> h)"
proof (cases "list_ex (\<lambda>k. ch_Role k = r) (t_claim_holder d)")
  case True
  have "map_of (map (\<lambda>k. (ch_Role k, ch_Holder k))
      (map (\<lambda>k. if ch_Role k = r then k\<lparr>ch_Holder := h\<rparr> else k) hs)) x =
      (if x = r \<and> list_ex (\<lambda>k. ch_Role k = r) hs then Some h
       else map_of (map (\<lambda>k. (ch_Role k, ch_Holder k)) hs) x)" for hs x
    by (induction hs) auto
  note upd = this
  from True assms show ?thesis
    by (auto simp: SetClaimHolder_def holderOf_def fun_eq_iff upd simp del: map_map split: if_splits)
next
  case False
  then have "r \<notin> dom (holderOf d)" by (auto simp: dom_holderOf list_ex_iff)
  with False assms show ?thesis
    by (auto simp: SetClaimHolder_def holderOf_def fun_eq_iff map_add_def split: if_splits option.splits)
qed

lemma holderOf_DeleteClaimHolder:
  assumes "DeleteClaimHolder r d = Inr d'"
  shows "holderOf d' = (holderOf d)(r := None)"
proof -
  have "map_of (map (\<lambda>k. (ch_Role k, ch_Holder k)) (filter (\<lambda>k. ch_Role k \<noteq> r) hs)) =
      (map_of (map (\<lambda>k. (ch_Role k, ch_Holder k)) hs))(r := None)" for hs
    by (induction hs) (auto simp: fun_eq_iff)
  with assms show ?thesis by (auto simp: DeleteClaimHolder_def holderOf_def)
qed

lemma within_DeletePackage:
  assumes "DeletePackage n d = Inr d'"
  shows "linksWithin P d \<Longrightarrow> linksWithin P d'" and "rolesWithin R d \<Longrightarrow> rolesWithin R d'"
  using assms
  by (auto simp: linksWithin_def rolesWithin_def dom_holderOf DeletePackage_def Let_def)

lemma within_same:
  "holderOf d' = holderOf d \<Longrightarrow> rolesWithin R d' = rolesWithin R d"
  "t_claim_link d' = t_claim_link d \<Longrightarrow> linksWithin P d' = linksWithin P d"
  by (simp_all add: rolesWithin_def linksWithin_def)

lemma within_applyMetadata:
  "does (applyMetadata ss) (\<lambda>d d'. linksWithin P d \<and> rolesWithin R d \<longrightarrow> linksWithin P d' \<and> rolesWithin R d')"
proof -
  let ?I = "\<lambda>d d'. linksWithin P d \<and> rolesWithin R d \<longrightarrow> linksWithin P d' \<and> rolesWithin R d'"
  have trans: "does (bnd a (\<lambda>_. b)) ?I" if "does a ?I" "does b ?I" for a b
    by (rule does_mono [OF does_bnd [OF that]]) auto
  have del: "does (exec (DeletePackage n)) ?I" for n
    by (intro does_exec) (blast intro: within_DeletePackage)
  have ins: "does (exec (InsertPackage p)) ?I" for p
    by (intro does_exec) (metis within_same holderOf_same(3) links_same(1))
  have files: "does (each (\<lambda>f. exec (InsertPackageFile f)) fs) ?I" for fs
    by (intro does_each_keep does_exec) (metis within_same holderOf_same(4) links_same(2))
  have cond: "does a ?I \<Longrightarrow> does b ?I \<Longrightarrow> does (if c then a else b) ?I" for a b c by simp
  have stay: "does (ret ()) ?I" by (rule does_ret) simp
  have "does (insertRows q fs n) ?I" for q fs n
    unfolding insertRows_def by (cases q) (simp_all only: option.case, rule does_raise, rule trans [OF ins files])
  then have "does (applyMetadataOf s) ?I" for s
    unfolding applyMetadataOf_def Let_def by (intro cond trans del stay)
  then show ?thesis unfolding applyMetadata_def by (rule does_each_keep)
qed

lemma fold_holders:
  "fold (\<lambda>(r, h) H. H(r \<mapsto> h)) (map_entries m) H k =
     (case map_get m k of Some h \<Rightarrow> Some h | None \<Rightarrow> H k)"
proof -
  have "fold (\<lambda>(r, h) H. H(r \<mapsto> h)) xs H k = (case map_of xs k of Some h \<Rightarrow> Some h | None \<Rightarrow> H k)"
    if "distinct (map fst xs)" for xs
    using that
  proof (induction xs arbitrary: H)
    case (Cons x xs)
    then have "map_of xs (fst x) = None" by (simp add: map_of_eq_None_iff)
    with Cons show ?case
      by (cases x) (auto split: option.split)
  qed simp
  moreover have "distinct (map fst (map_entries m))"
    by (simp add: map_entries_keys gomap.distinct_keys)
  moreover have "map_of (map_entries m) k = map_get m k"
  proof (cases "map_get m k")
    case None
    then show ?thesis using gomap.keys_in [of k m] by (simp add: map_of_eq_None_iff map_entries_keys
        flip: set_map [of fst])
  next
    case (Some v)
    then have "map_of (map_entries m) k = Some v"
      by (intro map_of_is_SomeI) (simp_all add: map_entries_keys gomap.distinct_keys map_entries_mem)
    with Some show ?thesis by simp
  qed
  ultimately show ?thesis by simp
qed

lemma does_applyClaimRows:
  "does (applyClaimRows delHolders setHolders delLinks insLinks)
     (\<lambda>d d'. linksWithin (set delLinks) d \<and> rolesWithin (set delHolders \<union> dom (map_get setHolders)) d \<longrightarrow>
        catalogueOf d' = catalogueOf d \<and> holderOf d' = map_get setHolders \<and> t_claim_link d' = insLinks)"
proof -
  have del: "does (each (\<lambda>r. exec (DeleteClaimHolder r)) delHolders)
      (\<lambda>d d'. linksWithin (set delLinks) d \<longrightarrow> linksWithin (set delLinks) d' \<and>
         (catalogueOf d', holderOf d') =
           fold (\<lambda>r (C, H). (C, H(r := None))) delHolders (catalogueOf d, holderOf d))"
    by (intro does_each does_exec)
       (auto simp: catalogue_claims holderOf_DeleteClaimHolder linksWithin_def DeleteClaimHolder_def)
  have set: "does (each (\<lambda>(r, h). exec (SetClaimHolder r h)) (map_entries setHolders))
      (\<lambda>d d'. linksWithin (set delLinks) d \<longrightarrow> linksWithin (set delLinks) d' \<and>
         (catalogueOf d', holderOf d') =
           fold (\<lambda>(r, h) (C, H). (C, H(r \<mapsto> h))) (map_entries setHolders) (catalogueOf d, holderOf d))"
    by (intro does_each)
       (auto split: prod.split intro!: does_exec
          simp: catalogue_claims holderOf_SetClaimHolder linksWithin_def links_same)
  have unlink: "does (each (\<lambda>p. exec (DeleteClaimLink p)) delLinks)
      (\<lambda>d d'. True \<longrightarrow> True \<and> (catalogueOf d', holderOf d', t_claim_link d') =
         fold (\<lambda>p (C, H, L). (C, H, filter (\<lambda>l. cl_Path l \<noteq> p) L)) delLinks
           (catalogueOf d, holderOf d, t_claim_link d))"
    by (intro does_each [where I = "\<lambda>d. True"] does_exec)
       (auto simp: DeleteClaimLink_def catalogueOf_def rowOf_def filesOf_def holderOf_def)
  have link: "does (each (\<lambda>l. exec (InsertClaimLink l)) insLinks)
      (\<lambda>d d'. True \<longrightarrow> True \<and> (catalogueOf d', holderOf d', t_claim_link d') =
         fold (\<lambda>l (C, H, L). (C, H, L @ [l])) insLinks (catalogueOf d, holderOf d, t_claim_link d))"
    by (intro does_each [where I = "\<lambda>d. True"] does_exec)
       (auto simp: catalogue_claims holderOf_same InsertClaimLink_def split: if_splits)
  have remove: "fold (\<lambda>r (C, H). (C, H(r := None))) rs (C, H) = (C, H |` (- set rs))" for rs C
    and H :: "string \<rightharpoonup> string"
    by (induction rs arbitrary: H) (auto simp: restrict_map_def fun_eq_iff intro!: arg_cong2 [where f = Pair])
  have grant: "fold (\<lambda>(r, h) (C, H). (C, H(r \<mapsto> h))) xs (C, H) = (C, fold (\<lambda>(r, h) H. H(r \<mapsto> h)) xs H)"
    for xs C and H :: "string \<rightharpoonup> string"
    by (induction xs arbitrary: H) auto
  have clear: "fold (\<lambda>p (C, H, L). (C, H, filter (\<lambda>l. cl_Path l \<noteq> p) L)) ps (C, H, L) =
      (C, H, filter (\<lambda>l. cl_Path l \<notin> set ps) L)" for ps C L and H :: "string \<rightharpoonup> string"
    by (induction ps arbitrary: L) (auto simp: conj_commute intro: filter_cong)
  have fill: "fold (\<lambda>l (C, H, L). (C, H, L @ [l])) ls (C, H, L) = (C, H, L @ ls)" for ls C L
    and H :: "string \<rightharpoonup> string"
    by (induction ls arbitrary: L) auto
  have post: "fold (\<lambda>(r, h) H. H(r \<mapsto> h)) (map_entries setHolders) (H |` (- set delHolders)) = map_get setHolders"
    if "dom H \<subseteq> set delHolders \<union> dom (map_get setHolders)" for H
    using that by (auto simp: fun_eq_iff fold_holders restrict_map_def split: option.split)
  have gone: "linksWithin (set delLinks) d \<Longrightarrow> filter (\<lambda>l. cl_Path l \<notin> set delLinks) (t_claim_link d) = []" for d
    by (auto simp: linksWithin_def filter_empty_conv)
  show ?thesis
    unfolding applyClaimRows_def
  proof (rule does_mono [OF does_bnd [OF del does_bnd [OF set does_bnd [OF unlink link]]]],
      elim relcomppE, intro impI, elim conjE, goal_cases)
    case (1 d d' d1 d2 d3)
    from 1(1,5) have d1: "linksWithin (set delLinks) d1" "catalogueOf d1 = catalogueOf d"
      "holderOf d1 = holderOf d |` (- set delHolders)" by (simp_all add: remove)
    with 1(2) have d2: "linksWithin (set delLinks) d2" "catalogueOf d2 = catalogueOf d"
      "holderOf d2 = map_get setHolders"
      using 1(6) by (simp_all add: grant post rolesWithin_def)
    with 1(3) gone [of d2] have d3: "catalogueOf d3 = catalogueOf d" "holderOf d3 = map_get setHolders"
      "t_claim_link d3 = []" by (simp_all add: clear)
    with 1(4) show ?case by (simp add: fill)
  qed
qed

text \<open>Together, the rows of a commit, whatever it notes in the journal.\<close>

definition commitRows :: "nat \<Rightarrow> stagedOp list \<Rightarrow> claimWork \<Rightarrow> string \<Rightarrow> unit act" where
  "commitRows n ss w note =
     bnd (bnd (applyMetadata ss) (\<lambda>_. applyClaimMetadata w)) (\<lambda>_. exec (FinishTxn n TxnCommitted note))"

lemma commitBody_rows:
  "commitBody p = commitRows (pt_txnID p) (pt_staged p) (pt_claimW p) (operationSummary (pt_plan p))"
  by (simp add: commitBody_def commitRows_def)

lemma does_commitRows:
  assumes "list_all ownRows ss"
  shows "does (commitRows n ss w note)
     (\<lambda>d d'. db_ok d \<and> linksWithin (set (cw_delLinks w)) d \<and>
        rolesWithin (set (cw_delHolders w) \<union> dom (map_get (cw_setHolders w))) d \<longrightarrow>
        catalogueOf d' = fold applyStaged ss (catalogueOf d) \<and>
        holderOf d' = map_get (cw_setHolders w) \<and> t_claim_link d' = cw_insLinks w)"
proof -
  have conj: "does a (\<lambda>d d'. R d d' \<and> S d d')" if "does a R" "does a S" for a R S
    using that by (simp add: does_def)
  have fin: "does (exec (FinishTxn n st x))
      (\<lambda>d d'. catalogueOf d' = catalogueOf d \<and> holderOf d' = holderOf d \<and> t_claim_link d' = t_claim_link d)"
    for n st x by (intro does_exec) (simp add: catalogue_claims holderOf_same links_same)
  show ?thesis
    unfolding commitRows_def applyClaimMetadata_def
    by (rule does_mono [OF does_bnd [OF does_bnd [OF
          conj [OF does_applyMetadata [OF assms(1)] within_applyMetadata] does_applyClaimRows] fin]])
       (fastforce simp: relcompp_apply)
qed

end
