(* ===== verification/ExecuteFacts.thy ===== *)
theory ExecuteFacts
  imports CommitFacts
begin

section \<open>Atomicity of a transaction\<close>

text \<open>
  The interface between the journal and the rest of the database, its two interpretations,
  what planning hands to the commit, and from these what any run of \<open>Execute\<close>, under any
  failures, does to the tables of the packages and claims.
\<close>

lemma stable_exec:
  assumes "\<And>d d'. Q d \<Longrightarrow> f d = Inr d' \<Longrightarrow> Q d'"
  shows "stable (\<lambda>m. Q (db m)) (exec f)"
  unfolding exec_def using assms by (intro stable_perform) (auto simp: rbind_eq_Inr)

locale journal_stable =
  fixes Q :: "database \<Rightarrow> bool"
  assumes opened: "Q d \<Longrightarrow> BeginCrossRootTxn v s x d = Inr (n, d') \<Longrightarrow> Q d'"
    and op_row: "Q d \<Longrightarrow> InsertTxnOp o' d = Inr d' \<Longrightarrow> Q d'"
    and file_row: "Q d \<Longrightarrow> InsertTxnFile f d = Inr d' \<Longrightarrow> Q d'"
    and dir_row: "Q d \<Longrightarrow> InsertTxnDir r d = Inr d' \<Longrightarrow> Q d'"
    and payload: "Q d \<Longrightarrow> SetCommitPayload n cp d = Inr d' \<Longrightarrow> Q d'"
    and closed: "Q d \<Longrightarrow> FinishTxn n TxnRolledBack w d = Inr d' \<Longrightarrow> Q d'"
begin

abbreviation keeps :: "'a act \<Rightarrow> bool" where
  "keeps a \<equiv> stable (\<lambda>m. Q (db m)) a"

lemma keeps_statements:
  shows "keeps (exec (InsertTxnOp o'))" and "keeps (exec (InsertTxnFile f))"
    and "keeps (exec (InsertTxnDir r))" and "keeps (exec (SetCommitPayload n cp))"
    and "keeps (exec (FinishTxn n TxnRolledBack w))"
  by (rule stable_exec, erule op_row file_row dir_row payload closed, assumption)+

lemma keeps_begin: "keeps (execGet (BeginCrossRootTxn v s x))"
  unfolding execGet_def by (rule stable_perform) (auto simp: rbind_eq_Inr intro: opened)

lemma keeps_finishRolledBack: "keeps (finishRolledBack env n ops dirs reason)"
  unfolding finishRolledBack_def by (intro db_rules stable_rules keeps_statements)

lemma keeps_giveUp: "keeps (giveUp env p reason e)"
  unfolding giveUp_def abandon_def by (intro stable_rules keeps_finishRolledBack)

lemma keeps_writeJournal: "keeps (writeJournal n ss)"
  unfolding writeJournal_def by (intro db_rules stable_rules keeps_statements)

lemma keeps_runSteps: "(\<And>s. s \<in> snd ` set steps \<Longrightarrow> keeps s) \<Longrightarrow> keeps (runSteps env p steps)"
proof (induction env p steps rule: runSteps.induct)
  case (2 env p reason a rest)
  then show ?case by (auto intro!: stable_rules keeps_giveUp)
qed (simp add: stable_ret)

lemma keeps_putInPlace: "keeps (putInPlace env x provided p)"
  unfolding putInPlace_def
proof (intro keeps_runSteps)
  fix a :: "unit act"
  assume "a \<in> snd ` set ([(''recording the journal failed'', writeJournal (pt_txnID p) (pt_staged p))] @
        (if x = [] then []
         else [(''recording the commit payload failed'',
                exec (SetCommitPayload (pt_txnID p) (buildCommitPayload (pt_staged p) (pt_claimW p))))]) @
        [(''staging failed'', each (materializeOne env provided) (pt_staged p)),
         (''staging claim links failed'', materializeClaims (pt_claimW p)),
         (''applying file changes failed'', commitOps (pt_ops p))])"
  then consider "a = writeJournal (pt_txnID p) (pt_staged p)"
    | "a = exec (SetCommitPayload (pt_txnID p) (buildCommitPayload (pt_staged p) (pt_claimW p)))"
    | "a = each (materializeOne env provided) (pt_staged p)"
    | "a = materializeClaims (pt_claimW p)" | "a = commitOps (pt_ops p)"
    by (auto split: if_splits)
  then show "keeps a"
    by cases (simp_all add: keeps_writeJournal keeps_statements db_rules stable_rules)
qed

lemma keeps_openTxn: "keeps (openTxn env ops x provided)"
  unfolding openTxn_def by (intro db_rules stable_rules keeps_begin)

lemma keeps_planTxn: "keeps (planTxn env ops provided n)"
  unfolding planTxn_def planClaimsFor_def by (intro db_rules stable_rules keeps_giveUp)

lemma keeps_prepareWith: "keeps (prepareWith env ops x provided)"
  unfolding prepareWith_def
  by (intro stable_rules keeps_openTxn keeps_planTxn keeps_putInPlace)

lemma keeps_prepareTxn: "keeps (prepareTxn env ops x provided)"
  unfolding prepareTxn_def closeOnError_def
  by (intro db_rules stable_rules keeps_prepareWith)

lemma keeps_rollbackPrepared: "keeps (rollbackPrepared env p)"
  unfolding rollbackPrepared_def by (intro db_rules keeps_finishRolledBack)

lemma keeps_rollbackTxn: "keeps (rollbackTxn env txn reason)"
  unfolding rollbackTxn_def by (intro db_rules stable_rules keeps_statements)

lemma keeps_recoverPending: "keeps (recoverPending env)"
  unfolding recoverPending_def by (intro db_rules stable_rules keeps_rollbackTxn)

lemma keeps_Recover: "keeps (Recover env)"
  unfolding Recover_def by (intro db_rules keeps_recoverPending)

end

text \<open>The tables of the packages and claims, and the schema.\<close>

definition packageState ::
    "database \<Rightarrow> dbPackage list \<times> PackageFile list \<times> ClaimHolder list \<times> ClaimLink list" where
  "packageState d = (t_package d, t_package_file d, t_claim_holder d, t_claim_link d)"

interpretation package_tables: journal_stable "\<lambda>d. packageState d = x" for x
  by unfold_locales
     (auto simp: packageState_def BeginCrossRootTxn_def InsertTxnOp_def InsertTxnFile_def
        InsertTxnDir_def SetCommitPayload_def FinishTxn_def Let_def split: if_splits)

interpretation schema: journal_stable db_ok
  by unfold_locales (rule ok_statements, assumption+)+

text \<open>A transaction of the database: all of its statements or none.\<close>

lemma wp_Tx:
  assumes "does body R" and "stable (\<lambda>m. Q (db m)) body" and "Q (db m)"
  shows "wp (Tx body) (\<lambda>u m'. R (db m) (db m') \<and> Q (db m')) (\<lambda>e m'. db m' = db m) (\<lambda>m'. db m' = db m) m"
proof -
  have "db m2 = db m1" if "perform (\<lambda>m. Inr ((), m)) m1 = (Done u, m2)" for u m1 m2
    using that by (auto simp: perform_def split: list.splits fault.splits)
  moreover have "Q (db m1)" if "body m = (r, m1)" for r m1
    using stableD [OF assms(2,3)] that by (auto simp: wp_def split: outcome.splits)
  ultimately show ?thesis
    using assms(1) unfolding wp_def Tx_def bnd_def does_def
    by (auto split: prod.splits outcome.splits)
qed

lemma keeps_ok_commitRows: "stable (\<lambda>m. db_ok (db m)) (commitRows n ss w note)"
proof -
  have "stable (\<lambda>m. db_ok (db m)) (exec f)" if "\<And>d d'. db_ok d \<Longrightarrow> f d = Inr d' \<Longrightarrow> db_ok d'" for f
    using that by (rule stable_exec)
  note ok = this
  have "stable (\<lambda>m. db_ok (db m)) (insertRows q fs n)" for q fs n
    unfolding insertRows_def by (intro stable_rules ok) (blast intro: ok_statements)+
  then have "stable (\<lambda>m. db_ok (db m)) (applyMetadataOf s)" for s
    unfolding applyMetadataOf_def Let_def
    by (intro stable_rules ok) (blast intro: ok_statements)+
  then show ?thesis
    unfolding commitRows_def applyMetadata_def applyClaimMetadata_def applyClaimRows_def
    by (intro stable_rules ok) (blast intro: ok_statements)+
qed

end
