(* ===== verification/RecoverFacts.thy ===== *)
theory RecoverFacts
  imports RollbackFacts ExecuteFacts
begin

section \<open>Recovery from the journal\<close>

text \<open>
  What \<open>Recover\<close> does on a machine whose last run was cut short, when it meets no fault itself:
  it reads the operations back, undoes them, removes the directories the transaction made and
  closes the journal.
\<close>

abbreviation runs :: "'a act \<Rightarrow> ('a \<Rightarrow> machine \<Rightarrow> bool) \<Rightarrow> machine \<Rightarrow> bool" where
  "runs a Q m \<equiv> wp a Q (\<lambda>_ _. False) (\<lambda>_. False) m"

lemma runs_result: "runs a Q m \<Longrightarrow> \<exists>x m'. a m = (Done x, m') \<and> Q x m'"
  by (auto simp: wp_def split: prod.splits outcome.splits)

lemma wp_sys_quiet:
  "faults m = [] \<Longrightarrow> wp (sys f) Q F C m =
     (case f (tree m) of Inl e \<Rightarrow> F e m | Inr (x, t) \<Rightarrow> Q x (m\<lparr>tree := t\<rparr>))"
  by (cases m) (auto simp: wp_def sys_def perform_def split: sum.splits)

lemma runs_query: "faults m = [] \<Longrightarrow> wp (query f) Q F C m = Q (f (db m)) m"
  by (cases m) (simp add: wp_def query_def perform_def)

subsection \<open>Opening directories\<close>

fun reachable :: "fsys \<Rightarrow> path \<Rightarrow> string list \<Rightarrow> failure + path" where
  "reachable t cur [] = Inr cur"
| "reachable t cur (c # cs) =
     (if \<not> isDir t cur then Inl ENOENT
      else (case look t (cur @ [c]) of
              None \<Rightarrow> Inl ENOENT
            | Some n \<Rightarrow> if isLeaf n then Inl SymlinkComponent else reachable t (cur @ [c]) cs))"

lemma reachable_path: "reachable t cur cs = Inr p \<Longrightarrow> p = cur @ cs"
  by (induction t cur cs rule: reachable.induct) (auto split: if_splits option.splits)

lemma openDirAt_quiet:
  assumes "faults m = []"
  shows "wp (openDirAt cur c) Q F C m =
     (case sys_openDir cur c (tree m) of Inl e \<Rightarrow> F e m | Inr (p, t) \<Rightarrow> Q p m)"
  using assms by (auto simp: openDirAt_def wp_sys_quiet sys_openDir_def split: option.splits)

lemma walkFrom_quiet:
  assumes "faults m = []"
  shows "wp (walkFrom False cur cs) Q F C m =
     (case reachable (tree m) cur cs of Inl e \<Rightarrow> F e m | Inr p \<Rightarrow> Q p m)"
proof (induction cs arbitrary: cur)
  case (Cons c cs)
  have step: "wp (walkStep False cur c) Q' F C m =
      (case sys_openDir cur c (tree m) of Inl e \<Rightarrow> F (walkError e) m | Inr (p, t) \<Rightarrow> Q' p m)" for Q'
    by (auto simp: walkStep_def wp_bnd wp_attempt openDirAt_quiet [OF assms] split: sum.splits)
  show ?case
    using Cons.IH by (auto simp: wp_bnd step sys_openDir_def split: option.splits)
qed simp

text \<open>What opening the directory of a path gives, from the tree alone.\<close>

definition opensAt :: "string \<Rightarrow> fsys \<Rightarrow> string \<Rightarrow> failure + path option" where
  "opensAt root t p =
     (case pinRel root p of
        Inl e \<Rightarrow> Inl e
      | Inr rel \<Rightarrow>
          (case safeComponents (fst (safeSplit rel)) of
             Inl e \<Rightarrow> Inl e
           | Inr cs \<Rightarrow>
               (case reachable t [] cs of
                  Inr d \<Rightarrow> Inr (Some d)
                | Inl e \<Rightarrow> if e = ENOENT then Inr None else Inl e)))"

definition pinsReach :: "fsys \<Rightarrow> machine \<Rightarrow> bool" where
  "pinsReach t m \<longleftrightarrow>
     (\<forall>k p. map_get (pinned m) k = Some p \<longrightarrow> (\<exists>cs. safeComponents k = Inr cs \<and> reachable t [] cs = Inr p))"

definition onlyPins :: "machine \<Rightarrow> machine \<Rightarrow> bool" where
  "onlyPins m m' \<longleftrightarrow> (\<exists>ps. m' = m\<lparr>pinned := ps\<rparr>)"

lemma onlyPins_refl [simp]: "onlyPins m m"
  by (cases m) (simp add: onlyPins_def)

lemma onlyPins_trans: "onlyPins m m' \<Longrightarrow> onlyPins m' m'' \<Longrightarrow> onlyPins m m''"
  by (auto simp: onlyPins_def)

lemma onlyPins_fields:
  "onlyPins m m' \<Longrightarrow> tree m' = tree m \<and> db m' = db m \<and> faults m' = faults m \<and> statFaults m' = statFaults m"
  by (auto simp: onlyPins_def)

lemma componentsFrom_noent: "componentsFrom rel cs \<noteq> Inl ENOENT"
  by (induction cs) (auto simp: rbind_def split: sum.splits)

lemma walk_quiet:
  assumes "faults m = []"
  shows "wp (walk False rel) Q F C m =
     (case safeComponents rel of
        Inl e \<Rightarrow> F e m
      | Inr cs \<Rightarrow> (case reachable (tree m) [] cs of Inl e \<Rightarrow> F e m | Inr p \<Rightarrow> Q p m))"
  by (simp add: walk_def walkFrom_quiet [OF assms] split: sum.splits)

lemma wp_remember:
  "wp (remember k p) Q F C m = Q p (m\<lparr>pinned := map_put (pinned m) k p\<rparr>)"
  by (simp add: wp_def remember_def)

lemma existingDirFor_quiet:
  assumes "faults m = []" and "pinsReach (tree m) m"
  shows "wp (existingDirFor root a)
     (\<lambda>d m'. opensAt root (tree m) a = Inr d \<and> onlyPins m m' \<and> pinsReach (tree m) m')
     (\<lambda>e m'. opensAt root (tree m) a = Inl e) (\<lambda>_. False) m"
proof (cases "pinRel root a")
  case (Inl e)
  then show ?thesis by (simp add: existingDirFor_def opensAt_def wp_def raise_def)
next
  case (Inr rel)
  let ?k = "fst (safeSplit rel)"
  show ?thesis
  proof (cases "map_get (pinned m) ?k")
    case (Some p)
    with assms(2) obtain cs where "safeComponents ?k = Inr cs" "reachable (tree m) [] cs = Inr p"
      unfolding pinsReach_def by blast
    with Inr Some assms(2) show ?thesis by (simp add: existingDirFor_def opensAt_def wp_def Let_def)
  next
    case None
    have "wp (existingDirFor root a) Q F C m =
       wp (bnd (attempt (walk False ?k)) (\<lambda>r. case r of
              Inl e \<Rightarrow> if e = ENOENT then ret None else raise e
            | Inr p \<Rightarrow> bnd (remember ?k p) (\<lambda>p. ret (Some p)))) Q F C m" for Q F C
      using Inr None by (simp add: existingDirFor_def wp_def Let_def)
    moreover have "safeComponents ?k \<noteq> Inl ENOENT" by (simp add: safeComponents_def componentsFrom_noent)
    moreover have "\<exists>ps. m = m\<lparr>pinned := ps\<rparr>" by (rule exI [of _ "pinned m"]) simp
    ultimately show ?thesis
      using Inr assms
      by (auto simp: wp_bnd wp_attempt walk_quiet wp_remember opensAt_def onlyPins_def pinsReach_def gomap.get_put
          split: sum.splits)
  qed
qed

subsection \<open>Reading the operations back\<close>

definition journalled :: "string \<Rightarrow> fsys \<Rightarrow> TxnFile \<Rightarrow> fileOp" where
  "journalled root t f =
     \<lparr>fo_finalPath = tf_FinalPath f, fo_action = fileActionFromDB (tf_Action f),
      fo_stagedPath = tf_StagedPath f, fo_backupPath = tf_BackupPath f, fo_keepBackup = False,
      fo_dir = (case opensAt root t (tf_FinalPath f) of Inl e \<Rightarrow> None | Inr d \<Rightarrow> d)\<rparr>"

lemma fileOpsFromJournal_quiet:
  assumes "faults m = []" and "pinsReach (tree m) m"
    and "\<forall>f\<in>set files. isl (opensAt root (tree m) (tf_FinalPath f)) = False"
  shows "runs (fileOpsFromJournal root files)
     (\<lambda>ops m'. ops = map (journalled root (tree m)) files \<and> onlyPins m m' \<and> pinsReach (tree m) m') m"
  unfolding fileOpsFromJournal_def using assms
proof (induction files arbitrary: m)
  case (Cons f files)
  have "runs (fileOpFromJournal root f)
      (\<lambda>op m'. op = journalled root (tree m) f \<and> onlyPins m m' \<and> pinsReach (tree m) m') m"
    unfolding fileOpFromJournal_def wp_bnd
    by (rule wp_mono [OF existingDirFor_quiet [OF Cons.prems(1,2)]])
       (use Cons.prems(3) in \<open>auto simp: journalled_def\<close>)
  then show ?case
    unfolding each_map.simps wp_bnd
  proof (elim wp_mono, goal_cases)
    case (1 op m')
    then have m': "tree m' = tree m" "faults m' = []" "onlyPins m m'" and "pinsReach (tree m') m'"
      using Cons.prems(1) onlyPins_fields [of m m'] by auto
    have "runs (each_map (fileOpFromJournal root) files)
        (\<lambda>ops m''. ops = map (journalled root (tree m')) files \<and> onlyPins m' m'' \<and> pinsReach (tree m') m'') m'"
      using Cons.prems(3) m'(1,2) \<open>pinsReach (tree m') m'\<close> by (intro Cons.IH) auto
    then show ?case
      by (rule wp_mono) (use 1 m' onlyPins_trans in auto)
  qed auto
qed simp

subsection \<open>Removing the directories that were made\<close>

definition noLeafOn :: "fsys \<Rightarrow> path \<Rightarrow> bool" where
  "noLeafOn t cs \<longleftrightarrow> (\<forall>k. prefix k cs \<and> k \<noteq> [] \<longrightarrow> (case look t k of None \<Rightarrow> True | Some n \<Rightarrow> \<not> isLeaf n))"

definition pruned :: "fsys \<Rightarrow> fsys \<Rightarrow> bool" where
  "pruned t t' \<longleftrightarrow> (\<forall>k. look t' k = look t k \<or> look t' k = None \<and> \<not> leafy (look t k))"

lemma pruned_refl [simp]: "pruned t t"
  by (simp add: pruned_def)

lemma pruned_noLeafOn: "pruned t t' \<Longrightarrow> noLeafOn t cs \<Longrightarrow> noLeafOn t' cs"
  unfolding pruned_def noLeafOn_def by (metis option.case(1))

lemma noLeafOn_prefix: "noLeafOn t (cs @ ds) \<Longrightarrow> noLeafOn t cs"
  by (auto simp: noLeafOn_def)

lemma reachable_noLeaf:
  assumes "noLeafOn t (cur @ cs)" and "reachable t cur cs = Inl e"
  shows "e = ENOENT"
  using assms
proof (induction t cur cs rule: reachable.induct)
  case (2 t cur c cs)
  have "case look t (cur @ [c]) of None \<Rightarrow> True | Some n \<Rightarrow> \<not> isLeaf n"
    using 2(2) unfolding noLeafOn_def by (metis append.assoc append_Cons append_Nil prefixI snoc_eq_iff_butlast)
  with 2 show ?case by (auto split: if_splits option.splits)
qed simp

text \<open>A directory the journal names: its components, and a name of its own.\<close>

definition dirAt :: "string \<Rightarrow> string \<Rightarrow> path \<Rightarrow> bool" where
  "dirAt root dir cs \<longleftrightarrow>
     (\<exists>rel ds. pinRel root dir = Inr rel \<and> safeComponents (fst (safeSplit rel)) = Inr ds \<and>
        cs = ds @ [baseName dir] \<and> checkName (baseName dir))"

definition pinsNamed :: "machine \<Rightarrow> bool" where
  "pinsNamed m \<longleftrightarrow> (\<forall>k p. map_get (pinned m) k = Some p \<longrightarrow> safeComponents k = Inr p)"

lemma pinsReach_named: "pinsReach t m \<Longrightarrow> pinsNamed m"
  unfolding pinsReach_def pinsNamed_def by (metis append_Nil reachable_path)

lemma existingDirFor_named:
  assumes "faults m = []" and "pinsNamed m" and "pinRel root a = Inr rel"
    and "safeComponents (fst (safeSplit rel)) = Inr ds" and "noLeafOn (tree m) ds"
  shows "runs (existingDirFor root a)
     (\<lambda>d m'. (d = None \<or> d = Some ds) \<and> onlyPins m m' \<and> pinsNamed m') m"
proof (cases "map_get (pinned m) (fst (safeSplit rel))")
  case (Some p)
  with assms(2,4) have "p = ds" unfolding pinsNamed_def by fastforce
  with Some assms show ?thesis by (simp add: existingDirFor_def wp_def)
next
  case None
  have "wp (existingDirFor root a) Q F C m =
     wp (bnd (attempt (walk False (fst (safeSplit rel)))) (\<lambda>r. case r of
            Inl e \<Rightarrow> if e = ENOENT then ret None else raise e
          | Inr p \<Rightarrow> bnd (remember (fst (safeSplit rel)) p) (\<lambda>p. ret (Some p)))) Q F C m" for Q F C
    using assms(3) None by (simp add: existingDirFor_def wp_def Let_def)
  moreover have "\<exists>ps. m = m\<lparr>pinned := ps\<rparr>" by (rule exI [of _ "pinned m"]) simp
  moreover have "reachable (tree m) [] ds = Inl e \<Longrightarrow> e = ENOENT" for e
    using reachable_noLeaf [of "tree m" "[]" ds e] assms(5) by simp
  moreover have "reachable (tree m) [] ds = Inr p \<Longrightarrow> p = ds" for p
    using reachable_path by fastforce
  ultimately show ?thesis
    using assms(1,2,4)
    by (auto simp: wp_bnd wp_attempt walk_quiet wp_remember onlyPins_def pinsNamed_def gomap.get_put
        split: sum.splits)
qed

lemma wp_at_gone:
  assumes "checkName a" and "\<not> isDir (tree m) d" and "faults m = []" and "F ENOENT m"
  shows "wp (at d a f) Q F C m"
  using assms by (simp add: at_def wp_sys_quiet)

lemma removeCreatedDir_quiet:
  assumes "faults m = []" and "pinsNamed m" and "dirAt root dir cs" and "noLeafOn (tree m) cs"
  shows "runs (removeCreatedDir root dir)
     (\<lambda>u m'. pinsNamed m' \<and> faults m' = [] \<and> statFaults m' = statFaults m \<and> db m' = db m \<and>
        pruned (tree m) (tree m')) m"
proof -
  from assms(3) obtain rel ds where r: "pinRel root dir = Inr rel" "safeComponents (fst (safeSplit rel)) = Inr ds"
    "cs = ds @ [baseName dir]" "checkName (baseName dir)"
    unfolding dirAt_def by blast
  from assms(4) have leaf: "noLeafOn (tree m) ds" unfolding r(3) by (rule noLeafOn_prefix)
  have own: "case look (tree m) (ds @ [baseName dir]) of None \<Rightarrow> True | Some n \<Rightarrow> \<not> isLeaf n"
    using assms(4) unfolding r(3) noLeafOn_def by blast
  show ?thesis
    unfolding removeCreatedDir_def wp_bnd
  proof (rule wp_mono [OF existingDirFor_named [OF assms(1,2) r(1,2) leaf]], goal_cases)
    case (1 d m')
    then have m': "tree m' = tree m" "faults m' = []" "db m' = db m" "statFaults m' = statFaults m" "pinsNamed m'"
      using assms(1) onlyPins_fields [of m m'] by auto
    show ?case
    proof (cases d)
      case None
      with m' show ?thesis by simp
    next
      case (Some x)
      with 1 have x: "x = ds" by simp
      have "runs (attempt (RemoveDir ds (baseName dir)))
          (\<lambda>r m''. (\<forall>e. r = Inl e \<longrightarrow> e \<in> {ENOENT, ENOTEMPTY}) \<and> pinsNamed m'' \<and> faults m'' = [] \<and>
             statFaults m'' = statFaults m \<and> db m'' = db m \<and> pruned (tree m) (tree m'')) m'"
      proof (cases "isDir (tree m') ds")
        case False
        with m' r(4) show ?thesis by (simp add: RemoveDir_def wp_attempt wp_at_gone)
      next
        case True
        have gone: "pruned (tree m) (erase (tree m) k)" if "\<not> leafy (look (tree m) k)" for k
          using that by (simp add: pruned_def fsys_simps)
        from True m' r(4) own show ?thesis
          by (cases "look (tree m) (ds @ [baseName dir])"; cases "inhabited (tree m) (ds @ [baseName dir])")
             (auto simp: RemoveDir_def wp_attempt wp_at wp_sys_quiet sys_rmdir_def pinsNamed_def intro!: gone)
      qed
      then show ?thesis
        unfolding Some x option.case wp_bnd
        by (rule wp_mono) (auto split: sum.splits)
    qed
  qed auto
qed

lemma pruned_trans: "pruned t u \<Longrightarrow> pruned u v \<Longrightarrow> pruned t v"
  unfolding pruned_def by metis

lemma runs_collecting:
  assumes "I m" and "\<And>x m. x \<in> set xs \<Longrightarrow> I m \<Longrightarrow> runs (f x) (\<lambda>u. I) m"
  shows "runs (collecting f xs) (\<lambda>errs m'. errs = [] \<and> I m') m"
  using assms
proof (induction xs arbitrary: m)
  case (Cons x xs)
  have "runs (f x) (\<lambda>u. I) m" using Cons.prems by simp
  then show ?case
    unfolding collecting.simps wp_bnd wp_attempt
  proof (elim wp_mono, goal_cases)
    case (1 u m')
    have "runs (collecting f xs) (\<lambda>errs m'. errs = [] \<and> I m') m'"
      using Cons.prems(2) 1 by (intro Cons.IH) auto
    then show ?case by (rule wp_mono) auto
  qed auto
qed simp

lemma removeCreatedDirs_quiet:
  assumes "faults m0 = []" and "pinsNamed m0" and "\<forall>dir\<in>set dirs. \<exists>cs. dirAt root dir cs \<and> noLeafOn (tree m0) cs"
  shows "runs (removeCreatedDirs root dirs)
     (\<lambda>u m'. faults m' = [] \<and> statFaults m' = statFaults m0 \<and> db m' = db m0 \<and> pruned (tree m0) (tree m')) m0"
proof -
  define I where "I m' \<longleftrightarrow> pinsNamed m' \<and> faults m' = [] \<and> statFaults m' = statFaults m0 \<and> db m' = db m0 \<and>
    pruned (tree m0) (tree m')" for m'
  have "runs (collecting (removeCreatedDir root) (rev dirs)) (\<lambda>errs m'. errs = [] \<and> I m') m0"
  proof (rule runs_collecting)
    show "I m0" using assms(1,2) by (simp add: I_def)
    fix dir m assume "dir \<in> set (rev dirs)" and I: "I m"
    with assms(3) obtain cs where cs: "dirAt root dir cs" "noLeafOn (tree m0) cs" by auto
    with I pruned_noLeafOn have "noLeafOn (tree m) cs" unfolding I_def by blast
    with removeCreatedDir_quiet [OF _ _ cs(1), of m] I
    have "runs (removeCreatedDir root dir)
       (\<lambda>u m'. pinsNamed m' \<and> faults m' = [] \<and> statFaults m' = statFaults m \<and> db m' = db m \<and>
          pruned (tree m) (tree m')) m" by (simp add: I_def)
    then show "runs (removeCreatedDir root dir) (\<lambda>u. I) m"
      by (rule wp_mono) (use I pruned_trans in \<open>auto simp: I_def\<close>)
  qed
  then show ?thesis
    unfolding removeCreatedDirs_def wp_bnd joinErrors_run
    by (rule wp_mono) (auto simp: I_def)
qed

subsection \<open>Recovery as a whole\<close>

text \<open>A new process on the machine.\<close>

definition boot :: "fault list \<Rightarrow> bool list \<Rightarrow> machine \<Rightarrow> machine" where
  "boot fs ss m =
     m\<lparr>pinned := [], directorySD := [], appliedSD := [], held := False, faults := fs, statFaults := ss\<rparr>"

lemma boot_fields [simp]: "db (boot fs ss m) = db m" "tree (boot fs ss m) = tree m"
  by (simp_all add: boot_def)

text \<open>
  The journal of an interrupted transaction against the tree it began with: its operations can be
  undone, and nothing but directories is on the way to the directories it made.
\<close>

definition recoverable :: "Env \<Rightarrow> fsys \<Rightarrow> machine \<Rightarrow> Txn \<Rightarrow> fileOp list \<Rightarrow> bool" where
  "recoverable env s0 m txn ops \<longleftrightarrow>
     ops = filter (\<lambda>op. fo_dir op \<noteq> None) (map (journalled (e_Root env) (tree m)) (TxnFiles (tx_ID txn) (db m))) \<and>
     (\<forall>f\<in>set (TxnFiles (tx_ID txn) (db m)). isl (opensAt (e_Root env) (tree m) (tf_FinalPath f)) = False) \<and>
     separate ops \<and> (\<forall>op\<in>set ops. undoable s0 (tree m) op) \<and>
     (\<forall>dir\<in>set (TxnDirs (tx_ID txn) (db m)). \<exists>cs. dirAt (e_Root env) dir cs \<and>
        (\<forall>k. prefix k cs \<and> k \<noteq> [] \<longrightarrow>
           (case (if k \<in> allKeys ops then look s0 k else look (tree m) k) of
              None \<Rightarrow> True | Some n \<Rightarrow> \<not> isLeaf n)))"

lemma wp_closing: "runs a Q m \<Longrightarrow> (\<And>x m'. Q x m' \<Longrightarrow> Q' x (snd (closePins m'))) \<Longrightarrow> runs (closing a) Q' m"
  by (auto simp: wp_def closing_def split: prod.splits outcome.splits)

lemma pinsReach_fresh: "pinsReach t (m\<lparr>pinned := [], directorySD := [], appliedSD := []\<rparr>)"
  by (simp add: pinsReach_def map_get_def)

lemma newPinnedDirs_quiet:
  "faults m = [] \<Longrightarrow> wp newPinnedDirs Q F C m = Q () (m\<lparr>pinned := [], directorySD := [], appliedSD := []\<rparr>)"
  by (cases m) (simp add: wp_def newPinnedDirs_def perform_def)

lemma exec_quiet:
  "faults m = [] \<Longrightarrow> wp (exec f) Q F C m = (case f (db m) of Inl e \<Rightarrow> F e m | Inr d \<Rightarrow> Q () (m\<lparr>db := d\<rparr>))"
  by (cases m) (auto simp: wp_def exec_def perform_def rbind_def split: sum.splits)

lemma runs_withLock:
  assumes "faults m = []" and "held m = False" and "runs body Q (m\<lparr>held := True\<rparr>)"
  shows "runs (withLock body) (\<lambda>x m'. \<exists>m1. Q x m1 \<and> m' = m1\<lparr>held := False\<rparr>) m"
  using assms
  by (cases m) (auto simp: withLock_def Acquire_def Release_def bnd_def perform_def wp_def Let_def split: prod.splits outcome.splits)

lemma apart_mem: "apart R xs \<Longrightarrow> x \<in> set xs \<Longrightarrow> y \<in> set xs \<Longrightarrow> x \<noteq> y \<Longrightarrow> \<not> R x y"
  by (induction xs) (auto simp: apart_def)

lemma finish_pending:
  assumes "db_ok d" and "PendingTxn d = Some txn" and "st = TxnCommitted \<or> st = TxnRolledBack"
  shows "\<exists>d'. FinishTxn (tx_ID txn) st w d = Inr d' \<and> PendingTxn d' = None"
proof -
  from assms(2) have txn: "txn \<in> set (t_txn d)" "pending txn"
    by (auto simp: PendingTxn_def find_Some_iff pending_def)
  have apart: "apart (\<lambda>t u. tx_ID t = tx_ID u \<or> pending t \<and> pending u) (t_txn d)"
    using ok_parts(3) [OF assms(1)] by (simp add: txns_ok_def)
  have "tx_ID u = tx_ID txn" if "u \<in> set (t_txn d)" "pending u" for u
    using apart_mem [OF apart that(1) txn(1)] that(2) txn(2) by blast
  note only = this
  let ?fin = "\<lambda>t. if tx_ID t = tx_ID txn \<and> tx_State t = TxnPending then t\<lparr>tx_State := st, tx_OpSummary := w\<rparr> else t"
  have "tx_State (?fin u) \<noteq> TxnPending" if "u \<in> set (t_txn d)" for u
    using only [OF that] assms(3) by (cases "pending u") (auto simp: pending_def)
  then have "List.find (\<lambda>t. tx_State t = TxnPending) (map ?fin (t_txn d)) = None"
    unfolding find_None_iff set_map by blast
  then have "PendingTxn (d\<lparr>t_txn := map ?fin (t_txn d)\<rparr>) = None"
    by (simp add: PendingTxn_def)
  moreover have "FinishTxn (tx_ID txn) st w d = Inr (d\<lparr>t_txn := map ?fin (t_txn d)\<rparr>)"
    using txn assms(3) by (auto simp: FinishTxn_def list_ex_iff pending_def)
  ultimately show ?thesis by blast
qed

lemma undoable_leafy:
  assumes "undoable s0 t op" and "k \<in> set (opKeys op)"
  shows "leafy (look s0 k)"
  using assms
  by (cases "fo_action op"; cases "fo_dir op") (auto simp: undoable_def planned_def op_defs)

lemma quiet_fields:
  assumes "blind P" and "P m" and "runs (rollbackOps ops) Q m"
  shows "runs (rollbackOps ops) (\<lambda>x m'. Q x m' \<and> P m') m"
  using stableD [OF stable_rollbackOps(3) [OF assms(1)] assms(2), of ops] assms(3)
  by (auto simp: wp_def split: prod.splits outcome.splits)

lemma rollbackOps_quiet:
  assumes "separate ops" and "\<forall>op\<in>set ops. undoable s0 (tree m) op" and "faults m = []" and "statFaults m = []"
  shows "runs (rollbackOps ops)
     (\<lambda>u m'. elsewhere (allKeys ops) (tree m) (tree m') \<and> (\<forall>k\<in>allKeys ops. look (tree m') k = look s0 k) \<and>
        faults m' = [] \<and> statFaults m' = [] \<and> db m' = db m \<and> pinned m' = pinned m) m"
proof -
  have run: "runs (rollbackOps ops)
     (\<lambda>u m'. elsewhere (allKeys ops) (tree m) (tree m') \<and> (\<forall>k\<in>allKeys ops. look (tree m') k = look s0 k)) m"
    by (rule wp_mono [OF rollbackOps_run [OF assms(1,2)]])
       (use assms(3,4) in \<open>auto simp: quietStat_def restored_def allKeys_def\<close>)
  have blind: "blind (\<lambda>m'. faults m' = [] \<and> statFaults m' = [] \<and> db m' = db m \<and> pinned m' = pinned m)"
    by (auto simp: blind_def)
  show ?thesis
    by (rule wp_mono [OF quiet_fields [OF blind _ run]]) (use assms(3,4) in simp_all)
qed

text \<open>An operation whose directory is gone is no operation.\<close>

lemma rollbackOps_live: "rollbackOps (filter (\<lambda>op. fo_dir op \<noteq> None) ops) = rollbackOps ops"
proof -
  have skip: "bnd (attempt (ret ())) (\<lambda>r. bnd a (\<lambda>errs. ret (case r of Inl e \<Rightarrow> e # errs | Inr u \<Rightarrow> errs))) = a"
    for a :: "failure list act"
    by (rule ext) (simp add: bnd_def attempt_def ret_def split: prod.splits outcome.splits)
  have "collecting rollbackOp (filter (\<lambda>op. fo_dir op \<noteq> None) xs) = collecting rollbackOp xs" for xs
  proof (induction xs)
    case (Cons op xs)
    have "rollbackOp op = ret ()" if "fo_dir op = None" using that by (simp add: rollbackOp_def)
    with Cons show ?case by (cases "fo_dir op = None") (simp_all add: skip)
  qed simp
  then show ?thesis by (simp add: rollbackOps_def rev_filter)
qed

lemma rollbackTxn_quiet:
  assumes "faults m = []" and "statFaults m = []" and "PendingTxn (db m) = Some txn"
    and "tx_JournalSchemaVersion txn = journalSchemaVersion" and "db_ok (db m)" and "recoverable env s0 m txn ops"
  shows "runs (rollbackTxn env txn reason)
     (\<lambda>u m'. (\<forall>k\<in>allKeys ops. look (tree m') k = look s0 k) \<and>
        (\<forall>k. k \<notin> allKeys ops \<longrightarrow> look (tree m') k = look (tree m) k
           \<or> look (tree m') k = None \<and> \<not> leafy (look (tree m) k)) \<and>
        PendingTxn (db m') = None \<and> packageState (db m') = packageState (db m)) m"
proof -
  let ?n = "tx_ID txn" and ?files = "TxnFiles (tx_ID txn) (db m)" and ?dirs = "TxnDirs (tx_ID txn) (db m)"
  let ?m = "m\<lparr>pinned := [], directorySD := [], appliedSD := []\<rparr>"
  let ?good = "\<lambda>t. (\<forall>k\<in>allKeys ops. look t k = look s0 k) \<and>
        (\<forall>k. k \<notin> allKeys ops \<longrightarrow> look t k = look (tree m) k \<or> look t k = None \<and> \<not> leafy (look (tree m) k))"
  note rec = assms(6) [unfolded recoverable_def]
  have files: "runs (fileOpsFromJournal (e_Root env) ?files)
      (\<lambda>ops' m'. filter (\<lambda>op. fo_dir op \<noteq> None) ops' = ops \<and> onlyPins ?m m' \<and> pinsReach (tree m) m') ?m"
  proof (rule wp_mono [OF fileOpsFromJournal_quiet [of ?m ?files "e_Root env"]])
    show "\<forall>f\<in>set ?files. isl (opensAt (e_Root env) (tree ?m) (tf_FinalPath f)) = False" using rec by simp
  qed (use assms(1) pinsReach_fresh rec in simp_all)
  obtain d' where d': "FinishTxn ?n TxnRolledBack reason (db m) = Inr d'" "PendingTxn d' = None"
    using finish_pending [OF assms(5,3)] by blast
  have state: "packageState d' = packageState (db m)"
    using package_tables.closed [OF refl d'(1)] .
  have rollback: "runs (rollbackOps ops)
      (\<lambda>u m2. elsewhere (allKeys ops) (tree m) (tree m2) \<and> (\<forall>k\<in>allKeys ops. look (tree m2) k = look s0 k) \<and>
         faults m2 = [] \<and> statFaults m2 = [] \<and> db m2 = db m \<and> pinsNamed m2) m1"
    if "onlyPins ?m m1" "pinsReach (tree m) m1" for m1
  proof -
    have f: "tree m1 = tree m" "db m1 = db m" "faults m1 = []" "statFaults m1 = []"
      using onlyPins_fields [OF that(1)] assms(1,2) by simp_all
    show ?thesis
      by (rule wp_mono [OF rollbackOps_quiet [of ops s0 m1]])
         (use rec f pinsReach_named [OF that(2)] in \<open>auto simp: pinsNamed_def\<close>)
  qed
  have dirs: "runs (removeCreatedDirs (e_Root env) ?dirs)
      (\<lambda>u m3. ?good (tree m3) \<and> faults m3 = [] \<and> db m3 = db m) m2"
    if e: "elsewhere (allKeys ops) (tree m) (tree m2)" and k: "\<forall>k\<in>allKeys ops. look (tree m2) k = look s0 k"
      and q: "faults m2 = []" "db m2 = db m" "pinsNamed m2" for m2
  proof -
    have look: "look (tree m2) k = (if k \<in> allKeys ops then look s0 k else look (tree m) k)" for k
      using e k by (simp add: elsewhere_def)
    have "\<forall>dir\<in>set ?dirs. \<exists>cs. dirAt (e_Root env) dir cs \<and> noLeafOn (tree m2) cs"
      unfolding noLeafOn_def look using rec by blast
    from removeCreatedDirs_quiet [OF q(1,3) this] show ?thesis
    proof (rule wp_mono, goal_cases)
      case (1 u m3)
      have "leafy (look s0 k)" if "k \<in> allKeys ops" for k
        using that rec undoable_leafy unfolding allKeys_def by fastforce
      with 1 q(2) show ?case unfolding pruned_def look by metis
    qed auto
  qed
  have tail: "runs (bnd (if tx_JournalSchemaVersion txn \<ge> 2
               then bnd (query (TxnDirs ?n)) (removeCreatedDirs (e_Root env)) else ret ()) (\<lambda>_.
            exec (FinishTxn ?n TxnRolledBack reason)))
      (\<lambda>u m'. ?good (tree m') \<and> PendingTxn (db m') = None \<and> packageState (db m') = packageState (db m)) m2"
    if "elsewhere (allKeys ops) (tree m) (tree m2)" and "\<forall>k\<in>allKeys ops. look (tree m2) k = look s0 k"
      and "faults m2 = []" "db m2 = db m" "pinsNamed m2" for m2
    using wp_mono [OF dirs [OF that]] that(3,4) assms(4) d' state
    by (simp add: wp_bnd journalSchemaVersion_def runs_query exec_quiet)
  have all: "runs (bnd (fileOpsFromJournal (e_Root env) ?files) (\<lambda>ops.
          bnd (rollbackOps ops) (\<lambda>_.
          bnd (if tx_JournalSchemaVersion txn \<ge> 2
               then bnd (query (TxnDirs ?n)) (removeCreatedDirs (e_Root env))
               else ret ()) (\<lambda>_.
            exec (FinishTxn ?n TxnRolledBack reason)))))
      (\<lambda>u m'. ?good (tree m') \<and> PendingTxn (db m') = None \<and> packageState (db m') = packageState (db m)) ?m"
    unfolding wp_bnd [where a = "fileOpsFromJournal r f" for r f]
  proof (rule wp_mono [OF files], goal_cases)
    case (1 ops' m1)
    then have ops: "rollbackOps ops' = rollbackOps ops" using rollbackOps_live [of ops'] by simp
    show ?case
      unfolding ops wp_bnd [where a = "rollbackOps ops"]
      by (rule wp_mono [OF rollback]) (use 1 tail in auto)
  qed auto
  have "runs (closing (bnd (fileOpsFromJournal (e_Root env) ?files) (\<lambda>ops.
          bnd (rollbackOps ops) (\<lambda>_.
          bnd (if tx_JournalSchemaVersion txn \<ge> 2
               then bnd (query (TxnDirs ?n)) (removeCreatedDirs (e_Root env))
               else ret ()) (\<lambda>_.
            exec (FinishTxn ?n TxnRolledBack reason))))))
      (\<lambda>u m'. ?good (tree m') \<and> PendingTxn (db m') = None \<and> packageState (db m') = packageState (db m)) ?m"
    by (rule wp_closing [OF all]) (simp add: closePins_def)
  then show ?thesis
    using assms(1,4) by (simp add: rollbackTxn_def wp_bnd runs_query newPinnedDirs_quiet)
qed

lemma recoverable_held: "recoverable env s0 (m\<lparr>held := h\<rparr>) txn ops = recoverable env s0 m txn ops"
  by (simp add: recoverable_def)

lemma recoverable_boot: "recoverable env s0 (boot fs ss m) txn ops = recoverable env s0 m txn ops"
  by (simp add: recoverable_def)

lemma Recover_quiet:
  assumes "faults m = []" and "statFaults m = []" and "held m = False" and "db_ok (db m)"
    and "PendingTxn (db m) = Some txn" and "tx_CrossRootID txn = []"
    and "tx_JournalSchemaVersion txn = journalSchemaVersion" and "recoverable env s0 m txn ops"
  shows "\<exists>m'. Recover env m = (Done (), m') \<and> (\<forall>k\<in>allKeys ops. look (tree m') k = look s0 k) \<and>
     (\<forall>k. k \<notin> allKeys ops \<longrightarrow> look (tree m') k = look (tree m) k
        \<or> look (tree m') k = None \<and> \<not> leafy (look (tree m) k)) \<and>
     PendingTxn (db m') = None \<and> packageState (db m') = packageState (db m)"
proof -
  let ?m = "m\<lparr>held := True\<rparr>"
  have "recoverable env s0 ?m txn ops" using assms(8) by (simp only: recoverable_held)
  with assms have "runs (rollbackTxn env txn ''rolled back after an interrupted run'')
     (\<lambda>u m'. (\<forall>k\<in>allKeys ops. look (tree m') k = look s0 k) \<and>
        (\<forall>k. k \<notin> allKeys ops \<longrightarrow> look (tree m') k = look (tree m) k
           \<or> look (tree m') k = None \<and> \<not> leafy (look (tree m) k)) \<and>
        PendingTxn (db m') = None \<and> packageState (db m') = packageState (db m)) ?m"
    using rollbackTxn_quiet [of ?m txn env s0 ops] by simp
  with assms have "runs (recoverPending env)
     (\<lambda>u m'. (\<forall>k\<in>allKeys ops. look (tree m') k = look s0 k) \<and>
        (\<forall>k. k \<notin> allKeys ops \<longrightarrow> look (tree m') k = look (tree m) k
           \<or> look (tree m') k = None \<and> \<not> leafy (look (tree m) k)) \<and>
        PendingTxn (db m') = None \<and> packageState (db m') = packageState (db m)) ?m"
    by (simp add: recoverPending_def wp_bnd runs_query)
  from runs_result [OF runs_withLock [OF assms(1,3) this]]
  show ?thesis unfolding Recover_def by auto
qed

end
