(* ===== verification/StagingFacts.thy ===== *)
theory StagingFacts
  imports RecoverFacts
begin

section \<open>Staging under faults\<close>

text \<open>
  While content is staged nothing that counts is touched: every file operation keeps waiting, and
  outside of the paths of the operations only directories come into being.
\<close>

definition sameLeaves :: "path set \<Rightarrow> fsys \<Rightarrow> fsys \<Rightarrow> bool" where
  "sameLeaves K t t' \<longleftrightarrow> (\<forall>k n. k \<notin> K \<and> isLeaf n \<longrightarrow> (look t' k = Some n) = (look t k = Some n))"

lemma sameLeaves_refl [simp]: "sameLeaves K t t"
  by (simp add: sameLeaves_def)

lemma sameLeaves_trans: "sameLeaves K t u \<Longrightarrow> sameLeaves K u v \<Longrightarrow> sameLeaves K t v"
  by (simp add: sameLeaves_def)

lemma elsewhere_sameLeaves: "elsewhere K t t' \<Longrightarrow> sameLeaves K t t'"
  by (simp add: elsewhere_def sameLeaves_def)

definition openDirs :: "fsys \<Rightarrow> path \<Rightarrow> bool" where
  "openDirs t d \<longleftrightarrow> (\<forall>k. prefix k d \<longrightarrow> isDir t k)"

lemma openDirs_isDir: "openDirs t d \<Longrightarrow> isDir t d"
  by (simp add: openDirs_def)

definition opDir :: "fileOp \<Rightarrow> path" where
  "opDir op = the (fo_dir op)"

text \<open>\<open>keysOf\<close> fixes which paths the operations are on; \<open>W\<close> is the state of the tree while staging.\<close>

definition stagingTree :: "fileOp list \<Rightarrow> fsys \<Rightarrow> fsys \<Rightarrow> bool" where
  "stagingTree ops s0 t \<longleftrightarrow>
     (\<forall>op\<in>set ops. waiting s0 t op \<and> openDirs t (opDir op)) \<and> sameLeaves (allKeys ops) s0 t"

definition stagedSlots :: "fileOp list \<Rightarrow> path set" where
  "stagedSlots ops = {stagedKey op |op. op \<in> set ops \<and> fo_action op \<noteq> actionRemove \<and> fo_dir op \<noteq> None}"

lemma opKey_mem:
  assumes "op \<in> set ops" and "fo_dir op = Some d"
  shows "finalKey op \<in> allKeys ops"
    and "fo_action op \<noteq> actionRemove \<Longrightarrow> stagedKey op \<in> allKeys ops"
    and "fo_action op \<noteq> actionCreate \<Longrightarrow> backupKey op \<in> allKeys ops"
  using assms by (cases "fo_action op"; force simp: allKeys_def op_defs)+

lemma isDir_put: "isDir (putNode t k n) p \<longleftrightarrow> (if p = k then p = [] \<or> \<not> isLeaf n else isDir t p)"
  by (simp add: isDir_look fsys_simps)

lemma stagingTree_dir:
  assumes "stagingTree ops s0 t" and "k \<notin> allKeys ops" and "look t k = None \<or> \<not> leafy (look t k)"
    and "\<not> isLeaf n"
  shows "stagingTree ops s0 (putNode t k n)"
proof -
  have keep: "isDir t p \<Longrightarrow> isDir (putNode t k n) p" for p
    using assms(4) by (auto simp: isDir_put)
  have "waiting s0 (putNode t k n) op \<and> openDirs (putNode t k n) (opDir op)" if "op \<in> set ops" for op
  proof (cases "fo_dir op")
    case None
    with assms(1) that keep show ?thesis by (auto simp: stagingTree_def waiting_def openDirs_def)
  next
    case (Some d)
    note keys = opKey_mem [OF that Some]
    from assms(1) that have "waiting s0 t op" "openDirs t (opDir op)" by (simp_all add: stagingTree_def)
    with Some keep keys assms(2) show ?thesis
      by (auto simp: waiting_def openDirs_def fsys_simps)
  qed
  moreover have "sameLeaves (allKeys ops) t (putNode t k n)"
    using assms(3,4) by (auto simp: sameLeaves_def fsys_simps)
  then have "sameLeaves (allKeys ops) s0 (putNode t k n)"
    using assms(1) sameLeaves_trans unfolding stagingTree_def by blast
  ultimately show ?thesis by (simp add: stagingTree_def)
qed

lemma stagedSlot_parts:
  assumes "separate ops" and "k \<in> stagedSlots ops"
  obtains op d where "op \<in> set ops" and "fo_action op \<noteq> actionRemove" and "fo_dir op = Some d"
    and "k = d @ [staged op]" and "checkName (staged op)"
    and "\<And>p. p \<in> set ops \<Longrightarrow> p \<noteq> op \<Longrightarrow> k \<notin> set (opKeys p)"
    and "k \<noteq> finalKey op" and "fo_action op \<noteq> actionCreate \<Longrightarrow> k \<noteq> backupKey op"
proof -
  from assms(2) obtain op d where op: "op \<in> set ops" "fo_action op \<noteq> actionRemove" "fo_dir op = Some d"
    "k = d @ [staged op]" by (auto simp: stagedSlots_def stagedKey_def)
  then have mem: "k \<in> set (opKeys op)" by (cases "fo_action op") (auto simp: op_defs)
  from op(1) obtain xs ys where ops: "ops = xs @ op # ys" by (meson split_list)
  note parts = separate_parts [OF assms(1) [unfolded ops]]
  show ?thesis
  proof (rule that [OF op])
    show "checkName (staged op)" "k \<noteq> finalKey op" "fo_action op \<noteq> actionCreate \<Longrightarrow> k \<noteq> backupKey op"
      using parts(1) op by (cases "fo_action op"; auto simp: wellNamed_def op_defs)+
    show "k \<notin> set (opKeys p)" if "p \<in> set ops" "p \<noteq> op" for p
      using parts(2) [of p] mem that ops by auto
  qed
qed

lemma stagingTree_slot:
  assumes "stagingTree ops s0 t" and "separate ops" and "k \<in> stagedSlots ops" and "isLeaf n"
  shows "stagingTree ops s0 (putNode t k n)" and "leafy (look t k)"
proof -
  obtain op d where op: "op \<in> set ops" "fo_action op \<noteq> actionRemove" "fo_dir op = Some d" "k = d @ [staged op]"
    and other: "\<And>p. p \<in> set ops \<Longrightarrow> p \<noteq> op \<Longrightarrow> k \<notin> set (opKeys p)"
    and own: "k \<noteq> finalKey op" "fo_action op \<noteq> actionCreate \<Longrightarrow> k \<noteq> backupKey op"
    using stagedSlot_parts [OF assms(2,3)] by metis
  from assms(1) op(1) have "waiting s0 t op" by (simp add: stagingTree_def)
  with op show leafy: "leafy (look t k)" by (auto simp: waiting_def stagedKey_def split: if_splits)
  have keep: "isDir (putNode t k n) p = isDir t p" for p
    using leafy assms(4) by (auto simp: isDir_look fsys_simps)
  have "waiting s0 (putNode t k n) p \<and> openDirs (putNode t k n) (opDir p)" if "p \<in> set ops" for p
  proof (cases "p = op")
    case True
    with that assms(1,4) op own keep show ?thesis
      by (cases "fo_action op = actionCreate") (auto simp: stagingTree_def waiting_def openDirs_def fsys_simps stagedKey_def)
  next
    case False
    note none = other [OF that False]
    have "k \<noteq> finalKey p" "fo_action p \<noteq> actionRemove \<Longrightarrow> k \<noteq> stagedKey p"
      "fo_action p \<noteq> actionCreate \<Longrightarrow> k \<noteq> backupKey p" if "fo_dir p = Some e" for e
      using none that by (cases "fo_action p"; auto simp: op_defs)+
    with that assms(1) keep show ?thesis
      by (cases "fo_dir p") (auto simp: stagingTree_def waiting_def openDirs_def fsys_simps)
  qed
  moreover have "k \<in> allKeys ops" using opKey_mem(2) [OF op(1,3,2)] op(3,4) by (simp add: stagedKey_def)
  then have "sameLeaves (allKeys ops) s0 (putNode t k n)"
    using assms(1) by (auto simp: stagingTree_def sameLeaves_def fsys_simps)
  ultimately show "stagingTree ops s0 (putNode t k n)" by (simp add: stagingTree_def)
qed

subsection \<open>Directories on the way\<close>

definition stagingOK :: "fileOp list \<Rightarrow> fsys \<Rightarrow> database \<Rightarrow> machine \<Rightarrow> bool" where
  "stagingOK ops s0 d0 m \<longleftrightarrow>
     stagingTree ops s0 (tree m) \<and> pinsNamed m \<and> statFaults m = [] \<and> db m = d0"

text \<open>No fault that strikes a call does more than take its place.\<close>

lemma stagingOK_tick [simp]: "stagingOK ops s0 d0 (tick m) = stagingOK ops s0 d0 m"
  by (simp add: stagingOK_def pinsNamed_def)

lemma stagingOK_tree [simp]:
  "stagingOK ops s0 d0 (m\<lparr>tree := t\<rparr>) \<longleftrightarrow>
     stagingTree ops s0 t \<and> pinsNamed m \<and> statFaults m = [] \<and> db m = d0"
  by (simp add: stagingOK_def pinsNamed_def)

lemma pinsNamed_tick [simp]: "pinsNamed (tick m) = pinsNamed m"
  by (simp add: pinsNamed_def)

text \<open>A call that starts in a tree with \<open>A\<close> keeps to the staging and ends with a result in \<open>R\<close>.\<close>

definition stages ::
    "fileOp list \<Rightarrow> fsys \<Rightarrow> database \<Rightarrow> (fsys \<Rightarrow> bool) \<Rightarrow> 'a act \<Rightarrow> ('a \<Rightarrow> fsys \<Rightarrow> bool) \<Rightarrow> bool" where
  "stages ops s0 d0 A a R \<longleftrightarrow>
     (\<forall>m. stagingOK ops s0 d0 m \<and> A (tree m) \<longrightarrow>
        wp a (\<lambda>x m'. stagingOK ops s0 d0 m' \<and> R x (tree m')) (\<lambda>e. stagingOK ops s0 d0) (stagingOK ops s0 d0) m)"

lemma stagesD:
  "stages ops s0 d0 A a R \<Longrightarrow> stagingOK ops s0 d0 m \<Longrightarrow> A (tree m) \<Longrightarrow>
     wp a (\<lambda>x m'. stagingOK ops s0 d0 m' \<and> R x (tree m')) (\<lambda>e. stagingOK ops s0 d0) (stagingOK ops s0 d0) m"
  by (simp add: stages_def)

lemma stages_bnd:
  assumes "stages ops s0 d0 A a B" and "\<And>x. stages ops s0 d0 (B x) (f x) R"
  shows "stages ops s0 d0 A (bnd a f) R"
  unfolding stages_def wp_bnd
proof (intro allI impI)
  fix m assume "stagingOK ops s0 d0 m \<and> A (tree m)"
  with stagesD [OF assms(1), of m]
  have "wp a (\<lambda>x m'. stagingOK ops s0 d0 m' \<and> B x (tree m')) (\<lambda>e. stagingOK ops s0 d0) (stagingOK ops s0 d0) m" by simp
  then show "wp a (\<lambda>x. wp (f x) (\<lambda>x m'. stagingOK ops s0 d0 m' \<and> R x (tree m')) (\<lambda>e. stagingOK ops s0 d0) (stagingOK ops s0 d0))
      (\<lambda>e. stagingOK ops s0 d0) (stagingOK ops s0 d0) m"
    by (rule wp_mono) (use assms(2) in \<open>auto simp: stages_def\<close>)
qed

lemma stages_attempt:
  "stages ops s0 d0 A a R \<Longrightarrow> stages ops s0 d0 A (attempt a) (\<lambda>r t. \<forall>x. r = Inr x \<longrightarrow> R x t)"
  by (simp add: stages_def wp_attempt)

lemma stages_weaken:
  assumes "stages ops s0 d0 A a R" and "\<And>t. A' t \<Longrightarrow> A t" and "\<And>x t. R x t \<Longrightarrow> R' x t"
  shows "stages ops s0 d0 A' a R'"
  using assms unfolding stages_def by (blast intro: wp_mono)

lemma stages_ret: "(\<And>t. A t \<Longrightarrow> R x t) \<Longrightarrow> stages ops s0 d0 A (ret x) R"
  by (simp add: stages_def)

lemma stages_raise: "stages ops s0 d0 A (raise e) R"
  by (simp add: stages_def)

lemma stages_fact: "(Z \<Longrightarrow> stages ops s0 d0 A a R) \<Longrightarrow> stages ops s0 d0 (\<lambda>t. A t \<and> Z) a R"
  by (auto simp: stages_def)

lemma stages_const: "(Z \<Longrightarrow> stages ops s0 d0 (\<lambda>t. True) a R) \<Longrightarrow> stages ops s0 d0 (\<lambda>t. Z) a R"
  by (auto simp: stages_def)

lemma stages_never: "stages ops s0 d0 (\<lambda>t. False) a R"
  by (simp add: stages_def)

lemma stages_sys:
  assumes "\<And>t x t'. stagingTree ops s0 t \<Longrightarrow> A t \<Longrightarrow> f t = Inr (x, t') \<Longrightarrow> stagingTree ops s0 t' \<and> R x t'"
  shows "stages ops s0 d0 A (sys f) R"
  unfolding stages_def
proof (intro allI impI)
  fix m assume "stagingOK ops s0 d0 m \<and> A (tree m)"
  then show "wp (sys f) (\<lambda>x m'. stagingOK ops s0 d0 m' \<and> R x (tree m')) (\<lambda>e. stagingOK ops s0 d0) (stagingOK ops s0 d0) m"
    by (intro wp_sysI) (use assms in \<open>auto simp: stagingOK_def pinsNamed_def\<close>)
qed

subsection \<open>Walking with creation\<close>

abbreviation dirIn :: "path \<Rightarrow> path \<Rightarrow> fsys \<Rightarrow> bool" where
  "dirIn q p t \<equiv> p = q \<and> \<not> leafy (look t q)"

lemma stages_openDirAt: "stages ops s0 d0 A (openDirAt cur c) (dirIn (cur @ [c]))"
  unfolding openDirAt_def by (rule stages_sys) (auto simp: sys_openDir_def split: if_splits option.splits)

lemma stages_markApplied: "(\<And>t. A t \<Longrightarrow> R () t) \<Longrightarrow> stages ops s0 d0 A (markApplied p) R"
  by (simp add: stages_def wp_def markApplied_def stagingOK_def pinsNamed_def)

lemma stages_makeDir:
  assumes "cur @ [c] \<notin> allKeys ops"
  shows "stages ops s0 d0 A (makeAt cur c (NDir sd)) (\<lambda>u t. \<not> leafy (look t (cur @ [c])))"
  unfolding makeAt_def
  by (rule stages_sys)
     (use assms in \<open>auto simp: sys_make_def fsys_simps intro!: stagingTree_dir split: if_splits option.splits\<close>)

lemma stages_mkdirAt:
  assumes "cur @ [c] \<notin> allKeys ops"
  shows "stages ops s0 d0 A (mkdirAt cur c) (dirIn (cur @ [c]))"
proof -
  let ?p = "cur @ [c]"
  have plain: "stages ops s0 d0 A (bnd (makeAt cur c (NDir [])) (\<lambda>_. openDirAt cur c)) (dirIn ?p)"
    by (rule stages_bnd [OF stages_makeDir [OF assms]]) (rule stages_openDirAt)
  have stamped: "stages ops s0 d0 A
      (bnd (makeAt cur c (NDir sd)) (\<lambda>_. bnd (markApplied ?p) (\<lambda>_. ret ?p))) (dirIn ?p)" for sd
    by (rule stages_bnd [OF stages_makeDir [OF assms] stages_bnd [OF stages_markApplied stages_ret]]) auto
  have "mkdirAt cur c m =
      (if descriptorOf m ?p \<noteq> [] \<and> native m
       then bnd (makeAt cur c (NDir (descriptorOf m ?p))) (\<lambda>_. bnd (markApplied ?p) (\<lambda>_. ret ?p)) m
       else bnd (makeAt cur c (NDir [])) (\<lambda>_. openDirAt cur c) m)" for m
    by (simp add: mkdirAt_def Let_def)
  then show ?thesis
    using plain stamped unfolding stages_def by (simp add: wp_def split: if_splits)
qed

lemma stages_applyDirectorySD:
  assumes "p \<notin> allKeys ops"
  shows "stages ops s0 d0 (\<lambda>t. \<not> leafy (look t p)) (applyDirectorySD p) (\<lambda>u t. True)"
proof -
  have "stages ops s0 d0 (\<lambda>t. \<not> leafy (look t p))
      (bnd (sys (sys_change (described sd) p)) (\<lambda>_. markApplied p)) (\<lambda>u t. True)" for sd
  proof (rule stages_bnd [OF stages_sys stages_markApplied])
    fix t and x :: unit and t'
    assume t: "stagingTree ops s0 t" "\<not> leafy (look t p)" "sys_change (described sd) p t = Inr (x, t')"
    then obtain e where "look t p = Some (NDir e)" by (auto simp: leafy_def split: option.splits elim: isLeaf.elims)
    with t assms show "stagingTree ops s0 t' \<and> True"
      by (auto simp: sys_change_def intro!: stagingTree_dir)
  qed simp
  then show ?thesis
    unfolding stages_def by (simp add: applyDirectorySD_def wp_def Let_def ret_def)
qed

lemma stages_walkStep:
  assumes "cur @ [c] \<notin> allKeys ops"
  shows "stages ops s0 d0 A (walkStep True cur c) (\<lambda>p t. p = cur @ [c])"
proof -
  let ?p = "cur @ [c]"
  have opened: "stages ops s0 d0 B (attempt (openDirAt cur c)) (\<lambda>r t. \<forall>p. r = Inr p \<longrightarrow> dirIn ?p p t)" for B
    by (rule stages_attempt [OF stages_openDirAt])
  have made: "stages ops s0 d0 B (bnd (attempt (mkdirAt cur c)) (\<lambda>q.
              if q = Inl EEXIST then attempt (openDirAt cur c) else ret q))
      (\<lambda>r t. \<forall>p. r = Inr p \<longrightarrow> dirIn ?p p t)" for B
    by (rule stages_bnd [OF stages_attempt [OF stages_mkdirAt [OF assms]]])
       (auto intro: opened stages_ret)
  have next_step: "stages ops s0 d0 (\<lambda>t. \<forall>p. r = Inr p \<longrightarrow> dirIn ?p p t)
      (case r of Inl e \<Rightarrow> raise (walkError e) | Inr p \<Rightarrow> bnd (applyDirectorySD p) (\<lambda>_. ret p)) (\<lambda>p t. p = ?p)" for r
  proof (cases r)
    case (Inr p)
    show ?thesis
    proof (cases "p = ?p")
      case True
      show ?thesis
        unfolding Inr True sum.case
        by (rule stages_bnd [OF stages_weaken [OF stages_applyDirectorySD [OF assms]] stages_ret]) auto
    next
      case False
      then show ?thesis unfolding Inr stages_def by simp
    qed
  qed (simp add: stages_raise)
  have middle: "stages ops s0 d0 (\<lambda>t. \<forall>p. r = Inr p \<longrightarrow> dirIn ?p p t)
      (if r = Inl ENOENT then
            bnd (attempt (mkdirAt cur c)) (\<lambda>q. if q = Inl EEXIST then attempt (openDirAt cur c) else ret q)
          else ret r) (\<lambda>r t. \<forall>p. r = Inr p \<longrightarrow> dirIn ?p p t)" for r
    using made by (auto intro: stages_ret)
  show ?thesis
    unfolding walkStep_def simp_thms if_True
    by (rule stages_bnd [OF opened stages_bnd [OF middle next_step]])
qed

definition clearOf :: "fileOp list \<Rightarrow> path \<Rightarrow> bool" where
  "clearOf ops cs \<longleftrightarrow> (\<forall>k. prefix k cs \<longrightarrow> k \<notin> allKeys ops)"

lemma stages_walkFrom:
  assumes "clearOf ops (cur @ cs)"
  shows "stages ops s0 d0 A (walkFrom True cur cs) (\<lambda>p t. p = cur @ cs)"
  using assms
proof (induction cs arbitrary: cur A)
  case (Cons c cs)
  have own: "cur @ [c] \<notin> allKeys ops" using Cons.prems by (simp add: clearOf_def)
  have rest: "stages ops s0 d0 (\<lambda>t. x = cur @ [c]) (walkFrom True x cs) (\<lambda>p t. p = cur @ c # cs)" for x
    using Cons.IH [of "cur @ [c]"] Cons.prems by - (rule stages_const, simp)
  show ?case
    unfolding walkFrom.simps by (rule stages_bnd [OF stages_walkStep [OF own] rest])
qed (simp add: stages_ret)

text \<open>The directory of a path, made where it is missing.\<close>

definition dirComps :: "string \<Rightarrow> string \<Rightarrow> failure + path" where
  "dirComps root a =
     (case pinRel root a of Inl e \<Rightarrow> Inl e | Inr rel \<Rightarrow> safeComponents (fst (safeSplit rel)))"

lemma stages_pinMkdirAll:
  assumes "\<And>cs. safeComponents rel = Inr cs \<Longrightarrow> clearOf ops cs"
  shows "stages ops s0 d0 A (pinMkdirAll rel) (\<lambda>p t. safeComponents rel = Inr p)"
proof -
  have walk: "stages ops s0 d0 A (walk True rel) (\<lambda>p t. safeComponents rel = Inr p)"
  proof (cases "safeComponents rel")
    case (Inr cs)
    with assms have clear: "clearOf ops ([] @ cs)" by simp
    show ?thesis
      unfolding walk_def Inr sum.case by (rule stages_weaken [OF stages_walkFrom [OF clear]]) auto
  qed (simp add: walk_def stages_raise)
  have keep: "stages ops s0 d0 (\<lambda>t. safeComponents rel = Inr p) (remember rel p) (\<lambda>p t. safeComponents rel = Inr p)" for p
    by (auto simp: stages_def wp_remember stagingOK_def pinsNamed_def gomap.get_put)
  have "stages ops s0 d0 A (bnd (walk True rel) (remember rel)) (\<lambda>p t. safeComponents rel = Inr p)"
    by (rule stages_bnd [OF walk keep])
  then show ?thesis
    unfolding stages_def by (auto simp: pinMkdirAll_def wp_def stagingOK_def pinsNamed_def split: option.splits)
qed

lemma stages_dirFor:
  assumes "\<And>cs. dirComps root a = Inr cs \<Longrightarrow> clearOf ops cs"
  shows "stages ops s0 d0 A (dirFor root a) (\<lambda>p t. dirComps root a = Inr p)"
  using assms stages_pinMkdirAll
  by (auto simp: dirFor_def dirComps_def intro: stages_raise split: sum.splits)

lemma stages_mkdirAllAbs:
  assumes "\<And>rel cs. pinRel root a = Inr rel \<Longrightarrow> safeComponents rel = Inr cs \<Longrightarrow> clearOf ops cs"
  shows "stages ops s0 d0 A (mkdirAllAbs root a) (\<lambda>p t. True)"
  using assms
  by (auto simp: mkdirAllAbs_def intro: stages_raise stages_weaken [OF stages_pinMkdirAll] split: sum.splits)

lemma stages_walkFrom_open: "stages ops s0 d0 A (walkFrom False cur cs) (\<lambda>p t. p = cur @ cs)"
proof (induction cs arbitrary: cur A)
  case (Cons c cs)
  have settle: "stages ops s0 d0 (\<lambda>t. \<forall>p. r = Inr p \<longrightarrow> dirIn (cur @ [c]) p t)
      (case r of Inl e \<Rightarrow> raise (walkError e) | Inr p \<Rightarrow> bnd (ret ()) (\<lambda>_. ret p)) (\<lambda>p t. p = cur @ [c])" for r
    by (cases r) (auto simp: stages_def wp_bnd)
  have step: "stages ops s0 d0 A (walkStep False cur c) (\<lambda>p t. p = cur @ [c])"
    unfolding walkStep_def simp_thms if_False
    by (rule stages_bnd [OF stages_attempt [OF stages_openDirAt] stages_bnd [OF stages_ret settle]])
  have rest: "stages ops s0 d0 (\<lambda>t. x = cur @ [c]) (walkFrom False x cs) (\<lambda>p t. p = cur @ c # cs)" for x
    using Cons.IH [of _ "cur @ [c]"] by - (rule stages_const, simp)
  show ?case
    unfolding walkFrom.simps by (rule stages_bnd [OF step rest])
qed (simp add: stages_ret)

lemma stages_existingDirFor:
  "stages ops s0 d0 A (existingDirFor root a) (\<lambda>d t. \<forall>p. d = Some p \<longrightarrow> dirComps root a = Inr p)"
proof (cases "pinRel root a")
  case (Inl e)
  then show ?thesis by (simp add: stages_def existingDirFor_def wp_def raise_def)
next
  case (Inr rel)
  let ?k = "fst (safeSplit rel)"
  have walk: "stages ops s0 d0 A (walk False ?k) (\<lambda>p t. safeComponents ?k = Inr p)"
  proof (cases "safeComponents ?k")
    case (Inr cs)
    show ?thesis
      unfolding walk_def Inr sum.case by (rule stages_weaken [OF stages_walkFrom_open]) auto
  qed (simp add: walk_def stages_raise)
  have keep: "stages ops s0 d0 (\<lambda>t. safeComponents ?k = Inr p) (remember ?k p) (\<lambda>p t. safeComponents ?k = Inr p)" for p
    by (auto simp: stages_def wp_remember stagingOK_def pinsNamed_def gomap.get_put)
  have "stages ops s0 d0 (\<lambda>t. \<forall>p. r = Inr p \<longrightarrow> safeComponents ?k = Inr p)
      (case r of Inl e \<Rightarrow> if e = ENOENT then ret None else raise e
               | Inr p \<Rightarrow> bnd (remember ?k p) (\<lambda>p. ret (Some p)))
      (\<lambda>d t. \<forall>p. d = Some p \<longrightarrow> safeComponents ?k = Inr p)" for r
  proof (cases r)
    case (Inr p)
    show ?thesis
      unfolding Inr sum.case
      by (rule stages_bnd [OF stages_weaken [OF keep] stages_ret]) auto
  qed (auto intro: stages_ret stages_raise)
  from stages_bnd [OF stages_attempt [OF walk] this]
  show ?thesis
    using Inr unfolding stages_def
    by (auto simp: existingDirFor_def dirComps_def wp_def Let_def stagingOK_def pinsNamed_def split: option.splits)
qed

subsection \<open>Writing to the staged names\<close>

lemma isLeaf_changed [simp]:
  "isLeaf (appended b n) = isLeaf n" "isLeaf (described sd n) = isLeaf n" "isLeaf (signedNode sig n) = isLeaf n"
  by (cases n; simp)+

lemma stages_slot_make:
  assumes "separate ops" and "d @ [a] \<in> stagedSlots ops" and "isLeaf n"
  shows "stages ops s0 d0 A (sys (\<lambda>t. if isDir t d then sys_make (d @ [a]) n t else Inl ENOENT)) (\<lambda>u t. True)"
  by (rule stages_sys)
     (auto simp: sys_make_def split: if_splits option.splits intro: stagingTree_slot(1) [OF _ assms])

lemma stages_slot_change:
  assumes "separate ops" and "k \<in> stagedSlots ops" and "\<And>n. isLeaf (g n) = isLeaf n"
  shows "stages ops s0 d0 A (sys (sys_change g k)) (\<lambda>u t. True)"
proof (rule stages_sys)
  fix t and x :: unit and t'
  assume t: "stagingTree ops s0 t" "sys_change g k t = Inr (x, t')"
  then obtain n where n: "look t k = Some n" "t' = putNode t k (g n)"
    by (auto simp: sys_change_def split: option.splits)
  with stagingTree_slot(2) [OF t(1) assms(1,2), of "NLink []"] have "isLeaf (g n)" by (simp add: assms(3))
  with stagingTree_slot(1) [OF t(1) assms(1,2) this] n(2) show "stagingTree ops s0 t' \<and> True" by simp
qed

lemma stages_at_make:
  assumes "separate ops" and "d @ [a] \<in> stagedSlots ops" and "isLeaf n"
  shows "stages ops s0 d0 A (at d a (\<lambda>p. sys_make p n)) (\<lambda>u t. True)"
  using stages_slot_make [OF assms] by (auto simp: at_def intro: stages_raise)

lemma stages_look:
  assumes "\<And>p t x t'. f p t = Inr (x, t') \<Longrightarrow> t' = t"
  shows "stages ops s0 d0 A (at d a f) (\<lambda>x t. True)"
proof -
  have "stages ops s0 d0 A (sys (\<lambda>t. if isDir t d then f (d @ [a]) t else Inl ENOENT)) (\<lambda>x t. True)"
    by (rule stages_sys) (metis Inl_Inr_False assms)
  then show ?thesis by (simp add: at_def stages_raise)
qed

lemma stages_writeStagedFile:
  assumes "separate ops" and "d @ [a] \<in> stagedSlots ops"
  shows "stages ops s0 d0 A (writeStagedFile d a content sd) (\<lambda>u t. True)"
proof -
  have create: "stages ops s0 d0 A (Create d a) (\<lambda>u t. True)" for A
    unfolding Create_def by (rule stages_at_make [OF assms]) simp
  have made: "stages ops s0 d0 A (makeAt d a (NFile [] sd [])) (\<lambda>u t. True)" for A
    unfolding makeAt_def by (rule stages_slot_make [OF assms]) simp
  have chmod: "stages ops s0 d0 A (sys (\<lambda>t. Inr ((), t))) (\<lambda>u t. True)" for A
    by (rule stages_sys) auto
  have change: "stages ops s0 d0 A (sys (sys_change g (d @ [a]))) (\<lambda>u t. True)"
    if "\<And>n. isLeaf (g n) = isLeaf n" for A g
    by (rule stages_slot_change [OF assms that])
  have "stages ops s0 d0 A (CreateWithSD d a sd) (\<lambda>u t. True)"
    using create [of A] stages_bnd [OF made chmod, of A]
      stages_bnd [OF create change [of "described sd"], of A]
    unfolding stages_def by (auto simp: CreateWithSD_def Setxattr_def wp_def)
  from stages_bnd [OF this change [of "appended content"]]
  show ?thesis by (simp add: writeStagedFile_def WriteAll_def)
qed

subsection \<open>Materialising\<close>

text \<open>A path that content is written to: the staged name of an operation, in its directory.\<close>

definition slotPath :: "string \<Rightarrow> fileOp list \<Rightarrow> string \<Rightarrow> bool" where
  "slotPath root ops a \<longleftrightarrow>
     (\<exists>d. dirComps root a = Inr d \<and> clearOf ops d \<and> d @ [baseName a] \<in> stagedSlots ops)"

definition slotsIn :: "string \<Rightarrow> fileOp list \<Rightarrow> string gomap \<Rightarrow> bool" where
  "slotsIn root ops w \<longleftrightarrow> (\<forall>k a. map_get w k = Some a \<longrightarrow> slotPath root ops a)"

lemma stages_foldAct:
  assumes "\<And>x st. x \<in> set xs \<Longrightarrow> stages ops s0 d0 (\<lambda>t. J st) (f x st) (\<lambda>st t. J st)"
  shows "stages ops s0 d0 (\<lambda>t. J st) (foldAct f xs st) (\<lambda>st t. J st)"
  using assms
proof (induction xs arbitrary: st)
  case (Cons x xs)
  show ?case
    unfolding foldAct.simps by (rule stages_bnd [OF Cons.prems Cons.IH]) (use Cons.prems in auto)
qed (simp add: stages_ret)

lemma stages_each:
  assumes "\<And>x. x \<in> set xs \<Longrightarrow> stages ops s0 d0 (\<lambda>t. True) (f x) (\<lambda>u t. True)"
  shows "stages ops s0 d0 (\<lambda>t. True) (each f xs) (\<lambda>u t. True)"
  using assms
proof (induction xs)
  case (Cons x xs)
  show ?case
    unfolding each.simps by (rule stages_bnd [OF Cons.prems Cons.IH]) (use Cons.prems in auto)
qed (simp add: stages_ret)

text \<open>The directories a package brings along are none of the paths of the operations.\<close>

definition dirsClear :: "Env \<Rightarrow> fileOp list \<Rightarrow> PayloadEntry \<Rightarrow> bool" where
  "dirsClear env ops e \<longleftrightarrow>
     (pe_Type e = EntryDir \<longrightarrow>
        (case pinRel (e_Root env) (joinRoot (e_Root env) (pe_Path e)) of
           Inl err \<Rightarrow> True
         | Inr rel \<Rightarrow> (case safeComponents rel of Inl err \<Rightarrow> True | Inr cs \<Rightarrow> clearOf ops cs)))"

lemma stages_materializeEntry:
  assumes "separate ops" and "slotsIn (e_Root env) ops (sg_stagedAt s)" and "dirsClear env ops (fst ec)"
  shows "stages ops s0 d0 (\<lambda>t. slotsIn (e_Root env) ops (snd st)) (materializeEntry env s m ec st)
     (\<lambda>st t. slotsIn (e_Root env) ops (snd st))"
proof -
  obtain entry content where ec: "ec = (entry, content)" by force
  let ?J = "\<lambda>st. slotsIn (e_Root env) ops (snd st)"
  have at_slot: "stages ops s0 d0 (\<lambda>t. ?J st) (bnd (dirFor (e_Root env) a) (\<lambda>d. bnd (w d) (\<lambda>_. ret st'))) (\<lambda>st t. ?J st)"
    if a: "map_get (sg_stagedAt s) k = Some a" and st': "?J st \<Longrightarrow> slotPath (e_Root env) ops a \<Longrightarrow> ?J st'"
      and w: "\<And>d A. d @ [baseName a] \<in> stagedSlots ops \<Longrightarrow> stages ops s0 d0 A (w d) (\<lambda>u t. True)"
    for k a st' and w :: "path \<Rightarrow> unit act"
  proof (rule stages_const)
    assume J: "?J st"
    from assms(2) a have slot: "slotPath (e_Root env) ops a" unfolding slotsIn_def by blast
    then obtain d where d: "dirComps (e_Root env) a = Inr d" "clearOf ops d" "d @ [baseName a] \<in> stagedSlots ops"
      unfolding slotPath_def by blast
    from st' [OF J slot] have J': "?J st'" .
    show "stages ops s0 d0 (\<lambda>t. True) (bnd (dirFor (e_Root env) a) (\<lambda>d. bnd (w d) (\<lambda>_. ret st'))) (\<lambda>st t. ?J st)"
    proof (rule stages_bnd [OF stages_dirFor])
      fix x
      show "stages ops s0 d0 (\<lambda>t. dirComps (e_Root env) a = Inr x) (bnd (w x) (\<lambda>_. ret st')) (\<lambda>st t. ?J st)"
      proof (rule stages_const)
        assume "dirComps (e_Root env) a = Inr x"
        with d have slots: "x @ [baseName a] \<in> stagedSlots ops" by simp
        show "stages ops s0 d0 (\<lambda>t. True) (bnd (w x) (\<lambda>_. ret st')) (\<lambda>st t. ?J st)"
          by (rule stages_bnd [OF w [OF slots] stages_ret]) (rule J')
      qed
    qed (use d in simp)
  qed
  show ?thesis
  proof (cases "pe_Type entry")
    case EntryDir
    have "stages ops s0 d0 (\<lambda>t. ?J st) (bnd (mkdirAllAbs (e_Root env) (joinRoot (e_Root env) (pe_Path entry))) (\<lambda>d. ret st))
        (\<lambda>st t. ?J st)"
    proof (rule stages_const)
      assume "?J st"
      then show "stages ops s0 d0 (\<lambda>t. True)
          (bnd (mkdirAllAbs (e_Root env) (joinRoot (e_Root env) (pe_Path entry))) (\<lambda>d. ret st)) (\<lambda>st t. ?J st)"
        using assms(3) EntryDir unfolding ec
        by (intro stages_bnd [OF stages_mkdirAllAbs stages_ret]) (auto simp: dirsClear_def)
    qed
    with EntryDir show ?thesis by (simp add: materializeEntry_def ec)
  next
    case EntryFile
    show ?thesis
    proof (cases "IsSidecar (pe_Path entry)")
      case True
      with EntryFile show ?thesis
        by (auto simp: materializeEntry_def ec addSidecar_def intro: stages_raise stages_ret split: prod.splits)
    next
      case False
      show ?thesis
      proof (cases "logicalPath entry \<in> set (sg_untouched s) \<or> map_get (sg_stagedAt s) (logicalPath entry) = None")
        case True
        with False EntryFile show ?thesis
          by (auto simp: materializeEntry_def ec intro: stages_raise stages_ret)
      next
        case plain: False
        then obtain a where a: "map_get (sg_stagedAt s) (logicalPath entry) = Some a" by blast
        have "stages ops s0 d0 (\<lambda>t. ?J st)
          (bnd (dirFor (e_Root env) a) (\<lambda>d. bnd (writeStagedFile d (baseName a) content (overrideFor m (pe_Path entry)))
             (\<lambda>_. ret (fst st, map_put (snd st) (pe_Path entry) a)))) (\<lambda>st t. ?J st)"
          by (rule at_slot [OF a])
             (auto simp: slotsIn_def gomap.get_put intro: stages_writeStagedFile [OF assms(1)])
        with plain False EntryFile a show ?thesis by (simp add: materializeEntry_def ec)
      qed
    qed
  next
    case EntrySymlink
    show ?thesis
    proof (cases "map_get (sg_stagedAt s) (logicalPath entry)")
      case None
      with EntrySymlink show ?thesis by (simp add: materializeEntry_def ec stages_raise)
    next
      case (Some a)
      have "stages ops s0 d0 (\<lambda>t. ?J st)
          (bnd (dirFor (e_Root env) a) (\<lambda>d. bnd (Symlink d (pe_LinkTarget entry) (baseName a)) (\<lambda>_. ret st))) (\<lambda>st t. ?J st)"
        by (rule at_slot [OF Some]) (auto simp: Symlink_def intro: stages_at_make [OF assms(1)])
      with EntrySymlink Some show ?thesis by (simp add: materializeEntry_def ec)
    qed
  qed
qed

lemma stages_stampSidecar:
  assumes "separate ops" and "slotsIn (e_Root env) ops written"
  shows "stages ops s0 d0 (\<lambda>t. True) (stampSidecar env written tb) (\<lambda>u t. True)"
proof -
  obtain target blob where tb: "tb = (target, blob)" by force
  show ?thesis
  proof (cases "map_get written target")
    case None
    then show ?thesis by (simp add: stampSidecar_def tb stages_raise)
  next
    case (Some a)
    with assms(2) obtain d where d: "dirComps (e_Root env) a = Inr d" "d @ [baseName a] \<in> stagedSlots ops"
      unfolding slotsIn_def slotPath_def by blast
    have read: "stages ops s0 d0 A (readFile x (baseName a)) (\<lambda>c t. True)" for x A
      unfolding readFile_def by (rule stages_look) (auto split: option.splits node.splits)
    have stamp: "stages ops s0 d0 (\<lambda>t. dirComps (e_Root env) a = Inr x)
       (bnd (readFile x (baseName a)) (\<lambda>content.
          if IsELF content then raise (WrongBlob target)
          else Setxattr x (baseName a) (signedNode blob))) (\<lambda>u t. True)" for x
    proof (rule stages_const)
      assume "dirComps (e_Root env) a = Inr x"
      with d have slots: "x @ [baseName a] \<in> stagedSlots ops" by simp
      have "stages ops s0 d0 A (Setxattr x (baseName a) (signedNode blob)) (\<lambda>u t. True)" for A
        unfolding Setxattr_def by (rule stages_slot_change [OF assms(1) slots]) simp
      then show "stages ops s0 d0 (\<lambda>t. True) (bnd (readFile x (baseName a)) (\<lambda>content.
          if IsELF content then raise (WrongBlob target)
          else Setxattr x (baseName a) (signedNode blob))) (\<lambda>u t. True)"
        by (intro stages_bnd [OF read]) (auto intro: stages_raise)
    qed
    have "stages ops s0 d0 (\<lambda>t. \<forall>p. dir = Some p \<longrightarrow> dirComps (e_Root env) a = Inr p)
       (case dir of
          None \<Rightarrow> raise ENOENT
        | Some x \<Rightarrow>
            bnd (readFile x (baseName a)) (\<lambda>content.
              if IsELF content then raise (WrongBlob target)
              else Setxattr x (baseName a) (signedNode blob))) (\<lambda>u t. True)" for dir
      using stamp by (cases dir) (simp_all add: stages_raise)
    from stages_bnd [OF stages_existingDirFor this]
    show ?thesis by (simp add: stampSidecar_def tb Some)
  qed
qed

lemma slotsIn_nil [simp]: "slotsIn root ops []"
  by (simp add: slotsIn_def map_get_def)

lemma stages_materializePackage:
  assumes "separate ops" and "slotsIn (e_Root env) ops (sg_stagedAt s)"
    and "\<forall>ec\<in>set (pp_Archive pp). dirsClear env ops (fst ec)"
  shows "stages ops s0 d0 (\<lambda>t. True) (materializePackage env s pp) (\<lambda>u t. True)"
proof -
  have entries: "stages ops s0 d0 (\<lambda>t. slotsIn (e_Root env) ops (snd st))
      (foldAct (materializeEntry env s (ap_Manifest (pp_Pkg pp))) (pp_Archive pp) st)
      (\<lambda>st t. slotsIn (e_Root env) ops (snd st))" for st
    by (rule stages_foldAct) (use assms stages_materializeEntry in blast)
  have stamp: "stages ops s0 d0 (\<lambda>t. slotsIn (e_Root env) ops (snd st))
      (case st of (sidecars, written) \<Rightarrow> each (stampSidecar env written) (map_entries sidecars)) (\<lambda>u t. True)" for st
    by (cases st) (auto intro!: stages_const stages_each stages_stampSidecar [OF assms(1)] simp del: split_paired_All)
  have "stages ops s0 d0 (\<lambda>t. slotsIn (e_Root env) ops (snd (([], []) :: materialState))) (materializePackage env s pp) (\<lambda>u t. True)"
    unfolding materializePackage_def by (rule stages_bnd [OF entries [of "([], [])"] stamp])
  then show ?thesis by simp
qed

definition materialsFit :: "Env \<Rightarrow> ProvidedPackage gomap \<Rightarrow> preparedTxn \<Rightarrow> fileOp list \<Rightarrow> bool" where
  "materialsFit env provided p ops \<longleftrightarrow>
     (\<forall>s\<in>set (pt_staged p). slotsIn (e_Root env) ops (sg_stagedAt s) \<and>
        (case map_get provided (op_Name (sg_op s)) of
           None \<Rightarrow> True | Some pp \<Rightarrow> \<forall>ec\<in>set (pp_Archive pp). dirsClear env ops (fst ec))) \<and>
     (\<forall>ss\<in>set (cw_stagedSymlinks (pt_claimW p)). ss_dir ss @ [ss_name ss] \<in> stagedSlots ops)"

lemma stages_materialize:
  assumes "separate ops" and "materialsFit env provided p ops"
  shows "stages ops s0 d0 (\<lambda>t. True) (each (materializeOne env provided) (pt_staged p)) (\<lambda>u t. True)"
    and "stages ops s0 d0 (\<lambda>t. True) (materializeClaims (pt_claimW p)) (\<lambda>u t. True)"
proof -
  show "stages ops s0 d0 (\<lambda>t. True) (each (materializeOne env provided) (pt_staged p)) (\<lambda>u t. True)"
  proof (rule stages_each)
    fix s assume "s \<in> set (pt_staged p)"
    with assms(2) have "slotsIn (e_Root env) ops (sg_stagedAt s)"
      and "map_get provided (op_Name (sg_op s)) = Some pp \<Longrightarrow> \<forall>ec\<in>set (pp_Archive pp). dirsClear env ops (fst ec)" for pp
      by (fastforce simp: materialsFit_def)+
    then show "stages ops s0 d0 (\<lambda>t. True) (materializeOne env provided s) (\<lambda>u t. True)"
      by (auto simp: materializeOne_def intro: stages_ret stages_raise stages_materializePackage [OF assms(1)]
          split: option.splits)
  qed
  show "stages ops s0 d0 (\<lambda>t. True) (materializeClaims (pt_claimW p)) (\<lambda>u t. True)"
    unfolding materializeClaims_def Symlink_def
    by (rule stages_each, rule stages_at_make [OF assms(1)]) (use assms(2) in \<open>auto simp: materialsFit_def\<close>)
qed

end
