(* ===== verification/TxnFacts.thy ===== *)
theory TxnFacts
  imports StagingFacts
begin

section \<open>A transaction cut short\<close>

text \<open>
  From the complete plan of a transaction to its end, with a fault anywhere: at every moment the
  journal and the tree are such that recovery restores what the operations touched, until the
  commit of the database makes the transaction stand.
\<close>

subsection \<open>One operation\<close>

text \<open>
  Either its directory is open and the operation can be undone, or its directory has been removed
  again, and then nothing of it was there before and nothing is now.
\<close>

definition liveOp :: "fsys \<Rightarrow> fsys \<Rightarrow> fileOp \<Rightarrow> bool" where
  "liveOp s0 t op \<longleftrightarrow> undoable s0 t op \<and> openDirs t (opDir op)"

definition goneOp :: "fsys \<Rightarrow> fsys \<Rightarrow> fileOp \<Rightarrow> bool" where
  "goneOp s0 t op \<longleftrightarrow>
     (\<exists>k. prefix k (opDir op) \<and> k \<noteq> [] \<and> look t k = None) \<and> noLeafOn t (opDir op) \<and>
     (\<forall>k\<in>set (opKeys op). look t k = None \<and> look s0 k = None)"

lemma liveOp_elsewhere:
  assumes "elsewhere K t t'" and "openDirs t d"
  shows "openDirs t' d"
  using assms by (simp add: openDirs_def elsewhere_def)

lemma undoable_leafy_now:
  assumes "undoable s0 t op" and "k \<in> set (opKeys op)"
  shows "leafy (look t k)"
  using assms
  by (cases "fo_action op"; cases "fo_dir op")
     (auto simp: undoable_def planned_def displaced_def op_defs split: if_splits)

lemma undoable_empty:
  assumes "undoable s0 t op" and "\<forall>k\<in>set (opKeys op). look t k = None" and "k \<in> set (opKeys op)"
  shows "look s0 k = None"
  using assms
  by (cases "fo_action op"; cases "fo_dir op")
     (auto simp: undoable_def planned_def displaced_def op_defs split: if_splits)

lemma opKeys_below:
  assumes "k \<in> set (opKeys op)" and "prefix x (opDir op)"
  shows "strict_prefix x k"
  using assms by (cases "fo_dir op") (auto simp: opKeys_def opDir_def strict_prefix_def prefix_def)

lemma undoable_cong:
  assumes "\<And>k. k \<in> set (opKeys op) \<Longrightarrow> look t' k = look t k" and "isDir t' (opDir op) = isDir t (opDir op)"
  shows "undoable s0 t' op = undoable s0 t op"
  using assms
  by (cases "fo_action op"; cases "fo_dir op")
     (simp_all add: undoable_def displaced_def op_defs opDir_def)

text \<open>Removing a directory without entries.\<close>

lemma rmdir_op:
  assumes "liveOp s0 t op \<or> goneOp s0 t op" and "look t x = Some n" and "\<not> isLeaf n" and "\<not> inhabited t x" and "x \<noteq> []"
  shows "liveOp s0 (erase t x) op \<or> goneOp s0 (erase t x) op"
  using assms(1)
proof
  assume live: "liveOp s0 t op"
  then have other: "x \<notin> set (opKeys op)"
    using undoable_leafy_now assms(2,3) unfolding liveOp_def by fastforce
  show ?thesis
  proof (cases "prefix x (opDir op)")
    case True
    have none: "look t k = None" if "k \<in> set (opKeys op)" for k
      using opKeys_below [OF that True] assms(4) unfolding inhabited_look by blast
    have "goneOp s0 (erase t x) op"
      unfolding goneOp_def
    proof (intro conjI ballI)
      show "\<exists>k. prefix k (opDir op) \<and> k \<noteq> [] \<and> look (erase t x) k = None"
        using True assms(5) by (auto simp: fsys_simps)
      have "case look t k of None \<Rightarrow> True | Some n \<Rightarrow> \<not> isLeaf n" if "prefix k (opDir op)" "k \<noteq> []" for k
        using live that by (auto simp: liveOp_def openDirs_def isDir_look leafy_def split: option.splits)
      then show "noLeafOn (erase t x) (opDir op)" by (auto simp: noLeafOn_def fsys_simps)
      fix k assume "k \<in> set (opKeys op)"
      then show "look (erase t x) k = None" "look s0 k = None"
        using none undoable_empty live by (auto simp: fsys_simps liveOp_def)
    qed
    then show ?thesis ..
  next
    case False
    have dirs: "isDir (erase t x) k = isDir t k" if "prefix k (opDir op)" for k
      using False that by (auto simp: isDir_look fsys_simps)
    have looks: "look (erase t x) k = look t k" if "k \<in> set (opKeys op)" for k
      using other that by (auto simp: fsys_simps)
    have "undoable s0 (erase t x) op"
      using live undoable_cong [OF looks dirs] by (simp add: liveOp_def)
    with live dirs show ?thesis by (simp add: liveOp_def openDirs_def)
  qed
next
  assume "goneOp s0 t op"
  then show ?thesis
    unfolding goneOp_def noLeafOn_def by (auto simp: fsys_simps)
qed

subsection \<open>The journal against the plan\<close>

definition rowsUpTo :: "preparedTxn \<Rightarrow> nat \<Rightarrow> nat \<Rightarrow> database \<Rightarrow> bool" where
  "rowsUpTo p k j d \<longleftrightarrow>
     TxnFiles (pt_txnID p) d = map (journalFile (pt_txnID p)) (take k (enumerate 0 (namedFileOps (pt_staged p)))) \<and>
     TxnDirs (pt_txnID p) d = take j (allCreatedDirs (pt_staged p))"

definition opened :: "preparedTxn \<Rightarrow> Txn \<Rightarrow> database \<Rightarrow> bool" where
  "opened p txn d \<longleftrightarrow>
     db_ok d \<and> PendingTxn d = Some txn \<and> tx_ID txn = pt_txnID p \<and> tx_CrossRootID txn = [] \<and>
     tx_JournalSchemaVersion txn = journalSchemaVersion"

text \<open>What holds from the opening of the journal to its end, at every point a process may be killed at.\<close>

definition inFlight :: "preparedTxn \<Rightarrow> fsys \<Rightarrow> Txn \<Rightarrow> machine \<Rightarrow> bool" where
  "inFlight p s0 txn m \<longleftrightarrow>
     opened p txn (db m) \<and>
     (\<exists>k j. rowsUpTo p k j (db m) \<and>
        (k < length (namedFileOps (pt_staged p)) \<longrightarrow> (\<forall>q\<in>allKeys (pt_ops p). look (tree m) q = look s0 q))) \<and>
     (\<forall>op\<in>set (pt_ops p). liveOp s0 (tree m) op \<or> goneOp s0 (tree m) op) \<and>
     sameLeaves (allKeys (pt_ops p)) s0 (tree m)"

text \<open>
  A plan as preparation makes it: operations on separate paths, each planned against the tree and
  in an open directory of it, content for their staged names only, and created directories whose
  paths lead through no file.
\<close>

definition wellPlanned :: "Env \<Rightarrow> ProvidedPackage gomap \<Rightarrow> preparedTxn \<Rightarrow> fsys \<Rightarrow> bool" where
  "wellPlanned env provided p s0 \<longleftrightarrow>
     pt_ops p = allFileOps (pt_staged p) \<and> separate (pt_ops p) \<and>
     (\<forall>op\<in>set (pt_ops p). fo_action op \<noteq> actionSwap \<and> planned s0 op \<and>
        (\<exists>d. fo_dir op = Some d \<and> dirComps (e_Root env) (fo_finalPath op) = Inr d \<and> openDirs s0 d)) \<and>
     materialsFit env provided p (pt_ops p) \<and>
     (\<forall>dir\<in>set (allCreatedDirs (pt_staged p)). \<exists>cs. dirAt (e_Root env) dir cs \<and> noLeafOn s0 cs)"

lemma reachable_openDirs: "openDirs t (cur @ cs) \<Longrightarrow> reachable t cur cs = Inr (cur @ cs)"
proof (induction t cur cs rule: reachable.induct)
  case (2 t cur c cs)
  have "isDir t cur" "isDir t (cur @ [c])" using 2(2) by (auto simp: openDirs_def)
  then obtain n where "look t (cur @ [c]) = Some n" "\<not> isLeaf n"
    by (auto simp: isDir_def split: option.splits)
  with 2 \<open>isDir t cur\<close> show ?case by simp
qed simp

lemma reachable_gone:
  assumes "noLeafOn t (cur @ cs)" and "prefix k (cur @ cs)" and "k \<noteq> []" and "look t k = None" and "strict_prefix cur k"
  shows "reachable t cur cs = Inl ENOENT"
proof (cases "reachable t cur cs")
  case (Inl e)
  with reachable_noLeaf [OF assms(1)] show ?thesis by simp
next
  case (Inr p)
  have "look t k \<noteq> None" if "reachable t cur cs = Inr p"
    using that assms(2,5)
  proof (induction t cur cs rule: reachable.induct)
    case (2 t cur c cs)
    from 2(4) obtain r where r: "k = cur @ r" "r \<noteq> []" by (auto simp: strict_prefix_def prefix_def)
    with 2(3) obtain r' where r': "r = c # r'" by (cases r) auto
    show ?case
    proof (cases "r' = []")
      case True
      with r r' 2(2) show ?thesis by (auto split: if_splits option.splits)
    next
      case False
      then have "strict_prefix (cur @ [c]) k" by (simp add: r r' strict_prefix_def)
      with 2(1) [of "the (look t (cur @ [c]))"] 2(2,3) show ?thesis by (auto split: if_splits option.splits)
    qed
  qed (auto simp: strict_prefix_def)
  with Inr assms(4) show ?thesis by simp
qed

definition reopenedOp :: "fsys \<Rightarrow> fsys \<Rightarrow> fileOp \<Rightarrow> fileOp" where
  "reopenedOp s0 t op = op\<lparr>fo_keepBackup := False, fo_dir := (if liveOp s0 t op then fo_dir op else None)\<rparr>"

lemma journalled_row:
  assumes "fo_action op \<noteq> actionSwap" and "fo_dir op = Some d" and "dirComps (e_Root env) (fo_finalPath op) = Inr d"
    and "liveOp s0 t op \<or> goneOp s0 t op"
  shows "journalled (e_Root env) t (journalFile n (i, name, op)) = reopenedOp s0 t op"
    and "isl (opensAt (e_Root env) t (fo_finalPath op)) = False"
proof -
  from assms(2) have dir: "opDir op = d" by (simp add: opDir_def)
  have opens: "opensAt (e_Root env) t (fo_finalPath op) = Inr (if liveOp s0 t op then Some d else None)"
  proof (cases "liveOp s0 t op")
    case True
    with reachable_openDirs [of t "[]" d] assms(3) dir show ?thesis
      by (auto simp: opensAt_def dirComps_def liveOp_def split: sum.splits)
  next
    case False
    with assms(4) have gone: "goneOp s0 t op" by simp
    then obtain k where "prefix k d" "k \<noteq> []" "look t k = None" "noLeafOn t d"
      unfolding goneOp_def dir by blast
    then have "reachable t [] d = Inl ENOENT" using reachable_gone [of t "[]" d k] by (cases k) simp_all
    with False assms(3) show ?thesis by (auto simp: opensAt_def dirComps_def split: sum.splits)
  qed
  then show "isl (opensAt (e_Root env) t (fo_finalPath op)) = False" by simp
  show "journalled (e_Root env) t (journalFile n (i, name, op)) = reopenedOp s0 t op"
    using assms(1,2) opens
    by (cases op; cases "fo_action op") (simp_all add: journalled_def journalFile_def reopenedOp_def)
qed

lemma reopenedOp_same [simp]:
  "liveOp s0 t op \<Longrightarrow> opKeys (reopenedOp s0 t op) = opKeys op"
  "liveOp s0 t op \<Longrightarrow> wellNamed (reopenedOp s0 t op) = wellNamed op"
  "liveOp s0 t op \<Longrightarrow> undoable s0 t' (reopenedOp s0 t op) = undoable s0 t' op"
  by (simp_all add: reopenedOp_def opKeys_def opNames_def wellNamed_def undoable_def planned_def displaced_def
      finalKey_def stagedKey_def backupKey_def base_def staged_def backup_def split: fileAction.splits option.splits)

lemma namedFileOps_ops: "map snd (namedFileOps ss) = allFileOps ss"
  by (induction ss) (simp_all add: namedFileOps_def allFileOps_def o_def)

lemma rows_reopened:
  assumes "wellPlanned env provided p s0"
    and "\<forall>op\<in>set (pt_ops p). liveOp s0 t op \<or> goneOp s0 t op"
    and "files = map (journalFile n) (take k (enumerate 0 (namedFileOps (pt_staged p))))"
  shows "filter (\<lambda>op. fo_dir op \<noteq> None) (map (journalled (e_Root env) t) files) =
      map (reopenedOp s0 t) (filter (liveOp s0 t) (take k (pt_ops p)))"
    and "\<forall>f\<in>set files. isl (opensAt (e_Root env) t (tf_FinalPath f)) = False"
proof -
  let ?rows = "take k (enumerate 0 (namedFileOps (pt_staged p)))"
  have ops: "take k (pt_ops p) = map (snd \<circ> snd) ?rows"
    using assms(1) unfolding wellPlanned_def
    by (simp add: namedFileOps_ops [symmetric] take_map map_map flip: map_map)
       (metis map_snd_enumerate take_map)
  have row: "journalled (e_Root env) t (journalFile n r) = reopenedOp s0 t (snd (snd r))
      \<and> isl (opensAt (e_Root env) t (tf_FinalPath (journalFile n r))) = False \<and> fo_dir (snd (snd r)) \<noteq> None"
    if "r \<in> set ?rows" for r
  proof -
    obtain i name op where r: "r = (i, name, op)" by (metis prod_cases3)
    from that have "op \<in> set (take k (pt_ops p))" unfolding ops r by force
    then have op: "op \<in> set (pt_ops p)" by (rule in_set_takeD)
    with assms(1) obtain d where d: "fo_action op \<noteq> actionSwap" "fo_dir op = Some d"
      "dirComps (e_Root env) (fo_finalPath op) = Inr d" unfolding wellPlanned_def by blast
    from assms(2) op have "liveOp s0 t op \<or> goneOp s0 t op" by blast
    from journalled_row [OF d this] d(2) show ?thesis
      by (simp add: r journalFile_def)
  qed
  from row show "\<forall>f\<in>set files. isl (opensAt (e_Root env) t (tf_FinalPath f)) = False"
    by (simp add: assms(3))
  have "map (journalled (e_Root env) t) files = map (reopenedOp s0 t) (take k (pt_ops p))"
    unfolding assms(3) ops using row by simp
  moreover have "\<forall>op\<in>set (take k (pt_ops p)). fo_dir op \<noteq> None" using row unfolding ops by auto
  then have "filter (\<lambda>op. fo_dir (reopenedOp s0 t op) \<noteq> None) (take k (pt_ops p)) = filter (liveOp s0 t) (take k (pt_ops p))"
    by (intro filter_cong) (auto simp: reopenedOp_def)
  ultimately show "filter (\<lambda>op. fo_dir op \<noteq> None) (map (journalled (e_Root env) t) files) =
      map (reopenedOp s0 t) (filter (liveOp s0 t) (take k (pt_ops p)))"
    by (simp add: filter_map o_def)
qed

lemma distinct_concat_filter: "distinct (concat (map f xs)) \<Longrightarrow> distinct (concat (map f (filter P xs)))"
  by (induction xs) (auto dest: in_set_takeD)

lemma separate_parts_of:
  assumes "separate ops"
  shows "separate (take k ops)" and "separate (filter P ops)"
  using assms distinct_concat_filter [of opKeys ops P]
  by (auto simp: separate_def list_all_iff dest: in_set_takeD)
     (metis append_take_drop_id concat_append distinct_append map_append)

lemma inFlight_recoverable:
  assumes "inFlight p s0 txn m" and "wellPlanned env provided p s0"
  defines "ops \<equiv> pt_ops p"
  shows "\<exists>live. set live \<subseteq> set ops \<and> allKeys live = allKeys (map (reopenedOp s0 (tree m)) live) \<and>
     recoverable env s0 m txn (map (reopenedOp s0 (tree m)) live) \<and>
     (\<forall>q\<in>allKeys ops - allKeys live. look (tree m) q = look s0 q)"
proof -
  let ?t = "tree m"
  from assms(1) obtain k j where rows: "rowsUpTo p k j (db m)"
    and untouched: "k < length (namedFileOps (pt_staged p)) \<Longrightarrow> \<forall>q\<in>allKeys ops. look ?t q = look s0 q"
    unfolding inFlight_def ops_def by blast
  from assms(1) have id: "tx_ID txn = pt_txnID p"
    and each: "\<forall>op\<in>set ops. liveOp s0 ?t op \<or> goneOp s0 ?t op" and same: "sameLeaves (allKeys ops) s0 ?t"
    by (simp_all add: inFlight_def opened_def ops_def)
  define live where "live = filter (liveOp s0 ?t) (take k ops)"
  have sub: "set live \<subseteq> set ops" by (auto simp: live_def dest: in_set_takeD)
  have keys: "allKeys live = allKeys (map (reopenedOp s0 ?t) live)"
    by (auto simp: allKeys_def live_def)
  have len: "length (namedFileOps (pt_staged p)) = length ops"
    using assms(2) namedFileOps_ops [of "pt_staged p"] unfolding wellPlanned_def ops_def
    by (metis length_map)
  have rest: "look ?t q = look s0 q" if q: "q \<in> allKeys ops - allKeys live" for q
  proof (cases "k < length ops")
    case True
    with untouched len q show ?thesis by simp
  next
    case False
    then have "live = filter (liveOp s0 ?t) ops" by (simp add: live_def)
    with q obtain op where "op \<in> set ops" "\<not> liveOp s0 ?t op" "q \<in> set (opKeys op)"
      by (auto simp: allKeys_def)
    with each show ?thesis by (auto simp: goneOp_def)
  qed
  note files = rows [unfolded rowsUpTo_def, THEN conjunct1]
  note again = rows_reopened [OF assms(2) each [unfolded ops_def] files]
  have "separate live"
    using assms(2) unfolding live_def ops_def wellPlanned_def by (blast intro: separate_parts_of)
  moreover have "map (\<lambda>op. opKeys (reopenedOp s0 ?t op)) live = map opKeys live"
    by (rule map_cong) (auto simp: live_def)
  moreover have "list_all wellNamed (map (reopenedOp s0 ?t) live) = list_all wellNamed live"
    by (auto simp: live_def list_all_iff)
  ultimately have sep: "separate (map (reopenedOp s0 ?t) live)"
    by (simp add: separate_def o_def cong: map_cong)
  have undo: "\<forall>op\<in>set (map (reopenedOp s0 ?t) live). undoable s0 ?t op"
    by (auto simp: live_def liveOp_def)
  have dirs: "\<exists>cs. dirAt (e_Root env) dir cs \<and>
      (\<forall>q. prefix q cs \<and> q \<noteq> [] \<longrightarrow>
         (case (if q \<in> allKeys live then look s0 q else look ?t q) of None \<Rightarrow> True | Some n \<Rightarrow> \<not> isLeaf n))"
    if "dir \<in> set (TxnDirs (tx_ID txn) (db m))" for dir
  proof -
    have "dir \<in> set (allCreatedDirs (pt_staged p))"
      using that rows by (auto simp: rowsUpTo_def id dest: in_set_takeD)
    with assms(2) obtain cs where cs: "dirAt (e_Root env) dir cs" "noLeafOn s0 cs"
      unfolding wellPlanned_def by blast
    have "case (if q \<in> allKeys live then look s0 q else look ?t q) of None \<Rightarrow> True | Some n \<Rightarrow> \<not> isLeaf n"
      if "prefix q cs" "q \<noteq> []" for q
    proof -
      from cs(2) that have s0: "case look s0 q of None \<Rightarrow> True | Some n \<Rightarrow> \<not> isLeaf n" by (simp add: noLeafOn_def)
      show ?thesis
      proof (cases "q \<in> allKeys ops")
        case True
        with rest [of q] s0 show ?thesis by auto
      next
        case False
        with sub have "q \<notin> allKeys live" by (auto simp: allKeys_def)
        with same False s0 show ?thesis by (auto simp: sameLeaves_def split: option.splits)
      qed
    qed
    with cs(1) show ?thesis by blast
  qed
  have "recoverable env s0 m txn (map (reopenedOp s0 ?t) live)"
    unfolding recoverable_def id
    using again sep undo dirs keys by (simp add: live_def ops_def id)
  with sub keys rest show ?thesis by blast
qed

text \<open>
  A process killed in flight is recovered from: what its operations touched is as it was, every file
  elsewhere is there, and the journal is closed.
\<close>

lemma inFlight_recovers:
  assumes "inFlight p s0 txn m" and "wellPlanned env provided p s0"
  shows "\<exists>m'. Recover env (boot [] [] m) = (Done (), m') \<and>
     (\<forall>q\<in>allKeys (pt_ops p). look (tree m') q = look s0 q) \<and> sameLeaves (allKeys (pt_ops p)) s0 (tree m') \<and>
     PendingTxn (db m') = None \<and> packageState (db m') = packageState (db m)"
proof -
  let ?t = "tree m" and ?K = "allKeys (pt_ops p)"
  from inFlight_recoverable [OF assms] obtain live where
    sub: "set live \<subseteq> set (pt_ops p)" and keys: "allKeys live = allKeys (map (reopenedOp s0 ?t) live)"
    and rec: "recoverable env s0 m txn (map (reopenedOp s0 ?t) live)"
    and rest: "\<forall>q\<in>?K - allKeys live. look ?t q = look s0 q" by blast
  have rec': "recoverable env s0 (boot [] [] m) txn (map (reopenedOp s0 ?t) live)"
    using rec by (simp only: recoverable_boot)
  have opened: "opened p txn (db m)" and same: "sameLeaves ?K s0 ?t"
    using assms(1) by (simp_all add: inFlight_def)
  have "faults (boot [] [] m) = []" "statFaults (boot [] [] m) = []" "held (boot [] [] m) = False"
    by (simp_all add: boot_def)
  from Recover_quiet [OF this _ _ _ _ rec'] opened keys obtain m' where m': "Recover env (boot [] [] m) = (Done (), m')"
    "\<forall>q\<in>allKeys live. look (tree m') q = look s0 q"
    "\<forall>q. q \<notin> allKeys live \<longrightarrow> look (tree m') q = look ?t q \<or> look (tree m') q = None \<and> \<not> leafy (look ?t q)"
    "PendingTxn (db m') = None" "packageState (db m') = packageState (db m)"
    by (auto simp: opened_def)
  have planned: "leafy (look s0 q)" if "q \<in> ?K" for q
  proof -
    from that obtain op where op: "op \<in> set (pt_ops p)" "q \<in> set (opKeys op)" by (auto simp: allKeys_def)
    with assms(2) have "planned s0 op" and "fo_action op \<noteq> actionSwap" unfolding wellPlanned_def by blast+
    with op(2) show ?thesis
      by (cases "fo_action op"; cases "fo_dir op") (auto simp: planned_def op_defs)
  qed
  have "look (tree m') q = look s0 q" if "q \<in> ?K" for q
  proof (cases "q \<in> allKeys live")
    case False
    with rest that have "look ?t q = look s0 q" by blast
    with m'(3) False planned [OF that] show ?thesis by metis
  qed (use m'(2) in blast)
  moreover have "allKeys live \<subseteq> ?K" using sub by (auto simp: allKeys_def)
  then have "sameLeaves ?K ?t (tree m')"
    using m'(3) unfolding sameLeaves_def by (metis leafy_simps(2) option.distinct(1) subsetD)
  then have "sameLeaves ?K s0 (tree m')" using same sameLeaves_trans by blast
  ultimately show ?thesis using m' by blast
qed

subsection \<open>Writing the journal\<close>

lemma wp_execI:
  assumes "\<And>e. F e (tick m)" and "C (tick m)" and "\<And>d. f (db m) = Inr d \<Longrightarrow> Q () ((tick m)\<lparr>db := d\<rparr>)"
  shows "wp (exec f) Q F C m"
  unfolding exec_def by (rule wp_performI) (use assms in \<open>auto simp: rbind_eq_Inr\<close>)

text \<open>The rows in the order of their insertion, which is that of their numbers.\<close>

definition jrows :: "preparedTxn \<Rightarrow> nat \<Rightarrow> nat \<Rightarrow> database \<Rightarrow> bool" where
  "jrows p k j d \<longleftrightarrow>
     filter (\<lambda>r. tf_TxnID r = pt_txnID p) (t_txn_file d) =
       map (journalFile (pt_txnID p)) (take k (enumerate 0 (namedFileOps (pt_staged p)))) \<and>
     filter (\<lambda>r. td_TxnID r = pt_txnID p) (t_txn_dir d) =
       map (journalDir (pt_txnID p)) (take j (enumerate 0 (allCreatedDirs (pt_staged p))))"

lemma jrows_rowsUpTo: "jrows p k j d \<Longrightarrow> rowsUpTo p k j d"
proof -
  assume j: "jrows p k j d"
  have "map tf_Seq (map (journalFile n) (take k (enumerate 0 xs))) = take k [0..<length xs]" for n k and xs :: "(string \<times> fileOp) list"
    by (simp add: o_def journalFile_def case_prod_beta flip: take_map)
  moreover have "map td_Seq (map (journalDir n) (take k (enumerate 0 xs))) = take k [0..<length xs]" for n k and xs :: "string list"
    by (simp add: o_def journalDir_def case_prod_beta flip: take_map)
  moreover have "map td_Path (map (journalDir n) (take k (enumerate 0 xs))) = take k xs" for n k and xs :: "string list"
    by (simp add: o_def journalDir_def case_prod_beta flip: take_map)
  ultimately show "rowsUpTo p k j d"
    using j unfolding rowsUpTo_def jrows_def TxnFiles_def TxnDirs_def
    by (simp add: sort_key_id_if_sorted sorted_wrt_take)
qed

definition atStart :: "preparedTxn \<Rightarrow> fsys \<Rightarrow> Txn \<Rightarrow> machine \<Rightarrow> bool" where
  "atStart p s0 txn m \<longleftrightarrow> opened p txn (db m) \<and> tree m = s0 \<and> statFaults m = [] \<and> pinsNamed m"

lemma atStart_tick [simp]: "atStart p s0 txn (tick m) = atStart p s0 txn m"
  by (simp add: atStart_def)

lemma atStart_db:
  "atStart p s0 txn m \<Longrightarrow> opened p txn d \<Longrightarrow> atStart p s0 txn ((tick m)\<lparr>db := d\<rparr>)"
  by (simp add: atStart_def pinsNamed_def)

lemma opened_insert:
  assumes "opened p txn d"
  shows "InsertTxnOp r d = Inr d' \<Longrightarrow> opened p txn d'"
    and "InsertTxnFile f d = Inr d' \<Longrightarrow> opened p txn d'"
    and "InsertTxnDir g d = Inr d' \<Longrightarrow> opened p txn d'"
proof -
  have ok: "db_ok d" and rest: "PendingTxn d = Some txn" using assms by (simp_all add: opened_def)
  show "InsertTxnOp r d = Inr d' \<Longrightarrow> opened p txn d'"
    using assms schema.op_row [OF ok, of r d'] by (auto simp: opened_def InsertTxnOp_def PendingTxn_def split: if_splits)
  show "InsertTxnFile f d = Inr d' \<Longrightarrow> opened p txn d'"
    using assms schema.file_row [OF ok, of f d'] by (auto simp: opened_def InsertTxnFile_def PendingTxn_def split: if_splits)
  show "InsertTxnDir g d = Inr d' \<Longrightarrow> opened p txn d'"
    using assms schema.dir_row [OF ok, of g d'] by (auto simp: opened_def InsertTxnDir_def PendingTxn_def split: if_splits)
qed

lemma insert_loop:
  assumes "P 0 m" and "\<And>k m. k < length rs \<Longrightarrow> P k m \<Longrightarrow> P k (tick m)"
    and "\<And>k m d. k < length rs \<Longrightarrow> P k m \<Longrightarrow> ins (rs ! k) (db m) = Inr d \<Longrightarrow> P (Suc k) ((tick m)\<lparr>db := d\<rparr>)"
  shows "wp (each (\<lambda>r. exec (ins r)) rs) (\<lambda>u. P (length rs)) (\<lambda>e m. \<exists>k. P k m) (\<lambda>m. \<exists>k. P k m) m"
proof -
  define I where "I ys m \<longleftrightarrow> (\<exists>k\<le>length rs. ys = drop k rs \<and> P k m)" for ys m
  have "wp (each (\<lambda>r. exec (ins r)) rs) (\<lambda>u. I []) (\<lambda>e m. \<exists>k. P k m) (\<lambda>m. \<exists>k. P k m) m"
  proof (rule wp_each)
    show "I rs m" using assms(1) by (auto simp: I_def intro: exI [of _ 0])
    fix r ys m assume "I (r # ys) m"
    then obtain k where k: "r # ys = drop k rs" "P k m" by (auto simp: I_def)
    then have len: "k < length rs" by (metis drop_eq_Nil list.distinct(1) not_le)
    with k(1) have r: "r = rs ! k" "ys = drop (Suc k) rs" by (metis Cons_nth_drop_Suc list.inject)+
    show "wp (exec (ins r)) (\<lambda>u. I ys) (\<lambda>e m. \<exists>k. P k m) (\<lambda>m. \<exists>k. P k m) m"
    proof (rule wp_execI)
      fix d assume "ins r (db m) = Inr d"
      then show "I ys ((tick m)\<lparr>db := d\<rparr>)"
        using assms(3) [OF len k(2)] len unfolding r I_def by (intro exI [of _ "Suc k"]) simp
    qed (use assms(2) [OF len k(2)] in blast)+
  qed
  then show ?thesis by (rule wp_mono) (auto simp: I_def)
qed

lemma writeJournal_run:
  assumes "atStart p s0 txn m" and "jrows p 0 0 (db m)"
  shows "wp (writeJournal (pt_txnID p) (pt_staged p))
     (\<lambda>u m'. atStart p s0 txn m' \<and>
        jrows p (length (namedFileOps (pt_staged p))) (length (allCreatedDirs (pt_staged p))) (db m'))
     (\<lambda>e m'. atStart p s0 txn m' \<and> (\<exists>k j. jrows p k j (db m')))
     (\<lambda>m'. atStart p s0 txn m' \<and> (\<exists>k j. jrows p k j (db m'))) m"
proof -
  let ?n = "pt_txnID p" and ?ops = "map (journalOp (pt_txnID p)) (enumerate 0 (pt_staged p))"
  let ?E = "enumerate 0 (namedFileOps (pt_staged p))" and ?D = "enumerate 0 (allCreatedDirs (pt_staged p))"
  let ?stop = "\<lambda>m'. atStart p s0 txn m' \<and> (\<exists>k j. jrows p k j (db m'))"
  have ops: "wp (each (\<lambda>r. exec (InsertTxnOp r)) ?ops) (\<lambda>u m'. atStart p s0 txn m' \<and> jrows p 0 0 (db m'))
      (\<lambda>e. ?stop) ?stop m"
  proof (rule wp_mono [OF insert_loop [where P = "\<lambda>k m. atStart p s0 txn m \<and> jrows p 0 0 (db m)"]])
    fix k m d assume m: "atStart p s0 txn m \<and> jrows p 0 0 (db m)" and ins: "InsertTxnOp (?ops ! k) (db m) = Inr d"
    from ins have "jrows p 0 0 d = jrows p 0 0 (db m)"
      by (auto simp: InsertTxnOp_def jrows_def split: if_splits)
    with m atStart_db [OF _ opened_insert(1) [OF _ ins]]
    show "atStart p s0 txn ((tick m)\<lparr>db := d\<rparr>) \<and> jrows p 0 0 (db ((tick m)\<lparr>db := d\<rparr>))"
      by (auto simp: atStart_def)
  qed (use assms in auto)
  have files: "wp (each (\<lambda>r. exec (InsertTxnFile r)) (map (journalFile ?n) ?E))
      (\<lambda>u m'. atStart p s0 txn m' \<and> jrows p (length ?E) 0 (db m')) (\<lambda>e. ?stop) ?stop m1"
    if "atStart p s0 txn m1 \<and> jrows p 0 0 (db m1)" for m1
  proof (rule wp_mono [OF insert_loop [where P = "\<lambda>k m. atStart p s0 txn m \<and> jrows p k 0 (db m)"]])
    fix k m d assume k: "k < length (map (journalFile ?n) ?E)" and m: "atStart p s0 txn m \<and> jrows p k 0 (db m)"
      and ins: "InsertTxnFile (map (journalFile ?n) ?E ! k) (db m) = Inr d"
    from ins k have d: "d = (db m)\<lparr>t_txn_file := t_txn_file (db m) @ [journalFile ?n (?E ! k)]\<rparr>"
      by (auto simp: InsertTxnFile_def split: if_splits)
    have "tf_TxnID (journalFile ?n (?E ! k)) = ?n" by (simp add: journalFile_def case_prod_beta)
    with m k have "jrows p (Suc k) 0 d" by (simp add: d jrows_def take_Suc_conv_app_nth)
    with m atStart_db [OF _ opened_insert(2) [OF _ ins]]
    show "atStart p s0 txn ((tick m)\<lparr>db := d\<rparr>) \<and> jrows p (Suc k) 0 (db ((tick m)\<lparr>db := d\<rparr>))"
      by (auto simp: atStart_def)
  qed (use that in auto)
  have dirs: "wp (each (\<lambda>r. exec (InsertTxnDir r)) (map (journalDir ?n) ?D))
      (\<lambda>u m'. atStart p s0 txn m' \<and> jrows p (length ?E) (length ?D) (db m')) (\<lambda>e. ?stop) ?stop m1"
    if "atStart p s0 txn m1 \<and> jrows p (length ?E) 0 (db m1)" for m1
  proof (rule wp_mono [OF insert_loop [where P = "\<lambda>k m. atStart p s0 txn m \<and> jrows p (length ?E) k (db m)"]])
    fix k m d assume k: "k < length (map (journalDir ?n) ?D)" and m: "atStart p s0 txn m \<and> jrows p (length ?E) k (db m)"
      and ins: "InsertTxnDir (map (journalDir ?n) ?D ! k) (db m) = Inr d"
    from ins k have d: "d = (db m)\<lparr>t_txn_dir := t_txn_dir (db m) @ [journalDir ?n (?D ! k)]\<rparr>"
      by (auto simp: InsertTxnDir_def split: if_splits)
    have "td_TxnID (journalDir ?n (?D ! k)) = ?n" by (simp add: journalDir_def case_prod_beta)
    with m k have "jrows p (length ?E) (Suc k) d" by (simp add: d jrows_def take_Suc_conv_app_nth)
    with m atStart_db [OF _ opened_insert(3) [OF _ ins]]
    show "atStart p s0 txn ((tick m)\<lparr>db := d\<rparr>) \<and> jrows p (length ?E) (Suc k) (db ((tick m)\<lparr>db := d\<rparr>))"
      by (auto simp: atStart_def)
  qed (use that in auto)
  show ?thesis
    unfolding writeJournal_def wp_bnd
  proof (rule wp_mono [OF ops], goal_cases)
    case (1 u m1)
    show ?case by (rule wp_mono [OF files [OF 1]]) (use dirs in simp_all)
  qed auto
qed

end
