(* ===== verification/Interrupted.thy ===== *)
theory Interrupted
  imports TxnFacts
begin

section \<open>The run of a transaction, interrupted\<close>

text \<open>
  The steps after planning one by one, each from its state to its state: while content is staged,
  while it is put in place, while a failed transaction is undone, and the commit.
\<close>

text \<open>In flight with every directory still open, which is so until a failed run removes them again.\<close>

definition underway :: "preparedTxn \<Rightarrow> fsys \<Rightarrow> Txn \<Rightarrow> machine \<Rightarrow> bool" where
  "underway p s0 txn m \<longleftrightarrow>
     opened p txn (db m) \<and>
     (\<exists>k j. rowsUpTo p k j (db m) \<and>
        (k < length (namedFileOps (pt_staged p)) \<longrightarrow> (\<forall>q\<in>allKeys (pt_ops p). look (tree m) q = look s0 q))) \<and>
     (\<forall>op\<in>set (pt_ops p). liveOp s0 (tree m) op) \<and>
     sameLeaves (allKeys (pt_ops p)) s0 (tree m) \<and> statFaults m = []"

lemma underway_inFlight: "underway p s0 txn m \<Longrightarrow> inFlight p s0 txn m"
  by (auto simp: underway_def inFlight_def)

definition undone :: "preparedTxn \<Rightarrow> fsys \<Rightarrow> machine \<Rightarrow> bool" where
  "undone p s0 m \<longleftrightarrow>
     PendingTxn (db m) = None \<and> (\<forall>q\<in>allKeys (pt_ops p). look (tree m) q = look s0 q) \<and>
     sameLeaves (allKeys (pt_ops p)) s0 (tree m)"

lemma atStart_underway:
  assumes "wellPlanned env provided p s0" and "atStart p s0 txn m" and "jrows p k j (db m)"
  shows "underway p s0 txn m"
proof -
  have "undoable s0 s0 op" if "op \<in> set (pt_ops p)" for op
  proof -
    from assms(1) that obtain d where "planned s0 op" "fo_action op \<noteq> actionSwap" "fo_dir op = Some d" "openDirs s0 d"
      unfolding wellPlanned_def by blast
    then have "waiting s0 s0 op"
      by (cases "fo_action op") (auto simp: waiting_def planned_def openDirs_isDir)
    then show ?thesis by (rule waiting_undoable)
  qed
  moreover have "openDirs s0 (opDir op)" if "op \<in> set (pt_ops p)" for op
    using assms(1) that unfolding wellPlanned_def opDir_def by fastforce
  ultimately show ?thesis
    using assms(2) jrows_rowsUpTo [OF assms(3)] by (auto simp: underway_def atStart_def liveOp_def)
qed

lemma staging_underway:
  assumes "stagingOK (pt_ops p) s0 d0 m" and "opened p txn d0"
    and "jrows p (length (namedFileOps (pt_staged p))) j d0"
  shows "underway p s0 txn m"
  using assms jrows_rowsUpTo [OF assms(3)] waiting_undoable
  by (auto simp: underway_def stagingOK_def stagingTree_def liveOp_def)

subsection \<open>Putting in place\<close>

lemma wp_keeps:
  assumes "wp a Q F C m" and "stable P a" and "P m"
  shows "wp a (\<lambda>x m'. Q x m' \<and> P m') (\<lambda>e m'. F e m' \<and> P m') (\<lambda>m'. C m' \<and> P m') m"
  using wp_conj [OF assms(1) stableD [OF assms(2,3)]] .

lemma elsewhere_underway:
  assumes "elsewhere (allKeys (pt_ops p)) (tree m) (tree m')" and "\<forall>op\<in>set (pt_ops p). undoable s0 (tree m') op"
    and "\<forall>op\<in>set (pt_ops p). openDirs (tree m) (opDir op)" and "sameLeaves (allKeys (pt_ops p)) s0 (tree m)"
  shows "(\<forall>op\<in>set (pt_ops p). liveOp s0 (tree m') op) \<and> sameLeaves (allKeys (pt_ops p)) s0 (tree m')"
  using assms liveOp_elsewhere [OF assms(1)] sameLeaves_trans [OF assms(4) elsewhere_sameLeaves [OF assms(1)]]
  by (simp add: liveOp_def)

lemma commitOps_underway:
  assumes "wellPlanned env provided p s0" and "stagingOK (pt_ops p) s0 d0 m" and "opened p txn d0"
    and "jrows p (length (namedFileOps (pt_staged p))) j d0"
  shows "wp (commitOps (pt_ops p))
     (\<lambda>u m'. underway p s0 txn m' \<and> (\<forall>op\<in>set (pt_ops p). applied s0 (tree m) (tree m') op))
     (\<lambda>e. underway p s0 txn) (underway p s0 txn) m"
proof -
  have sep: "separate (pt_ops p)" and swap: "\<forall>op\<in>set (pt_ops p). fo_action op \<noteq> actionSwap"
    using assms(1) by (auto simp: wellPlanned_def)
  have st: "stagingTree (pt_ops p) s0 (tree m)" and q: "quietStat m" and d0: "db m = d0"
    using assms(2) by (simp_all add: stagingOK_def quietStat_def)
  have waiting: "\<forall>op\<in>set (pt_ops p). waiting s0 (tree m) op \<and> fo_action op \<noteq> actionSwap"
    using st swap by (simp add: stagingTree_def)
  have calm: "stable (\<lambda>m'. statFaults m' = [] \<and> db m' = d0) (commitOps (pt_ops p))"
    by (rule stable_rollbackOps(4)) (auto simp: blind_def)
  have start: "statFaults m = [] \<and> db m = d0" using q d0 by (simp add: quietStat_def)
  show ?thesis
  proof (rule wp_mono [OF wp_keeps [OF commitOps_run [OF sep waiting q] calm start]], goal_cases)
    case (1 u m')
    then show ?case
      using elsewhere_underway [of p m m' s0] st assms(3) jrows_rowsUpTo [OF assms(4)]
      by (auto simp: underway_def stagingTree_def)
  next
    case (2 e m')
    then show ?case
      using elsewhere_underway [of p m m' s0] st assms(3) jrows_rowsUpTo [OF assms(4)]
      by (auto simp: underway_def stagingTree_def)
  next
    case (3 m')
    then show ?case
      using elsewhere_underway [of p m m' s0] st assms(3) jrows_rowsUpTo [OF assms(4)]
      by (auto simp: underway_def stagingTree_def)
  qed
qed

subsection \<open>Undoing\<close>

text \<open>An operation that has touched nothing is undone by touching nothing.\<close>

lemma idle_calls:
  assumes "look (tree m) (d @ [a]) = None"
  shows "wp (removeIfExists d a) (\<lambda>u m'. tree m' = tree m) (\<lambda>e m'. tree m' = tree m) (\<lambda>m'. tree m' = tree m) m"
    and "wp (Exists d a) (\<lambda>there m'. \<not> there \<and> tree m' = tree m) (\<lambda>e m'. tree m' = tree m) (\<lambda>m'. tree m' = tree m) m"
proof -
  show "wp (removeIfExists d a) (\<lambda>u m'. tree m' = tree m) (\<lambda>e m'. tree m' = tree m) (\<lambda>m'. tree m' = tree m) m"
    using assms
    by (auto simp: removeIfExists_def RemoveEntry_def RemoveDir_def wp_bnd wp_attempt at_def sys_unlink_def sys_rmdir_def
        intro!: wp_sysI split: if_splits)
  show "wp (Exists d a) (\<lambda>there m'. \<not> there \<and> tree m' = tree m) (\<lambda>e m'. tree m' = tree m) (\<lambda>m'. tree m' = tree m) m"
    using assms
    by (auto simp: wp_def Exists_def Lstat_def bnd_def attempt_def ret_def Let_def split: option.splits)
qed

lemma rollbackOp_idle:
  assumes "planned s0 op" and "\<forall>k\<in>set (opKeys op). look t k = look s0 k"
  shows "stable (\<lambda>m. tree m = t) (rollbackOp op)"
proof -
  have none: "stable (\<lambda>m. tree m = t) (removeIfExists d a)" if "look t (d @ [a]) = None" for d a
    unfolding stable_def
  proof (intro allI impI)
    fix m :: machine assume t: "tree m = t"
    then have "wp (removeIfExists d a) (\<lambda>u m'. tree m' = t) (\<lambda>e m'. tree m' = t) (\<lambda>m'. tree m' = t) m"
      using idle_calls(1) [of m d a] that by simp
    then show "tree (snd (removeIfExists d a m)) = t" by (simp only: wp_final)
  qed
  have "stable (\<lambda>m. tree m = t) (restoreBackup d op)" if "look t (d @ [backup op]) = None" for d
    unfolding stable_def
  proof (intro allI impI)
    fix m :: machine assume "tree m = t"
    then have "wp (restoreBackup d op) (\<lambda>u m'. tree m' = t) (\<lambda>e m'. tree m' = t) (\<lambda>m'. tree m' = t) m"
      unfolding restoreBackup_def wp_bnd using idle_calls(2) [of m d "backup op"] that
      by (auto elim!: wp_mono)
    then show "tree (snd (restoreBackup d op m)) = t" by (simp only: wp_final)
  qed
  with none assms show ?thesis
    by (cases "fo_action op"; cases "fo_dir op")
       (auto simp: rollbackOp_def planned_def op_defs intro!: stable_bnd stable_ret)
qed

lemma rollbackOps_idle:
  assumes "\<forall>op\<in>set ops. planned s0 op \<and> (\<forall>k\<in>set (opKeys op). look t k = look s0 k)"
  shows "stable (\<lambda>m. tree m = t) (rollbackOps ops)"
proof -
  have "stable (\<lambda>m. tree m = t) (collecting rollbackOp xs)" if "set xs \<subseteq> set ops" for xs
    using that
  proof (induction xs)
    case (Cons op xs)
    then have "planned s0 op" "\<forall>k\<in>set (opKeys op). look t k = look s0 k" using assms by auto
    then have "stable (\<lambda>m. tree m = t) (rollbackOp op)" by (rule rollbackOp_idle)
    with Cons show ?case by (auto intro!: stable_rules)
  qed (simp add: stable_ret)
  then show ?thesis
    unfolding rollbackOps_def by (intro stable_bnd stable_joinErrors) simp
qed

lemma rollbackOps_underway:
  assumes "wellPlanned env provided p s0" and "underway p s0 txn m"
  shows "wp (rollbackOps (pt_ops p))
     (\<lambda>u m'. underway p s0 txn m' \<and> (\<forall>q\<in>allKeys (pt_ops p). look (tree m') q = look s0 q))
     (\<lambda>e. underway p s0 txn) (underway p s0 txn) m"
proof -
  let ?K = "allKeys (pt_ops p)"
  have sep: "separate (pt_ops p)" and planned: "\<forall>op\<in>set (pt_ops p). planned s0 op"
    using assms(1) by (auto simp: wellPlanned_def)
  have live: "\<forall>op\<in>set (pt_ops p). liveOp s0 (tree m) op" and same: "sameLeaves ?K s0 (tree m)"
    and stat: "quietStat m" and opened: "opened p txn (db m)"
    using assms(2) by (simp_all add: underway_def quietStat_def)
  from assms(2) obtain k j where rows: "rowsUpTo p k j (db m)"
    and untouched: "k < length (namedFileOps (pt_staged p)) \<Longrightarrow> \<forall>q\<in>?K. look (tree m) q = look s0 q"
    unfolding underway_def by blast
  define P where "P m' \<longleftrightarrow> statFaults m' = [] \<and> db m' = db m \<and>
    (k < length (namedFileOps (pt_staged p)) \<longrightarrow> tree m' = tree m)" for m' :: machine
  have "stable (\<lambda>m'. statFaults m' = [] \<and> db m' = db m) (rollbackOps (pt_ops p))"
    by (rule stable_rollbackOps(3)) (auto simp: blind_def)
  moreover have "stable (\<lambda>m'. tree m' = tree m) (rollbackOps (pt_ops p))"
    if "k < length (namedFileOps (pt_staged p))"
    using untouched [OF that] planned by (intro rollbackOps_idle) (auto simp: allKeys_def)
  ultimately have calm: "stable P (rollbackOps (pt_ops p))"
    by (cases "k < length (namedFileOps (pt_staged p))") (auto simp: stable_def P_def)
  have start: "P m" using stat by (simp add: P_def quietStat_def)
  have undo: "\<forall>op\<in>set (pt_ops p). undoable s0 (tree m) op" using live by (simp add: liveOp_def)
  have keep: "underway p s0 txn m'"
    if e: "elsewhere ?K (tree m) (tree m')" and u: "\<forall>op\<in>set (pt_ops p). undoable s0 (tree m') op" and P: "P m'" for m'
  proof -
    from live have "\<forall>op\<in>set (pt_ops p). openDirs (tree m) (opDir op)" by (simp add: liveOp_def)
    from elsewhere_underway [OF e u this same] P opened rows untouched show ?thesis
      by (auto simp: underway_def P_def)
  qed
  show ?thesis
  proof (rule wp_mono [OF wp_keeps [OF rollbackOps_run [OF sep undo stat] calm start]], goal_cases)
    case (1 u m')
    then show ?case using keep by (auto simp: restored_def allKeys_def)
  qed (use keep in blast)+
qed

subsection \<open>Removing the created directories, with faults\<close>

definition winding :: "preparedTxn \<Rightarrow> fsys \<Rightarrow> database \<Rightarrow> (path \<Rightarrow> node option) \<Rightarrow> machine \<Rightarrow> bool" where
  "winding p s0 d0 g m \<longleftrightarrow>
     db m = d0 \<and> (\<forall>op\<in>set (pt_ops p). liveOp s0 (tree m) op \<or> goneOp s0 (tree m) op) \<and>
     sameLeaves (allKeys (pt_ops p)) s0 (tree m) \<and> (\<forall>q\<in>allKeys (pt_ops p). look (tree m) q = g q)"

lemma winding_tree:
  "winding p s0 d0 g (m\<lparr>tree := t\<rparr>) \<longleftrightarrow>
     db m = d0 \<and> (\<forall>op\<in>set (pt_ops p). liveOp s0 t op \<or> goneOp s0 t op) \<and>
     sameLeaves (allKeys (pt_ops p)) s0 t \<and> (\<forall>q\<in>allKeys (pt_ops p). look t q = g q)"
  by (simp add: winding_def)

lemma winding_sys:
  assumes "\<And>t x t'. f t = Inr (x, t') \<Longrightarrow>
     t' = t \<or> (\<exists>k n. t' = erase t k \<and> k \<noteq> [] \<and> look t k = Some n \<and> \<not> isLeaf n \<and> \<not> inhabited t k)"
  shows "stable (winding p s0 d0 g) (sys f)"
  unfolding sys_def
proof (rule stable_perform)
  fix m :: machine and x m' assume w: "winding p s0 d0 g m"
    and "rbind (f (tree m)) (\<lambda>(x, t). Inr (x, m\<lparr>tree := t\<rparr>)) = Inr (x, m')"
  then obtain t where t: "f (tree m) = Inr (x, t)" "m' = m\<lparr>tree := t\<rparr>" by (auto simp: rbind_eq_Inr)
  from assms [OF t(1)] show "winding p s0 d0 g m'"
  proof (elim disjE exE conjE)
    assume "t = tree m"
    with w t(2) show ?thesis by (simp add: winding_def)
  next
    fix k n assume k: "t = erase (tree m) k" "k \<noteq> []" "look (tree m) k = Some n" "\<not> isLeaf n" "\<not> inhabited (tree m) k"
    have "liveOp s0 t op \<or> goneOp s0 t op" if "op \<in> set (pt_ops p)" for op
      using rmdir_op [of s0 "tree m" op k n] w that k unfolding winding_def by blast
    moreover have "k \<notin> allKeys (pt_ops p)"
    proof
      assume "k \<in> allKeys (pt_ops p)"
      then obtain op where op: "op \<in> set (pt_ops p)" "k \<in> set (opKeys op)" by (auto simp: allKeys_def)
      with w have "leafy (look (tree m) k)"
        using undoable_leafy_now [of s0 "tree m" op k] by (auto simp: winding_def liveOp_def goneOp_def)
      with k(3,4) show False by simp
    qed
    moreover have "sameLeaves (allKeys (pt_ops p)) (tree m) t"
      using k by (auto simp: sameLeaves_def fsys_simps)
    with w have "sameLeaves (allKeys (pt_ops p)) s0 t"
      unfolding winding_def using sameLeaves_trans by blast
    ultimately show ?thesis
      using w k(1) by (auto simp: t(2) winding_tree winding_def fsys_simps)
  qed
qed (simp add: winding_def)

lemma winding_rules:
  fixes p s0 d0 g
  defines "W \<equiv> winding p s0 d0 g"
  shows "stable W (removeCreatedDirs root dirs)"
proof -
  have "stable W (openDirAt cur c)" for cur c
    unfolding W_def openDirAt_def by (rule winding_sys) (auto simp: sys_openDir_def split: if_splits option.splits)
  then have "stable W (walkStep False cur c)" for cur c
    unfolding walkStep_def by (simp, intro stable_rules)
  then have "stable W (walkFrom False cur cs)" for cur cs
    by (induction cs arbitrary: cur) (auto intro!: stable_rules)
  then have walk: "stable W (walk False rel)" for rel
    unfolding walk_def by (intro stable_rules)
  have pin: "stable W (remember r d)" for r d
    by (simp add: stable_def remember_def W_def winding_def)
  have dir: "stable W (existingDirFor root a)" for a
  proof (rule stable_pointwise)
    fix m show "\<exists>b. existingDirFor root a m = b m \<and> stable W b"
    proof (cases "pinRel root a")
      case (Inl e)
      then show ?thesis by (auto simp: existingDirFor_def intro!: stable_rules)
    next
      case (Inr rel)
      show ?thesis
      proof (cases "map_get (pinned m) (fst (safeSplit rel))")
        case (Some d)
        with Inr show ?thesis
          by (intro exI [of _ "ret (Some d)"]) (simp add: existingDirFor_def ret_def stable_rules)
      qed (use Inr in \<open>auto simp: existingDirFor_def Let_def intro!: stable_rules walk pin\<close>)
    qed
  qed
  have "stable W (sys (\<lambda>t. if isDir t d then sys_rmdir (d @ [a]) t else Inl ENOENT))" for d a
    unfolding W_def
    by (rule winding_sys, rule disjI2, rule exI [of _ "d @ [a]"])
       (auto simp: sys_rmdir_def split: if_splits option.splits)
  then have remove: "stable W (RemoveDir d a)" for d a
    unfolding RemoveDir_def at_def by (intro stable_if stable_raise)
  have "stable W (removeCreatedDir root d)" for d
    unfolding removeCreatedDir_def
    by (intro stable_bnd dir stable_option stable_attempt remove stable_sum stable_if stable_ret stable_raise)
  then show ?thesis unfolding removeCreatedDirs_def by (intro stable_rules)
qed

text \<open>
  Undoing a run that failed. When it succeeds everything is as it was; when it does not, the
  journal still leads recovery to it.
\<close>

lemma underway_winding:
  "underway p s0 txn m \<Longrightarrow> winding p s0 (db m) (look (tree m)) m"
  by (auto simp: underway_def winding_def)

lemma winding_inFlight:
  assumes "underway p s0 txn m" and "winding p s0 (db m) (look (tree m)) m'"
  shows "inFlight p s0 txn m'"
proof -
  from assms(1) obtain k j where "rowsUpTo p k j (db m)"
    "k < length (namedFileOps (pt_staged p)) \<longrightarrow> (\<forall>q\<in>allKeys (pt_ops p). look (tree m) q = look s0 q)"
    unfolding underway_def by blast
  with assms show ?thesis unfolding inFlight_def winding_def underway_def by metis
qed

lemma finishRolledBack_run:
  assumes "wellPlanned env provided p s0" and "underway p s0 txn m"
  shows "wp (finishRolledBack env (pt_txnID p) (pt_ops p) dirs reason) (\<lambda>u. undone p s0)
     (\<lambda>e. inFlight p s0 txn) (inFlight p s0 txn) m"
proof -
  let ?W = "\<lambda>m1. winding p s0 (db m1) (look (tree m1))"
  have after: "wp (bnd (attempt (removeCreatedDirs (e_Root env) dirs)) (\<lambda>q.
       case (r, q) of
         (Inr u, Inr v) \<Rightarrow> exec (FinishTxn (pt_txnID p) TxnRolledBack reason)
       | (Inl e, Inr v) \<Rightarrow> raise (Joined [e])
       | (Inr u, Inl e') \<Rightarrow> raise (Joined [e'])
       | (Inl e, Inl e') \<Rightarrow> raise (Joined [e, e'])))
     (\<lambda>u. undone p s0) (\<lambda>e. inFlight p s0 txn) (inFlight p s0 txn) m1"
    if under: "underway p s0 txn m1"
      and whole: "\<And>u. r = Inr u \<Longrightarrow> \<forall>q\<in>allKeys (pt_ops p). look (tree m1) q = look s0 q" for r m1
  proof -
    have opened: "opened p txn (db m1)" using under by (simp add: underway_def)
    have finish: "wp (exec (FinishTxn (pt_txnID p) TxnRolledBack reason)) (\<lambda>u. undone p s0)
        (\<lambda>e. inFlight p s0 txn) (inFlight p s0 txn) m2" if "?W m1 m2" and "r = Inr u" for m2 u
    proof (rule wp_execI)
      have tick: "?W m1 (tick m2)" using that(1) by (simp add: winding_def)
      then show "inFlight p s0 txn (tick m2)" for e :: failure by (rule winding_inFlight [OF under])
      from tick show "inFlight p s0 txn (tick m2)" by (rule winding_inFlight [OF under])
      fix d assume d: "FinishTxn (pt_txnID p) TxnRolledBack reason (db m2) = Inr d"
      have "db_ok (db m1)" "PendingTxn (db m1) = Some txn" "tx_ID txn = pt_txnID p"
        using opened by (simp_all add: opened_def)
      with finish_pending [of "db m1" txn TxnRolledBack reason] d that(1) have "PendingTxn d = None"
        by (auto simp: winding_def)
      with that whole show "undone p s0 ((tick m2)\<lparr>db := d\<rparr>)" by (auto simp: undone_def winding_def)
    qed
    have "wp (removeCreatedDirs (e_Root env) dirs) (\<lambda>x. ?W m1) (\<lambda>e. ?W m1) (?W m1) m1"
      by (rule stableD [OF winding_rules underway_winding [OF under]])
    then show ?thesis
      unfolding wp_bnd wp_attempt
      by (rule wp_mono) (use finish winding_inFlight [OF under] in \<open>auto split: sum.splits\<close>)
  qed
  show ?thesis
    unfolding finishRolledBack_def wp_bnd [where a = "attempt (rollbackOps (pt_ops p))"] wp_attempt
  proof (rule wp_mono [OF rollbackOps_underway [OF assms]], goal_cases)
    case (1 u m1)
    show ?case by (rule after) (use 1 in auto)
  next
    case (2 e m1)
    show ?case by (rule after) (use 2 in auto)
  qed (rule underway_inFlight)
qed

subsection \<open>To the end\<close>

lemma giveUp_run:
  assumes "wellPlanned env provided p s0" and "underway p s0 txn m"
  shows "wp (giveUp env p reason e)
     (\<lambda>r m'. fst r = p \<and> snd r \<noteq> None \<and> (undone p s0 m' \<or> inFlight p s0 txn m'))
     (\<lambda>e m'. False) (inFlight p s0 txn) m"
proof -
  have "allFileOps (pt_staged p) = pt_ops p" using assms(1) by (simp add: wellPlanned_def)
  then have "abandon env (pt_txnID p) (pt_staged p) reason =
      finishRolledBack env (pt_txnID p) (pt_ops p) (allCreatedDirs (pt_staged p)) reason"
    by (simp add: abandon_def)
  then show ?thesis
    unfolding giveUp_def joining_def wp_bnd wp_attempt
    by (simp only:) (rule wp_mono [OF finishRolledBack_run [OF assms]]; simp)
qed

text \<open>A step of \<open>runSteps\<close>, and what the next one needs of it.\<close>

lemma runSteps_step:
  assumes "wellPlanned env provided p s0"
    and "wp a (\<lambda>u. R) (\<lambda>e. underway p s0 txn) (inFlight p s0 txn) m"
    and "\<And>m'. R m' \<Longrightarrow> wp (runSteps env p rest) Q F (inFlight p s0 txn) m'"
    and "\<And>e m'. undone p s0 m' \<or> inFlight p s0 txn m' \<Longrightarrow> Q (p, Some e) m'"
  shows "wp (runSteps env p ((reason, a) # rest)) Q F (inFlight p s0 txn) m"
  unfolding runSteps.simps wp_bnd wp_attempt
proof (rule wp_mono [OF assms(2)], goal_cases)
  case (1 u m')
  then show ?case using assms(3) by simp
next
  case (2 e m')
  have "wp (giveUp env p reason e) Q F (inFlight p s0 txn) m'"
    by (rule wp_mono [OF giveUp_run [OF assms(1) 2]]) (use assms(4) in auto)
  then show ?case by simp
qed

lemma putInPlace_run:
  assumes "wellPlanned env provided p s0" and "atStart p s0 txn m" and "jrows p 0 0 (db m)"
  shows "wp (putInPlace env [] provided p)
     (\<lambda>r m'. fst r = p \<and>
        (if snd r = None then underway p s0 txn m' else undone p s0 m' \<or> inFlight p s0 txn m'))
     (\<lambda>e m'. False) (inFlight p s0 txn) m"
proof -
  let ?Q = "\<lambda>r m'. fst r = p \<and>
        (if snd r = None then underway p s0 txn m' else undone p s0 m' \<or> inFlight p s0 txn m')"
  have sep: "separate (pt_ops p)" and fit: "materialsFit env provided p (pt_ops p)"
    using assms(1) unfolding wellPlanned_def by blast+
  let ?k = "length (namedFileOps (pt_staged p))" and ?j = "length (allCreatedDirs (pt_staged p))"
  define J where "J m' \<longleftrightarrow> stagingOK (pt_ops p) s0 (db m') m' \<and> opened p txn (db m') \<and> jrows p ?k ?j (db m')" for m'
  have J_underway: "underway p s0 txn m'" if "J m'" for m'
    using that staging_underway unfolding J_def by blast
  have journal: "wp (writeJournal (pt_txnID p) (pt_staged p)) (\<lambda>u. J) (\<lambda>e. underway p s0 txn) (inFlight p s0 txn) m"
  proof (rule wp_mono [OF writeJournal_run [OF assms(2,3)]], goal_cases)
    case (1 u m')
    have "waiting s0 s0 op \<and> openDirs s0 (opDir op)" if "op \<in> set (pt_ops p)" for op
    proof -
      from assms(1) that obtain d where "planned s0 op" "fo_action op \<noteq> actionSwap" "fo_dir op = Some d" "openDirs s0 d"
        unfolding wellPlanned_def by blast
      then show ?thesis
        by (cases "fo_action op") (auto simp: waiting_def planned_def openDirs_isDir opDir_def)
    qed
    with 1 show ?case by (auto simp: J_def atStart_def stagingOK_def stagingTree_def)
  next
    case (2 e m')
    then show ?case using atStart_underway [OF assms(1)] by blast
  next
    case (3 m')
    then show ?case using atStart_underway [OF assms(1)] underway_inFlight by blast
  qed
  have stage: "wp a (\<lambda>u. J) (\<lambda>e. underway p s0 txn) (inFlight p s0 txn) m'"
    if "J m'" and "\<And>d0. stages (pt_ops p) s0 d0 (\<lambda>t. True) a (\<lambda>u t. True)" for a :: "unit act" and m'
  proof -
    have keep: "J m''" if "stagingOK (pt_ops p) s0 (db m') m''" for m''
    proof -
      from that have "db m'' = db m'" by (simp add: stagingOK_def)
      with that \<open>J m'\<close> show ?thesis by (simp add: J_def)
    qed
    have "stagingOK (pt_ops p) s0 (db m') m'" using that(1) by (simp add: J_def)
    from stagesD [OF that(2) this] show ?thesis
      by (rule wp_mono) (use keep J_underway underway_inFlight in auto)
  qed
  have commit: "wp (commitOps (pt_ops p)) (\<lambda>u. underway p s0 txn) (\<lambda>e. underway p s0 txn) (inFlight p s0 txn) m'"
    if "J m'" for m'
    by (rule wp_mono [OF commitOps_underway [OF assms(1)]])
       (use that underway_inFlight in \<open>auto simp: J_def\<close>)
  have last: "wp (runSteps env p []) ?Q (\<lambda>e m'. False) (inFlight p s0 txn) m'" if "underway p s0 txn m'" for m'
    using that by simp
  show ?thesis
    unfolding putInPlace_def simp_thms if_True append.simps
    by (intro runSteps_step [OF assms(1) journal] runSteps_step [OF assms(1) stage] runSteps_step [OF assms(1) commit]
        stages_materialize [OF sep fit] last) auto
qed

subsection \<open>The commit\<close>

definition committed :: "preparedTxn \<Rightarrow> database \<Rightarrow> bool" where
  "committed p d \<longleftrightarrow>
     PendingTxn d = None \<and> (\<exists>t\<in>set (t_txn d). tx_ID t = pt_txnID p \<and> tx_State t = TxnCommitted)"

lemma stable_txns:
  shows "stable (\<lambda>m. t_txn (db m) = x) (applyMetadata ss)"
    and "stable (\<lambda>m. t_txn (db m) = x) (applyClaimMetadata w)"
proof -
  have ok: "stable (\<lambda>m. t_txn (db m) = x) (exec f)" if "\<And>d d'. f d = Inr d' \<Longrightarrow> t_txn d' = t_txn d" for f
    by (rule stable_exec) (use that in auto)
  have insert: "stable (\<lambda>m. t_txn (db m) = x) (insertRows q fs n)" for q fs n
    unfolding insertRows_def
    by (intro stable_rules ok) (auto simp: InsertPackage_def InsertPackageFile_def split: if_splits)
  have "stable (\<lambda>m. t_txn (db m) = x) (applyMetadataOf s)" for s
    unfolding applyMetadataOf_def Let_def
    by (intro stable_rules ok insert) (auto simp: DeletePackage_def Let_def)
  then show "stable (\<lambda>m. t_txn (db m) = x) (applyMetadata ss)"
    unfolding applyMetadata_def by (intro stable_rules)
  show "stable (\<lambda>m. t_txn (db m) = x) (applyClaimMetadata w)"
    unfolding applyClaimMetadata_def applyClaimRows_def
    by (intro stable_rules ok)
       (auto simp: DeleteClaimHolder_def SetClaimHolder_def DeleteClaimLink_def InsertClaimLink_def
         split: if_splits prod.splits intro!: stable_rules ok)
qed

lemma does_commit_txns:
  "does (commitRows n ss w note)
     (\<lambda>d d'. \<exists>d1 note. t_txn d1 = t_txn d \<and> FinishTxn n TxnCommitted note d1 = Inr d')"
proof -
  have same: "does a (\<lambda>d d'. t_txn d' = t_txn d)" if "\<And>x. stable (\<lambda>m. t_txn (db m) = x) a" for a
    using that unfolding does_def stable_def by (metis snd_conv)
  have "does (commitRows n ss w note)
     (((\<lambda>d d'. t_txn d' = t_txn d) OO (\<lambda>d (d' :: database). t_txn d' = t_txn (d :: database))) OO
      (\<lambda>d d'. FinishTxn n TxnCommitted note d = Inr d'))"
    unfolding commitRows_def
    by (rule does_bnd, rule does_bnd, rule same, rule stable_txns, rule same, rule stable_txns, rule does_exec)
  then show ?thesis by (rule does_mono) (auto simp: relcompp_apply, metis)
qed

lemma finished_committed:
  assumes "opened p txn d" and "t_txn d1 = t_txn d" and "FinishTxn (pt_txnID p) TxnCommitted w d1 = Inr d'"
  shows "committed p d'"
proof -
  have pend: "PendingTxn d = Some txn" and id: "tx_ID txn = pt_txnID p" and ok: "db_ok d"
    using assms(1) by (simp_all add: opened_def)
  from finish_pending [OF ok pend, of TxnCommitted w] obtain d2
    where d2: "FinishTxn (tx_ID txn) TxnCommitted w d = Inr d2" "PendingTxn d2 = None" by blast
  have "t_txn d' = t_txn d2"
    using d2(1) assms(2,3) by (auto simp: FinishTxn_def id split: if_splits)
  with d2(2) have none: "PendingTxn d' = None" by (simp add: PendingTxn_def)
  have "txn \<in> set (t_txn d)" "tx_State txn = TxnPending"
    using pend by (auto simp: PendingTxn_def find_Some_iff)
  moreover have "t_txn d' = map (\<lambda>t. if tx_ID t = pt_txnID p \<and> tx_State t = TxnPending
      then t\<lparr>tx_State := TxnCommitted, tx_OpSummary := w\<rparr> else t) (t_txn d)"
    using assms(2,3) by (auto simp: FinishTxn_def split: if_splits)
  ultimately have "txn\<lparr>tx_State := TxnCommitted, tx_OpSummary := w\<rparr> \<in> set (t_txn d')"
    using id by (auto intro: rev_image_eqI)
  then have "\<exists>t\<in>set (t_txn d'). tx_ID t = pt_txnID p \<and> tx_State t = TxnCommitted"
    using id by (intro bexI) auto
  with none show ?thesis by (simp add: committed_def)
qed

lemma stable_Tx:
  assumes "stable P body" and "\<And>m d. P m \<Longrightarrow> P (m\<lparr>db := d\<rparr>)" and "\<And>m. P m \<Longrightarrow> P (tick m)"
  shows "stable P (Tx body)"
proof -
  have "stable P (bnd body (\<lambda>_. perform (\<lambda>m. Inr ((), m))))"
    by (intro stable_bnd assms(1) stable_perform) (auto intro: assms(3))
  then show ?thesis
    unfolding stable_def Tx_def using assms(2) by (force split: prod.splits outcome.splits)
qed

lemma stable_exec_tree: "stable (\<lambda>m. tree m = t \<and> statFaults m = ss) (exec f)"
  unfolding exec_def by (rule stable_perform) (auto simp: rbind_eq_Inr)

lemma tree_commitBody: "stable (\<lambda>m. tree m = t \<and> statFaults m = ss) (Tx (commitBody p))"
proof (rule stable_Tx)
  have "stable (\<lambda>m. tree m = t \<and> statFaults m = ss) (applyMetadataOf s)" for s
    unfolding applyMetadataOf_def insertRows_def Let_def by (intro stable_rules stable_exec_tree)
  then have "stable (\<lambda>m. tree m = t \<and> statFaults m = ss) (applyMetadata ss')" for ss'
    unfolding applyMetadata_def by (intro stable_rules)
  moreover have "stable (\<lambda>m. tree m = t \<and> statFaults m = ss) (applyClaimMetadata w)" for w
    unfolding applyClaimMetadata_def applyClaimRows_def
    by (intro stable_rules stable_exec_tree)
  ultimately show "stable (\<lambda>m. tree m = t \<and> statFaults m = ss) (commitBody p)"
    unfolding commitBody_def by (intro stable_rules stable_exec_tree)
qed auto

lemma wp_closing_all:
  assumes "wp a (\<lambda>x m'. Q x (snd (closePins m'))) (\<lambda>e m'. F e (snd (closePins m'))) C m"
  shows "wp (closing a) Q F C m"
  using assms by (auto simp: wp_def closing_def split: prod.splits outcome.splits)

lemma closePins_keeps [simp]:
  "db (snd (closePins m)) = db m"
  "undone p s0 (snd (closePins m)) = undone p s0 m" "inFlight p s0 txn (snd (closePins m)) = inFlight p s0 txn m"
  by (simp_all add: closePins_def undone_def inFlight_def)

lemma commitTxn_ends:
  assumes "wellPlanned env provided p s0" and "underway p s0 txn m"
  shows "wp (commitTxn env p True)
     (\<lambda>r m'. if snd r = None then committed p (db m') else undone p s0 m' \<or> inFlight p s0 txn m')
     (\<lambda>e m'. committed p (db m')) (\<lambda>m'. committed p (db m') \<or> inFlight p s0 txn m') m"
proof -
  have opened: "opened p txn (db m)" using assms(2) by (simp add: underway_def)
  have "wp (Tx (commitBody p))
      (\<lambda>u m'. (\<exists>d1 w. t_txn d1 = t_txn (db m) \<and> FinishTxn (pt_txnID p) TxnCommitted w d1 = Inr (db m')) \<and> True)
      (\<lambda>e m'. db m' = db m) (\<lambda>m'. db m' = db m) m"
    unfolding commitBody_rows by (rule wp_Tx [OF does_commit_txns]) (simp_all add: stable_def)
  note run = wp_keeps [OF this tree_commitBody [of "tree m" "statFaults m"]]
  have tx: "wp (Tx (commitBody p)) (\<lambda>u m'. committed p (db m')) (\<lambda>e. underway p s0 txn) (inFlight p s0 txn) m"
  proof (rule wp_mono [OF run], goal_cases)
    case 1
    then show ?case by simp
  next
    case (2 u m')
    then show ?case using finished_committed [OF opened] by blast
  next
    case (3 e m')
    then show ?case using assms(2) by (simp add: underway_def)
  next
    case (4 m')
    then have "underway p s0 txn m'" using assms(2) by (simp add: underway_def)
    then show ?case by (rule underway_inFlight)
  qed
  have stands: "wp (bnd (finishCommitted env p) (\<lambda>res. ret (res, None)))
      (\<lambda>r m'. if snd r = None then committed p (db m') else undone p s0 m' \<or> inFlight p s0 txn m')
      (\<lambda>e m'. committed p (db m')) (\<lambda>m'. committed p (db m') \<or> inFlight p s0 txn m') m'"
    if "committed p (db m')" for m'
    unfolding wp_bnd by (rule wp_mono [OF stableD [OF db_finishCommitted [where Q = "committed p"] that]]) auto
  have undo: "wp (bnd (joining e (finishRolledBack env (pt_txnID p) (pt_ops p) (allCreatedDirs (pt_staged p))
                    ''committing package state failed'')) (\<lambda>e'. ret (failedResult (pt_txnID p), Some e')))
      (\<lambda>r m'. if snd r = None then committed p (db m') else undone p s0 m' \<or> inFlight p s0 txn m')
      (\<lambda>e m'. committed p (db m')) (\<lambda>m'. committed p (db m') \<or> inFlight p s0 txn m') m'"
    if "underway p s0 txn m'" for e m'
    unfolding joining_def wp_bnd wp_attempt
    by (rule wp_mono [OF finishRolledBack_run [OF assms(1) that]]) auto
  have body: "wp (bnd (attempt (Tx (commitBody p))) (\<lambda>r.
       case r of
         Inr u \<Rightarrow> bnd (finishCommitted env p) (\<lambda>res. ret (res, None))
       | Inl e \<Rightarrow>
           if True then
             bnd (joining e (finishRolledBack env (pt_txnID p) (pt_ops p) (allCreatedDirs (pt_staged p))
                    ''committing package state failed'')) (\<lambda>e'. ret (failedResult (pt_txnID p), Some e'))
           else ret (failedResult (pt_txnID p), Some e)))
      (\<lambda>r m'. if snd r = None then committed p (db m') else undone p s0 m' \<or> inFlight p s0 txn m')
      (\<lambda>e m'. committed p (db m')) (\<lambda>m'. committed p (db m') \<or> inFlight p s0 txn m') m"
    unfolding wp_bnd [where a = "attempt b" for b] wp_attempt
  proof (rule wp_mono [OF tx], goal_cases)
    case (1 u m')
    from stands [OF this] show ?case by (simp only: sum.case)
  next
    case (2 e m')
    from undo [OF this] show ?case by (simp only: sum.case if_True)
  qed blast
  show ?thesis
    unfolding commitTxn_def by (rule wp_closing_all, rule wp_mono [OF body]) simp_all
qed

end
