(* ===== verification/PlanFacts.thy ===== *)
theory PlanFacts
  imports ExecuteFacts
begin

section \<open>What planning hands to the commit\<close>

text \<open>
  A partial-correctness predicate for what an action returns from machines with a property it
  keeps, its rules, and the result of planning: one staged operation per plan operation, with
  the rows of its package, and claims computed from the tables as they are.
\<close>

definition gives :: "(machine \<Rightarrow> bool) \<Rightarrow> ('a \<Rightarrow> bool) \<Rightarrow> 'a act \<Rightarrow> bool" where
  "gives P R a \<longleftrightarrow> (\<forall>m x m'. P m \<longrightarrow> a m = (Done x, m') \<longrightarrow> R x)"

lemma gives_any: "gives P (\<lambda>x. True) a"
  by (simp add: gives_def)

lemma gives_ret: "R x \<Longrightarrow> gives P R (ret x)"
  by (simp add: gives_def ret_def)

lemma gives_raise: "gives P R (raise e)"
  by (simp add: gives_def raise_def)

lemma gives_mono: "gives P R a \<Longrightarrow> (\<And>x. R x \<Longrightarrow> S x) \<Longrightarrow> gives P S a"
  unfolding gives_def by blast

lemma gives_bnd:
  assumes "gives P S a" and "stable P a" and "\<And>x. S x \<Longrightarrow> gives P R (f x)"
  shows "gives P R (bnd a f)"
  using assms unfolding gives_def bnd_def stable_def
  by (auto split: prod.splits outcome.splits) (metis snd_conv)

lemma gives_after: "stable P a \<Longrightarrow> (\<And>x. gives P R (f x)) \<Longrightarrow> gives P R (bnd a f)"
  by (rule gives_bnd [OF gives_any])

lemma gives_attempt: "gives P R a \<Longrightarrow> gives P (\<lambda>r. \<forall>x. r = Inr x \<longrightarrow> R x) (attempt a)"
  unfolding gives_def attempt_def by (fastforce split: prod.splits outcome.splits)

lemma gives_liftRes: "(\<And>x. r = Inr x \<Longrightarrow> R x) \<Longrightarrow> gives P R (liftRes r)"
  by (cases r) (simp_all add: liftRes_def gives_raise gives_ret)

lemma gives_query:
  assumes "\<And>d. Q d \<Longrightarrow> R (f d)"
  shows "gives (\<lambda>m. Q (db m)) R (query f)"
  using assms unfolding gives_def query_def perform_def
  by (auto split: list.splits fault.splits)

text \<open>Steps that hand back a state with an error: a property of the state, and progress.\<close>

lemma gives_kept:
  assumes "gives P S a" and "stable P a" and "\<And>x. S x \<Longrightarrow> gives P R (f x)" and "\<And>e. R (s, Some e)"
  shows "gives P R (kept s a f)"
  unfolding kept_def
  by (rule gives_bnd [OF gives_attempt [OF assms(1)] stable_attempt [OF assms(2)]])
     (auto split: sum.split intro: assms(3,4) gives_ret)

lemma gives_kept_any:
  "stable P a \<Longrightarrow> (\<And>x. gives P R (f x)) \<Longrightarrow> (\<And>e. R (s, Some e)) \<Longrightarrow> gives P R (kept s a f)"
  by (rule gives_kept [OF gives_any])

lemma gives_andThen:
  assumes "gives P (\<lambda>(s, e). I s) a" and "stable P a" and "\<And>s. I s \<Longrightarrow> gives P (\<lambda>(s, e). J s) (f s)"
    and "\<And>s. I s \<Longrightarrow> J s"
  shows "gives P (\<lambda>(s, e). J s) (andThen a f)"
  unfolding andThen_def
  by (rule gives_bnd [OF assms(1,2)]) (auto split: prod.split option.split intro: assms(3,4) gives_ret)

lemma gives_foldKeep:
  assumes "I s" and "\<And>x s. I s \<Longrightarrow> gives P (\<lambda>(s, e). I s) (f x s)" and "\<And>x s. stable P (f x s)"
  shows "gives P (\<lambda>(s, e). I s) (foldKeep f xs s)"
  using assms(1)
proof (induction xs arbitrary: s)
  case (Cons x xs)
  then show ?case
    unfolding foldKeep.simps by (intro gives_andThen [where I = I] assms)
qed (simp add: gives_ret)

lemma gives_andThen_done:
  assumes "gives P (\<lambda>(s, e). e = None \<longrightarrow> I s) a" and "stable P a"
    and "\<And>s. I s \<Longrightarrow> gives P (\<lambda>(s, e). e = None \<longrightarrow> J s) (f s)"
  shows "gives P (\<lambda>(s, e). e = None \<longrightarrow> J s) (andThen a f)"
  unfolding andThen_def
  by (rule gives_bnd [OF assms(1,2)]) (auto split: prod.split option.split intro: assms(3) gives_ret)

lemma gives_foldKeep_done:
  assumes "J ys s" and "\<And>ys x s. J ys s \<Longrightarrow> gives P (\<lambda>(s, e). e = None \<longrightarrow> J (ys @ [x]) s) (f x s)"
    and "\<And>x s. stable P (f x s)"
  shows "gives P (\<lambda>(s, e). e = None \<longrightarrow> J (ys @ xs) s) (foldKeep f xs s)"
  using assms(1)
proof (induction xs arbitrary: ys s)
  case (Cons x xs)
  from assms(2) [OF Cons.prems] assms(3)
  show ?case
    unfolding foldKeep.simps
    by (rule gives_andThen_done) (use Cons.IH [of "ys @ [x]"] in simp)
qed (simp add: gives_ret)

subsection \<open>The operations\<close>

abbreviation tables ::
    "dbPackage list \<times> PackageFile list \<times> ClaimHolder list \<times> ClaimLink list \<Rightarrow> machine \<Rightarrow> bool" where
  "tables x m \<equiv> packageState (db m) = x"

lemmas tables_rules = db_rules [where Q = "\<lambda>d. packageState d = x" for x] stable_rules
  blind_db [where Q = "\<lambda>d. packageState d = x" for x]

definition fits :: "ProvidedPackage gomap \<Rightarrow> Operation \<Rightarrow> stagedOp \<Rightarrow> bool" where
  "fits provided op s \<longleftrightarrow>
     sg_op s = op \<and> ownRows s \<and>
     (op_Kind op \<noteq> OpRemove \<longrightarrow>
        (\<exists>p pp. sg_pkg s = Some p \<and> map_get provided (op_Name op) = Some pp \<and>
           dp_Version p = versionText (op_ToVersion op) \<and> dp_Manifest p = ap_ManifestJSON (pp_Pkg pp)))"

text \<open>While a package is staged, its rows are its own.\<close>

definition staging :: "Operation \<Rightarrow> stagedOp \<Rightarrow> bool" where
  "staging op s \<longleftrightarrow> sg_op s = op \<and> (\<forall>f\<in>set (sg_files s). pf_PackageName f = op_Name op)"

lemma staging_updates [simp]:
  "staging op (s\<lparr>sg_createdDirs := ds\<rparr>) = staging op s"
  "staging op (s\<lparr>sg_stagedAt := m\<rparr>) = staging op s"
  "staging op (s\<lparr>sg_fileOps := fs\<rparr>) = staging op s"
  "staging op (s\<lparr>sg_untouched := us\<rparr>) = staging op s"
  "staging op (s\<lparr>sg_removedDirs := rs\<rparr>) = staging op s"
  "staging op (s\<lparr>sg_warnings := ws\<rparr>) = staging op s"
  "staging op (s\<lparr>sg_sdOverrides := os\<rparr>) = staging op s"
  "staging op (warn ws s) = staging op s"
  "staging op (addRow (fileRow (op_Name op) p t h l) s) = staging op s"
  by (auto simp: staging_def warn_def addRow_def fileRow_def)

lemma gives_stageContent:
  assumes "staging op (st_op st)"
  shows "gives (tables x) (\<lambda>(st, e). staging op (st_op st)) (stageContent env name n d e dest l st)"
  unfolding stageContent_def Let_def
  by (intro gives_kept_any gives_after gives_ret tables_rules)
     (auto split: prod.split simp: assms intro!: gives_after gives_kept_any gives_ret tables_rules)

lemma stable_stageContent: "stable (tables x) (stageContent env name n d e dest l st)"
  unfolding stageContent_def Let_def by (intro tables_rules)

lemma gives_stageEntry:
  assumes "staging op (st_op st)"
  shows "gives (tables x) (\<lambda>(st, e). staging op (st_op st)) (stageEntry env (op_Name op) n ex re e st)"
proof -
  note content = gives_stageContent [where op = op and x = x] stable_stageContent [where x = x]
  note steps = gives_kept_any gives_ret gives_andThen [where I = "\<lambda>st. staging op (st_op st)"] content tables_rules
  have "gives (tables x) (\<lambda>(st, e). staging op (st_op st)) (stageDir env (op_Name op) e st)"
    if "staging op (st_op st)" for st
    unfolding stageDir_def using that
    by (intro gives_after tables_rules) (auto split: prod.split intro!: gives_ret)
  moreover have "gives (tables x) (\<lambda>(st, e). staging op (st_op st)) (stageLink env (op_Name op) n e st)"
    if "staging op (st_op st)" for st
    unfolding stageLink_def Let_def using that by (intro steps) simp_all
  moreover have "gives (tables x) (\<lambda>(st, e). staging op (st_op st)) (stageFile env (op_Name op) n ex re e st)"
    if "staging op (st_op st)" for st
  proof -
    have "stable (tables x) (untouchedBy env ex re e)" "stable (tables x) (operatorEdit env ex d p l)" for d p l
      unfolding untouchedBy_def operatorEdit_def Let_def by (intro tables_rules)+
    then show ?thesis
      unfolding stageFile_def Let_def using that
      by (intro gives_kept_any) (auto split: option.split intro!: steps)
  qed
  ultimately show ?thesis
    using assms unfolding stageEntry_def Let_def by (auto split: EntryType.split intro: gives_ret)
qed

lemma gives_preparePackage:
  assumes "map_get provided (op_Name op) = Some pp"
  shows "gives (tables x) (\<lambda>((s, plan), e). e = None \<longrightarrow> fits provided op s)
     (preparePackage env n op pp plan inTxn)"
proof -
  let ?I = "\<lambda>st. staging op (st_op st)"
  have entry: "stable (tables x) (stageEntry env name n ex re e st)" for name ex re e st
    unfolding stageEntry_def stageDir_def stageFile_def stageLink_def untouchedBy_def operatorEdit_def
      Let_def by (intro stable_stageContent tables_rules)
  have release: "stable (tables x) (releaseRow env n new f s)" for new f s
    unfolding releaseRow_def Let_def by (intro tables_rules)
  have "gives (tables x) (\<lambda>(s, e). staging op s) (releaseRow env n new f s)" if "staging op s" for new f s
    unfolding releaseRow_def Let_def using that
    by (auto intro!: gives_ret gives_kept_any tables_rules)
  then have rel: "gives (tables x) (\<lambda>(s, e). staging op s) (foldKeep (releaseRow env n new) ex s)"
    if "staging op s" for new ex s
    using that by (intro gives_foldKeep release) auto
  have st: "gives (tables x) (\<lambda>(st, e). ?I st)
      (foldKeep (stageEntry env (op_Name op) n ex re) es st)" if "?I st" for ex re es st
    using that by (intro gives_foldKeep entry gives_stageEntry)
  have fin: "fits provided op (finishPackage env op pp s)" if "staging op s" for s
    using that assms by (auto simp: fits_def ownRows_def staging_def finishPackage_def)
  have checks: "stable (tables x) (packageChecks env op pp inTxn)"
    unfolding packageChecks_def checkPayloadCollisions_def checkPayloadCollision_def
      checkClaimLinkCollisions_def by (intro tables_rules)
  show ?thesis
    unfolding preparePackage_def Let_def
  proof (rule gives_kept_any [OF checks])
    fix ex
    show "gives (tables x) (\<lambda>((s, plan), e). e = None \<longrightarrow> fits provided op s)
      (bnd (foldKeep (stageEntry env (op_Name op) n ex (restampedPaths pp)) (ap_Payload (pp_Pkg pp))
          \<lparr>st_op = (emptyStagedOp op)\<lparr>sg_sdOverrides := map (\<lambda>ov. (op_Name op, CHR 0x2F # so_Path ov))
              (m_SDOverrides (ap_Manifest (pp_Pkg pp))), sg_warnings := inflatedProvides (op_Name op) (ap_Manifest (pp_Pkg pp))\<rparr>,
            st_planned = plan, st_newPaths = []\<rparr>)
        (\<lambda>(st, err). case err of
            None \<Rightarrow> bnd (foldKeep (releaseRow env n (st_newPaths st)) ex (st_op st)) (\<lambda>(s, err).
              case err of None \<Rightarrow> ret ((finishPackage env op pp s, st_planned st), None)
                | Some e \<Rightarrow> ret ((s, st_planned st), Some e))
          | Some e \<Rightarrow> ret ((st_op st, st_planned st), Some e)))"
    proof (rule gives_bnd [OF st], goal_cases)
      case (3 z)
      obtain st e where z: "z = (st, e)" by force
      have last: "gives (tables x) (\<lambda>((s, plan), e). e = None \<longrightarrow> fits provided op s)
          (case r of (s, None) \<Rightarrow> ret ((finishPackage env op pp s, pl), None) | (s, Some e) \<Rightarrow> ret ((s, pl), Some e))"
        if "case r of (s, e) \<Rightarrow> staging op s" for r pl
        using that by (cases r) (auto split: option.split intro!: gives_ret fin)
      show ?case
      proof (cases e)
        case None
        with 3 z have "staging op (st_op st)" by simp
        from gives_bnd [OF rel [OF this] stable_foldKeep [OF release] last] None
        show ?thesis by (simp add: z case_prod_unfold)
      qed (simp add: z gives_ret)
    qed (auto simp: staging_def emptyStagedOp_def intro!: stable_foldKeep entry)
  qed simp
qed

lemma gives_stageRemoval:
  assumes "op_Kind op = OpRemove"
  shows "gives (tables x) (\<lambda>(s, e). e = None \<longrightarrow> fits provided op s) (stageRemoval env n op)"
proof -
  have choice: "stable (tables x) (modifiedChoice env name f d phys)" for name f d phys
    unfolding modifiedChoice_def by (intro tables_rules)
  then have stable: "stable (tables x) (stageRemovedFile env name n f s)" for name f s
    unfolding stageRemovedFile_def Let_def by (intro tables_rules)
  have "gives (tables x) (\<lambda>(s, e). sg_op s = op) (stageRemovedFile env name n f s)"
    if "sg_op s = op" for name f s
    unfolding stageRemovedFile_def Let_def using that
    by (auto simp: warn_def split: removalChoice.split intro!: gives_ret gives_kept_any tables_rules choice)
  then have "gives (tables x) (\<lambda>(s, e). sg_op s = op) (foldKeep (stageRemovedFile env name n) fs s)"
    if "sg_op s = op" for name fs s
    using that by (intro gives_foldKeep stable) auto
  note loop = this
  have "gives (tables x) (\<lambda>(s, e). e = None \<longrightarrow> fits provided op s)
      (foldKeep (stageRemovedFile env name n) fs s)" if "sg_op s = op" for name fs s
    by (rule gives_mono [OF loop [OF that]]) (use assms in \<open>auto simp: fits_def ownRows_def\<close>)
  then show ?thesis
    unfolding stageRemoval_def Let_def
    by (intro gives_kept_any tables_rules) (simp_all add: emptyStagedOp_def)
qed

lemma gives_planOperations:
  "gives (tables x) (\<lambda>((ss, plan), e). e = None \<longrightarrow> list_all2 (fits provided) ops ss)
     (planOperations env n provided ops)"
proof -
  have one: "gives (tables x) (\<lambda>((s, plan), e). e = None \<longrightarrow> fits provided op s)
      (prepareOperation env n provided inTxn op plan)" for inTxn op plan
  proof (cases "op_Kind op = OpRemove")
    case True
    then show ?thesis
      unfolding prepareOperation_def
      by (auto split: prod.split intro!: gives_bnd [OF gives_stageRemoval [OF True]] gives_ret tables_rules)
  next
    case False
    then show ?thesis
      unfolding prepareOperation_def
      by (auto split: option.split intro: gives_ret gives_preparePackage)
  qed
  have stable: "stable (tables x) (prepareOperation env n provided inTxn op plan)" for inTxn op plan
    unfolding prepareOperation_def by (intro tables_rules)
  define J where "J = (\<lambda>ops (ss, plan :: string list). list_all2 (fits provided) ops ss)"
  have "gives (tables x) (\<lambda>(s, e). e = None \<longrightarrow> J ([] @ ops) s)
      (foldKeep (planOne env n provided (map op_Name ops)) ops ([], []))"
  proof (rule gives_foldKeep_done)
    fix ys op s assume "J ys s"
    then show "gives (tables x) (\<lambda>(s, e). e = None \<longrightarrow> J (ys @ [op]) s)
        (planOne env n provided (map op_Name ops) op s)"
      unfolding planOne_def
      by (cases s) (auto simp: J_def split: prod.splits
          intro!: gives_bnd [OF one] gives_ret stable list_all2_appendI)
  next
    fix op s show "stable (tables x) (planOne env n provided (map op_Name ops) op s)"
      unfolding planOne_def by (intro stable tables_rules)
  qed (simp add: J_def)
  then show ?thesis
    unfolding planOperations_def J_def by (rule gives_mono) auto
qed

lemma fits_attachClaims:
  assumes "list_all2 (fits provided) ops ss"
  shows "list_all2 (fits provided) ops (attachClaims ss w)"
proof -
  have upd: "fits provided op (s\<lparr>sg_fileOps := fs, sg_createdDirs := ds\<rparr>) = fits provided op s"
    "fits provided op (s\<lparr>sg_fileOps := fs\<rparr>) = fits provided op s" for op s fs ds
    by (simp_all add: fits_def ownRows_def)
  have res: "list_all2 (fits provided) ops (resolveClaimOverRemoval (cw_fileOps w) ss)"
    using assms by (auto simp: resolveClaimOverRemoval_def dropClaimedRemovals_def list_all2_map2 upd
        elim: list_all2_mono)
  show ?thesis
  proof (cases "claimWorkEmpty w \<or> ss = []")
    case False
    let ?rs = "resolveClaimOverRemoval (cw_fileOps w) ss"
    from False have ne: "?rs \<noteq> []" by (simp add: resolveClaimOverRemoval_def)
    with res have "ops \<noteq> []" by auto
    from res ne have "list_all2 (fits provided) (butlast ops @ [last ops]) (butlast ?rs @ [last ?rs])"
      by (metis append_butlast_last_id \<open>ops \<noteq> []\<close>)
    then have "list_all2 (fits provided) (butlast ops) (butlast ?rs)" "fits provided (last ops) (last ?rs)"
      using res by (simp_all add: list_all2_append list_all2_lengthD)
    then have "list_all2 (fits provided) (butlast ops @ [last ops]) (attachClaims ss w)"
      using False by (auto simp: attachClaims_def Let_def upd intro!: list_all2_appendI)
    with \<open>ops \<noteq> []\<close> show ?thesis by simp
  qed (use assms in \<open>simp add: attachClaims_def\<close>)
qed

end
