(* ===== verification/AtomicFacts.thy ===== *)
theory AtomicFacts
  imports PlanFacts
begin

section \<open>A run of Execute, seen from the database\<close>

text \<open>
  Whatever fails and wherever the process ends, a run leaves the packages and claims as they
  were or commits the whole plan; it reports success exactly when it commits; the schema's
  constraints hold throughout; and the claim links are those the installed packages and the
  holders call for, before and after.
\<close>

subsection \<open>The claims of a plan\<close>

definition installedOf :: "Manifest gomap \<Rightarrow> claimsInstalled list" where
  "installedOf M = map (\<lambda>(n, m). \<lparr>ci_Name = n, ci_Manifest = m\<rparr>) (map_entries M)"

definition linkRow :: "Link \<Rightarrow> ClaimLink" where
  "linkRow l = \<lparr>cl_Path = l_Path l, cl_Role = l_Role l, cl_Slot = l_Slot l, cl_Target = l_Target l\<rparr>"

definition claimsReady ::
    "Env \<Rightarrow> Operation list \<Rightarrow> ProvidedPackage gomap \<Rightarrow> database \<Rightarrow> claimWork \<Rightarrow> bool" where
  "claimsReady env ops provided d w \<longleftrightarrow>
     linksWithin (set (cw_delLinks w)) d \<and>
     rolesWithin (set (cw_delHolders w) \<union> dom (map_get (cw_setHolders w))) d \<and>
     (\<exists>M desired. fold_res (applyManifest provided) ops (storedManifests env (ListPackages d)) = Inr M \<and>
        Desired (installedOf M) (cw_setHolders w) = Inr desired \<and> cw_insLinks w = map linkRow desired)"

lemma claimsReady_tables:
  "packageState d = packageState d' \<Longrightarrow> claimsReady env ops provided d w = claimsReady env ops provided d' w"
  by (simp add: claimsReady_def linksWithin_def rolesWithin_def dom_holderOf ListPackages_def packageState_def)

lemma gives_foldAct:
  assumes "I s" and "\<And>x s. I s \<Longrightarrow> gives P I (f x s)" and "\<And>x s. stable P (f x s)"
  shows "gives P I (foldAct f xs s)"
  using assms(1)
proof (induction xs arbitrary: s)
  case (Cons x xs)
  show ?case
    unfolding foldAct.simps by (rule gives_bnd [OF assms(2) [OF Cons.prems] assms(3) Cons.IH])
qed (simp add: gives_ret)

text \<open>The loops over the links leave the holders of the work alone.\<close>

abbreviation sameHolders :: "claimWork \<Rightarrow> claimWork \<Rightarrow> bool" where
  "sameHolders w w' \<equiv> cw_setHolders w' = cw_setHolders w \<and> cw_delHolders w' = cw_delHolders w"

lemma gives_stageClaimLink:
  assumes "sameHolders w0 (fst y)"
  shows "gives (tables x) (\<lambda>y. sameHolders w0 (fst y)) (stageClaimLink env post n l y)"
proof -
  have policy: "stable (tables x) (newLinkPolicy env h k p t fo)" for h k p t fo
    unfolding newLinkPolicy_def Let_def by (intro tables_rules)
  obtain w plan where y: "y = (w, plan)" by force
  obtain new k where l: "l = (new, k)" by force
  show ?thesis
    unfolding stageClaimLink_def Let_def y l prod.case
    by (rule gives_after, intro tables_rules)
       (auto split: prod.split simp del: split_paired_All intro!: gives_after gives_ret tables_rules policy
          simp: assms [unfolded y, simplified])
qed

lemma gives_removeClaimLink:
  assumes "sameHolders w0 w"
  shows "gives (tables x) (sameHolders w0) (removeClaimLink env n l w)"
  unfolding removeClaimLink_def Let_def
  by (intro gives_after gives_ret tables_rules) (simp add: assms)

lemma stable_claimLoops:
  shows "stable (tables x) (stageClaimLink env post n l y)" and "stable (tables x) (removeClaimLink env n k w)"
proof -
  have "stable (tables x) (newLinkPolicy env h k p t fo)" for h k p t fo
    unfolding newLinkPolicy_def Let_def by (intro tables_rules)
  then show "stable (tables x) (stageClaimLink env post n l y)"
    unfolding stageClaimLink_def Let_def by (intro tables_rules)
  show "stable (tables x) (removeClaimLink env n k w)"
    unfolding removeClaimLink_def Let_def by (intro tables_rules)
qed

lemma dom_holderMap: "dom (map_get (holderMap hs)) = ch_Role ` set hs"
  by (simp add: holderMap_def map_get_put_all_dom) (simp add: dom_def)

lemma package_queries:
  assumes "packageState d' = packageState d"
  shows "ListPackages d' = ListPackages d" and "ClaimHolders d' = ClaimHolders d" and "ClaimLinks d' = ClaimLinks d"
  using assms by (simp_all add: packageState_def ListPackages_def ClaimHolders_def ClaimLinks_def)

lemma stable_reconcileClaims:
  "stable (tables x) (reconcileClaims env ops provided installed current post n plan)"
  unfolding reconcileClaims_def postTransactionOwnership_def Let_def
  by (intro tables_rules stable_claimLoops)

lemma gives_reconcileClaims:
  assumes x: "packageState d = x"
    and M: "fold_res (applyManifest provided) ops (storedManifests env (ListPackages d)) = Inr M"
    and current: "current = holderMap (ClaimHolders d)"
  shows "gives (tables x) (\<lambda>w. claimsReady env ops provided d w \<and> cw_setHolders w = post)
     (reconcileClaims env ops provided (installedOf M) current post n plan)"
proof -
  let ?R = "\<lambda>w. claimsReady env ops provided d w \<and> cw_setHolders w = post"
  let ?w = "emptyClaimWork\<lparr>cw_setHolders := post, cw_delHolders := lostRoles current post\<rparr>"
  have roles: "rolesWithin (set (lostRoles current post) \<union> dom (map_get post)) d"
  proof -
    have "ch_Role h \<in> set (lostRoles current post) \<union> dom (map_get post)"
      if "h \<in> set (t_claim_holder d)" for h
    proof -
      have "ch_Role h \<in> dom (map_get current)"
        using that current by (simp add: dom_holderMap ClaimHolders_def)
      then show ?thesis by (auto simp: lostRoles_def gomap.set_keys)
    qed
    then show ?thesis by (auto simp: rolesWithin_def dom_holderOf)
  qed
  have ready: "?R
      (w2\<lparr>cw_delLinks := map cl_Path actual,
          cw_insLinks := map (\<lambda>l. \<lparr>cl_Path = l_Path l, cl_Role = l_Role l, cl_Slot = l_Slot l,
                                   cl_Target = l_Target l\<rparr>) desired\<rparr>)"
    if "Desired (installedOf M) post = Inr desired" "actual = ClaimLinks d" "sameHolders ?w w2"
    for desired actual w2
    using that M roles
    by (auto simp: claimsReady_def linksWithin_def ClaimLinks_def linkRow_def fun_eq_iff)
  have rest: "gives (tables x) ?R
      (bnd (foldAct (stageClaimLink env post n) links (?w, plan)) (\<lambda>(w1, plan).
       bnd (foldAct (removeClaimLink env n) gone w1) (\<lambda>w2.
         ret (w2\<lparr>cw_delLinks := map cl_Path actual,
                 cw_insLinks := map (\<lambda>l. \<lparr>cl_Path = l_Path l, cl_Role = l_Role l, cl_Slot = l_Slot l,
                                          cl_Target = l_Target l\<rparr>) desired\<rparr>))))"
    if "Desired (installedOf M) post = Inr desired" "actual = ClaimLinks d" for desired actual links gone
  proof (rule gives_bnd [where S = "\<lambda>y. sameHolders ?w (fst y)"])
    show "gives (tables x) (\<lambda>y. sameHolders ?w (fst y)) (foldAct (stageClaimLink env post n) links (?w, plan))"
      by (rule gives_foldAct [OF _ gives_stageClaimLink stable_claimLoops(1)]) simp_all
    show "stable (tables x) (foldAct (stageClaimLink env post n) links (?w, plan))"
      by (intro stable_foldAct stable_claimLoops)
    fix y assume y: "sameHolders ?w (fst y)"
    have loop: "gives (tables x) (sameHolders ?w) (foldAct (removeClaimLink env n) gone (fst y))"
      using y by (rule gives_foldAct [OF _ gives_removeClaimLink stable_claimLoops(2)])
    have "gives (tables x) ?R
       (bnd (foldAct (removeClaimLink env n) gone (fst y)) (\<lambda>w2.
         ret (w2\<lparr>cw_delLinks := map cl_Path actual,
                 cw_insLinks := map (\<lambda>l. \<lparr>cl_Path = l_Path l, cl_Role = l_Role l, cl_Slot = l_Slot l,
                                          cl_Target = l_Target l\<rparr>) desired\<rparr>)))"
      by (rule gives_bnd [OF loop]) (intro stable_foldAct stable_claimLoops, rule gives_ret, rule ready [OF that])
    then show "gives (tables x) ?R
       (case y of (w1, plan) \<Rightarrow> bnd (foldAct (removeClaimLink env n) gone w1) (\<lambda>w2.
         ret (w2\<lparr>cw_delLinks := map cl_Path actual,
                 cw_insLinks := map (\<lambda>l. \<lparr>cl_Path = l_Path l, cl_Role = l_Role l, cl_Slot = l_Slot l,
                                          cl_Target = l_Target l\<rparr>) desired\<rparr>)))"
      by (simp add: case_prod_beta)
  qed
  have owned: "stable (tables x) (postTransactionOwnership ops provided)"
    unfolding postTransactionOwnership_def by (intro tables_rules)
  have actual: "gives (tables x) (\<lambda>actual. actual = ClaimLinks d) (query ClaimLinks)"
    by (rule gives_query) (simp add: package_queries x)
  show ?thesis
    unfolding reconcileClaims_def Let_def
  proof (rule gives_bnd [where S = "\<lambda>desired. Desired (installedOf M) post = Inr desired"])
    fix desired assume "Desired (installedOf M) post = Inr desired"
    note last = gives_bnd [OF actual _ rest [OF this]]
    show "gives (tables x) ?R
      (bnd (postTransactionOwnership ops provided) (\<lambda>owned.
       bnd (liftRes (each_res (collidingLink owned) desired)) (\<lambda>_.
       bnd (query ClaimLinks) (\<lambda>actual.
       bnd (foldAct (stageClaimLink env post n)
             (map (Pair True) (cp_Create (Reconcile (toClaimsLinks actual) desired)) @
              map (Pair False) (cp_Repoint (Reconcile (toClaimsLinks actual) desired))) (?w, plan)) (\<lambda>(w1, plan).
       bnd (foldAct (removeClaimLink env n) (cp_Remove (Reconcile (toClaimsLinks actual) desired)) w1) (\<lambda>w2.
         ret (w2\<lparr>cw_delLinks := map cl_Path actual,
                 cw_insLinks := map (\<lambda>l. \<lparr>cl_Path = l_Path l, cl_Role = l_Role l, cl_Slot = l_Slot l,
                                          cl_Target = l_Target l\<rparr>) desired\<rparr>)))))))"
      by (rule gives_after [OF owned], rule gives_after, intro tables_rules, rule last, intro tables_rules)
  qed (auto simp: rmap_err_def intro!: gives_liftRes tables_rules split: sum.splits)
qed

lemma gives_planClaims:
  assumes x: "packageState d = x"
  shows "gives (tables x) (\<lambda>(w, ws). claimsReady env ops provided d w) (planClaims env ops provided dir n plan)"
proof -
  let ?S = "\<lambda>installed. \<exists>M. fold_res (applyManifest provided) ops (storedManifests env (ListPackages d)) = Inr M
      \<and> installed = installedOf M"
  have tables: "ListPackages d' = ListPackages d" "ClaimHolders d' = ClaimHolders d" "ClaimLinks d' = ClaimLinks d"
    if "packageState d' = x" for d'
    using package_queries [of d' d] that x by simp_all
  have installed: "gives (tables x) ?S (postInstalledManifests env ops provided)"
    unfolding postInstalledManifests_def
    by (rule gives_bnd [OF gives_query [where R = "\<lambda>ps. ps = ListPackages d"]])
       (auto simp: tables installedOf_def intro!: tables_rules gives_ret gives_bnd [OF gives_liftRes])
  have holders: "gives (tables x) (\<lambda>(current, post). current = holderMap (ClaimHolders d))
      (computeHolders ops provided dir)"
    unfolding computeHolders_def
    by (rule gives_bnd [OF gives_query [where R = "\<lambda>hs. hs = ClaimHolders d"]])
       (auto simp: tables intro!: tables_rules gives_ret gives_after)
  show ?thesis
    unfolding planClaims_def
  proof (rule gives_bnd [OF installed])
    show "stable (tables x) (postInstalledManifests env ops provided)"
      unfolding postInstalledManifests_def by (intro tables_rules)
    fix installed assume inst: "?S installed"
    show "gives (tables x) (\<lambda>(w, ws). claimsReady env ops provided d w)
      (bnd (computeHolders ops provided dir) (\<lambda>(current, post).
       bnd (reconcileClaims env ops provided installed current post n plan) (\<lambda>w.
         ret (w, cw_warnings w @ withdrawalWarnings current post installed))))"
    proof (rule gives_bnd [OF holders])
      show "stable (tables x) (computeHolders ops provided dir)"
        unfolding computeHolders_def by (intro tables_rules)
      fix y :: "string gomap \<times> string gomap"
      assume y: "case y of (current, post) \<Rightarrow> current = holderMap (ClaimHolders d)"
      from y inst show "gives (tables x) (\<lambda>(w, ws). claimsReady env ops provided d w)
          (case y of (current, post) \<Rightarrow>
             bnd (reconcileClaims env ops provided installed current post n plan) (\<lambda>w.
               ret (w, cw_warnings w @ withdrawalWarnings current post installed)))"
        by (cases y) (auto intro!: gives_bnd [OF gives_reconcileClaims [OF x] stable_reconcileClaims] gives_ret)
    qed
  qed
qed

subsection \<open>A prepared transaction\<close>

definition fromProvider :: "Env \<Rightarrow> Operation list \<Rightarrow> ProvidedPackage gomap \<Rightarrow> bool" where
  "fromProvider env ops provided \<longleftrightarrow>
     (\<forall>n pp. map_get provided n = Some pp \<longrightarrow> (\<exists>op\<in>set ops. op_Name op = n \<and> e_Provide env op = Inr pp))"

definition readyTxn ::
    "Env \<Rightarrow> Operation list \<Rightarrow> ProvidedPackage gomap \<Rightarrow> database \<Rightarrow> preparedTxn \<Rightarrow> bool" where
  "readyTxn env ops provided d p \<longleftrightarrow>
     list_all2 (fits provided) ops (pt_staged p) \<and> claimsReady env ops provided d (pt_claimW p)"

lemma gives_giveUp: "gives P (\<lambda>(q, e). e \<noteq> None \<and> q = p) (giveUp env p reason e)"
  unfolding giveUp_def gives_def bnd_def ret_def by (auto split: prod.splits outcome.splits)

lemma gives_runSteps_any: "gives (\<lambda>m. True) (\<lambda>(q, e). q = p) (runSteps env p steps)"
proof (induction env p steps rule: runSteps.induct)
  case (2 env p reason a rest)
  have "gives (\<lambda>m. True) (\<lambda>(q, e). q = p)
      (case r of Inl e \<Rightarrow> giveUp env p reason e | Inr u \<Rightarrow> runSteps env p rest)" for r
  proof (cases r)
    case (Inl e)
    then show ?thesis by (auto intro: gives_mono [OF gives_giveUp])
  qed (use 2 in simp)
  then show ?case by (auto intro!: gives_after simp: stable_def)
qed (simp add: gives_ret)

lemma gives_runSteps: "gives P (\<lambda>(q, e). q = p) (runSteps env p steps)"
  using gives_runSteps_any unfolding gives_def by blast

lemma gives_putInPlace: "gives P (\<lambda>(q, e). q = p) (putInPlace env x provided p)"
  unfolding putInPlace_def by (rule gives_runSteps)

lemma gives_planTxn:
  assumes "packageState d = x"
  shows "gives (tables x) (\<lambda>(p, e). e = None \<longrightarrow> readyTxn env ops provided d p) (planTxn env ops provided n)"
proof -
  have claims: "gives (tables x) (\<lambda>(p, e). e = None \<longrightarrow> readyTxn env ops provided d p)
      (planClaimsFor env ops provided n ss plan)" if "list_all2 (fits provided) ops ss" for ss plan
    unfolding planClaimsFor_def
  proof (rule gives_bnd [OF gives_attempt [OF gives_planClaims [OF assms]]])
    fix r :: "failure + claimWork \<times> warning list"
    assume "\<forall>y. r = Inr y \<longrightarrow> (case y of (w, ws) \<Rightarrow> claimsReady env ops provided d w)"
    then show "gives (tables x) (\<lambda>(p, e). e = None \<longrightarrow> readyTxn env ops provided d p)
       (case r of
          Inl e \<Rightarrow> giveUp env (preparedOf n ops ss emptyClaimWork []) ''planning claims failed'' e
        | Inr (w, ws) \<Rightarrow> ret (preparedOf n ops (attachClaims ss w) w ws, None))"
      using fits_attachClaims [OF that]
      by (cases r) (auto simp: readyTxn_def preparedOf_def intro: gives_ret gives_mono [OF gives_giveUp])
  qed (intro tables_rules)
  show ?thesis
    unfolding planTxn_def
  proof (rule gives_bnd [OF gives_planOperations], goal_cases)
    case (2 z)
    obtain ss plan e where "z = ((ss, plan), e)" by (metis prod.collapse)
    with 2 claims show ?case
      by (cases e) (auto intro: gives_mono [OF gives_giveUp])
  qed (intro tables_rules)
qed

lemma gives_provideAll: "gives P (\<lambda>provided. fromProvider env ops provided) (provideAll env ops)"
proof -
  have one: "gives (\<lambda>m. True) (fromProvider env ops) (provideOne env op provided)"
    if "op \<in> set ops" "fromProvider env ops provided" for op provided
    using that unfolding provideOne_def
    by (auto simp: gives_def bnd_def ret_def perform_def fromProvider_def gomap.get_put rbind_eq_Inr
        split: prod.splits outcome.splits list.splits fault.splits sum.splits if_splits)
  have "set xs \<subseteq> set ops \<Longrightarrow> fromProvider env ops provided \<Longrightarrow>
      gives (\<lambda>m. True) (fromProvider env ops) (foldAct (provideOne env) xs provided)" for xs provided
  proof (induction xs arbitrary: provided)
    case (Cons op xs)
    show ?case
      unfolding foldAct.simps
      by (rule gives_bnd [OF one]) (use Cons in \<open>auto simp: stable_def\<close>)
  qed (simp add: gives_ret)
  from this [of ops "[]"] show ?thesis
    by (simp add: provideAll_def gives_def fromProvider_def)
qed

lemma gives_prepareTxn:
  assumes "packageState d = x" and "\<And>pv. given = Some pv \<Longrightarrow> fromProvider env ops pv"
  shows "gives (tables x)
     (\<lambda>(p, e). e = None \<longrightarrow> (\<exists>provided. fromProvider env ops provided \<and> readyTxn env ops provided d p))
     (prepareTxn env ops xr given)"
proof -
  let ?R = "\<lambda>(p, e :: failure option). e = None \<longrightarrow>
     (\<exists>provided. fromProvider env ops provided \<and> readyTxn env ops provided d p)"
  have place: "gives (tables x) (\<lambda>(q, e). e = None \<longrightarrow> readyTxn env ops provided d q)
      (putInPlace env xr provided p)" if "readyTxn env ops provided d p" for provided p
    by (rule gives_mono [OF gives_putInPlace]) (use that in auto)
  have "gives (tables x) (\<lambda>(p, e). e = None \<longrightarrow> readyTxn env ops provided d p) (prepareWith env ops xr provided)"
    for provided
    unfolding prepareWith_def
  proof (rule gives_after)
    fix r :: "failure + nat"
    show "gives (tables x) (\<lambda>(p, e). e = None \<longrightarrow> readyTxn env ops provided d p)
      (case r of Inl e \<Rightarrow> ret (preparedOf 0 ops [] emptyClaimWork [], Some e)
       | Inr n \<Rightarrow> andThen (planTxn env ops provided n) (putInPlace env xr provided))"
      by (cases r)
         (auto intro!: gives_ret gives_andThen_done [OF gives_planTxn [OF assms(1)] package_tables.keeps_planTxn place])
  qed (intro stable_rules package_tables.keeps_openTxn)
  then have "gives (tables x) ?R (prepareWith env ops xr provided)" if "fromProvider env ops provided" for provided
    by (rule gives_mono) (use that in auto)
  note prepared = this
  have "gives (tables x) ?R (closeOnError (prepareWith env ops xr provided))"
    if "fromProvider env ops provided" for provided
    unfolding closeOnError_def
  proof (rule gives_bnd [OF prepared [OF that] package_tables.keeps_prepareWith], goal_cases)
    case (1 z)
    obtain p e where "z = (p, e)" by force
    with 1 show ?case
      by (cases e) (simp_all add: gives_ret gives_after tables_rules)
  qed
  note last = this
  show ?thesis
  proof (cases given)
    case None
    then show ?thesis
      unfolding prepareTxn_def None option.case
      by (intro gives_bnd [OF gives_attempt [OF gives_provideAll]])
         (auto split: sum.split intro: gives_ret tables_rules last)
  next
    case (Some pv)
    with last [OF assms(2)] show ?thesis by (simp add: prepareTxn_def)
  qed
qed

subsection \<open>After the commit nothing fails\<close>

definition infallible :: "'a act \<Rightarrow> bool" where
  "infallible a \<longleftrightarrow> (\<forall>m e m'. a m \<noteq> (Failed e, m'))"

lemma infallible_ret: "infallible (ret x)"
  by (simp add: infallible_def ret_def)

lemma infallible_attempt: "infallible (attempt a)"
  by (auto simp: infallible_def attempt_def split: prod.splits outcome.splits)

lemma infallible_bnd: "infallible a \<Longrightarrow> (\<And>x. infallible (f x)) \<Longrightarrow> infallible (bnd a f)"
  unfolding infallible_def bnd_def by (fastforce split: prod.splits outcome.splits)

lemma infallible_finishCommitted: "infallible (finishCommitted env p)"
proof -
  note rules = infallible_ret infallible_attempt infallible_bnd
  have "infallible (discardBackups ops)" for ops
    by (induction ops) (auto split: option.split intro!: rules)
  moreover have "infallible (reclaimDir env d)" for d
    unfolding reclaimDir_def Let_def by (auto split: sum.split option.split intro!: rules)
  then have "infallible (each_map (reclaimDir env) ds)" for ds
    by (induction ds) (auto intro!: rules)
  ultimately show ?thesis
    unfolding finishCommitted_def reclaimDirectories_def Let_def by (intro rules)
qed

subsection \<open>The run\<close>

text \<open>What the commit of a plan makes of the catalogue, the holders and the links.\<close>

definition commits :: "Env \<Rightarrow> Operation list \<Rightarrow> database \<Rightarrow> database \<Rightarrow> bool" where
  "commits env ops d d' \<longleftrightarrow>
     (\<exists>provided ss w.
        fromProvider env ops provided \<and> list_all2 (fits provided) ops ss \<and> claimsReady env ops provided d w \<and>
        catalogueOf d' = fold applyStaged ss (catalogueOf d) \<and>
        holderOf d' = map_get (cw_setHolders w) \<and> t_claim_link d' = cw_insLinks w)"

lemma views_of_tables:
  assumes "packageState d = packageState d'"
  shows "catalogueOf d = catalogueOf d'" and "holderOf d = holderOf d'" and "t_claim_link d = t_claim_link d'"
  using assms by (simp_all add: packageState_def catalogueOf_def rowOf_def filesOf_def holderOf_def fun_eq_iff)

lemma commits_tables:
  assumes "packageState d = packageState e" and "packageState d' = packageState e'"
  shows "commits env ops d d' = commits env ops e e'"
  by (simp add: commits_def views_of_tables [OF assms(1)] views_of_tables [OF assms(2)]
      claimsReady_tables [OF assms(1)])

lemma closing_wp:
  assumes "wp a (\<lambda>x m. Q x (db m)) (\<lambda>e m. F e (db m)) (\<lambda>m. C (db m)) m"
  shows "wp (closing a) (\<lambda>x m. Q x (db m)) (\<lambda>e m. F e (db m)) (\<lambda>m. C (db m)) m"
  using assms by (auto simp: wp_def closing_def closePins_def split: prod.splits outcome.splits)

lemma withLock_wp:
  assumes "\<And>m'. db m' = db m \<Longrightarrow> wp a (\<lambda>x m. Q x (db m)) (\<lambda>e m. F e (db m)) (\<lambda>m. C (db m)) m'"
    and "\<And>e. F e (db m)" and "C (db m)"
  shows "wp (withLock a) (\<lambda>x m. Q x (db m)) (\<lambda>e m. F e (db m)) (\<lambda>m. C (db m)) m"
  unfolding withLock_def Acquire_def Release_def wp_bnd
proof (rule wp_performI)
  fix u m' assume "(if held (tick m) then Inl Busy else Inr ((), (tick m)\<lparr>held := True\<rparr>)) = Inr (u, m')"
  then have "db m' = db m" by (auto split: if_splits)
  from assms(1) [OF this]
  show "wp (\<lambda>m. let (r, m') = a m in (r, m'\<lparr>held := False\<rparr>))
      (\<lambda>x m. Q x (db m)) (\<lambda>e m. F e (db m)) (\<lambda>m. C (db m)) m'"
    by (auto simp: wp_def split: prod.splits outcome.splits)
qed (use assms(2,3) in auto)

lemma stable_wp:
  assumes "stable (\<lambda>m. Q (db m)) a" and "Q (db m)" and "gives (\<lambda>m. Q (db m)) R a"
  shows "wp a (\<lambda>x m'. Q (db m') \<and> R x) (\<lambda>e m'. Q (db m')) (\<lambda>m'. Q (db m')) m"
  using stableD [OF assms(1,2)] assms(2,3)
  by (auto simp: wp_def gives_def split: prod.splits outcome.splits)

lemma keeps_both: "stable (\<lambda>m. db_ok (db m)) a \<Longrightarrow> stable (tables x) a \<Longrightarrow>
    stable (\<lambda>m. db_ok (db m) \<and> packageState (db m) = x) a"
  by (simp add: stable_def)

lemma gives_weaken: "gives (tables x) R a \<Longrightarrow> gives (\<lambda>m. db_ok (db m) \<and> packageState (db m) = x) R a"
  by (auto simp: gives_def)

lemma commitRows_run:
  assumes ok: "db_ok (db m)" and d: "packageState (db m) = packageState d"
    and p: "fromProvider env ops provided" "list_all2 (fits provided) ops ss" "claimsReady env ops provided d w"
  shows "wp (Tx (commitRows n ss w note)) (\<lambda>u m'. commits env ops d (db m') \<and> db_ok (db m'))
     (\<lambda>e m'. db m' = db m) (\<lambda>m'. db m' = db m) m"
proof -
  have own: "list_all ownRows ss"
    using p(2) by (auto simp: list_all_length list_all2_conv_all_nth fits_def)
  have "claimsReady env ops provided (db m) w"
    using p(3) by (simp add: claimsReady_tables [OF d])
  then have within: "linksWithin (set (cw_delLinks w)) (db m)"
    "rolesWithin (set (cw_delHolders w) \<union> dom (map_get (cw_setHolders w))) (db m)"
    by (simp_all add: claimsReady_def)
  show ?thesis
    by (rule wp_mono [OF wp_Tx [OF does_commitRows [OF own] keeps_ok_commitRows, OF ok]])
       (use ok within p d in \<open>auto simp: commits_def views_of_tables [OF d]\<close>)
qed

lemma commitTxn_run:
  assumes ok: "db_ok (db m)" and d: "packageState (db m) = packageState d"
    and p: "fromProvider env ops provided" "readyTxn env ops provided d p"
  shows "wp (commitTxn env p unroll)
     (\<lambda>(res, err) m'. db_ok (db m') \<and>
        (if err = None then commits env ops d (db m') else packageState (db m') = packageState d))
     (\<lambda>e m'. db_ok (db m') \<and> packageState (db m') = packageState d)
     (\<lambda>m'. db_ok (db m') \<and> (packageState (db m') = packageState d \<or> commits env ops d (db m'))) m"
proof -
  have body: "wp (Tx (commitBody p)) (\<lambda>u m'. commits env ops d (db m') \<and> db_ok (db m'))
      (\<lambda>e m'. db m' = db m) (\<lambda>m'. db m' = db m) m"
    unfolding commitBody_rows using p by (intro commitRows_run [OF ok d]) (auto simp: readyTxn_def)
  have fin: "wp (finishCommitted env p) (\<lambda>r m'. db_ok (db m') \<and> commits env ops d (db m'))
      (\<lambda>e m'. False) (\<lambda>m'. db_ok (db m') \<and> commits env ops d (db m')) m'"
    if "db_ok (db m') \<and> commits env ops d (db m')" for m'
    using stableD [OF db_finishCommitted [where Q = "\<lambda>d'. db_ok d' \<and> commits env ops d d'"], OF that, of env p]
      infallible_finishCommitted [of env p]
    by (auto simp: wp_def infallible_def split: prod.splits outcome.splits)
  have undo: "wp (joining e (finishRolledBack env n fs ds reason))
      (\<lambda>e' m'. db_ok (db m') \<and> packageState (db m') = packageState d)
      (\<lambda>e' m'. db_ok (db m') \<and> packageState (db m') = packageState d)
      (\<lambda>m'. db_ok (db m') \<and> packageState (db m') = packageState d) m'"
    if "db m' = db m" for e n fs ds reason m'
    using that ok d
    by (intro stableD keeps_both stable_joining schema.keeps_finishRolledBack package_tables.keeps_finishRolledBack) simp
  let ?Q = "\<lambda>y d'. db_ok d' \<and> (if snd y = None then commits env ops d d' else packageState d' = packageState d)"
  let ?F = "\<lambda>e d'. db_ok d' \<and> packageState d' = packageState d"
  let ?C = "\<lambda>d'. db_ok d' \<and> (packageState d' = packageState d \<or> commits env ops d d')"
  have "wp (commitTxn env p unroll) (\<lambda>y m. ?Q y (db m)) (\<lambda>e m. ?F e (db m)) (\<lambda>m. ?C (db m)) m"
    unfolding commitTxn_def
  proof (rule closing_wp, unfold wp_bnd wp_attempt, rule wp_mono [OF body], goal_cases)
    case (1 u m')
    show ?case
      by (simp add: wp_bnd, rule wp_mono [OF fin]) (use 1 in auto)
  next
    case (2 e m')
    then have same: "db_ok (db m') \<and> packageState (db m') = packageState d" using ok d by simp
    show ?case
    proof (cases unroll)
      case True
      then show ?thesis by (simp add: wp_bnd) (rule wp_mono [OF undo [OF 2]], auto)
    qed (use same in simp)
  qed (use ok d in auto)
  then show ?thesis by (simp add: case_prod_beta')
qed

lemma Execute_run:
  assumes "db_ok (db m)"
  shows "wp (Execute env ops)
     (\<lambda>(res, err) m'. db_ok (db m') \<and>
        (if err = None \<and> ops \<noteq> [] then commits env ops (db m) (db m')
         else packageState (db m') = packageState (db m)))
     (\<lambda>e m'. db_ok (db m') \<and> packageState (db m') = packageState (db m))
     (\<lambda>m'. db_ok (db m') \<and> (packageState (db m') = packageState (db m) \<or> commits env ops (db m) (db m'))) m"
proof -
  let ?d = "db m"
  let ?Q = "\<lambda>y d'. db_ok d' \<and> (if snd y = None \<and> ops \<noteq> [] then commits env ops ?d d'
         else packageState d' = packageState ?d)"
  let ?F = "\<lambda>e d'. db_ok d' \<and> packageState d' = packageState ?d"
  let ?C = "\<lambda>d'. db_ok d' \<and> (packageState d' = packageState ?d \<or> commits env ops ?d d')"
  have run: "wp (runTransaction env ops) (\<lambda>y m. ?Q y (db m)) (\<lambda>e m. ?F e (db m)) (\<lambda>m. ?C (db m)) m1"
    if m1: "db_ok (db m1) \<and> packageState (db m1) = packageState ?d" and "ops \<noteq> []" for m1
  proof -
    have prep: "wp (prepareTxn env ops [] None)
        (\<lambda>(p, e) m'. (db_ok (db m') \<and> packageState (db m') = packageState ?d) \<and>
           (e = None \<longrightarrow> (\<exists>provided. fromProvider env ops provided \<and> readyTxn env ops provided ?d p)))
        (\<lambda>e m'. db_ok (db m') \<and> packageState (db m') = packageState ?d)
        (\<lambda>m'. db_ok (db m') \<and> packageState (db m') = packageState ?d) m1"
      using stable_wp [where Q = "\<lambda>d'. db_ok d' \<and> packageState d' = packageState ?d", OF
          keeps_both [OF schema.keeps_prepareTxn package_tables.keeps_prepareTxn] m1
          gives_weaken [OF gives_prepareTxn [OF refl, where given = None]]]
      by (simp add: case_prod_beta')
    show ?thesis
      unfolding runTransaction_def wp_bnd
    proof (rule wp_mono [OF prep], goal_cases)
      case (1 y m2)
      obtain p e where y: "y = (p, e)" by force
      show ?case
      proof (cases e)
        case None
        with 1 y obtain provided where p: "fromProvider env ops provided" "readyTxn env ops provided ?d p"
          and m2: "db_ok (db m2)" "packageState (db m2) = packageState ?d" by auto
        show ?thesis
          using wp_mono [OF commitTxn_run [OF m2 p]] None that(2)
          by (auto simp: y case_prod_beta elim!: wp_mono)
      qed (use 1 y in auto)
    qed auto
  qed
  have "wp (Execute env ops) (\<lambda>y m. ?Q y (db m)) (\<lambda>e m. ?F e (db m)) (\<lambda>m. ?C (db m)) m"
    unfolding Execute_def
  proof (rule withLock_wp, unfold wp_bnd)
    fix m0 :: machine assume m0: "db m0 = db m"
    have rec: "wp (recoverPending env) (\<lambda>u m'. db_ok (db m') \<and> packageState (db m') = packageState ?d)
        (\<lambda>e m'. db_ok (db m') \<and> packageState (db m') = packageState ?d)
        (\<lambda>m'. db_ok (db m') \<and> packageState (db m') = packageState ?d) m0"
      using m0 assms
      by (intro stableD keeps_both schema.keeps_recoverPending package_tables.keeps_recoverPending) simp
    show "wp (recoverPending env)
        (\<lambda>u. wp (if ops = [] then ret (failedResult 0, None) else runTransaction env ops)
          (\<lambda>y m. ?Q y (db m)) (\<lambda>e m. ?F e (db m)) (\<lambda>m. ?C (db m)))
        (\<lambda>e m. ?F e (db m)) (\<lambda>m. ?C (db m)) m0"
    proof (rule wp_mono [OF rec], goal_cases)
      case (1 u m')
      show ?case
      proof (cases "ops = []")
        case False
        from run [OF 1 False] False show ?thesis by (simp only: if_False)
      qed (use 1 in simp)
    qed auto
  qed (use assms in auto)
  then show ?thesis by (simp add: case_prod_beta')
qed

end
