(* ===== verification/EndToEnd.thy ===== *)
theory EndToEnd
  imports AtomicFacts ResolveFacts
begin

section \<open>From a request to the installed packages\<close>

text \<open>
  The resolver's plan and its execution together, and the claim links of the database against
  what the stored manifests and the holders call for.
\<close>

subsection \<open>The versions installed\<close>

definition versionsOf :: "database \<Rightarrow> string \<Rightarrow> string option" where
  "versionsOf d n = map_option dp_Version (rowOf d n)"

lemma versionsOf_catalogue: "versionsOf d n = map_option (dp_Version \<circ> fst) (catalogueOf d n)"
  by (simp add: versionsOf_def catalogueOf_def option.map_comp o_def)

definition plannedVersion :: "Operation \<Rightarrow> string option" where
  "plannedVersion op = (if op_Kind op = OpRemove then None else Some (versionText (op_ToVersion op)))"

definition applyVersions :: "Operation list \<Rightarrow> (string \<Rightarrow> string option) \<Rightarrow> string \<Rightarrow> string option" where
  "applyVersions ops = fold (\<lambda>op V. V(op_Name op := plannedVersion op)) ops"

lemma applyStaged_versions:
  assumes "fits provided op s"
  shows "(\<lambda>n. map_option (dp_Version \<circ> fst) (applyStaged s C n)) =
     (\<lambda>n. map_option (dp_Version \<circ> fst) (C n))(op_Name op := plannedVersion op)"
  using assms by (auto simp: fits_def applyStaged_def plannedVersion_def fun_eq_iff)

lemma commits_versions:
  assumes "commits env ops d d'"
  shows "versionsOf d' = applyVersions ops (versionsOf d)"
proof -
  from assms obtain provided ss where fit: "list_all2 (fits provided) ops ss"
    and cat: "catalogueOf d' = fold applyStaged ss (catalogueOf d)"
    by (auto simp: commits_def)
  have "(\<lambda>n. map_option (dp_Version \<circ> fst) (fold applyStaged ss C n)) =
      applyVersions ops (\<lambda>n. map_option (dp_Version \<circ> fst) (C n))" for C
    using fit
    by (induction ops ss arbitrary: C rule: list_all2_induct)
       (simp_all add: applyVersions_def applyStaged_versions)
  then show ?thesis by (simp add: versionsOf_catalogue [abs_def] cat)
qed

text \<open>Success, failure and crash of a run, as one case distinction on its outcome.\<close>

lemma Execute_outcome:
  assumes "db_ok (db m)" and "Execute env ops m = (r, m')"
  shows "case r of
      outcome.Done (res, err) \<Rightarrow>
        if err = None \<and> ops \<noteq> [] then commits env ops (db m) (db m')
        else packageState (db m') = packageState (db m)
    | Failed e \<Rightarrow> packageState (db m') = packageState (db m)
    | Crashed \<Rightarrow> packageState (db m') = packageState (db m) \<or> commits env ops (db m) (db m')"
    and "db_ok (db m')"
  using wp_result [OF Execute_run [OF assms(1)] assms(2)] by (auto split: outcome.splits prod.splits)

lemma packageState_versions: "packageState d = packageState d' \<Longrightarrow> versionsOf d = versionsOf d'"
  by (simp add: fun_eq_iff versionsOf_def rowOf_def packageState_def)

lemma execute_versions:
  assumes "db_ok (db m)" and "Execute env ops m = (outcome.Done (res, None), m')"
  shows "versionsOf (db m') = applyVersions ops (versionsOf (db m))"
proof (cases "ops = []")
  case True
  with Execute_outcome(1) [OF assms] have "packageState (db m') = packageState (db m)" by simp
  from packageState_versions [OF this] True show ?thesis by (simp add: applyVersions_def)
qed (use Execute_outcome(1) [OF assms] commits_versions in auto)

subsection \<open>Resolving and executing\<close>

lemma applyVersions_plan:
  assumes "\<And>op. op \<in> set ops \<Longrightarrow> op_Root op = root \<and> plannedVersion op = map_option v_raw (op_ToVersion op)"
    and "\<And>n. V n = map_option v_raw (M (worldKey root n))"
  shows "applyVersions ops V n = map_option v_raw (applyOperations ops M (worldKey root n))"
  using assms
proof (induction ops arbitrary: V M)
  case (Cons op ops)
  have "(V(op_Name op := plannedVersion op)) k = map_option v_raw (applyOperation op M (worldKey root k))" for k
    using Cons.prems(1) [of op] Cons.prems(2)
    by (auto simp: applyOperation_def opKey_def worldKey_def)
  then have "applyVersions ops (V(op_Name op := plannedVersion op)) n =
      map_option v_raw (applyOperations ops (applyOperation op M) (worldKey root n))"
    using Cons.prems(1) by (intro Cons.IH) (auto simp del: fun_upd_apply)
  then show ?case by (simp add: applyVersions_def applyOperations_def)
qed (simp add: applyVersions_def applyOperations_def)

lemma resolved_then_executed:
  assumes plan: "resolveCore reqs inst av ref opts = Inr plan"
    and root: "\<And>op. op \<in> set (pl_Operations plan) \<Longrightarrow> op_Root op = root"
    and before: "\<And>n. versionsOf (db m) n = map_option v_raw (installedVersions inst (worldKey root n))"
    and ok: "db_ok (db m)" and run: "Execute env (pl_Operations plan) m = (outcome.Done (res, None), m')"
  shows "\<exists>w. world_ok (set av) (o_PrimaryArch opts) (installedAt inst) w \<and> consistent w ref (o_PrimaryArch opts) \<and>
     (\<forall>n. case map_get w (worldKey root n) of
            None \<Rightarrow> versionsOf (db m') n = None
          | Some p \<Rightarrow> \<exists>v. versionsOf (db m') n = Some (v_raw v) \<and> Compare v (pk_version p) = 0)"
proof (rule resolveCore_parts [OF plan])
  fix w
  assume build: "buildPlan w inst ref (o_PrimaryArch opts) = Inr (pl_Operations plan)"
    and w: "world_ok (set av) (o_PrimaryArch opts) (installedAt inst) w" "consistent w ref (o_PrimaryArch opts)"
  have "plannedVersion op = map_option v_raw (op_ToVersion op)" if "op \<in> set (pl_Operations plan)" for op
    using buildPlan_operations(2) [OF build w(1) that]
    by (cases "op_Kind op") (auto simp: operation_ok_def plannedVersion_def versionText_def)
  then have after: "versionsOf (db m') n =
      map_option v_raw (applyOperations (pl_Operations plan) (installedVersions inst) (worldKey root n))" for n
    unfolding execute_versions [OF ok run] by (intro applyVersions_plan) (use root before in auto)
  have "case map_get w (worldKey root n) of
      None \<Rightarrow> versionsOf (db m') n = None
    | Some p \<Rightarrow> \<exists>v. versionsOf (db m') n = Some (v_raw v) \<and> Compare v (pk_version p) = 0" for n
    using plan_reaches_world [OF build w(1), of "worldKey root n"]
    unfolding after by (cases "map_get w (worldKey root n)") (simp, fastforce)
  with w show ?thesis by blast
qed

subsection \<open>The claim links\<close>

definition storedInstalled :: "Env \<Rightarrow> database \<Rightarrow> claimsInstalled list" where
  "storedInstalled env d = installedOf (storedManifests env (ListPackages d))"

text \<open>The recorded links are those of the specification, for the stored manifests and holders.\<close>

definition linksMatch :: "Env \<Rightarrow> database \<Rightarrow> bool" where
  "linksMatch env d \<longleftrightarrow>
     set (toClaimsLinks (ClaimLinks d)) = claimLinks (storedInstalled env d) (holderMap (ClaimHolders d))"

text \<open>The stored text of a manifest decodes to the manifest it was stored for.\<close>

definition manifestsDecode :: "Env \<Rightarrow> Operation list \<Rightarrow> bool" where
  "manifestsDecode env ops \<longleftrightarrow>
     (\<forall>op\<in>set ops. case e_Provide env op of
        Inl e \<Rightarrow> True
      | Inr pp \<Rightarrow> e_DecodeManifest env (ap_ManifestJSON (pp_Pkg pp)) = Some (ap_Manifest (pp_Pkg pp)))"

lemma map_get_entries_eq: "map_get a = map_get b \<Longrightarrow> map_entries a = map_entries b"
  unfolding map_entries_def by (metis gomap.keys_unique)

definition decoded :: "Env \<Rightarrow> catalogue \<Rightarrow> string \<Rightarrow> Manifest option" where
  "decoded env C n = Option.bind (C n) (\<lambda>(p, fs). e_DecodeManifest env (dp_Manifest p))"

lemma apart_distinct: "apart (\<lambda>x y. f x = f y) xs \<Longrightarrow> distinct (map f xs)"
  by (induction xs) (auto simp: image_iff apart_def)

lemma distinct_names:
  assumes "db_ok d"
  shows "distinct (map dp_Name (t_package d))" and "distinct (map ch_Role (t_claim_holder d))"
proof -
  show "distinct (map dp_Name (t_package d))"
    using ok_parts(1) [OF assms] by (auto simp: packages_ok_def intro!: apart_distinct)
  show "distinct (map ch_Role (t_claim_holder d))"
    using ok_parts(2) [OF assms] by (auto simp: claims_ok_def intro!: apart_distinct)
qed

lemma rowOf_Some:
  assumes "db_ok d"
  shows "rowOf d n = Some p \<longleftrightarrow> p \<in> set (t_package d) \<and> dp_Name p = n"
proof -
  have "List.find (\<lambda>p. dp_Name p = n) ps = Some p \<longleftrightarrow> p \<in> set ps \<and> dp_Name p = n"
    if "distinct (map dp_Name ps)" for ps
    using that by (induction ps) (use image_iff in \<open>force+\<close>)
  with distinct_names(1) [OF assms] show ?thesis by (simp add: rowOf_def)
qed

lemma storedManifests_get:
  assumes "distinct (map dp_Name ps)"
  shows "map_get (storedManifests env ps) n = Some m \<longleftrightarrow>
     (\<exists>p\<in>set ps. dp_Name p = n \<and> e_DecodeManifest env (dp_Manifest p) = Some m)"
proof -
  let ?step = "\<lambda>M p. case e_DecodeManifest env (dp_Manifest p) of None \<Rightarrow> M | Some m \<Rightarrow> map_put M (dp_Name p) m"
  have "map_get (foldl ?step M ps) n = Some m \<longleftrightarrow>
      (if \<exists>p\<in>set ps. dp_Name p = n \<and> e_DecodeManifest env (dp_Manifest p) \<noteq> None
       then \<exists>p\<in>set ps. dp_Name p = n \<and> e_DecodeManifest env (dp_Manifest p) = Some m
       else map_get M n = Some m)" for M
    using assms
  proof (induction ps arbitrary: M)
    case (Cons p ps)
    show ?case
    proof (cases "dp_Name p = n")
      case True
      with Cons.prems have "\<forall>q\<in>set ps. dp_Name q \<noteq> n" by (metis distinct.simps(2) image_eqI list.set_map list.simps(9))
      with Cons True show ?thesis by (cases "e_DecodeManifest env (dp_Manifest p)") (auto simp: gomap.get_put)
    next
      case False
      with Cons show ?thesis by (cases "e_DecodeManifest env (dp_Manifest p)") (auto simp: gomap.get_put)
    qed
  qed simp
  then show ?thesis by (auto simp: storedManifests_def)
qed

lemma storedManifests_decoded:
  assumes "db_ok d"
  shows "map_get (storedManifests env (ListPackages d)) = decoded env (catalogueOf d)"
proof
  fix n
  have dist: "distinct (map dp_Name (ListPackages d))"
    using distinct_names(1) [OF assms] by (simp add: ListPackages_def distinct_map)
  have "map_get (storedManifests env (ListPackages d)) n = Some m \<longleftrightarrow> decoded env (catalogueOf d) n = Some m" for m
    unfolding storedManifests_get [OF dist]
    by (auto simp: decoded_def catalogueOf_def ListPackages_def rowOf_Some [OF assms] bind_eq_Some_conv)
  then show "map_get (storedManifests env (ListPackages d)) n = decoded env (catalogueOf d) n"
    by (metis not_Some_eq)
qed

lemma applyManifest_decoded:
  assumes "fits provided op s" and "fromProvider env ops provided" and "manifestsDecode env ops"
    and "applyManifest provided op M = Inr M'" and "map_get M = decoded env C"
  shows "map_get M' = decoded env (applyStaged s C)"
proof (cases "op_Kind op = OpRemove")
  case True
  with assms(1,4,5) show ?thesis
    by (auto simp: applyManifest_def applyStaged_def fits_def decoded_def gomap.get_del fun_eq_iff)
next
  case False
  with assms(1) obtain p pp where p: "sg_pkg s = Some p" "map_get provided (op_Name op) = Some pp"
    "dp_Manifest p = ap_ManifestJSON (pp_Pkg pp)" "sg_op s = op"
    by (auto simp: fits_def)
  with assms(2) obtain op' where "op' \<in> set ops" "e_Provide env op' = Inr pp"
    unfolding fromProvider_def by blast
  with assms(3) have "e_DecodeManifest env (dp_Manifest p) = Some (ap_Manifest (pp_Pkg pp))"
    by (auto simp: manifestsDecode_def p(3))
  with False p assms(4,5) show ?thesis
    by (auto simp: applyManifest_def applyStaged_def decoded_def gomap.get_put fun_eq_iff)
qed

lemma manifests_after:
  assumes "list_all2 (fits provided) ops' ss" and "fromProvider env ops provided" and "manifestsDecode env ops"
    and "fold_res (applyManifest provided) ops' M = Inr M'" and "map_get M = decoded env C"
  shows "map_get M' = decoded env (fold applyStaged ss C)"
  using assms
proof (induction ops' ss arbitrary: M C rule: list_all2_induct)
  case (Cons op ops' s ss)
  from Cons.prems(3) obtain M1 where M1: "applyManifest provided op M = Inr M1"
    "fold_res (applyManifest provided) ops' M1 = Inr M'" by (auto split: sum.splits)
  have "map_get M1 = decoded env (applyStaged s C)"
    by (rule applyManifest_decoded [OF Cons.hyps(1) Cons.prems(1,2) M1(1) Cons.prems(4)])
  from Cons.IH [OF Cons.prems(1,2) M1(2) this] show ?case by simp
qed simp

lemma holderMap_get:
  assumes "db_ok d"
  shows "map_get (holderMap (ClaimHolders d)) = holderOf d"
proof
  fix r
  have dist: "distinct (map ch_Role (ClaimHolders d))"
    using distinct_names(2) [OF assms] by (simp add: ClaimHolders_def distinct_map)
  show "map_get (holderMap (ClaimHolders d)) r = holderOf d r"
  proof (cases "holderOf d r")
    case None
    then have "r \<notin> ch_Role ` set (t_claim_holder d)" using dom_holderOf [of d] by (auto simp: domIff)
    then show ?thesis
      using None by (simp add: holderMap_def ClaimHolders_def map_get_put_all_keep)
  next
    case (Some h)
    then obtain k where k: "k \<in> set (t_claim_holder d)" "ch_Role k = r" "ch_Holder k = h"
      by (auto simp: holderOf_def dest!: map_of_SomeD)
    then have "map_get (holderMap (ClaimHolders d)) (ch_Role k) = Some (ch_Holder k)"
      unfolding holderMap_def by (intro map_get_put_all_distinct dist) (simp add: ClaimHolders_def)
    with Some k show ?thesis by simp
  qed
qed

lemma desired_linksMatch:
  assumes "Desired (storedInstalled env d) post = Inr desired" and "holderOf d = map_get post"
    and "t_claim_link d = map linkRow desired" and "db_ok d"
  shows "linksMatch env d"
proof -
  have links: "claimLinks (storedInstalled env d) (holderMap (ClaimHolders d)) = claimLinks (storedInstalled env d) post"
    by (simp add: claimLinks_def holderMap_get [OF assms(4)] assms(2))
  have link: "\<lparr>l_Path = l_Path x, l_Role = l_Role x, l_Slot = l_Slot x, l_Target = l_Target x\<rparr> = x" for x :: Link
    by (cases x) simp
  have "set (toClaimsLinks (ClaimLinks d)) = set desired"
    by (simp add: toClaimsLinks_def ClaimLinks_def assms(3) linkRow_def image_image link)
  with links show ?thesis
    using Desired_ok(1) [OF assms(1)] by (simp add: linksMatch_def)
qed

lemma commits_linksMatch:
  assumes "commits env ops d d'" and "db_ok d" and "db_ok d'" and "manifestsDecode env ops"
  shows "linksMatch env d'"
proof -
  from assms(1) obtain provided ss w where
    from_provider: "fromProvider env ops provided" and fit: "list_all2 (fits provided) ops ss"
    and ready: "claimsReady env ops provided d w"
    and d': "catalogueOf d' = fold applyStaged ss (catalogueOf d)" "holderOf d' = map_get (cw_setHolders w)"
      "t_claim_link d' = cw_insLinks w"
    unfolding commits_def by blast
  from ready obtain M desired where
    M: "fold_res (applyManifest provided) ops (storedManifests env (ListPackages d)) = Inr M"
    and desired: "Desired (installedOf M) (cw_setHolders w) = Inr desired" "cw_insLinks w = map linkRow desired"
    unfolding claimsReady_def by blast
  have "map_get M = map_get (storedManifests env (ListPackages d'))"
    using manifests_after [OF fit from_provider assms(4) M storedManifests_decoded [OF assms(2)]]
    by (simp add: storedManifests_decoded [OF assms(3)] d'(1))
  then have inst: "storedInstalled env d' = installedOf M"
    unfolding storedInstalled_def installedOf_def by (metis map_get_entries_eq)
  show ?thesis
    by (rule desired_linksMatch [OF desired(1) [folded inst] d'(2) _ assms(3)]) (simp add: d'(3) desired(2))
qed

lemma linksMatch_tables:
  assumes "packageState d = packageState d'"
  shows "linksMatch env d = linksMatch env d'"
  using assms
  by (simp add: linksMatch_def storedInstalled_def ListPackages_def ClaimHolders_def ClaimLinks_def packageState_def)

lemma execute_keeps_links:
  assumes "db_ok (db m)" and "linksMatch env (db m)" and "manifestsDecode env ops"
  shows "linksMatch env (db (snd (Execute env ops m)))"
proof -
  obtain r m' where r: "Execute env ops m = (r, m')" by force
  consider "packageState (db m') = packageState (db m)" | "commits env ops (db m) (db m')"
    using Execute_outcome(1) [OF assms(1) r] by (auto split: outcome.splits prod.splits if_splits)
  then show ?thesis
  proof cases
    case 1
    from linksMatch_tables [OF this] assms(2) show ?thesis by (simp add: r)
  next
    case 2
    from commits_linksMatch [OF this assms(1) Execute_outcome(2) [OF assms(1) r] assms(3)] show ?thesis by (simp add: r)
  qed
qed

end
