(* ===== verification/Planned.thy ===== *)
theory Planned
  imports Interrupted EndToEnd
begin

section \<open>A run of Execute, interrupted\<close>

text \<open>
  Planning changes no file and leaves the journal open and empty, so the run that follows starts
  where the last theory needs it.
\<close>

definition planning :: "fsys \<Rightarrow> machine \<Rightarrow> bool" where
  "planning t0 m \<longleftrightarrow> sameLeaves {} t0 (tree m) \<and> pinsNamed m \<and> statFaults m = []"

lemma stagingTree_nil: "stagingTree [] s0 t = sameLeaves {} s0 t"
  by (simp add: stagingTree_def allKeys_def)

lemma planning_staging: "planning t0 m \<longleftrightarrow> stagingOK [] t0 (db m) m"
  by (auto simp: planning_def stagingOK_def stagingTree_nil)

lemma planning_stages:
  assumes "\<And>d0. stages [] t0 d0 (\<lambda>t. True) a R"
  shows "stable (planning t0) a"
  unfolding stable_def
proof (intro allI impI)
  fix m assume "planning t0 m"
  then have "stagingOK [] t0 (db m) m" by (simp add: planning_staging)
  from stagesD [OF assms this]
  have "wp a (\<lambda>x. planning t0) (\<lambda>e. planning t0) (planning t0) m"
    by (rule wp_mono) (auto simp: planning_def stagingOK_def stagingTree_nil)
  then show "planning t0 (snd (a m))" by (simp only: wp_final)
qed

lemma clearOf_nil: "clearOf [] cs"
  by (simp add: clearOf_def allKeys_def)

interpretation planning: quiet_calls "planning t0" for t0
proof unfold_locales
  show "planning t0 (tick m)" if "planning t0 m" for m using that by (simp add: planning_def)
  show "stable (planning t0) (dirFor root p)" for root p
    by (rule planning_stages, rule stages_dirFor, rule clearOf_nil)
  show "stable (planning t0) (existingDirFor root p)" for root p
    by (rule planning_stages, rule stages_existingDirFor)
  show "stable (planning t0) (readFile d n)" for d n
    unfolding readFile_def by (rule planning_stages, rule stages_look) (auto split: option.splits node.splits)
  show "stable (planning t0) (Readlink d n)" for d n
    unfolding Readlink_def by (rule planning_stages, rule stages_look) (auto split: option.splits node.splits)
  show "stable (planning t0) (Lstat d n)" for d n
    by (auto simp: stable_def Lstat_def Let_def planning_def pinsNamed_def split: option.splits)
qed

text \<open>A complete plan: what the steps before \<open>putInPlace\<close> come to when they succeed.\<close>

definition planRun :: "Env \<Rightarrow> Operation list \<Rightarrow> (ProvidedPackage gomap \<times> preparedTxn \<times> failure option) act" where
  "planRun env ops =
     bnd (provideAll env ops) (\<lambda>provided.
     bnd (openTxn env ops [] provided) (\<lambda>n.
     bnd (planTxn env ops provided n) (\<lambda>(p, err). ret (provided, p, err))))"

definition planComplete ::
    "Env \<Rightarrow> Operation list \<Rightarrow> machine \<Rightarrow> ProvidedPackage gomap \<Rightarrow> preparedTxn \<Rightarrow> machine \<Rightarrow> bool" where
  "planComplete env ops m provided p m' \<longleftrightarrow> planRun env ops m = (outcome.Done (provided, p, None), m')"

lemma planComplete_parts:
  assumes "planComplete env ops m provided p m'"
  obtains m1 m2 n where "provideAll env ops m = (outcome.Done provided, m1)"
    and "openTxn env ops [] provided m1 = (outcome.Done n, m2)"
    and "planTxn env ops provided n m2 = (outcome.Done (p, None), m')"
  using assms
  by (auto simp: planComplete_def planRun_def bnd_def ret_def split: prod.splits outcome.splits)

lemma planTxn_parts:
  assumes "planTxn env ops provided n m = (outcome.Done (p, None), m')"
  obtains ss plan w ws m1 where "planOperations env n provided ops m = (outcome.Done ((ss, plan), None), m1)"
    and "attempt (planClaims env ops provided (e_Claims env) n plan) m1 = (outcome.Done (Inr (w, ws)), m')"
    and "p = preparedOf n ops (attachClaims ss w) w ws"
  using assms
  by (auto simp: planTxn_def planClaimsFor_def bnd_def giveUp_def ret_def
      split: prod.splits outcome.splits option.splits sum.splits)

lemma stable_done: "stable P a \<Longrightarrow> P m \<Longrightarrow> a m = (r, m') \<Longrightarrow> P m'"
  unfolding stable_def by (metis snd_conv)

lemma provideAll_still: "stable (\<lambda>m. tree m = t \<and> statFaults m = ss \<and> db m = d) (provideAll env ops)"
proof -
  have "stable (\<lambda>m. tree m = t \<and> statFaults m = ss \<and> db m = d) (perform (\<lambda>m. rbind r (\<lambda>x. Inr (x, m))))"
    for r :: "failure + ProvidedPackage"
    by (rule stable_perform) (auto simp: rbind_eq_Inr)
  then show ?thesis unfolding provideAll_def provideOne_def by (intro stable_rules)
qed

lemma openTxn_planning:
  assumes "openTxn env ops x provided m = (outcome.Done n, m')" and "sameLeaves {} t0 (tree m)" and "statFaults m = []"
  shows "planning t0 m'"
proof -
  define rest where "rest = bnd (liftRes (directoryDescriptors env ops provided)) (\<lambda>sds.
     bnd (setDescriptors sds) (\<lambda>_.
     bnd (checkDiskSpace env ops provided) (\<lambda>_.
       execGet (BeginCrossRootTxn (e_PeipkgVersion env) journalSchemaVersion x))))"
  have "openTxn env ops x provided = bnd newPinnedDirs (\<lambda>_. rest)" by (simp add: openTxn_def rest_def)
  with assms(1) obtain m1 where m1: "newPinnedDirs m = (outcome.Done (), m1)" "rest m1 = (outcome.Done n, m')"
    by (auto simp: bnd_def split: prod.splits outcome.splits)
  have "wp newPinnedDirs (\<lambda>u m'. planning t0 m') (\<lambda>e m'. True) (\<lambda>m'. True) m"
    using assms(2,3)
    by (auto simp: wp_def newPinnedDirs_def perform_def planning_def pinsNamed_def map_get_def
        split: list.splits fault.splits)
  with m1(1) have start: "planning t0 m1" by (simp add: wp_def)
  have "stable (planning t0) (setDescriptors sds)" for sds
    by (auto simp: stable_def setDescriptors_def planning_def pinsNamed_def)
  moreover have "stable (planning t0) (execGet f)" for f :: "database \<Rightarrow> failure + nat \<times> database"
    unfolding execGet_def
    by (rule stable_perform) (auto simp: rbind_eq_Inr planning.ticks, simp add: planning_def pinsNamed_def)
  ultimately have "stable (planning t0) rest"
    unfolding rest_def by (intro stable_rules planning.measuring)
  from stable_done [OF this start m1(2)] show ?thesis .
qed

text \<open>A fresh journal is empty.\<close>

lemma find_append_last: "\<forall>x\<in>set xs. \<not> P x \<Longrightarrow> P y \<Longrightarrow> List.find P (xs @ [y]) = Some y"
  by (induction xs) auto

lemma begin_opened:
  assumes "db_ok d" and "BeginCrossRootTxn v journalSchemaVersion [] d = Inr (n, d')" and "pt_txnID p = n"
  shows "\<exists>txn. opened p txn d'" and "jrows p 0 0 d'"
proof -
  have ok: "db_ok d'" using schema.opened [OF assms(1,2)] .
  let ?txn = "\<lparr>tx_ID = n, tx_State = TxnPending, tx_OpSummary = [], tx_StartedByVersion = v,
     tx_JournalSchemaVersion = journalSchemaVersion, tx_CrossRootID = []\<rparr>"
  from assms(2) have n: "n = Suc (t_txn_sequence d)" and none: "\<forall>t\<in>set (t_txn d). tx_State t \<noteq> TxnPending"
    and d': "d' = d\<lparr>t_txn_sequence := n, t_txn := t_txn d @ [?txn]\<rparr>"
    by (auto simp: BeginCrossRootTxn_def Let_def list_ex_iff split: if_splits)
  have "List.find (\<lambda>t. tx_State t = TxnPending) (t_txn d @ [?txn]) = Some ?txn"
    by (rule find_append_last [OF none]) simp
  then have "PendingTxn d' = Some ?txn" by (simp add: PendingTxn_def d')
  with ok assms(3) show "\<exists>txn. opened p txn d'" by (auto simp: opened_def)
  have le: "tx_ID t \<le> t_txn_sequence d" if "t \<in> set (t_txn d)" for t
    using ok_parts(3) [OF assms(1)] that by (simp add: txns_ok_def)
  have fresh: "n \<notin> tx_ID ` set (t_txn d)" using le n by fastforce
  have journal: "journal_ok d" using ok_parts(4) [OF assms(1)] .
  have "tf_TxnID r \<noteq> n" if "r \<in> set (t_txn_file d)" for r
    using journal that fresh unfolding journal_ok_def by fastforce
  moreover have "td_TxnID r \<noteq> n" if "r \<in> set (t_txn_dir d)" for r
    using journal that fresh unfolding journal_ok_def by fastforce
  ultimately show "jrows p 0 0 d'" by (simp add: jrows_def d' assms(3) filter_empty_conv)
qed

lemma openTxn_begins:
  assumes "openTxn env ops x provided m = (outcome.Done n, m')" and "db_ok (db m)"
  shows "\<exists>d v. db_ok d \<and> BeginCrossRootTxn v journalSchemaVersion x d = Inr (n, db m')"
proof -
  let ?before = "bnd newPinnedDirs (\<lambda>_.
     bnd (liftRes (directoryDescriptors env ops provided)) (\<lambda>sds.
     bnd (setDescriptors sds) (\<lambda>_. checkDiskSpace env ops provided)))"
  have "bnd ?before (\<lambda>_. execGet (BeginCrossRootTxn (e_PeipkgVersion env) journalSchemaVersion x)) m =
      openTxn env ops x provided m"
    unfolding openTxn_def by (simp add: bnd_def fun_eq_iff split: prod.splits outcome.splits)
  with assms(1) obtain m1 where m1: "?before m = (outcome.Done (), m1)"
    and started: "execGet (BeginCrossRootTxn (e_PeipkgVersion env) journalSchemaVersion x) m1 = (outcome.Done n, m')"
    by (auto simp: bnd_def [of ?before] split: prod.splits outcome.splits)
  have "stable (\<lambda>m. db_ok (db m)) ?before"
    by (intro db_rules stable_rules)
  from stable_done [OF this assms(2) m1] have "db_ok (db m1)" .
  moreover have "BeginCrossRootTxn (e_PeipkgVersion env) journalSchemaVersion x (db m1) = Inr (n, db m')"
    using started by (auto simp: execGet_def perform_def rbind_eq_Inr split: list.splits fault.splits sum.splits)
  ultimately show ?thesis by blast
qed


lemma planTxn_keeps:
  assumes "planTxn env ops provided n m = (outcome.Done (p, None), m')"
  shows "db m' = db m" and "planning t0 m \<Longrightarrow> planning t0 m'" and "pt_txnID p = n"
proof -
  from planTxn_parts [OF assms] obtain ss plan w ws m1 where
    m1: "planOperations env n provided ops m = (outcome.Done ((ss, plan), None), m1)"
    and m': "attempt (planClaims env ops provided (e_Claims env) n plan) m1 = (outcome.Done (Inr (w, ws)), m')"
    and p: "p = preparedOf n ops (attachClaims ss w) w ws" .
  have claims: "stable P (attempt (planClaims env ops provided (e_Claims env) n plan))"
    if "stable P (planClaims env ops provided (e_Claims env) n plan)" for P
    using that by (intro stable_rules)
  have ends: "Q m'" if "stable Q (planOperations env n provided ops)"
      "stable Q (planClaims env ops provided (e_Claims env) n plan)" "Q m" for Q
    using stable_done [OF claims [OF that(2)] stable_done [OF that(1,3) m1] m'] .
  show "db m' = db m"
    using ends [OF database.planning_operations database.planning_claims, of "\<lambda>d. d = db m"] by simp
  show "planning t0 m'" if "planning t0 m"
    using ends [OF planning.planning_operations planning.planning_claims that] .
  show "pt_txnID p = n" by (simp add: p preparedOf_def)
qed

lemma planComplete_start:
  assumes "planComplete env ops m provided p m'" and "db_ok (db m)" and "statFaults m = []"
  shows "\<exists>txn. atStart p (tree m') txn m' \<and> jrows p 0 0 (db m')" and "sameLeaves {} (tree m) (tree m')"
proof -
  from planComplete_parts [OF assms(1)] obtain m1 m2 n where run: "provideAll env ops m = (outcome.Done provided, m1)"
    "openTxn env ops [] provided m1 = (outcome.Done n, m2)"
    "planTxn env ops provided n m2 = (outcome.Done (p, None), m')" .
  have m1: "tree m1 = tree m \<and> statFaults m1 = [] \<and> db m1 = db m"
    by (rule stable_done [OF provideAll_still _ run(1)]) (simp add: assms(3))
  have "planning (tree m) m2" by (rule openTxn_planning [OF run(2)]) (simp_all add: m1)
  then have plan: "planning (tree m) m'" by (rule planTxn_keeps(2) [OF run(3)])
  from openTxn_begins [OF run(2)] m1 assms(2) obtain d v where
    d: "db_ok d" "BeginCrossRootTxn v journalSchemaVersion [] d = Inr (n, db m2)" by auto
  note begun = begin_opened [OF d planTxn_keeps(3) [OF run(3)]]
  from begun(1) obtain txn where "opened p txn (db m2)" by blast
  with begun(2) planTxn_keeps(1) [OF run(3)] plan
  show "\<exists>txn. atStart p (tree m') txn m' \<and> jrows p 0 0 (db m')"
    by (auto simp: atStart_def planning_def)
  from plan show "sameLeaves {} (tree m) (tree m')" by (simp add: planning_def)
qed

text \<open>How a run ends, wherever its faults lie.\<close>

lemma wp_closeOnError:
  assumes "wp a (\<lambda>r m. Q r (if snd r = None then m else snd (closePins m))) F C m"
  shows "wp (closeOnError a) Q F C m"
  unfolding closeOnError_def wp_bnd
  by (rule wp_mono [OF assms]) (auto simp: wp_def bnd_def closePins_def ret_def split: option.splits)

lemma closePins_state:
  "inFlight p s0 txn (snd (closePins m)) = inFlight p s0 txn m"
  "undone p s0 (snd (closePins m)) = undone p s0 m"
  by (simp_all add: closePins_def inFlight_def undone_def)

lemma run_of_plan:
  assumes "planComplete env ops m provided p m3" and "db_ok (db m)" and "statFaults m = []"
    and "wellPlanned env provided p (tree m3)"
  shows "\<exists>txn. wp (runTransaction env ops)
     (\<lambda>r m'. if snd r = None then committed p (db m') else undone p (tree m3) m' \<or> inFlight p (tree m3) txn m')
     (\<lambda>e m'. committed p (db m')) (\<lambda>m'. committed p (db m') \<or> inFlight p (tree m3) txn m') m"
proof -
  from planComplete_start(1) [OF assms(1-3)] obtain txn where
    start: "atStart p (tree m3) txn m3" "jrows p 0 0 (db m3)" by blast
  let ?s0 = "tree m3"
  from planComplete_parts [OF assms(1)] obtain m1 m2 n where run: "provideAll env ops m = (outcome.Done provided, m1)"
    "openTxn env ops [] provided m1 = (outcome.Done n, m2)"
    "planTxn env ops provided n m2 = (outcome.Done (p, None), m3)" .
  let ?Q = "\<lambda>r m'. fst r = p \<and>
     (if snd r = None then underway p ?s0 txn m' else undone p ?s0 m' \<or> inFlight p ?s0 txn m')"
  have "wp (prepareWith env ops [] provided) ?Q (\<lambda>e m'. False) (inFlight p ?s0 txn) m1"
    using putInPlace_run [OF assms(4) start]
    by (simp add: prepareWith_def andThen_def wp_def bnd_def attempt_def ret_def run(2,3))
  then have "wp (closeOnError (prepareWith env ops [] provided)) ?Q (\<lambda>e m'. False) (inFlight p ?s0 txn) m1"
    by (rule wp_closeOnError [OF wp_mono]) (auto simp: closePins_state)
  then have "wp (prepareTxn env ops [] None) ?Q (\<lambda>e m'. False) (inFlight p ?s0 txn) m"
    by (simp add: prepareTxn_def wp_def bnd_def attempt_def ret_def run(1))
  then have "wp (runTransaction env ops)
     (\<lambda>r m'. if snd r = None then committed p (db m') else undone p ?s0 m' \<or> inFlight p ?s0 txn m')
     (\<lambda>e m'. committed p (db m')) (\<lambda>m'. committed p (db m') \<or> inFlight p ?s0 txn m') m"
    unfolding runTransaction_def wp_bnd
  proof (rule wp_mono, goal_cases)
    case (1 r m')
    then show ?case
      using commitTxn_ends [OF assms(4), of txn m'] by (cases r; cases "snd r") auto
  qed auto
  then show ?thesis ..
qed

text \<open>Either the transaction stands, or its files are as they were, at once or after a recovery.\<close>

theorem run_ends:
  assumes "planComplete env ops m provided p m3" and "db_ok (db m)" and "statFaults m = []"
    and "wellPlanned env provided p (tree m3)"
    and "runTransaction env ops m = (r, m')"
  shows "committed p (db m') \<or>
     sameLeaves {} (tree m) (tree m') \<and> PendingTxn (db m') = None \<or>
     (\<exists>m4. Recover env (boot [] [] m') = (outcome.Done (), m4) \<and> sameLeaves {} (tree m) (tree m4) \<and>
        PendingTxn (db m4) = None \<and> packageState (db m4) = packageState (db m'))"
proof -
  let ?K = "allKeys (pt_ops p)"
  have whole: "sameLeaves {} (tree m) t"
    if "\<forall>q\<in>?K. look t q = look (tree m3) q" and "sameLeaves ?K (tree m3) t" for t
  proof -
    have "sameLeaves {} (tree m3) t" using that unfolding sameLeaves_def by (metis empty_iff)
    with planComplete_start(2) [OF assms(1-3)] show ?thesis by (rule sameLeaves_trans)
  qed
  from run_of_plan [OF assms(1-4)] obtain txn where
    ends: "wp (runTransaction env ops)
       (\<lambda>r m'. if snd r = None then committed p (db m') else undone p (tree m3) m' \<or> inFlight p (tree m3) txn m')
       (\<lambda>e m'. committed p (db m')) (\<lambda>m'. committed p (db m') \<or> inFlight p (tree m3) txn m') m"
    by blast
  have "wp (runTransaction env ops) (\<lambda>x m'. committed p (db m') \<or> undone p (tree m3) m' \<or> inFlight p (tree m3) txn m')
       (\<lambda>e m'. committed p (db m')) (\<lambda>m'. committed p (db m') \<or> inFlight p (tree m3) txn m') m"
    by (rule wp_mono [OF ends]) (auto split: if_splits)
  with assms(5) have "committed p (db m') \<or> undone p (tree m3) m' \<or> inFlight p (tree m3) txn m'"
    by (auto simp: wp_def split: outcome.splits)
  then consider "committed p (db m')" | "undone p (tree m3) m'" | "inFlight p (tree m3) txn m'" by blast
  then show ?thesis
  proof cases
    case 2
    then show ?thesis using whole [of "tree m'"] by (simp add: undone_def)
  next
    case 3
    from inFlight_recovers [OF this assms(4)] whole show ?thesis by blast
  qed simp
qed

end
