(* ===== verification/InstallExamples.thy ===== *)
theory InstallExamples
  imports Planned Examples
begin

section \<open>Concrete transactions\<close>

text \<open>
  A machine with an empty database and a package of one file, on which the properties of the
  installer are evaluated: its installation, with no fault, with a failing system call, and with
  a crash while its file is put in place.
\<close>

definition instManifest :: Manifest where
  "instManifest =
     \<lparr>m_Name = ''a'', m_Version = exVersion (CHR ''1''), m_Architecture = ''x'', m_Description = [],
      m_License = [], m_LicenseClass = LicenseClassFree, m_Homepage = [], m_DefaultRoot = [],
      m_SpecialSystemPackage = False, m_AlternateUpgrade = None, m_Dependencies = [],
      m_OptionalDependencies = [], m_Conflicts = [], m_Provides = [], m_Replaces = [],
      m_SideEffects = [], m_SizeInstalled = 1, m_SDOverrides = [],
      m_Build = \<lparr>b_Timestamp = 0, b_FarmID = [], b_SourceRef = [], b_SourcePackage = [], b_RecipeRef = [], b_Builder = []\<rparr>\<rparr>"

definition instEntry :: PayloadEntry where
  "instEntry = \<lparr>pe_Path = ''f'', pe_Type = EntryFile, pe_Size = 1, pe_LinkTarget = [], pe_Hash = ''h''\<rparr>"

definition instProvided :: ProvidedPackage where
  "instProvided =
     \<lparr>pp_Pkg = \<lparr>ap_Manifest = instManifest, ap_ManifestJSON = ''{}'', ap_Payload = [instEntry]\<rparr>,
      pp_Archive = [(instEntry, ''c'')]\<rparr>"

definition instEnv :: Env where
  "instEnv =
     \<lparr>e_Root = ''/r'', e_Provide = (\<lambda>op. Inr instProvided), e_PeipkgVersion = ''1'', e_RunSideEffects = False,
      e_Claims = \<lparr>cd_NoClaim = False, cd_All = False, cd_Roles = []\<rparr>, e_BypassPathRestrictions = False,
      e_OverwriteUnowned = False, e_SDOverridePolicy = None, e_DecideModified = None,
      e_HashHex = (\<lambda>s. ''h''), e_DecodeManifest = (\<lambda>s. if s = ''{}'' then Some instManifest else None),
      e_Now = 0, e_Available = (\<lambda>d. None), e_ValidateInstallPaths = (\<lambda>a p. Inr ()), e_Run = (\<lambda>c. True)\<rparr>"

definition instOperation :: Operation where
  "instOperation =
     \<lparr>op_Kind = OpInstall, op_Name = ''a'', op_Root = [], op_FromVersion = None,
      op_ToVersion = Some (exVersion (CHR ''1'')), op_Candidate = Some (exCandidate ''a'' (CHR ''1'') [] [])\<rparr>"

definition instDatabase :: database where
  "instDatabase =
     \<lparr>t_package = [], t_package_file = [], t_txn = [], t_txn_sequence = 0, t_payload = [], t_txn_op = [],
      t_txn_file = [], t_txn_dir = [], t_claim_holder = [], t_claim_link = []\<rparr>"

definition instMachine :: "fault list \<Rightarrow> machine" where
  "instMachine fs =
     \<lparr>tree = [], db = instDatabase, pinned = [], directorySD = [], appliedSD = [], held = False, native = True,
      faults = fs, statFaults = []\<rparr>"

text \<open>What a run came to: whether it succeeded, the file tree and the versions it left.\<close>

definition runSummary ::
    "(Result \<times> failure option) outcome \<times> machine \<Rightarrow> bool \<times> fsys \<times> (string \<times> string) list" where
  "runSummary r =
     ((case fst r of outcome.Done (res, None) \<Rightarrow> True | _ \<Rightarrow> False), tree (snd r),
      map (\<lambda>p. (dp_Name p, dp_Version p)) (t_package (db (snd r))))"

lemma run_succeeds:
  assumes "runSummary r = (True, t, vs)"
  obtains res m' where "r = (outcome.Done (res, None), m')" and "tree m' = t"
    and "map (\<lambda>p. (dp_Name p, dp_Version p)) (t_package (db m')) = vs"
  using assms by (cases r) (auto simp: runSummary_def split: outcome.splits option.splits prod.splits)

lemma install_run:
  "runSummary (Execute instEnv [instOperation] (instMachine [])) = (True, [([''f''], NFile ''c'' [] [])], [(''a'', ''1-1'')])"
  by code_simp

text \<open>The process is killed at its first call after the file went into place.\<close>

lemma install_crash:
  "runSummary (Execute instEnv [instOperation] (instMachine (replicate 16 Proceeds @ [Crashes]))) =
     (False, [([''f''], NFile ''c'' [] [])], [])"
  by code_simp

text \<open>The plan of \<open>install_example\<close>, on a machine that has the older \<open>a\<close>; the packages are empty.\<close>

definition emptyEnv :: Env where
  "emptyEnv = instEnv\<lparr>e_Provide := (\<lambda>op. Inr
     \<lparr>pp_Pkg = \<lparr>ap_Manifest = instManifest, ap_ManifestJSON = ''{}'', ap_Payload = []\<rparr>, pp_Archive = []\<rparr>)\<rparr>"

definition olderMachine :: machine where
  "olderMachine = (instMachine [])\<lparr>db := instDatabase\<lparr>t_package :=
     [\<lparr>dp_Name = ''a'', dp_Version = ''1-1'', dp_Architecture = ''x'', dp_OriginRepo = ''r'', dp_InstalledAt = 0,
       dp_Manifest = ''{}''\<rparr>]\<rparr>\<rparr>"

lemma plan_run:
  "runSummary (Execute emptyEnv (pl_Operations exInstallPlan) olderMachine) = (True, [], [(''a'', ''2-1''), (''b'', ''1-1'')])"
  by code_simp

lemma older_versions:
  "versionsOf (db olderMachine) n = map_option v_raw (installedVersions (exOnly (CHR ''1'')) (worldKey [] n))"
proof -
  have "installedList (exOnly (CHR ''1'')) = [([], exInstalled ''a'' (CHR ''1'') [])]" by code_simp
  then show ?thesis
    by (simp add: versionsOf_def rowOf_def olderMachine_def installedVersions_def installedAt_def map_put_all_def
        gomap.get_put installedKey_def exInstalled_def exVersion_def worldKey_def)
qed

lemma example_databases: "db_ok instDatabase" "db_ok (db olderMachine)"
  by (simp_all add: db_ok_def packages_ok_def claims_ok_def txns_ok_def journal_ok_def instDatabase_def olderMachine_def
      apart_def)

text \<open>The plan of the installation, on a machine killed when its file is in place.\<close>

definition instOp :: fileOp where
  "instOp =
     \<lparr>fo_finalPath = ''/r/f'', fo_action = actionCreate, fo_stagedPath = ''/r/f.peipkg-staged-1'',
      fo_backupPath = [], fo_keepBackup = False, fo_dir = Some []\<rparr>"

definition crashingMachine :: machine where
  "crashingMachine = instMachine (replicate 14 Proceeds @ [Crashes])"

definition planSummary ::
    "(ProvidedPackage gomap \<times> preparedTxn \<times> failure option) outcome \<times> machine \<Rightarrow>
     (ProvidedPackage gomap \<times> fileOp list \<times> claimWork \<times> fsys \<times> failure option \<times>
      (string \<times> fileOp list \<times> string list \<times> string gomap) list) option" where
  "planSummary r =
     (case r of
        (outcome.Done (provided, p, err), m) \<Rightarrow>
          Some (provided, pt_ops p, pt_claimW p, tree m, err,
            map (\<lambda>s. (op_Name (sg_op s), sg_fileOps s, sg_createdDirs s, sg_stagedAt s)) (pt_staged p))
      | _ \<Rightarrow> None)"

lemma install_plan:
  "planSummary (planRun instEnv [instOperation] crashingMachine) =
     Some ([(''a'', instProvided)], [instOp], emptyClaimWork, [], None,
       [(''a'', [instOp], [], [(''/f'', ''/r/f.peipkg-staged-1'')])])"
  by code_simp

lemma install_interrupted:
  "let (r, m') = runTransaction instEnv [instOperation] crashingMachine
   in r = outcome.Crashed \<and> tree m' = [([''f''], NFile ''c'' [] [])] \<and> PendingTxn (db m') \<noteq> None \<and>
      (\<forall>t\<in>set (t_txn (db m')). tx_State t \<noteq> TxnCommitted)"
  by code_simp

lemma install_planned:
  obtains provided p m3 where "planComplete instEnv [instOperation] crashingMachine provided p m3"
    and "wellPlanned instEnv provided p (tree m3)"
proof -
  from install_plan obtain provided p m3 where
    run: "planRun instEnv [instOperation] crashingMachine = (outcome.Done (provided, p, None), m3)"
    and parts: "provided = [(''a'', instProvided)]" "pt_ops p = [instOp]" "pt_claimW p = emptyClaimWork" "tree m3 = []"
    and staged: "map (\<lambda>s. (op_Name (sg_op s), sg_fileOps s, sg_createdDirs s, sg_stagedAt s)) (pt_staged p) =
         [(''a'', [instOp], [], [(''/f'', ''/r/f.peipkg-staged-1'')])]"
    unfolding planSummary_def by (cases "planRun instEnv [instOperation] crashingMachine"; cases "fst (planRun instEnv [instOperation] crashingMachine)") auto
  from staged obtain s where s: "pt_staged p = [s]" "op_Name (sg_op s) = ''a''" "sg_fileOps s = [instOp]" "sg_createdDirs s = []"
    "sg_stagedAt s = [(''/f'', ''/r/f.peipkg-staged-1'')]" by auto
  have names: "dirComps ''/r'' ''/r/f'' = Inr []" "dirComps ''/r'' ''/r/f.peipkg-staged-1'' = Inr []"
    "baseName ''/r/f.peipkg-staged-1'' = ''f.peipkg-staged-1''" "baseName ''/r/f'' = ''f''"
    "checkName ''f''" "checkName ''f.peipkg-staged-1''" "pe_Type instEntry = EntryFile"
    by code_simp+
  have keys: "opKeys instOp = [[''f''], [''f.peipkg-staged-1'']]"
    by code_simp
  have op: "separate [instOp]" "fo_action instOp = actionCreate" "fo_dir instOp = Some []"
    "planned [] instOp" "finalKey instOp = [''f'']" "stagedKey instOp = [''f.peipkg-staged-1'']"
    "fo_finalPath instOp = ''/r/f''" "allFileOps [s] = [instOp]" "e_Root instEnv = ''/r''"
    unfolding allFileOps_def by (simp_all add: s) code_simp+
  have dirs: "openDirs [] []" by (simp add: openDirs_def isDir_def)
  have clear: "clearOf [instOp] []" by (simp add: clearOf_def allKeys_def keys)
  have slot: "slotPath ''/r'' [instOp] ''/r/f.peipkg-staged-1''"
    using clear by (simp add: slotPath_def names stagedSlots_def op)
  have "wellPlanned instEnv provided p (tree m3)"
    unfolding wellPlanned_def materialsFit_def slotsIn_def using slot dirs
    by (simp add: parts s names op map_get_def emptyClaimWork_def instProvided_def dirsClear_def allCreatedDirs_def)
  then show ?thesis using that run by (simp add: planComplete_def)
qed

end
