(* ===== verification/ClaimCommand.thy ===== *)
theory ClaimCommand
  imports Execute
begin

section \<open>Granting and revoking a claim\<close>

text \<open>
  The standalone transaction of \<open>internal/install/claims.go\<close>: it changes the holder of one role
  and brings the role's links in line, under a journal like that of any other transaction. A
  failure before the journal is opened has no result; one after it is returned with the number
  of the transaction.
\<close>

text \<open>An empty holder revokes the role.\<close>

record ClaimRequest =
  cr_Role :: string
  cr_Holder :: string

definition requestedHolders ::
    "claimsInstalled list \<Rightarrow> string gomap \<Rightarrow> ClaimRequest \<Rightarrow> failure + string gomap" where
  "requestedHolders installed current req =
     (if cr_Holder req \<noteq> [] then
        (case List.find (\<lambda>p. ci_Name p = cr_Holder req) installed of
           None \<Rightarrow> Inl (Refused ''claim grant: not installed'' [cr_Holder req])
         | Some p \<Rightarrow>
             if \<not> EligibleProvider (ci_Manifest p) (cr_Role req)
             then Inl (Refused ''claim grant: not an eligible provider'' [cr_Holder req, cr_Role req])
             else Inr (map_put current (cr_Role req) (cr_Holder req)))
      else if map_get current (cr_Role req) = None
      then Inl (Refused ''claim revoke: not held'' [cr_Role req])
      else Inr (map_del current (cr_Role req)))"

definition writeClaimJournal :: "nat \<Rightarrow> string \<Rightarrow> claimWork \<Rightarrow> unit act" where
  "writeClaimJournal txnID role w =
     bnd (exec (InsertTxnOp \<lparr>to_TxnID = txnID, to_Seq = 0, to_PackageName = role, to_Action = ActClaim,
                              to_FromVersion = [], to_ToVersion = [], to_OriginRepo = []\<rparr>)) (\<lambda>_.
     bnd (each (\<lambda>r. exec (InsertTxnFile r))
            (map (journalFile txnID) (enumerate 0 (map (Pair role) (cw_fileOps w))))) (\<lambda>_.
     each (\<lambda>r. exec (InsertTxnDir r)) (map (journalDir txnID) (enumerate 0 (cw_createdDirs w)))))"

definition abandonClaim :: "Env \<Rightarrow> nat \<Rightarrow> claimWork \<Rightarrow> string \<Rightarrow> unit act" where
  "abandonClaim env txnID w reason =
     finishRolledBack env txnID (cw_fileOps w) (cw_createdDirs w) reason"

definition claimSummary :: "ClaimRequest \<Rightarrow> string" where
  "claimSummary req =
     (if cr_Holder req = [] then ''revoked claim '' @ cr_Role req
      else ''granted claim '' @ cr_Role req @ '' to '' @ cr_Holder req)"

definition commitClaim :: "ClaimRequest \<Rightarrow> nat \<Rightarrow> claimWork \<Rightarrow> unit act" where
  "commitClaim req txnID w =
     Tx (bnd (applyClaimMetadata w) (\<lambda>_. exec (FinishTxn txnID TxnCommitted (claimSummary req))))"

text \<open>The steps in order, each with the reason the journal is closed with when it fails.\<close>

fun claimSteps :: "Env \<Rightarrow> nat \<Rightarrow> claimWork \<Rightarrow> (string \<times> unit act) list \<Rightarrow> failure option act" where
  "claimSteps env txnID w [] = ret None"
| "claimSteps env txnID w ((reason, a) # rest) =
     bnd (attempt a) (\<lambda>r.
       case r of
         Inl e \<Rightarrow> bnd (joining e (abandonClaim env txnID w reason)) (\<lambda>e'. ret (Some e'))
       | Inr u \<Rightarrow> claimSteps env txnID w rest)"

definition applyClaim :: "Env \<Rightarrow> ClaimRequest \<Rightarrow> nat \<Rightarrow> claimWork \<Rightarrow> (Result \<times> failure option) act" where
  "applyClaim env req txnID w =
     bnd (claimSteps env txnID w
            [(''recording the journal failed'', writeClaimJournal txnID (cr_Role req) w),
             (''staging claim links failed'', materializeClaims w),
             (''applying claim changes failed'', commitOps (cw_fileOps w)),
             (''committing the claim failed'', commitClaim req txnID w)]) (\<lambda>err.
       case err of
         Some e \<Rightarrow> ret (failedResult txnID, Some e)
       | None \<Rightarrow>
           bnd (discardBackups (cw_fileOps w)) (\<lambda>left.
             ret (\<lparr>res_TxnID = txnID, res_Warnings = cw_warnings w @ map WarnBackupLeft left,
                   res_SDOverrides = []\<rparr>, None)))"

text \<open>A failure with nothing planned: the journal is closed, an error of that is dropped.\<close>

definition closeUnplanned :: "nat \<Rightarrow> string \<Rightarrow> failure \<Rightarrow> (Result \<times> failure option) act" where
  "closeUnplanned txnID reason e =
     bnd (attempt (exec (FinishTxn txnID TxnRolledBack reason))) (\<lambda>_. ret (failedResult txnID, Some e))"

definition claimTxn ::
    "Env \<Rightarrow> ClaimRequest \<Rightarrow> claimsInstalled list \<Rightarrow> string gomap \<Rightarrow> string gomap \<Rightarrow> nat \<Rightarrow>
     (Result \<times> failure option) act" where
  "claimTxn env req installed current post txnID =
     bnd (attempt newPinnedDirs) (\<lambda>r.
       case r of
         Inl e \<Rightarrow> closeUnplanned txnID ''opening the installation root failed'' e
       | Inr u \<Rightarrow>
           closing (
             bnd (attempt (reconcileClaims env [] [] installed current post txnID [])) (\<lambda>q.
               case q of
                 Inl e \<Rightarrow> closeUnplanned txnID ''planning the claim failed'' e
               | Inr w \<Rightarrow> applyClaim env req txnID w)))"

definition Claim :: "Env \<Rightarrow> ClaimRequest \<Rightarrow> (Result \<times> failure option) act" where
  "Claim env req =
     withLock (
       bnd (recoverPending env) (\<lambda>_.
       bnd (postInstalledManifests env [] []) (\<lambda>installed.
       bnd (query ClaimHolders) (\<lambda>holders.
       bnd (liftRes (requestedHolders installed (holderMap holders) req)) (\<lambda>post.
       bnd (execGet (BeginCrossRootTxn (e_PeipkgVersion env) journalSchemaVersion [])) (\<lambda>txnID.
         claimTxn env req installed (holderMap holders) post txnID))))))"

end
