(* ===== verification/ClaimFacts.thy ===== *)
theory ClaimFacts
  imports ClaimCommand EndToEnd
begin

section \<open>What granting a claim does\<close>

text \<open>
  A grant or revocation changes the holder of its role and nothing else but the links, and those
  become the ones the specification derives; or it changes nothing. It says which of the two it
  was.
\<close>

definition granted :: "Env \<Rightarrow> ClaimRequest \<Rightarrow> database \<Rightarrow> database \<Rightarrow> bool" where
  "granted env req d d' \<longleftrightarrow>
     (\<exists>post desired.
        requestedHolders (storedInstalled env d) (holderMap (ClaimHolders d)) req = Inr post \<and>
        Desired (storedInstalled env d) post = Inr desired \<and>
        catalogueOf d' = catalogueOf d \<and> holderOf d' = map_get post \<and> t_claim_link d' = map linkRow desired)"

lemma granted_tables: "packageState d = packageState e \<Longrightarrow> granted env req d d' = granted env req e d'"
  using package_queries [of d e] views_of_tables [of d e]
  by (simp add: granted_def storedInstalled_def)

lemma requested_holder:
  assumes "requestedHolders installed current req = Inr post"
  shows "map_get post = (map_get current)(cr_Role req := if cr_Holder req = [] then None else Some (cr_Holder req))"
    and "cr_Holder req \<noteq> [] \<Longrightarrow>
      \<exists>p\<in>set installed. ci_Name p = cr_Holder req \<and> EligibleProvider (ci_Manifest p) (cr_Role req)"
  using assms
  by (auto simp: requestedHolders_def gomap.get_put gomap.get_del find_Some_iff split: if_splits option.splits)

subsection \<open>The database commit\<close>

abbreviation settled :: "database \<Rightarrow> machine \<Rightarrow> bool" where
  "settled d m \<equiv> db_ok (db m) \<and> packageState (db m) = packageState d"

lemma keeps_ok_claimBody:
  "stable (\<lambda>m. db_ok (db m)) (bnd (applyClaimMetadata w) (\<lambda>_. exec (FinishTxn n TxnCommitted s)))"
proof -
  have "stable (\<lambda>m. db_ok (db m)) (exec f)" if "\<And>d d'. db_ok d \<Longrightarrow> f d = Inr d' \<Longrightarrow> db_ok d'" for f
    using that by (rule stable_exec)
  note ok = this
  show ?thesis
    unfolding applyClaimMetadata_def applyClaimRows_def
    by (intro stable_rules ok) (blast intro: ok_statements)+
qed

lemma commitClaim_run:
  assumes m: "settled d m" and ready: "claimsReady env [] [] d w" and post: "cw_setHolders w = post"
    and req: "requestedHolders (storedInstalled env d) (holderMap (ClaimHolders d)) req = Inr post"
  shows "wp (commitClaim req n w) (\<lambda>u m'. db_ok (db m') \<and> granted env req d (db m'))
     (\<lambda>e. settled d) (settled d) m"
proof -
  have fin: "does (exec (FinishTxn n st x))
      (\<lambda>d d'. catalogueOf d' = catalogueOf d \<and> holderOf d' = holderOf d \<and> t_claim_link d' = t_claim_link d)"
    for n st x by (intro does_exec) (simp add: catalogue_claims holderOf_same links_same)
  have "claimsReady env [] [] (db m) w" using ready m by (simp add: claimsReady_tables [of "db m" d])
  then have within: "linksWithin (set (cw_delLinks w)) (db m)"
    "rolesWithin (set (cw_delHolders w) \<union> dom (map_get (cw_setHolders w))) (db m)"
    by (simp_all add: claimsReady_def)
  from ready obtain desired where
    desired: "Desired (storedInstalled env d) post = Inr desired" "cw_insLinks w = map linkRow desired"
    by (auto simp: claimsReady_def storedInstalled_def post)
  let ?S = "\<lambda>d d'. catalogueOf d' = catalogueOf d \<and> holderOf d' = map_get post \<and> t_claim_link d' = cw_insLinks w"
  have "does (bnd (applyClaimMetadata w) (\<lambda>_. exec (FinishTxn n TxnCommitted (claimSummary req))))
      (\<lambda>d d'. linksWithin (set (cw_delLinks w)) d \<and>
         rolesWithin (set (cw_delHolders w) \<union> dom (map_get (cw_setHolders w))) d \<longrightarrow> ?S d d')"
    unfolding applyClaimMetadata_def
    by (rule does_mono [OF does_bnd [OF does_applyClaimRows fin]]) (auto simp: post)
  then show ?thesis
    unfolding commitClaim_def
    by (rule wp_mono [OF wp_Tx [OF _ keeps_ok_claimBody]])
       (use m within desired req views_of_tables [of "db m" d] in \<open>auto simp: granted_def\<close>)
qed

subsection \<open>The steps\<close>

lemma keeps_abandonClaim: "stable (settled d) (abandonClaim env n w reason)"
  unfolding abandonClaim_def
  by (intro keeps_both schema.keeps_finishRolledBack package_tables.keeps_finishRolledBack)

lemma claimSteps_run:
  assumes "\<And>a. a \<in> snd ` set steps \<Longrightarrow> stable (settled d) a"
    and last: "\<And>m. settled d m \<Longrightarrow> wp a (\<lambda>u m'. G (db m')) (\<lambda>e. settled d) (settled d) m"
    and "settled d m"
  shows "wp (claimSteps env n w (steps @ [(reason, a)]))
     (\<lambda>err m'. if err = None then G (db m') else settled d m') (\<lambda>e. settled d) (settled d) m"
  using assms(1,3)
proof (induction steps arbitrary: m)
  case Nil
  show ?case
    unfolding append_Nil claimSteps.simps wp_bnd wp_attempt
    by (rule wp_mono [OF last [OF Nil(2)]])
       (auto simp: wp_bnd intro!: wp_mono [OF stableD [OF stable_joining [OF keeps_abandonClaim]]])
next
  case (Cons s steps)
  obtain why b where s: "s = (why, b)" by force
  have "stable (settled d) b" using Cons.prems(1) s by simp
  from stableD [OF this Cons.prems(2)] show ?case
    unfolding append_Cons s claimSteps.simps wp_bnd wp_attempt
  proof (elim wp_mono, goal_cases)
    case (1 u m')
    then show ?case using Cons.IH Cons.prems(1) by simp
  next
    case (2 e m')
    have "wp (joining e (abandonClaim env n w why)) (\<lambda>x. settled d) (\<lambda>e. settled d) (settled d) m'"
      by (rule stableD [OF stable_joining [OF keeps_abandonClaim] 2])
    then show ?case by (simp add: wp_bnd) (erule wp_mono, auto)
  qed
qed

lemma keeps_writeClaimJournal:
  "stable (settled d) (writeClaimJournal n role w)"
proof -
  have "stable (settled d) (exec (InsertTxnOp r))" "stable (settled d) (exec (InsertTxnFile f))"
    "stable (settled d) (exec (InsertTxnDir x))" for r f x
    by (intro keeps_both schema.keeps_statements package_tables.keeps_statements)+
  then show ?thesis unfolding writeClaimJournal_def by (intro stable_rules)
qed

lemma infallible_discardBackups: "infallible (discardBackups ops)"
  by (induction ops) (auto split: option.split intro!: infallible_ret infallible_attempt infallible_bnd)

lemma applyClaim_run:
  assumes m: "settled d m" and ready: "claimsReady env [] [] d w" and post: "cw_setHolders w = post"
    and req: "requestedHolders (storedInstalled env d) (holderMap (ClaimHolders d)) req = Inr post"
  shows "wp (applyClaim env req n w)
     (\<lambda>r m'. db_ok (db m') \<and> (if snd r = None then granted env req d (db m') else packageState (db m') = packageState d))
     (\<lambda>e. settled d) (\<lambda>m'. settled d m' \<or> db_ok (db m') \<and> granted env req d (db m')) m"
proof -
  let ?G = "\<lambda>d'. db_ok d' \<and> granted env req d d'"
  let ?steps = "[(''recording the journal failed'', writeClaimJournal n (cr_Role req) w),
             (''staging claim links failed'', materializeClaims w),
             (''applying claim changes failed'', commitOps (cw_fileOps w))]"
  have "stable (settled d) (materializeClaims w)" "stable (settled d) (commitOps (cw_fileOps w))"
    by (intro db_rules)+
  then have keep: "stable (settled d) a" if "a \<in> snd ` set ?steps" for a
    using that keeps_writeClaimJournal by auto
  have run: "wp (claimSteps env n w (?steps @ [(''committing the claim failed'', commitClaim req n w)]))
     (\<lambda>err m'. if err = None then ?G (db m') else settled d m') (\<lambda>e. settled d) (settled d) m"
    by (rule claimSteps_run [OF keep commitClaim_run [OF _ ready post req] m])
  have fin: "wp (discardBackups (cw_fileOps w)) (\<lambda>left m'. ?G (db m')) (\<lambda>e m'. False) (\<lambda>m'. ?G (db m')) m'"
    if "?G (db m')" for m'
    using stableD [OF db_discardBackups [where Q = ?G], OF that, of "cw_fileOps w"] infallible_discardBackups [of "cw_fileOps w"]
    by (auto simp: wp_def infallible_def split: prod.splits outcome.splits)
  show ?thesis
    unfolding applyClaim_def wp_bnd
  proof (rule wp_mono [OF run [unfolded append.simps]], goal_cases)
    case (1 err m')
    then show ?case
      by (cases err) (auto simp: wp_bnd intro!: wp_mono [OF fin])
  qed auto
qed

subsection \<open>The command\<close>

lemma keeps_closeUnplanned: "stable (settled d) (closeUnplanned n reason e)"
  unfolding closeUnplanned_def
  by (intro keeps_both stable_rules schema.keeps_statements package_tables.keeps_statements)

lemma gives_closeUnplanned: "gives P (\<lambda>r. snd r \<noteq> None) (closeUnplanned n reason e)"
  by (auto simp: gives_def closeUnplanned_def bnd_def ret_def split: prod.splits outcome.splits)

lemma closeUnplanned_run:
  assumes "settled d m"
  shows "wp (closeUnplanned n reason e) (\<lambda>r m'. settled d m' \<and> snd r \<noteq> None) (\<lambda>e. settled d) (settled d) m"
  using stable_wp [where Q = "\<lambda>d'. db_ok d' \<and> packageState d' = packageState d", OF keeps_closeUnplanned assms gives_closeUnplanned] .

lemma claimTxn_run:
  assumes m: "settled d m"
    and req: "requestedHolders (storedInstalled env d) (holderMap (ClaimHolders d)) req = Inr post"
  shows "wp (claimTxn env req (storedInstalled env d) (holderMap (ClaimHolders d)) post n)
     (\<lambda>r m'. db_ok (db m') \<and> (if snd r = None then granted env req d (db m') else packageState (db m') = packageState d))
     (\<lambda>e. settled d) (\<lambda>m'. settled d m' \<or> db_ok (db m') \<and> granted env req d (db m')) m"
proof -
  let ?Q = "\<lambda>r d'. db_ok d' \<and> (if snd r = None then granted env req d d' else packageState d' = packageState d)"
  let ?C = "\<lambda>d'. (db_ok d' \<and> packageState d' = packageState d) \<or> db_ok d' \<and> granted env req d d'"
  let ?F = "\<lambda>e :: failure. \<lambda>d'. db_ok d' \<and> packageState d' = packageState d"
  have pins: "wp newPinnedDirs (\<lambda>u. settled d) (\<lambda>e. settled d) (settled d) m"
    by (rule stableD [OF db_newPinnedDirs [where Q = "\<lambda>d'. db_ok d' \<and> packageState d' = packageState d"] m])
  have close: "wp (closeUnplanned n reason e) (\<lambda>r m'. ?Q r (db m')) (\<lambda>e m'. ?F e (db m')) (\<lambda>m'. ?C (db m')) m'"
    if "settled d m'" for reason e m'
    by (rule wp_mono [OF closeUnplanned_run [OF that]]) auto
  have M: "fold_res (applyManifest []) [] (storedManifests env (ListPackages d)) = Inr (storedManifests env (ListPackages d))"
    by simp
  have plan: "wp (reconcileClaims env [] [] (storedInstalled env d) (holderMap (ClaimHolders d)) post n [])
      (\<lambda>w m'. settled d m' \<and> claimsReady env [] [] d w \<and> cw_setHolders w = post) (\<lambda>e. settled d) (settled d) m'"
    if "settled d m'" for m'
  proof -
    let ?S = "\<lambda>d'. db_ok d' \<and> packageState d' = packageState d"
    have keep: "stable (\<lambda>m. ?S (db m)) (reconcileClaims env [] [] installed current post n [])" for installed current
      unfolding reconcileClaims_def postTransactionOwnership_def stageClaimLink_def removeClaimLink_def
        newLinkPolicy_def Let_def
      by (intro db_rules stable_rules blind_db)
    show ?thesis
      unfolding storedInstalled_def
      using stable_wp [where Q = ?S, OF keep that gives_weaken [OF gives_reconcileClaims [OF refl M refl]]] .
  qed
  have inner: "wp (bnd (attempt (reconcileClaims env [] [] (storedInstalled env d) (holderMap (ClaimHolders d)) post n [])) (\<lambda>q.
               case q of
                 Inl e \<Rightarrow> closeUnplanned n ''planning the claim failed'' e
               | Inr w \<Rightarrow> applyClaim env req n w)) (\<lambda>r m'. ?Q r (db m')) (\<lambda>e m'. ?F e (db m')) (\<lambda>m'. ?C (db m')) m'"
    if "settled d m'" for m'
    unfolding wp_bnd wp_attempt
  proof (rule wp_mono [OF plan [OF that]], goal_cases)
    case (1 w m')
    then have "settled d m'" "claimsReady env [] [] d w" "cw_setHolders w = post" by simp_all
    from applyClaim_run [OF this req] show ?case by (simp only: sum.case)
  next
    case (2 e m')
    then show ?case using close by simp
  qed auto
  have "wp (claimTxn env req (storedInstalled env d) (holderMap (ClaimHolders d)) post n)
     (\<lambda>r m'. ?Q r (db m')) (\<lambda>e m'. ?F e (db m')) (\<lambda>m'. ?C (db m')) m"
    unfolding claimTxn_def wp_bnd wp_attempt
  proof (rule wp_mono [OF pins], goal_cases)
    case (1 u m')
    from closing_wp [OF inner [OF 1]] show ?case by (simp only: sum.case)
  next
    case (2 e m')
    then show ?case using close by simp
  qed auto
  then show ?thesis by simp
qed

lemma Claim_run:
  assumes "db_ok (db m)"
  shows "wp (Claim env req)
     (\<lambda>r m'. db_ok (db m') \<and>
        (if snd r = None then granted env req (db m) (db m') else packageState (db m') = packageState (db m)))
     (\<lambda>e. settled (db m)) (\<lambda>m'. settled (db m) m' \<or> db_ok (db m') \<and> granted env req (db m) (db m')) m"
proof -
  let ?d = "db m"
  let ?S = "\<lambda>d'. db_ok d' \<and> packageState d' = packageState ?d"
  let ?Q = "\<lambda>r d'. db_ok d' \<and> (if snd r = None then granted env req ?d d' else packageState d' = packageState ?d)"
  let ?C = "\<lambda>d'. ?S d' \<or> db_ok d' \<and> granted env req ?d d'"
  have begin_txn: "wp (execGet (BeginCrossRootTxn v s x)) (\<lambda>n. settled ?d) (\<lambda>e. settled ?d) (settled ?d) m'"
    if "settled ?d m'" for v s x m'
    by (rule stableD [OF keeps_both [OF schema.keeps_begin package_tables.keeps_begin] that])
  have read: "wp (query f) (\<lambda>y m'. settled ?d m' \<and> y = f ?d) (\<lambda>e. settled ?d) (settled ?d) m'"
    if "settled ?d m'" and "\<And>d'. packageState d' = packageState ?d \<Longrightarrow> f d' = f ?d"
    for f :: "database \<Rightarrow> 'x" and m'
  proof -
    have "gives (\<lambda>m. ?S (db m)) (\<lambda>y. y = f ?d) (query f)"
      by (rule gives_query) (use that(2) in blast)
    from stable_wp [where Q = ?S, OF stable_query [OF blind_db] that(1) this] show ?thesis .
  qed
  have rest: "wp (bnd (liftRes (requestedHolders (storedInstalled env ?d) (holderMap (ClaimHolders ?d)) req)) (\<lambda>post.
       bnd (execGet (BeginCrossRootTxn (e_PeipkgVersion env) journalSchemaVersion [])) (\<lambda>txnID.
         claimTxn env req (storedInstalled env ?d) (holderMap (ClaimHolders ?d)) post txnID)))
     (\<lambda>r m'. ?Q r (db m')) (\<lambda>e m'. ?S (db m')) (\<lambda>m'. ?C (db m')) m'" if "settled ?d m'" for m'
  proof (cases "requestedHolders (storedInstalled env ?d) (holderMap (ClaimHolders ?d)) req")
    case (Inl e)
    with that show ?thesis by (simp add: liftRes_def wp_bnd)
  next
    case (Inr post)
    have "wp (bnd (execGet (BeginCrossRootTxn (e_PeipkgVersion env) journalSchemaVersion [])) (\<lambda>txnID.
         claimTxn env req (storedInstalled env ?d) (holderMap (ClaimHolders ?d)) post txnID))
       (\<lambda>r m'. ?Q r (db m')) (\<lambda>e m'. ?S (db m')) (\<lambda>m'. ?C (db m')) m'"
      unfolding wp_bnd
    proof (rule wp_mono [OF begin_txn [OF that]], goal_cases)
      case (1 n m')
      from claimTxn_run [OF 1 Inr] show ?case .
    qed auto
    with Inr show ?thesis by (simp add: liftRes_def wp_bnd)
  qed
  have "wp (Claim env req) (\<lambda>r m'. ?Q r (db m')) (\<lambda>e m'. ?S (db m')) (\<lambda>m'. ?C (db m')) m"
    unfolding Claim_def
  proof (rule withLock_wp)
    fix m0 :: machine assume "db m0 = db m"
    then have m0: "settled ?d m0" using assms by simp
    have rec: "wp (recoverPending env) (\<lambda>u. settled ?d) (\<lambda>e. settled ?d) (settled ?d) m0"
      by (rule stableD [OF keeps_both [OF schema.keeps_recoverPending package_tables.keeps_recoverPending] m0])
    have installed: "wp (postInstalledManifests env [] [])
        (\<lambda>installed m'. settled ?d m' \<and> installed = storedInstalled env ?d) (\<lambda>e. settled ?d) (settled ?d) m'"
      if "settled ?d m'" for m'
      unfolding postInstalledManifests_def wp_bnd
      by (rule wp_mono [OF read [OF that package_queries(1)]])
         (auto simp: liftRes_def wp_bnd storedInstalled_def installedOf_def)
    show "wp (bnd (recoverPending env) (\<lambda>_.
       bnd (postInstalledManifests env [] []) (\<lambda>installed.
       bnd (query ClaimHolders) (\<lambda>holders.
       bnd (liftRes (requestedHolders installed (holderMap holders) req)) (\<lambda>post.
       bnd (execGet (BeginCrossRootTxn (e_PeipkgVersion env) journalSchemaVersion [])) (\<lambda>txnID.
         claimTxn env req installed (holderMap holders) post txnID))))))
       (\<lambda>r m'. ?Q r (db m')) (\<lambda>e m'. ?S (db m')) (\<lambda>m'. ?C (db m')) m0"
      unfolding wp_bnd [where a = "recoverPending env"] wp_bnd [where a = "postInstalledManifests env [] []"]
        wp_bnd [where a = "query ClaimHolders"]
    proof (rule wp_mono [OF rec], goal_cases)
      case (1 u m1)
      show ?case
      proof (rule wp_mono [OF installed [OF 1]], goal_cases)
        case (1 inst m2)
        then have m2: "settled ?d m2" "inst = storedInstalled env ?d" by auto
        show ?case
          unfolding m2(2)
        proof (rule wp_mono [OF read [OF m2(1) package_queries(2)]], goal_cases)
          case (2 holders m3)
          then show ?case using rest by (elim conjE) (simp only:)
        qed auto
      qed auto
    qed auto
  qed (use assms in auto)
  then show ?thesis by simp
qed

text \<open>The links after a grant are those of the specification again.\<close>

lemma granted_linksMatch:
  assumes "granted env req d d'" and "db_ok d" and "db_ok d'"
  shows "linksMatch env d'"
proof -
  from assms(1) obtain post desired where
    desired: "Desired (storedInstalled env d) post = Inr desired" and
    d': "catalogueOf d' = catalogueOf d" "holderOf d' = map_get post" "t_claim_link d' = map linkRow desired"
    unfolding granted_def by blast
  have "map_get (storedManifests env (ListPackages d')) = map_get (storedManifests env (ListPackages d))"
    by (simp add: storedManifests_decoded [OF assms(2)] storedManifests_decoded [OF assms(3)] d'(1))
  then have inst: "storedInstalled env d' = storedInstalled env d"
    unfolding storedInstalled_def installedOf_def by (metis map_get_entries_eq)
  from desired_linksMatch [OF desired [folded inst] d'(2,3) assms(3)] show ?thesis .
qed

text \<open>In terms of the recorded holders: one entry changes, to a package that may hold the role.\<close>

definition claimEffect :: "Env \<Rightarrow> ClaimRequest \<Rightarrow> database \<Rightarrow> database \<Rightarrow> bool" where
  "claimEffect env req d d' \<longleftrightarrow>
     catalogueOf d' = catalogueOf d \<and>
     holderOf d' = (holderOf d)(cr_Role req := if cr_Holder req = [] then None else Some (cr_Holder req)) \<and>
     (if cr_Holder req = [] then holderOf d (cr_Role req) \<noteq> None
      else \<exists>p\<in>set (storedInstalled env d). ci_Name p = cr_Holder req \<and> EligibleProvider (ci_Manifest p) (cr_Role req)) \<and>
     linksMatch env d'"

lemma granted_effect:
  assumes "granted env req d d'" and "db_ok d" and "db_ok d'"
  shows "claimEffect env req d d'"
proof -
  from assms(1) obtain post where
    req: "requestedHolders (storedInstalled env d) (holderMap (ClaimHolders d)) req = Inr post" and
    d': "catalogueOf d' = catalogueOf d" "holderOf d' = map_get post"
    unfolding granted_def by blast
  have "cr_Holder req = [] \<Longrightarrow> holderOf d (cr_Role req) \<noteq> None"
    using req by (auto simp: requestedHolders_def holderMap_get [OF assms(2)] split: if_splits)
  with requested_holder [OF req] granted_linksMatch [OF assms] d' show ?thesis
    by (simp add: claimEffect_def holderMap_get [OF assms(2)])
qed

lemma Claim_outcome:
  assumes "db_ok (db m)" and "Claim env req m = (r, m')"
  shows "db_ok (db m') \<and>
    (case r of
       outcome.Done (res, err) \<Rightarrow>
         if err = None then claimEffect env req (db m) (db m') else packageState (db m') = packageState (db m)
     | Failed e \<Rightarrow> packageState (db m') = packageState (db m)
     | Crashed \<Rightarrow> packageState (db m') = packageState (db m) \<or> claimEffect env req (db m) (db m'))"
  using Claim_run [OF assms(1), of env req] granted_effect [of env req "db m" "db m'"] assms
  by (auto simp: wp_def split: outcome.splits if_splits)

lemma claim_keeps_links:
  assumes "db_ok (db m)" and "linksMatch env (db m)"
  shows "db_ok (db (snd (Claim env req m)))" and "linksMatch env (db (snd (Claim env req m)))"
proof -
  obtain r m' where r: "Claim env req m = (r, m')" by force
  note out = Claim_outcome [OF assms(1) r]
  then show "db_ok (db (snd (Claim env req m)))" by (simp add: r)
  from out consider "packageState (db m') = packageState (db m)" | "claimEffect env req (db m) (db m')"
    by (auto split: outcome.splits prod.splits if_splits)
  then show "linksMatch env (db (snd (Claim env req m)))"
    using linksMatch_tables [of "db m'" "db m" env] assms(2) by cases (auto simp: r claimEffect_def)
qed

end
