(* ===== verification/Lifetime.thy ===== *)
theory Lifetime
  imports InstallExamples ClaimFacts
begin

section \<open>The life of a machine\<close>

text \<open>
  The runs of the installer on one machine, one after the other: each is a new process with a
  schedule of faults of its own, so it may fail or be killed anywhere; between two runs anything
  may change the file tree. What holds of the database after every such history is shown by
  induction over it.
\<close>

text \<open>
  All runs read stored manifests with the same decoder, and the text a package's manifest is
  stored as decodes to it.
\<close>

inductive machine_step :: "(string \<Rightarrow> Manifest option) \<Rightarrow> machine \<Rightarrow> machine \<Rightarrow> bool"
  for decoder where
  executes: "machine_step decoder m (snd (Execute env ops (boot fs ss m)))"
    if "e_DecodeManifest env = decoder" and "manifestsDecode env ops"
| claims: "machine_step decoder m (snd (Claim env req (boot fs ss m)))"
    if "e_DecodeManifest env = decoder"
| recovers: "machine_step decoder m (snd (Recover env (boot fs ss m)))"
    if "e_DecodeManifest env = decoder"
| edited: "machine_step decoder m (m\<lparr>tree := t\<rparr>)"

definition machine_run :: "(string \<Rightarrow> Manifest option) \<Rightarrow> machine \<Rightarrow> machine \<Rightarrow> bool" where
  "machine_run decoder = (machine_step decoder)\<^sup>*\<^sup>*"

inductive_cases machine_stepE: "machine_step decoder m m'"

definition linksCurrent :: "(string \<Rightarrow> Manifest option) \<Rightarrow> database \<Rightarrow> bool" where
  "linksCurrent decoder d \<longleftrightarrow>
     set (toClaimsLinks (ClaimLinks d)) =
       claimLinks (installedOf (foldl (\<lambda>manifests p. case decoder (dp_Manifest p) of
                         None \<Rightarrow> manifests | Some m \<Rightarrow> map_put manifests (dp_Name p) m) [] (ListPackages d)))
         (holderMap (ClaimHolders d))"

lemma linksCurrent_env: "linksCurrent (e_DecodeManifest env) d = linksMatch env d"
  by (simp add: linksCurrent_def linksMatch_def storedInstalled_def storedManifests_def)

lemma recover_state:
  assumes "db_ok (db m)"
  shows "db_ok (db (snd (Recover env m)))" and "packageState (db (snd (Recover env m))) = packageState (db m)"
proof -
  have "stable (\<lambda>m. db_ok (db m)) (Recover env)"
    and "stable (\<lambda>m'. packageState (db m') = packageState (db m)) (Recover env)"
    by (rule schema.keeps_Recover package_tables.keeps_Recover)+
  then show "db_ok (db (snd (Recover env m)))" "packageState (db (snd (Recover env m))) = packageState (db m)"
    using assms by (simp_all add: stable_def)
qed

lemma step_keeps:
  assumes "machine_step decoder m m'" and "db_ok (db m) \<and> linksCurrent decoder (db m)"
  shows "db_ok (db m') \<and> linksCurrent decoder (db m')"
  using assms(1)
proof (rule machine_stepE)
  fix env ops fs ss
  assume m': "m' = snd (Execute env ops (boot fs ss m))"
    and decoder: "e_DecodeManifest env = decoder" and "manifestsDecode env ops"
  then have "linksMatch env (db m')"
    using assms(2) execute_keeps_links [of "boot fs ss m" env ops] linksCurrent_env [of env] by simp
  moreover have "db_ok (db m')"
    using Execute_outcome(2) [of "boot fs ss m" env ops "fst (Execute env ops (boot fs ss m))" m'] assms(2)
    by (simp add: m')
  ultimately show ?thesis by (simp add: linksCurrent_env flip: decoder)
next
  fix env req fs ss
  assume m': "m' = snd (Claim env req (boot fs ss m))" and decoder: "e_DecodeManifest env = decoder"
  have ok: "db_ok (db (boot fs ss m))" using assms(2) by simp
  from claim_keeps_links [OF ok, of env req] assms(2)
  show ?thesis by (simp add: m' linksCurrent_env flip: decoder)
next
  fix env fs ss
  assume m': "m' = snd (Recover env (boot fs ss m))" and decoder: "e_DecodeManifest env = decoder"
  note state = recover_state [of "boot fs ss m" env]
  have "linksMatch env (db m')"
    unfolding m' using assms(2) linksMatch_tables [OF state(2), of env] linksCurrent_env [of env]
    by (simp add: decoder)
  with state(1) assms(2) show ?thesis by (simp add: m' linksCurrent_env flip: decoder)
qed (use assms(2) in simp)

lemma run_keeps:
  assumes "machine_run decoder m m'" and "db_ok (db m) \<and> linksCurrent decoder (db m)"
  shows "db_ok (db m') \<and> linksCurrent decoder (db m')"
  using assms(1) unfolding machine_run_def
  by (induction rule: rtranclp_induct) (use assms(2) step_keeps in blast)+

text \<open>A new machine.\<close>

lemma fresh_database: "db_ok instDatabase \<and> linksCurrent decoder instDatabase"
  by (simp add: db_ok_def packages_ok_def claims_ok_def txns_ok_def journal_ok_def instDatabase_def
      linksCurrent_def ClaimLinks_def ListPackages_def ClaimHolders_def toClaimsLinks_def installedOf_def
      claimLinks_def holderMap_def map_put_all_def map_get_def)

lemma run_from_fresh:
  assumes "machine_run decoder m m'" and "db m = instDatabase"
  shows "db_ok (db m')" and "linksCurrent decoder (db m')"
  using run_keeps [OF assms(1)] fresh_database assms(2) by simp_all

end
