(* ===== verification/CrossRoot.thy ===== *)
theory CrossRoot
  imports Execute
begin

section \<open>One transaction over several roots\<close>

text \<open>
  \<open>ExecuteCrossRoot\<close> and \<open>RecoverCrossRoot\<close> of \<open>internal/install/execute.go\<close>: a commit in two
  phases over the roots of a plan, and what is done about one that was interrupted. Each root
  is a machine of its own, with its tree, its database and its lock, and the roots do not lie
  in each other. The faults of a root are those of the calls made in it; a crash ends the
  process in all of them.
\<close>

type_synonym system = "machine gomap"
type_synonym envs = "Env gomap"
type_synonym 'a sysact = "system \<Rightarrow> 'a outcome \<times> system"

definition sret :: "'a \<Rightarrow> 'a sysact" where
  "sret x s = (Done x, s)"

definition sraise :: "failure \<Rightarrow> 'a sysact" where
  "sraise e s = (Failed e, s)"

definition sbnd :: "'a sysact \<Rightarrow> ('a \<Rightarrow> 'b sysact) \<Rightarrow> 'b sysact" where
  "sbnd a f s =
     (case a s of
        (Done x, s') \<Rightarrow> f x s'
      | (Failed e, s') \<Rightarrow> (Failed e, s')
      | (Crashed, s') \<Rightarrow> (Crashed, s'))"

fun seach :: "('a \<Rightarrow> unit sysact) \<Rightarrow> 'a list \<Rightarrow> unit sysact" where
  "seach f [] = sret ()"
| "seach f (x # xs) = sbnd (f x) (\<lambda>_. seach f xs)"

fun sfold :: "('a \<Rightarrow> 's \<Rightarrow> 's sysact) \<Rightarrow> 'a list \<Rightarrow> 's \<Rightarrow> 's sysact" where
  "sfold f [] st = sret st"
| "sfold f (x # xs) st = sbnd (f x st) (\<lambda>st'. sfold f xs st')"

text \<open>A call in one root, with the environment of the root.\<close>

definition inRoot :: "envs \<Rightarrow> string \<Rightarrow> (Env \<Rightarrow> 'a act) \<Rightarrow> 'a sysact" where
  "inRoot envs r f s =
     (case (map_get envs r, map_get s r) of
        (Some env, Some m) \<Rightarrow> (let (x, m') = f env m in (x, map_put s r m'))
      | _ \<Rightarrow> (Failed (Refused ''no environment'' [r]), s))"

definition releaseRoot :: "string \<Rightarrow> system \<Rightarrow> system" where
  "releaseRoot r s = (case map_get s r of None \<Rightarrow> s | Some m \<Rightarrow> map_put s r (Release m))"

text \<open>
  The locks are taken in the order of the roots and released in reverse, those that were taken
  also when a later one is not to be had; a crash releases them too.
\<close>

fun withLocks :: "envs \<Rightarrow> string list \<Rightarrow> 'a sysact \<Rightarrow> 'a sysact" where
  "withLocks envs [] body = body"
| "withLocks envs (r # rs) body =
     sbnd (inRoot envs r (\<lambda>env. Acquire))
       (\<lambda>_ s. let (x, s') = withLocks envs rs body s in (x, releaseRoot r s'))"

subsection \<open>Executing\<close>

definition byRoot :: "Operation list \<Rightarrow> string \<Rightarrow> Operation list" where
  "byRoot ops r = filter (\<lambda>op. op_Root op = r) ops"

definition planRoots :: "Operation list \<Rightarrow> string list" where
  "planRoots ops = sort (remdups (map op_Root ops))"

definition provideRoots ::
    "envs \<Rightarrow> Operation list \<Rightarrow> string list \<Rightarrow> ProvidedPackage gomap gomap sysact" where
  "provideRoots envs ops roots =
     sfold (\<lambda>r provided. sbnd (inRoot envs r (\<lambda>env. provideAll env (byRoot ops r))) (\<lambda>pv.
       sret (map_put provided r pv))) roots []"

text \<open>
  Undoing the roots that are prepared, the last one first; an error of that joins the one that
  set it off.
\<close>

fun unwind :: "envs \<Rightarrow> (string \<times> preparedTxn) list \<Rightarrow> failure \<Rightarrow> failure sysact" where
  "unwind envs [] e = sret e"
| "unwind envs ((r, p) # votes) e =
     sbnd (inRoot envs r (\<lambda>env. joining e (rollbackPrepared env p))) (\<lambda>e'. unwind envs votes e')"

definition vote ::
    "envs \<Rightarrow> Operation list \<Rightarrow> string \<Rightarrow> ProvidedPackage gomap gomap \<Rightarrow> string \<Rightarrow>
     (preparedTxn \<times> failure option) sysact" where
  "vote envs ops crossRootID provided r =
     inRoot envs r (\<lambda>env. prepareTxn env (byRoot ops r) crossRootID (map_get provided r))"

fun prepareRoots ::
    "envs \<Rightarrow> Operation list \<Rightarrow> string \<Rightarrow> ProvidedPackage gomap gomap \<Rightarrow> string list \<Rightarrow>
     (string \<times> preparedTxn) list \<Rightarrow> (string \<times> preparedTxn) list sysact" where
  "prepareRoots envs ops crossRootID provided [] votes = sret votes"
| "prepareRoots envs ops crossRootID provided (r # rs) votes =
     sbnd (vote envs ops crossRootID provided r) (\<lambda>(p, err).
       case err of
         Some e \<Rightarrow> sbnd (unwind envs (rev votes) e) sraise
       | None \<Rightarrow> prepareRoots envs ops crossRootID provided rs (votes @ [(r, p)]))"

text \<open>Every root is committed, also after one has failed; the first error is reported.\<close>

fun commitRoots ::
    "envs \<Rightarrow> (string \<times> preparedTxn) list \<Rightarrow> Result gomap \<times> failure option \<Rightarrow>
     (Result gomap \<times> failure option) sysact" where
  "commitRoots envs [] (results, firstErr) = sret (results, firstErr)"
| "commitRoots envs ((r, p) # votes) (results, firstErr) =
     sbnd (inRoot envs r (\<lambda>env. commitTxn env p False)) (\<lambda>(res, err).
       commitRoots envs votes (map_put results r res, if firstErr = None then err else firstErr))"

definition ExecuteCrossRoot ::
    "envs \<Rightarrow> Operation list \<Rightarrow> string \<Rightarrow> (Result gomap \<times> failure option) sysact" where
  "ExecuteCrossRoot envs ops crossRootID =
     (let roots = planRoots ops in
      if list_ex (\<lambda>r. map_get envs r = None) roots then sraise (Refused ''no environment for a plan root'' [])
      else withLocks envs roots (
        sbnd (seach (\<lambda>r. inRoot envs r recoverPending) roots) (\<lambda>_.
        sbnd (provideRoots envs ops roots) (\<lambda>provided.
        sbnd (prepareRoots envs ops crossRootID provided roots []) (\<lambda>votes.
          commitRoots envs votes ([], None))))))"

subsection \<open>Recovering\<close>

text \<open>The transactions with the identifier, found before the locks are taken.\<close>

definition participantsIn :: "envs \<Rightarrow> string \<Rightarrow> string \<Rightarrow> (string \<times> nat) list \<Rightarrow> (string \<times> nat) list sysact" where
  "participantsIn envs crossRootID r parts =
     sbnd (inRoot envs r (\<lambda>env. query (TxnsByCrossRootID crossRootID))) (\<lambda>txns.
       sret (parts @ map (\<lambda>t. (r, tx_ID t)) txns))"

definition participants :: "envs \<Rightarrow> string \<Rightarrow> (string \<times> nat) list sysact" where
  "participants envs crossRootID = sfold (participantsIn envs crossRootID) (map_keys envs) []"

text \<open>Their state once the locks are held: the committed ones and the pending ones.\<close>

type_synonym standing = "(string \<times> Txn) list \<times> (string \<times> Txn) list"

definition reread :: "envs \<Rightarrow> string \<times> nat \<Rightarrow> standing \<Rightarrow> standing sysact" where
  "reread envs = (\<lambda>(r, n) (committed, pending).
     sbnd (inRoot envs r (\<lambda>env. query (GetTxn n))) (\<lambda>found.
       sret (case found of
               None \<Rightarrow> (committed, pending)
             | Some t \<Rightarrow>
                 (case tx_State t of
                    TxnCommitted \<Rightarrow> (committed @ [(r, t)], pending)
                  | TxnPending \<Rightarrow> (committed, pending @ [(r, t)])
                  | TxnRolledBack \<Rightarrow> (committed, pending)))))"

definition forwardOne :: "envs \<Rightarrow> string \<Rightarrow> string \<times> Txn \<Rightarrow> unit sysact" where
  "forwardOne envs crossRootID = (\<lambda>(r, t).
     inRoot envs r (\<lambda>env.
       bnd (query (CommitPayload (tx_ID t))) (\<lambda>payload.
       case payload of
         None \<Rightarrow> raise (Refused ''no commit payload'' [crossRootID, r])
       | Some raw \<Rightarrow> bnd (liftRes (unmarshalCommitPayload raw)) (\<lambda>cp. rollForwardTxn env t cp))))"

definition backOne :: "envs \<Rightarrow> string \<times> Txn \<Rightarrow> unit sysact" where
  "backOne envs = (\<lambda>(r, t).
     inRoot envs r (\<lambda>env. rollbackTxn env t
       ''rolled back: interrupted cross-root transaction, no root committed''))"

definition decide :: "envs \<Rightarrow> string \<Rightarrow> standing \<Rightarrow> bool sysact" where
  "decide envs crossRootID = (\<lambda>(committed, pending).
     sbnd (seach (if committed \<noteq> [] then forwardOne envs crossRootID else backOne envs) pending) (\<lambda>_.
       sret (pending \<noteq> [])))"

definition RecoverCrossRoot :: "envs \<Rightarrow> string \<Rightarrow> bool sysact" where
  "RecoverCrossRoot envs crossRootID =
     sbnd (participants envs crossRootID) (\<lambda>parts.
       if parts = [] then sraise (Refused ''no cross-root transaction'' [crossRootID])
       else withLocks envs (map fst parts) (
         sbnd (sfold (reread envs) parts ([], [])) (decide envs crossRootID)))"

end
