(* ===== verification/CrossRootFacts.thy ===== *)
theory CrossRootFacts
  imports CrossRoot Planned
begin

section \<open>All roots or none\<close>

text \<open>
  What a transaction over several roots leaves in their databases, whatever fails and wherever
  the process is killed, and what recovering it makes of that: in the end the packages of
  every root of the plan are changed, or those of none.
\<close>

subsection \<open>Actions on a system of roots\<close>

definition swp ::
  "'a sysact \<Rightarrow> ('a \<Rightarrow> system \<Rightarrow> bool) \<Rightarrow> (failure \<Rightarrow> system \<Rightarrow> bool) \<Rightarrow> (system \<Rightarrow> bool) \<Rightarrow>
   system \<Rightarrow> bool" where
  "swp a Q F C s =
     (case a s of (outcome.Done x, s') \<Rightarrow> Q x s' | (Failed e, s') \<Rightarrow> F e s' | (Crashed, s') \<Rightarrow> C s')"

lemma swp_sret [simp]: "swp (sret x) Q F C s = Q x s"
  by (simp add: swp_def sret_def)

lemma swp_sraise [simp]: "swp (sraise e) Q F C s = F e s"
  by (simp add: swp_def sraise_def)

lemma swp_sbnd: "swp (sbnd a f) Q F C s = swp a (\<lambda>x. swp (f x) Q F C) F C s"
  by (simp add: swp_def sbnd_def split: prod.splits outcome.splits)

lemma swp_mono:
  assumes "swp a Q F C s"
    and "\<And>x s'. Q x s' \<Longrightarrow> Q' x s'" and "\<And>e s'. F e s' \<Longrightarrow> F' e s'" and "\<And>s'. C s' \<Longrightarrow> C' s'"
  shows "swp a Q' F' C' s"
  using assms by (auto simp: swp_def split: prod.splits outcome.splits)

lemma swp_seach:
  assumes "I s" and "\<And>x s. x \<in> set xs \<Longrightarrow> I s \<Longrightarrow> swp (f x) (\<lambda>u. I) (\<lambda>e. J) J s"
  shows "swp (seach f xs) (\<lambda>u. I) (\<lambda>e. J) J s"
  using assms
proof (induction xs arbitrary: s)
  case (Cons x xs)
  have "swp (f x) (\<lambda>u. I) (\<lambda>e. J) J s" using Cons.prems by simp
  then show ?case
    unfolding seach.simps swp_sbnd by (rule swp_mono) (use Cons in auto)
qed simp

lemma swp_sfold:
  assumes "I st s" and "\<And>x st s. x \<in> set xs \<Longrightarrow> I st s \<Longrightarrow> swp (f x st) I (\<lambda>e. J) J s"
  shows "swp (sfold f xs st) I (\<lambda>e. J) J s"
  using assms
proof (induction xs arbitrary: st s)
  case (Cons x xs)
  have "swp (f x st) I (\<lambda>e. J) J s" using Cons.prems by simp
  then show ?case
    unfolding sfold.simps swp_sbnd by (rule swp_mono) (use Cons in auto)
qed simp

text \<open>Properties of the databases of the roots, one by one.\<close>

definition dbs :: "system \<Rightarrow> string \<Rightarrow> database option" where
  "dbs s r = map_option db (map_get s r)"

definition holds :: "string set \<Rightarrow> (string \<Rightarrow> database \<Rightarrow> bool) \<Rightarrow> system \<Rightarrow> bool" where
  "holds R P s \<longleftrightarrow> dom (dbs s) = R \<and> (\<forall>r d. dbs s r = Some d \<longrightarrow> P r d)"

lemma holds_dbs: "dbs s = dbs s' \<Longrightarrow> holds R P s = holds R P s'"
  by (simp add: holds_def)

lemma holds_mono: "holds R P s \<Longrightarrow> (\<And>r d. r \<in> R \<Longrightarrow> P r d \<Longrightarrow> Q r d) \<Longrightarrow> holds R Q s"
  by (auto simp: holds_def)

lemma swp_inRoot:
  assumes "holds R P s" and "map_get envs r = Some env" and "r \<in> R"
    and "\<And>m. P r (db m) \<Longrightarrow>
      wp (f env) (\<lambda>x m'. X x (db m')) (\<lambda>e m'. Y e (db m')) (\<lambda>m'. Z (db m')) m"
  shows "swp (inRoot envs r f) (\<lambda>x. holds R (P(r := X x))) (\<lambda>e. holds R (P(r := Y e))) (holds R (P(r := Z))) s"
proof -
  from assms(1,3) have "r \<in> dom (dbs s)" by (simp add: holds_def)
  then obtain m where m: "map_get s r = Some m" by (auto simp: dbs_def)
  with assms(1) have "P r (db m)" by (auto simp: holds_def dbs_def)
  note run = assms(4) [OF this]
  have step: "holds R (P(r := V)) (map_put s r m')" if "V (db m')" for V m'
    using assms(1,3) that by (auto simp: holds_def dbs_def gomap.get_put dom_def split: if_splits)
  show ?thesis
    using run by (auto simp: swp_def inRoot_def wp_def m assms(2) Let_def split: prod.splits outcome.splits intro: step)
qed

lemma swp_inRoot_keeps:
  assumes "holds R P s" and "map_get envs r = Some env" and "r \<in> R"
    and "\<And>m. P r (db m) \<Longrightarrow> P r (db (snd (f env m)))"
  shows "swp (inRoot envs r f) (\<lambda>x. holds R P) (\<lambda>e. holds R P) (holds R P) s"
proof -
  have same: "P(r := P r) = P" by simp
  have "wp (f env) (\<lambda>x m'. P r (db m')) (\<lambda>e m'. P r (db m')) (\<lambda>m'. P r (db m')) m" if "P r (db m)" for m
    using assms(4) [OF that] by (simp add: wp_final)
  from swp_inRoot [where P = P and X = "\<lambda>x. P r" and Y = "\<lambda>e. P r" and Z = "P r" and f = f, OF assms(1-3) this] show ?thesis
    unfolding same .
qed

text \<open>Locks, in terms of the databases.\<close>

lemma dbs_release: "dbs (releaseRoot r s) = dbs s"
  by (auto simp: dbs_def releaseRoot_def Release_def gomap.get_put fun_eq_iff split: option.splits)

lemma dbs_Acquire:
  assumes "inRoot envs r (\<lambda>env. Acquire) s = (x, s')"
  shows "dbs s' = dbs s"
  using assms
  by (auto simp: inRoot_def Acquire_def perform_def dbs_def gomap.get_put fun_eq_iff
      split: option.splits prod.splits list.splits fault.splits sum.splits if_splits)

text \<open>A lock is not taken twice, so the body runs only when the roots are distinct.\<close>

definition lockedAt :: "string \<Rightarrow> system \<Rightarrow> bool" where
  "lockedAt r s \<longleftrightarrow> (case map_get s r of None \<Rightarrow> False | Some m \<Rightarrow> held m)"

lemma Acquire_locks:
  assumes "inRoot envs r (\<lambda>env. Acquire) s = (outcome.Done u, s')"
  shows "lockedAt r s'" and "\<not> lockedAt r s" and "lockedAt r' s \<Longrightarrow> lockedAt r' s'"
  using assms
  by (auto simp: inRoot_def Acquire_def perform_def lockedAt_def gomap.get_put
      split: option.splits prod.splits list.splits fault.splits sum.splits if_splits)

lemma swp_withLocks:
  assumes body: "\<And>s'. distinct rs \<Longrightarrow> \<forall>r\<in>set rs. \<not> lockedAt r s \<Longrightarrow> dbs s' = dbs s \<Longrightarrow> swp body Q F C s'"
    and unchanged: "\<And>e s'. dbs s' = dbs s \<Longrightarrow> F e s'" "\<And>s'. dbs s' = dbs s \<Longrightarrow> C s'"
    and closed: "\<And>y s s'. dbs s' = dbs s \<Longrightarrow> Q y s \<Longrightarrow> Q y s'" "\<And>e s s'. dbs s' = dbs s \<Longrightarrow> F e s \<Longrightarrow> F e s'"
      "\<And>s s'. dbs s' = dbs s \<Longrightarrow> C s \<Longrightarrow> C s'"
  shows "swp (withLocks envs rs body) Q F C s"
  using body unchanged
proof (induction rs arbitrary: s)
  case (Cons r rs)
  obtain x s1 where r: "inRoot envs r (\<lambda>env. Acquire) s = (x, s1)" by force
  from dbs_Acquire [OF this] have same: "dbs s1 = dbs s" .
  show ?case
  proof (cases x)
    case (Done u)
    note locks = Acquire_locks [OF r [unfolded Done]]
    have "swp (withLocks envs rs body) Q F C s1"
    proof (rule Cons.IH)
      fix s' assume d: "distinct rs" "\<forall>r\<in>set rs. \<not> lockedAt r s1" "dbs s' = dbs s1"
      with locks have "distinct (r # rs)" "\<forall>q\<in>set (r # rs). \<not> lockedAt q s" by auto
      from Cons.prems(1) [OF this] d(3) same show "swp body Q F C s'" by simp
    qed (use Cons.prems(2,3) same in simp_all)
    then show ?thesis
      using r Done closed [OF dbs_release]
      by (auto simp: swp_def sbnd_def split: prod.splits outcome.splits)
  qed (use r same Cons.prems(2,3) in \<open>auto simp: swp_def sbnd_def\<close>)
qed simp

subsection \<open>One root before the vote, after it, and at the end\<close>

definition uncommitted :: "string \<Rightarrow> database \<Rightarrow> bool" where
  "uncommitted x d \<longleftrightarrow> (\<forall>t\<in>set (t_txn d). tx_CrossRootID t = x \<longrightarrow> tx_State t \<noteq> TxnCommitted)"

interpretation uncommitted: journal_stable "uncommitted x" for x
  by unfold_locales
     (auto simp: uncommitted_def BeginCrossRootTxn_def InsertTxnOp_def InsertTxnFile_def
        InsertTxnDir_def SetCommitPayload_def FinishTxn_def Let_def split: if_splits)

definition idle :: "string \<Rightarrow> database \<Rightarrow> database \<Rightarrow> bool" where
  "idle x d0 d \<longleftrightarrow> db_ok d \<and> packageState d = packageState d0 \<and> uncommitted x d"

lemma idle_stable:
  assumes "stable (\<lambda>m. db_ok (db m)) a" and "stable (tables (packageState d0)) a"
    and "stable (\<lambda>m. uncommitted x (db m)) a"
  shows "stable (\<lambda>m. idle x d0 (db m)) a"
  using assms by (simp add: stable_def idle_def)

text \<open>The journal of a root that has voted: open, and with what the commit will write.\<close>

definition ballot :: "string \<Rightarrow> preparedTxn \<Rightarrow> database \<Rightarrow> bool" where
  "ballot x p d \<longleftrightarrow>
     (\<exists>t. PendingTxn d = Some t \<and> tx_ID t = pt_txnID p \<and> tx_CrossRootID t = x) \<and>
     CommitPayload (pt_txnID p) d = Some (buildCommitPayload (pt_staged p) (pt_claimW p))"

definition voted :: "Env \<Rightarrow> Operation list \<Rightarrow> string \<Rightarrow> preparedTxn \<Rightarrow> database \<Rightarrow> database \<Rightarrow> bool" where
  "voted env ops x p d0 d \<longleftrightarrow>
     idle x d0 d \<and> ballot x p d \<and>
     (\<exists>provided. fromProvider env ops provided \<and> readyTxn env ops provided d0 p)"

definition completed :: "Env \<Rightarrow> Operation list \<Rightarrow> string \<Rightarrow> database \<Rightarrow> database \<Rightarrow> bool" where
  "completed env ops x d0 d \<longleftrightarrow>
     db_ok d \<and> commits env ops d0 d \<and>
     (\<exists>t\<in>set (t_txn d). tx_CrossRootID t = x \<and> tx_State t = TxnCommitted)"

subsection \<open>Voting\<close>

lemma begun_pending:
  assumes "BeginCrossRootTxn v s x d = Inr (n, d')"
  shows "\<exists>t. PendingTxn d' = Some t \<and> tx_ID t = n \<and> tx_CrossRootID t = x"
proof -
  let ?txn = "\<lparr>tx_ID = n, tx_State = TxnPending, tx_OpSummary = [], tx_StartedByVersion = v,
     tx_JournalSchemaVersion = s, tx_CrossRootID = x\<rparr>"
  from assms have none: "\<forall>t\<in>set (t_txn d). tx_State t \<noteq> TxnPending" and d': "t_txn d' = t_txn d @ [?txn]"
    by (auto simp: BeginCrossRootTxn_def Let_def list_ex_iff split: if_splits)
  have "PendingTxn d' = Some ?txn"
    unfolding PendingTxn_def d' by (rule find_append_last [OF none]) simp
  then show ?thesis by auto
qed

lemma wp_any: "wp a (\<lambda>x m'. True) (\<lambda>e m'. True) (\<lambda>m'. True) m"
  by (simp add: wp_def split: prod.splits outcome.splits)

lemma runSteps_next:
  assumes "wp a (\<lambda>u m'. wp (runSteps env p rest) (\<lambda>r m'. snd r = None \<longrightarrow> G m') (\<lambda>e m'. True) (\<lambda>m'. True) m')
      (\<lambda>e m'. True) (\<lambda>m'. True) m"
  shows "wp (runSteps env p ((reason, a) # rest)) (\<lambda>r m'. snd r = None \<longrightarrow> G m') (\<lambda>e m'. True) (\<lambda>m'. True) m"
proof -
  have "wp (giveUp env p reason e) (\<lambda>r m'. snd r = None \<longrightarrow> G m') (\<lambda>e m'. True) (\<lambda>m'. True) m'" for e m'
    unfolding giveUp_def wp_bnd by (rule wp_mono [OF wp_any]) auto
  then show ?thesis
    unfolding runSteps.simps wp_bnd wp_attempt using assms by (elim wp_mono) simp_all
qed

lemma keeps_txns:
  shows "stable (\<lambda>m. t_txn (db m) = T) (writeJournal n ss)"
proof -
  have ok: "stable (\<lambda>m. t_txn (db m) = T) (exec f)" if "\<And>d d'. f d = Inr d' \<Longrightarrow> t_txn d' = t_txn d" for f
    by (rule stable_exec) (use that in auto)
  show ?thesis
    unfolding writeJournal_def
    by (intro stable_rules ok) (auto simp: InsertTxnOp_def InsertTxnFile_def InsertTxnDir_def split: if_splits)
qed

lemma putInPlace_ballot:
  assumes "PendingTxn (db m) = Some t" and "tx_ID t = pt_txnID p" and "tx_CrossRootID t = x" and "x \<noteq> []"
  shows "wp (putInPlace env x provided p) (\<lambda>r m'. snd r = None \<longrightarrow> ballot x p (db m')) (\<lambda>e m'. True) (\<lambda>m'. True) m"
proof -
  have keep: "wp a (\<lambda>u m'. ballot x p (db m')) (\<lambda>e m'. True) (\<lambda>m'. True) m'"
    if "stable (\<lambda>m. ballot x p (db m)) a" "ballot x p (db m')" for a m'
    by (rule wp_mono [OF stableD [OF that]]) auto
  have journal: "wp (writeJournal (pt_txnID p) (pt_staged p)) (\<lambda>u m'. t_txn (db m') = t_txn (db m))
      (\<lambda>e m'. True) (\<lambda>m'. True) m"
    by (rule wp_mono [OF stableD [OF keeps_txns]]) auto
  have mem: "t \<in> set (t_txn (db m))" using assms(1) by (auto simp: PendingTxn_def find_Some_iff)
  have payload: "wp (exec (SetCommitPayload (pt_txnID p) (buildCommitPayload (pt_staged p) (pt_claimW p))))
      (\<lambda>u m'. ballot x p (db m')) (\<lambda>e m'. True) (\<lambda>m'. True) m'" if "t_txn (db m') = t_txn (db m)" for m'
  proof -
    have "list_ex (\<lambda>t. tx_ID t = pt_txnID p) (t_txn (db m'))"
      using mem assms(2) that by (auto simp: list_ex_iff)
    moreover have "PendingTxn d = Some t" if "t_txn d = t_txn (db m)" for d
      using assms(1) that by (simp add: PendingTxn_def)
    ultimately show ?thesis
      unfolding exec_def using assms(2,3) that
      by (intro wp_performI) (auto simp: rbind_eq_Inr SetCommitPayload_def ballot_def CommitPayload_def update_Some_unfold)
  qed
  show ?thesis
    unfolding putInPlace_def if_not_P [OF assms(4)] append_Cons append_Nil
  proof (intro runSteps_next, rule wp_mono [OF journal], goal_cases)
    case (1 u m1)
    show ?case
    proof (intro runSteps_next, rule wp_mono [OF payload [OF 1]], goal_cases)
      case (1 u m2)
      show ?case
        by (intro runSteps_next, rule wp_mono [OF keep [OF _ 1]], intro db_rules stable_rules,
            intro runSteps_next, rule wp_mono [OF keep], intro db_rules stable_rules, assumption,
            intro runSteps_next, rule wp_mono [OF keep], intro db_rules stable_rules, assumption) auto
    qed auto
  qed auto
qed

lemma wp_gives:
  assumes "wp a Q F C m" and "gives (\<lambda>m. True) R a"
  shows "wp a (\<lambda>x m'. Q x m' \<and> R x) F C m"
  using assms by (auto simp: wp_def gives_def split: prod.splits outcome.splits)

lemma prepareWith_ballot:
  assumes "x \<noteq> []" and "db_ok (db m)"
  shows "wp (prepareWith env ops x provided) (\<lambda>r m'. snd r = None \<longrightarrow> ballot x (fst r) (db m'))
     (\<lambda>e m'. True) (\<lambda>m'. True) m"
proof -
  let ?begun = "\<lambda>n d. \<exists>t. PendingTxn d = Some t \<and> tx_ID t = n \<and> tx_CrossRootID t = x"
  have open_txn: "wp (openTxn env ops x provided) (\<lambda>n m'. ?begun n (db m')) (\<lambda>e m'. True) (\<lambda>m'. True) m"
  proof -
    have "?begun n (db m')" if "openTxn env ops x provided m = (outcome.Done n, m')" for n m'
      using openTxn_begins [OF that assms(2)] begun_pending by blast
    then show ?thesis by (auto simp: wp_def split: prod.splits outcome.splits)
  qed
  have plan: "wp (planTxn env ops provided n) (\<lambda>r m'. snd r = None \<longrightarrow> db m' = db m1 \<and> pt_txnID (fst r) = n)
      (\<lambda>e m'. True) (\<lambda>m'. True) m1" for n m1
  proof -
    obtain r m' where run: "planTxn env ops provided n m1 = (r, m')" by force
    have "db m' = db m1 \<and> pt_txnID p = n" if "r = outcome.Done (p, None)" for p
      using planTxn_keeps(1,3) [of env ops provided n m1 p m'] run that by blast
    then show ?thesis by (cases r) (auto simp: wp_def run)
  qed
  show ?thesis
    unfolding prepareWith_def andThen_def wp_bnd wp_attempt
  proof (rule wp_mono [OF open_txn], goal_cases)
    case (1 n m1)
    show ?case
      unfolding sum.case wp_bnd
    proof (rule wp_mono [OF plan], goal_cases)
      case (1 r m2)
      obtain p e where r: "r = (p, e)" by force
      show ?case
      proof (cases e)
        case None
        with 1 r have m2: "db m2 = db m1" "pt_txnID p = n" by simp_all
        with \<open>?begun n (db m1)\<close> obtain t where "PendingTxn (db m2) = Some t" "tx_ID t = pt_txnID p" "tx_CrossRootID t = x"
          by auto
        note placed = wp_gives [OF putInPlace_ballot [OF this assms(1)] gives_putInPlace]
        show ?thesis
          unfolding r None prod.case option.case by (rule wp_mono [OF placed]) auto
      qed (simp add: r)
    qed auto
  qed auto
qed

lemma prepareTxn_ballot:
  assumes "x \<noteq> []" and "db_ok (db m)"
  shows "wp (prepareTxn env ops x given) (\<lambda>r m'. snd r = None \<longrightarrow> ballot x (fst r) (db m'))
     (\<lambda>e m'. True) (\<lambda>m'. True) m"
proof -
  have close: "wp (closeOnError (prepareWith env ops x pv)) (\<lambda>r m'. snd r = None \<longrightarrow> ballot x (fst r) (db m'))
     (\<lambda>e m'. True) (\<lambda>m'. True) m'" if "db_ok (db m')" for pv m'
    by (rule wp_closeOnError, rule wp_mono [OF prepareWith_ballot [OF assms(1) that]]) auto
  show ?thesis
  proof (cases given)
    case None
    have "wp (provideAll env ops) (\<lambda>pv m'. db_ok (db m')) (\<lambda>e m'. True) (\<lambda>m'. True) m"
      by (rule wp_mono [OF stableD [OF db_provideAll [where Q = db_ok] assms(2)]]) auto
    then show ?thesis
      unfolding prepareTxn_def None option.case wp_bnd wp_attempt
      by (rule wp_mono) (use close in auto)
  qed (use close [OF assms(2)] in \<open>simp add: prepareTxn_def\<close>)
qed

lemma prepareTxn_votes:
  assumes "idle x d0 (db m)" and "x \<noteq> []" and "\<And>pv. given = Some pv \<Longrightarrow> fromProvider env ops pv"
  shows "wp (prepareTxn env ops x given)
     (\<lambda>r m'. idle x d0 (db m') \<and> (snd r = None \<longrightarrow> voted env ops x (fst r) d0 (db m')))
     (\<lambda>e m'. idle x d0 (db m')) (\<lambda>m'. idle x d0 (db m')) m"
proof -
  let ?R = "\<lambda>(p, e :: failure option). e = None \<longrightarrow>
     (\<exists>provided. fromProvider env ops provided \<and> readyTxn env ops provided d0 p)"
  have ok: "db_ok (db m)" using assms(1) by (simp add: idle_def)
  have keep: "stable (\<lambda>m. idle x d0 (db m)) (prepareTxn env ops x given)"
    by (intro idle_stable schema.keeps_prepareTxn package_tables.keeps_prepareTxn uncommitted.keeps_prepareTxn)
  have "gives (\<lambda>m. idle x d0 (db m)) ?R (prepareTxn env ops x given)"
    using gives_prepareTxn [where d = d0 and given = given and xr = x, OF refl assms(3)]
    unfolding gives_def idle_def by blast
  from wp_conj [OF stable_wp [where Q = "idle x d0", OF keep assms(1) this] prepareTxn_ballot [OF assms(2) ok]]
  show ?thesis by (rule wp_mono) (auto simp: voted_def)
qed

subsection \<open>Committing, and rolling forward\<close>

lemma ballot_committed:
  assumes "ballot x p d" and "t_txn d1 = t_txn d" and "FinishTxn (pt_txnID p) TxnCommitted w d1 = Inr d'"
  shows "\<exists>t\<in>set (t_txn d'). tx_CrossRootID t = x \<and> tx_State t = TxnCommitted"
proof -
  from assms(1) obtain t where t: "PendingTxn d = Some t" "tx_ID t = pt_txnID p" "tx_CrossRootID t = x"
    by (auto simp: ballot_def)
  have "t \<in> set (t_txn d)" "tx_State t = TxnPending"
    using t(1) by (auto simp: PendingTxn_def find_Some_iff)
  then have "t\<lparr>tx_State := TxnCommitted, tx_OpSummary := w\<rparr> \<in> set (t_txn d')"
    using assms(2,3) t(2) by (auto simp: FinishTxn_def split: if_splits intro: rev_image_eqI)
  then show ?thesis using t(3) by (intro bexI) auto
qed

lemma commitRows_completes:
  assumes "voted env ops x p d0 (db m)"
  shows "wp (Tx (commitRows (pt_txnID p) (pt_staged p) (pt_claimW p) note))
     (\<lambda>u m'. completed env ops x d0 (db m')) (\<lambda>e m'. db m' = db m) (\<lambda>m'. db m' = db m) m"
proof -
  from assms obtain provided where p: "fromProvider env ops provided" "list_all2 (fits provided) ops (pt_staged p)"
    "claimsReady env ops provided d0 (pt_claimW p)"
    by (auto simp: voted_def readyTxn_def)
  from assms have m: "db_ok (db m)" "packageState (db m) = packageState d0" and b: "ballot x p (db m)"
    by (simp_all add: voted_def idle_def)
  have txns: "wp (Tx (commitRows (pt_txnID p) (pt_staged p) (pt_claimW p) note))
      (\<lambda>u m'. (\<exists>d1 w. t_txn d1 = t_txn (db m) \<and> FinishTxn (pt_txnID p) TxnCommitted w d1 = Inr (db m')) \<and> True)
      (\<lambda>e m'. db m' = db m) (\<lambda>m'. db m' = db m) m"
    by (rule wp_Tx [OF does_commit_txns]) (simp_all add: stable_def)
  from wp_conj [OF commitRows_run [OF m p] txns] show ?thesis
    by (rule wp_mono) (use ballot_committed [OF b] in \<open>auto simp: completed_def\<close>)
qed

lemma commitTxn_completes:
  assumes "voted env ops x p d0 (db m)"
  shows "wp (commitTxn env p False)
     (\<lambda>r m'. if snd r = None then completed env ops x d0 (db m') else voted env ops x p d0 (db m'))
     (\<lambda>e m'. False) (\<lambda>m'. voted env ops x p d0 (db m') \<or> completed env ops x d0 (db m')) m"
proof -
  let ?V = "voted env ops x p d0" and ?C = "completed env ops x d0"
  have fin: "wp (finishCommitted env p) (\<lambda>r m'. ?C (db m')) (\<lambda>e m'. False) (\<lambda>m'. ?C (db m')) m'"
    if "?C (db m')" for m'
    using stableD [OF db_finishCommitted [where Q = ?C], OF that, of env p] infallible_finishCommitted [of env p]
    by (auto simp: wp_def infallible_def split: prod.splits outcome.splits)
  have "wp (commitTxn env p False) (\<lambda>r m'. if snd r = None then ?C (db m') else ?V (db m'))
      (\<lambda>e m'. (\<lambda>e d. False) e (db m')) (\<lambda>m'. ?V (db m') \<or> ?C (db m')) m"
    unfolding commitTxn_def commitBody_rows
  proof (rule closing_wp, unfold wp_bnd wp_attempt, rule wp_mono [OF commitRows_completes [OF assms]], goal_cases)
    case (1 u m')
    show ?case by (simp add: wp_bnd, rule wp_mono [OF fin [OF 1]]) auto
  next
    case (2 e m')
    with assms show ?case by simp
  next
    case (3 m')
    with assms show ?case by simp
  qed
  then show ?thesis by simp
qed

text \<open>Recovery of one root: undone, or finished as the commit would have.\<close>

lemma rollbackTxn_idle: "stable (\<lambda>m. idle x d0 (db m)) (rollbackTxn env t reason)"
  by (intro idle_stable schema.keeps_rollbackTxn package_tables.keeps_rollbackTxn uncommitted.keeps_rollbackTxn)

lemma rollForwardTxn_completes:
  assumes "voted env ops x p d0 (db m)" and "tx_ID t = pt_txnID p"
  shows "wp (rollForwardTxn env t (buildCommitPayload (pt_staged p) (pt_claimW p)))
     (\<lambda>u m'. completed env ops x d0 (db m'))
     (\<lambda>e m'. voted env ops x p d0 (db m') \<or> completed env ops x d0 (db m'))
     (\<lambda>m'. voted env ops x p d0 (db m') \<or> completed env ops x d0 (db m')) m"
proof -
  let ?V = "voted env ops x p d0" and ?C = "completed env ops x d0"
  have rest: "stable (\<lambda>m. ?C (db m))
     (bnd (attempt (query (TxnFiles (tx_ID t)))) (\<lambda>r.
          case r of
            Inl e \<Rightarrow> ret ()
          | Inr files \<Rightarrow>
              bnd (attempt newPinnedDirs) (\<lambda>p.
                case p of
                  Inl e \<Rightarrow> ret ()
                | Inr u \<Rightarrow>
                    closing (bnd (attempt (fileOpsFromJournal (e_Root env) files)) (\<lambda>q.
                      case q of
                        Inl e \<Rightarrow> ret ()
                      | Inr ops \<Rightarrow> bnd (discardBackups ops) (\<lambda>ws. ret ()))))))"
    by (intro db_rules stable_rules blind_db)
  show ?thesis
  proof (cases "tx_JournalSchemaVersion t > journalSchemaVersion")
    case True
    then show ?thesis using assms(1) by (simp add: rollForwardTxn_def)
  next
    case False
    then have roll: "rollForwardTxn env t (buildCommitPayload (pt_staged p) (pt_claimW p)) =
       bnd (Tx (commitRows (pt_txnID p) (pt_staged p) (pt_claimW p) ''rolled forward: cross-root recovery'')) (\<lambda>_.
        bnd (attempt (query (TxnFiles (tx_ID t)))) (\<lambda>r.
          case r of
            Inl e \<Rightarrow> ret ()
          | Inr files \<Rightarrow>
              bnd (attempt newPinnedDirs) (\<lambda>p.
                case p of
                  Inl e \<Rightarrow> ret ()
                | Inr u \<Rightarrow>
                    closing (bnd (attempt (fileOpsFromJournal (e_Root env) files)) (\<lambda>q.
                      case q of
                        Inl e \<Rightarrow> ret ()
                      | Inr ops \<Rightarrow> bnd (discardBackups ops) (\<lambda>ws. ret ()))))))"
      by (simp add: rollForwardTxn_def applyCommitPayload_same commitRows_def assms(2))
    show ?thesis
      unfolding roll wp_bnd [where a = "Tx b" for b]
    proof (rule wp_mono [OF commitRows_completes [OF assms(1)]], goal_cases)
      case (1 u m')
      show ?case by (rule wp_mono [OF stableD [OF rest 1]]) auto
    qed (use assms(1) in auto)
  qed
qed

lemma forward_completes:
  assumes "voted env ops x p d0 (db m)" and "tx_ID t = pt_txnID p"
  shows "wp (bnd (query (CommitPayload (tx_ID t))) (\<lambda>payload.
       case payload of
         None \<Rightarrow> raise (Refused ''no commit payload'' [x, r])
       | Some raw \<Rightarrow> bnd (liftRes (unmarshalCommitPayload raw)) (\<lambda>cp. rollForwardTxn env t cp)))
     (\<lambda>u m'. completed env ops x d0 (db m'))
     (\<lambda>e m'. voted env ops x p d0 (db m') \<or> completed env ops x d0 (db m'))
     (\<lambda>m'. voted env ops x p d0 (db m') \<or> completed env ops x d0 (db m')) m"
proof -
  let ?V = "voted env ops x p d0"
  have payload: "CommitPayload (tx_ID t) (db m) = Some (buildCommitPayload (pt_staged p) (pt_claimW p))"
    using assms by (simp add: voted_def ballot_def)
  have read: "wp (query (CommitPayload (tx_ID t)))
      (\<lambda>c m'. db m' = db m \<and> c = Some (buildCommitPayload (pt_staged p) (pt_claimW p))) (\<lambda>e m'. db m' = db m)
      (\<lambda>m'. db m' = db m) m"
    unfolding query_def by (rule wp_performI) (auto simp: payload)
  have version: "unmarshalCommitPayload (buildCommitPayload ss w) = Inr (buildCommitPayload ss w)" for ss w
    by (simp add: unmarshalCommitPayload_def buildCommitPayload_def)
  show ?thesis
    unfolding wp_bnd [where a = "query f" for f]
  proof (rule wp_mono [OF read], goal_cases)
    case (1 c m')
    then have "?V (db m')" using assms(1) by simp
    from rollForwardTxn_completes [OF this assms(2)] 1 show ?case
      by (simp add: liftRes_def wp_bnd version)
  qed (use assms(1) in auto)
qed

end
