(* ===== verification/CrossRootRun.thy ===== *)
theory CrossRootRun
  imports CrossRootFacts
begin

section \<open>The run over all roots\<close>

text \<open>
  The states of the system a run can leave: every root of the plan as it was (\<open>calm\<close>), or every
  one voted or committed (\<open>torn\<close>); the other roots are not touched.
\<close>

definition envOf :: "envs \<Rightarrow> string \<Rightarrow> Env" where
  "envOf envs r = the (map_get envs r)"

definition before :: "system \<Rightarrow> string \<Rightarrow> database" where
  "before s0 r = the (dbs s0 r)"

definition everyRoot ::
    "Operation list \<Rightarrow> system \<Rightarrow> (string \<Rightarrow> database \<Rightarrow> bool) \<Rightarrow> system \<Rightarrow> bool" where
  "everyRoot ops s0 P =
     holds (dom (dbs s0)) (\<lambda>r d. if r \<in> set (planRoots ops) then P r d else d = before s0 r)"

definition calm :: "Operation list \<Rightarrow> string \<Rightarrow> system \<Rightarrow> system \<Rightarrow> bool" where
  "calm ops x s0 = everyRoot ops s0 (\<lambda>r. idle x (before s0 r))"

definition votedAt :: "envs \<Rightarrow> Operation list \<Rightarrow> string \<Rightarrow> system \<Rightarrow> string \<Rightarrow> preparedTxn \<Rightarrow> database \<Rightarrow> bool" where
  "votedAt envs ops x s0 r p = voted (envOf envs r) (byRoot ops r) x p (before s0 r)"

definition completedAt :: "envs \<Rightarrow> Operation list \<Rightarrow> string \<Rightarrow> system \<Rightarrow> string \<Rightarrow> database \<Rightarrow> bool" where
  "completedAt envs ops x s0 r = completed (envOf envs r) (byRoot ops r) x (before s0 r)"

definition torn :: "envs \<Rightarrow> Operation list \<Rightarrow> string \<Rightarrow> system \<Rightarrow> system \<Rightarrow> bool" where
  "torn envs ops x s0 =
     everyRoot ops s0 (\<lambda>r d. (\<exists>p. votedAt envs ops x s0 r p d) \<or> completedAt envs ops x s0 r d)"

definition whole :: "envs \<Rightarrow> Operation list \<Rightarrow> string \<Rightarrow> system \<Rightarrow> system \<Rightarrow> bool" where
  "whole envs ops x s0 = everyRoot ops s0 (completedAt envs ops x s0)"

text \<open>Where a run starts: an environment and a machine for every root, an identifier not used before.\<close>

definition fresh :: "envs \<Rightarrow> Operation list \<Rightarrow> string \<Rightarrow> system \<Rightarrow> bool" where
  "fresh envs ops x s0 \<longleftrightarrow>
     x \<noteq> [] \<and> (\<forall>r. map_get envs r \<noteq> None \<longrightarrow> map_get s0 r \<noteq> None) \<and>
     (\<forall>r d. dbs s0 r = Some d \<longrightarrow> db_ok d \<and> (\<forall>t\<in>set (t_txn d). tx_CrossRootID t \<noteq> x))"

lemma everyRoot_mono:
  "everyRoot ops s0 P s \<Longrightarrow> (\<And>r d. r \<in> set (planRoots ops) \<Longrightarrow> P r d \<Longrightarrow> Q r d) \<Longrightarrow> everyRoot ops s0 Q s"
  unfolding everyRoot_def by (erule holds_mono) auto

lemma everyRoot_dbs: "dbs s = dbs s' \<Longrightarrow> everyRoot ops s0 P s = everyRoot ops s0 P s'"
  unfolding everyRoot_def by (rule holds_dbs)

lemma everyRoot_upd:
  assumes "r \<in> set (planRoots ops)"
  shows "holds (dom (dbs s0)) ((\<lambda>r d. if r \<in> set (planRoots ops) then P r d else d = before s0 r)(r := X)) =
     everyRoot ops s0 (P(r := X))"
  unfolding everyRoot_def by (rule arg_cong2 [where f = holds]) (use assms in \<open>auto simp: fun_eq_iff\<close>)

definition placed :: "envs \<Rightarrow> Operation list \<Rightarrow> system \<Rightarrow> bool" where
  "placed envs ops s0 \<longleftrightarrow>
     (\<forall>r\<in>set (planRoots ops). map_get envs r \<noteq> None) \<and> (\<forall>r. map_get envs r \<noteq> None \<longrightarrow> map_get s0 r \<noteq> None)"

lemma swp_root:
  assumes "everyRoot ops s0 P s" and "r \<in> set (planRoots ops)" and "placed envs ops s0"
    and "\<And>m. P r (db m) \<Longrightarrow>
      wp (f (envOf envs r)) (\<lambda>y m'. X y (db m')) (\<lambda>e m'. Y e (db m')) (\<lambda>m'. Z (db m')) m"
  shows "swp (inRoot envs r f) (\<lambda>y. everyRoot ops s0 (P(r := X y))) (\<lambda>e. everyRoot ops s0 (P(r := Y e)))
     (everyRoot ops s0 (P(r := Z))) s"
proof -
  from assms(2,3) have env: "map_get envs r = Some (envOf envs r)" and m: "map_get s0 r \<noteq> None"
    by (auto simp: placed_def envOf_def)
  from m have dom: "r \<in> dom (dbs s0)" by (auto simp: dbs_def)
  have run: "wp (f (envOf envs r)) (\<lambda>y m'. X y (db m')) (\<lambda>e m'. Y e (db m')) (\<lambda>m'. Z (db m')) m"
    if "(if r \<in> set (planRoots ops) then P r (db m) else db m = before s0 r)" for m
    using that assms(2,4) by simp
  show ?thesis
    using swp_inRoot [where P = "\<lambda>r d. if r \<in> set (planRoots ops) then P r d else d = before s0 r"
        and X = X and Y = Y and Z = Z and f = f, OF assms(1) [unfolded everyRoot_def] env dom run]
    unfolding everyRoot_upd [OF assms(2)] .
qed

lemma everyRoot_at:
  assumes "everyRoot ops s0 P s" and "r \<in> set (planRoots ops)" and "placed envs ops s0"
  shows "\<exists>d. dbs s r = Some d \<and> P r d"
proof -
  from assms(2,3) have "r \<in> dom (dbs s0)" by (auto simp: placed_def dbs_def)
  with assms(1) have "r \<in> dom (dbs s)" by (simp add: everyRoot_def holds_def)
  then obtain d where d: "dbs s r = Some d" by auto
  with assms(1,2) have "P r d" by (simp add: everyRoot_def holds_def)
  with d show ?thesis by blast
qed

lemma swp_root_keeps:
  assumes "everyRoot ops s0 P s" and "r \<in> set (planRoots ops)" and "placed envs ops s0"
    and "stable (\<lambda>m. P r (db m)) (f (envOf envs r))"
  shows "swp (inRoot envs r f) (\<lambda>y. everyRoot ops s0 P) (\<lambda>e. everyRoot ops s0 P) (everyRoot ops s0 P) s"
proof -
  have "P(r := P r) = P" by simp
  with swp_root [where P = P and X = "\<lambda>y. P r" and Y = "\<lambda>e. P r" and Z = "P r" and f = f,
      OF assms(1-3) stableD [OF assms(4)]]
  show ?thesis by simp
qed

subsection \<open>Before the vote\<close>

lemma recoverPending_calm:
  assumes "calm ops x s0 s" and "r \<in> set (planRoots ops)" and "placed envs ops s0"
  shows "swp (inRoot envs r recoverPending) (\<lambda>y. calm ops x s0) (\<lambda>e. calm ops x s0) (calm ops x s0) s"
  unfolding calm_def
  by (rule swp_root_keeps [OF assms(1) [unfolded calm_def] assms(2,3)])
     (intro idle_stable schema.keeps_recoverPending package_tables.keeps_recoverPending uncommitted.keeps_recoverPending)

definition suppliedBy :: "envs \<Rightarrow> Operation list \<Rightarrow> ProvidedPackage gomap gomap \<Rightarrow> bool" where
  "suppliedBy envs ops provided \<longleftrightarrow>
     (\<forall>r pv. map_get provided r = Some pv \<longrightarrow> fromProvider (envOf envs r) (byRoot ops r) pv)"

lemma provideRoots_calm:
  assumes "calm ops x s0 s" and "placed envs ops s0"
  shows "swp (provideRoots envs ops (planRoots ops)) (\<lambda>provided s. calm ops x s0 s \<and> suppliedBy envs ops provided)
     (\<lambda>e. calm ops x s0) (calm ops x s0) s"
  unfolding provideRoots_def
proof (rule swp_sfold)
  show "calm ops x s0 s \<and> suppliedBy envs ops []" using assms by (simp add: suppliedBy_def map_get_def)
  fix r provided s
  assume r: "r \<in> set (planRoots ops)" and s: "calm ops x s0 s \<and> suppliedBy envs ops provided"
  let ?I = "idle x (before s0 r)" and ?env = "envOf envs r"
  have keep: "stable (\<lambda>m. ?I (db m)) (provideAll ?env (byRoot ops r))"
    by (rule db_provideAll)
  have run: "wp (provideAll ?env (byRoot ops r)) (\<lambda>pv m'. ?I (db m') \<and> fromProvider ?env (byRoot ops r) pv)
      (\<lambda>e m'. ?I (db m')) (\<lambda>m'. ?I (db m')) m" if "?I (db m)" for m
    by (rule stable_wp [OF keep that gives_provideAll])
  let ?P = "\<lambda>r. idle x (before s0 r)"
  have same: "?P(r := ?I) = ?P" by (simp add: fun_eq_iff)
  have "swp (inRoot envs r (\<lambda>env. provideAll env (byRoot ops r)))
      (\<lambda>pv. everyRoot ops s0 (?P(r := (\<lambda>d. ?I d \<and> fromProvider ?env (byRoot ops r) pv))))
      (\<lambda>e. everyRoot ops s0 ?P) (everyRoot ops s0 ?P) s"
    using swp_root [where P = ?P and f = "\<lambda>env. provideAll env (byRoot ops r)"
        and X = "\<lambda>pv d. ?I d \<and> fromProvider ?env (byRoot ops r) pv" and Y = "\<lambda>e. ?I" and Z = ?I,
        OF _ r assms(2) run] s
    unfolding same by (simp add: calm_def)
  then show "swp (sbnd (inRoot envs r (\<lambda>env. provideAll env (byRoot ops r))) (\<lambda>pv. sret (map_put provided r pv)))
      (\<lambda>provided s. calm ops x s0 s \<and> suppliedBy envs ops provided) (\<lambda>e. calm ops x s0) (calm ops x s0) s"
    unfolding swp_sbnd
  proof (rule swp_mono, goal_cases)
    case (1 pv s')
    from everyRoot_at [OF 1 r assms(2)] have "fromProvider ?env (byRoot ops r) pv" by auto
    moreover from 1 have "calm ops x s0 s'"
      unfolding calm_def by (rule everyRoot_mono) (auto split: if_splits)
    ultimately show ?case using s by (auto simp: suppliedBy_def gomap.get_put)
  qed (simp_all add: calm_def)
qed

subsection \<open>The vote\<close>

text \<open>The roots of \<open>votes\<close> have voted with the transaction given there, the others are as before.\<close>

definition ballots ::
    "envs \<Rightarrow> Operation list \<Rightarrow> string \<Rightarrow> system \<Rightarrow> (string \<times> preparedTxn) list \<Rightarrow> system \<Rightarrow> bool" where
  "ballots envs ops x s0 votes =
     everyRoot ops s0 (\<lambda>r. case map_of votes r of
       None \<Rightarrow> idle x (before s0 r) | Some p \<Rightarrow> votedAt envs ops x s0 r p)"

lemma votedAt_idle: "votedAt envs ops x s0 r p d \<Longrightarrow> idle x (before s0 r) d"
  by (simp add: votedAt_def voted_def)

lemma ballots_calm: "ballots envs ops x s0 votes s \<Longrightarrow> calm ops x s0 s"
  unfolding ballots_def calm_def by (erule everyRoot_mono) (auto split: option.splits dest: votedAt_idle)

lemma ballots_Nil: "ballots envs ops x s0 [] = calm ops x s0"
  by (simp add: ballots_def calm_def)

lemma unwind_calm:
  assumes "calm ops x s0 s" and "fst ` set votes \<subseteq> set (planRoots ops)" and "placed envs ops s0"
  shows "swp (unwind envs votes e) (\<lambda>e'. calm ops x s0) (\<lambda>e'. calm ops x s0) (calm ops x s0) s"
  using assms(1,2)
proof (induction votes arbitrary: s e)
  case (Cons v votes)
  obtain r p where v: "v = (r, p)" by force
  have "stable (\<lambda>m. idle x (before s0 r) (db m)) (joining e (rollbackPrepared env p))" for env
    by (intro stable_joining idle_stable schema.keeps_rollbackPrepared package_tables.keeps_rollbackPrepared
        uncommitted.keeps_rollbackPrepared)
  then have "swp (inRoot envs r (\<lambda>env. joining e (rollbackPrepared env p)))
      (\<lambda>y. calm ops x s0) (\<lambda>e. calm ops x s0) (calm ops x s0) s"
    using Cons.prems(2) v unfolding calm_def
    by (intro swp_root_keeps [OF Cons.prems(1) [unfolded calm_def] _ assms(3)]) auto
  then show ?case
    unfolding v unwind.simps swp_sbnd by (rule swp_mono) (use Cons in auto)
qed simp

lemma vote_casts:
  assumes "ballots envs ops x s0 votes s" and "r \<in> set (planRoots ops)" and "r \<notin> fst ` set votes"
    and "placed envs ops s0" and "suppliedBy envs ops provided" and "x \<noteq> []"
  shows "swp (vote envs ops x provided r)
     (\<lambda>y s. calm ops x s0 s \<and> (snd y = None \<longrightarrow> ballots envs ops x s0 (votes @ [(r, fst y)]) s))
     (\<lambda>e. calm ops x s0) (calm ops x s0) s"
proof -
  let ?P = "\<lambda>r. case map_of votes r of None \<Rightarrow> idle x (before s0 r) | Some p \<Rightarrow> votedAt envs ops x s0 r p"
  let ?I = "idle x (before s0 r)" and ?env = "envOf envs r" and ?pv = "map_get provided r"
  let ?X = "\<lambda>y d. ?I d \<and> (snd y = None \<longrightarrow> votedAt envs ops x s0 r (fst y) d)"
  have none: "map_of votes r = None" using assms(3) by (simp add: map_of_eq_None_iff)
  have pv: "fromProvider ?env (byRoot ops r) pv" if "?pv = Some pv" for pv
    using assms(5) that by (simp add: suppliedBy_def)
  have run: "wp (prepareTxn ?env (byRoot ops r) x ?pv) (\<lambda>y m'. ?X y (db m')) (\<lambda>e m'. ?I (db m')) (\<lambda>m'. ?I (db m')) m"
    if "?P r (db m)" for m
    unfolding votedAt_def by (rule prepareTxn_votes [OF _ assms(6) pv]) (use that none in simp_all)
  have "swp (vote envs ops x provided r)
      (\<lambda>y. everyRoot ops s0 (?P(r := ?X y))) (\<lambda>e. everyRoot ops s0 (?P(r := ?I))) (everyRoot ops s0 (?P(r := ?I))) s"
    unfolding vote_def
    using swp_root [where P = ?P and f = "\<lambda>env. prepareTxn env (byRoot ops r) x ?pv" and X = ?X and Y = "\<lambda>e. ?I"
        and Z = ?I, OF assms(1) [unfolded ballots_def] assms(2,4) run] .
  then show ?thesis
  proof (rule swp_mono, goal_cases)
    case (1 y s')
    have "calm ops x s0 s'"
      unfolding calm_def using 1
      by (rule everyRoot_mono) (auto split: if_splits option.splits dest: votedAt_idle)
    moreover have "ballots envs ops x s0 (votes @ [(r, fst y)]) s'" if "snd y = None"
      unfolding ballots_def using 1
      by (rule everyRoot_mono) (use that none in \<open>auto simp: map_add_def split: if_splits option.splits\<close>)
    ultimately show ?case by blast
  next
    case (2 e s')
    then show ?case
      unfolding calm_def by (rule everyRoot_mono) (auto split: if_splits option.splits dest: votedAt_idle)
  next
    case (3 s')
    then show ?case
      unfolding calm_def by (rule everyRoot_mono) (auto split: if_splits option.splits dest: votedAt_idle)
  qed
qed

lemma prepareRoots_votes:
  assumes "ballots envs ops x s0 votes s" and "distinct (map fst votes @ rs)"
    and "set (map fst votes @ rs) \<subseteq> set (planRoots ops)"
    and "placed envs ops s0" and "suppliedBy envs ops provided" and "x \<noteq> []"
  shows "swp (prepareRoots envs ops x provided rs votes)
     (\<lambda>votes' s. ballots envs ops x s0 votes' s \<and> map fst votes' = map fst votes @ rs)
     (\<lambda>e. calm ops x s0) (calm ops x s0) s"
  using assms(1-3)
proof (induction rs arbitrary: votes s)
  case (Cons r rs)
  have r: "r \<in> set (planRoots ops)" "r \<notin> fst ` set votes" using Cons.prems(2,3) by auto
  show ?case
    unfolding prepareRoots.simps swp_sbnd
  proof (rule swp_mono [OF vote_casts [OF Cons.prems(1) r assms(4-6)]], goal_cases)
    case (1 y s')
    obtain p err where y: "y = (p, err)" by force
    show ?case
    proof (cases err)
      case None
      with 1 y have "ballots envs ops x s0 (votes @ [(r, p)]) s'" by simp
      from Cons.IH [OF this] Cons.prems(2,3) None y show ?thesis by simp
    next
      case (Some e)
      have "swp (unwind envs (rev votes) e) (\<lambda>e'. calm ops x s0) (\<lambda>e'. calm ops x s0) (calm ops x s0) s'"
        by (rule unwind_calm [OF _ _ assms(4)]) (use 1 Cons.prems(3) in auto)
      then show ?thesis
        by (simp add: y Some swp_sbnd) (rule swp_mono, auto)
    qed
  qed auto
qed simp

subsection \<open>The commit\<close>

text \<open>While the roots commit: those still to come have voted, the others are complete or have failed.\<close>

definition underCommit ::
    "envs \<Rightarrow> Operation list \<Rightarrow> string \<Rightarrow> system \<Rightarrow> (string \<times> preparedTxn) list \<Rightarrow> bool \<Rightarrow> system \<Rightarrow> bool" where
  "underCommit envs ops x s0 votes failed =
     everyRoot ops s0 (\<lambda>r d. case map_of votes r of
       Some p \<Rightarrow> votedAt envs ops x s0 r p d
     | None \<Rightarrow> completedAt envs ops x s0 r d \<or> failed \<and> (\<exists>p. votedAt envs ops x s0 r p d))"

lemma underCommit_torn: "underCommit envs ops x s0 votes failed s \<Longrightarrow> torn envs ops x s0 s"
  unfolding underCommit_def torn_def by (erule everyRoot_mono) (auto split: option.splits)

lemma commitRoots_run:
  assumes "underCommit envs ops x s0 votes (err0 \<noteq> None) s" and "distinct (map fst votes)"
    and "fst ` set votes \<subseteq> set (planRoots ops)" and "placed envs ops s0"
  shows "swp (commitRoots envs votes (results, err0))
     (\<lambda>y s. torn envs ops x s0 s \<and> (snd y = None \<longrightarrow> whole envs ops x s0 s)) (\<lambda>e s. False) (torn envs ops x s0) s"
  using assms(1-3)
proof (induction votes arbitrary: s results err0)
  case Nil
  then show ?case
    using underCommit_torn [OF Nil(1)] by (auto simp: underCommit_def whole_def)
next
  case (Cons v votes)
  obtain r p where v: "v = (r, p)" by force
  from Cons.prems v have r: "r \<in> set (planRoots ops)" "r \<notin> fst ` set votes" "map_of votes r = None"
    by (auto simp: map_of_eq_None_iff)
  let ?P = "\<lambda>r d. case map_of (v # votes) r of
       Some p \<Rightarrow> votedAt envs ops x s0 r p d
     | None \<Rightarrow> completedAt envs ops x s0 r d \<or> err0 \<noteq> None \<and> (\<exists>p. votedAt envs ops x s0 r p d)"
  let ?V = "votedAt envs ops x s0 r p" and ?C = "completedAt envs ops x s0 r"
  let ?X = "\<lambda>y :: Result \<times> failure option. \<lambda>d. if snd y = None then ?C d else ?V d"
  have run: "wp (commitTxn (envOf envs r) p False) (\<lambda>y m'. ?X y (db m')) (\<lambda>e m'. (\<lambda>e d. False) e (db m'))
      (\<lambda>m'. ?V (db m') \<or> ?C (db m')) m" if "?P r (db m)" for m
    unfolding votedAt_def completedAt_def
    by (rule wp_mono [OF commitTxn_completes]) (use that v in \<open>auto simp: votedAt_def\<close>)
  have "swp (inRoot envs r (\<lambda>env. commitTxn env p False))
      (\<lambda>y. everyRoot ops s0 (?P(r := ?X y))) (\<lambda>e. everyRoot ops s0 (?P(r := (\<lambda>d. False))))
      (everyRoot ops s0 (?P(r := (\<lambda>d. ?V d \<or> ?C d)))) s"
    using swp_root [where P = ?P and f = "\<lambda>env. commitTxn env p False" and X = ?X and Y = "\<lambda>e d. False"
        and Z = "\<lambda>d. ?V d \<or> ?C d", OF Cons.prems(1) [unfolded underCommit_def] r(1) assms(4) run] .
  then show ?case
    unfolding v commitRoots.simps swp_sbnd
  proof (rule swp_mono, goal_cases)
    case (1 y s')
    obtain res err where y: "y = (res, err)" by force
    let ?err = "if err0 = None then err else err0"
    have "underCommit envs ops x s0 votes (?err \<noteq> None) s'"
      unfolding underCommit_def using 1
      by (rule everyRoot_mono) (use y v r(3) in \<open>auto split: if_splits option.splits\<close>)
    from Cons.IH [OF this] Cons.prems(2,3) v show ?case by (simp add: y)
  next
    case (2 e s')
    from everyRoot_at [OF 2 r(1) assms(4)] show ?case by simp
  next
    case (3 s')
    then show ?case
      unfolding torn_def by (rule everyRoot_mono) (auto simp: v split: if_splits option.splits)
  qed
qed

subsection \<open>The whole run\<close>

lemma everyRoot_closed:
  assumes "dbs s' = dbs s"
  shows "calm ops x s0 s' = calm ops x s0 s" and "torn envs ops x s0 s' = torn envs ops x s0 s"
    and "whole envs ops x s0 s' = whole envs ops x s0 s"
  using everyRoot_dbs [OF assms] by (simp_all add: calm_def torn_def whole_def)

lemma fresh_calm:
  assumes "fresh envs ops x s0"
  shows "calm ops x s0 s0"
  using assms
  by (auto simp: fresh_def calm_def everyRoot_def holds_def idle_def uncommitted_def before_def)

lemma planRoots_distinct: "distinct (planRoots ops)"
  by (simp add: planRoots_def)

lemma ExecuteCrossRoot_run:
  assumes "fresh envs ops x s0"
  shows "swp (ExecuteCrossRoot envs ops x)
     (\<lambda>y s. torn envs ops x s0 s \<and> (snd y = None \<longrightarrow> whole envs ops x s0 s)) (\<lambda>e. calm ops x s0)
     (\<lambda>s. calm ops x s0 s \<or> torn envs ops x s0 s) s0"
proof (cases "list_ex (\<lambda>r. map_get envs r = None) (planRoots ops)")
  case True
  then show ?thesis using fresh_calm [OF assms] by (simp add: ExecuteCrossRoot_def)
next
  case False
  then have pl: "placed envs ops s0" and x: "x \<noteq> []"
    using assms by (auto simp: placed_def fresh_def list_ex_iff)
  let ?Q = "\<lambda>y :: Result gomap \<times> failure option. \<lambda>s. torn envs ops x s0 s \<and> (snd y = None \<longrightarrow> whole envs ops x s0 s)"
  let ?C = "\<lambda>s. calm ops x s0 s \<or> torn envs ops x s0 s"
  have body: "swp (sbnd (seach (\<lambda>r. inRoot envs r recoverPending) (planRoots ops)) (\<lambda>_.
        sbnd (provideRoots envs ops (planRoots ops)) (\<lambda>provided.
        sbnd (prepareRoots envs ops x provided (planRoots ops) []) (\<lambda>votes.
          commitRoots envs votes ([], None))))) ?Q (\<lambda>e. calm ops x s0) ?C s" if "calm ops x s0 s" for s
    unfolding swp_sbnd
  proof (rule swp_mono [OF swp_seach [where I = "calm ops x s0" and J = "calm ops x s0", OF that recoverPending_calm]],
      goal_cases)
    case (4 u s1)
    show ?case
    proof (rule swp_mono [OF provideRoots_calm [OF 4 pl]], goal_cases)
      case (1 provided s2)
      then have start: "ballots envs ops x s0 [] s2" and sup: "suppliedBy envs ops provided"
        by (simp_all add: ballots_Nil)
      have names: "distinct (map fst ([] :: (string \<times> preparedTxn) list) @ planRoots ops)"
        "set (map fst ([] :: (string \<times> preparedTxn) list) @ planRoots ops) \<subseteq> set (planRoots ops)"
        using planRoots_distinct by simp_all
      show ?case
      proof (rule swp_mono [OF prepareRoots_votes [OF start names pl sup x]], goal_cases)
        case (1 votes s3)
        then have votes: "map fst votes = planRoots ops" and b: "ballots envs ops x s0 votes s3" by simp_all
        have "underCommit envs ops x s0 votes (None \<noteq> (None :: failure option)) s3"
          using b unfolding underCommit_def ballots_def
        proof (rule everyRoot_mono)
          fix r d assume "r \<in> set (planRoots ops)"
          then have "map_of votes r \<noteq> None" unfolding map_of_eq_None_iff votes [symmetric] by auto
          moreover assume "(case map_of votes r of None \<Rightarrow> idle x (before s0 r) | Some p \<Rightarrow> votedAt envs ops x s0 r p) d"
          ultimately show "case map_of votes r of
              None \<Rightarrow> completedAt envs ops x s0 r d \<or> None \<noteq> (None :: failure option) \<and> (\<exists>p. votedAt envs ops x s0 r p d)
            | Some p \<Rightarrow> votedAt envs ops x s0 r p d" by auto
        qed
        note run = commitRoots_run [OF this _ _ pl, of "[]"]
        have "distinct (map fst votes)" "fst ` set votes \<subseteq> set (planRoots ops)"
          using votes planRoots_distinct by (simp_all flip: set_map)
        from run [OF this] show ?case by (rule swp_mono) auto
      qed auto
    qed auto
  qed (use pl in auto)
  have start: "calm ops x s0 s'" if "dbs s' = dbs s0" for s'
    using everyRoot_closed(1) [OF that] fresh_calm [OF assms] by blast
  show ?thesis
    unfolding ExecuteCrossRoot_def Let_def if_not_P [OF False]
  proof (rule swp_withLocks)
    fix s' assume "dbs s' = dbs s0"
    from body [OF start [OF this]]
    show "swp (sbnd (seach (\<lambda>r. inRoot envs r recoverPending) (planRoots ops)) (\<lambda>_.
        sbnd (provideRoots envs ops (planRoots ops)) (\<lambda>provided.
        sbnd (prepareRoots envs ops x provided (planRoots ops) []) (\<lambda>votes.
          commitRoots envs votes ([], None))))) ?Q (\<lambda>e. calm ops x s0) ?C s'" .
  qed (use start everyRoot_closed in metis)+
qed

end
