(* ===== verification/CrossRootRecovery.thy ===== *)
theory CrossRootRecovery
  imports CrossRootRun
begin

section \<open>Recovering a run over several roots\<close>

text \<open>
  Recovery reads which roots have the transaction, takes their locks, reads again and decides:
  a root that committed makes the others follow, without one all are undone.
\<close>

subsection \<open>What recovery reads\<close>

lemma inRoot_query:
  assumes "inRoot envs r (\<lambda>env. query f) s = (y, s')"
  shows "dbs s' = dbs s" and "y = outcome.Done v \<Longrightarrow> \<exists>d. dbs s r = Some d \<and> v = f d"
  using assms
  by (auto simp: inRoot_def query_def perform_def dbs_def gomap.get_put fun_eq_iff
      split: option.splits prod.splits list.splits fault.splits)

lemma swp_read:
  "swp (inRoot envs r (\<lambda>env. query f)) (\<lambda>v s'. dbs s' = dbs s \<and> (\<exists>d. dbs s r = Some d \<and> v = f d))
     (\<lambda>e s'. dbs s' = dbs s) (\<lambda>s'. dbs s' = dbs s) s"
  using inRoot_query [of envs r f s]
  by (cases "inRoot envs r (\<lambda>env. query f) s"; cases "fst (inRoot envs r (\<lambda>env. query f) s)") (auto simp: swp_def)

text \<open>The participants of a view of the databases.\<close>

definition taking :: "string \<Rightarrow> (string \<Rightarrow> database option) \<Rightarrow> string set \<Rightarrow> (string \<times> nat) set" where
  "taking x v rs = {(r, tx_ID t) |r t d. r \<in> rs \<and> v r = Some d \<and> t \<in> set (t_txn d) \<and> tx_CrossRootID t = x}"

lemma participants_run:
  assumes "x \<noteq> []"
  shows "swp (participants envs x)
     (\<lambda>parts s'. dbs s' = dbs s \<and> set parts = taking x (dbs s) (set (map_keys envs)))
     (\<lambda>e s'. dbs s' = dbs s) (\<lambda>s'. dbs s' = dbs s) s"
proof -
  have step: "swp (participantsIn envs x r parts)
      (\<lambda>parts' s'. dbs s' = dbs s \<and> set parts' = set parts \<union> taking x (dbs s) {r})
      (\<lambda>e s'. dbs s' = dbs s) (\<lambda>s'. dbs s' = dbs s) s1" if s1: "dbs s1 = dbs s" for s1 r parts
    unfolding participantsIn_def swp_sbnd
  proof (rule swp_mono [OF swp_read [of envs r _ s1]], goal_cases)
    case (1 txns s')
    then obtain d where "dbs s r = Some d" "txns = TxnsByCrossRootID x d" "dbs s' = dbs s" using s1 by auto
    then show ?case using assms by (auto simp: TxnsByCrossRootID_def taking_def)
  qed (use s1 in auto)
  have "swp (sfold (participantsIn envs x) rs parts)
      (\<lambda>parts' s'. dbs s' = dbs s \<and> set parts' = set parts \<union> taking x (dbs s) (set rs))
      (\<lambda>e s'. dbs s' = dbs s) (\<lambda>s'. dbs s' = dbs s) s1" if "dbs s1 = dbs s" for rs parts s1
    using that
  proof (induction rs arbitrary: parts s1)
    case Nil
    then show ?case by (simp add: taking_def)
  next
    case (Cons r rs)
    show ?case
      unfolding sfold.simps swp_sbnd
    proof (rule swp_mono [OF step [OF Cons.prems]], goal_cases)
      case (1 parts' s')
      have "taking x (dbs s) (set (r # rs)) = taking x (dbs s) {r} \<union> taking x (dbs s) (set rs)"
        by (auto simp: taking_def)
      with Cons.IH [of s' parts'] 1 show ?case by (simp add: Un_assoc)
    qed auto
  qed
  from this [of s "map_keys envs" "[]"] show ?thesis by (simp add: participants_def)
qed

definition standingAt :: "(string \<Rightarrow> database option) \<Rightarrow> string \<times> nat \<Rightarrow> (string \<times> Txn) option" where
  "standingAt v = (\<lambda>(r, n). Option.bind (v r) (\<lambda>d. map_option (Pair r) (GetTxn n d)))"

definition standings :: "(string \<Rightarrow> database option) \<Rightarrow> TxnState \<Rightarrow> (string \<times> nat) list \<Rightarrow> (string \<times> Txn) list" where
  "standings v st parts = filter (\<lambda>(r, t). tx_State t = st) (List.map_filter (standingAt v) parts)"

lemma reread_run:
  "swp (sfold (reread envs) parts ([], []))
     (\<lambda>y s'. dbs s' = dbs s \<and> y = (standings (dbs s) TxnCommitted parts, standings (dbs s) TxnPending parts))
     (\<lambda>e s'. dbs s' = dbs s) (\<lambda>s'. dbs s' = dbs s) s"
proof -
  have step: "swp (reread envs part acc)
      (\<lambda>y s'. dbs s' = dbs s \<and>
         y = (fst acc @ standings (dbs s) TxnCommitted [part], snd acc @ standings (dbs s) TxnPending [part]))
      (\<lambda>e s'. dbs s' = dbs s) (\<lambda>s'. dbs s' = dbs s) s1" if s1: "dbs s1 = dbs s" for part acc s1
  proof -
    obtain r n where part: "part = (r, n)" by force
    show ?thesis
      unfolding reread_def part case_prod_beta fst_conv snd_conv swp_sbnd
    proof (rule swp_mono [OF swp_read [of envs r _ s1]], goal_cases)
      case (1 found s')
      then obtain d where "dbs s r = Some d" "found = GetTxn n d" "dbs s' = dbs s" using s1 by auto
      then show ?case
        by (cases found; cases acc)
           (auto simp: standings_def standingAt_def map_filter_def split: TxnState.split)
    qed (use s1 in auto)
  qed
  have "swp (sfold (reread envs) parts acc)
      (\<lambda>y s'. dbs s' = dbs s \<and>
         y = (fst acc @ standings (dbs s) TxnCommitted parts, snd acc @ standings (dbs s) TxnPending parts))
      (\<lambda>e s'. dbs s' = dbs s) (\<lambda>s'. dbs s' = dbs s) s1" if "dbs s1 = dbs s" for parts acc s1
    using that
  proof (induction parts arbitrary: acc s1)
    case Nil
    then show ?case by (simp add: standings_def map_filter_def)
  next
    case (Cons part parts)
    have append: "standings (dbs s) st (part # parts) = standings (dbs s) st [part] @ standings (dbs s) st parts" for st
      by (simp add: standings_def map_filter_def)
    show ?case
      unfolding sfold.simps swp_sbnd
    proof (rule swp_mono [OF step [OF Cons.prems]], goal_cases)
      case (1 y s')
      with Cons.IH [of s' y] show ?case by (simp only: fst_conv snd_conv append append_assoc)
    qed auto
  qed
  from this [of s parts "([], [])"] show ?thesis by simp
qed

lemma map_filter_mem: "y \<in> set (List.map_filter f xs) \<longleftrightarrow> (\<exists>x\<in>set xs. f x = Some y)"
  by (force simp: map_filter_def)

lemma standings_mem:
  "(r, t) \<in> set (standings v st parts) \<longleftrightarrow>
     (\<exists>n d. (r, n) \<in> set parts \<and> v r = Some d \<and> GetTxn n d = Some t \<and> tx_State t = st)"
proof -
  have "standingAt v part = Some (r, t) \<longleftrightarrow>
      (\<exists>n d. part = (r, n) \<and> v r = Some d \<and> GetTxn n d = Some t)" for part
    by (cases part) (auto simp: standingAt_def bind_eq_Some_conv)
  then show ?thesis by (auto simp: standings_def map_filter_mem)
qed

lemma standings_Cons:
  "standings v st ((r, n) # parts) =
     (case Option.bind (v r) (GetTxn n) of
        None \<Rightarrow> standings v st parts
      | Some t \<Rightarrow> if tx_State t = st then (r, t) # standings v st parts else standings v st parts)"
  by (cases "v r"; cases "GetTxn n (the (v r))") (simp_all add: standings_def standingAt_def map_filter_def)

lemma standings_roots: "distinct (map fst parts) \<Longrightarrow> distinct (map fst (standings v st parts))"
proof (induction parts)
  case (Cons part parts)
  obtain r n where part: "part = (r, n)" by force
  have "fst ` set (standings v st parts) \<subseteq> fst ` set parts"
    by (auto simp: standings_mem) force
  with Cons have "distinct (map fst (standings v st parts))" "r \<notin> fst ` set (standings v st parts)"
    unfolding part by auto
  then show ?case by (simp add: part standings_Cons split: option.split)
qed (simp add: standings_def map_filter_def)

subsection \<open>Deciding\<close>

lemma GetTxn_mem:
  assumes "db_ok d" and "t \<in> set (t_txn d)"
  shows "GetTxn (tx_ID t) d = Some t"
proof -
  have "apart (\<lambda>t u. tx_ID t = tx_ID u) ts \<Longrightarrow> t \<in> set ts \<Longrightarrow> List.find (\<lambda>u. tx_ID u = tx_ID t) ts = Some t" for ts
    by (induction ts) (auto simp: apart_def)
  moreover have "apart (\<lambda>t u. tx_ID t = tx_ID u) (t_txn d)"
    using ok_parts(3) [OF assms(1)] by (auto simp: txns_ok_def apart_def elim!: sorted_wrt_mono_rel [rotated])
  ultimately show ?thesis using assms(2) by (simp add: GetTxn_def)
qed

lemma pending_only:
  assumes "db_ok d" and "t \<in> set (t_txn d)" and "tx_State t = TxnPending" and "PendingTxn d = Some u"
  shows "t = u"
proof (rule ccontr)
  assume "t \<noteq> u"
  have "u \<in> set (t_txn d)" "tx_State u = TxnPending"
    using assms(4) by (auto simp: PendingTxn_def find_Some_iff)
  moreover have "apart (\<lambda>t u. tx_ID t = tx_ID u \<or> pending t \<and> pending u) (t_txn d)"
    using ok_parts(3) [OF assms(1)] by (simp add: txns_ok_def)
  ultimately show False
    using apart_mem [of _ "t_txn d" t u] assms(2,3) \<open>t \<noteq> u\<close> by (auto simp: pending_def)
qed

text \<open>Only the roots of the plan have transactions with the identifier.\<close>

lemma everyRoot_taking:
  assumes "everyRoot ops s0 P s" and "fresh envs ops x s0"
    and "dbs s r = Some d" and "t \<in> set (t_txn d)" and "tx_CrossRootID t = x"
  shows "r \<in> set (planRoots ops) \<and> P r d"
proof (cases "r \<in> set (planRoots ops)")
  case True
  then show ?thesis using assms(1,3) by (simp add: everyRoot_def holds_def)
next
  case False
  with assms(1,3) have "d = before s0 r" "r \<in> dom (dbs s0)"
    by (auto simp: everyRoot_def holds_def dom_def)
  then have "dbs s0 r = Some d" by (auto simp: before_def)
  with assms(2,4,5) show ?thesis by (auto simp: fresh_def)
qed

lemma standings_taking:
  assumes "set parts = taking x (dbs s) K" and "\<And>r d. dbs s r = Some d \<Longrightarrow> db_ok d"
  shows "(r, t) \<in> set (standings (dbs s) st parts) \<longleftrightarrow>
     r \<in> K \<and> (\<exists>d. dbs s r = Some d \<and> t \<in> set (t_txn d) \<and> tx_CrossRootID t = x \<and> tx_State t = st)"
proof -
  have mem: "GetTxn (tx_ID t) d = Some t" if "dbs s r = Some d" "t \<in> set (t_txn d)" for r t d
    using GetTxn_mem [OF assms(2) [OF that(1)] that(2)] .
  have part: "(r, n) \<in> set parts \<longleftrightarrow>
      r \<in> K \<and> (\<exists>t d. dbs s r = Some d \<and> t \<in> set (t_txn d) \<and> tx_CrossRootID t = x \<and> tx_ID t = n)" for n
    unfolding assms(1) taking_def by blast
  show ?thesis
    unfolding standings_mem part using mem by fastforce
qed

lemma everyRoot_ok:
  assumes "everyRoot ops s0 P s" and "fresh envs ops x s0" and "\<And>r d. P r d \<Longrightarrow> db_ok d"
    and "dbs s r = Some d"
  shows "db_ok d"
proof (cases "r \<in> set (planRoots ops)")
  case True
  with assms(1,4) have "P r d" by (simp add: everyRoot_def holds_def)
  then show ?thesis by (rule assms(3))
next
  case False
  with assms(1,4) have "d = before s0 r" "r \<in> dom (dbs s0)"
    by (auto simp: everyRoot_def holds_def dom_def)
  then have "dbs s0 r = Some d" by (auto simp: before_def)
  with assms(2) show ?thesis by (auto simp: fresh_def)
qed

text \<open>Rolling forward: the roots of \<open>pend\<close> have voted, the others are complete.\<close>

definition underForward ::
    "envs \<Rightarrow> Operation list \<Rightarrow> string \<Rightarrow> system \<Rightarrow> (string \<times> Txn) list \<Rightarrow> system \<Rightarrow> bool" where
  "underForward envs ops x s0 pend =
     everyRoot ops s0 (\<lambda>r d. case map_of pend r of
       Some t \<Rightarrow> \<exists>p. votedAt envs ops x s0 r p d \<and> tx_ID t = pt_txnID p
     | None \<Rightarrow> completedAt envs ops x s0 r d)"

lemma underForward_torn: "underForward envs ops x s0 pend s \<Longrightarrow> torn envs ops x s0 s"
  unfolding underForward_def torn_def by (erule everyRoot_mono) (auto split: option.splits)

lemma forwardAll_run:
  assumes "underForward envs ops x s0 pend s" and "distinct (map fst pend)"
    and "fst ` set pend \<subseteq> set (planRoots ops)" and "placed envs ops s0"
  shows "swp (seach (forwardOne envs x) pend) (\<lambda>u. whole envs ops x s0) (\<lambda>e. torn envs ops x s0)
     (torn envs ops x s0) s"
  using assms(1-3)
proof (induction pend arbitrary: s)
  case Nil
  then show ?case by (simp add: underForward_def whole_def)
next
  case (Cons v pend)
  obtain r t where v: "v = (r, t)" by force
  from Cons.prems v have r: "r \<in> set (planRoots ops)" "map_of pend r = None"
    by (auto simp: map_of_eq_None_iff)
  let ?P = "\<lambda>r d. case map_of (v # pend) r of
       Some t \<Rightarrow> \<exists>p. votedAt envs ops x s0 r p d \<and> tx_ID t = pt_txnID p
     | None \<Rightarrow> completedAt envs ops x s0 r d"
  let ?C = "completedAt envs ops x s0 r"
  let ?Y = "\<lambda>d. (\<exists>p. votedAt envs ops x s0 r p d) \<or> ?C d"
  let ?f = "\<lambda>env. bnd (query (CommitPayload (tx_ID t))) (\<lambda>payload.
       case payload of
         None \<Rightarrow> raise (Refused ''no commit payload'' [x, r])
       | Some raw \<Rightarrow> bnd (liftRes (unmarshalCommitPayload raw)) (\<lambda>cp. rollForwardTxn env t cp))"
  have run: "wp (?f (envOf envs r)) (\<lambda>u m'. ?C (db m')) (\<lambda>e m'. ?Y (db m')) (\<lambda>m'. ?Y (db m')) m"
    if "?P r (db m)" for m
  proof -
    from that v obtain p where "votedAt envs ops x s0 r p (db m)" "tx_ID t = pt_txnID p" by auto
    then show ?thesis
      unfolding votedAt_def completedAt_def
      by (intro wp_mono [OF forward_completes [of "envOf envs r" "byRoot ops r" x p "before s0 r" m t r]]) auto
  qed
  have "swp (inRoot envs r ?f) (\<lambda>u. everyRoot ops s0 (?P(r := ?C))) (\<lambda>e. everyRoot ops s0 (?P(r := ?Y)))
      (everyRoot ops s0 (?P(r := ?Y))) s"
    using swp_root [where P = ?P and f = ?f and X = "\<lambda>u. ?C" and Y = "\<lambda>e. ?Y" and Z = ?Y,
        OF Cons.prems(1) [unfolded underForward_def] r(1) assms(4) run] .
  then have "swp (forwardOne envs x v) (\<lambda>u. everyRoot ops s0 (?P(r := ?C))) (\<lambda>e. everyRoot ops s0 (?P(r := ?Y)))
      (everyRoot ops s0 (?P(r := ?Y))) s"
    by (simp only: forwardOne_def v prod.case)
  then show ?case
    unfolding seach.simps swp_sbnd
  proof (rule swp_mono, goal_cases)
    case (1 u s')
    have "underForward envs ops x s0 pend s'"
      unfolding underForward_def using 1
      by (rule everyRoot_mono) (use v r(2) in \<open>auto split: if_splits option.splits\<close>)
    from Cons.IH [OF this] Cons.prems(2,3) show ?case by simp
  next
    case (2 e s')
    then show ?case
      unfolding torn_def by (rule everyRoot_mono) (auto simp: v split: if_splits option.splits)
  next
    case (3 s')
    then show ?case
      unfolding torn_def by (rule everyRoot_mono) (auto simp: v split: if_splits option.splits)
  qed
qed

lemma backAll_run:
  assumes "calm ops x s0 s" and "fst ` set pend \<subseteq> set (planRoots ops)" and "placed envs ops s0"
  shows "swp (seach (backOne envs) pend) (\<lambda>u. calm ops x s0) (\<lambda>e. calm ops x s0) (calm ops x s0) s"
proof (rule swp_seach [where I = "calm ops x s0" and J = "calm ops x s0", OF assms(1)])
  fix v s' assume v: "v \<in> set pend" and s': "calm ops x s0 s'"
  obtain r t where rt: "v = (r, t)" by force
  with v assms(2) have r: "r \<in> set (planRoots ops)" by force
  show "swp (backOne envs v) (\<lambda>u. calm ops x s0) (\<lambda>e. calm ops x s0) (calm ops x s0) s'"
    unfolding backOne_def rt prod.case calm_def
    by (rule swp_root_keeps [OF s' [unfolded calm_def] r assms(3) rollbackTxn_idle])
qed

subsection \<open>The whole recovery\<close>

definition decided :: "envs \<Rightarrow> Operation list \<Rightarrow> string \<Rightarrow> system \<Rightarrow> system \<Rightarrow> bool" where
  "decided envs ops x s0 s \<longleftrightarrow> calm ops x s0 s \<or> whole envs ops x s0 s"

definition undecided :: "envs \<Rightarrow> Operation list \<Rightarrow> string \<Rightarrow> system \<Rightarrow> system \<Rightarrow> bool" where
  "undecided envs ops x s0 s \<longleftrightarrow> calm ops x s0 s \<or> torn envs ops x s0 s"

lemma undecided_ok:
  assumes "undecided envs ops x s0 s" and "fresh envs ops x s0" and "dbs s r = Some d"
  shows "db_ok d"
proof -
  have idle: "idle x d0 d \<Longrightarrow> db_ok d" for d0 d by (simp add: idle_def)
  have parts: "(\<exists>p. votedAt envs ops x s0 r p d) \<or> completedAt envs ops x s0 r d \<Longrightarrow> db_ok d" for r d
    by (auto simp: completedAt_def completed_def dest!: votedAt_idle idle)
  from assms(1) consider "calm ops x s0 s" | "torn envs ops x s0 s" by (auto simp: undecided_def)
  then show ?thesis
  proof cases
    case 1
    from everyRoot_ok [OF this [unfolded calm_def] assms(2) idle assms(3)] show ?thesis .
  next
    case 2
    from everyRoot_ok [OF this [unfolded torn_def] assms(2) parts assms(3)] show ?thesis .
  qed
qed

lemma decide_run:
  assumes s: "undecided envs ops x s0 s" and "fresh envs ops x s0" and pl: "placed envs ops s0"
    and parts: "set parts = taking x (dbs s) (set (map_keys envs))" and "distinct (map fst parts)"
    and "set (planRoots ops) \<subseteq> set (map_keys envs)"
  shows "swp (decide envs x (standings (dbs s) TxnCommitted parts, standings (dbs s) TxnPending parts))
     (\<lambda>b. decided envs ops x s0) (\<lambda>e. undecided envs ops x s0) (undecided envs ops x s0) s"
proof -
  let ?committed = "standings (dbs s) TxnCommitted parts" and ?pending = "standings (dbs s) TxnPending parts"
  have mem: "(r, t) \<in> set (standings (dbs s) st parts) \<longleftrightarrow> r \<in> set (map_keys envs) \<and>
      (\<exists>d. dbs s r = Some d \<and> t \<in> set (t_txn d) \<and> tx_CrossRootID t = x \<and> tx_State t = st)" for r t st
    by (rule standings_taking [OF parts]) (rule undecided_ok [OF s assms(2)])
  have roots: "fst ` set (standings (dbs s) st parts) \<subseteq> set (planRoots ops)" for st
  proof
    fix r assume "r \<in> fst ` set (standings (dbs s) st parts)"
    then obtain t where "(r, t) \<in> set (standings (dbs s) st parts)" by force
    then obtain d where "dbs s r = Some d" "t \<in> set (t_txn d)" "tx_CrossRootID t = x" unfolding mem by blast
    with s show "r \<in> set (planRoots ops)"
      unfolding undecided_def calm_def torn_def using everyRoot_taking [OF _ assms(2)] by blast
  qed
  have once: "t = u" if "(r, t) \<in> set (standings (dbs s) st parts)" "(r, u) \<in> set (standings (dbs s) st' parts)" for r t u st st'
  proof -
    from that obtain n k d where nk: "(r, n) \<in> set parts" "(r, k) \<in> set parts" "dbs s r = Some d"
      "GetTxn n d = Some t" "GetTxn k d = Some u"
      unfolding standings_mem by auto
    have "n = k" using assms(5) nk(1,2) by (rule eq_key_imp_eq_value)
    with nk show ?thesis by simp
  qed
  show ?thesis
  proof (cases "?committed = []")
    case False
    then obtain r t where "(r, t) \<in> set ?committed" by (cases ?committed) auto
    then obtain d where d: "dbs s r = Some d" "t \<in> set (t_txn d)" "tx_CrossRootID t = x" "tx_State t = TxnCommitted"
      unfolding mem by blast
    have "\<not> calm ops x s0 s"
    proof
      assume "calm ops x s0 s"
      from everyRoot_taking [OF this [unfolded calm_def] assms(2) d(1-3)] have "uncommitted x d" by (simp add: idle_def)
      with d show False by (auto simp: uncommitted_def)
    qed
    with s have torn: "torn envs ops x s0 s" by (simp add: undecided_def)
    have "underForward envs ops x s0 ?pending s"
      unfolding underForward_def everyRoot_def holds_def
    proof (intro conjI allI impI)
      show "dom (dbs s) = dom (dbs s0)" using torn by (simp add: torn_def everyRoot_def holds_def)
      fix r d assume d: "dbs s r = Some d"
      show "if r \<in> set (planRoots ops)
          then case map_of ?pending r of Some t \<Rightarrow> \<exists>p. votedAt envs ops x s0 r p d \<and> tx_ID t = pt_txnID p
             | None \<Rightarrow> completedAt envs ops x s0 r d
          else d = before s0 r"
      proof (cases "r \<in> set (planRoots ops)")
        case False
        then show ?thesis using torn d by (simp add: torn_def everyRoot_def holds_def)
      next
        case True
        with torn d have cases: "(\<exists>p. votedAt envs ops x s0 r p d) \<or> completedAt envs ops x s0 r d"
          by (simp add: torn_def everyRoot_def holds_def)
        have key: "r \<in> set (map_keys envs)" using True assms(6) by blast
        have ballot: "\<exists>u. PendingTxn d = Some u \<and> tx_ID u = pt_txnID p \<and> (r, u) \<in> set ?pending"
          if "votedAt envs ops x s0 r p d" for p
        proof -
          from that obtain u where u: "PendingTxn d = Some u" "tx_ID u = pt_txnID p" "tx_CrossRootID u = x"
            by (auto simp: votedAt_def voted_def ballot_def)
          then have "u \<in> set (t_txn d)" "tx_State u = TxnPending" by (auto simp: PendingTxn_def find_Some_iff)
          with u d key show ?thesis unfolding mem by blast
        qed
        show ?thesis
        proof (cases "map_of ?pending r")
          case None
          then have "r \<notin> fst ` set ?pending" by (simp add: map_of_eq_None_iff)
          with ballot cases have "completedAt envs ops x s0 r d" by force
          with True None show ?thesis by simp
        next
          case (Some t)
          then have t: "(r, t) \<in> set ?pending" by (rule map_of_SomeD)
          have "\<not> completedAt envs ops x s0 r d"
          proof
            assume "completedAt envs ops x s0 r d"
            then obtain u where "u \<in> set (t_txn d)" "tx_CrossRootID u = x" "tx_State u = TxnCommitted"
              by (auto simp: completedAt_def completed_def)
            with d key have u: "(r, u) \<in> set ?committed" unfolding mem by blast
            with t have "t = u" by (rule once)
            with t u show False unfolding mem by auto
          qed
          with cases obtain p where p: "votedAt envs ops x s0 r p d" by blast
          from ballot [OF p] obtain u where "(r, u) \<in> set ?pending" "tx_ID u = pt_txnID p" by blast
          with once [OF t] have "tx_ID t = pt_txnID p" by blast
          with p True Some show ?thesis by auto
        qed
      qed
    qed
    from forwardAll_run [OF this standings_roots [OF assms(5)] roots pl] False show ?thesis
      by (simp add: decide_def swp_sbnd) (erule swp_mono, simp_all add: decided_def undecided_def)
  next
    case True
    have "calm ops x s0 s"
    proof (cases "calm ops x s0 s")
      case False
      with s have torn: "torn envs ops x s0 s" by (simp add: undecided_def)
      show ?thesis
        unfolding calm_def everyRoot_def holds_def
      proof (intro conjI allI impI)
        show "dom (dbs s) = dom (dbs s0)" using torn by (simp add: torn_def everyRoot_def holds_def)
        fix r d assume d: "dbs s r = Some d"
        show "if r \<in> set (planRoots ops) then idle x (before s0 r) d else d = before s0 r"
        proof (cases "r \<in> set (planRoots ops)")
          case False
          then show ?thesis using torn d by (simp add: torn_def everyRoot_def holds_def)
        next
          case plan: True
          with torn d have cases: "(\<exists>p. votedAt envs ops x s0 r p d) \<or> completedAt envs ops x s0 r d"
            by (simp add: torn_def everyRoot_def holds_def)
          have "\<not> completedAt envs ops x s0 r d"
          proof
            assume "completedAt envs ops x s0 r d"
            then obtain u where "u \<in> set (t_txn d)" "tx_CrossRootID u = x" "tx_State u = TxnCommitted"
              by (auto simp: completedAt_def completed_def)
            with d plan assms(6) have "(r, u) \<in> set ?committed" unfolding mem by blast
            with True show False by simp
          qed
          with cases plan show ?thesis by (auto dest: votedAt_idle)
        qed
      qed
    qed
    from backAll_run [OF this roots [of TxnPending] pl] True show ?thesis
      by (simp add: decide_def swp_sbnd) (erule swp_mono, simp_all add: decided_def undecided_def)
  qed
qed

lemma undecided_dbs: "dbs s' = dbs s \<Longrightarrow> undecided envs ops x s0 s' = undecided envs ops x s0 s"
  using everyRoot_closed [of s' s] by (simp add: undecided_def)

lemma decided_dbs: "dbs s' = dbs s \<Longrightarrow> decided envs ops x s0 s' = decided envs ops x s0 s"
  using everyRoot_closed [of s' s] by (simp add: decided_def)

lemma decided_undecided: "decided envs ops x s0 s \<Longrightarrow> undecided envs ops x s0 s"
  unfolding decided_def undecided_def torn_def whole_def by (elim disjE) (auto intro: everyRoot_mono)

lemma RecoverCrossRoot_run:
  assumes "undecided envs ops x s0 s" and "fresh envs ops x s0" and "placed envs ops s0"
  shows "swp (RecoverCrossRoot envs x) (\<lambda>b. decided envs ops x s0) (\<lambda>e. undecided envs ops x s0)
     (undecided envs ops x s0) s"
proof -
  have x: "x \<noteq> []" using assms(2) by (simp add: fresh_def)
  have keys: "set (planRoots ops) \<subseteq> set (map_keys envs)"
    using assms(3) by (auto simp: placed_def gomap.keys_in)
  have at: "undecided envs ops x s0 s'" if "dbs s' = dbs s" for s'
    using assms(1) undecided_dbs [OF that] by simp
  show ?thesis
    unfolding RecoverCrossRoot_def swp_sbnd
  proof (rule swp_mono [OF participants_run [OF x]], goal_cases)
    case (1 parts s1)
    then have s1: "dbs s1 = dbs s" and parts: "set parts = taking x (dbs s) (set (map_keys envs))" by simp_all
    show ?case
    proof (cases "parts = []")
      case True
      then show ?thesis using at [OF s1] by simp
    next
      case False
      have "swp (withLocks envs (map fst parts) (sbnd (sfold (reread envs) parts ([], [])) (decide envs x)))
        (\<lambda>b. decided envs ops x s0) (\<lambda>e. undecided envs ops x s0) (undecided envs ops x s0) s1"
      proof (rule swp_withLocks)
        fix s' assume d: "distinct (map fst parts)" and s': "dbs s' = dbs s1"
        show "swp (sbnd (sfold (reread envs) parts ([], [])) (decide envs x))
          (\<lambda>b. decided envs ops x s0) (\<lambda>e. undecided envs ops x s0) (undecided envs ops x s0) s'"
          unfolding swp_sbnd
        proof (rule swp_mono [OF reread_run], goal_cases)
          case (1 y s2)
          then have s2: "dbs s2 = dbs s" and y: "y = (standings (dbs s2) TxnCommitted parts, standings (dbs s2) TxnPending parts)"
            using s1 s' by simp_all
          have "set parts = taking x (dbs s2) (set (map_keys envs))" using parts s2 by simp
          from decide_run [OF at [OF s2] assms(2,3) this d keys] show ?case unfolding y .
        next
          case (2 e s2)
          then show ?case using at s1 s' by simp
        next
          case (3 s2)
          then show ?case using at s1 s' by simp
        qed
      next
        fix e s' assume "dbs s' = dbs s1"
        then show "undecided envs ops x s0 s'" using at s1 by simp
      qed (use at s1 undecided_dbs decided_dbs in metis)+
      with False show ?thesis by simp
    qed
  qed (use at in auto)
qed

end
