(* ===== verification/CrossRootExamples.thy ===== *)
theory CrossRootExamples
  imports CrossRootRecovery InstallExamples ClaimFacts
begin

section \<open>A run over two roots, and a claim\<close>

subsection \<open>What can follow a run over several roots\<close>

text \<open>
  The run, whatever it came to; restarts of the machine, which keep the databases and may change
  the files; and attempts at recovery, failed and killed ones among them.
\<close>

inductive aftermath :: "envs \<Rightarrow> Operation list \<Rightarrow> string \<Rightarrow> system \<Rightarrow> system \<Rightarrow> bool"
  for envs ops x s0 where
  executed: "aftermath envs ops x s0 (snd (ExecuteCrossRoot envs ops x s0))"
| restarted: "aftermath envs ops x s0 s'" if "aftermath envs ops x s0 s" and "dbs s' = dbs s"
| retried: "aftermath envs ops x s0 (snd (RecoverCrossRoot envs x s))" if "aftermath envs ops x s0 s"

lemma swp_final: "swp a Q F C s \<Longrightarrow> (\<And>x s'. Q x s' \<Longrightarrow> P s') \<Longrightarrow> (\<And>e s'. F e s' \<Longrightarrow> P s') \<Longrightarrow>
    (\<And>s'. C s' \<Longrightarrow> P s') \<Longrightarrow> P (snd (a s))"
  by (auto simp: swp_def split: prod.splits outcome.splits)

lemma aftermath_undecided:
  assumes "aftermath envs ops x s0 s" and "fresh envs ops x s0" and "placed envs ops s0"
  shows "undecided envs ops x s0 s"
  using assms(1)
proof induction
  case executed
  show ?case by (rule swp_final [OF ExecuteCrossRoot_run [OF assms(2)]]) (auto simp: undecided_def)
next
  case (restarted s s')
  then show ?case using undecided_dbs by blast
next
  case (retried s)
  show ?case
    by (rule swp_final [OF RecoverCrossRoot_run [OF retried.IH assms(2,3)]]) (auto intro: decided_undecided)
qed

definition allCommitted :: "envs \<Rightarrow> Operation list \<Rightarrow> system \<Rightarrow> system \<Rightarrow> bool" where
  "allCommitted envs ops s0 s \<longleftrightarrow>
     (\<forall>r\<in>set (planRoots ops). \<exists>d. dbs s r = Some d \<and> db_ok d \<and> commits (envOf envs r) (byRoot ops r) (before s0 r) d)"

definition noneChanged :: "Operation list \<Rightarrow> system \<Rightarrow> system \<Rightarrow> bool" where
  "noneChanged ops s0 s \<longleftrightarrow>
     (\<forall>r\<in>set (planRoots ops). \<exists>d. dbs s r = Some d \<and> db_ok d \<and> packageState d = packageState (before s0 r))"

lemma decided_all_or_none:
  assumes "decided envs ops x s0 s" and "placed envs ops s0"
  shows "allCommitted envs ops s0 s \<or> noneChanged ops s0 s"
proof -
  from assms(1) consider "calm ops x s0 s" | "whole envs ops x s0 s" by (auto simp: decided_def)
  then show ?thesis
  proof cases
    case 1
    from everyRoot_at [OF this [unfolded calm_def] _ assms(2)] show ?thesis
      by (auto simp: noneChanged_def idle_def)
  next
    case 2
    from everyRoot_at [OF this [unfolded whole_def] _ assms(2)] show ?thesis
      by (fastforce simp: allCommitted_def completedAt_def completed_def)
  qed
qed

lemma executed_run:
  assumes "fresh envs ops x s0" and "placed envs ops s0" and "ExecuteCrossRoot envs ops x s0 = (r, s)"
  shows "case r of
      outcome.Done (res, err) \<Rightarrow> err = None \<longrightarrow> allCommitted envs ops s0 s
    | Failed e \<Rightarrow> noneChanged ops s0 s
    | Crashed \<Rightarrow> True"
proof -
  have "noneChanged ops s0 s" if "calm ops x s0 s"
    using everyRoot_at [OF that [unfolded calm_def] _ assms(2)] by (auto simp: noneChanged_def idle_def)
  moreover have "allCommitted envs ops s0 s" if "whole envs ops x s0 s"
    using everyRoot_at [OF that [unfolded whole_def] _ assms(2)]
    by (fastforce simp: allCommitted_def completedAt_def completed_def)
  ultimately show ?thesis
    using ExecuteCrossRoot_run [OF assms(1)] assms(3) by (auto simp: swp_def split: outcome.splits)
qed

lemma recovered_run:
  assumes "fresh envs ops x s0" and "placed envs ops s0" and "aftermath envs ops x s0 s"
    and "RecoverCrossRoot envs x s = (outcome.Done b, s')"
  shows "decided envs ops x s0 s'"
  using RecoverCrossRoot_run [OF aftermath_undecided [OF assms(3,1,2)] assms(1,2)] assms(4) by (simp add: swp_def)

lemma decided_elsewhere:
  assumes "decided envs ops x s0 s" and "r \<notin> set (planRoots ops)"
  shows "dbs s r = dbs s0 r"
proof -
  have "dbs s r = dbs s0 r" if s: "everyRoot ops s0 P s" for P
  proof (cases "dbs s r")
    case None
    then have "r \<notin> dom (dbs s)" by auto
    with s have "r \<notin> dom (dbs s0)" by (simp add: everyRoot_def holds_def)
    with None show ?thesis by (simp add: domIff)
  next
    case (Some d)
    then have "r \<in> dom (dbs s)" by auto
    with s Some assms(2) have "r \<in> dom (dbs s0)" "d = before s0 r" by (simp_all add: everyRoot_def holds_def)
    with Some show ?thesis by (auto simp: before_def)
  qed
  with assms(1) show ?thesis by (auto simp: decided_def calm_def whole_def)
qed

subsection \<open>Two roots\<close>

definition twoEnvs :: envs where
  "twoEnvs = [(''/a'', instEnv\<lparr>e_Root := ''/a''\<rparr>), (''/b'', instEnv\<lparr>e_Root := ''/b''\<rparr>)]"

definition twoOperations :: "Operation list" where
  "twoOperations = [instOperation\<lparr>op_Root := ''/a''\<rparr>, instOperation\<lparr>op_Root := ''/b''\<rparr>]"

definition twoMachines :: "fault list \<Rightarrow> system" where
  "twoMachines fs = [(''/a'', instMachine []), (''/b'', instMachine fs)]"

definition restart :: "system \<Rightarrow> system" where
  "restart = map (\<lambda>(r, m). (r, boot [] [] m))"

definition packagesAt :: "system \<Rightarrow> string \<Rightarrow> string list option" where
  "packagesAt s r = map_option (\<lambda>d. map dp_Name (t_package d)) (dbs s r)"

lemma restart_dbs: "dbs (restart s) = dbs s"
  by (induction s) (auto simp: restart_def dbs_def map_get_def fun_eq_iff)

lemma two_start: "fresh twoEnvs twoOperations ''x'' (twoMachines fs)" "placed twoEnvs twoOperations (twoMachines fs)"
  by (auto simp: fresh_def placed_def twoEnvs_def twoMachines_def twoOperations_def planRoots_def dbs_def map_get_def
      instMachine_def example_databases(1) instDatabase_def [THEN arg_cong [where f = t_txn]]
      split: if_splits)

text \<open>The second root is killed when the first has committed; recovery completes it.\<close>

definition killedCommit :: system where
  "killedCommit = snd (ExecuteCrossRoot twoEnvs twoOperations ''x'' (twoMachines (replicate 18 Proceeds @ [Crashes])))"

lemma killed_commit:
  "packagesAt killedCommit ''/a'' = Some [''a'']" "packagesAt killedCommit ''/b'' = Some []"
  by code_simp+

lemma recovered_commit:
  "(let (r, s) = RecoverCrossRoot twoEnvs ''x'' (restart killedCommit)
    in r = outcome.Done True \<and> packagesAt s ''/a'' = Some [''a''] \<and> packagesAt s ''/b'' = Some [''a''])"
  by code_simp

subsection \<open>A claim\<close>

definition shManifest :: Manifest where
  "shManifest = instManifest\<lparr>m_Provides :=
     [\<lparr>p_Name = ''sh'', p_Version = None,
       p_Claims = [(''main'', \<lparr>cs_Path = ''/usr/bin/sh'', cs_Target = ''/usr/bin/dash''\<rparr>)]\<rparr>]\<rparr>"

definition shEnv :: Env where
  "shEnv = instEnv\<lparr>e_DecodeManifest := (\<lambda>s. Some shManifest)\<rparr>"

definition shRequest :: ClaimRequest where
  "shRequest = \<lparr>cr_Role = ''sh'', cr_Holder = ''a''\<rparr>"

lemma claim_run:
  "(let (r, m) = Claim shEnv shRequest olderMachine
    in (case r of outcome.Done (res, err) \<Rightarrow> err = None | _ \<Rightarrow> False) \<and>
       map (\<lambda>l. (cl_Path l, cl_Target l)) (t_claim_link (db m)) = [(''/usr/bin/sh'', ''/usr/bin/dash'')])"
  by code_simp

end
