(* ===== verification/Archive.thy ===== *)
theory Archive
  imports Trust InstallModel
begin

section \<open>Package archives\<close>

text \<open>
  \<open>internal/archive\<close>: the verification of a package container, and its extraction. The Zstandard
  and tar readers are libraries; an archive is what they give to read: the decompressed bytes, and
  the entries with the number of decompressed bytes that had been read when each header and each
  content was complete. The reader in between, \<open>cappedReader\<close>, fails when that number passes its
  limit. The JSON readers, SHA-256 and Ed25519 are parameters.
\<close>

subsection \<open>What the libraries give\<close>

datatype tarFormat = FormatUnknown | FormatUSTAR | FormatPAX | FormatGNU

definition TypeReg :: char where "TypeReg = CHR ''0''"
definition TypeSymlink :: char where "TypeSymlink = CHR ''2''"
definition TypeDir :: char where "TypeDir = CHR ''5''"

record tarHeader =
  th_Name :: string
  th_Typeflag :: char
  th_Linkname :: string
  th_Size :: int
  th_Mode :: int
  th_Uid :: int
  th_Gid :: int
  th_Uname :: string
  th_Gname :: string
  th_ModTime :: time
  th_Devmajor :: int
  th_Devminor :: int
  th_Xattrs :: "string gomap"
  th_PAXRecords :: "string gomap"
  th_Format :: tarFormat

text \<open>A content that cannot be read to its end is \<open>None\<close>.\<close>

record tarItem =
  ti_Header :: tarHeader
  ti_HeaderEnd :: int
  ti_Content :: "string option"
  ti_ContentEnd :: int

text \<open>
  After its entries a tar stream ends, with the number of bytes read then, or cannot be read. A
  file that is not a Zstandard stream has no archive at all.
\<close>

record tarArchive =
  ta_Bytes :: string
  ta_Items :: "tarItem list"
  ta_End :: "int option"

type_synonym archiveFile = "tarArchive option"

record wireFileEntry =
  wf_Path :: "string option"
  wf_Size :: "int option"
  wf_Hash :: "string option"

record wireFiles =
  wfs_SchemaVersion :: "int option"
  wfs_Algorithm :: "string option"
  wfs_Entries :: "wireFileEntry list option"

record verifier =
  v_crypto :: crypto
  v_json :: jsonReader
  v_ext :: externals
  v_manifest :: "string \<Rightarrow> wireManifest option"
  v_files :: "string \<Rightarrow> wireFiles option"

datatype archiveError =
    ArchiveUnreadable
  | PathRejected string pathError
  | EmptyPayloadPath
  | AbsolutePayloadPath string
  | ReservedPayloadPath string
  | EmptyTarget
  | AbsoluteTarget string
  | BadMode int
  | BadOwner int int
  | BadOwnerName string string
  | HasXattrs
  | BadDevice int int
  | BadFormat
  | BadModTime time time
  | FilesInvalid
  | FilesMissing string
  | FilesUnsupported string
  | FileEntryMissing nat string
  | FileEntryNegative string
  | FileEntryHash string
  | FilesUnsorted string string
  | FilesDuplicate string
  | NotRegular string
  | MetadataTooLarge string int
  | UnexpectedEntry string string
  | ManifestInvalid "manifestError option"
  | SizeDisagrees int int
  | SignatureExtended
  | SignatureInvalid repodataError
  | SignatureNotLast
  | MetadataAfterPayload string
  | UnsupportedType string char
  | PayloadUnsorted string string
  | TooManyEntries
  | NoFilesEntry string
  | FileSizeMismatch string int int
  | FileHashMismatch string string string
  | ArchiveIncomplete
  | FilesUnmatched int
  | OverrideUnknown string
  | OverrideSymlink string
  | UntrustedKey string

subsection \<open>Paths and headers\<close>

definition metadataPrefix :: string where "metadataPrefix = ''.peipkg/''"

definition checkPathBytes :: "(string \<Rightarrow> bool) \<Rightarrow> string \<Rightarrow> archiveError + unit" where
  "checkPathBytes nfc p = rmap_err (PathRejected p) (CheckPathBytes nfc p)"

definition validatePayloadPath :: "(string \<Rightarrow> bool) \<Rightarrow> string \<Rightarrow> archiveError + unit" where
  "validatePayloadPath nfc p =
     (if p = [] then Inl EmptyPayloadPath
      else if has_prefix p ''/'' then Inl (AbsolutePayloadPath p)
      else if p = ''.peipkg'' \<or> has_prefix p metadataPrefix then Inl (ReservedPayloadPath p)
      else rbind (checkPathBytes nfc p) (\<lambda>_. rmap_err (PathRejected p) (CheckPathComponents p)))"

definition validateSymlinkTargetPath :: "(string \<Rightarrow> bool) \<Rightarrow> string \<Rightarrow> archiveError + unit" where
  "validateSymlinkTargetPath nfc target =
     (if target = [] then Inl EmptyTarget
      else if has_prefix target ''/'' then Inl (AbsoluteTarget target)
      else checkPathBytes nfc target)"

definition ValidateSymlinkTarget :: "(string \<Rightarrow> bool) \<Rightarrow> string \<Rightarrow> archiveError + unit" where
  "ValidateSymlinkTarget = validateSymlinkTargetPath"

definition hasXattrRecord :: "tarHeader \<Rightarrow> bool" where
  "hasXattrRecord hdr \<longleftrightarrow>
     list_ex (\<lambda>k. has_prefix k ''SCHILY.xattr.'' \<or> has_prefix k ''LIBARCHIVE.xattr.'') (map_keys (th_PAXRecords hdr))"

definition checkCanonicalHeader :: "tarHeader \<Rightarrow> archiveError + unit" where
  "checkCanonicalHeader hdr =
     (if th_Mode hdr \<noteq> 511 then Inl (BadMode (th_Mode hdr))
      else if th_Uid hdr \<noteq> 0 \<or> th_Gid hdr \<noteq> 0 then Inl (BadOwner (th_Uid hdr) (th_Gid hdr))
      else if th_Uname hdr \<noteq> ''root'' \<or> th_Gname hdr \<noteq> ''root'' then Inl (BadOwnerName (th_Uname hdr) (th_Gname hdr))
      else if th_Xattrs hdr \<noteq> [] \<or> th_PAXRecords hdr \<noteq> [] \<and> hasXattrRecord hdr then Inl HasXattrs
      else if th_Devmajor hdr \<noteq> 0 \<or> th_Devminor hdr \<noteq> 0 then Inl (BadDevice (th_Devmajor hdr) (th_Devminor hdr))
      else if th_Format hdr = FormatGNU then Inl BadFormat
      else Inr ())"

definition checkCanonicalModTime :: "tarHeader \<Rightarrow> time \<Rightarrow> archiveError + unit" where
  "checkCanonicalModTime hdr buildTimestamp =
     (if th_ModTime hdr \<noteq> buildTimestamp then Inl (BadModTime (th_ModTime hdr) buildTimestamp) else Inr ())"

definition payloadEntry :: "(string \<Rightarrow> bool) \<Rightarrow> tarHeader \<Rightarrow> archiveError + PayloadEntry" where
  "payloadEntry nfc hdr =
     (let entry = \<lparr>pe_Path = [], pe_Type = EntryFile, pe_Size = 0, pe_LinkTarget = [], pe_Hash = []\<rparr> in
      rbind
        (if th_Typeflag hdr = TypeReg then Inr (entry\<lparr>pe_Type := EntryFile, pe_Size := th_Size hdr\<rparr>, th_Name hdr)
         else if th_Typeflag hdr = TypeDir then
           Inr (entry\<lparr>pe_Type := EntryDir\<rparr>,
                if has_suffix (th_Name hdr) ''/'' then butlast (th_Name hdr) else th_Name hdr)
         else if th_Typeflag hdr = TypeSymlink then
           rbind (validateSymlinkTargetPath nfc (th_Linkname hdr)) (\<lambda>_.
             Inr (entry\<lparr>pe_Type := EntrySymlink, pe_LinkTarget := th_Linkname hdr\<rparr>, th_Name hdr))
         else Inl (UnsupportedType (th_Name hdr) (th_Typeflag hdr)))
        (\<lambda>(entry, name).
           rbind (validatePayloadPath nfc name) (\<lambda>_. Inr (entry\<lparr>pe_Path := name\<rparr>))))"

subsection \<open>The integrity manifest\<close>

definition filesSchemaVersion :: int where "filesSchemaVersion = 1"
definition hashAlgorithmSHA256 :: string where "hashAlgorithmSHA256 = ''sha256''"
definition hashHexLen :: nat where "hashHexLen = 64"

record fileEntry =
  fe_path :: string
  fe_size :: int
  fe_hash :: string

text \<open>\<open>filesManifest\<close> is its index by path.\<close>

definition validateHashHex :: "string \<Rightarrow> archiveError + unit" where
  "validateHashHex s =
     (if length s \<noteq> hashHexLen then Inl (FileEntryHash s)
      else if list_all (\<lambda>c. CHR ''0'' \<le> c \<and> c \<le> CHR ''9'' \<or> CHR ''a'' \<le> c \<and> c \<le> CHR ''f'') s then Inr ()
      else Inl (FileEntryHash s))"

definition need :: "nat \<Rightarrow> string \<Rightarrow> 'a option \<Rightarrow> archiveError + 'a" where
  "need i field v = (case v of None \<Rightarrow> Inl (FileEntryMissing i field) | Some a \<Rightarrow> Inr a)"

definition decodeFileEntry :: "nat \<Rightarrow> string \<Rightarrow> wireFileEntry \<Rightarrow> archiveError + fileEntry" where
  "decodeFileEntry i prevPath we =
     rbind (need i ''path'' (wf_Path we)) (\<lambda>path.
     rbind (need i ''size'' (wf_Size we)) (\<lambda>size.
     rbind (need i ''hash'' (wf_Hash we)) (\<lambda>hash.
     if size < 0 then Inl (FileEntryNegative path) else
     rbind (validateHashHex hash) (\<lambda>_.
     if 0 < i \<and> path < prevPath then Inl (FilesUnsorted prevPath path)
     else if 0 < i \<and> path = prevPath then Inl (FilesDuplicate path)
     else Inr \<lparr>fe_path = path, fe_size = size, fe_hash = hash\<rparr>))))"

fun decodeFileEntries ::
    "nat \<Rightarrow> string \<Rightarrow> wireFileEntry list \<Rightarrow> fileEntry gomap \<Rightarrow> archiveError + fileEntry gomap" where
  "decodeFileEntries i prevPath [] byPath = Inr byPath"
| "decodeFileEntries i prevPath (we # rest) byPath =
     rbind (decodeFileEntry i prevPath we) (\<lambda>fe.
       decodeFileEntries (Suc i) (fe_path fe) rest (map_put byPath (fe_path fe) fe))"

definition decodeFiles :: "verifier \<Rightarrow> string \<Rightarrow> archiveError + fileEntry gomap" where
  "decodeFiles v data =
     (case v_files v data of
        None \<Rightarrow> Inl FilesInvalid
      | Some w \<Rightarrow>
          (case (wfs_SchemaVersion w, wfs_Algorithm w, wfs_Entries w) of
             (None, _, _) \<Rightarrow> Inl (FilesMissing ''schema_version'')
           | (_, None, _) \<Rightarrow> Inl (FilesMissing ''algorithm'')
           | (_, _, None) \<Rightarrow> Inl (FilesMissing ''entries'')
           | (Some schema, Some algorithm, Some entries) \<Rightarrow>
               if schema \<noteq> filesSchemaVersion then Inl (FilesUnsupported ''schema_version'')
               else if algorithm \<noteq> hashAlgorithmSHA256 then Inl (FilesUnsupported algorithm)
               else decodeFileEntries 0 [] entries []))"

subsection \<open>The walk\<close>

definition tarBlock :: int where "tarBlock = 512"
definition maxDecompressed :: int where "maxDecompressed = 4294967296"
definition maxManifest :: int where "maxManifest = 16777216"
definition maxFiles :: int where "maxFiles = 67108864"
definition maxSignature :: int where "maxSignature = 65536"
definition maxPayloadEntries :: nat where "maxPayloadEntries = 100000"
definition decompressionAllowance :: int where "decompressionAllowance = 335544320"
definition NoDeclaredSize :: int where "NoDeclaredSize = - 1"
definition metadataManifest :: string where "metadataManifest = ''.peipkg/manifest.json''"
definition metadataFiles :: string where "metadataFiles = ''.peipkg/files.json''"
definition metadataSignature :: string where "metadataSignature = ''.peipkg/signature''"

text \<open>Reads through the capped reader.\<close>

definition contentOf :: "int \<Rightarrow> tarItem \<Rightarrow> string option" where
  "contentOf limit item = (if ti_ContentEnd item > limit then None else ti_Content item)"

definition readMetadata :: "int \<Rightarrow> tarItem \<Rightarrow> int \<Rightarrow> string \<Rightarrow> archiveError + string" where
  "readMetadata cap item limit label =
     (if th_Typeflag (ti_Header item) \<noteq> TypeReg then Inl (NotRegular label)
      else if th_Size (ti_Header item) > limit then Inl (MetadataTooLarge label (th_Size (ti_Header item)))
      else (case contentOf cap item of None \<Rightarrow> Inl ArchiveUnreadable | Some data \<Rightarrow> Inr data))"

definition decodeManifest :: "verifier \<Rightarrow> string \<Rightarrow> archiveError + Manifest" where
  "decodeManifest v data =
     (case v_manifest v data of
        None \<Rightarrow> Inl (ManifestInvalid None)
      | Some w \<Rightarrow> rmap_err (\<lambda>e. ManifestInvalid (Some e)) (validate (v_ext v) w))"

definition verifyFileContent :: "verifier \<Rightarrow> int \<Rightarrow> tarItem \<Rightarrow> string \<Rightarrow> fileEntry \<Rightarrow> archiveError + unit" where
  "verifyFileContent v cap item path fe =
     (case contentOf cap item of
        None \<Rightarrow> Inl ArchiveUnreadable
      | Some data \<Rightarrow>
          let got = hexEncode (k_sha256 (v_crypto v) data) in
          if int (length data) \<noteq> fe_size fe then Inl (FileSizeMismatch path (int (length data)) (fe_size fe))
          else if got \<noteq> fe_hash fe then Inl (FileHashMismatch path got (fe_hash fe))
          else Inr ())"

record walkResult =
  wr_manifest :: "Manifest option"
  wr_manifestJSON :: string
  wr_payload :: "PayloadEntry list"
  wr_envelope :: "Envelope option"
  wr_signedLen :: int

text \<open>The variables of the loop beside the result; the limit is the capped reader's.\<close>

record walkState = walkResult +
  wk_limit :: int
  wk_files :: "fileEntry gomap option"
  wk_index :: nat
  wk_seenFiles :: "bool gomap"
  wk_havePayload :: bool
  wk_prevPayload :: string

definition startState :: "int \<Rightarrow> walkState" where
  "startState declared =
     \<lparr>wr_manifest = None, wr_manifestJSON = [], wr_payload = [], wr_envelope = None, wr_signedLen = 0,
      wk_limit = (if 0 \<le> declared then min maxDecompressed (wrap64 (declared + decompressionAllowance)) else maxDecompressed),
      wk_files = None, wk_index = 0, wk_seenFiles = [], wk_havePayload = False, wk_prevPayload = []\<rparr>"

definition manifestStep :: "verifier \<Rightarrow> int \<Rightarrow> tarItem \<Rightarrow> walkState \<Rightarrow> archiveError + walkState" where
  "manifestStep v declared item st =
     (let hdr = ti_Header item in
      if th_Name hdr \<noteq> metadataManifest then Inl (UnexpectedEntry (th_Name hdr) metadataManifest) else
      rbind (readMetadata (wk_limit st) item maxManifest ''manifest.json'') (\<lambda>data.
      rbind (decodeManifest v data) (\<lambda>m.
      rbind (checkCanonicalModTime hdr (b_Timestamp (m_Build m))) (\<lambda>_.
      if 0 \<le> declared \<and> m_SizeInstalled m \<noteq> declared then Inl (SizeDisagrees (m_SizeInstalled m) declared)
      else Inr (st\<lparr>wr_manifest := Some m, wr_manifestJSON := data,
        wk_limit := (if 0 \<le> declared then wk_limit st
                     else min maxDecompressed (wrap64 (m_SizeInstalled m + decompressionAllowance)))\<rparr>)))))"

definition filesStep :: "verifier \<Rightarrow> tarItem \<Rightarrow> walkState \<Rightarrow> archiveError + walkState" where
  "filesStep v item st =
     (let hdr = ti_Header item in
      if th_Name hdr \<noteq> metadataFiles then Inl (UnexpectedEntry (th_Name hdr) metadataFiles) else
      rbind (readMetadata (wk_limit st) item maxFiles ''files.json'') (\<lambda>data.
      rbind (decodeFiles v data) (\<lambda>files. Inr (st\<lparr>wk_files := Some files\<rparr>))))"

text \<open>The signed bytes end where the header block of the signature begins.\<close>

definition signatureStep :: "verifier \<Rightarrow> tarItem \<Rightarrow> tarItem list \<Rightarrow> int option \<Rightarrow> walkState \<Rightarrow> archiveError + walkState" where
  "signatureStep v item rest ends st =
     (let hdr = ti_Header item in
      if th_PAXRecords hdr \<noteq> [] then Inl SignatureExtended else
      rbind (readMetadata (wk_limit st) item maxSignature ''signature'') (\<lambda>data.
      rbind (rmap_err SignatureInvalid (DecodeEnvelope (v_json v) data)) (\<lambda>envelope.
      (case (rest, ends) of
         ([], Some end) \<Rightarrow>
           if end > wk_limit st then Inl SignatureNotLast
           else Inr (st\<lparr>wr_signedLen := ti_HeaderEnd item - tarBlock, wr_envelope := Some envelope\<rparr>)
       | _ \<Rightarrow> Inl SignatureNotLast))))"

definition fileStep :: "verifier \<Rightarrow> tarItem \<Rightarrow> PayloadEntry \<Rightarrow> walkState \<Rightarrow> archiveError + PayloadEntry \<times> walkState" where
  "fileStep v item entry st =
     (if pe_Type entry \<noteq> EntryFile then Inr (entry, st)
      else (case map_get (the (wk_files st)) (pe_Path entry) of
              None \<Rightarrow> Inl (NoFilesEntry (pe_Path entry))
            | Some fe \<Rightarrow>
                rbind (verifyFileContent v (wk_limit st) item (pe_Path entry) fe) (\<lambda>_.
                  Inr (entry\<lparr>pe_Hash := fe_hash fe\<rparr>,
                       st\<lparr>wk_seenFiles := map_put (wk_seenFiles st) (pe_Path entry) True\<rparr>))))"

definition payloadStep :: "verifier \<Rightarrow> tarItem \<Rightarrow> walkState \<Rightarrow> archiveError + walkState" where
  "payloadStep v item st =
     (let hdr = ti_Header item in
      rbind (payloadEntry (x_nfc (v_ext v)) hdr) (\<lambda>entry.
      if wk_havePayload st \<and> th_Name hdr \<le> wk_prevPayload st then Inl (PayloadUnsorted (th_Name hdr) (wk_prevPayload st))
      else if length (wr_payload st) = maxPayloadEntries then Inl TooManyEntries
      else rbind (fileStep v item entry st) (\<lambda>(entry, st).
        Inr (st\<lparr>wr_payload := wr_payload st @ [entry], wk_havePayload := True, wk_prevPayload := th_Name hdr\<rparr>))))"

text \<open>The checks made on every entry, before the manifest is known on the first.\<close>

definition headerChecks :: "tarHeader \<Rightarrow> walkState \<Rightarrow> archiveError + unit" where
  "headerChecks hdr st =
     rbind (checkCanonicalHeader hdr) (\<lambda>_.
       case wr_manifest st of
         None \<Rightarrow> Inr ()
       | Some m \<Rightarrow> checkCanonicalModTime hdr (b_Timestamp (m_Build m)))"

text \<open>One round of the loop; the signature is the last one.\<close>

definition walkEntry ::
    "verifier \<Rightarrow> int \<Rightarrow> int option \<Rightarrow> tarItem \<Rightarrow> tarItem list \<Rightarrow> walkState \<Rightarrow> archiveError + walkState \<times> bool" where
  "walkEntry v declared ends item rest st =
     (let hdr = ti_Header item;
          next = (\<lambda>r. rbind r (\<lambda>st. Inr (st\<lparr>wk_index := Suc (wk_index st)\<rparr>, False))) in
      if ti_HeaderEnd item > wk_limit st then Inl ArchiveUnreadable else
      rbind (headerChecks hdr st) (\<lambda>_.
      if wk_index st = 0 then next (manifestStep v declared item st)
      else if wk_index st = 1 then next (filesStep v item st)
      else if th_Name hdr = metadataSignature then
        rbind (signatureStep v item rest ends st) (\<lambda>st. Inr (st, True))
      else if has_prefix (th_Name hdr) metadataPrefix then
        (if wk_havePayload st then Inl (MetadataAfterPayload (th_Name hdr)) else next (Inr st))
      else next (payloadStep v item st)))"

fun walkLoop :: "verifier \<Rightarrow> int \<Rightarrow> int option \<Rightarrow> tarItem list \<Rightarrow> walkState \<Rightarrow> archiveError + walkState" where
  "walkLoop v declared ends [] st =
     (case ends of
        None \<Rightarrow> Inl ArchiveUnreadable
      | Some end \<Rightarrow> if end > wk_limit st then Inl ArchiveUnreadable else Inr st)"
| "walkLoop v declared ends (item # rest) st =
     (case walkEntry v declared ends item rest st of
        Inl e \<Rightarrow> Inl e
      | Inr (st', stop) \<Rightarrow> if stop then Inr st' else walkLoop v declared ends rest st')"

text \<open>The loop as a chain of steps.\<close>

lemma walkLoop_Cons:
  "walkLoop v declared ends (item # rest) st =
     (let hdr = ti_Header item; next = (\<lambda>st. walkLoop v declared ends rest (st\<lparr>wk_index := Suc (wk_index st)\<rparr>)) in
      if ti_HeaderEnd item > wk_limit st then Inl ArchiveUnreadable else
      rbind (headerChecks hdr st) (\<lambda>_.
      if wk_index st = 0 then rbind (manifestStep v declared item st) next
      else if wk_index st = 1 then rbind (filesStep v item st) next
      else if th_Name hdr = metadataSignature then signatureStep v item rest ends st
      else if has_prefix (th_Name hdr) metadataPrefix then
        (if wk_havePayload st then Inl (MetadataAfterPayload (th_Name hdr)) else next st)
      else rbind (payloadStep v item st) next))"
  by (simp add: walkEntry_def Let_def rbind_def split: sum.split)

definition checkInstalledSize :: "int \<Rightarrow> fileEntry gomap \<Rightarrow> archiveError + unit" where
  "checkInstalledSize declared files =
     (let sum = foldl (\<lambda>sum (path, fe). wrap64 (sum + fe_size fe)) 0 (map_entries files) in
      if sum \<noteq> declared then Inl (SizeDisagrees declared sum) else Inr ())"

definition checkSDOverrideTargets :: "Manifest \<Rightarrow> PayloadEntry list \<Rightarrow> archiveError + unit" where
  "checkSDOverrideTargets m payload =
     (let kinds = map_put_all pe_Path pe_Type [] payload in
      each_res (\<lambda>override. case map_get kinds (so_Path override) of
          None \<Rightarrow> Inl (OverrideUnknown (so_Path override))
        | Some kind \<Rightarrow> if kind = EntrySymlink then Inl (OverrideSymlink (so_Path override)) else Inr ())
        (m_SDOverrides m))"

definition walkArchive :: "verifier \<Rightarrow> archiveFile \<Rightarrow> int \<Rightarrow> archiveError + walkState" where
  "walkArchive v file declared =
     (case file of
        None \<Rightarrow> Inl ArchiveUnreadable
      | Some t \<Rightarrow>
          rbind (walkLoop v declared (ta_End t) (ta_Items t) (startState declared)) (\<lambda>st.
          (case (wr_manifest st, wk_files st) of
             (Some m, Some files) \<Rightarrow>
               if length (map_keys (wk_seenFiles st)) \<noteq> length (map_keys files)
               then Inl (FilesUnmatched (int (length (map_keys files)) - int (length (map_keys (wk_seenFiles st)))))
               else rbind (checkInstalledSize (m_SizeInstalled m) files) (\<lambda>_.
                    rbind (checkSDOverrideTargets m (wr_payload st)) (\<lambda>_. Inr st))
           | _ \<Rightarrow> Inl ArchiveIncomplete)))"

subsection \<open>Verification\<close>

record verifiedPackage =
  vp_Package :: archivePackage
  vp_Signed :: bool

definition packageOf :: "walkState \<Rightarrow> archivePackage" where
  "packageOf st =
     \<lparr>ap_Manifest = the (wr_manifest st), ap_ManifestJSON = wr_manifestJSON st, ap_Payload = wr_payload st\<rparr>"

definition signedDigest :: "verifier \<Rightarrow> archiveFile \<Rightarrow> int \<Rightarrow> archiveError + string" where
  "signedDigest v file signedLen =
     (case file of
        None \<Rightarrow> Inl ArchiveUnreadable
      | Some t \<Rightarrow>
          if int (length (ta_Bytes t)) < signedLen then Inl ArchiveUnreadable
          else Inr (k_sha256 (v_crypto v) (take (nat signedLen) (ta_Bytes t))))"

definition VerifyArchive ::
    "verifier \<Rightarrow> archiveFile \<Rightarrow> (string \<Rightarrow> string \<times> bool) \<Rightarrow> int \<Rightarrow> archiveError + verifiedPackage" where
  "VerifyArchive v file resolveKey declared =
     (case walkArchive v file declared of
        Inl e \<Rightarrow> Inl e
      | Inr st \<Rightarrow>
          (case wr_envelope st of
             None \<Rightarrow> Inr \<lparr>vp_Package = packageOf st, vp_Signed = False\<rparr>
           | Some envelope \<Rightarrow>
               rbind (signedDigest v file (wr_signedLen st)) (\<lambda>digest.
               let (key, ok) = resolveKey (ev_KeyFingerprint envelope) in
               if \<not> ok then Inl (UntrustedKey (ev_KeyFingerprint envelope)) else
               rbind (rmap_err SignatureInvalid (Verify (v_crypto v) envelope key digest)) (\<lambda>_.
                 Inr \<lparr>vp_Package = packageOf st, vp_Signed = True\<rparr>))))"

definition VerifyFormat :: "verifier \<Rightarrow> archiveFile \<Rightarrow> int \<Rightarrow> archiveError + verifiedPackage" where
  "VerifyFormat v file declared =
     rbind (walkArchive v file declared) (\<lambda>st.
       Inr \<lparr>vp_Package = packageOf st, vp_Signed = (wr_envelope st \<noteq> None)\<rparr>)"

definition ReadManifest :: "verifier \<Rightarrow> archiveFile \<Rightarrow> archiveError + Manifest" where
  "ReadManifest v file =
     (case file of
        None \<Rightarrow> Inl ArchiveUnreadable
      | Some t \<Rightarrow>
          (case ta_Items t of
             [] \<Rightarrow> Inl ArchiveUnreadable
           | item # rest \<Rightarrow>
               let limit = maxManifest + 4 * tarBlock in
               if ti_HeaderEnd item > limit then Inl ArchiveUnreadable
               else if th_Name (ti_Header item) \<noteq> metadataManifest
               then Inl (UnexpectedEntry (th_Name (ti_Header item)) metadataManifest)
               else rbind (readMetadata limit item maxManifest ''manifest.json'') (decodeManifest v)))"

subsection \<open>Extraction\<close>

text \<open>
  The entries handed to the callback with the content it can read, \<open>None\<close> where reading fails,
  and the error the walk ends with. An error of the callback itself ends the walk too and is the
  caller's.
\<close>

fun extractLoop ::
    "(string \<Rightarrow> bool) \<Rightarrow> int option \<Rightarrow> tarItem list \<Rightarrow>
     (PayloadEntry \<times> string option) list \<times> archiveError option" where
  "extractLoop nfc ends [] = ([], if ends = None then Some ArchiveUnreadable else None)"
| "extractLoop nfc ends (item # rest) =
     (if has_prefix (th_Name (ti_Header item)) metadataPrefix then extractLoop nfc ends rest
      else (case payloadEntry nfc (ti_Header item) of
              Inl e \<Rightarrow> ([], Some e)
            | Inr entry \<Rightarrow>
                (case ti_Content item of
                   None \<Rightarrow> ([(entry, None)], Some ArchiveUnreadable)
                 | Some data \<Rightarrow>
                     (let (out, err) = extractLoop nfc ends rest in ((entry, Some data) # out, err)))))"

definition Extract ::
    "(string \<Rightarrow> bool) \<Rightarrow> archiveFile \<Rightarrow> (PayloadEntry \<times> string option) list \<times> archiveError option" where
  "Extract nfc file =
     (case file of None \<Rightarrow> ([], Some ArchiveUnreadable) | Some t \<Rightarrow> extractLoop nfc (ta_End t) (ta_Items t))"

end
