(* ===== verification/ArchiveFacts.thy ===== *)
theory ArchiveFacts
  imports Archive
begin

section \<open>What a verified archive is\<close>

text \<open>
  An archive that passes verification has the structure the format asks for, every regular file of
  its payload has the content the integrity manifest lists, and extracting it gives exactly the
  entries that were verified.
\<close>

subsection \<open>Paths\<close>

lemma split_byte_hd: "hd (split_byte c s) = takeWhile (\<lambda>x. x \<noteq> c) s"
  by (induction s) (auto split: list.split)

text \<open>A path a payload entry may have.\<close>

definition payloadPath :: "(string \<Rightarrow> bool) \<Rightarrow> string \<Rightarrow> bool" where
  "payloadPath nfc p \<longleftrightarrow>
     CheckPathBytes nfc p = Inr () \<and> set (split_byte (CHR ''/'') p) \<inter> {[], ''.'', ''..''} = {} \<and>
     hd (split_byte (CHR ''/'') p) \<noteq> ''.peipkg''"

lemma reserved_iff:
  "p = ''.peipkg'' \<or> has_prefix p metadataPrefix \<longleftrightarrow> hd (split_byte (CHR ''/'') p) = ''.peipkg''"
proof -
  have "takeWhile (\<lambda>x. x \<noteq> CHR ''/'') p = ''.peipkg'' \<longleftrightarrow> p = ''.peipkg'' \<or> (\<exists>q. p = ''.peipkg/'' @ q)"
  proof
    assume first: "takeWhile (\<lambda>x. x \<noteq> CHR ''/'') p = ''.peipkg''"
    have p: "p = takeWhile (\<lambda>x. x \<noteq> CHR ''/'') p @ dropWhile (\<lambda>x. x \<noteq> CHR ''/'') p" by simp
    show "p = ''.peipkg'' \<or> (\<exists>q. p = ''.peipkg/'' @ q)"
    proof (cases "dropWhile (\<lambda>x. x \<noteq> CHR ''/'') p")
      case Nil
      with p first show ?thesis by simp
    next
      case (Cons y q)
      then have "y = CHR ''/''" using hd_dropWhile [of "\<lambda>x. x \<noteq> CHR ''/''" p] by simp
      with p first Cons show ?thesis by simp
    qed
  qed auto
  then show ?thesis by (simp add: split_byte_hd has_prefix_def metadataPrefix_def prefix_def)
qed

lemma validatePayloadPath_iff: "validatePayloadPath nfc p = Inr () \<longleftrightarrow> payloadPath nfc p"
proof (cases p)
  case Nil
  then show ?thesis by (simp add: validatePayloadPath_def payloadPath_def)
next
  case (Cons c cs)
  have "c = CHR ''/'' \<Longrightarrow> [] \<in> set (split_byte (CHR ''/'') p)" by (simp add: Cons)
  then show ?thesis
    using reserved_iff [of p]
    by (auto simp: validatePayloadPath_def payloadPath_def checkPathBytes_def result_simps Cons
        CheckPathComponents_def checkComponents_iff has_prefix_def)
qed

text \<open>A symbolic link's target is relative, and of the same bytes.\<close>

lemma validateSymlinkTargetPath_iff:
  "validateSymlinkTargetPath nfc t = Inr () \<longleftrightarrow> t \<noteq> [] \<and> hd t \<noteq> CHR ''/'' \<and> CheckPathBytes nfc t = Inr ()"
  by (cases t) (auto simp: validateSymlinkTargetPath_def checkPathBytes_def result_simps has_prefix_def)

lemma payloadEntry_ok:
  assumes "payloadEntry nfc hdr = Inr e"
  shows "payloadPath nfc (pe_Path e)" and "pe_Hash e = []"
    and "pe_Type e = EntrySymlink \<Longrightarrow>
      pe_LinkTarget e \<noteq> [] \<and> hd (pe_LinkTarget e) \<noteq> CHR ''/'' \<and> CheckPathBytes nfc (pe_LinkTarget e) = Inr ()"
  using assms
  by (auto simp: payloadEntry_def Let_def result_simps validatePayloadPath_iff validateSymlinkTargetPath_iff
      split: if_splits)

subsection \<open>One entry\<close>

text \<open>What the walk makes of the item of a payload entry, against the integrity manifest.\<close>

definition verifiedAs :: "verifier \<Rightarrow> fileEntry gomap \<Rightarrow> tarItem \<Rightarrow> PayloadEntry \<Rightarrow> bool" where
  "verifiedAs v files item entry \<longleftrightarrow>
     (\<exists>e. payloadEntry (x_nfc (v_ext v)) (ti_Header item) = Inr e \<and>
        (if pe_Type e = EntryFile then
           \<exists>fe data. map_get files (pe_Path e) = Some fe \<and> ti_Content item = Some data \<and>
             int (length data) = fe_size fe \<and> hexEncode (k_sha256 (v_crypto v) data) = fe_hash fe \<and>
             entry = e\<lparr>pe_Hash := fe_hash fe\<rparr>
         else entry = e))"

definition payloadItems :: "tarItem list \<Rightarrow> tarItem list" where
  "payloadItems items = filter (\<lambda>i. \<not> has_prefix (th_Name (ti_Header i)) metadataPrefix) items"

definition filePaths :: "PayloadEntry list \<Rightarrow> string set" where
  "filePaths es = pe_Path ` {e \<in> set es. pe_Type e = EntryFile}"

lemma payloadStep_ok:
  assumes "payloadStep v item st = Inr st'" and "wk_files st = Some files"
  shows "\<exists>entry. verifiedAs v files item entry \<and>
    st' = st\<lparr>wr_payload := wr_payload st @ [entry], wk_havePayload := True, wk_prevPayload := th_Name (ti_Header item),
      wk_seenFiles := (if pe_Type entry = EntryFile then map_put (wk_seenFiles st) (pe_Path entry) True else wk_seenFiles st)\<rparr> \<and>
    (wk_havePayload st \<longrightarrow> wk_prevPayload st < th_Name (ti_Header item)) \<and> length (wr_payload st) \<noteq> maxPayloadEntries"
proof -
  from assms(1) obtain e where e: "payloadEntry (x_nfc (v_ext v)) (ti_Header item) = Inr e"
    and order: "\<not> (wk_havePayload st \<and> th_Name (ti_Header item) \<le> wk_prevPayload st)"
      "length (wr_payload st) \<noteq> maxPayloadEntries"
    and step: "rbind (fileStep v item e st) (\<lambda>(entry, st).
        Inr (st\<lparr>wr_payload := wr_payload st @ [entry], wk_havePayload := True,
          wk_prevPayload := th_Name (ti_Header item)\<rparr>)) = Inr st'"
    by (auto simp: payloadStep_def Let_def result_simps split: if_splits)
  show ?thesis
  proof (cases "pe_Type e = EntryFile")
    case True
    with step assms(2) obtain fe data where fe: "map_get files (pe_Path e) = Some fe" "ti_Content item = Some data"
      "int (length data) = fe_size fe" "hexEncode (k_sha256 (v_crypto v) data) = fe_hash fe"
      "st' = st\<lparr>wr_payload := wr_payload st @ [e\<lparr>pe_Hash := fe_hash fe\<rparr>], wk_havePayload := True,
         wk_prevPayload := th_Name (ti_Header item), wk_seenFiles := map_put (wk_seenFiles st) (pe_Path e) True\<rparr>"
      by (auto simp: fileStep_def verifyFileContent_def contentOf_def Let_def result_simps
          split: option.splits if_splits)
    with e order True show ?thesis
      by (intro exI [of _ "e\<lparr>pe_Hash := fe_hash fe\<rparr>"]) (auto simp: verifiedAs_def)
  next
    case False
    with step e order show ?thesis
      by (intro exI [of _ e]) (auto simp: fileStep_def verifiedAs_def)
  qed
qed

subsection \<open>The entries after the integrity manifest\<close>

definition itemName :: "tarItem \<Rightarrow> string" where
  "itemName i = th_Name (ti_Header i)"

text \<open>Every header is canonical and carries the build's time.\<close>

definition canonical :: "Manifest \<Rightarrow> tarItem \<Rightarrow> bool" where
  "canonical m i \<longleftrightarrow>
     checkCanonicalHeader (ti_Header i) = Inr () \<and> th_ModTime (ti_Header i) = b_Timestamp (m_Build m)"

text \<open>A signature is the last entry or there is none.\<close>

definition sealed :: "verifier \<Rightarrow> tarItem list \<Rightarrow> walkState \<Rightarrow> bool" where
  "sealed v items st \<longleftrightarrow>
     (case wr_envelope st of
        None \<Rightarrow> metadataSignature \<notin> itemName ` set items
      | Some envelope \<Rightarrow>
          \<exists>pre item data. items = pre @ [item] \<and> metadataSignature \<notin> itemName ` set pre \<and>
            itemName item = metadataSignature \<and> ti_Content item = Some data \<and>
            DecodeEnvelope (v_json v) data = Inr envelope \<and> wr_signedLen st = ti_HeaderEnd item - tarBlock)"

definition walked :: "verifier \<Rightarrow> Manifest \<Rightarrow> fileEntry gomap \<Rightarrow> tarItem list \<Rightarrow> walkState \<Rightarrow> walkState \<Rightarrow> bool" where
  "walked v m files items st st' \<longleftrightarrow>
     wr_manifest st' = Some m \<and> wk_files st' = Some files \<and> wr_manifestJSON st' = wr_manifestJSON st \<and>
     (\<exists>es. wr_payload st' = wr_payload st @ es \<and> list_all2 (verifiedAs v files) (payloadItems items) es \<and>
        dom (map_get (wk_seenFiles st')) = dom (map_get (wk_seenFiles st)) \<union> filePaths es) \<and>
     (length (wr_payload st) \<le> maxPayloadEntries \<longrightarrow> length (wr_payload st') \<le> maxPayloadEntries) \<and>
     sorted_wrt (<) (map itemName (payloadItems items)) \<and>
     (wk_havePayload st \<longrightarrow> (\<forall>i\<in>set (payloadItems items). wk_prevPayload st < itemName i)) \<and>
     (\<forall>i\<in>set items. canonical m i) \<and> sealed v items st'"

lemma sealed_Cons:
  assumes "sealed v items st" and "itemName item \<noteq> metadataSignature"
  shows "sealed v (item # items) st"
proof (cases "wr_envelope st")
  case None
  with assms show ?thesis by (simp add: sealed_def)
next
  case (Some envelope)
  with assms(1) obtain pre last data where last: "items = pre @ [last]" "metadataSignature \<notin> itemName ` set pre"
    "itemName last = metadataSignature" "ti_Content last = Some data"
    "DecodeEnvelope (v_json v) data = Inr envelope" "wr_signedLen st = ti_HeaderEnd last - tarBlock"
    by (auto simp: sealed_def)
  with assms(2) have "item # items = (item # pre) @ [last]" "metadataSignature \<notin> itemName ` set (item # pre)" by auto
  with last Some show ?thesis unfolding sealed_def Some option.case by blast
qed

lemma walked_metadata:
  assumes "walked v m files items (st\<lparr>wk_index := n\<rparr>) st'" and "canonical m item"
    and "has_prefix (itemName item) metadataPrefix" and "itemName item \<noteq> metadataSignature"
  shows "walked v m files (item # items) st st'"
proof -
  have "payloadItems (item # items) = payloadItems items" using assms(3) by (simp add: payloadItems_def itemName_def)
  moreover have "sealed v (item # items) st'"
    using assms(1,4) sealed_Cons by (simp add: walked_def)
  ultimately show ?thesis using assms(1,2) by (simp add: walked_def)
qed

lemma walked_payload:
  assumes "walked v m files items (st1\<lparr>wk_index := n\<rparr>) st'" and "canonical m item"
    and "\<not> has_prefix (itemName item) metadataPrefix" and "verifiedAs v files item entry"
    and st1: "st1 = st\<lparr>wr_payload := wr_payload st @ [entry], wk_havePayload := True, wk_prevPayload := itemName item,
      wk_seenFiles := (if pe_Type entry = EntryFile then map_put (wk_seenFiles st) (pe_Path entry) True else wk_seenFiles st)\<rparr>"
    and "wk_havePayload st \<longrightarrow> wk_prevPayload st < itemName item" and "length (wr_payload st) \<noteq> maxPayloadEntries"
  shows "walked v m files (item # items) st st'"
proof -
  have items: "payloadItems (item # items) = item # payloadItems items"
    using assms(3) by (simp add: payloadItems_def itemName_def)
  have name: "itemName item \<noteq> metadataSignature"
    using assms(3) by (auto simp: has_prefix_def metadataPrefix_def metadataSignature_def)
  then have "sealed v (item # items) st'"
    using assms(1) sealed_Cons by (simp add: walked_def)
  moreover from assms(1) obtain es where es: "wr_payload st' = wr_payload st @ [entry] @ es"
    "list_all2 (verifiedAs v files) (payloadItems items) es"
    "dom (map_get (wk_seenFiles st')) = dom (map_get (wk_seenFiles st1)) \<union> filePaths es"
    by (auto simp: walked_def st1)
  moreover have "dom (map_get (wk_seenFiles st1)) \<union> filePaths es = dom (map_get (wk_seenFiles st)) \<union> filePaths (entry # es)"
    by (auto simp: st1 filePaths_def gomap.get_put split: if_splits)
  ultimately show ?thesis
    using assms(1,2,4,6,7)
    by (auto simp: walked_def items st1 intro!: exI [of _ "entry # es"] intro: less_trans)
qed

lemma signatureStep_ok:
  assumes "signatureStep v item rest ends st = Inr st'"
  shows "\<exists>data envelope. rest = [] \<and> ti_Content item = Some data \<and> DecodeEnvelope (v_json v) data = Inr envelope \<and>
    st' = st\<lparr>wr_signedLen := ti_HeaderEnd item - tarBlock, wr_envelope := Some envelope\<rparr>"
  using assms
  by (cases rest; cases ends)
     (auto simp: signatureStep_def readMetadata_def contentOf_def Let_def result_simps split: if_splits option.splits)

lemma walkLoop_tail:
  assumes "walkLoop v declared ends items st = Inr st'" and "2 \<le> wk_index st" and "wr_manifest st = Some m"
    and "wk_files st = Some files" and "wr_envelope st = None"
  shows "walked v m files items st st'"
  using assms
proof (induction items arbitrary: st)
  case Nil
  then have "st' = st" by (simp split: option.splits if_splits)
  with Nil show ?case by (simp add: walked_def payloadItems_def filePaths_def sealed_def)
next
  case (Cons item items)
  let ?next = "st\<lparr>wk_index := Suc (wk_index st)\<rparr>"
  have index: "wk_index st \<noteq> 0" "wk_index st \<noteq> 1" using Cons.prems(2) by auto
  from Cons.prems(1) index Cons.prems(3) have canonical: "canonical m item"
    and step: "(if itemName item = metadataSignature then signatureStep v item items ends st
      else if has_prefix (itemName item) metadataPrefix then
        (if wk_havePayload st then Inl (MetadataAfterPayload (itemName item)) else walkLoop v declared ends items ?next)
      else rbind (payloadStep v item st) (\<lambda>st. walkLoop v declared ends items (st\<lparr>wk_index := Suc (wk_index st)\<rparr>))) = Inr st'"
    by (auto simp: walkLoop_Cons Let_def result_simps headerChecks_def canonical_def checkCanonicalModTime_def itemName_def
        simp del: One_nat_def walkLoop.simps(2) split: if_splits)
  show ?case
  proof (cases "itemName item = metadataSignature")
    case True
    with step have "signatureStep v item items ends st = Inr st'" by simp
    from signatureStep_ok [OF this] obtain data envelope where sig: "items = []" "ti_Content item = Some data" "DecodeEnvelope (v_json v) data = Inr envelope"
      "st' = st\<lparr>wr_signedLen := ti_HeaderEnd item - tarBlock, wr_envelope := Some envelope\<rparr>"
      by blast
    have "has_prefix (itemName item) metadataPrefix"
      by (simp add: True has_prefix_def metadataPrefix_def metadataSignature_def)
    then have "payloadItems [item] = []" by (simp add: payloadItems_def itemName_def)
    with sig True canonical Cons.prems(3,4) show ?thesis
      by (simp add: walked_def filePaths_def sealed_def)
  next
    case unsigned: False
    show ?thesis
    proof (cases "has_prefix (itemName item) metadataPrefix")
      case True
      with step unsigned have "walkLoop v declared ends items ?next = Inr st'" by (simp split: if_splits)
      from Cons.IH [OF this] Cons.prems show ?thesis
        by (intro walked_metadata [OF _ canonical True unsigned]) simp_all
    next
      case False
      with step unsigned obtain st1 where "payloadStep v item st = Inr st1"
        and rest: "walkLoop v declared ends items (st1\<lparr>wk_index := Suc (wk_index st1)\<rparr>) = Inr st'"
        by (auto simp: result_simps)
      from payloadStep_ok [OF this(1) Cons.prems(4)] obtain entry where
        entry: "verifiedAs v files item entry"
          "st1 = st\<lparr>wr_payload := wr_payload st @ [entry], wk_havePayload := True, wk_prevPayload := itemName item,
             wk_seenFiles := (if pe_Type entry = EntryFile then map_put (wk_seenFiles st) (pe_Path entry) True
                              else wk_seenFiles st)\<rparr>"
          "wk_havePayload st \<longrightarrow> wk_prevPayload st < itemName item" "length (wr_payload st) \<noteq> maxPayloadEntries"
        by (auto simp: itemName_def)
      from Cons.IH [OF rest] Cons.prems entry(2) show ?thesis
        by (intro walked_payload [OF _ canonical False entry]) simp_all
    qed
  qed
qed

subsection \<open>The whole archive\<close>

lemma walkLoop_ends: "walkLoop v declared ends items st = Inr st' \<Longrightarrow> ends \<noteq> None"
proof (induction items arbitrary: st)
  case (Cons item items)
  show ?case
  proof (cases "signatureStep v item items ends st = Inr st'")
    case True
    then show ?thesis
      by (cases items; cases ends) (auto simp: signatureStep_def Let_def result_simps split: if_splits)
  next
    case False
    with Cons.prems Cons.IH show ?thesis
      by (auto simp: walkLoop_Cons Let_def result_simps simp del: walkLoop.simps(2) split: if_splits)
  qed
qed (simp split: option.splits)

lemma metadata_names:
  "has_prefix metadataManifest metadataPrefix" "has_prefix metadataFiles metadataPrefix"
  "has_prefix metadataSignature metadataPrefix" "metadataManifest \<noteq> metadataSignature" "metadataFiles \<noteq> metadataSignature"
  by (simp_all add: has_prefix_def metadataPrefix_def metadataManifest_def metadataFiles_def metadataSignature_def)

lemma readMetadata_ok: "readMetadata cap item limit label = Inr data \<Longrightarrow> ti_Content item = Some data"
  by (auto simp: readMetadata_def contentOf_def split: if_splits option.splits)

lemma headerChecks_first:
  assumes "headerChecks (ti_Header item) st = Inr ()" and "wr_manifest st = None"
    and "manifestStep v declared item st = Inr st1"
  shows "\<exists>w m data. itemName item = metadataManifest \<and> ti_Content item = Some data \<and> v_manifest v data = Some w \<and>
    validate (v_ext v) w = Inr m \<and> canonical m item \<and> (0 \<le> declared \<longrightarrow> m_SizeInstalled m = declared) \<and>
    st1 = st\<lparr>wr_manifest := Some m, wr_manifestJSON := data, wk_limit := wk_limit st1\<rparr>"
proof -
  from assms(3) obtain data m where
    name: "itemName item = metadataManifest" and data: "readMetadata (wk_limit st) item maxManifest ''manifest.json'' = Inr data"
    and m: "decodeManifest v data = Inr m" and time: "checkCanonicalModTime (ti_Header item) (b_Timestamp (m_Build m)) = Inr ()"
    and size: "0 \<le> declared \<longrightarrow> m_SizeInstalled m = declared"
    and st1: "st1 = st\<lparr>wr_manifest := Some m, wr_manifestJSON := data, wk_limit := wk_limit st1\<rparr>"
    by (auto simp: manifestStep_def itemName_def Let_def result_simps split: if_splits)
  from m obtain w where "v_manifest v data = Some w" "validate (v_ext v) w = Inr m"
    by (auto simp: decodeManifest_def result_simps split: option.splits)
  moreover have "canonical m item"
    using assms(1,2) time by (simp add: canonical_def headerChecks_def result_simps checkCanonicalModTime_def split: if_splits)
  ultimately show ?thesis using name readMetadata_ok [OF data] size st1 by blast
qed

definition readAs :: "verifier \<Rightarrow> int \<Rightarrow> tarArchive \<Rightarrow> walkState \<Rightarrow> bool" where
  "readAs v declared t st \<longleftrightarrow>
     (\<exists>mi fi rest w m fdata files.
        ta_Items t = mi # fi # rest \<and> itemName mi = metadataManifest \<and> itemName fi = metadataFiles \<and>
        ti_Content mi = Some (wr_manifestJSON st) \<and> v_manifest v (wr_manifestJSON st) = Some w \<and>
        validate (v_ext v) w = Inr m \<and> wr_manifest st = Some m \<and> (0 \<le> declared \<longrightarrow> m_SizeInstalled m = declared) \<and>
        ti_Content fi = Some fdata \<and> decodeFiles v fdata = Inr files \<and> wk_files st = Some files \<and>
        list_all2 (verifiedAs v files) (payloadItems (ta_Items t)) (wr_payload st) \<and>
        dom (map_get (wk_seenFiles st)) = filePaths (wr_payload st) \<and>
        length (wr_payload st) \<le> maxPayloadEntries \<and>
        sorted_wrt (<) (map itemName (payloadItems (ta_Items t))) \<and>
        (\<forall>i\<in>set (ta_Items t). canonical m i) \<and> sealed v (ta_Items t) st)"

lemma walkLoop_ok:
  assumes "walkLoop v declared (ta_End t) (ta_Items t) (startState declared) = Inr st"
    and "wr_manifest st \<noteq> None" and "wk_files st \<noteq> None"
  shows "readAs v declared t st"
proof -
  let ?st0 = "startState declared"
  have start: "wk_index ?st0 = 0" "wr_manifest ?st0 = None" "wk_files ?st0 = None" "wr_payload ?st0 = []"
    "wk_seenFiles ?st0 = []" "wr_envelope ?st0 = None" "\<not> wk_havePayload ?st0"
    by (simp_all add: startState_def)
  from assms start obtain mi items where items: "ta_Items t = mi # items"
    by (cases "ta_Items t") (auto split: option.splits if_splits)
  from assms(1) start obtain st1 where
    first: "headerChecks (ti_Header mi) ?st0 = Inr ()" "manifestStep v declared mi ?st0 = Inr st1"
    and rest1: "walkLoop v declared (ta_End t) items (st1\<lparr>wk_index := Suc (wk_index st1)\<rparr>) = Inr st"
    by (auto simp: items walkLoop_Cons Let_def result_simps simp del: walkLoop.simps(2) split: if_splits)
  from headerChecks_first [OF first(1) start(2) first(2)] obtain w m data where
    m: "itemName mi = metadataManifest" "ti_Content mi = Some data" "v_manifest v data = Some w"
      "validate (v_ext v) w = Inr m" "canonical m mi" "0 \<le> declared \<longrightarrow> m_SizeInstalled m = declared"
    and st1': "st1 = ?st0\<lparr>wr_manifest := Some m, wr_manifestJSON := data, wk_limit := wk_limit st1\<rparr>" by blast
  then obtain limit where st1: "st1 = ?st0\<lparr>wr_manifest := Some m, wr_manifestJSON := data, wk_limit := limit\<rparr>" by blast
  from rest1 assms(3) start obtain fi rest where items2: "items = fi # rest"
    by (cases items) (auto simp: st1 split: option.splits if_splits)
  from rest1 start obtain st2 where
    second: "headerChecks (ti_Header fi) (st1\<lparr>wk_index := 1\<rparr>) = Inr ()" "filesStep v fi (st1\<lparr>wk_index := 1\<rparr>) = Inr st2"
    and rest2: "walkLoop v declared (ta_End t) rest (st2\<lparr>wk_index := Suc (wk_index st2)\<rparr>) = Inr st"
    by (auto simp: items2 st1 walkLoop_Cons Let_def result_simps simp del: walkLoop.simps(2) split: if_splits)
  from second(2) obtain fdata files where
    f: "itemName fi = metadataFiles" "readMetadata (wk_limit st1) fi maxFiles ''files.json'' = Inr fdata"
      "decodeFiles v fdata = Inr files" and st2: "st2 = st1\<lparr>wk_index := 1, wk_files := Some files\<rparr>"
    by (auto simp: filesStep_def itemName_def Let_def result_simps split: if_splits)
  have fi: "canonical m fi"
    using second(1) by (simp add: canonical_def headerChecks_def result_simps checkCanonicalModTime_def st1 split: if_splits)
  have tail: "walked v m files rest (st2\<lparr>wk_index := Suc (wk_index st2)\<rparr>) st"
    by (rule walkLoop_tail [OF rest2]) (use start in \<open>simp_all add: st2 st1\<close>)
  have payload: "payloadItems (ta_Items t) = payloadItems rest"
    using m(1) f(1) metadata_names by (simp add: items items2 payloadItems_def itemName_def)
  have "sealed v (ta_Items t) st"
    unfolding items items2 using tail m(1) f(1) metadata_names by (intro sealed_Cons) (simp_all add: walked_def)
  with tail m f fi readMetadata_ok [OF f(2)] start show ?thesis
    unfolding readAs_def
    by (intro exI [of _ mi] exI [of _ fi] exI [of _ rest] exI [of _ w] exI [of _ m] exI [of _ fdata] exI [of _ files])
       (auto simp: walked_def payload [unfolded items items2] items items2 st2 st1)
qed

lemma walk_ok:
  assumes "walkArchive v (Some t) declared = Inr st"
  shows "readAs v declared t st" and "ta_End t \<noteq> None"
    and "\<exists>m files. wr_manifest st = Some m \<and> wk_files st = Some files \<and>
      length (map_keys (wk_seenFiles st)) = length (map_keys files) \<and>
      checkInstalledSize (m_SizeInstalled m) files = Inr () \<and> checkSDOverrideTargets m (wr_payload st) = Inr ()"
proof -
  from assms obtain st1 where
    loop1: "walkLoop v declared (ta_End t) (ta_Items t) (startState declared) = Inr st1"
    and checks: "(case (wr_manifest st1, wk_files st1) of
       (Some m, Some files) \<Rightarrow>
         if length (map_keys (wk_seenFiles st1)) \<noteq> length (map_keys files)
         then Inl (FilesUnmatched (int (length (map_keys files)) - int (length (map_keys (wk_seenFiles st1)))))
         else rbind (checkInstalledSize (m_SizeInstalled m) files) (\<lambda>_.
              rbind (checkSDOverrideTargets m (wr_payload st1)) (\<lambda>_. Inr st1))
     | _ \<Rightarrow> Inl ArchiveIncomplete) = Inr st"
    unfolding walkArchive_def option.case rbind_eq_Inr by blast
  from checks have "st1 = st" by (auto simp: result_simps split: option.splits if_splits)
  with loop1 checks obtain m files where
    loop: "walkLoop v declared (ta_End t) (ta_Items t) (startState declared) = Inr st"
    and *: "wr_manifest st = Some m" "wk_files st = Some files"
      "length (map_keys (wk_seenFiles st)) = length (map_keys files)"
      "checkInstalledSize (m_SizeInstalled m) files = Inr ()" "checkSDOverrideTargets m (wr_payload st) = Inr ()"
    by (cases "wr_manifest st"; cases "wk_files st") (auto simp: result_simps split: if_splits)
  show "readAs v declared t st" by (rule walkLoop_ok [OF loop]) (simp_all add: *)
  show "ta_End t \<noteq> None" by (rule walkLoop_ends [OF loop])
  show "\<exists>m files. wr_manifest st = Some m \<and> wk_files st = Some files \<and>
      length (map_keys (wk_seenFiles st)) = length (map_keys files) \<and>
      checkInstalledSize (m_SizeInstalled m) files = Inr () \<and> checkSDOverrideTargets m (wr_payload st) = Inr ()"
    using * by blast
qed

subsection \<open>Verification\<close>

text \<open>A key the resolver trusts signed all bytes before the header of the last entry, the signature.\<close>

definition trustedSignature :: "verifier \<Rightarrow> tarArchive \<Rightarrow> (string \<Rightarrow> string \<times> bool) \<Rightarrow> bool" where
  "trustedSignature v t resolveKey \<longleftrightarrow>
     (\<exists>pre item data envelope key.
        ta_Items t = pre @ [item] \<and> itemName item = metadataSignature \<and> ti_Content item = Some data \<and>
        DecodeEnvelope (v_json v) data = Inr envelope \<and>
        resolveKey (ev_KeyFingerprint envelope) = (key, True) \<and>
        Fingerprint (v_crypto v) key = ev_KeyFingerprint envelope \<and>
        k_verify (v_crypto v) key (k_sha256 (v_crypto v) (take (nat (ti_HeaderEnd item - tarBlock)) (ta_Bytes t)))
          (ev_Signature envelope))"

lemma list_all2_mem: "list_all2 P xs ys \<Longrightarrow> y \<in> set ys \<Longrightarrow> \<exists>x\<in>set xs. P x y"
  by (induction rule: list_all2_induct) auto

lemma verified_entry:
  assumes "verifiedAs v files item e"
  shows "\<exists>e0 h. payloadEntry (x_nfc (v_ext v)) (ti_Header item) = Inr e0 \<and> e = e0\<lparr>pe_Hash := h\<rparr>"
proof -
  from assms obtain e0 where "payloadEntry (x_nfc (v_ext v)) (ti_Header item) = Inr e0"
    and "e = e0 \<or> (\<exists>h. e = e0\<lparr>pe_Hash := h\<rparr>)"
    by (auto simp: verifiedAs_def split: if_splits)
  moreover have "e0 = e0\<lparr>pe_Hash := pe_Hash e0\<rparr>" by simp
  ultimately show ?thesis by metis
qed

lemma verified_file:
  assumes "verifiedAs v files item e" and "pe_Type e = EntryFile"
  shows "\<exists>fe data. map_get files (pe_Path e) = Some fe \<and> ti_Content item = Some data \<and>
    int (length data) = fe_size fe \<and> hexEncode (k_sha256 (v_crypto v) data) = fe_hash fe \<and> pe_Hash e = fe_hash fe"
proof -
  from assms(1) obtain e0 where e0: "if pe_Type e0 = EntryFile then
      \<exists>fe data. map_get files (pe_Path e0) = Some fe \<and> ti_Content item = Some data \<and>
        int (length data) = fe_size fe \<and> hexEncode (k_sha256 (v_crypto v) data) = fe_hash fe \<and>
        e = e0\<lparr>pe_Hash := fe_hash fe\<rparr>
    else e = e0"
    unfolding verifiedAs_def by blast
  show ?thesis
  proof (cases "pe_Type e0 = EntryFile")
    case True
    from e0 [unfolded if_P [OF True]] obtain fe data where "map_get files (pe_Path e0) = Some fe" "ti_Content item = Some data"
      "int (length data) = fe_size fe" "hexEncode (k_sha256 (v_crypto v) data) = fe_hash fe" "e = e0\<lparr>pe_Hash := fe_hash fe\<rparr>"
      by blast
    then show ?thesis by (intro exI [of _ fe] exI [of _ data]) simp
  next
    case False
    with e0 assms(2) show ?thesis by simp
  qed
qed

lemma filePaths_dom:
  assumes "list_all2 (verifiedAs v files) items es"
  shows "filePaths es \<subseteq> dom (map_get files)"
proof
  fix path assume "path \<in> filePaths es"
  then obtain e where e: "e \<in> set es" "pe_Type e = EntryFile" "path = pe_Path e" by (auto simp: filePaths_def)
  from list_all2_mem [OF assms e(1)] obtain item where "verifiedAs v files item e" by blast
  from verified_file [OF this e(2)] e(3) show "path \<in> dom (map_get files)" by auto
qed

lemma walk_covers:
  assumes "walkArchive v (Some t) declared = Inr st" and "wk_files st = Some files"
  shows "dom (map_get files) = filePaths (wr_payload st)"
proof -
  from walk_ok(1) [OF assms(1)] assms(2)
  have seen: "dom (map_get (wk_seenFiles st)) = filePaths (wr_payload st)"
    and payload: "list_all2 (verifiedAs v files) (payloadItems (ta_Items t)) (wr_payload st)"
    by (auto simp: readAs_def)
  have "card (dom (map_get (wk_seenFiles st))) = card (dom (map_get files))"
    using walk_ok(3) [OF assms(1)] assms(2) by (auto simp: gomap.length_keys)
  with card_subset_eq [OF gomap.finite_dom filePaths_dom [OF payload]] show ?thesis by (simp add: seen)
qed

lemma walk_overrides:
  assumes "walkArchive v (Some t) declared = Inr st" and "wr_manifest st = Some m" and "override \<in> set (m_SDOverrides m)"
  shows "\<exists>e\<in>set (wr_payload st). pe_Path e = so_Path override \<and> pe_Type e \<noteq> EntrySymlink"
proof -
  from walk_ok(3) [OF assms(1)] assms(2,3) have
    "(case map_get (map_put_all pe_Path pe_Type [] (wr_payload st)) (so_Path override) of
        None \<Rightarrow> Inl (OverrideUnknown (so_Path override))
      | Some kind \<Rightarrow> if kind = EntrySymlink then Inl (OverrideSymlink (so_Path override)) else Inr ()) = Inr ()"
    by (auto simp: checkSDOverrideTargets_def result_simps)
  then obtain kind where "map_get (map_put_all pe_Path pe_Type [] (wr_payload st)) (so_Path override) = Some kind"
    "kind \<noteq> EntrySymlink" by (auto split: option.splits if_splits)
  from map_get_put_all_Some [OF this(1)] this(2) show ?thesis by auto
qed

lemma payload_paths:
  assumes "list_all2 (verifiedAs v files) items es" and "e \<in> set es"
  shows "payloadPath (x_nfc (v_ext v)) (pe_Path e) \<and>
    (pe_Type e = EntrySymlink \<longrightarrow> pe_LinkTarget e \<noteq> [] \<and> hd (pe_LinkTarget e) \<noteq> CHR ''/'' \<and>
       CheckPathBytes (x_nfc (v_ext v)) (pe_LinkTarget e) = Inr ())"
proof -
  from list_all2_mem [OF assms] obtain item where "verifiedAs v files item e" by blast
  from verified_entry [OF this] obtain e0 h where e0: "payloadEntry (x_nfc (v_ext v)) (ti_Header item) = Inr e0"
    "e = e0\<lparr>pe_Hash := h\<rparr>" by blast
  from payloadEntry_ok(1,3) [OF e0(1)] show ?thesis by (simp add: e0(2))
qed

lemma VerifyArchive_walk:
  assumes "VerifyArchive v (Some t) resolveKey declared = Inr p"
  obtains st where "walkArchive v (Some t) declared = Inr st" and "vp_Package p = packageOf st"
    and "if vp_Signed p then trustedSignature v t resolveKey else metadataSignature \<notin> itemName ` set (ta_Items t)"
proof -
  from assms obtain st where st: "walkArchive v (Some t) declared = Inr st"
    and rest: "(case wr_envelope st of
       None \<Rightarrow> Inr \<lparr>vp_Package = packageOf st, vp_Signed = False\<rparr>
     | Some envelope \<Rightarrow>
         rbind (signedDigest v (Some t) (wr_signedLen st)) (\<lambda>digest.
         let (key, ok) = resolveKey (ev_KeyFingerprint envelope) in
         if \<not> ok then Inl (UntrustedKey (ev_KeyFingerprint envelope)) else
         rbind (rmap_err SignatureInvalid (Verify (v_crypto v) envelope key digest)) (\<lambda>_.
           Inr \<lparr>vp_Package = packageOf st, vp_Signed = True\<rparr>))) = Inr p"
    unfolding VerifyArchive_def by (auto split: sum.splits)
  have sealed: "sealed v (ta_Items t) st" using walk_ok(1) [OF st] by (auto simp: readAs_def)
  show thesis
  proof (cases "wr_envelope st")
    case None
    with rest sealed st show thesis by (intro that [of st]) (auto simp: sealed_def)
  next
    case (Some envelope)
    from sealed Some obtain pre item data where last: "ta_Items t = pre @ [item]" "itemName item = metadataSignature"
      "ti_Content item = Some data" "DecodeEnvelope (v_json v) data = Inr envelope"
      "wr_signedLen st = ti_HeaderEnd item - tarBlock"
      by (auto simp: sealed_def)
    obtain key ok where resolved: "resolveKey (ev_KeyFingerprint envelope) = (key, ok)" by force
    with rest Some have key: "resolveKey (ev_KeyFingerprint envelope) = (key, True)"
      "Fingerprint (v_crypto v) key = ev_KeyFingerprint envelope"
      "k_verify (v_crypto v) key (k_sha256 (v_crypto v) (take (nat (wr_signedLen st)) (ta_Bytes t))) (ev_Signature envelope)"
      and p: "p = \<lparr>vp_Package = packageOf st, vp_Signed = True\<rparr>"
      by (auto simp: signedDigest_def Verify_def result_simps split: if_splits)
    have "trustedSignature v t resolveKey" unfolding trustedSignature_def using last key by auto
    with st p show thesis by (intro that [of st]) simp_all
  qed
qed

text \<open>What verification says of a package, as the format describes it.\<close>

definition wellFormedPackage :: "verifier \<Rightarrow> tarArchive \<Rightarrow> archivePackage \<Rightarrow> bool" where
  "wellFormedPackage v t pkg \<longleftrightarrow>
     (\<exists>w. v_manifest v (ap_ManifestJSON pkg) = Some w \<and> validate (v_ext v) w = Inr (ap_Manifest pkg)) \<and>
     (\<exists>fdata files. decodeFiles v fdata = Inr files \<and>
        list_all2 (verifiedAs v files) (payloadItems (ta_Items t)) (ap_Payload pkg) \<and>
        dom (map_get files) = filePaths (ap_Payload pkg) \<and>
        checkInstalledSize (m_SizeInstalled (ap_Manifest pkg)) files = Inr ()) \<and>
     length (ap_Payload pkg) \<le> maxPayloadEntries \<and>
     sorted_wrt (<) (map itemName (payloadItems (ta_Items t))) \<and>
     (\<forall>i\<in>set (ta_Items t). canonical (ap_Manifest pkg) i) \<and>
     (\<forall>e\<in>set (ap_Payload pkg). payloadPath (x_nfc (v_ext v)) (pe_Path e) \<and>
        (pe_Type e = EntrySymlink \<longrightarrow> pe_LinkTarget e \<noteq> [] \<and> hd (pe_LinkTarget e) \<noteq> CHR ''/'' \<and>
           CheckPathBytes (x_nfc (v_ext v)) (pe_LinkTarget e) = Inr ())) \<and>
     (\<forall>override\<in>set (m_SDOverrides (ap_Manifest pkg)).
        \<exists>e\<in>set (ap_Payload pkg). pe_Path e = so_Path override \<and> pe_Type e \<noteq> EntrySymlink)"

lemma walk_package:
  assumes "walkArchive v (Some t) declared = Inr st"
  shows "wellFormedPackage v t (packageOf st)"
    and "0 \<le> declared \<longrightarrow> m_SizeInstalled (ap_Manifest (packageOf st)) = declared"
proof -
  note read = walk_ok(1) [OF assms, unfolded readAs_def]
  from read obtain w m fdata files where
    m: "v_manifest v (wr_manifestJSON st) = Some w" "validate (v_ext v) w = Inr m" "wr_manifest st = Some m"
      "0 \<le> declared \<longrightarrow> m_SizeInstalled m = declared"
    and f: "decodeFiles v fdata = Inr files" "wk_files st = Some files"
    and payload: "list_all2 (verifiedAs v files) (payloadItems (ta_Items t)) (wr_payload st)"
      "length (wr_payload st) \<le> maxPayloadEntries"
      "sorted_wrt (<) (map itemName (payloadItems (ta_Items t)))" "\<forall>i\<in>set (ta_Items t). canonical m i"
    by blast
  have pkg: "packageOf st = \<lparr>ap_Manifest = m, ap_ManifestJSON = wr_manifestJSON st, ap_Payload = wr_payload st\<rparr>"
    by (simp add: packageOf_def m(3))
  have size: "checkInstalledSize (m_SizeInstalled m) files = Inr ()"
    using walk_ok(3) [OF assms] by (auto simp: m(3) f(2))
  show "wellFormedPackage v t (packageOf st)"
    unfolding wellFormedPackage_def pkg archivePackage.select_convs
    using m(1,2) f(1) payload size walk_covers [OF assms f(2)] payload_paths [OF payload(1)]
      walk_overrides [OF assms m(3)] by blast
  show "0 \<le> declared \<longrightarrow> m_SizeInstalled (ap_Manifest (packageOf st)) = declared" using m(4) by (simp add: pkg)
qed

lemma verified_package:
  assumes "VerifyArchive v (Some t) resolveKey declared = Inr p"
  shows "wellFormedPackage v t (vp_Package p)"
    and "0 \<le> declared \<longrightarrow> m_SizeInstalled (ap_Manifest (vp_Package p)) = declared"
    and "if vp_Signed p then trustedSignature v t resolveKey else metadataSignature \<notin> itemName ` set (ta_Items t)"
  by (rule VerifyArchive_walk [OF assms], simp add: walk_package)+

subsection \<open>Extraction\<close>

text \<open>The tar reader gives no content for an entry that is not a regular file.\<close>

definition filesOnly :: "tarArchive \<Rightarrow> bool" where
  "filesOnly t \<longleftrightarrow> (\<forall>i\<in>set (ta_Items t). th_Typeflag (ti_Header i) \<noteq> TypeReg \<longrightarrow> ti_Content i = Some [])"

text \<open>An entry is handed to the installer as it was verified, and a file with the content of the hash.\<close>

definition extractsAs :: "verifier \<Rightarrow> PayloadEntry \<times> string option \<Rightarrow> PayloadEntry \<Rightarrow> bool" where
  "extractsAs v out e \<longleftrightarrow>
     fst out = e\<lparr>pe_Hash := []\<rparr> \<and>
     (\<exists>data. snd out = Some data \<and>
        (if pe_Type e = EntryFile then hexEncode (k_sha256 (v_crypto v) data) = pe_Hash e else data = []))"

lemma payloadEntry_regular: "payloadEntry nfc hdr = Inr e \<Longrightarrow> pe_Type e = EntryFile \<longleftrightarrow> th_Typeflag hdr = TypeReg"
  by (auto simp: payloadEntry_def Let_def result_simps TypeReg_def TypeDir_def TypeSymlink_def split: if_splits)

lemma extractLoop_verified:
  assumes "list_all2 (verifiedAs v files) (payloadItems items) es" and "ends \<noteq> None"
    and "\<forall>i\<in>set items. th_Typeflag (ti_Header i) \<noteq> TypeReg \<longrightarrow> ti_Content i = Some []"
  shows "\<exists>out. extractLoop (x_nfc (v_ext v)) ends items = (out, None) \<and> list_all2 (extractsAs v) out es"
  using assms(1,3)
proof (induction items arbitrary: es)
  case Nil
  then show ?case using assms(2) by (simp add: payloadItems_def)
next
  case (Cons item items)
  show ?case
  proof (cases "has_prefix (th_Name (ti_Header item)) metadataPrefix")
    case True
    with Cons show ?thesis by (simp add: payloadItems_def)
  next
    case False
    with Cons.prems(1) obtain e es' where es: "es = e # es'" "verifiedAs v files item e"
      "list_all2 (verifiedAs v files) (payloadItems items) es'"
      by (auto simp: payloadItems_def list_all2_Cons1)
    from Cons.IH [OF es(3)] Cons.prems(2) obtain out where
      out: "extractLoop (x_nfc (v_ext v)) ends items = (out, None)" "list_all2 (extractsAs v) out es'" by auto
    from verified_entry [OF es(2)] obtain e0 h where e0: "payloadEntry (x_nfc (v_ext v)) (ti_Header item) = Inr e0"
      "e = e0\<lparr>pe_Hash := h\<rparr>" by blast
    then have entry: "e0 = e\<lparr>pe_Hash := []\<rparr>" "pe_Type e = pe_Type e0" using payloadEntry_ok(2) [OF e0(1)] by simp_all
    obtain data where "ti_Content item = Some data" "extractsAs v (e0, Some data) e"
    proof (cases "pe_Type e = EntryFile")
      case True
      from verified_file [OF es(2) this] obtain data where "ti_Content item = Some data"
        "hexEncode (k_sha256 (v_crypto v) data) = pe_Hash e" by auto
      with True show thesis by (intro that) (simp_all add: extractsAs_def entry(1))
    next
      case notFile: False
      with payloadEntry_regular [OF e0(1)] entry(2) Cons.prems(2) have "ti_Content item = Some []" by simp
      with notFile show thesis by (intro that) (simp_all add: extractsAs_def entry(1))
    qed
    with False out e0(1) es(1) show ?thesis by simp
  qed
qed

lemma verified_extraction:
  assumes "VerifyArchive v (Some t) resolveKey declared = Inr p" and "filesOnly t"
  shows "\<exists>out. Extract (x_nfc (v_ext v)) (Some t) = (out, None) \<and> list_all2 (extractsAs v) out (ap_Payload (vp_Package p))"
proof (rule VerifyArchive_walk [OF assms(1)])
  fix st assume st: "walkArchive v (Some t) declared = Inr st" "vp_Package p = packageOf st"
  then obtain files where "list_all2 (verifiedAs v files) (payloadItems (ta_Items t)) (ap_Payload (vp_Package p))"
    using walk_package(1) [OF st(1)] unfolding wellFormedPackage_def by metis
  from extractLoop_verified [OF this walk_ok(2) [OF st(1)]] assms(2) show ?thesis
    by (simp add: Extract_def filesOnly_def)
qed

end
