(* ===== verification/ArchiveExamples.thy ===== *)
theory ArchiveExamples
  imports ArchiveFacts ClientExamples
begin

section \<open>Concrete archives\<close>

text \<open>
  A signed package of one file in one directory, whose digest is constant, and one that has a file
  and a directory of the same path: their names in the archive differ by the final slash, so they
  are sorted, and the package passes.
\<close>

definition tarHeaderOf :: "string \<Rightarrow> char \<Rightarrow> string \<Rightarrow> tarHeader" where
  "tarHeaderOf name flag content =
     \<lparr>th_Name = name, th_Typeflag = flag, th_Linkname = [], th_Size = int (length content), th_Mode = 511,
      th_Uid = 0, th_Gid = 0, th_Uname = ''root'', th_Gname = ''root'', th_ModTime = 1767323045 * second_ns,
      th_Devmajor = 0, th_Devminor = 0, th_Xattrs = [], th_PAXRecords = [], th_Format = FormatUSTAR\<rparr>"

text \<open>The entry that begins at byte \<open>n\<close>; entries follow each other closely, to keep the examples small.\<close>

definition tarEntry :: "int \<Rightarrow> string \<Rightarrow> char \<Rightarrow> string \<Rightarrow> tarItem" where
  "tarEntry n name flag content =
     \<lparr>ti_Header = tarHeaderOf name flag content, ti_HeaderEnd = n + tarBlock, ti_Content = Some content,
      ti_ContentEnd = n + tarBlock + int (length content)\<rparr>"

definition exArchive :: "(string \<times> char \<times> string) list \<Rightarrow> string \<Rightarrow> tarArchive" where
  "exArchive entries bytes =
     \<lparr>ta_Bytes = bytes,
      ta_Items = map (\<lambda>(n, name, flag, content). tarEntry (2 * int n) name flag content) (enumerate 0 entries),
      ta_End = Some (2 * int (length entries) + tarBlock)\<rparr>"

definition exFiles :: "string \<Rightarrow> wireFiles" where
  "exFiles path =
     \<lparr>wfs_SchemaVersion = Some 1, wfs_Algorithm = Some ''sha256'',
      wfs_Entries = Some [\<lparr>wf_Path = Some path, wf_Size = Some 1, wf_Hash = Some exFingerprint\<rparr>]\<rparr>"

definition exVerifier :: verifier where
  "exVerifier =
     \<lparr>v_crypto = exCrypto, v_json = exReader, v_ext = env_ext exEnv,
      v_manifest = (\<lambda>data. Some (exWireManifest\<lparr>w_SizeInstalled := Some 1\<rparr>)), v_files = (\<lambda>path. Some (exFiles path))\<rparr>"

definition exSigned :: tarArchive where
  "exSigned = exArchive
     [(metadataManifest, TypeReg, ''{}''), (metadataFiles, TypeReg, ''usr/f''), (''usr/'', TypeDir, []),
      (''usr/f'', TypeReg, ''c''), (metadataSignature, TypeReg, exKey)] (replicate 9 (CHR 0x00))"

definition exResolve :: "string \<Rightarrow> string \<times> bool" where
  "exResolve fp = (exKey, fp = exFingerprint)"

definition exTwice :: tarArchive where
  "exTwice = exArchive
     [(metadataManifest, TypeReg, ''{}''), (metadataFiles, TypeReg, ''usr''), (''usr'', TypeReg, ''c''),
      (''usr/'', TypeDir, [])] []"

definition pathsOf :: "archiveError + verifiedPackage \<Rightarrow> (bool \<times> (string \<times> EntryType) list) option" where
  "pathsOf r =
     (case r of
        Inl e \<Rightarrow> None
      | Inr p \<Rightarrow> Some (vp_Signed p, map (\<lambda>e. (pe_Path e, pe_Type e)) (ap_Payload (vp_Package p))))"

text \<open>
  The signed package; it with another declared size, and with an entry after the signature; and
  the package with one path twice.
\<close>

lemma archive_runs:
  "pathsOf (VerifyArchive exVerifier (Some exSigned) exResolve 1) = Some (True, [(''usr'', EntryDir), (''usr/f'', EntryFile)]) \<and>
   pathsOf (VerifyArchive exVerifier (Some exSigned) exResolve 0) = None \<and>
   pathsOf (VerifyArchive exVerifier
     (Some (exSigned\<lparr>ta_Items := ta_Items exSigned @ [tarEntry 10 ''usr/g'' TypeReg ''c'']\<rparr>)) exResolve 1) = None \<and>
   pathsOf (VerifyArchive exVerifier (Some exTwice) exResolve 1) = Some (False, [(''usr'', EntryFile), (''usr'', EntryDir)])"
  by code_simp

lemma pathsOf_Some: "pathsOf r = Some (s, es) \<longleftrightarrow>
    (\<exists>p. r = Inr p \<and> vp_Signed p = s \<and> map (\<lambda>e. (pe_Path e, pe_Type e)) (ap_Payload (vp_Package p)) = es)"
  by (cases r) (auto simp: pathsOf_def)

lemma signed_archive:
  obtains p where "VerifyArchive exVerifier (Some exSigned) exResolve 1 = Inr p" and "vp_Signed p = True"
    and "map (\<lambda>e. (pe_Path e, pe_Type e)) (ap_Payload (vp_Package p)) = [(''usr'', EntryDir), (''usr/f'', EntryFile)]"
  using iffD1 [OF pathsOf_Some archive_runs [THEN conjunct1]] by (elim exE conjE, intro that) assumption+

lemma signed_archive_files: "filesOnly exSigned"
  by (simp add: filesOnly_def exSigned_def exArchive_def tarEntry_def tarHeaderOf_def TypeDir_def TypeReg_def)

lemma path_twice:
  "\<exists>p. VerifyArchive exVerifier (Some exTwice) exResolve 1 = Inr p \<and> vp_Signed p = False \<and>
     map (\<lambda>e. (pe_Path e, pe_Type e)) (ap_Payload (vp_Package p)) = [(''usr'', EntryFile), (''usr'', EntryDir)]"
  by (rule iffD1 [OF pathsOf_Some archive_runs [THEN conjunct2, THEN conjunct2, THEN conjunct2]])

end
