(* ===== verification/JsonGuard.thy ===== *)
theory JsonGuard
  imports Prelude
begin

section \<open>The JSON guard\<close>

text \<open>
  \<open>internal/jsonguard\<close>: what every signed document is checked for before it is decoded. The token
  walk reads the tokens of \<open>encoding/json\<close>'s decoder, which is an argument: the tokens of the
  text and whether they end with the text or with a syntax error. The escape scan reads bytes.
\<close>

datatype jsonToken = Delim char | Str string | Number string | Bool bool | Null

datatype guardError =
    SyntaxError
  | TooDeep
  | Unbalanced char
  | NameNotString
  | DuplicateMember string
  | EmptyDocument
  | Unterminated nat
  | TruncatedEscape
  | MalformedEscape
  | UnpairedHigh nat
  | UnpairedLow nat
  | TrailingData
  | Undecodable

definition MaxDepth :: nat where
  "MaxDepth = 64"

subsection \<open>The token walk\<close>

record frame =
  fr_object :: bool
  fr_keys :: "string list"
  fr_wantKey :: bool

text \<open>The innermost container is the first of the list.\<close>

definition consumeValue :: "frame list \<Rightarrow> frame list" where
  "consumeValue stack =
     (case stack of
        [] \<Rightarrow> []
      | f # fs \<Rightarrow> if fr_object f then f\<lparr>fr_wantKey := True\<rparr> # fs else stack)"

definition openContainer :: "char \<Rightarrow> frame list \<Rightarrow> guardError + frame list" where
  "openContainer delim stack =
     (let stack = consumeValue stack in
      if length stack + 1 > MaxDepth then Inl TooDeep
      else Inr (\<lparr>fr_object = (delim = CHR ''{''), fr_keys = [], fr_wantKey = (delim = CHR ''{'')\<rparr> # stack))"

definition closeContainer :: "char \<Rightarrow> frame list \<Rightarrow> guardError + frame list" where
  "closeContainer delim stack =
     (case stack of [] \<Rightarrow> Inl (Unbalanced delim) | f # fs \<Rightarrow> Inr fs)"

definition scalar :: "jsonToken \<Rightarrow> frame list \<Rightarrow> guardError + frame list" where
  "scalar tok stack =
     (case stack of
        [] \<Rightarrow> Inr (consumeValue stack)
      | f # fs \<Rightarrow>
          if fr_object f \<and> fr_wantKey f then
            (case tok of
               Str name \<Rightarrow>
                 if name \<in> set (fr_keys f) then Inl (DuplicateMember name)
                 else Inr (f\<lparr>fr_keys := name # fr_keys f, fr_wantKey := False\<rparr> # fs)
             | _ \<Rightarrow> Inl NameNotString)
          else Inr (consumeValue stack))"

definition tokenStep :: "jsonToken \<Rightarrow> frame list \<Rightarrow> guardError + frame list" where
  "tokenStep tok stack =
     (case tok of
        Delim d \<Rightarrow>
          if d = CHR ''{'' \<or> d = CHR ''['' then openContainer d stack
          else if d = CHR ''}'' \<or> d = CHR '']'' then closeContainer d stack
          else Inr stack
      | _ \<Rightarrow> scalar tok stack)"

text \<open>The tokens of a text, and whether the text ends after them.\<close>

type_synonym tokenizer = "string \<Rightarrow> jsonToken list \<times> bool"

definition checkStructure :: "tokenizer \<Rightarrow> string \<Rightarrow> guardError + unit" where
  "checkStructure tokens data =
     (let (toks, ends) = tokens data in
      rbind (fold_res tokenStep toks []) (\<lambda>stack.
      if \<not> ends then Inl SyntaxError
      else if toks = [] then Inl EmptyDocument
      else if stack \<noteq> [] then Inl (Unterminated (length stack))
      else Inr ()))"

subsection \<open>The escape scan\<close>

definition hexValue :: "char \<Rightarrow> nat option" where
  "hexValue c =
     (if CHR ''0'' \<le> c \<and> c \<le> CHR ''9'' then Some (of_char c - of_char (CHR ''0''))
      else if CHR ''a'' \<le> c \<and> c \<le> CHR ''f'' then Some (of_char c - of_char (CHR ''a'') + 10)
      else if CHR ''A'' \<le> c \<and> c \<le> CHR ''F'' then Some (of_char c - of_char (CHR ''A'') + 10)
      else None)"

fun hexRune :: "string \<Rightarrow> nat \<Rightarrow> nat option" where
  "hexRune [] r = Some r"
| "hexRune (c # cs) r = (case hexValue c of None \<Rightarrow> None | Some v \<Rightarrow> hexRune cs (16 * r + v))"

definition hex4 :: "string \<Rightarrow> nat option" where
  "hex4 s = (if length s < 4 then None else hexRune (take 4 s) 0)"

definition isHighSurrogate :: "nat \<Rightarrow> bool" where
  "isHighSurrogate r \<longleftrightarrow> 0xD800 \<le> r \<and> r \<le> 0xDBFF"

definition isLowSurrogate :: "nat \<Rightarrow> bool" where
  "isLowSurrogate r \<longleftrightarrow> 0xDC00 \<le> r \<and> r \<le> 0xDFFF"

text \<open>What follows an escape's letter u: the text after the escape, with the second of a pair.\<close>

definition unicodeEscape :: "string \<Rightarrow> guardError + string" where
  "unicodeEscape ds =
     (case hex4 ds of
        None \<Rightarrow> Inl MalformedEscape
      | Some r \<Rightarrow>
          if isHighSurrogate r then
            (let lo = hex4 (drop 6 ds) in
             if length ds < 6 \<or> ds ! 4 \<noteq> CHR 0x5C \<or> ds ! 5 \<noteq> CHR ''u'' \<or>
                (case lo of None \<Rightarrow> True | Some l \<Rightarrow> \<not> isLowSurrogate l)
             then Inl (UnpairedHigh r) else Inr (drop 10 ds))
          else if isLowSurrogate r then Inl (UnpairedLow r)
          else Inr (drop 4 ds))"

lemma unicodeEscape_shorter: "unicodeEscape ds = Inr rest \<Longrightarrow> length rest \<le> length ds"
  by (auto simp: unicodeEscape_def Let_def split: option.splits if_splits)

function scanEscapes :: "bool \<Rightarrow> string \<Rightarrow> guardError + unit" where
  "scanEscapes inString [] = Inr ()"
| "scanEscapes False (c # cs) = scanEscapes (c = CHR 0x22) cs"
| "scanEscapes True (c # cs) =
     (if c = CHR 0x22 then scanEscapes False cs
      else if c = CHR 0x5C then
        (case cs of
           [] \<Rightarrow> Inl TruncatedEscape
         | d # ds \<Rightarrow>
             if d \<noteq> CHR ''u'' then scanEscapes True ds
             else (case unicodeEscape ds of Inl e \<Rightarrow> Inl e | Inr rest \<Rightarrow> scanEscapes True rest))
      else scanEscapes True cs)"
  by pat_completeness auto
termination
  by (relation "measure (\<lambda>(b, s). length s)") (auto dest: unicodeEscape_shorter)

definition checkEscapes :: "string \<Rightarrow> guardError + unit" where
  "checkEscapes data = scanEscapes False data"

definition guardCheck :: "tokenizer \<Rightarrow> string \<Rightarrow> guardError + unit" where
  "guardCheck tokens data = rbind (checkStructure tokens data) (\<lambda>_. checkEscapes data)"

text \<open>
  The decoders behind the guard: \<open>json.Unmarshal\<close>, and one that refuses unknown fields and gives
  what is left of the text with the value.
\<close>

definition Unmarshal :: "tokenizer \<Rightarrow> (string \<Rightarrow> 'a option) \<Rightarrow> string \<Rightarrow> guardError + 'a" where
  "Unmarshal tokens decode data =
     rbind (guardCheck tokens data) (\<lambda>_. case decode data of None \<Rightarrow> Inl Undecodable | Some v \<Rightarrow> Inr v)"

definition UnmarshalStrict :: "tokenizer \<Rightarrow> (string \<Rightarrow> ('a \<times> bool) option) \<Rightarrow> string \<Rightarrow> guardError + 'a" where
  "UnmarshalStrict tokens decode data =
     rbind (guardCheck tokens data) (\<lambda>_.
     case decode data of
       None \<Rightarrow> Inl Undecodable
     | Some (v, trailing) \<Rightarrow> if trailing then Inl TrailingData else Inr v)"

end
