(* ===== verification/JsonGuardFacts.thy ===== *)
theory JsonGuardFacts
  imports JsonGuard
begin

section \<open>What the JSON guard lets through\<close>

text \<open>
  On the tokens of well-formed documents the walk accepts exactly those that are not nested too
  deeply and have no object with a member twice; on a text of string literals and other characters
  the scan accepts exactly the literals whose escapes pair their surrogates.
\<close>

subsection \<open>Documents\<close>

datatype json =
    JNull
  | JBool bool
  | JNumber string
  | JString string
  | JArray "json list"
  | JObject "(string \<times> json) list"

fun tokensOf :: "json \<Rightarrow> jsonToken list" where
  "tokensOf JNull = [Null]"
| "tokensOf (JBool b) = [Bool b]"
| "tokensOf (JNumber s) = [Number s]"
| "tokensOf (JString s) = [Str s]"
| "tokensOf (JArray js) = Delim (CHR ''['') # concat (map tokensOf js) @ [Delim (CHR '']'')]"
| "tokensOf (JObject kvs) =
     Delim (CHR ''{'') # concat (map (\<lambda>(k, j). Str k # tokensOf j) kvs) @ [Delim (CHR ''}'')]"

text \<open>No more than \<open>n\<close> containers within each other.\<close>

fun nestedWithin :: "nat \<Rightarrow> json \<Rightarrow> bool" where
  "nestedWithin n (JArray js) \<longleftrightarrow> 0 < n \<and> list_all (nestedWithin (n - 1)) js"
| "nestedWithin n (JObject kvs) \<longleftrightarrow> 0 < n \<and> list_all (\<lambda>(k, j). nestedWithin (n - 1) j) kvs"
| "nestedWithin n j \<longleftrightarrow> True"

fun membersOnce :: "json \<Rightarrow> bool" where
  "membersOnce (JArray js) \<longleftrightarrow> list_all membersOnce js"
| "membersOnce (JObject kvs) \<longleftrightarrow> distinct (map fst kvs) \<and> list_all (\<lambda>(k, j). membersOnce j) kvs"
| "membersOnce j \<longleftrightarrow> True"

definition guarded :: "nat \<Rightarrow> json \<Rightarrow> bool" where
  "guarded n j \<longleftrightarrow> nestedWithin n j \<and> membersOnce j"

subsection \<open>The walk\<close>

lemma fold_res_append:
  "fold_res f (xs @ ys) s = rbind (fold_res f xs s) (fold_res f ys)"
  by (induction xs arbitrary: s) (auto simp: rbind_def split: sum.split)

text \<open>A stack that expects a value.\<close>

definition valueNext :: "frame list \<Rightarrow> bool" where
  "valueNext stack \<longleftrightarrow> (case stack of [] \<Rightarrow> True | f # fs \<Rightarrow> \<not> (fr_object f \<and> fr_wantKey f))"

definition accepts :: "jsonToken list \<Rightarrow> frame list \<Rightarrow> frame list \<Rightarrow> bool \<Rightarrow> bool" where
  "accepts toks stack stack' ok \<longleftrightarrow>
     (if ok then fold_res tokenStep toks stack = Inr stack' else \<exists>e. fold_res tokenStep toks stack = Inl e)"

lemma accepts_append:
  assumes "accepts xs s t ok" and "ok \<Longrightarrow> accepts ys t u ok'"
  shows "accepts (xs @ ys) s u (ok \<and> ok')"
  using assms by (auto simp: accepts_def fold_res_append split: if_splits)

definition arrayFrame :: frame where
  "arrayFrame = \<lparr>fr_object = False, fr_keys = [], fr_wantKey = False\<rparr>"

definition objectFrame :: "string list \<Rightarrow> frame" where
  "objectFrame ks = \<lparr>fr_object = True, fr_keys = ks, fr_wantKey = True\<rparr>"

lemma consumeValue_length [simp]: "length (consumeValue s) = length s"
  by (simp add: consumeValue_def split: list.split)

lemma frames:
  "consumeValue (arrayFrame # s) = arrayFrame # s" "valueNext (arrayFrame # s)"
  "consumeValue (objectFrame ks\<lparr>fr_wantKey := False\<rparr> # s) = objectFrame ks # s"
  "valueNext (objectFrame ks\<lparr>fr_wantKey := False\<rparr> # s)"
  by (simp_all add: consumeValue_def valueNext_def arrayFrame_def objectFrame_def)

lemma accepts_scalar:
  assumes "valueNext s" and "\<And>d. tok \<noteq> Delim d"
  shows "accepts [tok] s (consumeValue s) True"
  using assms by (cases tok) (auto simp: accepts_def tokenStep_def scalar_def valueNext_def split: list.splits)

lemma accepts_elements:
  assumes "\<And>j. j \<in> set js \<Longrightarrow> accepts (tokensOf j) (arrayFrame # s) (arrayFrame # s) (ok j)"
  shows "accepts (concat (map tokensOf js)) (arrayFrame # s) (arrayFrame # s) (list_all ok js)"
  using assms
proof (induction js)
  case (Cons j js)
  have "accepts (tokensOf j) (arrayFrame # s) (arrayFrame # s) (ok j)" using Cons.prems by simp
  from accepts_append [OF this] Cons show ?case by simp
qed (simp add: accepts_def)

lemma accepts_members:
  assumes "\<And>k j ks. (k, j) \<in> set kvs \<Longrightarrow>
      accepts (tokensOf j) (objectFrame ks\<lparr>fr_wantKey := False\<rparr> # s) (objectFrame ks # s) (ok j)"
  shows "\<exists>ks'. accepts (concat (map (\<lambda>(k, j). Str k # tokensOf j) kvs)) (objectFrame ks # s) (objectFrame ks' # s)
     (distinct (map fst kvs) \<and> set ks \<inter> fst ` set kvs = {} \<and> list_all (\<lambda>(k, j). ok j) kvs)"
  using assms
proof (induction kvs arbitrary: ks)
  case (Cons kv kvs)
  obtain k j where kv: "kv = (k, j)" by force
  have key: "accepts [Str k] (objectFrame ks # s) (objectFrame (k # ks)\<lparr>fr_wantKey := False\<rparr> # s) (k \<notin> set ks)"
    by (simp add: accepts_def tokenStep_def scalar_def objectFrame_def)
  have member: "accepts (tokensOf j) (objectFrame (k # ks)\<lparr>fr_wantKey := False\<rparr> # s) (objectFrame (k # ks) # s) (ok j)"
    by (rule Cons.prems [of k]) (simp add: kv)
  from Cons.IH [of "k # ks"] Cons.prems obtain ks' where
    rest: "accepts (concat (map (\<lambda>(k, j). Str k # tokensOf j) kvs)) (objectFrame (k # ks) # s) (objectFrame ks' # s)
      (distinct (map fst kvs) \<and> set (k # ks) \<inter> fst ` set kvs = {} \<and> list_all (\<lambda>(k, j). ok j) kvs)" by auto
  from accepts_append [OF accepts_append [OF key member] rest]
  have "accepts (concat (map (\<lambda>(k, j). Str k # tokensOf j) (kv # kvs))) (objectFrame ks # s) (objectFrame ks' # s)
      ((k \<notin> set ks \<and> ok j) \<and> distinct (map fst kvs) \<and> set (k # ks) \<inter> fst ` set kvs = {} \<and> list_all (\<lambda>(k, j). ok j) kvs)"
    by (simp add: kv)
  moreover have "((k \<notin> set ks \<and> ok j) \<and> distinct (map fst kvs) \<and> set (k # ks) \<inter> fst ` set kvs = {} \<and>
        list_all (\<lambda>(k, j). ok j) kvs) \<longleftrightarrow>
      distinct (map fst (kv # kvs)) \<and> set ks \<inter> fst ` set (kv # kvs) = {} \<and> list_all (\<lambda>(k, j). ok j) (kv # kvs)"
    by (auto simp: kv)
  ultimately show ?case by (simp only:) blast
qed (auto simp: accepts_def)

lemma accepts_value:
  assumes "valueNext s" and "length s \<le> MaxDepth"
  shows "accepts (tokensOf j) s (consumeValue s) (guarded (MaxDepth - length s) j)"
  using assms
proof (induction j arbitrary: s rule: tokensOf.induct)
  case (5 js)
  let ?s = "consumeValue s"
  let ?room = "length s < MaxDepth"
  have start: "accepts [Delim (CHR ''['')] s (arrayFrame # ?s) ?room"
    by (auto simp: accepts_def tokenStep_def openContainer_def arrayFrame_def Let_def)
  have elements: "accepts (concat (map tokensOf js)) (arrayFrame # ?s) (arrayFrame # ?s)
      (list_all (guarded (MaxDepth - length s - 1)) js)" if ?room
  proof (rule accepts_elements)
    fix j assume "j \<in> set js"
    from 5(1) [OF this, of "arrayFrame # ?s"] that
    show "accepts (tokensOf j) (arrayFrame # ?s) (arrayFrame # ?s) (guarded (MaxDepth - length s - 1) j)"
      by (simp add: frames)
  qed
  have stop: "accepts [Delim (CHR '']'')] (arrayFrame # ?s) ?s True"
    by (simp add: accepts_def tokenStep_def closeContainer_def)
  have "accepts (tokensOf (JArray js)) s ?s (?room \<and> list_all (guarded (MaxDepth - length s - 1)) js \<and> True)"
    using accepts_append [OF start accepts_append [OF elements stop]] by simp
  moreover have "(?room \<and> list_all (guarded (MaxDepth - length s - 1)) js \<and> True) = guarded (MaxDepth - length s) (JArray js)"
    by (auto simp: guarded_def list_all_iff)
  ultimately show ?case by simp
next
  case (6 kvs)
  let ?s = "consumeValue s"
  let ?room = "length s < MaxDepth"
  have start: "accepts [Delim (CHR ''{'')] s (objectFrame [] # ?s) ?room"
    by (auto simp: accepts_def tokenStep_def openContainer_def objectFrame_def Let_def)
  have "\<exists>ks'. accepts (concat (map (\<lambda>(k, j). Str k # tokensOf j) kvs)) (objectFrame [] # ?s) (objectFrame ks' # ?s)
      (distinct (map fst kvs) \<and> set [] \<inter> fst ` set kvs = {} \<and>
       list_all (\<lambda>(k, j). guarded (MaxDepth - length s - 1) j) kvs)" if ?room
  proof (rule accepts_members)
    fix k j ks assume "(k, j) \<in> set kvs"
    from 6(1) [OF this refl, of "objectFrame ks\<lparr>fr_wantKey := False\<rparr> # ?s"] that
    show "accepts (tokensOf j) (objectFrame ks\<lparr>fr_wantKey := False\<rparr> # ?s) (objectFrame ks # ?s)
        (guarded (MaxDepth - length s - 1) j)"
      by (simp add: frames)
  qed
  then obtain ks' where members: "?room \<Longrightarrow>
      accepts (concat (map (\<lambda>(k, j). Str k # tokensOf j) kvs)) (objectFrame [] # ?s) (objectFrame ks' # ?s)
      (distinct (map fst kvs) \<and> set [] \<inter> fst ` set kvs = {} \<and>
       list_all (\<lambda>(k, j). guarded (MaxDepth - length s - 1) j) kvs)" by blast
  have stop: "accepts [Delim (CHR ''}'')] (objectFrame ks' # ?s) ?s True"
    by (simp add: accepts_def tokenStep_def closeContainer_def)
  have "accepts (tokensOf (JObject kvs)) s ?s
      (?room \<and> (distinct (map fst kvs) \<and> set [] \<inter> fst ` set kvs = {} \<and>
         list_all (\<lambda>(k, j). guarded (MaxDepth - length s - 1) j) kvs) \<and> True)"
    using accepts_append [OF start accepts_append [OF members stop]] by simp
  moreover have "(?room \<and> (distinct (map fst kvs) \<and> set [] \<inter> fst ` set kvs = {} \<and>
        list_all (\<lambda>(k, j). guarded (MaxDepth - length s - 1) j) kvs) \<and> True) =
      guarded (MaxDepth - length s) (JObject kvs)"
    by (auto simp: guarded_def list_all_iff)
  ultimately show ?case by simp
qed (use accepts_scalar in \<open>auto simp: guarded_def\<close>)

lemma accepts_documents: "accepts (concat (map tokensOf js)) [] [] (list_all (guarded MaxDepth) js)"
proof (induction js)
  case (Cons j js)
  have "accepts (tokensOf j) [] [] (guarded MaxDepth j)"
    using accepts_value [of "[]" j] by (simp add: valueNext_def consumeValue_def)
  from accepts_append [OF this] Cons show ?case by simp
qed (simp add: accepts_def)

lemma tokensOf_nonempty [simp]: "tokensOf j \<noteq> []"
  by (cases j) simp_all

lemma structure_exact:
  assumes "tokens data = (concat (map tokensOf js), True)"
  shows "checkStructure tokens data = Inr () \<longleftrightarrow> js \<noteq> [] \<and> list_all (guarded MaxDepth) js"
  using accepts_documents [of js] assms
  by (cases "list_all (guarded MaxDepth) js") (auto simp: checkStructure_def accepts_def)

subsection \<open>String literals\<close>

datatype stringItem = Plain char | Escaped char | Unicode string

datatype piece = Other char | Literal "stringItem list"

fun itemText :: "stringItem \<Rightarrow> string" where
  "itemText (Plain c) = [c]"
| "itemText (Escaped c) = [CHR 0x5C, c]"
| "itemText (Unicode h) = CHR 0x5C # CHR ''u'' # h"

fun pieceText :: "piece \<Rightarrow> string" where
  "pieceText (Other c) = [c]"
| "pieceText (Literal us) = CHR 0x22 # concat (map itemText us) @ [CHR 0x22]"

fun item_ok :: "stringItem \<Rightarrow> bool" where
  "item_ok (Plain c) \<longleftrightarrow> c \<noteq> CHR 0x22 \<and> c \<noteq> CHR 0x5C"
| "item_ok (Escaped c) \<longleftrightarrow> c \<noteq> CHR ''u''"
| "item_ok (Unicode h) \<longleftrightarrow> length h = 4 \<and> hex4 h \<noteq> None"

fun piece_ok :: "piece \<Rightarrow> bool" where
  "piece_ok (Other c) \<longleftrightarrow> c \<noteq> CHR 0x22"
| "piece_ok (Literal us) \<longleftrightarrow> list_all item_ok us"

text \<open>Every high surrogate is followed by a low one, and every low one follows a high one.\<close>

fun surrogatesPaired :: "stringItem list \<Rightarrow> bool" where
  "surrogatesPaired (Unicode h # us) \<longleftrightarrow>
     (if isHighSurrogate (the (hex4 h)) then
        (case us of Unicode l # us' \<Rightarrow> isLowSurrogate (the (hex4 l)) \<and> surrogatesPaired us' | _ \<Rightarrow> False)
      else \<not> isLowSurrogate (the (hex4 h)) \<and> surrogatesPaired us)"
| "surrogatesPaired (i # us) \<longleftrightarrow> surrogatesPaired us"
| "surrogatesPaired [] \<longleftrightarrow> True"

fun pairedPiece :: "piece \<Rightarrow> bool" where
  "pairedPiece (Other c) \<longleftrightarrow> True"
| "pairedPiece (Literal us) \<longleftrightarrow> surrogatesPaired us"

lemma hex4_append: "length h = 4 \<Longrightarrow> hex4 (h @ s) = hex4 h"
  by (simp add: hex4_def)

lemma drop_4: "length h = 4 \<Longrightarrow> drop 4 (h @ s) = s" "length h = 4 \<Longrightarrow> drop 6 (h @ a # b # s) = s"
  "length h = 4 \<Longrightarrow> (h @ a # s) ! 4 = a" "length h = 4 \<Longrightarrow> (h @ a # b # s) ! 5 = b"
  "length h = 4 \<Longrightarrow> length l = 4 \<Longrightarrow> drop 10 (h @ a # b # l @ s) = s"
  by (simp_all add: nth_append)

text \<open>A high surrogate that no escape follows.\<close>

lemma lone_high:
  assumes "length h = 4" and "hex4 h = Some r" and "isHighSurrogate r"
    and "\<And>l s. rest \<noteq> CHR 0x5C # CHR ''u'' # s"
  shows "unicodeEscape (h @ rest) = Inl (UnpairedHigh r)"
proof -
  have "length (h @ rest) < 6 \<or> (h @ rest) ! 4 \<noteq> CHR 0x5C \<or> (h @ rest) ! 5 \<noteq> CHR ''u''"
  proof (cases rest)
    case (Cons a as)
    then show ?thesis
      using assms(1,4) by (cases as) (auto simp: drop_4)
  qed (use assms(1) in simp)
  then show ?thesis using assms(1-3) by (auto simp: unicodeEscape_def hex4_append Let_def)
qed

lemma scan_literal:
  assumes "list_all item_ok us"
  shows "scanEscapes True (concat (map itemText us) @ CHR 0x22 # rest) = Inr () \<longleftrightarrow>
    surrogatesPaired us \<and> scanEscapes False rest = Inr ()"
  using assms
proof (induction "us" rule: surrogatesPaired.induct)
  case (1 h "us")
  then obtain r where h: "length h = 4" "hex4 h = Some r" by auto
  let ?rest = "concat (map itemText us) @ CHR 0x22 # rest"
  have scan: "scanEscapes True (concat (map itemText (Unicode h # us)) @ CHR 0x22 # rest) =
      (case unicodeEscape (h @ ?rest) of Inl e \<Rightarrow> Inl e | Inr rest \<Rightarrow> scanEscapes True rest)"
    by simp
  show ?case
  proof (cases "isHighSurrogate r")
    case False
    have "unicodeEscape (h @ ?rest) = (if isLowSurrogate r then Inl (UnpairedLow r) else Inr ?rest)"
      using False h by (simp add: unicodeEscape_def hex4_append drop_4)
    with False h 1 show ?thesis unfolding scan by simp
  next
    case high: True
    show ?thesis
    proof (cases "\<exists>l us'. us = Unicode l # us'")
      case True
      then obtain l us' where l: "us = Unicode l # us'" by blast
      with 1 obtain k where k: "length l = 4" "hex4 l = Some k" by auto
      have "unicodeEscape (h @ ?rest) =
          (if isLowSurrogate k then Inr (concat (map itemText us') @ CHR 0x22 # rest) else Inl (UnpairedHigh r))"
        using high h k by (simp add: l unicodeEscape_def hex4_append drop_4 Let_def)
      with high h k 1 l show ?thesis unfolding scan by simp
    next
      case False
      have "?rest \<noteq> CHR 0x5C # CHR ''u'' # s" for s
      proof (cases "us")
        case (Cons i us')
        with False 1 show ?thesis by (cases i) auto
      qed simp
      from lone_high [OF h high this] have "unicodeEscape (h @ ?rest) = Inl (UnpairedHigh r)" .
      moreover have "\<not> surrogatesPaired (Unicode h # us)"
        using False h high by (auto split: list.splits stringItem.splits)
      ultimately show ?thesis unfolding scan by simp
    qed
  qed
qed auto

lemma scan_pieces:
  assumes "list_all piece_ok ps"
  shows "scanEscapes False (concat (map pieceText ps)) = Inr () \<longleftrightarrow> list_all pairedPiece ps"
  using assms
proof (induction ps)
  case (Cons p ps)
  show ?case
  proof (cases p)
    case (Literal "us")
    with Cons scan_literal [of "us" "concat (map pieceText ps)"] show ?thesis by simp
  qed (use Cons in simp)
qed simp

lemma escapes_exact:
  assumes "list_all piece_ok ps"
  shows "checkEscapes (concat (map pieceText ps)) = Inr () \<longleftrightarrow> list_all pairedPiece ps"
  unfolding checkEscapes_def by (rule scan_pieces [OF assms])

text \<open>Both together, on a text the decoder reads as documents.\<close>

lemma guard_exact:
  assumes "tokens (concat (map pieceText ps)) = (concat (map tokensOf js), True)" and "list_all piece_ok ps"
  shows "guardCheck tokens (concat (map pieceText ps)) = Inr () \<longleftrightarrow>
    js \<noteq> [] \<and> list_all (guarded MaxDepth) js \<and> list_all pairedPiece ps"
  using structure_exact [where tokens = tokens and js = js, OF assms(1)] escapes_exact [OF assms(2)] by (auto simp: guardCheck_def rbind_eq_Inr)

end
