(* ===== verification/AuditLog.thy ===== *)
theory AuditLog
  imports Prelude "HOL-Library.Word"
begin

unbundle bit_operations_syntax

section \<open>Audit events\<close>

text \<open>
  \<open>internal/audit\<close>: the events peipkg emits, and their payload in msgpack, one map whose fields are
  nested maps along the dots of their paths. The kernel's event subsystem, its policy and the token
  that gives the acting principal are parameters.
\<close>

subsection \<open>Events\<close>

datatype Tier = TierEssential | TierStandard

definition TypePackageInstalled :: string where "TypePackageInstalled = ''peipkg.package.installed''"
definition TypePackageUpgraded :: string where "TypePackageUpgraded = ''peipkg.package.upgraded''"
definition TypePackageUninstalled :: string where "TypePackageUninstalled = ''peipkg.package.uninstalled''"
definition TypeClaimChanged :: string where "TypeClaimChanged = ''peipkg.claim.changed''"
definition TypeRepositoryAdded :: string where "TypeRepositoryAdded = ''peipkg.repository.added''"
definition TypeRepositoryRemoved :: string where "TypeRepositoryRemoved = ''peipkg.repository.removed''"
definition TypeRepositoryReconfigured :: string where "TypeRepositoryReconfigured = ''peipkg.repository.reconfigured''"
definition TypeRepositoryRefreshed :: string where "TypeRepositoryRefreshed = ''peipkg.repository.refreshed''"
definition TypeTransactionRecovered :: string where "TypeTransactionRecovered = ''peipkg.transaction.recovered''"
definition TypeActionAuthorised :: string where "TypeActionAuthorised = ''peipkg.action.authorised''"

definition tiers :: "Tier gomap" where
  "tiers =
     [(TypePackageInstalled, TierEssential), (TypePackageUpgraded, TierEssential),
      (TypePackageUninstalled, TierEssential), (TypeClaimChanged, TierStandard),
      (TypeRepositoryAdded, TierEssential), (TypeRepositoryRemoved, TierEssential),
      (TypeRepositoryReconfigured, TierEssential), (TypeRepositoryRefreshed, TierStandard),
      (TypeTransactionRecovered, TierStandard), (TypeActionAuthorised, TierEssential)]"

definition TierOf :: "string \<Rightarrow> Tier" where
  "TierOf eventType = (case map_get tiers eventType of Some t \<Rightarrow> t | None \<Rightarrow> TierStandard)"

definition FieldSubjectSID :: string where "FieldSubjectSID = ''subject.token.sid''"
definition FieldTransactionID :: string where "FieldTransactionID = ''transaction.id''"
definition FieldPackageName :: string where "FieldPackageName = ''object.package.name''"
definition FieldPackageVersion :: string where "FieldPackageVersion = ''object.package.version''"
definition FieldPackageVersionPrev :: string where "FieldPackageVersionPrev = ''object.package.version-previous''"
definition FieldPackageArchitecture :: string where "FieldPackageArchitecture = ''object.package.architecture''"
definition FieldSourceRepository :: string where "FieldSourceRepository = ''source.repository.name''"
definition FieldOutcomeSuccess :: string where "FieldOutcomeSuccess = ''outcome.success''"
definition FieldOutcomeReason :: string where "FieldOutcomeReason = ''outcome.reason''"
definition FieldOutcomeDetail :: string where "FieldOutcomeDetail = ''outcome.detail''"

text \<open>A value of a Go type the encoder does not carry is \<open>VOther\<close>.\<close>

datatype auditValue = VStr string | VUint "64 word" | VBool bool | VBin string | VOther

record Event =
  ae_Type :: string
  ae_Fields :: "auditValue gomap"

definition newEvent :: "string \<Rightarrow> Event" where
  "newEvent eventType = \<lparr>ae_Type = eventType, ae_Fields = []\<rparr>"

definition setField :: "string \<Rightarrow> auditValue \<Rightarrow> Event \<Rightarrow> Event" where
  "setField path v e = e\<lparr>ae_Fields := map_put (ae_Fields e) path v\<rparr>"

definition eventStr :: "string \<Rightarrow> string \<Rightarrow> Event \<Rightarrow> Event" where
  "eventStr path v e = (if v \<noteq> [] then setField path (VStr v) e else e)"

definition eventUint :: "string \<Rightarrow> 64 word \<Rightarrow> Event \<Rightarrow> Event" where
  "eventUint path v = setField path (VUint v)"

definition eventBool :: "string \<Rightarrow> bool \<Rightarrow> Event \<Rightarrow> Event" where
  "eventBool path v = setField path (VBool v)"

definition eventBin :: "string \<Rightarrow> string \<Rightarrow> Event \<Rightarrow> Event" where
  "eventBin path v = setField path (VBin v)"

definition eventTxn :: "int \<Rightarrow> Event \<Rightarrow> Event" where
  "eventTxn n e = (if n > 0 then setField FieldTransactionID (VUint (word_of_int n)) e else e)"

definition Succeeded :: "Event \<Rightarrow> Event" where
  "Succeeded = eventBool FieldOutcomeSuccess True"

definition eventFailed :: "string \<Rightarrow> string \<Rightarrow> Event \<Rightarrow> Event" where
  "eventFailed reason detail e =
     eventStr FieldOutcomeDetail detail (eventStr FieldOutcomeReason reason (eventBool FieldOutcomeSuccess False e))"

definition eventGet :: "Event \<Rightarrow> string \<Rightarrow> auditValue option" where
  "eventGet e path = map_get (ae_Fields e) path"

definition eventPaths :: "Event \<Rightarrow> string list" where
  "eventPaths e = map_keys (ae_Fields e)"

record auditPackage =
  au_Name :: string
  au_Version :: string
  au_VersionPrevious :: string
  au_Architecture :: string
  au_Repository :: string

definition PackageEvent :: "string \<Rightarrow> int \<Rightarrow> auditPackage \<Rightarrow> Event" where
  "PackageEvent eventType txnID p =
     eventStr FieldSourceRepository (au_Repository p)
       (eventStr FieldPackageArchitecture (au_Architecture p)
         (eventStr FieldPackageVersionPrev (au_VersionPrevious p)
           (eventStr FieldPackageVersion (au_Version p)
             (eventStr FieldPackageName (au_Name p) (eventTxn txnID (newEvent eventType))))))"

text \<open>The recorder keeps the events in memory.\<close>

definition recordEvent :: "Event list \<Rightarrow> Event \<Rightarrow> Event list" where
  "recordEvent events e = events @ [e]"

definition OfType :: "Event list \<Rightarrow> string \<Rightarrow> Event list" where
  "OfType events eventType = filter (\<lambda>e. ae_Type e = eventType) events"

subsection \<open>The payload\<close>

text \<open>The bytes of a number, the most significant of \<open>k\<close> first.\<close>

fun beBytes :: "nat \<Rightarrow> nat \<Rightarrow> string" where
  "beBytes 0 n = []"
| "beBytes (Suc k) n = char_of (drop_bit (8 * k) n) # beBytes k n"

text \<open>Each of these gives what the code appends to its buffer.\<close>

definition mpMapHeader :: "nat \<Rightarrow> string" where
  "mpMapHeader n =
     (if n \<le> 15 then [char_of (0x80 OR n)]
      else if n \<le> 0xFFFF then char_of (0xde :: nat) # beBytes 2 n
      else char_of (0xdf :: nat) # beBytes 4 n)"

definition mpStr :: "string \<Rightarrow> string" where
  "mpStr s =
     (let n = length s in
      (if n \<le> 31 then [char_of (0xa0 OR n)]
       else if n \<le> 0xFF then char_of (0xd9 :: nat) # beBytes 1 n
       else if n \<le> 0xFFFF then char_of (0xda :: nat) # beBytes 2 n
       else char_of (0xdb :: nat) # beBytes 4 n) @ s)"

definition mpBin :: "string \<Rightarrow> string" where
  "mpBin v =
     (let n = length v in
      (if n \<le> 0xFF then char_of (0xc4 :: nat) # beBytes 1 n
       else if n \<le> 0xFFFF then char_of (0xc5 :: nat) # beBytes 2 n
       else char_of (0xc6 :: nat) # beBytes 4 n) @ v)"

definition mpUint :: "64 word \<Rightarrow> string" where
  "mpUint v =
     (if v \<le> 0x7F then [char_of (unat v)]
      else if v \<le> 0xFF then char_of (0xcc :: nat) # beBytes 1 (unat v)
      else if v \<le> 0xFFFF then char_of (0xcd :: nat) # beBytes 2 (unat v)
      else if v \<le> 0xFFFFFFFF then char_of (0xce :: nat) # beBytes 4 (unat v)
      else char_of (0xcf :: nat) # beBytes 8 (unat v))"

definition mpBool :: "bool \<Rightarrow> string" where
  "mpBool v = [char_of (if v then 0xc3 else 0xc2 :: nat)]"

datatype auditError = EmptySegment | BeneathValue | AlsoMap | NoForm

text \<open>A node is a leaf with its value, or a map of children.\<close>

datatype auditNode = Node "auditValue option" "(string \<times> auditNode) list"

fun childrenOf :: "auditNode \<Rightarrow> auditNode gomap" where
  "childrenOf (Node leaf children) = children"

fun insertField :: "string list \<Rightarrow> auditValue \<Rightarrow> auditNode \<Rightarrow> auditError + auditNode" where
  "insertField [] v n = Inr n"
| "insertField (s # segs) v (Node leaf children) =
     (if s = [] then Inl EmptySegment
      else if leaf \<noteq> None then Inl BeneathValue
      else
        let child = (case map_get children s of None \<Rightarrow> Node None [] | Some c \<Rightarrow> c) in
        if segs = [] then
          (if childrenOf child \<noteq> [] then Inl AlsoMap
           else Inr (Node leaf (map_put children s (Node (Some v) []))))
        else rbind (insertField segs v child) (\<lambda>c. Inr (Node leaf (map_put children s c))))"

definition appendValue :: "auditValue \<Rightarrow> auditError + string" where
  "appendValue v =
     (case v of
        VStr s \<Rightarrow> Inr (mpStr s) | VUint n \<Rightarrow> Inr (mpUint n) | VBool b \<Rightarrow> Inr (mpBool b)
      | VBin s \<Rightarrow> Inr (mpBin s) | VOther \<Rightarrow> Inl NoForm)"

lemma traverse_cong [fundef_cong]:
  "xs = ys \<Longrightarrow> (\<And>x. x \<in> set ys \<Longrightarrow> f x = g x) \<Longrightarrow> traverse f xs = traverse g ys"
  by (induction xs arbitrary: ys) (auto split: sum.split)

lemma entries_smaller: "(k, c) \<in> set (map_entries children) \<Longrightarrow> size c < Suc (size_list (size_prod (\<lambda>x. 0) size) children)"
proof -
  assume "(k, c) \<in> set (map_entries children)"
  then have "(k, c) \<in> set children" by (simp add: map_entries_mem map_get_def map_of_SomeD)
  then show ?thesis by (induction children) auto
qed

function appendNode :: "auditNode \<Rightarrow> auditError + string" where
  "appendNode (Node leaf children) =
     rbind (traverse (\<lambda>(k, child).
              rbind (case child of Node (Some v) cs \<Rightarrow> appendValue v | Node None cs \<Rightarrow> appendNode child)
                (\<lambda>b. Inr (mpStr k @ b)))
            (map_entries children))
       (\<lambda>bs. Inr (mpMapHeader (length (map_keys children)) @ concat bs))"
  by pat_completeness auto
termination
  by (relation "measure size") (auto dest: entries_smaller)

text \<open>The fields come in the order in which the map of fields is iterated.\<close>

definition encodePayload :: "(string \<times> auditValue) list \<Rightarrow> auditError + string" where
  "encodePayload fs =
     rbind (fold_res (\<lambda>(path, v). insertField (split_byte (CHR ''.'') path) v) fs (Node None [])) appendNode"

subsection \<open>Emitting\<close>

datatype emitError = NotImplemented | CallFailed | EncodingFailed auditError

text \<open>
  The gate decides by the policy whether the payload is built and sent: whether it was built, and
  the error, which is the payload's or its own.
\<close>

record emitter =
  em_send :: "string \<Rightarrow> string \<Rightarrow> emitError option"
  em_gate :: "string \<Rightarrow> Tier \<Rightarrow> emitError + string \<Rightarrow> bool \<times> emitError option"
  em_sid :: "emitError + string"

definition notImplemented :: "emitError option \<Rightarrow> bool" where
  "notImplemented err \<longleftrightarrow> err = Some NotImplemented"

text \<open>The payload and the error of reading the token that is left for the end.\<close>

definition buildPayload :: "emitter \<Rightarrow> Event \<Rightarrow> (emitError + string) \<times> emitError option" where
  "buildPayload k e =
     (case em_sid k of
        Inr sid \<Rightarrow> (rmap_err EncodingFailed (encodePayload (map_entries (map_put (ae_Fields e) FieldSubjectSID (VBin sid)))), None)
      | Inl err \<Rightarrow>
          if notImplemented (Some err) then (Inl err, None)
          else (rmap_err EncodingFailed (encodePayload (map_entries (ae_Fields e))), Some err))"

datatype emitFailure = EmitFailed emitError | WithoutSubject emitError

definition Emit :: "emitter \<Rightarrow> Event \<Rightarrow> emitFailure option" where
  "Emit k e =
     (let (payload, sidErr) = buildPayload k e;
          (built, err) =
            (if TierOf (ae_Type e) = TierEssential then
               (True, case payload of Inl err \<Rightarrow> Some err | Inr b \<Rightarrow> em_send k (ae_Type e) b)
             else em_gate k (ae_Type e) (TierOf (ae_Type e)) payload) in
      if notImplemented err then None
      else (case (err, if built then sidErr else None) of
              (Some x, _) \<Rightarrow> Some (EmitFailed x)
            | (None, Some x) \<Rightarrow> Some (WithoutSubject x)
            | (None, None) \<Rightarrow> None))"

end
