(* ===== verification/AuditFacts.thy ===== *)
theory AuditFacts
  imports AuditLog
begin

section \<open>Messages\<close>

text \<open>
  A decoder of msgpack, written after its specification and not after the encoder, and that it
  reads back the bytes of every message whose lengths msgpack has a form for.
\<close>

subsection \<open>A decoder\<close>

datatype mp = MStr string | MUint nat | MBool bool | MBin string | MMap "(string \<times> mp) list"

definition beValue :: "string \<Rightarrow> nat" where
  "beValue = foldl (\<lambda>n c. 256 * n + of_char c) 0"

definition decodeLen :: "nat \<Rightarrow> string \<Rightarrow> (nat \<times> string) option" where
  "decodeLen k s = (if length s < k then None else Some (beValue (take k s), drop k s))"

definition takeBytes :: "nat \<times> string \<Rightarrow> (string \<times> string) option" where
  "takeBytes = (\<lambda>(n, s). if length s < n then None else Some (take n s, drop n s))"

definition decodeStr :: "string \<Rightarrow> (string \<times> string) option" where
  "decodeStr s =
     (case s of
        [] \<Rightarrow> None
      | c # cs \<Rightarrow>
          (let b = of_char c :: nat in
           if 0xa0 \<le> b \<and> b < 0xc0 then takeBytes (b - 0xa0, cs)
           else if b = 0xd9 then Option.bind (decodeLen 1 cs) takeBytes
           else if b = 0xda then Option.bind (decodeLen 2 cs) takeBytes
           else if b = 0xdb then Option.bind (decodeLen 4 cs) takeBytes
           else None))"

definition decodeBin :: "nat \<Rightarrow> string \<Rightarrow> (string \<times> string) option" where
  "decodeBin b cs =
     (if b = 0xc4 then Option.bind (decodeLen 1 cs) takeBytes
      else if b = 0xc5 then Option.bind (decodeLen 2 cs) takeBytes
      else if b = 0xc6 then Option.bind (decodeLen 4 cs) takeBytes
      else None)"

definition decodeUint :: "nat \<Rightarrow> string \<Rightarrow> (nat \<times> string) option" where
  "decodeUint b cs =
     (if b < 0x80 then Some (b, cs)
      else if b = 0xcc then decodeLen 1 cs
      else if b = 0xcd then decodeLen 2 cs
      else if b = 0xce then decodeLen 4 cs
      else if b = 0xcf then decodeLen 8 cs
      else None)"

definition decodeHeader :: "nat \<Rightarrow> string \<Rightarrow> (nat \<times> string) option" where
  "decodeHeader b cs =
     (if 0x80 \<le> b \<and> b < 0x90 then Some (b - 0x80, cs)
      else if b = 0xde then decodeLen 2 cs
      else if b = 0xdf then decodeLen 4 cs
      else None)"

fun decodeValue :: "nat \<Rightarrow> string \<Rightarrow> (mp \<times> string) option"
  and decodeFields :: "nat \<Rightarrow> nat \<Rightarrow> string \<Rightarrow> ((string \<times> mp) list \<times> string) option" where
  "decodeValue 0 s = None"
| "decodeValue (Suc fuel) s =
     (case decodeStr s of
        Some (x, r) \<Rightarrow> Some (MStr x, r)
      | None \<Rightarrow>
          (case s of
             [] \<Rightarrow> None
           | c # cs \<Rightarrow>
               (let b = of_char c in
                if b = 0xc2 then Some (MBool False, cs)
                else if b = 0xc3 then Some (MBool True, cs)
                else (case decodeUint b cs of
                        Some (n, r) \<Rightarrow> Some (MUint n, r)
                      | None \<Rightarrow>
                          (case decodeBin b cs of
                             Some (x, r) \<Rightarrow> Some (MBin x, r)
                           | None \<Rightarrow>
                               (case decodeHeader b cs of
                                  Some (n, r) \<Rightarrow> map_option (map_prod MMap id) (decodeFields fuel n r)
                                | None \<Rightarrow> None))))))"
| "decodeFields fuel 0 s = Some ([], s)"
| "decodeFields fuel (Suc n) s =
     (case decodeStr s of
        None \<Rightarrow> None
      | Some (k, s1) \<Rightarrow>
          (case decodeValue fuel s1 of
             None \<Rightarrow> None
           | Some (v, s2) \<Rightarrow> map_option (map_prod (Cons (k, v)) id) (decodeFields fuel n s2)))"

text \<open>A whole message; the fuel is its length.\<close>

definition decodeMessage :: "string \<Rightarrow> mp option" where
  "decodeMessage b = (case decodeValue (length b) b of Some (t, []) \<Rightarrow> Some t | _ \<Rightarrow> None)"

subsection \<open>Numbers and strings\<close>

lemma beValue_beBytes: "foldl (\<lambda>n c. 256 * n + of_char c) a (beBytes k n) = a * 256 ^ k + n mod 256 ^ k"
proof (induction k arbitrary: a)
  case (Suc k)
  have byte: "drop_bit (8 * k) n = n div 256 ^ k" by (simp add: drop_bit_eq_div power_mult)
  have split: "n mod 256 ^ Suc k = 256 ^ k * (n div 256 ^ k mod 256) + n mod 256 ^ k"
    using mod_mult2_eq [of n "256 ^ k" 256] by (simp add: mult.commute)
  have "foldl (\<lambda>n c. 256 * n + of_char c) a (beBytes (Suc k) n) =
      (256 * a + n div 256 ^ k mod 256) * 256 ^ k + n mod 256 ^ k"
    using Suc [of "256 * a + n div 256 ^ k mod 256"] by (simp add: byte)
  also have "\<dots> = a * 256 ^ Suc k + n mod 256 ^ Suc k"
    unfolding split by (simp add: algebra_simps)
  finally show ?case .
qed simp

lemma beBytes_length [simp]: "length (beBytes k n) = k"
  by (induction k) simp_all

lemma decodeLen_bytes: "n < 256 ^ k \<Longrightarrow> decodeLen k (beBytes k n @ r) = Some (n, r)"
  using beValue_beBytes [of 0 k n] by (simp add: decodeLen_def beValue_def)

lemma decodeLen_byte: "n < 256 \<Longrightarrow> decodeLen (Suc 0) (char_of n # r) = Some (n, r)"
  using decodeLen_bytes [of n 1 r] by simp

lemma takeBytes_append [simp]: "takeBytes (length s, s @ r) = Some (s, r)"
  by (simp add: takeBytes_def)

lemma small_or:
  fixes n :: nat
  shows "n \<le> 15 \<Longrightarrow> 0x80 OR n = 0x80 + n" and "n \<le> 31 \<Longrightarrow> 0xa0 OR n = 0xa0 + n"
proof -
  have "\<forall>n\<in>set [0..<16]. 0x80 OR n = 0x80 + (n :: nat)" "\<forall>n\<in>set [0..<32]. 0xa0 OR n = 0xa0 + (n :: nat)" by code_simp+
  then show "n \<le> 15 \<Longrightarrow> 0x80 OR n = 0x80 + n" "n \<le> 31 \<Longrightarrow> 0xa0 OR n = 0xa0 + n" by simp_all
qed

lemma decodeStr_mpStr:
  assumes "length s < 2 ^ 32"
  shows "decodeStr (mpStr s @ r) = Some (s, r)"
  using assms by (simp add: mpStr_def decodeStr_def Let_def small_or decodeLen_bytes decodeLen_byte)

lemma decodeStr_other: "decodeStr (char_of b # s) = None"
  if "b < 256" "\<not> (0xa0 \<le> b \<and> b < 0xc0)" "b \<noteq> 0xd9" "b \<noteq> 0xda" "b \<noteq> 0xdb" for b :: nat
  using that by (auto simp: decodeStr_def Let_def)

subsection \<open>Values\<close>

fun mpBytes :: "mp \<Rightarrow> string" where
  "mpBytes (MStr s) = mpStr s"
| "mpBytes (MUint n) = mpUint (word_of_nat n)"
| "mpBytes (MBool b) = mpBool b"
| "mpBytes (MBin s) = mpBin s"
| "mpBytes (MMap kvs) = mpMapHeader (length kvs) @ concat (map (\<lambda>(k, v). mpStr k @ mpBytes v) kvs)"

text \<open>Lengths and numbers of a size that msgpack has a form for.\<close>

fun mpFits :: "mp \<Rightarrow> bool" where
  "mpFits (MStr s) \<longleftrightarrow> length s < 2 ^ 32"
| "mpFits (MUint n) \<longleftrightarrow> n < 2 ^ 64"
| "mpFits (MBool b) \<longleftrightarrow> True"
| "mpFits (MBin s) \<longleftrightarrow> length s < 2 ^ 32"
| "mpFits (MMap kvs) \<longleftrightarrow> length kvs < 2 ^ 32 \<and> (\<forall>(k, v)\<in>set kvs. length k < 2 ^ 32 \<and> mpFits v)"

fun mpHeight :: "mp \<Rightarrow> nat" where
  "mpHeight (MMap kvs) = Suc (Max (insert 0 ((\<lambda>(k, v). mpHeight v) ` set kvs)))"
| "mpHeight t = 1"

lemma decodeValue_byte:
  assumes "b < 256" and "\<not> (0xa0 \<le> b \<and> b < 0xc0)" and "b \<noteq> 0xd9" and "b \<noteq> 0xda" and "b \<noteq> 0xdb"
  shows "decodeValue (Suc fuel) (char_of b # cs) =
    (if b = 0xc2 then Some (MBool False, cs)
     else if b = 0xc3 then Some (MBool True, cs)
     else (case decodeUint b cs of
             Some (n, r) \<Rightarrow> Some (MUint n, r)
           | None \<Rightarrow>
               (case decodeBin b cs of
                  Some (x, r) \<Rightarrow> Some (MBin x, r)
                | None \<Rightarrow>
                    (case decodeHeader b cs of
                       Some (n, r) \<Rightarrow> map_option (map_prod MMap id) (decodeFields fuel n r)
                     | None \<Rightarrow> None))))"
  using assms(1) decodeStr_other [OF assms] by (simp add: Let_def)

lemma decode_uint:
  assumes "n < 2 ^ 64"
  shows "decodeValue (Suc fuel) (mpUint (word_of_nat n) @ r) = Some (MUint n, r)"
proof -
  have n: "unat (word_of_nat n :: 64 word) = n" using assms by (simp add: unat_of_nat)
  have le: "(word_of_nat n :: 64 word) \<le> m \<longleftrightarrow> n \<le> unat m" for m by (simp add: word_le_nat_alt n)
  show ?thesis
    using assms
    by (simp add: mpUint_def le n decodeValue_byte decodeUint_def decodeLen_byte decodeLen_bytes del: decodeValue.simps)
qed

lemma decode_bin:
  assumes "length s < 2 ^ 32"
  shows "decodeValue (Suc fuel) (mpBin s @ r) = Some (MBin s, r)"
  using assms
  by (simp add: mpBin_def Let_def decodeValue_byte decodeUint_def decodeBin_def decodeLen_byte decodeLen_bytes
      del: decodeValue.simps)

lemma decode_header:
  assumes "n < 2 ^ 32"
  shows "decodeValue (Suc fuel) (mpMapHeader n @ r) = map_option (map_prod MMap id) (decodeFields fuel n r)"
  using assms
  by (simp add: mpMapHeader_def small_or decodeValue_byte decodeUint_def decodeBin_def decodeHeader_def decodeLen_bytes
      del: decodeValue.simps)

lemma decode_value:
  assumes "mpFits t" and "mpHeight t \<le> fuel"
  shows "decodeValue fuel (mpBytes t @ r) = Some (t, r)"
  using assms
proof (induction t arbitrary: fuel r rule: mpBytes.induct)
  case (5 kvs)
  then obtain fuel' where fuel: "fuel = Suc fuel'" by (cases fuel) auto
  have "decodeFields fuel' (length es) (concat (map (\<lambda>(k, v). mpStr k @ mpBytes v) es) @ r) = Some (es, r)"
    if "set es \<subseteq> set kvs" for es
    using that
  proof (induction es)
    case (Cons e es)
    obtain k v where e: "e = (k, v)" by force
    with Cons.prems have kv: "(k, v) \<in> set kvs" by simp
    with 5(2) have k: "length k < 2 ^ 32" and fits: "mpFits v" by auto
    have "mpHeight v \<in> insert 0 ((\<lambda>(k, v). mpHeight v) ` set kvs)" using kv by force
    then have "mpHeight v \<le> Max (insert 0 ((\<lambda>(k, v). mpHeight v) ` set kvs))" by (intro Max_ge) auto
    with 5(3) fuel have "mpHeight v \<le> fuel'" by (simp only: mpHeight.simps Suc_le_mono)
    from 5(1) [OF kv refl fits this] Cons k e show ?case by (simp add: decodeStr_mpStr)
  qed simp
  from this [of kvs] 5(2) show ?case
    by (simp add: fuel decode_header del: decodeValue.simps)
next
  case (1 s)
  then show ?case by (cases fuel) (auto simp: decodeStr_mpStr)
next
  case (2 n)
  then show ?case by (cases fuel) (auto simp: decode_uint simp del: decodeValue.simps)
next
  case (3 b)
  then show ?case by (cases fuel) (auto simp: mpBool_def decodeValue_byte simp del: decodeValue.simps)
next
  case (4 s)
  then show ?case by (cases fuel) (auto simp: decode_bin simp del: decodeValue.simps)
qed

text \<open>The bytes are at least as many as the levels, and as anything in them is long.\<close>

lemma mpStr_length: "length s < length (mpStr s)"
  by (simp add: mpStr_def Let_def)

lemma mpStr_nonempty [simp]: "mpStr s \<noteq> []"
  by (simp add: mpStr_def Let_def)

lemma mpMapHeader_nonempty: "0 < length (mpMapHeader n)"
  by (simp add: mpMapHeader_def)

lemma concat_length: "x \<in> set xs \<Longrightarrow> length (f x) \<le> length (concat (map f xs))"
  by (induction xs) auto

lemma concat_count: "(\<And>x. x \<in> set xs \<Longrightarrow> 0 < length (f x)) \<Longrightarrow> length xs \<le> length (concat (map f xs))"
proof (induction xs)
  case (Cons x xs)
  then have "0 < length (f x)" "length xs \<le> length (concat (map f xs))" by auto
  then show ?case by (simp del: length_greater_0_conv)
qed simp

lemma entry_length:
  assumes "(k, v) \<in> set kvs"
  shows "length k + length (mpBytes v) < length (mpBytes (MMap kvs))"
proof -
  have "length (mpStr k @ mpBytes v) \<le> length (concat (map (\<lambda>(k, v). mpStr k @ mpBytes v) kvs))"
    using concat_length [OF assms, of "\<lambda>(k, v). mpStr k @ mpBytes v"] by simp
  with mpStr_length [of k] show ?thesis by simp
qed

lemma mpHeight_length: "mpHeight t \<le> length (mpBytes t)"
proof (induction t rule: mpBytes.induct)
  case (5 kvs)
  have "x < length (mpBytes (MMap kvs))" if "x \<in> insert 0 ((\<lambda>(k, v). mpHeight v) ` set kvs)" for x
  proof (cases "x = 0")
    case True
    then show ?thesis using mpMapHeader_nonempty by simp
  next
    case False
    with that obtain k v where kv: "(k, v) \<in> set kvs" "x = mpHeight v" by auto
    from 5 [OF kv(1) refl] entry_length [OF kv(1)] kv(2) show ?thesis by linarith
  qed
  then have "Max (insert 0 ((\<lambda>(k, v). mpHeight v) ` set kvs)) < length (mpBytes (MMap kvs))"
    by (subst Max_less_iff) auto
  then show ?case by (simp only: mpHeight.simps Suc_le_eq)
qed (auto simp: mpStr_def mpUint_def mpBool_def mpBin_def Let_def)

text \<open>A value whose numbers have 64 bits fits when its bytes do.\<close>

fun uintsFit :: "mp \<Rightarrow> bool" where
  "uintsFit (MUint n) \<longleftrightarrow> n < 2 ^ 64"
| "uintsFit (MMap kvs) \<longleftrightarrow> (\<forall>(k, v)\<in>set kvs. uintsFit v)"
| "uintsFit t \<longleftrightarrow> True"

lemma mpFits_length: "uintsFit t \<Longrightarrow> length (mpBytes t) < 2 ^ 32 \<Longrightarrow> mpFits t"
proof (induction t rule: mpBytes.induct)
  case (5 kvs)
  have "length kvs \<le> length (concat (map (\<lambda>(k, v). mpStr k @ mpBytes v) kvs))"
    using mpStr_nonempty by (intro concat_count) (auto split: prod.splits)
  with 5(3) have "length kvs < 2 ^ 32" by simp
  moreover have "length k < 2 ^ 32 \<and> mpFits v" if kv: "(k, v) \<in> set kvs" for k v
    using 5(1) [OF kv refl] 5(2,3) entry_length [OF kv] kv by fastforce
  ultimately show ?case by auto
next
  case (1 s)
  then show ?case using mpStr_length [of s] by simp
qed (auto simp: mpBin_def Let_def)

lemma decodeMessage_bytes:
  assumes "uintsFit t" and "length (mpBytes t) < 2 ^ 32"
  shows "decodeMessage (mpBytes t) = Some t"
  using decode_value [OF mpFits_length [OF assms] mpHeight_length, of "[]"] by (simp add: decodeMessage_def)

end
