(* ===== verification/AuditPayload.thy ===== *)
theory AuditPayload
  imports AuditFacts "HOL-Library.Sublist"
begin

section \<open>The tree of an audit payload\<close>

text \<open>
  The map from paths to values that a tree of nodes stands for, and what each step of the encoder
  does to it. From these come the payloads that are accepted, what their bytes say, and that the
  order of the fields does not matter.
\<close>

fun leafAt :: "auditNode \<Rightarrow> string list \<Rightarrow> auditValue option" where
  "leafAt (Node leaf children) [] = leaf"
| "leafAt (Node leaf children) (s # segs) =
     (case map_get children s of None \<Rightarrow> None | Some c \<Rightarrow> leafAt c segs)"

definition bearing :: "auditNode \<Rightarrow> bool" where
  "bearing n \<longleftrightarrow> leafAt n [] \<noteq> None \<or> childrenOf n \<noteq> []"

text \<open>A value has nothing beneath it, and a map that is not the root is not empty.\<close>

fun tidy :: "auditNode \<Rightarrow> bool" where
  "tidy (Node leaf children) \<longleftrightarrow>
     (leaf \<noteq> None \<longrightarrow> children = []) \<and> (\<forall>(k, c)\<in>set children. tidy c \<and> bearing c)"

lemma tidy_child:
  assumes "tidy (Node leaf children)" and "map_get children s = Some c"
  shows "tidy c" and "bearing c"
  using assms by (auto simp: map_get_def dest!: map_of_SomeD)

lemma tidy_put:
  assumes "tidy (Node None children)" and "tidy c" and "bearing c"
  shows "tidy (Node None (map_put children s c))"
proof -
  have "set (map_put children s c) \<subseteq> insert (s, c) (set children)"
    unfolding map_put_def by (induction children) auto
  with assms show ?thesis by auto
qed

lemma map_put_nonempty [simp]: "map_put m k v \<noteq> []"
  unfolding map_put_def by (cases m) auto

lemma bearing_leaf: "tidy n \<Longrightarrow> bearing n \<Longrightarrow> \<exists>segs. leafAt n segs \<noteq> None"
proof (induction n rule: tidy.induct)
  case (1 leaf children)
  show ?case
  proof (cases leaf)
    case (Some v)
    then show ?thesis by (intro exI [where x = "[]"]) simp
  next
    case None
    with 1(3) obtain k c where "(k, c) \<in> set children" by (cases children) (auto simp: bearing_def)
    then obtain c' where c': "map_get children k = Some c'"
      by (metis map_get_def not_Some_eq map_of_eq_None_iff image_eqI fst_conv)
    then have mem: "(k, c') \<in> set children" by (simp add: map_get_def map_of_SomeD)
    with 1(1) [OF mem refl] 1(2) obtain segs where "leafAt c' segs \<noteq> None" by fastforce
    with c' show ?thesis by (intro exI [where x = "k # segs"]) simp
  qed
qed

text \<open>Nothing is at a proper prefix of the path, nor beneath it.\<close>

definition clearAt :: "(string list \<Rightarrow> auditValue option) \<Rightarrow> string list \<Rightarrow> bool" where
  "clearAt L segs \<longleftrightarrow> (\<forall>p. strict_prefix p segs \<or> strict_prefix segs p \<longrightarrow> L p = None)"

lemma clearAt_Cons: "clearAt L (s # segs) \<longleftrightarrow> L [] = None \<and> clearAt (\<lambda>p. L (s # p)) segs"
proof
  assume c: "clearAt L (s # segs)"
  then show "L [] = None \<and> clearAt (\<lambda>p. L (s # p)) segs" by (auto simp: clearAt_def)
next
  assume c: "L [] = None \<and> clearAt (\<lambda>p. L (s # p)) segs"
  show "clearAt L (s # segs)"
    unfolding clearAt_def
  proof (intro allI impI)
    fix p
    assume p: "strict_prefix p (s # segs) \<or> strict_prefix (s # segs) p"
    show "L p = None"
    proof (cases p)
      case (Cons x q)
      with p have "x = s" "strict_prefix q segs \<or> strict_prefix segs q" by auto
      with c Cons show ?thesis by (simp only: clearAt_def)
    qed (use c in simp)
  qed
qed

lemma leafAt_childless: "childrenOf n = [] \<Longrightarrow> p \<noteq> [] \<Longrightarrow> leafAt n p = None"
  by (cases n; cases p) simp_all

lemma strict_prefix_Nil: "strict_prefix [] p \<longleftrightarrow> p \<noteq> []"
  by (cases p) simp_all

lemma clearAt_Nil:
  assumes "tidy n"
  shows "clearAt (leafAt n) [] \<longleftrightarrow> childrenOf n = []"
proof (cases n)
  case (Node leaf children)
  have "\<exists>p. p \<noteq> [] \<and> leafAt n p \<noteq> None" if "children \<noteq> []"
  proof -
    from that obtain kc rest where "children = kc # rest" by (cases children) auto
    then have first: "map_get children (fst kc) = Some (snd kc)" by (simp add: map_get_def)
    with bearing_leaf [of "snd kc"] tidy_child [of leaf children "fst kc" "snd kc"] assms Node
    obtain segs where "leafAt (snd kc) segs \<noteq> None" by auto
    with first show ?thesis using Node by (intro exI [where x = "fst kc # segs"]) simp
  qed
  then show ?thesis using leafAt_childless [of n] Node by (cases "children = []") (auto simp: clearAt_def strict_prefix_Nil)
qed

lemma leafAt_put:
  "leafAt (Node None (map_put children s c)) =
     (\<lambda>p. case p of [] \<Rightarrow> None | x # q \<Rightarrow> if x = s then leafAt c q else leafAt (Node None children) p)"
  by (rule ext) (auto simp: gomap.get_put split: list.split)

lemma insertField_exact:
  assumes "tidy n" and "segs \<noteq> []"
  shows "if [] \<notin> set segs \<and> clearAt (leafAt n) segs
    then \<exists>n'. insertField segs v n = Inr n' \<and> tidy n' \<and> bearing n' \<and> leafAt n' = (leafAt n)(segs \<mapsto> v)
    else \<exists>e. insertField segs v n = Inl e"
  using assms
proof (induction segs v n rule: insertField.induct)
  case (2 s segs v leaf children)
  define child where "child = (case map_get children s of None \<Rightarrow> Node None [] | Some c \<Rightarrow> c)"
  have child: "tidy child" using tidy_child [OF 2(2)] by (auto simp: child_def split: option.split)
  have below: "leafAt (Node leaf children) (s # p) = leafAt child p" for p
    by (cases p) (auto simp: child_def split: option.split)
  have clear: "clearAt (leafAt (Node leaf children)) (s # segs) \<longleftrightarrow> leaf = None \<and> clearAt (leafAt child) segs"
    by (simp add: clearAt_Cons below del: leafAt.simps(2))
  have put: "leafAt (Node None (map_put children s c)) = (leafAt (Node None children))(s # segs \<mapsto> v)"
    if "leaf = None" "leafAt c = (leafAt child)(segs \<mapsto> v)" for c
    unfolding leafAt_put using that below
    by (intro ext) (auto split: list.split simp del: leafAt.simps(2))
  show ?case
  proof (cases "s = [] \<or> leaf \<noteq> None")
    case True
    then show ?thesis using clear by auto
  next
    case False
    show ?thesis
    proof (cases "segs = []")
      case True
      have "leafAt (Node (Some v) []) = (leafAt child)([] \<mapsto> v)" if "childrenOf child = []"
        using that by (intro ext) (auto split: list.split simp: neq_Nil_conv leafAt_childless)
      with True False clear clearAt_Nil [OF child] put [of "Node (Some v) []"] tidy_put [of children "Node (Some v) []" s] 2(2)
      show ?thesis by (auto simp: child_def [symmetric] Let_def bearing_def)
    next
      case deeper: False
      show ?thesis
      proof (cases "[] \<notin> set segs \<and> clearAt (leafAt child) segs")
        case True
        with 2(1) [OF _ _ child_def deeper child deeper] False obtain c
          where c: "insertField segs v child = Inr c" "tidy c" "bearing c" "leafAt c = (leafAt child)(segs \<mapsto> v)" by auto
        with False deeper True clear put [OF _ c(4)] tidy_put [of children c s] 2(2)
        show ?thesis by (auto simp: child_def [symmetric] Let_def bearing_def)
      next
        case refused: False
        with 2(1) [OF _ _ child_def deeper child deeper] False obtain e where "insertField segs v child = Inl e" by auto
        with False deeper refused clear show ?thesis by (auto simp: child_def [symmetric] Let_def)
      qed
    qed
  qed
qed simp


subsection \<open>The fields\<close>

definition prefixFree :: "string list set \<Rightarrow> bool" where
  "prefixFree S \<longleftrightarrow> (\<forall>p\<in>S. \<forall>q\<in>S. \<not> strict_prefix p q)"

lemma unrelated_insert:
  assumes "\<not> R p p"
  shows "(\<forall>x\<in>insert p S. \<forall>y\<in>insert p S. \<not> R x y) \<longleftrightarrow>
    (\<forall>x\<in>S. \<forall>y\<in>S. \<not> R x y) \<and> (\<forall>q\<in>S. \<not> R p q \<and> \<not> R q p)"
  using assms by auto

lemma unrelated_dom: "(\<forall>q\<in>dom L. \<not> R p q \<and> \<not> R q p) \<longleftrightarrow> (\<forall>q. R q p \<or> R p q \<longrightarrow> L q = None)"
  by (auto simp: dom_def)

lemma prefixFree_insert: "prefixFree (insert p (dom L)) \<longleftrightarrow> prefixFree (dom L) \<and> clearAt L p"
proof -
  have "prefixFree (insert p S) \<longleftrightarrow> prefixFree S \<and> (\<forall>q\<in>S. \<not> strict_prefix p q \<and> \<not> strict_prefix q p)" for S
    unfolding prefixFree_def by (rule unrelated_insert) (rule prefix_order.less_irrefl)
  moreover have "(\<forall>q\<in>dom L. \<not> strict_prefix p q \<and> \<not> strict_prefix q p) \<longleftrightarrow> clearAt L p"
    unfolding clearAt_def by (rule unrelated_dom)
  ultimately show ?thesis by (simp only:)
qed

lemma prefixFree_subset: "prefixFree T \<Longrightarrow> S \<subseteq> T \<Longrightarrow> prefixFree S"
  unfolding prefixFree_def by blast

abbreviation segmentsOf :: "string \<Rightarrow> string list" where
  "segmentsOf \<equiv> split_byte (CHR ''.'')"

lemma segmentsOf_inj: "segmentsOf p = segmentsOf q \<longleftrightarrow> p = q"
  by (metis split_byte_join)

abbreviation keyedFields :: "(string \<times> auditValue) list \<Rightarrow> (string list \<times> auditValue) list" where
  "keyedFields \<equiv> map (\<lambda>(path, v). (segmentsOf path, v))"

lemma insertFields_exact:
  assumes "tidy n" and "prefixFree (dom (leafAt n))"
  shows "if (\<forall>(path, v)\<in>set fs. [] \<notin> set (segmentsOf path)) \<and> prefixFree (dom (leafAt n) \<union> segmentsOf ` fst ` set fs)
    then \<exists>n'. fold_res (\<lambda>(path, v). insertField (segmentsOf path) v) fs n = Inr n' \<and> tidy n' \<and>
           leafAt n' = leafAt n ++ map_of (rev (keyedFields fs))
    else \<exists>e. fold_res (\<lambda>(path, v). insertField (segmentsOf path) v) fs n = Inl e"
  using assms
proof (induction fs arbitrary: n)
  case (Cons f fs)
  obtain path v where f: "f = (path, v)" by force
  note ins = insertField_exact [OF Cons.prems(1) split_byte_nonempty, of "CHR ''.''" path v]
  show ?case
  proof (cases "[] \<notin> set (segmentsOf path) \<and> clearAt (leafAt n) (segmentsOf path)")
    case True
    with ins obtain m where m: "insertField (segmentsOf path) v n = Inr m" "tidy m"
      "leafAt m = (leafAt n)(segmentsOf path \<mapsto> v)" by auto
    have dom: "dom (leafAt m) = insert (segmentsOf path) (dom (leafAt n))" by (simp add: m(3))
    then have free: "prefixFree (dom (leafAt m))" using True Cons.prems(2) by (simp add: prefixFree_insert)
    have maps: "leafAt m ++ map_of (rev (keyedFields fs)) = leafAt n ++ map_of (rev (keyedFields (f # fs)))"
      by (simp add: f m(3))
    have sets: "dom (leafAt m) \<union> segmentsOf ` fst ` set fs = dom (leafAt n) \<union> segmentsOf ` fst ` set (f # fs)"
      by (simp add: f dom)
    have parts: "(\<forall>(path, v)\<in>set (f # fs). [] \<notin> set (segmentsOf path)) \<longleftrightarrow> (\<forall>(path, v)\<in>set fs. [] \<notin> set (segmentsOf path))"
      using True by (simp add: f)
    have run: "fold_res (\<lambda>(path, v). insertField (segmentsOf path) v) (f # fs) n = fold_res (\<lambda>(path, v). insertField (segmentsOf path) v) fs m"
      using m(1) by (simp add: f)
    from Cons.IH [OF m(2) free] show ?thesis unfolding maps sets parts run .
  next
    case False
    then have "\<not> ([] \<notin> set (segmentsOf path) \<and> prefixFree (insert (segmentsOf path) (dom (leafAt n))))"
      using Cons.prems(2) by (auto simp: prefixFree_insert)
    moreover have "insert (segmentsOf path) (dom (leafAt n)) \<subseteq> dom (leafAt n) \<union> segmentsOf ` fst ` set (f # fs)"
      by (simp add: f) blast
    note prefixFree_subset [OF _ this]
    ultimately have "\<not> ([] \<notin> set (segmentsOf path) \<and> prefixFree (dom (leafAt n) \<union> segmentsOf ` fst ` set (f # fs)))"
      by blast
    moreover from False ins obtain e where "insertField (segmentsOf path) v n = Inl e" by auto
    ultimately show ?thesis by (simp add: f) blast
  qed
qed simp

end
