(* ===== verification/AuditRoundtrip.thy ===== *)
theory AuditRoundtrip
  imports AuditPayload
begin

section \<open>What an audit payload says\<close>

text \<open>
  The message that a tree of nodes encodes, the bytes that the encoder writes for it, and from
  these the round trip and the independence of the order of the fields.
\<close>

fun mpValue :: "auditValue \<Rightarrow> mp" where
  "mpValue (VStr s) = MStr s"
| "mpValue (VUint n) = MUint (unat n)"
| "mpValue (VBool b) = MBool b"
| "mpValue (VBin s) = MBin s"
| "mpValue VOther = MMap []"

function mpOf :: "auditNode \<Rightarrow> mp" where
  "mpOf (Node (Some v) children) = mpValue v"
| "mpOf (Node None children) = MMap (map (\<lambda>(k, c). (k, mpOf c)) (map_entries children))"
  by pat_completeness auto
termination
  by (relation "measure size") (auto dest: entries_smaller)

text \<open>The message at a path, and the values of a message.\<close>

fun mpAt :: "mp \<Rightarrow> string list \<Rightarrow> mp option" where
  "mpAt t [] = Some t"
| "mpAt (MMap kvs) (s # segs) = (case map_of kvs s of None \<Rightarrow> None | Some t \<Rightarrow> mpAt t segs)"
| "mpAt t (s # segs) = None"

fun isMap :: "mp \<Rightarrow> bool" where
  "isMap (MMap kvs) \<longleftrightarrow> True"
| "isMap t \<longleftrightarrow> False"

definition says :: "mp \<Rightarrow> string list \<Rightarrow> mp \<Rightarrow> bool" where
  "says t segs x \<longleftrightarrow> mpAt t segs = Some x \<and> \<not> isMap x"

lemma map_of_entries: "map_of (map_entries m) = map_get m"
proof
  fix k
  have "distinct (map fst (map_entries m))" by (simp add: map_entries_keys map_keys_def)
  then show "map_of (map_entries m) k = map_get m k"
    using map_of_eq_Some_iff map_entries_mem by (metis option.exhaust)
qed

lemma mpAt_leaf: "tidy n \<Longrightarrow> leafAt n segs = Some v \<Longrightarrow> mpAt (mpOf n) segs = Some (mpValue v)"
proof (induction n segs rule: leafAt.induct)
  case (2 leaf children s segs)
  then have none: "leaf = None" by (cases leaf) auto
  from 2(3) obtain c where c: "map_get children s = Some c" "leafAt c segs = Some v"
    by (auto split: option.splits)
  with 2(1) [OF c(1)] tidy_child(1) [OF 2(2) c(1)] none show ?case
    by (simp add: map_of_map map_of_entries)
qed simp

lemma mpAt_value: "tidy n \<Longrightarrow> says (mpOf n) segs x \<Longrightarrow> \<exists>v. leafAt n segs = Some v \<and> x = mpValue v"
proof (induction n segs rule: leafAt.induct)
  case (1 leaf children)
  then show ?case by (cases leaf) (auto simp: says_def)
next
  case (2 leaf children s segs)
  have none: "leaf = None"
  proof (cases leaf)
    case (Some v)
    with 2(3) show ?thesis by (cases v) (auto simp: says_def)
  qed simp
  with 2(3) obtain c where c: "map_get children s = Some c" "says (mpOf c) segs x"
    by (auto simp: says_def map_of_map map_of_entries split: option.splits)
  with 2(1) [OF c(1)] tidy_child(1) [OF 2(2) c(1)] show ?case by simp
qed

lemma traverse_all:
  "traverse (\<lambda>x. if P x then Inr (f x) else Inl e) xs = (if \<forall>x\<in>set xs. P x then Inr (map f xs) else Inl e)"
  by (induction xs) auto

definition carried :: "auditNode \<Rightarrow> bool" where
  "carried n \<longleftrightarrow> (\<forall>segs. leafAt n segs \<noteq> Some VOther)"

lemma carried_map: "carried (Node None children) \<longleftrightarrow> (\<forall>x\<in>set (map_entries children). carried (snd x))"
proof -
  have "carried (Node None children) \<longleftrightarrow> (\<forall>s segs. leafAt (Node None children) (s # segs) \<noteq> Some VOther)"
    unfolding carried_def by (metis leafAt.simps(1) neq_Nil_conv option.distinct(1))
  also have "\<dots> \<longleftrightarrow> (\<forall>s c. map_get children s = Some c \<longrightarrow> carried c)"
    by (auto simp: carried_def split: option.split)
  finally show ?thesis by (simp only: Ball_def split_paired_All map_entries_mem snd_conv)
qed

lemma carried_leaf: "tidy (Node (Some v) children) \<Longrightarrow> carried (Node (Some v) children) \<longleftrightarrow> v \<noteq> VOther"
  unfolding carried_def using leafAt_childless [of "Node (Some v) children"]
  by (metis childrenOf.simps leafAt.simps(1) option.distinct(1) option.inject tidy.simps)

lemma appendValue_mp: "appendValue v = (if v \<noteq> VOther then Inr (mpBytes (mpValue v)) else Inl NoForm)"
  by (cases v) (simp_all add: appendValue_def)

lemma appendNode_mp:
  "tidy (Node leaf children) \<Longrightarrow>
     appendNode (Node leaf children) =
       (if carried (Node None children) then Inr (mpBytes (mpOf (Node None children))) else Inl NoForm)"
proof (induction "Node leaf children" arbitrary: leaf children rule: appendNode.induct)
  case (1 leaf children)
  define child where
    "child c = (case c of Node (Some v) cs \<Rightarrow> appendValue v | Node None cs \<Rightarrow> appendNode c)" for c
  have child: "child c = (if carried c then Inr (mpBytes (mpOf c)) else Inl NoForm)"
    if kc: "(k, c) \<in> set (map_entries children)" for k c
  proof -
    have c: "tidy c" using tidy_child(1) [OF 1(2)] kc by (simp add: map_entries_mem)
    show ?thesis
    proof (cases c)
      case (Node l cs)
      show ?thesis
      proof (cases l)
        case None
        with Node 1(1) [OF kc [unfolded Node None] refl refl refl] c show ?thesis by (simp add: child_def)
      next
        case (Some v)
        with Node c show ?thesis by (simp add: child_def carried_leaf appendValue_mp)
      qed
    qed
  qed
  have "traverse (\<lambda>(k, c). rbind (child c) (\<lambda>b. Inr (mpStr k @ b))) (map_entries children) =
      traverse (\<lambda>x. if carried (snd x) then Inr (mpStr (fst x) @ mpBytes (mpOf (snd x))) else Inl NoForm)
        (map_entries children)"
    by (rule traverse_cong) (auto simp: child)
  also have "\<dots> = (if carried (Node None children)
      then Inr (map (\<lambda>x. mpStr (fst x) @ mpBytes (mpOf (snd x))) (map_entries children)) else Inl NoForm)"
    by (simp only: traverse_all carried_map split_beta)
  finally show ?case
    by (simp add: child_def [symmetric] map_entries_keys [symmetric] o_def split_beta)
qed

lemma uintsFit_mpValue: "uintsFit (mpValue v)"
  using unsigned_less [of "_ :: 64 word"] by (cases v) simp_all

lemma uintsFit_mpOf: "uintsFit (mpOf n)"
proof (induction n rule: mpOf.induct)
  case (2 children)
  then show ?case by fastforce
qed (simp add: uintsFit_mpValue)

text \<open>Trees that say the same encode the same message.\<close>

lemma entries_map: "map (\<lambda>(k, c). (k, f c)) (map_entries m) = map (\<lambda>k. (k, the (map_option f (map_get m k)))) (map_keys m)"
  unfolding map_entries_def by (auto simp: gomap.set_keys dom_def)

lemma child_exists:
  assumes "tidy (Node leaf children)"
  shows "s \<in> dom (map_get children) \<longleftrightarrow> (\<exists>segs. leafAt (Node leaf children) (s # segs) \<noteq> None)"
  using bearing_leaf tidy_child [OF assms] by (fastforce split: option.splits)

lemma mpOf_unique: "tidy n \<Longrightarrow> tidy m \<Longrightarrow> leafAt n = leafAt m \<Longrightarrow> mpOf n = mpOf m"
proof (induction n arbitrary: m rule: mpOf.induct)
  case (1 v children)
  obtain l cs where m: "m = Node l cs" by (cases m)
  with fun_cong [OF 1(3), of "[]"] show ?case by auto
next
  case (2 children)
  obtain l cs where m: "m = Node l cs" by (cases m)
  with fun_cong [OF 2(4), of "[]"] have l: "l = None" by simp
  have same: "leafAt (Node None children) (s # segs) = leafAt (Node None cs) (s # segs)" for s segs
    using 2(4) by (simp only: m l)
  have dom: "dom (map_get children) = dom (map_get cs)"
    by (intro set_eqI) (simp only: child_exists [OF 2(2)] child_exists [OF 2(3) [unfolded m l]] same)
  have "map_option mpOf (map_get children s) = map_option mpOf (map_get cs s)" for s
  proof (cases "map_get children s")
    case None
    with dom show ?thesis by (metis domIff)
  next
    case (Some c)
    with dom obtain d where d: "map_get cs s = Some d" by blast
    have "leafAt c = leafAt d" using same [of s] Some d by (intro ext) simp
    with 2(1) [of "(s, c)" s c d] tidy_child(1) [OF 2(2) Some] tidy_child(1) [OF 2(3) [unfolded m] d] Some d
    show ?thesis by (simp add: map_entries_mem)
  qed
  moreover have "map_keys children = map_keys cs"
    using dom by (simp add: map_keys_def dom_map_get sorted_list_of_set_sort_remdups [symmetric])
  ultimately show ?case by (simp add: m l entries_map)
qed


subsection \<open>Payloads\<close>

definition encodable :: "(string \<times> auditValue) list \<Rightarrow> bool" where
  "encodable fs \<longleftrightarrow>
     (\<forall>(path, v)\<in>set fs. v \<noteq> VOther \<and> [] \<notin> set (segmentsOf path)) \<and>
     (\<forall>(p, v)\<in>set fs. \<forall>(q, w)\<in>set fs. \<not> strict_prefix (segmentsOf p) (segmentsOf q))"

lemma keyedFields_Some:
  assumes "distinct (map fst fs)"
  shows "map_of (rev (keyedFields fs)) segs = Some v \<longleftrightarrow> (\<exists>path. (path, v) \<in> set fs \<and> segs = segmentsOf path)"
proof -
  have "map fst (keyedFields fs) = map segmentsOf (map fst fs)" by auto
  moreover have "distinct (map segmentsOf (map fst fs))"
    using assms by (simp add: distinct_map inj_on_def segmentsOf_inj)
  ultimately have "distinct (map fst (rev (keyedFields fs)))" by (simp only: rev_map [symmetric] distinct_rev)
  from map_of_eq_Some_iff [OF this] show ?thesis by auto
qed

definition fieldTree :: "(string \<times> auditValue) list \<Rightarrow> auditNode \<Rightarrow> bool" where
  "fieldTree fs n \<longleftrightarrow>
     tidy n \<and> (\<forall>segs v. leafAt n segs = Some v \<longleftrightarrow> (\<exists>path. (path, v) \<in> set fs \<and> segs = segmentsOf path))"

lemma fieldTree_carried: "fieldTree fs n \<Longrightarrow> carried n \<longleftrightarrow> (\<forall>(path, v)\<in>set fs. v \<noteq> VOther)"
  unfolding fieldTree_def carried_def by fastforce

lemma fieldTree_root: "fieldTree fs n \<Longrightarrow> \<exists>children. n = Node None children"
  unfolding fieldTree_def by (cases n) (metis leafAt.simps(1) not_None_eq split_byte_nonempty)

lemma encodePayload_tree:
  assumes "distinct (map fst fs)"
  shows "if encodable fs then \<exists>n. fieldTree fs n \<and> encodePayload fs = Inr (mpBytes (mpOf n))
    else \<exists>e. encodePayload fs = Inl e"
proof -
  let ?placed = "(\<forall>(path, v)\<in>set fs. [] \<notin> set (segmentsOf path)) \<and> prefixFree (segmentsOf ` fst ` set fs)"
  have enc: "encodable fs \<longleftrightarrow> ?placed \<and> (\<forall>(path, v)\<in>set fs. v \<noteq> VOther)"
    by (auto simp: encodable_def prefixFree_def split_beta)
  have empty: "leafAt (Node None []) = Map.empty"
  proof
    show "leafAt (Node None []) p = None" for p by (cases p) simp_all
  qed
  have "tidy (Node None [])" "prefixFree (dom (leafAt (Node None [])))" by (simp_all add: empty prefixFree_def)
  from insertFields_exact [OF this, of fs]
  have build: "if ?placed
    then \<exists>n. fold_res (\<lambda>(path, v). insertField (segmentsOf path) v) fs (Node None []) = Inr n \<and> tidy n \<and>
           leafAt n = map_of (rev (keyedFields fs))
    else \<exists>e. fold_res (\<lambda>(path, v). insertField (segmentsOf path) v) fs (Node None []) = Inl e"
    by (simp only: empty dom_empty Un_empty_left empty_map_add)
  show ?thesis
  proof (cases ?placed)
    case True
    with build obtain n where n: "fold_res (\<lambda>(path, v). insertField (segmentsOf path) v) fs (Node None []) = Inr n"
      "tidy n" "leafAt n = map_of (rev (keyedFields fs))" by auto
    then have tree: "fieldTree fs n" using keyedFields_Some [OF assms] by (simp add: fieldTree_def)
    then obtain children where "n = Node None children" using fieldTree_root by blast
    with appendNode_mp n have "encodePayload fs = (if carried n then Inr (mpBytes (mpOf n)) else Inl NoForm)"
      by (simp add: encodePayload_def del: appendNode.simps mpOf.simps)
    with tree fieldTree_carried [OF tree] True show ?thesis unfolding enc by auto
  next
    case False
    with build show ?thesis unfolding enc by (auto simp: encodePayload_def)
  qed
qed

lemma fieldTree_unique: "fieldTree fs n \<Longrightarrow> fieldTree fs' m \<Longrightarrow> set fs' = set fs \<Longrightarrow> mpOf n = mpOf m"
proof (rule mpOf_unique)
  assume "fieldTree fs n" "fieldTree fs' m" "set fs' = set fs"
  then have "leafAt n segs = Some v \<longleftrightarrow> leafAt m segs = Some v" for segs v by (simp add: fieldTree_def)
  then show "leafAt n = leafAt m" by (intro ext option.expand) (metis option.collapse option.discI)+
qed (simp_all add: fieldTree_def)

text \<open>Which payloads there are, what they say, and that they are a function of the set of fields.\<close>

lemma payload_exists: "distinct (map fst fs) \<Longrightarrow> (\<exists>b. encodePayload fs = Inr b) \<longleftrightarrow> encodable fs"
  using encodePayload_tree [of fs] by (auto split: if_splits)

lemma payload_says:
  assumes "distinct (map fst fs)" and "encodePayload fs = Inr b" and "length b < 2 ^ 32"
  shows "\<exists>t. decodeMessage b = Some t \<and>
    (\<forall>segs x. says t segs x \<longleftrightarrow> (\<exists>(path, v)\<in>set fs. segs = segmentsOf path \<and> x = mpValue v))"
proof -
  from encodePayload_tree [OF assms(1)] assms(2)
  obtain n where n: "fieldTree fs n" "b = mpBytes (mpOf n)" "encodable fs" by (auto split: if_splits)
  have tidy: "tidy n" using n(1) by (simp add: fieldTree_def)
  have "says (mpOf n) segs x \<longleftrightarrow> (\<exists>(path, v)\<in>set fs. segs = segmentsOf path \<and> x = mpValue v)" (is "_ \<longleftrightarrow> ?r") for segs x
  proof
    assume "says (mpOf n) segs x"
    from mpAt_value [OF tidy this] n(1) show ?r by (fastforce simp: fieldTree_def)
  next
    assume ?r
    then obtain path v where v: "(path, v) \<in> set fs" "segs = segmentsOf path" "x = mpValue v" by auto
    then have "leafAt n segs = Some v" using n(1) by (auto simp: fieldTree_def)
    from mpAt_leaf [OF tidy this] v n(3) show "says (mpOf n) segs x" by (cases v) (auto simp: says_def encodable_def)
  qed
  with decodeMessage_bytes [OF uintsFit_mpOf, of n] n(2) assms(3) show ?thesis by auto
qed

lemma payload_order:
  assumes "distinct (map fst fs)" and "distinct (map fst fs')" and "set fs' = set fs" and "encodePayload fs = Inr b"
  shows "encodePayload fs' = Inr b"
proof -
  have "encodable fs' = encodable fs" using assms(3) by (simp add: encodable_def)
  with encodePayload_tree [OF assms(1)] encodePayload_tree [OF assms(2)] assms(4)
  obtain n m where "fieldTree fs n" "b = mpBytes (mpOf n)" "fieldTree fs' m" "encodePayload fs' = Inr (mpBytes (mpOf m))"
    by (auto split: if_splits)
  with fieldTree_unique [OF _ _ assms(3), of n m] show ?thesis by simp
qed

lemma payload_exact:
  assumes "distinct (map fst fs)"
  shows "case encodePayload fs of
      Inl e \<Rightarrow> \<not> encodable fs
    | Inr b \<Rightarrow>
        encodable fs \<and>
        (length b < 2 ^ 32 \<longrightarrow> (\<exists>t. decodeMessage b = Some t \<and>
           (\<forall>segs x. says t segs x \<longleftrightarrow> (\<exists>(path, v)\<in>set fs. segs = segmentsOf path \<and> x = mpValue v)))) \<and>
        (\<forall>fs'. distinct (map fst fs') \<and> set fs' = set fs \<longrightarrow> encodePayload fs' = Inr b)"
proof (cases "encodePayload fs")
  case (Inl e)
  with payload_exists [OF assms] show ?thesis by auto
next
  case (Inr b)
  from payload_says [OF assms Inr] payload_order [OF assms _ _ Inr] payload_exists [OF assms] Inr
  show ?thesis by simp
qed

subsection \<open>An example\<close>

definition exFields :: "(string \<times> auditValue) list" where
  "exFields =
     [(''transaction.id'', VUint 300), (''outcome.success'', VBool True), (''outcome.detail'', VStr ''ok''),
      (''subject.token.sid'', VBin [CHR 0x01, CHR 0x05])]"

lemma exFields_payload: "map_sum id length (encodePayload exFields) = Inr 72 \<and> distinct (map fst exFields)"
  by code_simp

end
