(* ===== verification/Spec2Isabelle.thy ===== *)
theory Spec2Isabelle
  imports Authority Preference Claims VersionFacts ClientExamples Lifetime CrossRootExamples ArchiveExamples JsonGuardFacts AuditRoundtrip
begin

text \<open>
  A verification library for peipkg, a package manager written in Go: \<open>src/internal\<close> holds
  the packages that are modelled, \<open>cmd\<close>, \<open>compose\<close>, \<open>pack\<close> and \<open>repopub\<close> the programs and interfaces
  around them.

  How the program works. An operator configures repositories (\<open>internal/config\<close>). The repository
  client (\<open>internal/repository\<close>) fetches a repository's descriptor, keys and index, verifies
  their signatures (\<open>internal/signature\<close>, \<open>internal/repodata\<close>), and records trust keys and a
  freshness floor (\<open>internal/db\<close>). An operation turns its requests, the installed packages and
  the index entries into a plan (\<open>internal/resolver\<close>), using version comparison and constraints
  (\<open>internal/version\<close>). Packages carry a manifest (\<open>internal/manifest\<close>) whose names and paths
  obey \<open>internal/capability\<close> and \<open>internal/layout\<close>; capability roles are materialised as symbolic
  links (\<open>internal/claims\<close>).

  The theories, in the order of their imports:

  \<^item> \<open>Prelude\<close>: results as sums (\<open>rbind\<close>, \<open>traverse\<close>, \<open>fold_res\<close>), Go's string functions, maps
    with sorted keys (\<open>gomap\<close>, an instance of the locale \<open>keyed_store\<close>), and three-way
    comparisons (the locale \<open>three_way\<close>) with their lexicographic composition.
  \<^item> \<open>Version\<close>, \<open>Constraint\<close>, \<open>VersionFacts\<close>: \<open>internal/version\<close>. The grammar the parser accepts,
    the termination of the tokeniser (a \<open>partial_function\<close>, whose non-termination is a value),
    the order as an interpretation of \<open>three_way\<close>, round trips.
  \<^item> \<open>Capability\<close>, \<open>GoStdlib\<close>, \<open>Layout\<close>: capability names; the parts of Go's \<open>time\<close>, \<open>base64\<close>, \<open>utf8\<close> and
    \<open>path\<close> packages that are used; path policy.
  \<^item> \<open>Manifest\<close>, \<open>Validate\<close>, \<open>ValidateFacts\<close>: the manifest before and after validation, every rule
    in the order of the code, and what a validated manifest satisfies.
  \<^item> \<open>ResolverModel\<close>, \<open>Select\<close>, \<open>Preference\<close>, \<open>Topo\<close>, \<open>Removal\<close>, \<open>Forward\<close>, \<open>Consistency\<close>, \<open>Planning\<close>,
    \<open>Resolve\<close>: \<open>internal/resolver\<close>, a definition per function, each with its own facts.
    \<open>Examples\<close> evaluates it on concrete inputs; \<open>ResolveFacts\<close> and \<open>Authority\<close> state what a whole
    plan guarantees.
  \<^item> \<open>Claims\<close>: \<open>internal/claims\<close>, against the set of links the specification describes.
  \<^item> \<open>RepoData\<close>, \<open>Trust\<close>, \<open>RepoClient\<close>: descriptors, indexes, envelopes, trust sets, freshness, and
    the client's operations over a recorded state. \<open>RepoSafety\<close> has the state machine of one
    machine's repositories (\<open>client_step\<close>) and its invariants; \<open>RepoDataFacts\<close> what the decoders
    accept; \<open>ClientExamples\<close> concrete inputs.

  \<^item> \<open>PackageDb\<close>, \<open>Machine\<close>, \<open>SafePath\<close>, \<open>FileOps\<close>, \<open>InstallModel\<close>, \<open>Journal\<close>, \<open>Stage\<close>, \<open>ClaimPlan\<close>,
    \<open>Execute\<close>: \<open>internal/install\<close> with the parts of \<open>internal/db\<close>, \<open>internal/safepath\<close> and
    \<open>internal/pipsig\<close> it uses. The machine is a file tree and a database; an action is a
    function on it that ends, fails or crashes as a schedule of faults says, so a theorem about
    every schedule covers every failure and every point of a crash.
  \<^item> \<open>MachineRules\<close>, \<open>FileOpsFacts\<close>, \<open>RollbackFacts\<close>: weakest preconditions for actions; applying and
    undoing file operations, interrupted anywhere. \<open>DbFacts\<close>: the schema's constraints are kept.
    \<open>StateFacts\<close>, \<open>CommitFacts\<close>, \<open>ExecuteFacts\<close>: what a transaction writes to the database, with the
    locale \<open>journal_stable\<close> between the journal and the tables of the packages, and the locale
    \<open>quiet_calls\<close> for what planning leaves alone.
  \<^item> \<open>PlanFacts\<close>, \<open>AtomicFacts\<close>, \<open>EndToEnd\<close>: what a complete plan commits, and a resolved plan
    executed. \<open>RecoverFacts\<close>, \<open>StagingFacts\<close>, \<open>TxnFacts\<close>, \<open>Interrupted\<close>, \<open>Planned\<close>: a transaction cut
    short at any call, from the opening of the journal to the end of the commit, and its
    recovery. \<open>Lifetime\<close>: the runs on one machine as a step relation, and its invariants.
    \<open>InstallExamples\<close>: concrete transactions.
  \<^item> \<open>ClaimCommand\<close>, \<open>ClaimFacts\<close>: the transaction that grants or revokes one role, and what it changes.
    \<open>CrossRoot\<close>: the commit in two phases over several roots and its recovery, on a \<open>system\<close>, a map
    from roots to machines; \<open>CrossRootFacts\<close> has the rules for actions in one root of a system and what
    each step makes of one root, \<open>CrossRootRun\<close> the invariants of a run (\<open>calm\<close>, \<open>torn\<close>, \<open>whole\<close>),
    \<open>CrossRootRecovery\<close> the decision that recovery takes, \<open>CrossRootExamples\<close> a run killed half-way.
  \<^item> \<open>Archive\<close>, \<open>ArchiveFacts\<close>, \<open>ArchiveExamples\<close>: \<open>internal/archive\<close>. The walk over the entries of a
    package with its checks, the signature over what precedes it, extraction; what a verified
    package satisfies, and that extraction yields it.
  \<^item> \<open>JsonGuard\<close>, \<open>JsonGuardFacts\<close>: \<open>internal/jsonguard\<close>. The walk over the tokens that \<open>encoding/json\<close>
    reads, with its stack of open containers, and the scan for unpaired surrogate escapes; on a
    well-formed document the walk refuses exactly repeated members and too deep nesting.
  \<^item> \<open>AuditLog\<close>, \<open>AuditFacts\<close>, \<open>AuditPayload\<close>, \<open>AuditRoundtrip\<close>: \<open>internal/audit\<close>. Events, their payload in
    msgpack and its emission; a decoder of msgpack, the map from paths to values that the encoder's
    tree stands for, and what a payload says.

  Correspondence. A struct is a record whose fields have the source's names behind a prefix, an
  enumeration a datatype, a map from strings an association list sorted by key and without
  duplicates (Go's iteration order is random, and the code sorts where it matters). Byte
  strings are \<open>string\<close>, integers are \<open>int\<close>; the one place where the width matters, durations, wraps
  at 64 bits in \<open>Trust\<close>. A pointer that may be nil is an option. A function that updates its
  argument in place returns it. An error is a constructor, with the values its message is
  formatted from; two authorizations are duplicates when those agree.

  Bounds. \<open>topoSort\<close> recurses with one more unit of fuel than there are names; \<open>resolution_returns\<close>
  shows it is never used up. \<open>forwardLoop\<close> counts steps as the code does, up to
  \<open>maxResolveSteps\<close>.

  Parameters. What is not under \<open>src\<close> is an argument: SHA-256 and Ed25519 (\<open>crypto\<close>), the reading of
  JSON text into the wire structures (\<open>jsonReader\<close>), URL parsing (\<open>urlOps\<close>), Unicode normalisation
  and security descriptors (\<open>externals\<close>), PEM decoding, and the network, which answers each
  operation as it likes.

  Not modelled: the Zstandard and tar formats of package archives, image composition, the command line,
  and the producer side, all for a later extension; kernel interfaces, file modes and file
  input and output as such, which have no logic to state.
\<close>

section \<open>Transactions\<close>







text \<open>C4. A transaction over several roots is one transaction. A run that reports success has
  committed in every root of the plan, and one that is refused has changed no package of any.
  Whatever the run came to, and after any number of restarts and of recoveries that failed or were
  killed: a recovery that returns leaves every root of the plan committed, or the packages, holders
  and links of every one as they were, and the other roots are not touched.\<close>

theorem cross_root_all_or_none:
  assumes "fresh envs ops x s0" and "placed envs ops s0"
    and "ExecuteCrossRoot envs ops x s0 = (r, s1)" and "aftermath envs ops x s0 s"
    and "RecoverCrossRoot envs x s = (outcome.Done b, s')"
  shows "(case r of
            outcome.Done (res, err) \<Rightarrow> err = None \<longrightarrow> allCommitted envs ops s0 s1
          | Failed e \<Rightarrow> noneChanged ops s0 s1
          | Crashed \<Rightarrow> True) \<and>
    (allCommitted envs ops s0 s' \<or> noneChanged ops s0 s') \<and>
    (\<forall>root. root \<notin> set (planRoots ops) \<longrightarrow> dbs s' root = dbs s0 root)"
  using executed_run [OF assms(1-3)] recovered_run [OF assms(1,2,4,5)] decided_all_or_none [OF _ assms(2)]
    decided_elsewhere by blast

lemma cross_root_all_or_none_witness:
  "\<exists>s'. RecoverCrossRoot twoEnvs ''x'' (restart killedCommit) = (outcome.Done True, s') \<and>
     packagesAt killedCommit ''/a'' = Some [''a''] \<and> packagesAt killedCommit ''/b'' = Some [] \<and>
     packagesAt s' ''/b'' = Some [''a''] \<and>
     (allCommitted twoEnvs twoOperations (twoMachines (replicate 18 Proceeds @ [Crashes])) s' \<or>
      noneChanged twoOperations (twoMachines (replicate 18 Proceeds @ [Crashes])) s')"
proof -
  obtain r s' where run: "RecoverCrossRoot twoEnvs ''x'' (restart killedCommit) = (r, s')" by force
  with recovered_commit have ended: "r = outcome.Done True" "packagesAt s' ''/b'' = Some [''a'']" by simp_all
  obtain q s1 where first: "ExecuteCrossRoot twoEnvs twoOperations ''x'' (twoMachines (replicate 18 Proceeds @ [Crashes])) = (q, s1)"
    by force
  have "aftermath twoEnvs twoOperations ''x'' (twoMachines (replicate 18 Proceeds @ [Crashes])) (restart killedCommit)"
    unfolding killedCommit_def by (rule aftermath.restarted [OF aftermath.executed restart_dbs])
  from cross_root_all_or_none [OF two_start first this run [unfolded ended(1)]] run ended killed_commit
  show ?thesis by blast
qed

text \<open>C5. The links that are recorded are always the current ones. On a machine that started with an
  empty database, after any sequence of runs of \<open>Execute\<close>, \<open>Claim\<close> and \<open>Recover\<close>, each under failures and
  crashes of its own, and any changes to the file tree between them, the recorded links are those
  the specification derives from the manifests of the installed packages and the recorded holders,
  and the schema's constraints hold.\<close>

theorem links_current_for_life:
  assumes "machine_run decoder m m'" and "db m = instDatabase"
  shows "db_ok (db m') \<and> linksCurrent decoder (db m')"
  using run_from_fresh [OF assms] by simp

lemma links_current_for_life_witness:
  "\<exists>m' :: machine. map (\<lambda>p. (dp_Name p, dp_Version p)) (t_package (db m')) = [(''a'', ''1-1'')] \<and>
     linksCurrent (e_DecodeManifest instEnv) (db m')"
proof (rule run_succeeds [OF install_run])
  fix res m'
  assume run: "Execute instEnv [instOperation] (instMachine []) = (outcome.Done (res, None), m')"
    and vs: "map (\<lambda>p. (dp_Name p, dp_Version p)) (t_package (db m')) = [(''a'', ''1-1'')]"
  have decodes: "manifestsDecode instEnv [instOperation]"
    by (simp add: manifestsDecode_def instEnv_def instProvided_def)
  have "boot [] [] (instMachine []) = instMachine []" by (simp add: boot_def instMachine_def)
  with machine_step.executes [OF refl decodes, of "instMachine []" "[]" "[]"] run
  have "machine_run (e_DecodeManifest instEnv) (instMachine []) m'"
    unfolding machine_run_def by simp
  from links_current_for_life [OF this] have "linksCurrent (e_DecodeManifest instEnv) (db m')"
    by (simp add: instMachine_def)
  with vs show ?thesis by (intro exI conjI)
qed

text \<open>C6. A grant or revocation of a role changes that one holder, and only to an installed package
  that is eligible for the role; the packages and their files stay as they were, and the recorded
  links become the ones the specification derives. A run that reports an error has changed none
  of these, and one that is killed has done the one or the other.\<close>

theorem claim_changes_one_holder:
  assumes "db_ok (db m)" and "Claim env req m = (r, m')"
  shows "db_ok (db m') \<and>
    (case r of
       outcome.Done (res, err) \<Rightarrow>
         if err = None then claimEffect env req (db m) (db m') else packageState (db m') = packageState (db m)
     | Failed e \<Rightarrow> packageState (db m') = packageState (db m)
     | Crashed \<Rightarrow> packageState (db m') = packageState (db m) \<or> claimEffect env req (db m) (db m'))"
  using assms by (rule Claim_outcome)

lemma claim_changes_one_holder_witness:
  "let (r, m') = Claim shEnv shRequest olderMachine
   in claimEffect shEnv shRequest (db olderMachine) (db m') \<and>
      map (\<lambda>l. (cl_Path l, cl_Target l)) (t_claim_link (db m')) = [(''/usr/bin/sh'', ''/usr/bin/dash'')]"
proof -
  obtain r m' where run: "Claim shEnv shRequest olderMachine = (r, m')" by force
  with claim_run obtain res where "r = outcome.Done (res, None)"
    and links: "map (\<lambda>l. (cl_Path l, cl_Target l)) (t_claim_link (db m')) = [(''/usr/bin/sh'', ''/usr/bin/dash'')]"
    by (auto split: outcome.splits)
  with claim_changes_one_holder [OF example_databases(2) run]
  have "claimEffect shEnv shRequest (db olderMachine) (db m')" by simp
  with run links show ?thesis by simp
qed

section \<open>Dependency resolution\<close>







text \<open>C10. The operations of a plan come in an order that can be executed: the removals first,
  each before the removed packages it depends on, then the installations, upgrades and
  downgrades, each after the packages of the plan it depends on. The installed set has one
  entry per root and name.\<close>

theorem plan_order_executable:
  assumes "resolveCore reqs inst av ref opts = Inr plan"
    and "distinct (map installedKey (installedList inst))"
  shows "\<exists>w rem fwd. pl_Operations plan = rem @ fwd \<and>
    world_ok (set av) (o_PrimaryArch opts) (installedAt inst) w \<and>
    reaches (applyOperations (pl_Operations plan) (installedVersions inst)) w \<and>
    (\<forall>op\<in>set rem. op_Kind op = OpRemove) \<and> (\<forall>op\<in>set fwd. op_Kind op \<noteq> OpRemove) \<and>
    (\<forall>i j ri ot. i < length rem \<and> j < length rem \<and>
       ri \<in> set (installedList inst) \<and> ot \<in> set (installedList inst) \<and>
       opKey (rem ! i) = installedKey ri \<and> opKey (rem ! j) = installedKey ot \<and>
       needed ref (o_PrimaryArch opts) ri ot \<longrightarrow> i < j) \<and>
    (\<forall>i j. i < length fwd \<and> j < length fwd \<and>
       depends_on w ref (o_PrimaryArch opts) (opKey (fwd ! i)) (opKey (fwd ! j)) \<longrightarrow> j < i)"
  using assms by (rule plan_order)

lemma plan_order_executable_witness:
  "\<exists>w rem fwd. pl_Operations exRemovalPlan = rem @ fwd \<and>
    reaches (applyOperations (pl_Operations exRemovalPlan) (installedVersions exBoth)) w \<and>
    (\<forall>i j ri ot. i < length rem \<and> j < length rem \<and>
       ri \<in> set (installedList exBoth) \<and> ot \<in> set (installedList exBoth) \<and>
       opKey (rem ! i) = installedKey ri \<and> opKey (rem ! j) = installedKey ot \<and>
       needed None (o_PrimaryArch exOptions) ri ot \<longrightarrow> i < j)"
proof -
  have "distinct (map installedKey (installedList exBoth))" by code_simp
  from plan_order_executable [OF removal_example this] show ?thesis by blast
qed



text \<open>C12. Resolution always returns a plan or a rejection: the bound of the recursion in the
  topological sorts is never reached, whatever the dependencies, and the work list ends by its
  own limit.\<close>

theorem resolution_returns:
  "(\<exists>plan. resolveCore reqs inst av ref opts = Inr plan) \<or>
   (\<exists>e. resolveCore reqs inst av ref opts = Inl e \<and> e \<noteq> SortFuel)"
  using resolve_fuel [of reqs inst av ref opts]
  by (cases "resolveCore reqs inst av ref opts") auto

text \<open>C13. The topological sort succeeds exactly on acyclic dependencies, and then returns every
  name once, each after all it depends on.\<close>

theorem topological_sort_correct:
  assumes "\<And>n. n \<in> set names \<Longrightarrow> set (depsOf n) \<subseteq> set names"
  shows "case topoSort names depsOf of
      Inr out \<Rightarrow> deps_first depsOf {} out \<and> distinct out \<and> set out = set names \<and>
        (\<forall>m\<in>set names. (m, m) \<notin> (edges depsOf)\<^sup>+)
    | Inl e \<Rightarrow> \<exists>m\<in>set names. (m, m) \<in> (edges depsOf)\<^sup>+ \<and>
        e = Rejected \<lparr>rj_Reason = ReasonCycle, rj_Detail = [nameOf m]\<rparr>"
proof (cases "topoSort names depsOf")
  case (Inl e)
  then show ?thesis using topoSort_fails [OF Inl assms] by simp
next
  case (Inr out)
  then show ?thesis
    using topoSort_sound [OF Inr] topoSort_distinct [OF Inr] topoSort_set [OF Inr assms]
      topoSort_succeeds_iff [of names depsOf] assms by simp
qed

lemma topological_sort_correct_witness:
  "case topoSort [''a'', ''b''] (\<lambda>n. if n = ''a'' then [''b''] else []) of
      Inr out \<Rightarrow> deps_first (\<lambda>n. if n = ''a'' then [''b''] else []) {} out \<and> distinct out \<and>
        set out = set [''a'', ''b''] \<and>
        (\<forall>m\<in>set [''a'', ''b'']. (m, m) \<notin> (edges (\<lambda>n. if n = ''a'' then [''b''] else []))\<^sup>+)
    | Inl e \<Rightarrow> \<exists>m\<in>set [''a'', ''b'']. (m, m) \<in> (edges (\<lambda>n. if n = ''a'' then [''b''] else []))\<^sup>+ \<and>
        e = Rejected \<lparr>rj_Reason = ReasonCycle, rj_Detail = [nameOf m]\<rparr>"
  by (rule topological_sort_correct) auto

text \<open>C14. A removal takes out the least: the result has none of the targets, every remaining
  package keeps its dependencies, and it contains every part of the world that is without the
  targets and holds itself up.\<close>

theorem removal_is_greatest_whole_part:
  assumes "applyRemovals w ts ref opts = Inr w'" and "ts \<noteq> []" and "map_get w [] = None"
  shows "(\<forall>t\<in>set ts. map_get w t \<noteq> None \<and> map_get w' t = None) \<and> submap w' w \<and>
    (\<forall>k p. map_get w' k = Some p \<longrightarrow> held_up w' ref (o_PrimaryArch opts) p) \<and>
    (\<forall>u. submap u w \<and> (\<forall>t\<in>set ts. map_get u t = None) \<and>
       (\<forall>k p. map_get u k = Some p \<longrightarrow> held_up u ref (o_PrimaryArch opts) p) \<longrightarrow> submap u w')"
  using applyRemovals_spec [OF assms] applyRemovals_sub [OF assms(1)] by blast

lemma removal_is_greatest_whole_part_witness:
  "\<exists>w'. applyRemovals (initialWorld exBoth) [worldKey [] ''b''] None exOptions = Inr w' \<and>
    (\<forall>k p. map_get w' k = Some p \<longrightarrow> held_up w' None ''x'' p)"
proof -
  have "applyRemovals (initialWorld exBoth) [worldKey [] ''b''] None exOptions = Inr (initialWorld (exOnly (CHR ''1'')))"
    by code_simp
  moreover have "map_get (initialWorld exBoth) [] = None" by code_simp
  ultimately show ?thesis
    using removal_is_greatest_whole_part [of "initialWorld exBoth" "[worldKey [] ''b'']" None exOptions]
    by (auto simp: exOptions_def)
qed

text \<open>C15. The consistency check accepts exactly the consistent worlds without a regression the
  operator did not allow.\<close>

theorem consistency_check_exact:
  "checkConsistency w ref opts allowed = Inr () \<longleftrightarrow>
     consistent w ref (o_PrimaryArch opts) \<and> no_regression w opts allowed"
  by (rule checkConsistency_ok)

text \<open>C16. The search for a package that satisfies a dependency is sound and complete: it gives
  an available candidate that satisfies the dependency and is installable here whenever there
  is one, and nothing only when there is none.\<close>

theorem dependency_search_complete:
  "case bestForDependency (buildIndex av) dep arch primaryArch repo prio of
     Some c \<Rightarrow> c \<in> set av \<and> installableArch (c_Architecture c) primaryArch \<and>
       satisfies (c_Name c) (c_Version c) (c_Architecture c) (c_Provides c) dep arch primaryArch
   | None \<Rightarrow> \<not> (\<exists>c\<in>set av. installableArch (c_Architecture c) primaryArch \<and>
       satisfies (c_Name c) (c_Version c) (c_Architecture c) (c_Provides c) dep arch primaryArch)"
proof (cases "bestForDependency (buildIndex av) dep arch primaryArch repo prio")
  case None
  then show ?thesis using bestForDependency_None [of av dep arch primaryArch repo prio] by simp
next
  case (Some c)
  then show ?thesis using bestForDependency_sound [OF Some] by simp
qed



section \<open>Versions and constraints\<close>

text \<open>C18. \<open>Compare\<close> is a total preorder on versions with values -1, 0 and 1: it is reflexive,
  swapping the arguments negates it, and it is transitive.\<close>

theorem compare_total_preorder:
  "Compare v v = 0 \<and> Compare w v = - Compare v w \<and> Compare v w \<in> {- 1, 0, 1} \<and>
   (Compare u v \<le> 0 \<and> Compare v w \<le> 0 \<longrightarrow> Compare u w \<le> 0)"
  using version_cmp.cmp_refl [of v] version_cmp.cmp_swap [of w v] version_cmp.cmp_sign [of v w]
    version_cmp.cmp_trans [of u v w] by blast

lemma compare_total_preorder_witness:
  "Compare (exVersion (CHR ''1'')) (exVersion (CHR ''3'')) \<le> 0"
proof -
  have "Compare (exVersion (CHR ''1'')) (exVersion (CHR ''2'')) \<le> 0"
    and "Compare (exVersion (CHR ''2'')) (exVersion (CHR ''3'')) \<le> 0" by code_simp+
  with compare_total_preorder [of "exVersion (CHR ''2'')" "exVersion (CHR ''3'')" "exVersion (CHR ''1'')"]
  show ?thesis by blast
qed

text \<open>C19. The parser accepts exactly the grammar: a string parses to a version just when it is the
  written form of the version's epoch, upstream and revision, the epoch and revision are
  canonical numbers, the revision positive, the upstream starts with a letter or digit and has
  only the permitted characters, the segments are its tokens, and the revision is there unless
  the relaxed form was asked for.\<close>

theorem version_parser_exact:
  "parse s relaxed = Inr v \<longleftrightarrow> wf_version v \<and> s = v_raw v \<and> (relaxed \<or> v_revision v \<noteq> [])"
  by (rule parse_iff)

lemma version_parser_exact_witness:
  "(case parse ''1:2.0~rc1-3'' False of Inr v \<Rightarrow> wf_version v \<and> v_revision v = ''3'' | Inl e \<Rightarrow> False)"
proof -
  have "case parse ''1:2.0~rc1-3'' False of Inr v \<Rightarrow> v_revision v = ''3'' | Inl e \<Rightarrow> False"
    by code_simp
  then obtain v where v: "parse ''1:2.0~rc1-3'' False = Inr v" "v_revision v = ''3''"
    by (cases "parse ''1:2.0~rc1-3'' False") auto
  then show ?thesis using version_parser_exact [of "''1:2.0~rc1-3''" False v] by simp
qed

text \<open>C20. The tokeniser's loop ends on every string the parser lets through to it: no input makes
  the parser run for ever.\<close>

theorem version_parser_terminates:
  "parse s relaxed \<noteq> Inl (TokenizerLoops u)"
  by (rule parse_terminates)

text \<open>A pre-release marked with a tilde sorts before its release: with equal epochs, a version
  whose upstream continues another's with a tilde and something after it is the smaller one,
  whatever the revisions.\<close>

theorem tilde_sorts_before_release:
  assumes "parse s b = Inr v" and "parse t b' = Inr w"
    and "v_upstream w = v_upstream v @ CHR ''~'' # x" and "list_ex isAlphanumeric x"
    and "compareNumeric (v_epoch w) (v_epoch v) = 0"
  shows "Compare w v = - 1"
  using assms by (rule tilde_before_release)

lemma tilde_sorts_before_release_witness:
  "\<exists>v w. parse ''2.0-1'' False = Inr v \<and> parse ''2.0~rc1-9'' False = Inr w \<and> Compare w v = - 1"
proof -
  have "case parse ''2.0-1'' False of Inl _ \<Rightarrow> False | Inr v \<Rightarrow> v_upstream v = ''2.0'' \<and> v_epoch v = []"
    and "case parse ''2.0~rc1-9'' False of Inl _ \<Rightarrow> False | Inr w \<Rightarrow> v_upstream w = ''2.0~rc1'' \<and> v_epoch w = []"
    by code_simp+
  then obtain v w where v: "parse ''2.0-1'' False = Inr v" "v_upstream v = ''2.0''" "v_epoch v = []"
    and w: "parse ''2.0~rc1-9'' False = Inr w" "v_upstream w = ''2.0~rc1''" "v_epoch w = []"
    by (auto split: sum.splits)
  have "Compare w v = - 1"
    by (rule tilde_sorts_before_release [OF v(1) w(1), where x = "''rc1''"]) (simp_all add: v w isAlphanumeric_def isLetter_def less_eq_char_def)
  with v(1) w(1) show ?thesis by blast
qed



text \<open>C22. A constraint cannot tell two versions apart that compare equal, and one that does not need
  historical versions stays satisfied by every newer version: a repository's latest version
  decides it.\<close>

theorem constraint_respects_order:
  assumes "Compare v w \<le> 0" and "Matches c v" and "Compare v w = 0 \<or> \<not> MayNeedHistoricalVersions c"
  shows "Matches c w"
  using assms Matches_cong Matches_upward by blast

lemma constraint_respects_order_witness:
  "Matches \<lparr>exprs = [\<lparr>e_op = OpGreaterEqual, e_operand = exVersion (CHR ''1'')\<rparr>]\<rparr> (exVersion (CHR ''3''))"
  by (rule constraint_respects_order [of "exVersion (CHR ''2'')"]) code_simp+

section \<open>Manifests and paths\<close>

text \<open>C23. Every manifest that validation accepts is well formed: name, version, architecture,
  description and root are of their grammars, every array is sorted by name without a
  duplicate, and every dependency, conflict, provided capability, replacement, claim and
  override is well formed in turn.\<close>

theorem validated_manifest_well_formed:
  assumes "validate x wire = Inr m"
  shows "wf_manifest x m"
  using assms by (rule validate_wf)

lemma validated_manifest_well_formed_witness:
  "\<exists>m. validate (env_ext exEnv) exWireManifest = Inr m \<and> wf_manifest (env_ext exEnv) m"
proof -
  obtain m where "validate (env_ext exEnv) exWireManifest = Inr m"
    using manifest_example by (cases "validate (env_ext exEnv) exWireManifest") auto
  with validated_manifest_well_formed [OF this] show ?thesis by blast
qed

text \<open>C24. A claim path is accepted exactly when it is absolute, its relative part passes the byte
  rules, no component of it is empty, a dot or two dots, it lies under a permitted destination,
  under run or is init, and it is not inside the policy tree.\<close>

theorem claim_path_rule:
  "CheckClaimPath nfc p = Inr () \<longleftrightarrow>
     (\<exists>rel. p = CHR ''/'' # rel \<and> rel \<noteq> [] \<and> CheckPathBytes nfc rel = Inr () \<and>
        set (split_byte (CHR ''/'') rel) \<inter> {[], ''.'', ''..''} = {} \<and>
        (rel = ''init'' \<or> (\<exists>top\<in>insert ''run/'' (set PermittedTopLevels). has_prefix rel top)) \<and>
        \<not> prefix [''lcl'', ''policy''] (clean_components rel))"
proof -
  have dest: "UnderPermittedTopLevel rel \<or> rel = claimOnlyRootName \<or> list_ex (has_prefix rel) claimOnlyTopLevels \<longleftrightarrow>
      rel = ''init'' \<or> (\<exists>top\<in>insert ''run/'' (set PermittedTopLevels). has_prefix rel top)" for rel
    by (auto simp: UnderPermittedTopLevel_def claimOnlyTopLevels_def claimOnlyRootName_def list_ex_iff)
  have policy: "Check rel = Inr () \<longleftrightarrow> \<not> prefix [''lcl'', ''policy''] (clean_components rel)" for rel
    by (simp add: Check_iff Forbidden_components)
  have "CheckClaimPath nfc p = Inr () \<longleftrightarrow> (\<exists>rel. checkAbsolute nfc p = Inr rel \<and>
      (rel = ''init'' \<or> (\<exists>top\<in>insert ''run/'' (set PermittedTopLevels). has_prefix rel top)) \<and> Check rel = Inr ())"
    unfolding CheckClaimPath_def dest
    by (cases "checkAbsolute nfc p") (simp_all add: rbind_def)
  moreover have "set cs \<inter> {[], ''.'', ''..''} = {} \<longleftrightarrow> (\<forall>c\<in>set cs. c \<noteq> [] \<and> c \<noteq> ''.'' \<and> c \<noteq> ''..'')" for cs
    by blast
  ultimately show ?thesis unfolding checkAbsolute_iff policy by (simp only: conj_assoc)
qed

section \<open>Claims\<close>


text \<open>C26. Applying the difference between two link sets turns the one into the other, and the
  difference is empty exactly when they are the same.\<close>

theorem reconciliation_reaches_desired:
  assumes "distinct (map l_Path actual)" and "distinct (map l_Path desired)"
  shows "applyClaimsPlan (Reconcile actual desired) (set actual) = set desired \<and>
    (planEmpty (Reconcile actual desired) \<longleftrightarrow> set actual = set desired)"
  using Reconcile_reaches [OF assms] Reconcile_empty_iff [OF assms] by blast

lemma reconciliation_reaches_desired_witness:
  "applyClaimsPlan (Reconcile [\<lparr>l_Path = ''/run/a'', l_Role = ''r'', l_Slot = ''s'', l_Target = ''/usr/bin/a''\<rparr>]
       [\<lparr>l_Path = ''/run/b'', l_Role = ''r'', l_Slot = ''s'', l_Target = ''/usr/bin/a''\<rparr>])
     (set [\<lparr>l_Path = ''/run/a'', l_Role = ''r'', l_Slot = ''s'', l_Target = ''/usr/bin/a''\<rparr>]) =
   set [\<lparr>l_Path = ''/run/b'', l_Role = ''r'', l_Slot = ''s'', l_Target = ''/usr/bin/a''\<rparr>]"
  by (rule reconciliation_reaches_desired [THEN conjunct1]) simp_all

text \<open>C27. The relative target written into a claim's symbolic link resolves, from the directory of the
  link, to the absolute target that was declared.\<close>

theorem relative_target_resolves:
  "cleanRooted (dirRooted (l_Path link) @ ''/'' @ RelativeTarget link) = cleanRooted (l_Target link)"
  by (rule RelativeTarget_resolves)

text \<open>C28. The roles a package can hold are listed once each and in order, and a package that is
  eligible has a slot to fill: the entry for the role that materialisation reads declares a
  target.\<close>

theorem provided_roles_exact:
  "set (ProvidedRoles m) = {role. EligibleProvider m role} \<and> sorted_wrt (<) (ProvidedRoles m) \<and>
   (distinct (map p_Name (m_Provides m)) \<longrightarrow>
      (\<forall>role. EligibleProvider m role \<longleftrightarrow>
        (\<exists>slot desc. map_get (providesFor m role) slot = Some desc \<and> cs_Target desc \<noteq> [])))"
  using ProvidedRoles_ok [of m] EligibleProvider_slots [of m] by blast

lemma provided_roles_exact_witness:
  "\<exists>m. distinct (map p_Name (m_Provides m)) \<and> m_Provides m \<noteq> [] \<and>
     (\<forall>role. EligibleProvider m role \<longleftrightarrow>
        (\<exists>slot desc. map_get (providesFor m role) slot = Some desc \<and> cs_Target desc \<noteq> []))"
proof -
  define m where "m = (undefined :: Manifest)\<lparr>m_Provides :=
    [\<lparr>p_Name = ''sh'', p_Version = None, p_Claims = [(''main'', \<lparr>cs_Path = [], cs_Target = ''/usr/bin/dash''\<rparr>)]\<rparr>]\<rparr>"
  have "distinct (map p_Name (m_Provides m))" "m_Provides m \<noteq> []" by (simp_all add: m_def)
  with provided_roles_exact [of m] show ?thesis by blast
qed

section \<open>Package archives\<close>

text \<open>C29. A package that passes verification is what the format asks for. Its manifest is valid and
  agrees with the declared size; its payload is the entries of the archive outside the reserved
  prefix, in strict order and at most the permitted number, each with a canonical header of the
  build's time, a clean relative path and, for a symbolic link, a relative target; every regular
  file has the size and digest the integrity manifest lists, which lists no other; overrides of
  security descriptors name files and directories of the payload. A package reported as signed has
  as its last entry a signature, by a key the resolver trusts, over every byte before its header;
  one reported as unsigned has no signature entry.\<close>

theorem verified_package_sound:
  assumes "VerifyArchive v (Some t) resolveKey declared = Inr p"
  shows "wellFormedPackage v t (vp_Package p) \<and>
    (0 \<le> declared \<longrightarrow> m_SizeInstalled (ap_Manifest (vp_Package p)) = declared) \<and>
    (if vp_Signed p then trustedSignature v t resolveKey else metadataSignature \<notin> itemName ` set (ta_Items t))"
  using verified_package [OF assms] by blast

lemma verified_package_sound_witness:
  "\<exists>p :: verifiedPackage. wellFormedPackage exVerifier exSigned (vp_Package p) \<and> m_SizeInstalled (ap_Manifest (vp_Package p)) = 1 \<and>
     trustedSignature exVerifier exSigned exResolve \<and>
     map (\<lambda>e. (pe_Path e, pe_Type e)) (ap_Payload (vp_Package p)) = [(''usr'', EntryDir), (''usr/f'', EntryFile)]"
proof (rule signed_archive)
  fix p
  assume p: "VerifyArchive exVerifier (Some exSigned) exResolve 1 = Inr p" "vp_Signed p = True"
    "map (\<lambda>e. (pe_Path e, pe_Type e)) (ap_Payload (vp_Package p)) = [(''usr'', EntryDir), (''usr/f'', EntryFile)]"
  from verified_package_sound [OF p(1)] p(2) have "wellFormedPackage exVerifier exSigned (vp_Package p)"
    "m_SizeInstalled (ap_Manifest (vp_Package p)) = 1" "trustedSignature exVerifier exSigned exResolve" by simp_all
  with p(3) show ?thesis by (intro exI [of _ p] conjI)
qed

text \<open>C30. What is extracted is what was verified. Extracting an archive that passed verification ends
  without an error and hands out exactly the entries of the verified package, in their order, each
  with its path, type, size and target, and for every regular file a content whose digest is the
  one recorded with the package. The tar reader gives no content for other entries.\<close>

theorem extraction_matches_verification:
  assumes "VerifyArchive v (Some t) resolveKey declared = Inr p" and "filesOnly t"
  shows "\<exists>out. Extract (x_nfc (v_ext v)) (Some t) = (out, None) \<and> list_all2 (extractsAs v) out (ap_Payload (vp_Package p))"
  using assms by (rule verified_extraction)

lemma extraction_matches_verification_witness:
  "\<exists>out e data. Extract (x_nfc (v_ext exVerifier)) (Some exSigned) = (out, None) \<and>
     out ! 1 = (e, Some data) \<and> pe_Path e = ''usr/f'' \<and> length out = 2"
proof (rule signed_archive)
  fix p
  assume p: "VerifyArchive exVerifier (Some exSigned) exResolve 1 = Inr p"
    "map (\<lambda>e. (pe_Path e, pe_Type e)) (ap_Payload (vp_Package p)) = [(''usr'', EntryDir), (''usr/f'', EntryFile)]"
  from p(2) obtain d f where payload: "ap_Payload (vp_Package p) = [d, f]" "pe_Path f = ''usr/f''" by auto
  from extraction_matches_verification [OF p(1) signed_archive_files] obtain out where
    out: "Extract (x_nfc (v_ext exVerifier)) (Some exSigned) = (out, None)" "list_all2 (extractsAs exVerifier) out [d, f]"
    unfolding payload by blast
  then obtain x y where xy: "out = [x, y]" "extractsAs exVerifier y f" by (auto simp: list_all2_Cons2)
  then obtain data where "y = (f\<lparr>pe_Hash := []\<rparr>, Some data)" by (cases y) (auto simp: extractsAs_def)
  with out(1) xy(1) payload(2) show ?thesis
    by (intro exI [of _ out] exI [of _ "f\<lparr>pe_Hash := []\<rparr>"] exI [of _ data]) simp
qed

section \<open>Signed documents\<close>

text \<open>C31. The JSON guard is exact. On a text that the decoder reads as documents, and that consists of
  string literals and other characters, it accepts exactly those in which no more than 64 containers
  lie within each other, no object has a member twice, and every surrogate escape in a string
  literal is one of a pair in order.\<close>

theorem json_guard_exact:
  assumes "tokens (concat (map pieceText ps)) = (concat (map tokensOf js), True)" and "list_all piece_ok ps"
  shows "guardCheck tokens (concat (map pieceText ps)) = Inr () \<longleftrightarrow>
    js \<noteq> [] \<and> list_all (guarded MaxDepth) js \<and> list_all pairedPiece ps"
  using assms by (rule guard_exact)

lemma json_guard_exact_witness:
  "guardCheck (\<lambda>_. (tokensOf (JObject [(''a'', JNull), (''a'', JNull)]), True))
     (concat (map pieceText [Other (CHR ''{''), Literal [Plain (CHR ''a'')], Other (CHR '':''), Literal [Unicode ''d83d'', Unicode ''de00'']])) \<noteq> Inr () \<and>
   guardCheck (\<lambda>_. (tokensOf (JObject [(''a'', JNull), (''b'', JNull)]), True))
     (concat (map pieceText [Literal [Unicode ''d83d'', Unicode ''de00'']])) = Inr ()"
proof -
  have hex: "hex4 ''d83d'' = Some 0xD83D" "hex4 ''de00'' = Some 0xDE00" by code_simp+
  have twice: "\<not> list_all (guarded MaxDepth) [JObject [(''a'', JNull), (''a'', JNull)]]"
    and once: "list_all (guarded MaxDepth) [JObject [(''a'', JNull), (''b'', JNull)]]"
    by (simp_all add: guarded_def MaxDepth_def)
  have guard: "guardCheck (\<lambda>_. (tokensOf j, True)) (concat (map pieceText ps)) = Inr () \<longleftrightarrow>
      [j] \<noteq> [] \<and> list_all (guarded MaxDepth) [j] \<and> list_all pairedPiece ps" if "list_all piece_ok ps" for j ps
    by (rule json_guard_exact) (use that in simp_all)
  have "list_all piece_ok [Other (CHR ''{''), Literal [Plain (CHR ''a'')], Other (CHR '':''),
      Literal [Unicode ''d83d'', Unicode ''de00'']]"
    and ok: "list_all piece_ok [Literal [Unicode ''d83d'', Unicode ''de00'']]"
    and paired: "list_all pairedPiece [Literal [Unicode ''d83d'', Unicode ''de00'']]"
    by (simp_all add: hex isHighSurrogate_def isLowSurrogate_def)
  from guard [OF this(1)] guard [OF ok] paired twice once show ?thesis by blast
qed

text \<open>C32. An audit payload says its fields and nothing else. A payload is encoded exactly when every
  value has a form, no path has an empty segment and no path continues another; its bytes, which
  are the same in whatever order the fields are taken, decode to nested maps that have at the
  segments of each path the value of that field, and no other value anywhere.\<close>

theorem audit_payload_exact:
  assumes "distinct (map fst fs)"
  shows "case encodePayload fs of
      Inl e \<Rightarrow> \<not> encodable fs
    | Inr b \<Rightarrow>
        encodable fs \<and>
        (length b < 2 ^ 32 \<longrightarrow> (\<exists>t. decodeMessage b = Some t \<and>
           (\<forall>segs x. says t segs x \<longleftrightarrow> (\<exists>(path, v)\<in>set fs. segs = segmentsOf path \<and> x = mpValue v)))) \<and>
        (\<forall>fs'. distinct (map fst fs') \<and> set fs' = set fs \<longrightarrow> encodePayload fs' = Inr b)"
  using assms by (rule payload_exact)

lemma audit_payload_exact_witness:
  "\<exists>b t. encodePayload exFields = Inr b \<and> encodePayload (rev exFields) = Inr b \<and> decodeMessage b = Some t \<and>
     says t [''transaction'', ''id''] (MUint 300) \<and> \<not> says t [''outcome'', ''reason''] (MStr ''ok'')"
proof -
  obtain b where b: "encodePayload exFields = Inr b" "length b = 72"
    using exFields_payload by (cases "encodePayload exFields") auto
  have "distinct (map fst exFields)" "distinct (map fst (rev exFields))"
    using exFields_payload by (simp_all add: rev_map [symmetric])
  from audit_payload_exact [OF this(1)] this(2) b obtain t where t: "decodeMessage b = Some t"
    "\<forall>segs x. says t segs x \<longleftrightarrow> (\<exists>(path, v)\<in>set exFields. segs = segmentsOf path \<and> x = mpValue v)"
    and rev: "encodePayload (rev exFields) = Inr b"
    by auto
  from t(2) have "says t [''transaction'', ''id''] (MUint 300)" "\<not> says t [''outcome'', ''reason''] (MStr ''ok'')"
    by (simp_all add: exFields_def)
  with b(1) t(1) rev show ?thesis by blast
qed

section \<open>Repositories\<close>



text \<open>C34. What a signed repository gives to read was signed by a key of the trust set recorded for it,
  valid at the time of reading, however the state was reached: from the state before the
  repository was added, with configurations that are never in unsigned mode.\<close>

theorem active_index_signed:
  assumes "client_run env admits name st st'" and "GetRepository st name = None"
    and "\<And>cfg. admits cfg \<Longrightarrow> cfg_Name cfg = name \<Longrightarrow> \<not> UnsignedMode cfg"
    and "ActiveIndex env name now st' = Inr idx"
  shows "\<exists>r trust b sig. GetRepository st' name = Some r \<and>
    ParseTrustSet (rp_TrustKeys r) = Inr trust \<and>
    map_get (st_cache st') name = Some (b, Some sig) \<and>
    signed_by env b sig (VerificationKeys trust now) \<and>
    DecodeIndex (env_json env) (env_ext env) b = Inr idx"
  using assms by (rule signed_index_verified)

lemma active_index_signed_witness:
  "\<exists>r trust b sig. GetRepository exState ''repo'' = Some r \<and>
    ParseTrustSet (rp_TrustKeys r) = Inr trust \<and>
    map_get (st_cache exState) ''repo'' = Some (b, Some sig) \<and>
    signed_by exEnv b sig (VerificationKeys trust exNow) \<and>
    DecodeIndex (env_json exEnv) (env_ext exEnv) b = Inr exIndex"
  by (rule active_index_signed [OF run_example _ _ active_example])
     (simp_all add: GetRepository_def map_get_def signed_example)





text \<open>C37. A refresh that is accepted never lowers the floor, whether it made progress or not, and with
  generation times in whole seconds the recorded refresh time moves only when the floor rises:
  a repository that serves the same index for ever ages.\<close>

theorem floor_never_lowered:
  assumes "applyFreshnessFloor row idx (Some p) now = Inr row'"
  shows "floor_le p row' \<and> rp_HighestIndexVersion row' = ix_IndexVersion idx \<and>
    (ix_GeneratedAt idx mod second_ns = 0 \<and> rp_LastRefreshAt row' \<noteq> rp_LastRefreshAt p \<longrightarrow>
       rp_HighestIndexVersion p < rp_HighestIndexVersion row' \<or>
       rp_GeneratedAtFloor p < rp_GeneratedAtFloor row')"
proof (intro conjI impI)
  show "floor_le p row'" by (rule applyFreshnessFloor_ok(6) [OF assms refl])
  show "rp_HighestIndexVersion row' = ix_IndexVersion idx" by (rule applyFreshnessFloor_ok(4) [OF assms])
qed (elim conjE, rule applyFreshnessFloor_refreshed [OF assms])

lemma floor_never_lowered_witness:
  "floor_le (exRow\<lparr>rp_HighestIndexVersion := 6\<rparr>) exRow"
proof -
  have "applyFreshnessFloor (newRow exConfig (Marshal exTrust) \<lparr>ds_RepoName = ''r'', ds_Description = [],
      ds_Keys = [], ds_ActiveIndex = \<lparr>ip_URL = [], ip_SignatureURL = []\<rparr>,
      ds_ArchiveIndex = \<lparr>ip_URL = [], ip_SignatureURL = []\<rparr>\<rparr>)
      exIndex (Some (exRow\<lparr>rp_HighestIndexVersion := 6\<rparr>)) exNow = Inr exRow"
    by code_simp
  from floor_never_lowered [OF this] show ?thesis by blast
qed

text \<open>A revoked key verifies nothing, and a transitioning key nothing after its date: the keys a
  trust set offers are those of its active entries and of its transitioning entries until
  then, and package signatures resolve to no others.\<close>

theorem only_valid_keys_verify:
  "(pub \<in> set (VerificationKeys ts now) \<longleftrightarrow>
     (\<exists>t\<in>set ts. tk_PublicKey t = pub \<and>
        (tk_Status t = KeyActive \<or> tk_Status t = KeyTransitioning \<and> now \<le> tk_ValidUntil t))) \<and>
   (Resolver ts now fp = (pub, True) \<longrightarrow> pub \<in> set (VerificationKeys ts now))"
  using VerificationKeys_mem [of pub ts now] Resolver_verifies [of ts now fp pub] by blast

lemma only_valid_keys_verify_witness: "exKey \<in> set (VerificationKeys exTrust exNow)"
proof -
  have "Resolver exTrust exNow exFingerprint = (exKey, True)" by code_simp
  with only_valid_keys_verify [of exKey exTrust exNow exFingerprint] show ?thesis by blast
qed

text \<open>C38. Every index that is decoded is well formed: entries of valid names, versions and
  architectures with a digest and a location, sorted by name, and in an active index with each
  name once.\<close>

theorem decoded_index_well_formed:
  assumes "DecodeIndex r x data = Inr idx"
  shows "wf_index x idx"
  using assms by (rule DecodeIndex_wf)

lemma decoded_index_well_formed_witness: "wf_index (env_ext exEnv) exIndex"
  by (rule decoded_index_well_formed [OF exIndex_decoded])

text \<open>C39. Every descriptor that is decoded is well formed: a name, keys with distinct fingerprints in
  order and statuses of the closed set, an active one among them, and both index locations.\<close>

theorem decoded_descriptor_well_formed:
  assumes "DecodeDescriptor r data = Inr d"
  shows "wf_descriptor d"
  using assms by (rule DecodeDescriptor_wf)

lemma decoded_descriptor_well_formed_witness:
  "\<exists>d. DecodeDescriptor exReader [] = Inr d \<and> wf_descriptor d"
proof -
  have "case DecodeDescriptor exReader [] of Inl _ \<Rightarrow> False | Inr d \<Rightarrow> ds_RepoName d = ''r''" by code_simp
  then obtain d where "DecodeDescriptor exReader [] = Inr d" by (auto split: sum.splits)
  with decoded_descriptor_well_formed [OF this] show ?thesis by blast
qed

text \<open>Freshness is decided exactly: an index is rejected when its version or its generation time
  lies below the floor, makes no progress when both are at the floor, and makes progress when
  neither is below and one is above.\<close>

theorem freshness_exact:
  "CheckFreshness idx v t =
     (if ix_IndexVersion idx < v \<or> ix_GeneratedAt idx < t then FreshnessRejected
      else if ix_IndexVersion idx = v \<and> ix_GeneratedAt idx = t then FreshnessNoProgress
      else FreshnessProgress)"
  using CheckFreshness_cases [of idx v t] by (cases "CheckFreshness idx v t") auto



end
